(* ===== verification/Usb_Prelude.thy ===== *)
theory Usb_Prelude
  imports Main "HOL-Library.Word" "HOL-Library.Multiset" "HOL-Library.Monad_Syntax"
begin

text \<open>
  The prelude of the development: the machine-integer types of the C sources, the fact
  collections the component theories fill, and the generic lemmas on options, bytes and
  lists they share.

  A C function is modelled by a HOL function into \<open>'a option\<close> where it can have undefined
  behaviour: \<open>None\<close> stands for a memory fault (a read outside a buffer, a dereference of
  a dead block, a second \<open>free\<close>) or for a misuse of a mutex (locking one that is
  held, unlocking one that is not). An error the code reports is not \<open>None\<close>: it is the
  negative \<open>int\<close> the C function returns.
\<close>

unbundle bit_operations_syntax

type_synonym u8 = "8 word"
type_synonym u16 = "16 word"
type_synonym u32 = "32 word"

named_theorems usb_consts \<open>unfolding of the constants that carry a numeric value\<close>
named_theorems heap_laws \<open>laws of the allocation ledger\<close>
named_theorems parse_laws \<open>what a successful step of the descriptor parser gives\<close>
named_theorems lock_laws \<open>laws of the mutex operations\<close>

subsection \<open>Options\<close>

lemma bind_SomeE:
  assumes "Option.bind m f = Some y"
  obtains x where "m = Some x" and "f x = Some y"
  using assms by (cases m) auto

lemma bind_neq_None_iff: "Option.bind m f \<noteq> None \<longleftrightarrow> (\<exists>x. m = Some x \<and> f x \<noteq> None)"
  by (cases m) auto

lemma if_Some_eq_Some [simp]: "(if b then Some x else None) = Some y \<longleftrightarrow> b \<and> x = y"
  by simp

subsection \<open>Bytes\<close>

definition u8_of :: "nat \<Rightarrow> u8" where
  "u8_of n = word_of_nat n"

lemma unat_u8_of [simp]: "n < 256 \<Longrightarrow> unat (u8_of n) = n"
  by (simp add: u8_of_def unat_of_nat take_bit_eq_mod)

lemma unat_u8_less [simp]: "unat (b :: u8) < 256"
  using unsigned_less [of b] by simp

lemma unat_u16_less [simp]: "unat (w :: u16) < 65536"
  using unsigned_less [of w] by simp

text \<open>A bounded read of a buffer: the value at an index, or a fault outside it.\<close>

definition rd :: "'a list \<Rightarrow> nat \<Rightarrow> 'a option" where
  "rd buf i = (if i < length buf then Some (buf ! i) else None)"

lemma rd_in [simp]: "i < length buf \<Longrightarrow> rd buf i = Some (buf ! i)"
  by (simp add: rd_def)

lemma rd_eq_Some: "rd buf i = Some x \<longleftrightarrow> i < length buf \<and> x = buf ! i"
  by (auto simp: rd_def)

lemma rd_eq_None [simp]: "rd buf i = None \<longleftrightarrow> length buf \<le> i"
  by (simp add: rd_def not_less)

lemma rd_Cons_0 [simp]: "rd (x # xs) 0 = Some x"
  by (simp add: rd_def)

lemma rd_Cons_Suc [simp]: "rd (x # xs) (Suc n) = rd xs n"
  by (simp add: rd_def)

lemma unat_le_int:
  fixes b :: "'a::len word"
  shows "unat b \<le> n \<longleftrightarrow> uint b \<le> int n"
proof -
  have "int (unat b) = uint b" by simp
  then show ?thesis by linarith
qed

lemma drop_bound:
  fixes l :: u8
  assumes "s \<le> int (length b)"
  shows "s - uint l \<le> int (length (drop (unat l) b))"
proof -
  have "int (unat l) = uint l" by simp
  with assms show ?thesis by (simp del: of_nat_unat)
qed

subsection \<open>Little- and big-endian words\<close>

datatype endian = LittleEndian | BigEndian

definition join16 :: "u8 \<Rightarrow> u8 \<Rightarrow> u16" where
  "join16 hi lo = push_bit 8 (ucast hi) OR ucast lo"

definition lo8 :: "u16 \<Rightarrow> u8" where
  "lo8 w = ucast w"

definition hi8 :: "u16 \<Rightarrow> u8" where
  "hi8 w = ucast (drop_bit 8 w)"

lemma join16_hi8_lo8 [simp]: "join16 (hi8 w) (lo8 w) = w"
  unfolding join16_def hi8_def lo8_def
  by (rule bit_word_eqI) (auto simp: bit_simps)

lemma hi8_join16 [simp]: "hi8 (join16 h l) = h"
  unfolding join16_def hi8_def
  by (rule bit_word_eqI) (auto simp: bit_simps dest: bit_imp_le_length)

lemma lo8_join16 [simp]: "lo8 (join16 h l) = l"
  unfolding join16_def lo8_def
  by (rule bit_word_eqI) (auto simp: bit_simps)

definition join32 :: "u8 \<Rightarrow> u8 \<Rightarrow> u8 \<Rightarrow> u8 \<Rightarrow> u32" where
  "join32 b3 b2 b1 b0 =
     push_bit 24 (ucast b3) OR push_bit 16 (ucast b2) OR push_bit 8 (ucast b1) OR ucast b0"

end
