(* ===== verification/C_Heap.thy ===== *)
theory C_Heap
  imports Usb_Prelude
begin

text \<open>
  The C allocator as the sources use it: \<open>malloc\<close>/\<open>calloc\<close>, \<open>free\<close> and
  \<open>realloc\<close> through \<open>usbi_reallocf\<close> (libusbi.h). A heap is a ledger of live blocks.
  Whether a request fails is decided by the environment: \<open>hp_fail n\<close> says that the
  n-th request fails, \<open>hp_refail n\<close> that it fails when it grows a block that exists.
  A pointer field of a struct is a \<open>blk\<close>: NULL, or the block's name with its contents.

  The interface \<open>allocator\<close> states what the parsers rely on; it is interpreted on the
  ledger, and \<open>owns\<close> is the ownership relation the leak-freedom proofs use.
\<close>

type_synonym ptr = nat
type_synonym 'a blk = "(ptr \<times> 'a) option"

record heap =
  hp_next :: nat
  hp_live :: "ptr set"
  hp_fail :: "nat \<Rightarrow> bool"
  hp_refail :: "nat \<Rightarrow> bool"

definition heap_wf :: "heap \<Rightarrow> bool" where
  "heap_wf h \<longleftrightarrow> (\<forall>p \<in> hp_live h. p < hp_next h)"

definition empty_heap :: heap where
  "empty_heap = \<lparr>hp_next = 0, hp_live = {}, hp_fail = (\<lambda>_. False), hp_refail = (\<lambda>_. False)\<rparr>"

definition c_malloc :: "heap \<Rightarrow> ptr option \<times> heap" where
  "c_malloc h =
     (let n = hp_next h; h' = h\<lparr>hp_next := Suc n\<rparr>
      in if hp_fail h n then (None, h') else (Some n, h'\<lparr>hp_live := insert n (hp_live h)\<rparr>))"

definition c_release :: "ptr \<Rightarrow> heap \<Rightarrow> heap option" where
  "c_release p h = (if p \<in> hp_live h then Some (h\<lparr>hp_live := hp_live h - {p}\<rparr>) else None)"

text \<open>\<open>free(p)\<close>: nothing for NULL, a fault for a block that is not live.\<close>

definition c_free :: "ptr option \<Rightarrow> heap \<Rightarrow> heap option" where
  "c_free p h = (case p of None \<Rightarrow> Some h | Some n \<Rightarrow> c_release n h)"

text \<open>Reading or writing through a pointer is a fault unless its block is live.\<close>

definition c_deref :: "ptr \<Rightarrow> heap \<Rightarrow> unit option" where
  "c_deref p h = (if p \<in> hp_live h then Some () else None)"

definition usbi_reallocf :: "ptr option \<Rightarrow> heap \<Rightarrow> (ptr option \<times> heap) option" where
  "usbi_reallocf p h =
     (case p of
        None \<Rightarrow> Some (c_malloc h)
      | Some n \<Rightarrow>
          if hp_refail h (hp_next h)
          then do { h1 \<leftarrow> c_release n (h\<lparr>hp_next := Suc (hp_next h)\<rparr>); Some (None, h1) }
          else do { h1 \<leftarrow> c_release n h;
                    Some (Some (hp_next h),
                          h1\<lparr>hp_next := Suc (hp_next h), hp_live := insert (hp_next h) (hp_live h1)\<rparr>) })"

definition blk_ptr :: "'a blk \<Rightarrow> ptr option" where
  "blk_ptr b = map_option fst b"

definition blk_ptrs :: "'a blk \<Rightarrow> ptr list" where
  "blk_ptrs b = (case b of None \<Rightarrow> [] | Some (p, _) \<Rightarrow> [p])"

primrec release_list :: "(nat \<Rightarrow> 'h \<Rightarrow> 'h option) \<Rightarrow> nat list \<Rightarrow> 'h \<Rightarrow> 'h option" where
  "release_list rel [] h = Some h"
| "release_list rel (p # ps) h = do { h1 \<leftarrow> rel p h; release_list rel ps h1 }"

text \<open>
  \<open>owns h h' ps\<close>: between \<open>h\<close> and \<open>h'\<close> exactly the blocks \<open>ps\<close> were added, each once, and
  the environment's choices are the same.
\<close>

definition owns :: "heap \<Rightarrow> heap \<Rightarrow> ptr list \<Rightarrow> bool" where
  "owns h h' ps \<longleftrightarrow> distinct ps \<and> set ps \<inter> hp_live h = {} \<and> hp_live h' = hp_live h \<union> set ps \<and>
     hp_fail h' = hp_fail h \<and> hp_refail h' = hp_refail h \<and> (heap_wf h \<longrightarrow> heap_wf h')"

subsection \<open>The allocator interface\<close>

locale allocator =
  fixes alloc :: "'h \<Rightarrow> nat option \<times> 'h"
    and release :: "nat \<Rightarrow> 'h \<Rightarrow> 'h option"
    and live :: "'h \<Rightarrow> nat set"
    and invar :: "'h \<Rightarrow> bool"
  assumes alloc_Some: "invar h \<Longrightarrow> alloc h = (Some p, h') \<Longrightarrow>
      p \<notin> live h \<and> live h' = insert p (live h) \<and> invar h'"
    and alloc_None: "invar h \<Longrightarrow> alloc h = (None, h') \<Longrightarrow> live h' = live h \<and> invar h'"
    and release_live: "invar h \<Longrightarrow> p \<in> live h \<Longrightarrow>
      \<exists>h'. release p h = Some h' \<and> live h' = live h - {p} \<and> invar h'"
    and release_dead: "p \<notin> live h \<Longrightarrow> release p h = None"
begin

lemma release_list_live:
  "invar h \<Longrightarrow> distinct ps \<Longrightarrow> set ps \<subseteq> live h \<Longrightarrow>
    \<exists>h'. release_list release ps h = Some h' \<and> live h' = live h - set ps \<and> invar h'"
proof (induction ps arbitrary: h)
  case Nil
  then show ?case by simp
next
  case (Cons p ps)
  from Cons.prems obtain h1 where h1: "release p h = Some h1" "live h1 = live h - {p}" "invar h1"
    using release_live [of h p] by auto
  from Cons.prems h1 have "distinct ps" "set ps \<subseteq> live h1" by auto
  from Cons.IH [OF h1(3) this] h1 show ?case by auto
qed

lemma double_release:
  "invar h \<Longrightarrow> release p h = Some h' \<Longrightarrow> release p h' = None"
  using release_live [of h p] release_dead [of p h] release_dead [of p h'] by (cases "p \<in> live h") auto

end

interpretation ledger: allocator c_malloc c_release hp_live heap_wf
  by unfold_locales
    (auto simp: c_malloc_def c_release_def heap_wf_def Let_def less_Suc_eq split: if_splits)

subsection \<open>Laws of the ledger\<close>

lemma c_free_None [simp]: "c_free None h = Some h"
  by (simp add: c_free_def)

lemma c_free_Some [simp]: "c_free (Some p) h = c_release p h"
  by (simp add: c_free_def)

lemma blk_ptr_simps [simp]: "blk_ptr None = None" "blk_ptr (Some (p, x)) = Some p"
  by (simp_all add: blk_ptr_def)

lemma blk_ptrs_simps [simp]: "blk_ptrs None = []" "blk_ptrs (Some (p, x)) = [p]"
  by (simp_all add: blk_ptrs_def)

lemma c_release_same:
  "c_release p h = Some h' \<Longrightarrow> hp_fail h' = hp_fail h \<and> hp_refail h' = hp_refail h \<and> hp_next h' = hp_next h"
  by (auto simp: c_release_def split: if_splits)

lemma owns_refl [simp, intro]: "owns h h []"
  by (simp add: owns_def)

lemma owns_trans [heap_laws]: "owns h h1 ps \<Longrightarrow> owns h1 h2 qs \<Longrightarrow> owns h h2 (ps @ qs)"
  by (auto simp: owns_def)

lemma owns_wf [heap_laws]: "owns h h' ps \<Longrightarrow> heap_wf h \<Longrightarrow> heap_wf h'"
  by (simp add: owns_def)

lemma owns_refail [heap_laws]: "owns h h' ps \<Longrightarrow> hp_refail h' = hp_refail h"
  by (simp add: owns_def)

lemma owns_perm: "owns h h' ps \<Longrightarrow> distinct qs \<Longrightarrow> set qs = set ps \<Longrightarrow> owns h h' qs"
  by (simp add: owns_def)

lemma owns_malloc:
  assumes "heap_wf h" and "c_malloc h = (Some p, h')"
  shows "owns h h' [p]"
  using ledger.alloc_Some [OF assms] assms(2)
  by (auto simp: owns_def c_malloc_def Let_def split: if_splits)

lemma owns_malloc_None:
  assumes "heap_wf h" and "c_malloc h = (None, h')"
  shows "owns h h' []"
  using ledger.alloc_None [OF assms] assms(2)
  by (auto simp: owns_def c_malloc_def Let_def split: if_splits)

lemma owns_release:
  assumes "owns h h' (ps @ p # qs)" and "heap_wf h"
  shows "\<exists>h''. c_release p h' = Some h'' \<and> owns h h'' (ps @ qs)"
proof -
  let ?h = "h'\<lparr>hp_live := hp_live h' - {p}\<rparr>"
  from assms have "c_release p h' = Some ?h" by (simp add: owns_def c_release_def)
  moreover have "hp_live ?h = hp_live h \<union> set (ps @ qs)"
    using assms(1) by (auto simp: owns_def)
  moreover have "heap_wf ?h"
    using owns_wf [OF assms] by (simp add: heap_wf_def)
  ultimately show ?thesis using assms(1) by (auto simp: owns_def)
qed

lemma owns_live: "owns h h' ps \<Longrightarrow> p \<in> set ps \<Longrightarrow> c_deref p h' = Some ()"
  by (simp add: owns_def c_deref_def)

lemma owns_reallocf:
  assumes own: "owns h h' (ps @ p # qs)" and wf: "heap_wf h" and ok: "\<not> hp_refail h (hp_next h')"
  shows "\<exists>h''. usbi_reallocf (Some p) h' = Some (Some (hp_next h'), h'') \<and>
           owns h h'' (ps @ hp_next h' # qs)"
proof -
  from own wf have wf': "heap_wf h'" by (rule owns_wf)
  then have fresh: "hp_next h' \<notin> hp_live h'" by (auto simp: heap_wf_def)
  from own ok have "\<not> hp_refail h' (hp_next h')" by (simp add: owns_def)
  moreover from own wf obtain h1 where h1: "c_release p h' = Some h1" "owns h h1 (ps @ qs)"
    using owns_release by blast
  let ?h = "h1\<lparr>hp_next := Suc (hp_next h'), hp_live := insert (hp_next h') (hp_live h1)\<rparr>"
  have sub: "hp_live h1 \<subseteq> hp_live h'" "hp_next h1 = hp_next h'"
    using h1(1) by (auto simp: c_release_def split: if_splits)
  have "heap_wf ?h"
    using owns_wf [OF h1(2) wf] sub by (auto simp: heap_wf_def)
  with h1(2) fresh sub have "owns h ?h (ps @ hp_next h' # qs)"
    by (auto simp: owns_def)
  ultimately show ?thesis using h1(1) by (simp add: usbi_reallocf_def)
qed

lemma owns_release_list:
  assumes "owns h h' (ps @ qs)" and "heap_wf h"
  shows "\<exists>h''. release_list c_release ps h' = Some h'' \<and> owns h h'' qs"
  using assms
proof (induction ps arbitrary: h')
  case Nil
  then show ?case by simp
next
  case (Cons p ps)
  then obtain h1 where "c_release p h' = Some h1" "owns h h1 (ps @ qs)"
    using owns_release [of h h' "[]" p "ps @ qs"] by auto
  with Cons show ?case by auto
qed

lemma release_list_append:
  "release_list r (ps @ qs) h = do { h1 \<leftarrow> release_list r ps h; release_list r qs h1 }"
  by (induction ps arbitrary: h) (auto split: Option.bind_splits)

lemma empty_heap_wf [simp]: "heap_wf empty_heap"
  by (simp add: heap_wf_def empty_heap_def)

end
