(* ===== verification/Usb_Types.thy ===== *)
theory Usb_Types
  imports C_Heap
begin

text \<open>
  The public constants and descriptor structures of libusb.h and the limits of libusbi.h.
  Error codes are the C integers; enumerations whose values are stored in bytes are bytes;
  the transfer status is a datatype. A structure is a record with the fields in the order of
  the C struct; the prefix of a field names its structure.
\<close>

subsection \<open>Error codes: enum libusb\_error\<close>

abbreviation LIBUSB_SUCCESS :: int where "LIBUSB_SUCCESS \<equiv> 0"
abbreviation LIBUSB_ERROR_IO :: int where "LIBUSB_ERROR_IO \<equiv> -1"
abbreviation LIBUSB_ERROR_INVALID_PARAM :: int where "LIBUSB_ERROR_INVALID_PARAM \<equiv> -2"
abbreviation LIBUSB_ERROR_ACCESS :: int where "LIBUSB_ERROR_ACCESS \<equiv> -3"
abbreviation LIBUSB_ERROR_NO_DEVICE :: int where "LIBUSB_ERROR_NO_DEVICE \<equiv> -4"
abbreviation LIBUSB_ERROR_NOT_FOUND :: int where "LIBUSB_ERROR_NOT_FOUND \<equiv> -5"
abbreviation LIBUSB_ERROR_BUSY :: int where "LIBUSB_ERROR_BUSY \<equiv> -6"
abbreviation LIBUSB_ERROR_TIMEOUT :: int where "LIBUSB_ERROR_TIMEOUT \<equiv> -7"
abbreviation LIBUSB_ERROR_OVERFLOW :: int where "LIBUSB_ERROR_OVERFLOW \<equiv> -8"
abbreviation LIBUSB_ERROR_PIPE :: int where "LIBUSB_ERROR_PIPE \<equiv> -9"
abbreviation LIBUSB_ERROR_INTERRUPTED :: int where "LIBUSB_ERROR_INTERRUPTED \<equiv> -10"
abbreviation LIBUSB_ERROR_NO_MEM :: int where "LIBUSB_ERROR_NO_MEM \<equiv> -11"
abbreviation LIBUSB_ERROR_NOT_SUPPORTED :: int where "LIBUSB_ERROR_NOT_SUPPORTED \<equiv> -12"
abbreviation LIBUSB_ERROR_OTHER :: int where "LIBUSB_ERROR_OTHER \<equiv> -99"

subsection \<open>Transfer status: enum libusb\_transfer\_status\<close>

datatype libusb_transfer_status =
    LIBUSB_TRANSFER_COMPLETED
  | LIBUSB_TRANSFER_ERROR
  | LIBUSB_TRANSFER_TIMED_OUT
  | LIBUSB_TRANSFER_CANCELLED
  | LIBUSB_TRANSFER_STALL
  | LIBUSB_TRANSFER_NO_DEVICE
  | LIBUSB_TRANSFER_OVERFLOW

fun status_code :: "libusb_transfer_status \<Rightarrow> int" where
  "status_code LIBUSB_TRANSFER_COMPLETED = 0"
| "status_code LIBUSB_TRANSFER_ERROR = 1"
| "status_code LIBUSB_TRANSFER_TIMED_OUT = 2"
| "status_code LIBUSB_TRANSFER_CANCELLED = 3"
| "status_code LIBUSB_TRANSFER_STALL = 4"
| "status_code LIBUSB_TRANSFER_NO_DEVICE = 5"
| "status_code LIBUSB_TRANSFER_OVERFLOW = 6"

subsection \<open>Descriptor types and sizes\<close>

abbreviation LIBUSB_DT_DEVICE :: u8 where "LIBUSB_DT_DEVICE \<equiv> 1"
abbreviation LIBUSB_DT_CONFIG :: u8 where "LIBUSB_DT_CONFIG \<equiv> 2"
abbreviation LIBUSB_DT_STRING :: u8 where "LIBUSB_DT_STRING \<equiv> 3"
abbreviation LIBUSB_DT_INTERFACE :: u8 where "LIBUSB_DT_INTERFACE \<equiv> 4"
abbreviation LIBUSB_DT_ENDPOINT :: u8 where "LIBUSB_DT_ENDPOINT \<equiv> 5"
abbreviation LIBUSB_DT_BOS :: u8 where "LIBUSB_DT_BOS \<equiv> 0x0f"
abbreviation LIBUSB_DT_DEVICE_CAPABILITY :: u8 where "LIBUSB_DT_DEVICE_CAPABILITY \<equiv> 0x10"
abbreviation LIBUSB_DT_SS_ENDPOINT_COMPANION :: u8 where "LIBUSB_DT_SS_ENDPOINT_COMPANION \<equiv> 0x30"

abbreviation DESC_HEADER_LENGTH :: int where "DESC_HEADER_LENGTH \<equiv> 2"
abbreviation INTERFACE_DESC_LENGTH :: int where "INTERFACE_DESC_LENGTH \<equiv> 9"
abbreviation ENDPOINT_DESC_LENGTH :: int where "ENDPOINT_DESC_LENGTH \<equiv> 7"
abbreviation ENDPOINT_AUDIO_DESC_LENGTH :: int where "ENDPOINT_AUDIO_DESC_LENGTH \<equiv> 9"
abbreviation LIBUSB_DT_CONFIG_SIZE :: int where "LIBUSB_DT_CONFIG_SIZE \<equiv> 9"
abbreviation LIBUSB_DT_INTERFACE_SIZE :: int where "LIBUSB_DT_INTERFACE_SIZE \<equiv> 9"
abbreviation LIBUSB_DT_SS_ENDPOINT_COMPANION_SIZE :: int where "LIBUSB_DT_SS_ENDPOINT_COMPANION_SIZE \<equiv> 6"
abbreviation LIBUSB_DT_BOS_SIZE :: int where "LIBUSB_DT_BOS_SIZE \<equiv> 5"
abbreviation LIBUSB_DT_DEVICE_CAPABILITY_SIZE :: int where "LIBUSB_DT_DEVICE_CAPABILITY_SIZE \<equiv> 3"
abbreviation LIBUSB_BT_USB_2_0_EXTENSION_SIZE :: int where "LIBUSB_BT_USB_2_0_EXTENSION_SIZE \<equiv> 7"
abbreviation LIBUSB_BT_SS_USB_DEVICE_CAPABILITY_SIZE :: int where "LIBUSB_BT_SS_USB_DEVICE_CAPABILITY_SIZE \<equiv> 10"
abbreviation LIBUSB_BT_CONTAINER_ID_SIZE :: int where "LIBUSB_BT_CONTAINER_ID_SIZE \<equiv> 20"

abbreviation LIBUSB_BT_USB_2_0_EXTENSION :: u8 where "LIBUSB_BT_USB_2_0_EXTENSION \<equiv> 2"
abbreviation LIBUSB_BT_SS_USB_DEVICE_CAPABILITY :: u8 where "LIBUSB_BT_SS_USB_DEVICE_CAPABILITY \<equiv> 3"
abbreviation LIBUSB_BT_CONTAINER_ID :: u8 where "LIBUSB_BT_CONTAINER_ID \<equiv> 4"

abbreviation USB_MAXENDPOINTS :: int where "USB_MAXENDPOINTS \<equiv> 32"
abbreviation USB_MAXINTERFACES :: int where "USB_MAXINTERFACES \<equiv> 32"
abbreviation USB_MAXCONFIG :: int where "USB_MAXCONFIG \<equiv> 8"

text \<open>The value of a byte where C promotes it to \<open>int\<close>.\<close>

abbreviation int_of :: "u8 \<Rightarrow> int" where "int_of b \<equiv> uint b"

subsection \<open>Descriptor structures\<close>

record libusb_endpoint_descriptor =
  ep_bLength :: u8
  ep_bDescriptorType :: u8
  ep_bEndpointAddress :: u8
  ep_bmAttributes :: u8
  ep_wMaxPacketSize :: u16
  ep_bInterval :: u8
  ep_bRefresh :: u8
  ep_bSynchAddress :: u8
  ep_extra :: "u8 list blk"
  ep_extra_length :: int

record libusb_interface_descriptor =
  if_bLength :: u8
  if_bDescriptorType :: u8
  if_bInterfaceNumber :: u8
  if_bAlternateSetting :: u8
  if_bNumEndpoints :: u8
  if_bInterfaceClass :: u8
  if_bInterfaceSubClass :: u8
  if_bInterfaceProtocol :: u8
  if_iInterface :: u8
  if_endpoint :: "libusb_endpoint_descriptor list blk"
  if_extra :: "u8 list blk"
  if_extra_length :: int

record libusb_interface =
  altsetting :: "libusb_interface_descriptor list blk"
  num_altsetting :: int

record libusb_config_descriptor =
  cf_bLength :: u8
  cf_bDescriptorType :: u8
  cf_wTotalLength :: u16
  cf_bNumInterfaces :: u8
  cf_bConfigurationValue :: u8
  cf_iConfiguration :: u8
  cf_bmAttributes :: u8
  cf_MaxPower :: u8
  cf_interface :: "libusb_interface list blk"
  cf_extra :: "u8 list blk"
  cf_extra_length :: int

record libusb_device_descriptor =
  dd_bLength :: u8
  dd_bDescriptorType :: u8
  dd_bcdUSB :: u16
  dd_bDeviceClass :: u8
  dd_bDeviceSubClass :: u8
  dd_bDeviceProtocol :: u8
  dd_bMaxPacketSize0 :: u8
  dd_idVendor :: u16
  dd_idProduct :: u16
  dd_bcdDevice :: u16
  dd_iManufacturer :: u8
  dd_iProduct :: u8
  dd_iSerialNumber :: u8
  dd_bNumConfigurations :: u8

text \<open>What \<open>calloc\<close> gives: all fields zero, all pointers NULL.\<close>

definition zero_endpoint :: libusb_endpoint_descriptor where
  "zero_endpoint = \<lparr>ep_bLength = 0, ep_bDescriptorType = 0, ep_bEndpointAddress = 0,
     ep_bmAttributes = 0, ep_wMaxPacketSize = 0, ep_bInterval = 0, ep_bRefresh = 0,
     ep_bSynchAddress = 0, ep_extra = None, ep_extra_length = 0\<rparr>"

definition zero_interface :: libusb_interface where
  "zero_interface = \<lparr>altsetting = None, num_altsetting = 0\<rparr>"

end
