(* ===== verification/Desc_Parser.thy ===== *)
theory Desc_Parser
  imports Usb_Types
begin

text \<open>
  The configuration-descriptor parser of descriptor.c (\<open>usbi_parse_descriptor\<close> to
  \<open>raw_desc_to_config\<close>, and the functions that free what it builds).

  A buffer pointer is the list of the bytes from it to the end of its buffer, so advancing it
  is \<open>drop\<close> and reading outside the buffer is a fault. The \<open>size\<close> variables are the C \<open>int\<close>s.
  A loop over an array whose length is fixed before it is a recursion over the array's slots;
  the other loops are \<open>function\<close>s with the remaining size as their measure. The pointers of
  the built structures are blocks of the allocation ledger of C_Heap, so freeing a block
  twice, or reading one after it was freed, is a fault too.
\<close>

subsection \<open>usbi\_parse\_descriptor\<close>

text \<open>
  The stores into the destination structure, by offset: \<open>dp\<close> starts at an even address (the
  structures are aligned), and 'w' and 'd' first align it to two.
\<close>

datatype field = FB u8 | FW u16 | FD u32 | FU "u8 list"

type_synonym stores = "(nat \<times> field) list"

definition load16 :: "endian \<Rightarrow> bool \<Rightarrow> u8 \<Rightarrow> u8 \<Rightarrow> u16" where
  "load16 cpu host_endian b0 b1 =
     (if host_endian \<and> cpu = BigEndian then join16 b0 b1 else join16 b1 b0)"

definition load32 :: "endian \<Rightarrow> bool \<Rightarrow> u8 \<Rightarrow> u8 \<Rightarrow> u8 \<Rightarrow> u8 \<Rightarrow> u32" where
  "load32 cpu host_endian b0 b1 b2 b3 =
     (if host_endian \<and> cpu = BigEndian then join32 b0 b1 b2 b3 else join32 b3 b2 b1 b0)"

definition align2 :: "nat \<Rightarrow> nat" where
  "align2 dp = dp + dp mod 2"

fun parse_fields :: "endian \<Rightarrow> bool \<Rightarrow> string \<Rightarrow> u8 list \<Rightarrow> nat \<Rightarrow> (stores \<times> int) option" where
  "parse_fields cpu he [] sp dp = Some ([], 0)"
| "parse_fields cpu he (c # cp) sp dp =
     (if c = CHR ''b'' then
        (case sp of b # sp' \<Rightarrow>
           do { (fs, n) \<leftarrow> parse_fields cpu he cp sp' (dp + 1); Some ((dp, FB b) # fs, n + 1) }
         | _ \<Rightarrow> None)
      else if c = CHR ''w'' then
        (case sp of b0 # b1 # sp' \<Rightarrow>
           do { (fs, n) \<leftarrow> parse_fields cpu he cp sp' (align2 dp + 2);
                Some ((align2 dp, FW (load16 cpu he b0 b1)) # fs, n + 2) }
         | _ \<Rightarrow> None)
      else if c = CHR ''d'' then
        (case sp of b0 # b1 # b2 # b3 # sp' \<Rightarrow>
           do { (fs, n) \<leftarrow> parse_fields cpu he cp sp' (align2 dp + 4);
                Some ((align2 dp, FD (load32 cpu he b0 b1 b2 b3)) # fs, n + 4) }
         | _ \<Rightarrow> None)
      else if c = CHR ''u'' then
        (if 16 \<le> length sp then
           do { (fs, n) \<leftarrow> parse_fields cpu he cp (drop 16 sp) (dp + 16);
                Some ((dp, FU (take 16 sp)) # fs, n + 16) }
         else None)
      else parse_fields cpu he cp sp dp)"

definition usbi_parse_descriptor ::
  "endian \<Rightarrow> u8 list \<Rightarrow> string \<Rightarrow> bool \<Rightarrow> (stores \<times> int) option" where
  "usbi_parse_descriptor cpu source descriptor host_endian =
     parse_fields cpu host_endian descriptor source 0"

text \<open>The value of a field after the stores: the stored one, or the old one.\<close>

definition st8 :: "stores \<Rightarrow> nat \<Rightarrow> u8 \<Rightarrow> u8" where
  "st8 fs off old = (case map_of fs off of Some (FB b) \<Rightarrow> b | _ \<Rightarrow> old)"

definition st16 :: "stores \<Rightarrow> nat \<Rightarrow> u16 \<Rightarrow> u16" where
  "st16 fs off old = (case map_of fs off of Some (FW w) \<Rightarrow> w | _ \<Rightarrow> old)"

definition st32 :: "stores \<Rightarrow> nat \<Rightarrow> u32 \<Rightarrow> u32" where
  "st32 fs off old = (case map_of fs off of Some (FD d) \<Rightarrow> d | _ \<Rightarrow> old)"

text \<open>\<open>struct usb_descriptor_header\<close>, parsed with \<open>"bb"\<close>: length and type.\<close>

definition parse_header :: "u8 list \<Rightarrow> (u8 \<times> u8) option" where
  "parse_header buffer = do {
     (fs, _) \<leftarrow> usbi_parse_descriptor LittleEndian buffer ''bb'' False;
     Some (st8 fs 0 0, st8 fs 1 0)
   }"

definition ep_store :: "stores \<Rightarrow> libusb_endpoint_descriptor \<Rightarrow> libusb_endpoint_descriptor" where
  "ep_store fs e = e\<lparr>
     ep_bLength := st8 fs 0 (ep_bLength e),
     ep_bDescriptorType := st8 fs 1 (ep_bDescriptorType e),
     ep_bEndpointAddress := st8 fs 2 (ep_bEndpointAddress e),
     ep_bmAttributes := st8 fs 3 (ep_bmAttributes e),
     ep_wMaxPacketSize := st16 fs 4 (ep_wMaxPacketSize e),
     ep_bInterval := st8 fs 6 (ep_bInterval e),
     ep_bRefresh := st8 fs 7 (ep_bRefresh e),
     ep_bSynchAddress := st8 fs 8 (ep_bSynchAddress e)\<rparr>"

text \<open>
  A slot of the altsetting array after the nine bytes were stored. Its pointers are not yet
  assigned; no path reads them before they are set to NULL, so the model has NULL there.
\<close>

definition if_store :: "stores \<Rightarrow> libusb_interface_descriptor" where
  "if_store fs = \<lparr>
     if_bLength = st8 fs 0 0, if_bDescriptorType = st8 fs 1 0, if_bInterfaceNumber = st8 fs 2 0,
     if_bAlternateSetting = st8 fs 3 0, if_bNumEndpoints = st8 fs 4 0, if_bInterfaceClass = st8 fs 5 0,
     if_bInterfaceSubClass = st8 fs 6 0, if_bInterfaceProtocol = st8 fs 7 0, if_iInterface = st8 fs 8 0,
     if_endpoint = None, if_extra = None, if_extra_length = 0\<rparr>"

definition cf_store :: "stores \<Rightarrow> libusb_config_descriptor" where
  "cf_store fs = \<lparr>
     cf_bLength = st8 fs 0 0, cf_bDescriptorType = st8 fs 1 0, cf_wTotalLength = st16 fs 2 0,
     cf_bNumInterfaces = st8 fs 4 0, cf_bConfigurationValue = st8 fs 5 0, cf_iConfiguration = st8 fs 6 0,
     cf_bmAttributes = st8 fs 7 0, cf_MaxPower = st8 fs 8 0,
     cf_interface = None, cf_extra = None, cf_extra_length = 0\<rparr>"

definition c_memcpy :: "u8 list \<Rightarrow> int \<Rightarrow> u8 list option" where
  "c_memcpy src len = (if nat len \<le> length src then Some (take (nat len) src) else None)"

subsection \<open>The loop over class and vendor specific descriptors\<close>

text \<open>
  The same loop stands in \<open>parse_endpoint\<close>, \<open>parse_interface\<close> and \<open>parse_configuration\<close>: it
  ends at a malformed length, at a descriptor longer than what is left, or at a "proper"
  descriptor or the end of the data. The last component is \<open>buffer - begin\<close>.
\<close>

datatype skip = SkipBad | SkipShort | SkipDone

definition proper_type :: "u8 \<Rightarrow> bool" where
  "proper_type t \<longleftrightarrow> t = LIBUSB_DT_ENDPOINT \<or> t = LIBUSB_DT_INTERFACE \<or> t = LIBUSB_DT_CONFIG \<or>
     t = LIBUSB_DT_DEVICE"

function skip_extra :: "u8 list \<Rightarrow> int \<Rightarrow> (skip \<times> u8 list \<times> int \<times> int) option" where
  "skip_extra buffer sz =
     (if DESC_HEADER_LENGTH \<le> sz then
        (case parse_header buffer of
           None \<Rightarrow> None
         | Some (bLength, bDescriptorType) \<Rightarrow>
             if int_of bLength < DESC_HEADER_LENGTH then Some (SkipBad, buffer, sz, 0)
             else if int_of bLength > sz then Some (SkipShort, buffer, sz, 0)
             else if proper_type bDescriptorType then Some (SkipDone, buffer, sz, 0)
             else (case skip_extra (drop (unat bLength) buffer) (sz - int_of bLength) of
                     None \<Rightarrow> None
                   | Some (k, b, s, n) \<Rightarrow> Some (k, b, s, n + int_of bLength)))
      else Some (SkipDone, buffer, sz, 0))"
  by pat_completeness auto
termination
  by (relation "measure (\<lambda>(b, s). nat s)") auto

declare skip_extra.simps [simp del]

subsection \<open>Endpoints\<close>

definition clear_endpoint :: "libusb_endpoint_descriptor \<Rightarrow> heap \<Rightarrow> heap option" where
  "clear_endpoint endpoint h = c_free (blk_ptr (ep_extra endpoint)) h"

text \<open>The part of \<open>parse_endpoint\<close> after the endpoint descriptor itself.\<close>

definition parse_endpoint_extra ::
  "u8 list \<Rightarrow> int \<Rightarrow> int \<Rightarrow> libusb_endpoint_descriptor \<Rightarrow> heap \<Rightarrow>
    (int \<times> libusb_endpoint_descriptor \<times> heap) option" where
  "parse_endpoint_extra beg sz parsed endpoint h = do {
     (k, _, _, len) \<leftarrow> skip_extra beg sz;
     (case k of
        SkipBad \<Rightarrow> Some (LIBUSB_ERROR_IO, endpoint, h)
      | SkipShort \<Rightarrow> Some (parsed + len, endpoint, h)
      | SkipDone \<Rightarrow>
          if len = 0 then
            Some (parsed, endpoint\<lparr>ep_extra := None, ep_extra_length := 0\<rparr>, h)
          else
            (case c_malloc h of
               (None, h1) \<Rightarrow>
                 Some (LIBUSB_ERROR_NO_MEM, endpoint\<lparr>ep_extra := None, ep_extra_length := 0\<rparr>, h1)
             | (Some q, h1) \<Rightarrow> do {
                 bs \<leftarrow> c_memcpy beg len;
                 Some (parsed + len, endpoint\<lparr>ep_extra := Some (q, bs), ep_extra_length := len\<rparr>, h1)
               }))
   }"

definition parse_endpoint ::
  "endian \<Rightarrow> libusb_endpoint_descriptor \<Rightarrow> u8 list \<Rightarrow> int \<Rightarrow> bool \<Rightarrow> heap \<Rightarrow>
    (int \<times> libusb_endpoint_descriptor \<times> heap) option" where
  "parse_endpoint cpu endpoint buffer sz host_endian h =
     (if sz < DESC_HEADER_LENGTH then Some (LIBUSB_ERROR_IO, endpoint, h)
      else do {
        (bLength, bDescriptorType) \<leftarrow> parse_header buffer;
        if bDescriptorType \<noteq> LIBUSB_DT_ENDPOINT then Some (0, endpoint, h)
        else if int_of bLength > sz then Some (0, endpoint, h)
        else if int_of bLength \<ge> ENDPOINT_AUDIO_DESC_LENGTH then do {
          (fs, _) \<leftarrow> usbi_parse_descriptor cpu buffer ''bbbbwbbb'' host_endian;
          parse_endpoint_extra (drop (unat bLength) buffer) (sz - int_of bLength) (int_of bLength)
            (ep_store fs endpoint) h
        }
        else if int_of bLength \<ge> ENDPOINT_DESC_LENGTH then do {
          (fs, _) \<leftarrow> usbi_parse_descriptor cpu buffer ''bbbbwb'' host_endian;
          parse_endpoint_extra (drop (unat bLength) buffer) (sz - int_of bLength) (int_of bLength)
            (ep_store fs endpoint) h
        }
        else Some (LIBUSB_ERROR_IO, endpoint, h)
      })"

subsection \<open>Interfaces\<close>

primrec clear_endpoints :: "ptr \<Rightarrow> libusb_endpoint_descriptor list \<Rightarrow> heap \<Rightarrow> heap option" where
  "clear_endpoints p [] h = Some h"
| "clear_endpoints p (e # es) h = do {
     _ \<leftarrow> c_deref p h;
     h1 \<leftarrow> clear_endpoint e h;
     clear_endpoints p es h1
   }"

text \<open>One round of the loop of \<open>clear_interface\<close>: the altsetting \<open>ifp\<close>.\<close>

definition clear_altsetting :: "libusb_interface_descriptor \<Rightarrow> heap \<Rightarrow> heap option" where
  "clear_altsetting ifp h = do {
     h1 \<leftarrow> c_free (blk_ptr (if_extra ifp)) h;
     h2 \<leftarrow> (case if_endpoint ifp of
              None \<Rightarrow> Some h1
            | Some (p, es) \<Rightarrow>
                if unat (if_bNumEndpoints ifp) \<le> length es
                then clear_endpoints p (take (unat (if_bNumEndpoints ifp)) es) h1
                else None);
     c_free (blk_ptr (if_endpoint ifp)) h2
   }"

primrec clear_altsettings :: "ptr \<Rightarrow> libusb_interface_descriptor list \<Rightarrow> heap \<Rightarrow> heap option" where
  "clear_altsettings p [] h = Some h"
| "clear_altsettings p (d # ds) h = do {
     _ \<leftarrow> c_deref p h;
     h1 \<leftarrow> clear_altsetting d h;
     clear_altsettings p ds h1
   }"

definition clear_interface :: "libusb_interface \<Rightarrow> heap \<Rightarrow> (libusb_interface \<times> heap) option" where
  "clear_interface usb_interface h = do {
     h1 \<leftarrow> (case altsetting usb_interface of
              None \<Rightarrow> Some h
            | Some (p, ds) \<Rightarrow>
                if num_altsetting usb_interface \<le> int (length ds)
                then clear_altsettings p (take (nat (num_altsetting usb_interface)) ds) h
                else None);
     h2 \<leftarrow> c_free (blk_ptr (altsetting usb_interface)) h1;
     Some (usb_interface\<lparr>altsetting := None\<rparr>, h2)
   }"

text \<open>
  The endpoint loop of \<open>parse_interface\<close>, over the slots of the \<open>calloc\<close>ed array: it ends
  with an error of \<open>parse_endpoint\<close>, stops at the i-th slot when that returns 0, or fills
  all slots.
\<close>

datatype ep_outcome = EpErr int | EpStop nat | EpAll

fun ep_next :: "ep_outcome \<Rightarrow> ep_outcome" where
  "ep_next (EpStop i) = EpStop (Suc i)"
| "ep_next k = k"

fun parse_endpoints ::
  "endian \<Rightarrow> bool \<Rightarrow> libusb_endpoint_descriptor list \<Rightarrow> u8 list \<Rightarrow> int \<Rightarrow> heap \<Rightarrow>
    (ep_outcome \<times> libusb_endpoint_descriptor list \<times> u8 list \<times> int \<times> heap) option" where
  "parse_endpoints cpu he [] buffer sz h = Some (EpAll, [], buffer, sz, h)"
| "parse_endpoints cpu he (e # es) buffer sz h = do {
     (r, e', h1) \<leftarrow> parse_endpoint cpu e buffer sz he h;
     if r < 0 then Some (EpErr r, e' # es, buffer, sz, h1)
     else if r = 0 then Some (EpStop 0, e' # es, buffer, sz, h1)
     else do {
       (k, es', buffer', sz', h2) \<leftarrow> parse_endpoints cpu he es (drop (nat r) buffer) (sz - r) h1;
       Some (ep_next k, e' # es', buffer', sz', h2)
     }
   }"

text \<open>
  The variables of \<open>parse_interface\<close>, and the outcomes of a stretch of its loop body: \<open>goto err\<close>
  with \<open>r\<close> set, \<open>return parsed\<close>, or going on.
\<close>

record intf_state =
  is_buffer :: "u8 list"
  is_size :: int
  is_parsed :: int
  is_number :: int
  is_intf :: libusb_interface
  is_heap :: heap

datatype 'a alt_outcome = AltErr int | AltReturn | AltNext 'a

text \<open>Writing through \<open>ifp\<close>, the slot of the altsetting that is being parsed.\<close>

definition put_ifp :: "libusb_interface_descriptor \<Rightarrow> libusb_interface \<Rightarrow> libusb_interface" where
  "put_ifp d u = u\<lparr>altsetting :=
     map_option (\<lambda>(p, ds). (p, ds[nat (num_altsetting u - 1) := d])) (altsetting u)\<rparr>"

definition advance :: "int \<Rightarrow> intf_state \<Rightarrow> intf_state" where
  "advance n st = st\<lparr>is_buffer := drop (nat n) (is_buffer st), is_size := is_size st - n,
     is_parsed := is_parsed st + n\<rparr>"

definition alt_descriptor :: "intf_state \<Rightarrow>
    (libusb_interface_descriptor alt_outcome \<times> intf_state) option" where
  "alt_descriptor st =
     (let u = is_intf st;
          old = (case altsetting u of None \<Rightarrow> [] | Some (_, ds) \<Rightarrow> take (nat (num_altsetting u)) ds)
      in do {
        (alt, h1) \<leftarrow> usbi_reallocf (blk_ptr (altsetting u)) (is_heap st);
        (case alt of
           None \<Rightarrow> Some (AltErr LIBUSB_ERROR_NO_MEM, st\<lparr>is_heap := h1\<rparr>)
         | Some p \<Rightarrow> do {
             (fs, _) \<leftarrow> usbi_parse_descriptor LittleEndian (is_buffer st) ''bbbbbbbbb'' False;
             let ifp = if_store fs;
             let st1 = st\<lparr>is_heap := h1, is_intf := u\<lparr>altsetting := Some (p, old @ [ifp])\<rparr>\<rparr>;
             if if_bDescriptorType ifp \<noteq> LIBUSB_DT_INTERFACE then Some (AltReturn, st1)
             else if int_of (if_bLength ifp) < INTERFACE_DESC_LENGTH then
               Some (AltErr LIBUSB_ERROR_IO, st1)
             else if int_of (if_bLength ifp) > is_size st then Some (AltReturn, st1)
             else if int_of (if_bNumEndpoints ifp) > USB_MAXENDPOINTS then
               Some (AltErr LIBUSB_ERROR_IO, st1)
             else
               (let number = (if is_number st = -1 then int_of (if_bInterfaceNumber ifp)
                              else is_number st);
                    u2 = (is_intf st1)\<lparr>num_altsetting := num_altsetting u + 1\<rparr>;
                    st2 = st1\<lparr>is_intf := u2, is_number := number\<rparr>
                in Some (AltNext ifp, advance (int_of (if_bLength ifp)) st2))
           })
      })"

definition alt_extra :: "libusb_interface_descriptor \<Rightarrow> intf_state \<Rightarrow>
    (libusb_interface_descriptor alt_outcome \<times> intf_state) option" where
  "alt_extra ifp st = do {
     (k, _, _, len) \<leftarrow> skip_extra (is_buffer st) (is_size st);
     let st1 = advance len st;
     (case k of
        SkipBad \<Rightarrow> Some (AltErr LIBUSB_ERROR_IO, st1)
      | SkipShort \<Rightarrow> Some (AltReturn, st1)
      | SkipDone \<Rightarrow>
          if len = 0 then Some (AltNext ifp, st1)
          else
            (case c_malloc (is_heap st1) of
               (None, h1) \<Rightarrow> Some (AltErr LIBUSB_ERROR_NO_MEM, st1\<lparr>is_heap := h1\<rparr>)
             | (Some q, h1) \<Rightarrow> do {
                 bs \<leftarrow> c_memcpy (is_buffer st) len;
                 let ifp1 = ifp\<lparr>if_extra := Some (q, bs), if_extra_length := len\<rparr>;
                 Some (AltNext ifp1, st1\<lparr>is_heap := h1, is_intf := put_ifp ifp1 (is_intf st1)\<rparr>)
               }))
   }"

definition alt_endpoints :: "endian \<Rightarrow> bool \<Rightarrow> libusb_interface_descriptor \<Rightarrow> intf_state \<Rightarrow>
    (unit alt_outcome \<times> intf_state) option" where
  "alt_endpoints cpu he ifp st =
     (if 0 < int_of (if_bNumEndpoints ifp) then
        (case c_malloc (is_heap st) of
           (None, h1) \<Rightarrow> Some (AltErr LIBUSB_ERROR_NO_MEM, st\<lparr>is_heap := h1\<rparr>)
         | (Some p, h1) \<Rightarrow> do {
             (k, es, _, sz', h2) \<leftarrow> parse_endpoints cpu he
                (replicate (unat (if_bNumEndpoints ifp)) zero_endpoint) (is_buffer st) (is_size st) h1;
             let ifp1 = ifp\<lparr>if_endpoint := Some (p, es)\<rparr>;
             let ifp2 = (case k of EpStop i \<Rightarrow> ifp1\<lparr>if_bNumEndpoints := u8_of i\<rparr> | _ \<Rightarrow> ifp1);
             let st1 = advance (is_size st - sz')
                         (st\<lparr>is_heap := h2, is_intf := put_ifp ifp2 (is_intf st)\<rparr>);
             (case k of EpErr r \<Rightarrow> Some (AltErr r, st1) | _ \<Rightarrow> Some (AltNext (), st1))
           })
      else Some (AltNext (), st))"

text \<open>The test for another altsetting of the same interface reads the struct in place.\<close>

definition alt_again :: "intf_state \<Rightarrow> (unit alt_outcome \<times> intf_state) option" where
  "alt_again st =
     (if is_size st < LIBUSB_DT_INTERFACE_SIZE then Some (AltReturn, st)
      else do {
        t \<leftarrow> rd (is_buffer st) 1;
        if t \<noteq> LIBUSB_DT_INTERFACE then Some (AltReturn, st)
        else do {
          n \<leftarrow> rd (is_buffer st) 2;
          if int_of n \<noteq> is_number st then Some (AltReturn, st) else Some (AltNext (), st)
        }
      })"

definition alt_bind :: "('a alt_outcome \<times> intf_state) option \<Rightarrow>
    ('a \<Rightarrow> intf_state \<Rightarrow> ('b alt_outcome \<times> intf_state) option) \<Rightarrow>
    ('b alt_outcome \<times> intf_state) option" where
  "alt_bind m f = do {
     (k, st) \<leftarrow> m;
     (case k of AltErr r \<Rightarrow> Some (AltErr r, st) | AltReturn \<Rightarrow> Some (AltReturn, st)
      | AltNext x \<Rightarrow> f x st)
   }"

definition parse_altsetting :: "endian \<Rightarrow> bool \<Rightarrow> intf_state \<Rightarrow>
    (unit alt_outcome \<times> intf_state) option" where
  "parse_altsetting cpu he st =
     alt_bind (alt_descriptor st) (\<lambda>ifp st1.
     alt_bind (alt_extra ifp st1) (\<lambda>ifp1 st2.
     alt_bind (alt_endpoints cpu he ifp1 st2) (\<lambda>_ st3.
     alt_again st3)))"

subsection \<open>Termination of the altsetting loop\<close>

lemma skip_extra_shape:
  "skip_extra b s = Some (k, b', s', n) \<Longrightarrow>
    0 \<le> n \<and> b' = drop (nat n) b \<and> s' = s - n \<and> (n = 0 \<or> n \<le> s)"
proof (induction b s arbitrary: k b' s' n rule: skip_extra.induct)
  case (1 b s)
  note eq = skip_extra.simps [of b s]
  show ?case
  proof (cases "2 \<le> s")
    case False
    with "1.prems" eq show ?thesis by simp
  next
    case True
    obtain l t where hdr: "parse_header b = Some (l, t)"
      using "1.prems" eq True by (cases "parse_header b") auto
    show ?thesis
    proof (cases "int_of l < 2 \<or> int_of l > s \<or> proper_type t")
      case True
      with "1.prems" eq \<open>2 \<le> s\<close> hdr show ?thesis by (auto split: if_splits)
    next
      case False
      then obtain k1 b1 s1 n1 where
        r: "skip_extra (drop (unat l) b) (s - int_of l) = Some (k1, b1, s1, n1)"
        using "1.prems" eq \<open>2 \<le> s\<close> hdr by (auto split: option.splits)
      with False "1.prems" eq \<open>2 \<le> s\<close> hdr have
        res: "k = k1" "b' = b1" "s' = s1" "n = n1 + int_of l" by auto
      from "1.IH" [OF \<open>2 \<le> s\<close> hdr refl _ _ _ r] False
      have ih: "0 \<le> n1" "b1 = drop (nat n1) (drop (unat l) b)" "s1 = s - int_of l - n1"
        "n1 = 0 \<or> n1 \<le> s - int_of l"
        by auto
      have "nat n1 + unat l = nat (n1 + int_of l)"
        using ih(1) by (simp add: nat_add_distrib nat_uint_eq)
      with ih res False show ?thesis by (auto simp: add.commute)
    qed
  qed
qed

lemma parse_endpoint_le:
  assumes "parse_endpoint cpu e b s he h = Some (r, e', h')" and "0 \<le> s"
  shows "r \<le> s"
  using assms
  by (auto simp: parse_endpoint_def parse_endpoint_extra_def split: if_splits option.splits
      skip.splits prod.splits Option.bind_splits dest!: skip_extra_shape)

lemma parse_endpoints_le:
  "parse_endpoints cpu he es b s h = Some (k, es', b', s', h') \<Longrightarrow> 0 \<le> s \<Longrightarrow> s' \<le> s \<and> 0 \<le> s'"
proof (induction cpu he es b s h arbitrary: k es' b' s' h' rule: parse_endpoints.induct)
  case (1 cpu he b s h)
  then show ?case by simp
next
  case (2 cpu he e es b s h)
  then obtain r e1 h1 where ep: "parse_endpoint cpu e b s he h = Some (r, e1, h1)"
    by (auto elim!: bind_SomeE)
  from parse_endpoint_le [OF ep "2.prems"(2)] have "r \<le> s" .
  show ?case
  proof (cases "0 < r")
    case False
    with "2.prems" ep show ?thesis by (auto split: if_splits)
  next
    case True
    with "2.prems" ep obtain k1 es1 where
      "parse_endpoints cpu he es (drop (nat r) b) (s - r) h1 = Some (k1, es1, b', s', h')"
      by (auto elim!: bind_SomeE)
    from "2.IH" [OF ep refl refl _ _ this] True \<open>r \<le> s\<close> show ?thesis by simp
  qed
qed

lemma advance_simps [simp]:
  "is_size (advance n st) = is_size st - n"
  "is_parsed (advance n st) = is_parsed st + n"
  "is_buffer (advance n st) = drop (nat n) (is_buffer st)"
  "is_number (advance n st) = is_number st"
  "is_intf (advance n st) = is_intf st"
  "is_heap (advance n st) = is_heap st"
  by (simp_all add: advance_def)

lemma alt_descriptor_size:
  assumes "alt_descriptor st = Some (AltNext d, st')"
  shows "is_size st' < is_size st \<and> 0 \<le> is_size st'"
  using assms
  by (auto simp: alt_descriptor_def Let_def split: option.splits if_splits elim!: bind_SomeE)

lemma alt_extra_size:
  assumes "alt_extra d st = Some (AltNext d', st')" and "0 \<le> is_size st"
  shows "is_size st' \<le> is_size st \<and> 0 \<le> is_size st'"
  using assms
  by (auto simp: alt_extra_def Let_def split: option.splits if_splits skip.splits prod.splits
      elim!: bind_SomeE dest!: skip_extra_shape)

lemma alt_endpoints_size:
  assumes "alt_endpoints cpu he d st = Some (AltNext x, st')" and "0 \<le> is_size st"
  shows "is_size st' \<le> is_size st"
  using assms
  by (auto simp: alt_endpoints_def Let_def split: option.splits if_splits prod.splits ep_outcome.splits
      elim!: bind_SomeE dest!: parse_endpoints_le)

lemma alt_bind_NextE:
  assumes "alt_bind m f = Some (AltNext y, st')"
  obtains x st where "m = Some (AltNext x, st)" and "f x st = Some (AltNext y, st')"
  using assms by (auto simp: alt_bind_def split: alt_outcome.splits elim!: bind_SomeE)

lemma alt_again_size: "alt_again st = Some (k, st') \<Longrightarrow> st' = st"
  by (auto simp: alt_again_def split: if_splits elim!: bind_SomeE)

lemma parse_altsetting_size:
  assumes "parse_altsetting cpu he st = Some (AltNext x, st')"
  shows "is_size st' < is_size st"
proof -
  from assms obtain d st1 d1 st2 y st3 where
    "alt_descriptor st = Some (AltNext d, st1)" "alt_extra d st1 = Some (AltNext d1, st2)"
    "alt_endpoints cpu he d1 st2 = Some (AltNext y, st3)" "alt_again st3 = Some (AltNext x, st')"
    unfolding parse_altsetting_def by (elim alt_bind_NextE)
  with alt_descriptor_size [of st d st1] alt_extra_size [of d st1 d1 st2]
    alt_endpoints_size [of cpu he d1 st2 y st3] alt_again_size [of st3 _ st']
  show ?thesis by auto
qed

text \<open>The \<open>while\<close> loop of \<open>parse_interface\<close>: it ends with an error code or with \<open>parsed\<close>.\<close>

function parse_altsettings :: "endian \<Rightarrow> bool \<Rightarrow> intf_state \<Rightarrow> (int option \<times> intf_state) option" where
  "parse_altsettings cpu he st =
     (if INTERFACE_DESC_LENGTH \<le> is_size st then
        (case parse_altsetting cpu he st of
           None \<Rightarrow> None
         | Some (AltErr r, st') \<Rightarrow> Some (Some r, st')
         | Some (AltReturn, st') \<Rightarrow> Some (None, st')
         | Some (AltNext _, st') \<Rightarrow> parse_altsettings cpu he st')
      else Some (None, st))"
  by pat_completeness auto
termination
  by (relation "measure (\<lambda>(_, _, st). nat (is_size st))") (auto dest!: parse_altsetting_size)

declare parse_altsettings.simps [simp del]

definition parse_interface ::
  "endian \<Rightarrow> libusb_interface \<Rightarrow> u8 list \<Rightarrow> int \<Rightarrow> bool \<Rightarrow> heap \<Rightarrow>
    (int \<times> libusb_interface \<times> heap) option" where
  "parse_interface cpu usb_interface buffer sz host_endian h = do {
     (err, st) \<leftarrow> parse_altsettings cpu host_endian
        \<lparr>is_buffer = buffer, is_size = sz, is_parsed = 0, is_number = -1,
         is_intf = usb_interface\<lparr>num_altsetting := 0\<rparr>, is_heap = h\<rparr>;
     (case err of
        None \<Rightarrow> Some (is_parsed st, is_intf st, is_heap st)
      | Some r \<Rightarrow> do {
          (u, h1) \<leftarrow> clear_interface (is_intf st) (is_heap st);
          Some (r, u, h1)
        })
   }"

subsection \<open>Configurations\<close>

primrec clear_interfaces :: "ptr \<Rightarrow> libusb_interface list \<Rightarrow> heap \<Rightarrow> heap option" where
  "clear_interfaces p [] h = Some h"
| "clear_interfaces p (u # us) h = do {
     _ \<leftarrow> c_deref p h;
     (_, h1) \<leftarrow> clear_interface u h;
     clear_interfaces p us h1
   }"

definition clear_configuration :: "libusb_config_descriptor \<Rightarrow> heap \<Rightarrow> heap option" where
  "clear_configuration config h = do {
     h1 \<leftarrow> (case cf_interface config of
              None \<Rightarrow> Some h
            | Some (p, us) \<Rightarrow>
                if unat (cf_bNumInterfaces config) \<le> length us
                then clear_interfaces p (take (unat (cf_bNumInterfaces config)) us) h
                else None);
     h2 \<leftarrow> c_free (blk_ptr (cf_interface config)) h1;
     c_free (blk_ptr (cf_extra config)) h2
   }"

text \<open>
  The interface loop of \<open>parse_configuration\<close>, over the slots of the \<open>calloc\<close>ed array. It ends with
  \<open>goto err\<close>, stops at the i-th interface, or fills all slots.
\<close>

datatype cf_outcome = CfErr int | CfStop nat | CfAll

fun cf_next :: "cf_outcome \<Rightarrow> cf_outcome" where
  "cf_next (CfStop i) = CfStop (Suc i)"
| "cf_next k = k"

text \<open>
  The \<open>extra\<close> bytes of a configuration are a pair of the pointer and the length; only the
  first stretch of unknown descriptors is kept.
\<close>

definition config_extra :: "u8 list \<Rightarrow> int \<Rightarrow> u8 list blk \<times> int \<Rightarrow> heap \<Rightarrow>
    (int \<times> (u8 list blk \<times> int) \<times> heap) option" where
  "config_extra beg len ex h =
     (if len \<noteq> 0 \<and> snd ex = 0 then
        (case c_malloc h of
           (None, h1) \<Rightarrow> Some (LIBUSB_ERROR_NO_MEM, (None, snd ex), h1)
         | (Some q, h1) \<Rightarrow> do { bs \<leftarrow> c_memcpy beg len; Some (0, (Some (q, bs), len), h1) })
      else Some (0, ex, h))"

fun parse_interfaces ::
  "endian \<Rightarrow> bool \<Rightarrow> libusb_interface list \<Rightarrow> u8 list \<Rightarrow> int \<Rightarrow> u8 list blk \<times> int \<Rightarrow> heap \<Rightarrow>
    (cf_outcome \<times> libusb_interface list \<times> int \<times> (u8 list blk \<times> int) \<times> heap) option" where
  "parse_interfaces cpu he [] buffer sz ex h = Some (CfAll, [], sz, ex, h)"
| "parse_interfaces cpu he (u # us) buffer sz ex h = do {
     (k, buffer1, sz1, len) \<leftarrow> skip_extra buffer sz;
     (case k of
        SkipBad \<Rightarrow> Some (CfErr LIBUSB_ERROR_IO, u # us, sz1, ex, h)
      | SkipShort \<Rightarrow> Some (CfStop 0, u # us, sz1, ex, h)
      | SkipDone \<Rightarrow> do {
          (r0, ex1, h1) \<leftarrow> config_extra buffer len ex h;
          if r0 < 0 then Some (CfErr r0, u # us, sz1, ex1, h1)
          else do {
            (r, u', h2) \<leftarrow> parse_interface cpu u buffer1 sz1 he h1;
            if r < 0 then Some (CfErr r, u' # us, sz1, ex1, h2)
            else if r = 0 then Some (CfStop 0, u' # us, sz1, ex1, h2)
            else do {
              (k', us', sz', ex', h3) \<leftarrow>
                parse_interfaces cpu he us (drop (nat r) buffer1) (sz1 - r) ex1 h2;
              Some (cf_next k', u' # us', sz', ex', h3)
            }
          }
        })
   }"

definition parse_configuration ::
  "endian \<Rightarrow> u8 list \<Rightarrow> int \<Rightarrow> bool \<Rightarrow> heap \<Rightarrow> (int \<times> libusb_config_descriptor \<times> heap) option" where
  "parse_configuration cpu buffer sz host_endian h =
     (if sz < LIBUSB_DT_CONFIG_SIZE then Some (LIBUSB_ERROR_IO, cf_store [], h)
      else do {
        (fs, _) \<leftarrow> usbi_parse_descriptor cpu buffer ''bbwbbbbb'' host_endian;
        let config = cf_store fs;
        if cf_bDescriptorType config \<noteq> LIBUSB_DT_CONFIG then Some (LIBUSB_ERROR_IO, config, h)
        else if int_of (cf_bLength config) < LIBUSB_DT_CONFIG_SIZE then Some (LIBUSB_ERROR_IO, config, h)
        else if int_of (cf_bLength config) > sz then Some (LIBUSB_ERROR_IO, config, h)
        else if int_of (cf_bNumInterfaces config) > USB_MAXINTERFACES then Some (LIBUSB_ERROR_IO, config, h)
        else
          (case c_malloc h of
             (None, h1) \<Rightarrow> Some (LIBUSB_ERROR_NO_MEM, config, h1)
           | (Some p, h1) \<Rightarrow> do {
               (k, us, sz', (extra, extra_length), h2) \<leftarrow> parse_interfaces cpu host_endian
                  (replicate (unat (cf_bNumInterfaces config)) zero_interface)
                  (drop (unat (cf_bLength config)) buffer) (sz - int_of (cf_bLength config)) (None, 0) h1;
               let config1 = config\<lparr>cf_interface := Some (p, us), cf_extra := extra,
                                    cf_extra_length := extra_length\<rparr>;
               (case k of
                  CfErr r \<Rightarrow> do { h3 \<leftarrow> clear_configuration config1 h2; Some (r, config1, h3) }
                | CfStop i \<Rightarrow> Some (sz', config1\<lparr>cf_bNumInterfaces := u8_of i\<rparr>, h2)
                | CfAll \<Rightarrow> Some (sz', config1, h2))
             })
      })"

definition raw_desc_to_config ::
  "endian \<Rightarrow> u8 list \<Rightarrow> int \<Rightarrow> bool \<Rightarrow> heap \<Rightarrow> (int \<times> libusb_config_descriptor blk \<times> heap) option" where
  "raw_desc_to_config cpu buf sz host_endian h =
     (case c_malloc h of
        (None, h1) \<Rightarrow> Some (LIBUSB_ERROR_NO_MEM, None, h1)
      | (Some p, h1) \<Rightarrow> do {
          (r, config, h2) \<leftarrow> parse_configuration cpu buf sz host_endian h1;
          if r < 0 then do { h3 \<leftarrow> c_release p h2; Some (r, None, h3) }
          else Some (LIBUSB_SUCCESS, Some (p, config), h2)
        })"

definition libusb_free_config_descriptor :: "libusb_config_descriptor blk \<Rightarrow> heap \<Rightarrow> heap option" where
  "libusb_free_config_descriptor config h =
     (case config of
        None \<Rightarrow> Some h
      | Some (p, c) \<Rightarrow> do {
          _ \<leftarrow> c_deref p h;
          h1 \<leftarrow> clear_configuration c h;
          c_release p h1
        })"

end
