(* ===== verification/Desc_Safety.thy ===== *)
theory Desc_Safety
  imports Desc_Parser
begin

text \<open>
  Memory safety and ownership of the configuration parser: for every byte string the parser
  reads only inside the buffer, frees nothing twice, and what it returns owns exactly the blocks
  it allocated, so that \<open>libusb_free_config_descriptor\<close> gives them all back.
\<close>

subsection \<open>Blocks reachable from a structure, in the order the code frees them\<close>

definition ep_ptrs :: "libusb_endpoint_descriptor \<Rightarrow> ptr list" where
  "ep_ptrs e = blk_ptrs (ep_extra e)"

definition if_ptrs :: "libusb_interface_descriptor \<Rightarrow> ptr list" where
  "if_ptrs d = blk_ptrs (if_extra d) @
     (case if_endpoint d of None \<Rightarrow> []
      | Some (p, es) \<Rightarrow> concat (map ep_ptrs (take (unat (if_bNumEndpoints d)) es)) @ [p])"

definition intf_ptrs :: "libusb_interface \<Rightarrow> ptr list" where
  "intf_ptrs u = (case altsetting u of None \<Rightarrow> []
     | Some (p, ds) \<Rightarrow> concat (map if_ptrs (take (nat (num_altsetting u)) ds)) @ [p])"

definition cf_ptrs :: "libusb_config_descriptor \<Rightarrow> ptr list" where
  "cf_ptrs c = (case cf_interface c of None \<Rightarrow> []
     | Some (p, us) \<Rightarrow> concat (map intf_ptrs (take (unat (cf_bNumInterfaces c)) us)) @ [p]) @
     blk_ptrs (cf_extra c)"

text \<open>The counts of a structure never exceed the arrays they index.\<close>

definition if_wf :: "libusb_interface_descriptor \<Rightarrow> bool" where
  "if_wf d \<longleftrightarrow> (case if_endpoint d of None \<Rightarrow> True
     | Some (p, es) \<Rightarrow> unat (if_bNumEndpoints d) \<le> length es) \<and> unat (if_bNumEndpoints d) \<le> 32"

definition intf_wf :: "libusb_interface \<Rightarrow> bool" where
  "intf_wf u \<longleftrightarrow> 0 \<le> num_altsetting u \<and> (case altsetting u of None \<Rightarrow> True
     | Some (p, ds) \<Rightarrow> num_altsetting u \<le> int (length ds) \<and>
         (\<forall>d \<in> set (take (nat (num_altsetting u)) ds). if_wf d))"

definition cf_wf :: "libusb_config_descriptor \<Rightarrow> bool" where
  "cf_wf c \<longleftrightarrow> unat (cf_bNumInterfaces c) \<le> 32 \<and> (case cf_interface c of None \<Rightarrow> True
     | Some (p, us) \<Rightarrow> unat (cf_bNumInterfaces c) \<le> length us \<and>
         (\<forall>u \<in> set (take (unat (cf_bNumInterfaces c)) us). intf_wf u))"

lemma owns_mset: "mset ps = mset qs \<Longrightarrow> owns h h' ps \<longleftrightarrow> owns h h' qs"
  unfolding owns_def using mset_eq_imp_distinct_iff mset_eq_setD by metis

lemma owns_blk_free:
  assumes "owns h0 h (blk_ptrs b @ qs)" and "heap_wf h0"
  shows "\<exists>h'. c_free (blk_ptr b) h = Some h' \<and> owns h0 h' qs"
  using assms owns_release [of h0 h "[]"] by (cases b) (auto simp: blk_ptrs_def blk_ptr_def)

subsection \<open>The clearing functions free exactly the reachable blocks\<close>

lemma clear_endpoints_owns:
  "owns h0 h (concat (map ep_ptrs es) @ p # qs) \<Longrightarrow> heap_wf h0 \<Longrightarrow>
    \<exists>h'. clear_endpoints p es h = Some h' \<and> owns h0 h' (p # qs)"
proof (induction es arbitrary: h)
  case Nil
  then show ?case by simp
next
  case (Cons e es)
  from Cons.prems have "c_deref p h = Some ()" by (intro owns_live) auto
  moreover obtain h1 where "clear_endpoint e h = Some h1" "owns h0 h1 (concat (map ep_ptrs es) @ p # qs)"
    using owns_blk_free [of h0 h "ep_extra e" "concat (map ep_ptrs es) @ p # qs"] Cons.prems
    by (auto simp: clear_endpoint_def ep_ptrs_def [of e])
  ultimately show ?case using Cons.IH Cons.prems(2) by auto
qed

lemma clear_altsetting_owns:
  assumes own: "owns h0 h (if_ptrs d @ qs)" and wf: "heap_wf h0" and "if_wf d"
  shows "\<exists>h'. clear_altsetting d h = Some h' \<and> owns h0 h' qs"
proof (cases "if_endpoint d")
  case None
  with owns_blk_free [OF _ wf, of h "if_extra d" qs] own show ?thesis
    by (auto simp: clear_altsetting_def if_ptrs_def)
next
  case (Some a)
  then obtain p es where ep: "if_endpoint d = Some (p, es)" by (cases a) auto
  let ?es = "take (unat (if_bNumEndpoints d)) es"
  from own ep have "owns h0 h (blk_ptrs (if_extra d) @ concat (map ep_ptrs ?es) @ p # qs)"
    by (simp add: if_ptrs_def)
  from owns_blk_free [OF this wf] obtain h1 where
    h1: "c_free (blk_ptr (if_extra d)) h = Some h1" "owns h0 h1 (concat (map ep_ptrs ?es) @ p # qs)"
    by auto
  from clear_endpoints_owns [OF h1(2) wf] obtain h2 where
    h2: "clear_endpoints p ?es h1 = Some h2" "owns h0 h2 (p # qs)" by auto
  from owns_release [of h0 h2 "[]" p qs] h2(2) wf obtain h3 where
    "c_release p h2 = Some h3" "owns h0 h3 qs" by auto
  with h1(1) h2(1) ep \<open>if_wf d\<close> show ?thesis
    by (auto simp: clear_altsetting_def if_wf_def)
qed

lemma clear_altsettings_owns:
  "owns h0 h (concat (map if_ptrs ds) @ p # qs) \<Longrightarrow> heap_wf h0 \<Longrightarrow> \<forall>d \<in> set ds. if_wf d \<Longrightarrow>
    \<exists>h'. clear_altsettings p ds h = Some h' \<and> owns h0 h' (p # qs)"
proof (induction ds arbitrary: h)
  case Nil
  then show ?case by simp
next
  case (Cons d ds)
  from Cons.prems have "c_deref p h = Some ()" by (intro owns_live) auto
  moreover obtain h1 where "clear_altsetting d h = Some h1" "owns h0 h1 (concat (map if_ptrs ds) @ p # qs)"
    using clear_altsetting_owns [of h0 h d] Cons.prems by auto
  ultimately show ?case using Cons.IH Cons.prems by auto
qed

lemma clear_interface_owns:
  assumes own: "owns h0 h (intf_ptrs u @ qs)" and wf: "heap_wf h0" and "intf_wf u"
  shows "\<exists>h'. clear_interface u h = Some (u\<lparr>altsetting := None\<rparr>, h') \<and> owns h0 h' qs"
proof (cases "altsetting u")
  case None
  with own show ?thesis by (simp add: clear_interface_def intf_ptrs_def)
next
  case (Some a)
  then obtain p ds where alt: "altsetting u = Some (p, ds)" by (cases a) auto
  let ?ds = "take (nat (num_altsetting u)) ds"
  from own alt have "owns h0 h (concat (map if_ptrs ?ds) @ p # qs)" by (simp add: intf_ptrs_def)
  moreover from \<open>intf_wf u\<close> alt have "\<forall>d \<in> set ?ds. if_wf d" by (simp add: intf_wf_def)
  ultimately obtain h1 where h1: "clear_altsettings p ?ds h = Some h1" "owns h0 h1 (p # qs)"
    using clear_altsettings_owns wf by blast
  from owns_release [of h0 h1 "[]" p qs] h1(2) wf obtain h2 where
    "c_release p h1 = Some h2" "owns h0 h2 qs" by auto
  with h1(1) alt \<open>intf_wf u\<close> show ?thesis by (auto simp: clear_interface_def intf_wf_def)
qed

lemma clear_interfaces_owns:
  "owns h0 h (concat (map intf_ptrs us) @ p # qs) \<Longrightarrow> heap_wf h0 \<Longrightarrow> \<forall>u \<in> set us. intf_wf u \<Longrightarrow>
    \<exists>h'. clear_interfaces p us h = Some h' \<and> owns h0 h' (p # qs)"
proof (induction us arbitrary: h)
  case Nil
  then show ?case by simp
next
  case (Cons u us)
  from Cons.prems have "c_deref p h = Some ()" by (intro owns_live) auto
  moreover obtain h1 where "clear_interface u h = Some (u\<lparr>altsetting := None\<rparr>, h1)"
    "owns h0 h1 (concat (map intf_ptrs us) @ p # qs)"
    using clear_interface_owns [of h0 h u] Cons.prems by auto
  ultimately show ?case using Cons.IH Cons.prems by auto
qed

lemma clear_configuration_owns:
  assumes own: "owns h0 h (cf_ptrs c @ qs)" and wf: "heap_wf h0" and "cf_wf c"
  shows "\<exists>h'. clear_configuration c h = Some h' \<and> owns h0 h' qs"
proof (cases "cf_interface c")
  case None
  with owns_blk_free [OF _ wf, of h "cf_extra c" qs] own show ?thesis
    by (auto simp: clear_configuration_def cf_ptrs_def)
next
  case (Some a)
  then obtain p us where alt: "cf_interface c = Some (p, us)" by (cases a) auto
  let ?us = "take (unat (cf_bNumInterfaces c)) us" and ?qs = "blk_ptrs (cf_extra c) @ qs"
  from own alt have "owns h0 h (concat (map intf_ptrs ?us) @ p # ?qs)" by (simp add: cf_ptrs_def)
  moreover from \<open>cf_wf c\<close> alt have "\<forall>u \<in> set ?us. intf_wf u" by (simp add: cf_wf_def)
  ultimately obtain h1 where h1: "clear_interfaces p ?us h = Some h1" "owns h0 h1 (p # ?qs)"
    using clear_interfaces_owns wf by blast
  from owns_release [of h0 h1 "[]" p ?qs] h1(2) wf obtain h2 where
    h2: "c_release p h1 = Some h2" "owns h0 h2 ?qs" by auto
  from owns_blk_free [OF h2(2) wf] h1(1) h2(1) alt \<open>cf_wf c\<close> show ?thesis
    by (auto simp: clear_configuration_def cf_wf_def)
qed

subsection \<open>Reads stay inside the buffer\<close>

text \<open>The number of bytes a format string of \<open>usbi_parse_descriptor\<close> consumes.\<close>

fun fmt_len :: "string \<Rightarrow> nat" where
  "fmt_len [] = 0"
| "fmt_len (c # cp) =
     (if c = CHR ''b'' then 1 else if c = CHR ''w'' then 2 else if c = CHR ''d'' then 4
      else if c = CHR ''u'' then 16 else 0) + fmt_len cp"

lemma parse_fields_len:
  "fmt_len cp \<le> length sp \<Longrightarrow> \<exists>fs. parse_fields cpu he cp sp dp = Some (fs, int (fmt_len cp))"
proof (induction cp arbitrary: sp dp)
  case Nil
  then show ?case by simp
next
  case (Cons c cp)
  note IH = Cons.IH [of "drop n sp" "d" for n d]
  consider "c = CHR ''b''" | "c = CHR ''w''" | "c = CHR ''d''" | "c = CHR ''u''"
    | "c \<notin> {CHR ''b'', CHR ''w'', CHR ''d'', CHR ''u''}" by blast
  then show ?case
  proof cases
    case 1
    with Cons.prems IH [of 1 "dp + 1"] show ?thesis by (cases sp) auto
  next
    case 2
    with Cons.prems obtain b0 b1 sp' where "sp = b0 # b1 # sp'"
      by (auto simp: Suc_le_length_iff)
    with 2 Cons.prems IH [of 2 "align2 dp + 2"] show ?thesis by auto
  next
    case 3
    with Cons.prems obtain b0 b1 b2 b3 sp' where "sp = b0 # b1 # b2 # b3 # sp'"
      by (auto simp: numeral_eq_Suc Suc_le_length_iff)
    with 3 Cons.prems IH [of 4 "align2 dp + 4"] show ?thesis by auto
  next
    case 4
    with Cons.prems have "fmt_len cp \<le> length (drop 16 sp)" by simp
    from IH [OF this, of "dp + 16"] 4 Cons.prems show ?thesis by auto
  next
    case 5
    with Cons.prems IH [of 0 dp] show ?thesis by auto
  qed
qed

lemma usbi_parse_descriptor_len:
  "fmt_len d \<le> length b \<Longrightarrow> \<exists>fs. usbi_parse_descriptor cpu b d he = Some (fs, int (fmt_len d))"
  unfolding usbi_parse_descriptor_def by (rule parse_fields_len)

lemma parse_header_eq: "2 \<le> length b \<Longrightarrow> parse_header b = Some (b ! 0, b ! 1)"
  by (auto simp: parse_header_def usbi_parse_descriptor_def st8_def numeral_2_eq_2 Suc_le_length_iff)

lemma skip_extra_defined: "s \<le> int (length b) \<Longrightarrow> skip_extra b s \<noteq> None"
proof (induction b s rule: skip_extra.induct)
  case (1 b s)
  show ?case
  proof (cases "2 \<le> s")
    case False
    then show ?thesis by (simp add: skip_extra.simps [of b s])
  next
    case True
    with "1.prems" have hdr: "parse_header b = Some (b ! 0, b ! 1)" by (simp add: parse_header_eq)
    have "s - int_of (b ! 0) \<le> int (length (drop (unat (b ! 0)) b))"
      using "1.prems" by (rule drop_bound)
    with "1.IH" [OF True hdr refl] have
      "\<not> (int_of (b ! 0) < 2 \<or> int_of (b ! 0) > s \<or> proper_type (b ! 1)) \<longrightarrow>
        skip_extra (drop (unat (b ! 0)) b) (s - int_of (b ! 0)) \<noteq> None"
      by blast
    then show ?thesis
      using True hdr by (subst skip_extra.simps) (auto split: option.split)
  qed
qed

lemma skip_extra_total:
  assumes "s \<le> int (length b)"
  obtains k n where "skip_extra b s = Some (k, drop (nat n) b, s - n, n)" and "0 \<le> n"
    and "n = 0 \<or> n \<le> s"
proof -
  from skip_extra_defined [OF assms] obtain k b' s' n where r: "skip_extra b s = Some (k, b', s', n)"
    by (metis option.exhaust prod_cases4)
  from skip_extra_shape [OF r] r show thesis by (intro that) auto
qed

subsection \<open>Endpoints\<close>

lemma ep_store_extra [simp]: "ep_extra (ep_store fs e) = ep_extra e"
  by (simp add: ep_store_def)

lemma parse_endpoint_extra_owns:
  assumes "s \<le> int (length b)" and "heap_wf h" and "ep_extra e = None" and "0 \<le> s"
  shows "\<exists>r e' h'. parse_endpoint_extra b s parsed e h = Some (r, e', h') \<and> owns h h' (ep_ptrs e') \<and>
    (r \<in> {LIBUSB_ERROR_IO, LIBUSB_ERROR_NO_MEM} \<and> ep_extra e' = None \<or> parsed \<le> r \<and> r \<le> parsed + s)"
proof -
  obtain k n where sk: "skip_extra b s = Some (k, drop (nat n) b, s - n, n)" and n: "0 \<le> n" "n \<le> s"
    using skip_extra_total [OF assms(1)] assms(4) by metis
  show ?thesis
  proof (cases "k = SkipDone \<and> n \<noteq> 0")
    case False
    with sk n assms show ?thesis
      by (cases k) (auto simp: parse_endpoint_extra_def ep_ptrs_def)
  next
    case True
    from n assms(1) have mc: "c_memcpy b n = Some (take (nat n) b)" by (simp add: c_memcpy_def)
    obtain q h1 where m: "c_malloc h = (q, h1)" by fastforce
    show ?thesis
    proof (cases q)
      case None
      with True sk m owns_malloc_None [OF assms(2)] show ?thesis
        by (auto simp: parse_endpoint_extra_def ep_ptrs_def)
    next
      case (Some p)
      with True sk m mc n owns_malloc [OF assms(2)] show ?thesis
        by (auto simp: parse_endpoint_extra_def ep_ptrs_def)
    qed
  qed
qed

lemma parse_endpoint_owns:
  assumes "s \<le> int (length b)" and "heap_wf h" and "ep_extra e = None"
  shows "\<exists>r e' h'. parse_endpoint cpu e b s he h = Some (r, e', h') \<and> owns h h' (ep_ptrs e') \<and>
    (r \<in> {LIBUSB_ERROR_IO, LIBUSB_ERROR_NO_MEM} \<and> ep_extra e' = None \<or> r = 0 \<and> e' = e \<and> h' = h \<or>
     0 < r \<and> r \<le> s)"
proof (cases "2 \<le> s")
  case False
  with assms show ?thesis by (simp add: parse_endpoint_def ep_ptrs_def)
next
  case True
  let ?l = "b ! 0"
  from True assms(1) have hdr: "parse_header b = Some (?l, b ! 1)" by (simp add: parse_header_eq)
  show ?thesis
  proof (cases "b ! 1 = LIBUSB_DT_ENDPOINT \<and> int_of ?l \<le> s \<and> 7 \<le> int_of ?l")
    case False
    with True assms hdr show ?thesis by (auto simp: parse_endpoint_def ep_ptrs_def not_less not_le)
  next
    case ok: True
    have bound: "s - int_of ?l \<le> int (length (drop (unat ?l) b))"
      using assms(1) by (rule drop_bound)
    have "int_of ?l \<le> int (length b)" using ok assms(1) by simp
    then have len: "fmt_len ''bbbbwb'' \<le> length b" "9 \<le> int_of ?l \<Longrightarrow> fmt_len ''bbbbwbbb'' \<le> length b"
      using ok by auto
    have ex: "\<exists>r e' h'. parse_endpoint_extra (drop (unat ?l) b) (s - int_of ?l) (int_of ?l) (ep_store fs e) h =
        Some (r, e', h') \<and> owns h h' (ep_ptrs e') \<and>
        (r \<in> {LIBUSB_ERROR_IO, LIBUSB_ERROR_NO_MEM} \<and> ep_extra e' = None \<or> 0 < r \<and> r \<le> s)" for fs
    proof -
      have "ep_extra (ep_store fs e) = None" "0 \<le> s - int_of ?l" using assms(3) ok by simp_all
      from parse_endpoint_extra_owns [OF bound assms(2) this, of "int_of ?l"] obtain r e' h' where
        "parse_endpoint_extra (drop (unat ?l) b) (s - int_of ?l) (int_of ?l) (ep_store fs e) h = Some (r, e', h')"
        "owns h h' (ep_ptrs e')" "r \<in> {LIBUSB_ERROR_IO, LIBUSB_ERROR_NO_MEM} \<and> ep_extra e' = None \<or>
          int_of ?l \<le> r \<and> r \<le> int_of ?l + (s - int_of ?l)"
        by blast
      moreover from this(3) ok have "r \<in> {LIBUSB_ERROR_IO, LIBUSB_ERROR_NO_MEM} \<and> ep_extra e' = None \<or>
          0 < r \<and> r \<le> s" by linarith
      ultimately show ?thesis by blast
    qed
    show ?thesis
    proof (cases "9 \<le> int_of ?l")
      case big: True
      with usbi_parse_descriptor_len [OF len(2)] obtain fs n where
        "usbi_parse_descriptor cpu b ''bbbbwbbb'' he = Some (fs, n)" by blast
      with ok big True hdr have "parse_endpoint cpu e b s he h =
          parse_endpoint_extra (drop (unat ?l) b) (s - int_of ?l) (int_of ?l) (ep_store fs e) h"
        by (simp add: parse_endpoint_def)
      with ex [of fs] show ?thesis by auto
    next
      case False
      with usbi_parse_descriptor_len [OF len(1)] obtain fs n where
        "usbi_parse_descriptor cpu b ''bbbbwb'' he = Some (fs, n)" by blast
      with ok False True hdr have "parse_endpoint cpu e b s he h =
          parse_endpoint_extra (drop (unat ?l) b) (s - int_of ?l) (int_of ?l) (ep_store fs e) h"
        by (simp add: parse_endpoint_def)
      with ex [of fs] show ?thesis by auto
    qed
  qed
qed

definition ep_outcome_ok :: "ep_outcome \<Rightarrow> libusb_endpoint_descriptor list \<Rightarrow> bool" where
  "ep_outcome_ok k es = (case k of
      EpErr r \<Rightarrow> r \<in> {LIBUSB_ERROR_IO, LIBUSB_ERROR_NO_MEM}
    | EpStop i \<Rightarrow> i < length es \<and> (\<forall>e \<in> set (drop i es). ep_extra e = None)
    | EpAll \<Rightarrow> True)"

lemma ep_outcome_ok_next: "ep_outcome_ok k es \<Longrightarrow> ep_outcome_ok (ep_next k) (e # es)"
  by (cases k) (auto simp: ep_outcome_ok_def)

lemma concat_ep_ptrs_Nil: "\<forall>e \<in> set es. ep_extra e = None \<Longrightarrow> concat (map ep_ptrs es) = []"
  by (simp add: ep_ptrs_def)

lemma parse_endpoints_owns:
  "s \<le> int (length b) \<Longrightarrow> heap_wf h \<Longrightarrow> \<forall>e \<in> set es. ep_extra e = None \<Longrightarrow>
    \<exists>k es' s' h'. parse_endpoints cpu he es b s h = Some (k, es', drop (nat (s - s')) b, s', h') \<and>
      s' \<le> s \<and> owns h h' (concat (map ep_ptrs es')) \<and> length es' = length es \<and> ep_outcome_ok k es'"
proof (induction es arbitrary: b s h)
  case Nil
  then show ?case by (auto simp: ep_outcome_ok_def intro!: exI [of _ s])
next
  case (Cons e es)
  from parse_endpoint_owns [OF Cons.prems(1,2), of e cpu he] Cons.prems(3) obtain r e' h1 where
    ep: "parse_endpoint cpu e b s he h = Some (r, e', h1)" and own: "owns h h1 (ep_ptrs e')" and
    r: "r \<in> {LIBUSB_ERROR_IO, LIBUSB_ERROR_NO_MEM} \<and> ep_extra e' = None \<or> r = 0 \<and> e' = e \<and> h1 = h \<or>
        0 < r \<and> r \<le> s"
    by auto
  have rest: "concat (map ep_ptrs es) = []" using Cons.prems(3) by (simp add: concat_ep_ptrs_Nil)
  show ?case
  proof (cases "0 < r")
    case False
    then have "owns h h1 (concat (map ep_ptrs (e' # es)))" and "ep_extra e' = None"
      using r own Cons.prems(3) by (simp_all only: list.map concat.simps rest append_Nil2) auto
    with False r ep Cons.prems(3) show ?thesis
      by (auto simp: ep_outcome_ok_def intro!: exI [of _ s])
  next
    case True
    with r Cons.prems(1) have "s - r \<le> int (length (drop (nat r) b))" by simp
    moreover have "heap_wf h1" using own Cons.prems(2) by (rule owns_wf)
    moreover have "\<forall>e \<in> set es. ep_extra e = None" using Cons.prems(3) by simp
    ultimately obtain k es' s' h' where
      rec: "parse_endpoints cpu he es (drop (nat r) b) (s - r) h1 =
              Some (k, es', drop (nat (s - r - s')) (drop (nat r) b), s', h')"
        "s' \<le> s - r" "owns h1 h' (concat (map ep_ptrs es'))" "length es' = length es" "ep_outcome_ok k es'"
      using Cons.IH by blast
    have "nat (s - r - s') + nat r = nat (s - s')" using True rec(2) by simp
    with ep True rec(1) have "parse_endpoints cpu he (e # es) b s h =
        Some (ep_next k, e' # es', drop (nat (s - s')) b, s', h')"
      by simp
    moreover have "owns h h' (concat (map ep_ptrs (e' # es')))" using owns_trans [OF own rec(3)] by simp
    moreover have "s' \<le> s" "length (e' # es') = length (e # es)" using True rec(2,4) by simp_all
    ultimately show ?thesis using ep_outcome_ok_next [OF rec(5)] by blast
  qed
qed

subsection \<open>Interfaces\<close>

text \<open>
  The invariant of \<open>parse_interface\<close>: since \<open>h0\<close> the heap has grown by the blocks of the interface,
  the bytes parsed and left add up to \<open>tot\<close>, and something was parsed iff there is an altsetting.
\<close>

definition st_ok :: "heap \<Rightarrow> int \<Rightarrow> intf_state \<Rightarrow> bool" where
  "st_ok h0 tot st \<longleftrightarrow> owns h0 (is_heap st) (intf_ptrs (is_intf st)) \<and> intf_wf (is_intf st) \<and>
     is_size st \<le> int (length (is_buffer st)) \<and> is_parsed st + is_size st = tot \<and>
     0 \<le> is_parsed st \<and> 0 \<le> is_size st \<and> (0 < is_parsed st \<longleftrightarrow> 0 < num_altsetting (is_intf st))"

definition head_inv :: "heap \<Rightarrow> int \<Rightarrow> intf_state \<Rightarrow> bool" where
  "head_inv h0 tot st \<longleftrightarrow> st_ok h0 tot st \<and> num_altsetting (is_intf st) =
     (case altsetting (is_intf st) of None \<Rightarrow> 0 | Some (p, ds) \<Rightarrow> int (length ds))"

definition alt_inv :: "heap \<Rightarrow> int \<Rightarrow> libusb_interface_descriptor \<Rightarrow> intf_state \<Rightarrow> bool" where
  "alt_inv h0 tot d st \<longleftrightarrow> st_ok h0 tot st \<and> if_endpoint d = None \<and> (\<exists>p ds. altsetting (is_intf st) = Some (p, ds @ [d]) \<and>
     num_altsetting (is_intf st) = int (length ds) + 1)"

definition out_ok :: "heap \<Rightarrow> int \<Rightarrow> ('a \<Rightarrow> intf_state \<Rightarrow> bool) \<Rightarrow>
    ('a alt_outcome \<times> intf_state) option \<Rightarrow> bool" where
  "out_ok h0 tot P m = (case m of
      None \<Rightarrow> False
    | Some (AltErr r, st) \<Rightarrow> r \<in> {LIBUSB_ERROR_IO, LIBUSB_ERROR_NO_MEM} \<and> st_ok h0 tot st
    | Some (AltReturn, st) \<Rightarrow> st_ok h0 tot st
    | Some (AltNext x, st) \<Rightarrow> P x st)"

lemma out_ok_simps [simp]:
  "\<not> out_ok h0 tot P None"
  "out_ok h0 tot P (Some (AltErr r, st)) \<longleftrightarrow> r \<in> {LIBUSB_ERROR_IO, LIBUSB_ERROR_NO_MEM} \<and> st_ok h0 tot st"
  "out_ok h0 tot P (Some (AltReturn, st)) \<longleftrightarrow> st_ok h0 tot st"
  "out_ok h0 tot P (Some (AltNext x, st)) \<longleftrightarrow> P x st"
  by (simp_all add: out_ok_def)

lemma out_okE:
  assumes "out_ok h0 tot P m"
  obtains r st where "m = Some (AltErr r, st)" "r \<in> {LIBUSB_ERROR_IO, LIBUSB_ERROR_NO_MEM}" "st_ok h0 tot st"
  | st where "m = Some (AltReturn, st)" "st_ok h0 tot st"
  | x st where "m = Some (AltNext x, st)" "P x st"
proof (cases m)
  case None
  with assms show thesis by simp
next
  case (Some a)
  with assms that show thesis by (cases a, cases "fst a") auto
qed

lemma out_ok_bind:
  assumes "out_ok h0 tot P m" and "\<And>x st. P x st \<Longrightarrow> out_ok h0 tot Q (f x st)"
  shows "out_ok h0 tot Q (alt_bind m f)"
  using assms(1) by (cases rule: out_okE) (auto simp: alt_bind_def assms(2))

lemma if_ptrs_if_store [simp]: "if_ptrs (if_store fs) = []"
  by (simp add: if_ptrs_def if_store_def)

lemma if_store_NULL [simp]: "if_endpoint (if_store fs) = None" "if_extra (if_store fs) = None"
  by (simp_all add: if_store_def)

lemma alt_slot:
  assumes inv: "head_inv h0 tot st" and "heap_wf h0" and "\<And>n. \<not> hp_refail h0 n"
  obtains h1 where "usbi_reallocf (blk_ptr (altsetting (is_intf st))) (is_heap st) = Some (None, h1)"
      "owns h0 h1 (intf_ptrs (is_intf st))"
  | h1 p ds where "usbi_reallocf (blk_ptr (altsetting (is_intf st))) (is_heap st) = Some (Some p, h1)"
      "(case altsetting (is_intf st) of None \<Rightarrow> [] | Some (_, ds) \<Rightarrow> take (nat (num_altsetting (is_intf st))) ds) = ds"
      "num_altsetting (is_intf st) = int (length ds)" "\<forall>d \<in> set ds. if_wf d"
      "owns h0 h1 (concat (map if_ptrs ds) @ [p])"
proof (cases "altsetting (is_intf st)")
  case None
  with inv have own: "owns h0 (is_heap st) []" and n: "num_altsetting (is_intf st) = 0"
    by (simp_all add: head_inv_def st_ok_def intf_ptrs_def)
  from owns_wf [OF own assms(2)] have wf: "heap_wf (is_heap st)" .
  obtain q h1 where m: "c_malloc (is_heap st) = (q, h1)" by fastforce
  show thesis
  proof (cases q)
    case q: None
    with None m owns_trans [OF own owns_malloc_None [OF wf]] show thesis
      by (intro that(1) [of h1]) (simp_all add: usbi_reallocf_def intf_ptrs_def)
  next
    case (Some p)
    with None n m owns_trans [OF own owns_malloc [OF wf]] show thesis
      by (intro that(2) [of p h1 "[]"]) (simp_all add: usbi_reallocf_def)
  qed
next
  case (Some a)
  then obtain p ds where alt: "altsetting (is_intf st) = Some (p, ds)" by (cases a) auto
  with inv have n: "num_altsetting (is_intf st) = int (length ds)" and "st_ok h0 tot st"
    by (simp_all add: head_inv_def)
  with alt have wf: "\<forall>d \<in> set ds. if_wf d"
    and own: "owns h0 (is_heap st) (concat (map if_ptrs ds) @ p # [])"
    by (simp_all add: st_ok_def intf_ptrs_def intf_wf_def)
  from owns_reallocf [OF own assms(2) assms(3)] alt n wf show thesis
    by (auto intro: that(2) [of "hp_next (is_heap st)" _ ds])
qed

lemma alt_descriptor_ok:
  assumes inv: "head_inv h0 tot st" and "heap_wf h0" and "\<And>n. \<not> hp_refail h0 n" and sz: "9 \<le> is_size st"
  shows "out_ok h0 tot (\<lambda>d st'. alt_inv h0 tot d st' \<and> if_extra d = None) (alt_descriptor st)"
  using assms(1-3)
proof (cases rule: alt_slot)
  case (1 h1)
  with inv show ?thesis
    by (auto simp: alt_descriptor_def Let_def head_inv_def st_ok_def)
next
  case (2 h1 p ds)
  from inv have st: "st_ok h0 tot st" by (simp add: head_inv_def)
  have len: "fmt_len ''bbbbbbbbb'' \<le> length (is_buffer st)"
    using st sz by (simp add: st_ok_def)
  obtain fs n where fs: "usbi_parse_descriptor LittleEndian (is_buffer st) ''bbbbbbbbb'' False = Some (fs, n)"
    using usbi_parse_descriptor_len [OF len] by blast
  let ?d = "if_store fs" and ?u = "is_intf st"
  let ?u1 = "?u\<lparr>altsetting := Some (p, ds @ [?d])\<rparr>"
  let ?st1 = "st\<lparr>is_heap := h1, is_intf := ?u1\<rparr>"
  have stop: "st_ok h0 tot ?st1"
    using st 2(3-5) by (simp add: st_ok_def intf_ptrs_def intf_wf_def)
  show ?thesis
  proof (cases "if_bDescriptorType ?d = LIBUSB_DT_INTERFACE \<and> 9 \<le> int_of (if_bLength ?d) \<and>
      int_of (if_bLength ?d) \<le> is_size st \<and> int_of (if_bNumEndpoints ?d) \<le> 32")
    case False
    with 2 fs stop show ?thesis
      by (auto simp: alt_descriptor_def Let_def not_less not_le)
  next
    case True
    then have "unat (if_bNumEndpoints ?d) \<le> 32" by (simp add: unat_le_int)
    then have wf: "if_wf ?d" by (simp add: if_wf_def)
    define num where "num = (if is_number st = -1 then int_of (if_bInterfaceNumber ?d) else is_number st)"
    let ?st2 = "advance (int_of (if_bLength ?d))
      (?st1\<lparr>is_intf := ?u1\<lparr>num_altsetting := num_altsetting ?u + 1\<rparr>, is_number := num\<rparr>)"
    have "alt_descriptor st = Some (AltNext ?d, ?st2)"
      using 2 fs True by (simp add: alt_descriptor_def Let_def num_def)
    moreover have "owns h0 (is_heap ?st2) (intf_ptrs (is_intf ?st2))" "intf_wf (is_intf ?st2)"
      using 2(3-5) wf by (simp_all add: intf_ptrs_def intf_wf_def nat_add_distrib)
    then have "st_ok h0 tot ?st2"
      using st 2(3) True drop_bound [of "is_size st" "is_buffer st" "if_bLength ?d"]
      by (simp add: st_ok_def)
    ultimately show ?thesis using 2(3) by (simp add: alt_inv_def)
  qed
qed

text \<open>Writing through \<open>ifp\<close> a descriptor that owns the blocks \<open>qs\<close> more.\<close>

lemma put_ifp_slot:
  assumes "altsetting u = Some (p, ds @ [d])" and "num_altsetting u = int (length ds) + 1"
  shows "put_ifp d' u = u\<lparr>altsetting := Some (p, ds @ [d'])\<rparr>"
  using assms by (simp add: put_ifp_def)

lemma st_ok_put:
  assumes inv: "alt_inv h0 tot d st" and "owns (is_heap st) h' qs"
    and ptrs: "mset (if_ptrs d') = mset (if_ptrs d) + mset qs" and "if_wf d'"
  defines "st' \<equiv> st\<lparr>is_heap := h', is_intf := put_ifp d' (is_intf st)\<rparr>"
  shows "st_ok h0 tot st' \<and> (\<exists>p ds. altsetting (is_intf st') = Some (p, ds @ [d']) \<and>
     num_altsetting (is_intf st') = int (length ds) + 1)"
proof -
  from inv obtain p ds where alt: "altsetting (is_intf st) = Some (p, ds @ [d])"
    and n: "num_altsetting (is_intf st) = int (length ds) + 1" and st: "st_ok h0 tot st"
    by (auto simp: alt_inv_def)
  have "owns h0 (is_heap st) (concat (map if_ptrs ds) @ if_ptrs d @ [p])"
    using st alt n by (simp add: st_ok_def intf_ptrs_def nat_add_distrib)
  from owns_trans [OF this assms(2)] have own: "owns h0 h' (concat (map if_ptrs ds) @ if_ptrs d' @ [p])"
    by (rule iffD1 [OF owns_mset, rotated]) (simp add: ptrs)
  from put_ifp_slot [OF alt n] own st alt n \<open>if_wf d'\<close> show ?thesis
    by (simp add: st'_def st_ok_def intf_ptrs_def intf_wf_def nat_add_distrib)
qed

lemma st_ok_advance:
  assumes "st_ok h0 tot st" and "0 \<le> n" and "n \<le> is_size st" and "0 < num_altsetting (is_intf st)"
  shows "st_ok h0 tot (advance n st)"
  using assms by (auto simp: st_ok_def of_nat_diff)

lemma alt_inv_num: "alt_inv h0 tot d st \<Longrightarrow> 0 < num_altsetting (is_intf st)"
  by (auto simp: alt_inv_def)

lemma alt_inv_advance:
  assumes "alt_inv h0 tot d st" and "0 \<le> n" and "n \<le> is_size st"
  shows "alt_inv h0 tot d (advance n st)"
  using assms st_ok_advance [of h0 tot st n] alt_inv_num [of h0 tot d st] by (simp add: alt_inv_def)

lemma alt_inv_wf: "alt_inv h0 tot d st \<Longrightarrow> if_wf d"
  by (auto simp: alt_inv_def st_ok_def intf_wf_def nat_add_distrib)

lemma alt_inv_heap_wf: "alt_inv h0 tot d st \<Longrightarrow> heap_wf h0 \<Longrightarrow> heap_wf (is_heap st)"
  by (auto simp: alt_inv_def st_ok_def dest: owns_wf)

lemma st_ok_heap:
  assumes "st_ok h0 tot st" and "owns (is_heap st) h' []"
  shows "st_ok h0 tot (st\<lparr>is_heap := h'\<rparr>)"
  using assms owns_trans [of h0 "is_heap st" "intf_ptrs (is_intf st)" h' "[]"] by (simp add: st_ok_def)

lemma alt_extra_ok:
  assumes inv: "alt_inv h0 tot d st" and wf: "heap_wf h0" and ex: "if_extra d = None"
  shows "out_ok h0 tot (alt_inv h0 tot) (alt_extra d st)"
proof -
  from inv have st: "st_ok h0 tot st" by (simp add: alt_inv_def)
  then have sz: "is_size st \<le> int (length (is_buffer st))" "0 \<le> is_size st" by (simp_all add: st_ok_def)
  from skip_extra_total [OF sz(1)] sz(2) obtain k n where
    sk: "skip_extra (is_buffer st) (is_size st) = Some (k, drop (nat n) (is_buffer st), is_size st - n, n)"
    and n: "0 \<le> n" "n \<le> is_size st" by metis
  note adv = alt_inv_advance [OF inv n]
  from adv have st1: "st_ok h0 tot (advance n st)" by (simp add: alt_inv_def)
  show ?thesis
  proof (cases "k = SkipDone \<and> n \<noteq> 0")
    case False
    with sk st1 adv show ?thesis by (cases k) (auto simp: alt_extra_def)
  next
    case True
    have mc: "c_memcpy (is_buffer st) n = Some (take (nat n) (is_buffer st))"
      using n sz by (simp add: c_memcpy_def)
    obtain q h1 where m: "c_malloc (is_heap (advance n st)) = (q, h1)" by fastforce
    note hwf = alt_inv_heap_wf [OF adv wf]
    show ?thesis
    proof (cases q)
      case None
      with st_ok_heap [OF st1] owns_malloc_None [OF hwf] m sk True show ?thesis
        by (simp add: alt_extra_def)
    next
      case (Some p)
      let ?d = "d\<lparr>if_extra := Some (p, take (nat n) (is_buffer st)), if_extra_length := n\<rparr>"
      from Some m have own: "owns (is_heap (advance n st)) h1 [p]" using owns_malloc [OF hwf] by simp
      have "mset (if_ptrs ?d) = mset (if_ptrs d) + mset [p]" "if_wf ?d"
        using ex inv alt_inv_wf [OF inv] by (simp_all add: alt_inv_def if_ptrs_def if_wf_def)
      from st_ok_put [OF adv own this] inv Some m sk mc True show ?thesis
        by (simp add: alt_extra_def alt_inv_def Let_def)
    qed
  qed
qed

lemma alt_inv_head:
  "st_ok h0 tot st \<Longrightarrow> \<exists>p ds. altsetting (is_intf st) = Some (p, ds @ [d]) \<and>
     num_altsetting (is_intf st) = int (length ds) + 1 \<Longrightarrow> head_inv h0 tot st"
  by (auto simp: head_inv_def)

lemma concat_ep_ptrs_take:
  assumes "\<forall>e \<in> set (drop i es). ep_extra e = None"
  shows "concat (map ep_ptrs (take i es)) = concat (map ep_ptrs es)"
proof -
  have "concat (map ep_ptrs es) = concat (map ep_ptrs (take i es @ drop i es))" by simp
  then show ?thesis using concat_ep_ptrs_Nil [OF assms] by (simp only: map_append concat_append append_Nil2)
qed

lemma alt_endpoints_ok:
  assumes inv: "alt_inv h0 tot d st" and wf: "heap_wf h0"
  shows "out_ok h0 tot (\<lambda>_. head_inv h0 tot) (alt_endpoints cpu he d st)"
proof (cases "0 < int_of (if_bNumEndpoints d)")
  case False
  with inv show ?thesis by (auto simp: alt_endpoints_def alt_inv_def intro: alt_inv_head)
next
  case True
  let ?n = "unat (if_bNumEndpoints d)"
  from inv have st: "st_ok h0 tot st" and noep: "if_endpoint d = None" by (simp_all add: alt_inv_def)
  then have sz: "is_size st \<le> int (length (is_buffer st))" "0 \<le> is_size st" by (simp_all add: st_ok_def)
  obtain q h1 where m: "c_malloc (is_heap st) = (q, h1)" by fastforce
  note hwf = alt_inv_heap_wf [OF inv wf]
  show ?thesis
  proof (cases q)
    case None
    with st_ok_heap [OF st] owns_malloc_None [OF hwf] m True show ?thesis
      by (simp add: alt_endpoints_def)
  next
    case (Some p)
    with m have own1: "owns (is_heap st) h1 [p]" using owns_malloc [OF hwf] by simp
    have "\<forall>e \<in> set (replicate ?n zero_endpoint). ep_extra e = None" by (simp add: zero_endpoint_def)
    from parse_endpoints_owns [OF sz(1) owns_wf [OF own1 hwf] this, of cpu he] obtain k es s' h2 where
      pe: "parse_endpoints cpu he (replicate ?n zero_endpoint) (is_buffer st) (is_size st) h1 =
          Some (k, es, drop (nat (is_size st - s')) (is_buffer st), s', h2)"
      and es: "owns h1 h2 (concat (map ep_ptrs es))" "length es = ?n" "ep_outcome_ok k es" by auto
    from parse_endpoints_le [OF pe sz(2)] have s': "0 \<le> is_size st - s'" "is_size st - s' \<le> is_size st" by auto
    define d2 where "d2 = (case k of EpStop i \<Rightarrow> d\<lparr>if_endpoint := Some (p, es), if_bNumEndpoints := u8_of i\<rparr>
      | _ \<Rightarrow> d\<lparr>if_endpoint := Some (p, es)\<rparr>)"
    let ?st1 = "st\<lparr>is_heap := h2, is_intf := put_ifp d2 (is_intf st)\<rparr>"
    have wfd: "if_wf d" by (rule alt_inv_wf [OF inv])
    have i: "i < 256 \<and> i \<le> 32" if "k = EpStop i" for i
      using that es(2,3) wfd by (simp add: ep_outcome_ok_def if_wf_def)
    have "mset (if_ptrs d2) = mset (if_ptrs d) + mset ([p] @ concat (map ep_ptrs es))" "if_wf d2"
      using noep es(2,3) wfd i
      by (auto simp: d2_def if_ptrs_def if_wf_def ep_outcome_ok_def concat_ep_ptrs_take split: ep_outcome.splits)
    from st_ok_put [OF inv owns_trans [OF own1 es(1)] this]
    have st1: "st_ok h0 tot ?st1" "0 < num_altsetting (is_intf ?st1)" "head_inv h0 tot ?st1"
      using alt_inv_head [of h0 tot ?st1 d2] by auto
    from st_ok_advance [OF st1(1) _ _ st1(2)] s' have st2: "st_ok h0 tot (advance (is_size st - s') ?st1)" by simp
    with st1(3) have "head_inv h0 tot (advance (is_size st - s') ?st1)" by (simp add: head_inv_def)
    moreover have "alt_endpoints cpu he d st = (case k of
        EpErr r \<Rightarrow> Some (AltErr r, advance (is_size st - s') ?st1)
      | _ \<Rightarrow> Some (AltNext (), advance (is_size st - s') ?st1))"
      using True m Some pe by (cases k) (simp_all add: alt_endpoints_def d2_def)
    ultimately show ?thesis using st2 es(3) by (cases k) (simp_all add: ep_outcome_ok_def)
  qed
qed

lemma alt_again_ok:
  assumes "head_inv h0 tot st"
  shows "out_ok h0 tot (\<lambda>_. head_inv h0 tot) (alt_again st)"
proof -
  from assms have "st_ok h0 tot st" "is_size st \<le> int (length (is_buffer st))"
    by (simp_all add: head_inv_def st_ok_def)
  with assms show ?thesis by (auto simp: alt_again_def)
qed

lemma parse_altsetting_ok:
  assumes "head_inv h0 tot st" and "heap_wf h0" and "\<And>n. \<not> hp_refail h0 n" and "9 \<le> is_size st"
  shows "out_ok h0 tot (\<lambda>_. head_inv h0 tot) (parse_altsetting cpu he st)"
  unfolding parse_altsetting_def
proof (rule out_ok_bind [OF alt_descriptor_ok [OF assms]])
  fix d st1
  assume d: "alt_inv h0 tot d st1 \<and> if_extra d = None"
  show "out_ok h0 tot (\<lambda>_. head_inv h0 tot) (alt_bind (alt_extra d st1) (\<lambda>ifp1 st2.
      alt_bind (alt_endpoints cpu he ifp1 st2) (\<lambda>_ st3. alt_again st3)))"
    using d assms(2)
    by (intro out_ok_bind [OF alt_extra_ok] out_ok_bind [OF alt_endpoints_ok] alt_again_ok) auto
qed

lemma parse_altsettings_ok:
  "head_inv h0 tot st \<Longrightarrow> heap_wf h0 \<Longrightarrow> (\<And>n. \<not> hp_refail h0 n) \<Longrightarrow>
    \<exists>e st'. parse_altsettings cpu he st = Some (e, st') \<and> st_ok h0 tot st' \<and>
      (e = None \<or> e \<in> {Some LIBUSB_ERROR_IO, Some LIBUSB_ERROR_NO_MEM})"
proof (induction cpu he st rule: parse_altsettings.induct)
  case (1 cpu he st)
  note eq = parse_altsettings.simps [of cpu he st]
  show ?case
  proof (cases "9 \<le> is_size st")
    case False
    with "1.prems"(1) eq show ?thesis by (simp add: head_inv_def)
  next
    case True
    from parse_altsetting_ok [OF "1.prems" True, of cpu he] show ?thesis
    proof (cases rule: out_okE)
      case (3 x st')
      from "1.IH" [OF True 3(1) refl refl 3(2) "1.prems"(2,3)] 3(1) True eq show ?thesis by simp
    qed (use True eq in auto)
  qed
qed

lemma parse_interface_owns:
  assumes "altsetting u = None" and sz: "0 \<le> s" "s \<le> int (length b)" and wf: "heap_wf h"
    and rf: "\<And>n. \<not> hp_refail h n"
  shows "\<exists>r u' h'. parse_interface cpu u b s he h = Some (r, u', h') \<and> owns h h' (intf_ptrs u') \<and> intf_wf u' \<and>
    (r \<in> {LIBUSB_ERROR_IO, LIBUSB_ERROR_NO_MEM} \<and> altsetting u' = None \<or>
     0 \<le> r \<and> r \<le> s \<and> (0 < r \<longleftrightarrow> 0 < num_altsetting u'))"
proof -
  let ?st = "\<lparr>is_buffer = b, is_size = s, is_parsed = 0, is_number = -1,
         is_intf = u\<lparr>num_altsetting := 0\<rparr>, is_heap = h\<rparr>"
  have "head_inv h s ?st"
    using assms(1) sz by (simp add: head_inv_def st_ok_def intf_ptrs_def intf_wf_def)
  from parse_altsettings_ok [OF this wf rf, of cpu he] obtain e st where
    r: "parse_altsettings cpu he ?st = Some (e, st)" "st_ok h s st"
      "e = None \<or> e \<in> {Some LIBUSB_ERROR_IO, Some LIBUSB_ERROR_NO_MEM}" by auto
  show ?thesis
  proof (cases e)
    case None
    with r show ?thesis by (simp add: parse_interface_def st_ok_def)
  next
    case (Some c)
    from r(2) have iwf: "intf_wf (is_intf st)" and "owns h (is_heap st) (intf_ptrs (is_intf st) @ [])"
      by (simp_all add: st_ok_def)
    from clear_interface_owns [OF this(2) wf iwf] obtain h' where
      "clear_interface (is_intf st) (is_heap st) = Some ((is_intf st)\<lparr>altsetting := None\<rparr>, h')" "owns h h' []"
      by auto
    with r Some iwf show ?thesis
      by (auto simp: parse_interface_def intf_ptrs_def intf_wf_def)
  qed
qed

subsection \<open>Configurations\<close>

text \<open>
  What the interface loop leaves in the slots that the final \<open>bNumInterfaces\<close> no longer
  covers: no block, or the one altsetting array of an interface whose parse gave nothing.
\<close>

definition cf_leak :: "cf_outcome \<Rightarrow> libusb_interface list \<Rightarrow> ptr list" where
  "cf_leak k us = (case k of CfStop i \<Rightarrow> concat (map intf_ptrs (drop i us)) | _ \<Rightarrow> [])"

definition cf_outcome_ok :: "cf_outcome \<Rightarrow> libusb_interface list \<Rightarrow> bool" where
  "cf_outcome_ok k us = (length (cf_leak k us) \<le> 1 \<and> (case k of
      CfErr r \<Rightarrow> r \<in> {LIBUSB_ERROR_IO, LIBUSB_ERROR_NO_MEM}
    | CfStop i \<Rightarrow> i < length us
    | CfAll \<Rightarrow> True))"

lemma cf_leak_next [simp]: "cf_leak (cf_next k) (u # us) = cf_leak k us"
  by (cases k) (simp_all add: cf_leak_def)

lemma cf_outcome_ok_next: "cf_outcome_ok k us \<Longrightarrow> cf_outcome_ok (cf_next k) (u # us)"
  by (cases k) (simp_all add: cf_outcome_ok_def cf_leak_def)

lemma intf_ptrs_fresh: "altsetting u = None \<Longrightarrow> intf_ptrs u = []"
  by (simp add: intf_ptrs_def)

lemma intf_ptrs_empty: "num_altsetting u = 0 \<Longrightarrow> length (intf_ptrs u) \<le> 1"
  by (auto simp: intf_ptrs_def split: option.split)

lemma config_extra_owns:
  assumes "owns h0 h (blk_ptrs (fst ex) @ qs)" and "heap_wf h0" and "0 \<le> n" "n \<le> int (length b)"
    and "fst ex = None \<longleftrightarrow> snd ex = 0"
  shows "\<exists>r ex' h'. config_extra b n ex h = Some (r, ex', h') \<and> owns h0 h' (blk_ptrs (fst ex') @ qs) \<and>
    (r = LIBUSB_ERROR_NO_MEM \<or> r = 0) \<and> (fst ex' = None \<longleftrightarrow> snd ex' = 0)"
proof (cases "n \<noteq> 0 \<and> snd ex = 0")
  case False
  with assms show ?thesis by (cases ex) (auto simp: config_extra_def)
next
  case True
  with assms(1,5) have own: "owns h0 h qs" by simp
  have mc: "c_memcpy b n = Some (take (nat n) b)" using assms(3,4) by (simp add: c_memcpy_def)
  obtain q h1 where m: "c_malloc h = (q, h1)" by fastforce
  show ?thesis
  proof (cases q)
    case None
    with m owns_trans [OF own owns_malloc_None [OF owns_wf [OF own assms(2)]]] True show ?thesis
      by (simp add: config_extra_def)
  next
    case (Some p)
    with m owns_trans [OF own owns_malloc [OF owns_wf [OF own assms(2)]]] have "owns h0 h1 (qs @ [p])" by simp
    then have "owns h0 h1 (p # qs)" by (rule iffD1 [OF owns_mset, rotated]) simp
    with Some m mc True show ?thesis by (simp add: config_extra_def)
  qed
qed

lemma parse_interfaces_owns:
  "\<lbrakk>owns h0 h (blk_ptrs (fst ex) @ qs); heap_wf h0; \<And>n. \<not> hp_refail h0 n; 0 \<le> s; s \<le> int (length b);
    fst ex = None \<longleftrightarrow> snd ex = 0; \<forall>u \<in> set us. altsetting u = None \<and> num_altsetting u = 0\<rbrakk> \<Longrightarrow>
    \<exists>k us' s' ex' h'. parse_interfaces cpu he us b s ex h = Some (k, us', s', ex', h') \<and>
      owns h0 h' (blk_ptrs (fst ex') @ qs @ concat (map intf_ptrs us')) \<and> 0 \<le> s' \<and> s' \<le> s \<and>
      length us' = length us \<and> (\<forall>u \<in> set us'. intf_wf u) \<and> cf_outcome_ok k us'"
proof (induction us arbitrary: b s ex h qs)
  case Nil
  then show ?case by (simp add: cf_outcome_ok_def cf_leak_def)
next
  case (Cons u us)
  have rest: "concat (map intf_ptrs us) = []" "\<forall>u \<in> set us. intf_wf u"
    and u: "intf_ptrs u = []" "intf_wf u" "altsetting u = None"
    using Cons.prems(7) by (auto simp: intf_ptrs_fresh intf_wf_def)
  from skip_extra_total [OF Cons.prems(5)] Cons.prems(4) obtain k n where
    sk: "skip_extra b s = Some (k, drop (nat n) b, s - n, n)" and n: "0 \<le> n" "n \<le> s" by metis
  show ?case
  proof (cases "k = SkipDone")
    case False
    have "owns h0 h (blk_ptrs (fst ex) @ qs @ concat (map intf_ptrs (u # us)))"
      using Cons.prems(1) by (simp only: list.map concat.simps rest u append_Nil2)
    with False sk n rest u show ?thesis
      by (cases k) (auto simp: cf_outcome_ok_def cf_leak_def simp del: concat_eq_Nil_conv)
  next
    case k: True
    have n': "n \<le> int (length b)" using n Cons.prems(5) by simp
    from config_extra_owns [OF Cons.prems(1,2) n(1) n' Cons.prems(6)] obtain r0 ex1 h1 where
      ce: "config_extra b n ex h = Some (r0, ex1, h1)" and own1: "owns h0 h1 (blk_ptrs (fst ex1) @ qs)"
      and r0: "r0 = LIBUSB_ERROR_NO_MEM \<or> r0 = 0" and ex1: "fst ex1 = None \<longleftrightarrow> snd ex1 = 0"
      by (elim exE conjE) (rule that)
    show ?thesis
    proof (cases "r0 = 0")
      case False
      with r0 have r0: "r0 = LIBUSB_ERROR_NO_MEM" by simp
      have "owns h0 h1 (blk_ptrs (fst ex1) @ qs @ concat (map intf_ptrs (u # us)))"
        using own1 by (simp only: list.map concat.simps rest u append_Nil2)
      with r0 k sk ce n rest u show ?thesis by (simp add: cf_outcome_ok_def cf_leak_def del: concat_eq_Nil_conv)
    next
      case r0: True
      let ?b1 = "drop (nat n) b"
      have wf1: "heap_wf h1" and rf1: "\<And>n. \<not> hp_refail h1 n"
        using own1 Cons.prems(2,3) by (simp_all add: owns_wf owns_refail)
      have s1: "0 \<le> s - n" "s - n \<le> int (length ?b1)" using n Cons.prems(5) by (simp_all add: of_nat_diff)
      from parse_interface_owns [OF u(3) s1 wf1 rf1, of cpu he] obtain r u' h2 where
        pi: "parse_interface cpu u ?b1 (s - n) he h1 = Some (r, u', h2)"
        and own2: "owns h1 h2 (intf_ptrs u')" and wfu: "intf_wf u'"
        and r: "r \<in> {LIBUSB_ERROR_IO, LIBUSB_ERROR_NO_MEM} \<and> altsetting u' = None \<or>
          0 \<le> r \<and> r \<le> s - n \<and> (0 < r \<longleftrightarrow> 0 < num_altsetting u')"
        by (elim exE conjE) (rule that)
      have own: "owns h0 h2 (blk_ptrs (fst ex1) @ qs @ intf_ptrs u')"
        using owns_trans [OF own1 own2] by simp
      show ?thesis
      proof (cases "0 < r")
        case False
        have "owns h0 h2 (blk_ptrs (fst ex1) @ qs @ concat (map intf_ptrs (u' # us)))"
          using own by (simp only: list.map concat.simps rest append_Nil2)
        moreover have "length (cf_leak (CfStop 0) (u' # us)) \<le> 1" if "r = 0"
          using that r wfu rest intf_ptrs_empty [of u']
          by (simp add: cf_leak_def intf_wf_def del: concat_eq_Nil_conv)
        ultimately show ?thesis using False r r0 k sk ce pi n rest wfu
          by (cases ex1) (auto simp: cf_outcome_ok_def cf_leak_def simp del: concat_eq_Nil_conv)
      next
        case True
        with r have r: "0 < r" "r \<le> s - n" by auto
        have "0 \<le> s - n - r" "s - n - r \<le> int (length (drop (nat r) ?b1))"
          using r n Cons.prems(5) by (simp_all add: of_nat_diff)
        moreover have "\<forall>u \<in> set us. altsetting u = None \<and> num_altsetting u = 0" using Cons.prems(7) by simp
        ultimately obtain k' us' s' ex' h' where
          rec: "parse_interfaces cpu he us (drop (nat r) ?b1) (s - n - r) ex1 h2 = Some (k', us', s', ex', h')"
            "owns h0 h' (blk_ptrs (fst ex') @ (qs @ intf_ptrs u') @ concat (map intf_ptrs us'))"
            "0 \<le> s'" "s' \<le> s - n - r" "length us' = length us" "\<forall>u \<in> set us'. intf_wf u" "cf_outcome_ok k' us'"
          using Cons.IH [OF own Cons.prems(2,3) _ _ ex1] by blast
        have "parse_interfaces cpu he (u # us) b s ex h = Some (cf_next k', u' # us', s', ex', h')"
          using k sk ce r0 pi r rec(1) by simp
        moreover have "owns h0 h' (blk_ptrs (fst ex') @ qs @ concat (map intf_ptrs (u' # us')))"
          using rec(2) by simp
        moreover have "s' \<le> s" "length (u' # us') = length (u # us)" "\<forall>u \<in> set (u' # us'). intf_wf u"
          using rec(4-6) r n wfu by simp_all
        ultimately show ?thesis using rec(3) cf_outcome_ok_next [OF rec(7)] by blast
      qed
    qed
  qed
qed

lemma concat_take_drop:
  "concat (map f xs) = concat (map f (take i xs)) @ concat (map f (drop i xs))"
  by (metis append_take_drop_id concat_append map_append)

text \<open>The end of \<open>parse_configuration\<close>, by the outcome of its loop.\<close>

definition config_end :: "cf_outcome \<Rightarrow> int \<Rightarrow> libusb_config_descriptor \<Rightarrow> heap \<Rightarrow>
    (int \<times> libusb_config_descriptor \<times> heap) option" where
  "config_end k s c h = (case k of
       CfErr r \<Rightarrow> do { h1 \<leftarrow> clear_configuration c h; Some (r, c, h1) }
     | CfStop i \<Rightarrow> Some (s, c\<lparr>cf_bNumInterfaces := u8_of i\<rparr>, h)
     | CfAll \<Rightarrow> Some (s, c, h))"

definition config_result :: "heap \<Rightarrow> int \<Rightarrow> u8 \<Rightarrow> (int \<times> libusb_config_descriptor \<times> heap) option \<Rightarrow> bool" where
  "config_result h s n res = (case res of
     None \<Rightarrow> False
   | Some (r, c, h') \<Rightarrow> r \<in> {LIBUSB_ERROR_IO, LIBUSB_ERROR_NO_MEM} \<and> owns h h' [] \<or>
       0 \<le> r \<and> r \<le> s \<and> cf_wf c \<and>
       (\<exists>lk. owns h h' (cf_ptrs c @ lk) \<and> length lk \<le> 1 \<and> (cf_bNumInterfaces c = n \<longrightarrow> lk = [])))"

lemma config_end_owns:
  assumes own: "owns h h2 (blk_ptrs (cf_extra c) @ [p] @ concat (map intf_ptrs us))" and wf: "heap_wf h"
    and c: "cf_interface c = Some (p, us)" "unat (cf_bNumInterfaces c) = length us" "length us \<le> 32"
    and us: "\<forall>u \<in> set us. intf_wf u" "cf_outcome_ok k us" and s: "0 \<le> s'" "s' \<le> s"
  shows "config_result h s (cf_bNumInterfaces c) (config_end k s' c h2)"
proof (cases k)
  case (CfErr r)
  have "owns h h2 (cf_ptrs c @ [])"
    using own by (rule iffD1 [OF owns_mset, rotated]) (simp add: c cf_ptrs_def)
  moreover have "cf_wf c" using us c by (simp add: cf_wf_def)
  ultimately show ?thesis using clear_configuration_owns [OF _ wf] us(2) CfErr
    by (fastforce simp: config_result_def config_end_def cf_outcome_ok_def)
next
  case (CfStop i)
  let ?c2 = "c\<lparr>cf_bNumInterfaces := u8_of i\<rparr>"
  from CfStop us(2) c(3) have i: "i < length us" "i < 256" "length (cf_leak k us) \<le> 1"
    by (simp_all add: cf_outcome_ok_def)
  have "owns h h2 (cf_ptrs ?c2 @ cf_leak k us)"
    using own by (rule iffD1 [OF owns_mset, rotated])
      (use i c CfStop concat_take_drop [of intf_ptrs us i] in \<open>simp add: cf_ptrs_def cf_leak_def\<close>)
  moreover have "cf_wf ?c2" using us c i by (auto simp: cf_wf_def dest: in_set_takeD)
  moreover have "u8_of i \<noteq> cf_bNumInterfaces c" using i c(2) unat_u8_of [of i] by (metis less_irrefl)
  ultimately show ?thesis using CfStop s i(3) by (auto simp: config_result_def config_end_def)
next
  case CfAll
  have "owns h h2 (cf_ptrs c @ [])"
    using own by (rule iffD1 [OF owns_mset, rotated]) (simp add: c cf_ptrs_def)
  with CfAll us c s show ?thesis
    by (auto simp: config_result_def config_end_def cf_wf_def intro!: exI [of _ "[]"])
qed

text \<open>
  \<open>parse_configuration\<close> as a contract: on an error nothing is left allocated; otherwise the
  structure is well formed and owns what was allocated, but for at most one block, and that
  only when \<open>bNumInterfaces\<close> was reduced.
\<close>

lemma parse_configuration_owns:
  assumes sz: "s \<le> int (length b)" and wf: "heap_wf h" and rf: "\<And>n. \<not> hp_refail h n"
  shows "config_result h s (b ! 4) (parse_configuration cpu b s he h)"
proof (cases "9 \<le> s")
  case False
  then show ?thesis by (simp add: parse_configuration_def config_result_def)
next
  case True
  then have "9 \<le> length b" using sz by simp
  then obtain fs n where fs: "usbi_parse_descriptor cpu b ''bbwbbbbb'' he = Some (fs, n)"
    and b4: "st8 fs 4 0 = b ! 4"
    by (auto simp: usbi_parse_descriptor_def numeral_eq_Suc Suc_le_length_iff st8_def align2_def)
  let ?c = "cf_store fs" and ?n = "unat (cf_bNumInterfaces (cf_store fs))"
  show ?thesis
  proof (cases "cf_bDescriptorType ?c = LIBUSB_DT_CONFIG \<and> 9 \<le> int_of (cf_bLength ?c) \<and>
      int_of (cf_bLength ?c) \<le> s \<and> int_of (cf_bNumInterfaces ?c) \<le> 32")
    case False
    with True fs show ?thesis by (auto simp: parse_configuration_def config_result_def Let_def not_less not_le)
  next
    case ok: True
    obtain q h1 where m: "c_malloc h = (q, h1)" by fastforce
    show ?thesis
    proof (cases q)
      case None
      with owns_malloc_None [OF wf] m ok True fs show ?thesis
        by (simp add: parse_configuration_def config_result_def Let_def)
    next
      case (Some p)
      let ?b1 = "drop (unat (cf_bLength ?c)) b" and ?s1 = "s - int_of (cf_bLength ?c)"
      have "owns h h1 (blk_ptrs (fst (None :: u8 list blk, 0 :: int)) @ [p])"
        using owns_malloc [OF wf] m Some by simp
      from parse_interfaces_owns [OF this wf rf, of ?s1 ?b1 "replicate ?n zero_interface" cpu he]
        drop_bound [OF sz, of "cf_bLength ?c"] ok
      obtain k us s' ex h2 where
        pi: "parse_interfaces cpu he (replicate ?n zero_interface) ?b1 ?s1 (None, 0) h1 = Some (k, us, s', ex, h2)"
        and own: "owns h h2 (blk_ptrs (fst ex) @ [p] @ concat (map intf_ptrs us))"
        and s': "0 \<le> s'" "s' \<le> ?s1" and us: "length us = ?n" "\<forall>u \<in> set us. intf_wf u" "cf_outcome_ok k us"
        by (auto simp: zero_interface_def)
      define c1 where "c1 = ?c\<lparr>cf_interface := Some (p, us), cf_extra := fst ex, cf_extra_length := snd ex\<rparr>"
      have "parse_configuration cpu b s he h = config_end k s' c1 h2"
        using True fs ok m Some pi by (cases ex) (simp add: parse_configuration_def Let_def c1_def config_end_def)
      moreover have "config_result h s (cf_bNumInterfaces c1) (config_end k s' c1 h2)"
        using own wf us s' ok by (intro config_end_owns) (auto simp: c1_def unat_le_int)
      ultimately show ?thesis using b4 by (simp add: c1_def cf_store_def)
    qed
  qed
qed

subsection \<open>Properties\<close>

lemma raw_desc_to_config_owns:
  assumes "sz \<le> int (length buf)" and wf: "heap_wf h" and rf: "\<And>n. \<not> hp_refail h n"
  obtains (err) r h' where "raw_desc_to_config cpu buf sz he h = Some (r, None, h')"
      "r \<in> {LIBUSB_ERROR_IO, LIBUSB_ERROR_NO_MEM}" "owns h h' []"
  | (ok) p c h' lk where "raw_desc_to_config cpu buf sz he h = Some (0, Some (p, c), h')" "cf_wf c"
      "owns h h' (p # cf_ptrs c @ lk)" "length lk \<le> 1" "cf_bNumInterfaces c = buf ! 4 \<longrightarrow> lk = []"
proof -
  obtain q h1 where m: "c_malloc h = (q, h1)" by fastforce
  show thesis
  proof (cases q)
    case None
    with m owns_malloc_None [OF wf] show thesis by (intro err) (auto simp: raw_desc_to_config_def)
  next
    case (Some p)
    with m have own1: "owns h h1 [p]" using owns_malloc [OF wf] by simp
    have "\<not> hp_refail h1 n" for n using own1 rf by (simp add: owns_refail)
    from parse_configuration_owns [OF assms(1) owns_wf [OF own1 wf] this, of cpu he] obtain r c h2 where
      pc: "parse_configuration cpu buf sz he h1 = Some (r, c, h2)" and
      res: "r \<in> {LIBUSB_ERROR_IO, LIBUSB_ERROR_NO_MEM} \<and> owns h1 h2 [] \<or> 0 \<le> r \<and> cf_wf c \<and>
        (\<exists>lk. owns h1 h2 (cf_ptrs c @ lk) \<and> length lk \<le> 1 \<and> (cf_bNumInterfaces c = buf ! 4 \<longrightarrow> lk = []))"
      by (auto simp: config_result_def split: option.splits)
    show thesis
    proof (cases "r < 0")
      case True
      with res have "owns h h2 ([p] @ [])" using owns_trans [OF own1] by auto
      from owns_release [of h h2 "[]" p "[]"] this wf obtain h3 where
        "c_release p h2 = Some h3" "owns h h3 []" by auto
      with True res m Some pc show thesis by (intro err [of r h3]) (auto simp: raw_desc_to_config_def)
    next
      case False
      with res obtain lk where lk: "cf_wf c" "owns h1 h2 (cf_ptrs c @ lk)" "length lk \<le> 1"
        "cf_bNumInterfaces c = buf ! 4 \<longrightarrow> lk = []" by auto
      from owns_trans [OF own1 lk(2)] False m Some pc lk show thesis
        by (intro ok [of p c h2 lk]) (auto simp: raw_desc_to_config_def)
    qed
  qed
qed



lemma free_parsed_config:
  assumes own: "owns h h1 (p # cf_ptrs c @ lk)" and cwf: "cf_wf c" and wf: "heap_wf h"
  shows "\<exists>h2. libusb_free_config_descriptor (Some (p, c)) h1 = Some h2 \<and> owns h h2 lk"
proof -
  have "owns h h1 (cf_ptrs c @ p # lk)" using own by (auto intro: iffD1 [OF owns_mset, rotated])
  from clear_configuration_owns [OF this wf cwf] obtain h2 where
    h2: "clear_configuration c h1 = Some h2" "owns h h2 ([] @ p # lk)" by auto
  from owns_release [OF h2(2) wf] obtain h3 where h3: "c_release p h2 = Some h3" "owns h h3 lk" by auto
  have "c_deref p h1 = Some ()" using own by (rule owns_live) simp
  with h2 h3 show ?thesis by (auto simp: libusb_free_config_descriptor_def)
qed

text \<open>C5. \<open>libusb_free_config_descriptor\<close> gives back what parsing allocated: freeing a parsed
  configuration does not fault, leaves every older block alone, and leaves at most one new block
  behind; none at all when the parser kept the \<open>bNumInterfaces\<close> of the descriptor.\<close>

theorem free_config_descriptor_restores:
  assumes "sz \<le> int (length buf)" and "heap_wf h" and "\<And>n. \<not> hp_refail h n"
    and "raw_desc_to_config cpu buf sz he h = Some (LIBUSB_SUCCESS, Some (p, c), h1)"
  shows "\<exists>h2. libusb_free_config_descriptor (Some (p, c)) h1 = Some h2 \<and>
    hp_live h \<subseteq> hp_live h2 \<and> card (hp_live h2 - hp_live h) \<le> 1 \<and>
    (cf_bNumInterfaces c = buf ! 4 \<longrightarrow> hp_live h2 = hp_live h)"
  using assms(1-3)
proof (cases rule: raw_desc_to_config_owns [of sz buf h cpu he])
  case (err r h')
  with assms(4) show ?thesis by simp
next
  case (ok p' c' h' lk)
  with assms(4) have own: "owns h h1 (p # cf_ptrs c @ lk)" and "cf_wf c" and eq: "c' = c" by auto
  from free_parsed_config [OF this(1,2) assms(2)] obtain h2 where
    "libusb_free_config_descriptor (Some (p, c)) h1 = Some h2" "owns h h2 lk" by blast
  moreover have "card (set lk) \<le> 1" using ok(4) card_length [of lk] by linarith
  moreover have "hp_live h2 - hp_live h = set lk" using \<open>owns h h2 lk\<close> by (auto simp: owns_def)
  ultimately show ?thesis using ok(5) eq by (auto simp: owns_def)
qed

text \<open>Concrete descriptors: one interface; an endpoint where the interface should be; two
  altsettings; and an interface that announces one endpoint before a truncated descriptor.\<close>

definition cfg_plain :: "u8 list" where
  "cfg_plain = [9, 2, 18, 0, 1, 1, 0, 0x80, 50,  9, 4, 0, 0, 0, 255, 0, 0, 0]"

definition cfg_no_interface :: "u8 list" where
  "cfg_no_interface = [9, 2, 18, 0, 1, 1, 0, 0x80, 50,  9, 5, 0, 0, 0, 255, 0, 0, 0]"

definition cfg_two_alts :: "u8 list" where
  "cfg_two_alts = [9, 2, 27, 0, 1, 1, 0, 0x80, 50,  9, 4, 0, 0, 0, 255, 0, 0, 0,  9, 4, 0, 1, 0, 255, 0, 0, 0]"

definition cfg_short_extra :: "u8 list" where
  "cfg_short_extra = [9, 2, 21, 0, 1, 1, 0, 0x80, 50,  9, 4, 0, 0, 1, 255, 0, 0, 0,  5, 0x24, 0]"

lemma cfg_plain_parses:
  "\<exists>p c h1. raw_desc_to_config LittleEndian cfg_plain 18 False empty_heap = Some (0, Some (p, c), h1)"
proof -
  have "case raw_desc_to_config LittleEndian cfg_plain 18 False empty_heap of
      Some (r, Some _, _) \<Rightarrow> r = 0 | _ \<Rightarrow> False" by code_simp
  then show ?thesis by (auto split: option.splits)
qed

theorem free_config_descriptor_restores_witness:
  "\<exists>p c h1 h2. raw_desc_to_config LittleEndian cfg_plain 18 False empty_heap = Some (0, Some (p, c), h1) \<and>
    libusb_free_config_descriptor (Some (p, c)) h1 = Some h2 \<and> card (hp_live h2 - hp_live empty_heap) \<le> 1"
proof -
  obtain p c h1 where r: "raw_desc_to_config LittleEndian cfg_plain 18 False empty_heap = Some (0, Some (p, c), h1)"
    using cfg_plain_parses by blast
  have "(18 :: int) \<le> int (length cfg_plain)" "heap_wf empty_heap" "\<And>n. \<not> hp_refail empty_heap n"
    by (simp_all add: cfg_plain_def empty_heap_def heap_wf_def)
  from free_config_descriptor_restores [OF this r] r show ?thesis by blast
qed

text \<open>The block that may stay behind does exist: when the first interface does not start with an interface
  descriptor, \<open>parse_configuration\<close> sets \<open>bNumInterfaces\<close> to 0 after \<open>parse_interface\<close> has allocated
  the altsetting array, and freeing the configuration leaves that array allocated.\<close>

theorem truncated_interface_leaks:
  "\<exists>config h1 h2. raw_desc_to_config LittleEndian cfg_no_interface 18 False empty_heap =
      Some (LIBUSB_SUCCESS, config, h1) \<and>
    libusb_free_config_descriptor config h1 = Some h2 \<and> card (hp_live h2) = 1"
proof -
  have "case raw_desc_to_config LittleEndian cfg_no_interface 18 False empty_heap of
      Some (r, c, h) \<Rightarrow> r = 0 \<and> (case libusb_free_config_descriptor c h of
        Some h2 \<Rightarrow> hp_live h2 = {2} | None \<Rightarrow> False) | None \<Rightarrow> False"
    by code_simp
  then show ?thesis by (auto split: option.splits)
qed


text \<open>A truncated class descriptor after an interface descriptor makes \<open>parse_interface\<close>
  return before it allocates the endpoints: the caller gets LIBUSB_SUCCESS and an interface with
  \<open>bNumEndpoints\<close> 1 whose \<open>endpoint\<close> array is NULL.\<close>

theorem short_extra_leaves_null_endpoints:
  "case raw_desc_to_config LittleEndian cfg_short_extra 21 False empty_heap of
     Some (r, Some (p, c), h) \<Rightarrow> r = LIBUSB_SUCCESS \<and>
       (case cf_interface c of
          Some (q, [u]) \<Rightarrow>
            (case altsetting u of
               Some (a, [d]) \<Rightarrow> if_bNumEndpoints d = 1 \<and> if_endpoint d = None
             | _ \<Rightarrow> False)
        | _ \<Rightarrow> False)
   | _ \<Rightarrow> False"
  by code_simp

end
