(* ===== verification/Desc_Api.thy ===== *)
theory Desc_Api
  imports Desc_Parser
begin

text \<open>
  The descriptor functions of descriptor.c that read from a device: the device and configuration
  descriptors through the backend, the endpoint companion, the Binary Object Store (BOS) and its
  capabilities, and string descriptors.

  A backend call is a parameter: a function from the number of the call (a backend may answer
  two equal requests differently) and the requested length to the result, the bytes it stored
  and whether they are in host order. The contract \<open>reader_ok\<close> is the one libusbi.h documents: a
  result that is no error is the number of bytes stored, at most the length asked for.
  A control transfer is a parameter of the same form. Reading a byte of a local array that was
  never stored is a fault.
\<close>

subsection \<open>Backend and transfer parameters\<close>

type_synonym reader = "nat \<Rightarrow> nat \<Rightarrow> int \<times> u8 list \<times> bool"
type_synonym control = "nat \<Rightarrow> u8 \<Rightarrow> u8 \<Rightarrow> u16 \<Rightarrow> u16 \<Rightarrow> u16 \<Rightarrow> int \<times> u8 list"

definition reader_ok :: "reader \<Rightarrow> bool" where
  "reader_ok be \<longleftrightarrow> (\<forall>i len. case be i len of (r, bs, he) \<Rightarrow> 0 \<le> r \<longrightarrow> int (length bs) = r \<and> length bs \<le> len)"

definition control_ok :: "control \<Rightarrow> bool" where
  "control_ok ctl \<longleftrightarrow> (\<forall>i t q v x len. case ctl i t q v x len of (r, bs) \<Rightarrow>
      0 \<le> r \<longrightarrow> int (length bs) = r \<and> length bs \<le> unat len)"

abbreviation LIBUSB_ENDPOINT_IN :: u8 where "LIBUSB_ENDPOINT_IN \<equiv> 0x80"
abbreviation LIBUSB_REQUEST_GET_DESCRIPTOR :: u8 where "LIBUSB_REQUEST_GET_DESCRIPTOR \<equiv> 6"

definition libusb_get_descriptor :: "control \<Rightarrow> nat \<Rightarrow> u8 \<Rightarrow> u8 \<Rightarrow> int \<Rightarrow> int \<times> u8 list" where
  "libusb_get_descriptor ctl i desc_type desc_index len =
     ctl i LIBUSB_ENDPOINT_IN LIBUSB_REQUEST_GET_DESCRIPTOR (join16 desc_type desc_index) 0 (word_of_int len)"

definition libusb_get_string_descriptor :: "control \<Rightarrow> nat \<Rightarrow> u8 \<Rightarrow> u16 \<Rightarrow> int \<Rightarrow> int \<times> u8 list" where
  "libusb_get_string_descriptor ctl i desc_index langid len =
     ctl i LIBUSB_ENDPOINT_IN LIBUSB_REQUEST_GET_DESCRIPTOR (join16 LIBUSB_DT_STRING desc_index) langid (word_of_int len)"

subsection \<open>The device descriptor\<close>

definition libusb_cpu_to_le16 :: "endian \<Rightarrow> u16 \<Rightarrow> u16" where
  "libusb_cpu_to_le16 cpu x = (let b1 = hi8 x; b0 = lo8 x in load16 cpu True b0 b1)"

text \<open>The struct as the backend fills it: its words are read in the byte order of the CPU.\<close>

definition dd_native :: "endian \<Rightarrow> u8 list \<Rightarrow> libusb_device_descriptor" where
  "dd_native cpu b = (let w = (\<lambda>i. load16 cpu True (b ! i) (b ! (i + 1))) in
     \<lparr>dd_bLength = b ! 0, dd_bDescriptorType = b ! 1, dd_bcdUSB = w 2, dd_bDeviceClass = b ! 4,
      dd_bDeviceSubClass = b ! 5, dd_bDeviceProtocol = b ! 6, dd_bMaxPacketSize0 = b ! 7,
      dd_idVendor = w 8, dd_idProduct = w 10, dd_bcdDevice = w 12, dd_iManufacturer = b ! 14,
      dd_iProduct = b ! 15, dd_iSerialNumber = b ! 16, dd_bNumConfigurations = b ! 17\<rparr>)"

definition usbi_device_cache_descriptor ::
  "endian \<Rightarrow> int \<times> u8 list \<times> bool \<Rightarrow> (int \<times> libusb_device_descriptor option) option" where
  "usbi_device_cache_descriptor cpu answer = (case answer of (r, bs, host_endian) \<Rightarrow>
     if r < 0 then Some (r, None)
     else if length bs < 18 then None
     else
       (let d = dd_native cpu bs; le = libusb_cpu_to_le16 cpu in
        if \<not> host_endian then
          Some (LIBUSB_SUCCESS, Some (d\<lparr>dd_bcdUSB := le (dd_bcdUSB d), dd_idVendor := le (dd_idVendor d),
            dd_idProduct := le (dd_idProduct d), dd_bcdDevice := le (dd_bcdDevice d)\<rparr>))
        else Some (LIBUSB_SUCCESS, Some d)))"

definition libusb_get_device_descriptor :: "libusb_device_descriptor \<Rightarrow> int \<times> libusb_device_descriptor" where
  "libusb_get_device_descriptor cached = (0, cached)"

subsection \<open>Configuration descriptors\<close>

text \<open>
  The body that \<open>libusb_get_active_config_descriptor\<close> and \<open>libusb_get_config_descriptor\<close> share: the first
  nine bytes for the total length, then the whole, parsed and freed.
\<close>

definition fetch_config :: "endian \<Rightarrow> reader \<Rightarrow> heap \<Rightarrow> (int \<times> libusb_config_descriptor blk \<times> heap) option" where
  "fetch_config cpu be h =
     (case be 0 9 of (r, tmp, he) \<Rightarrow>
        if r < 0 then Some (r, None, h)
        else if r < LIBUSB_DT_CONFIG_SIZE then Some (LIBUSB_ERROR_IO, None, h)
        else do {
          (fs, _) \<leftarrow> usbi_parse_descriptor cpu tmp ''bbw'' he;
          (case c_malloc h of
             (None, h1) \<Rightarrow> Some (LIBUSB_ERROR_NO_MEM, None, h1)
           | (Some p, h1) \<Rightarrow>
               (case be 1 (unat (st16 fs 2 0)) of (r2, buf, he2) \<Rightarrow> do {
                  (r3, config, h2) \<leftarrow>
                    (if 0 \<le> r2 then raw_desc_to_config cpu buf r2 he2 h1 else Some (r2, None, h1));
                  h3 \<leftarrow> c_release p h2;
                  Some (r3, config, h3)
                }))
        })"

definition libusb_get_active_config_descriptor ::
  "endian \<Rightarrow> reader \<Rightarrow> heap \<Rightarrow> (int \<times> libusb_config_descriptor blk \<times> heap) option" where
  "libusb_get_active_config_descriptor cpu get_active h = fetch_config cpu get_active h"

definition libusb_get_config_descriptor ::
  "endian \<Rightarrow> (u8 \<Rightarrow> reader) \<Rightarrow> u8 \<Rightarrow> u8 \<Rightarrow> heap \<Rightarrow> (int \<times> libusb_config_descriptor blk \<times> heap) option" where
  "libusb_get_config_descriptor cpu get_config num_configurations config_index h =
     (if config_index \<ge> num_configurations then Some (LIBUSB_ERROR_NOT_FOUND, None, h)
      else fetch_config cpu (get_config config_index) h)"

text \<open>The loop over the configuration indices; the result is the return value and \<open>*idx\<close>.\<close>

primrec config_index_loop :: "(u8 \<Rightarrow> reader) \<Rightarrow> u8 \<Rightarrow> nat list \<Rightarrow> (int \<times> int) option" where
  "config_index_loop get_config v [] = Some (0, -1)"
| "config_index_loop get_config v (i # is) =
     (case get_config (u8_of i) 0 6 of (r, tmp, _) \<Rightarrow>
        if r < 0 then Some (r, -1)
        else do {
          b \<leftarrow> rd tmp 5;
          if b = v then Some (0, int i) else config_index_loop get_config v is
        })"

definition usbi_get_config_index_by_value :: "(u8 \<Rightarrow> reader) \<Rightarrow> u8 \<Rightarrow> u8 \<Rightarrow> (int \<times> int) option" where
  "usbi_get_config_index_by_value get_config num_configurations bConfigurationValue =
     config_index_loop get_config bConfigurationValue [0..<unat num_configurations]"

text \<open>
  \<open>by_value\<close> is the backend's optional operation: \<open>None\<close> for a backend without it, otherwise the
  result, the bytes its buffer holds, and their byte order.
\<close>

definition libusb_get_config_descriptor_by_value ::
  "endian \<Rightarrow> (u8 \<Rightarrow> int \<times> u8 list \<times> bool) option \<Rightarrow> (u8 \<Rightarrow> reader) \<Rightarrow> u8 \<Rightarrow> u8 \<Rightarrow> heap \<Rightarrow>
    (int \<times> libusb_config_descriptor blk \<times> heap) option" where
  "libusb_get_config_descriptor_by_value cpu by_value get_config num_configurations v h =
     (case by_value of
        Some op \<Rightarrow>
          (case op v of (r, buf, he) \<Rightarrow>
             if r < 0 then Some (r, None, h) else raw_desc_to_config cpu buf r he h)
      | None \<Rightarrow> do {
          (r, idx) \<leftarrow> usbi_get_config_index_by_value get_config num_configurations v;
          if r < 0 then Some (r, None, h)
          else if idx = -1 then Some (LIBUSB_ERROR_NOT_FOUND, None, h)
          else libusb_get_config_descriptor cpu get_config num_configurations (word_of_int idx) h
        })"

subsection \<open>The SuperSpeed endpoint companion\<close>

record libusb_ss_endpoint_companion_descriptor =
  ss_bLength :: u8
  ss_bDescriptorType :: u8
  ss_bMaxBurst :: u8
  ss_bmAttributes :: u8
  ss_wBytesPerInterval :: u16

definition ss_store :: "stores \<Rightarrow> libusb_ss_endpoint_companion_descriptor" where
  "ss_store fs = \<lparr>ss_bLength = st8 fs 0 0, ss_bDescriptorType = st8 fs 1 0, ss_bMaxBurst = st8 fs 2 0,
     ss_bmAttributes = st8 fs 3 0, ss_wBytesPerInterval = st16 fs 4 0\<rparr>"

function ss_companion_loop :: "u8 list \<Rightarrow> int \<Rightarrow> heap \<Rightarrow>
    (int \<times> libusb_ss_endpoint_companion_descriptor blk \<times> heap) option" where
  "ss_companion_loop buffer sz h =
     (if DESC_HEADER_LENGTH \<le> sz then
        (case parse_header buffer of
           None \<Rightarrow> None
         | Some (bLength, bDescriptorType) \<Rightarrow>
             if int_of bLength < 2 \<or> int_of bLength > sz then Some (LIBUSB_ERROR_IO, None, h)
             else if bDescriptorType \<noteq> LIBUSB_DT_SS_ENDPOINT_COMPANION then
               ss_companion_loop (drop (unat bLength) buffer) (sz - int_of bLength) h
             else if int_of bLength < LIBUSB_DT_SS_ENDPOINT_COMPANION_SIZE then Some (LIBUSB_ERROR_IO, None, h)
             else
               (case c_malloc h of
                  (None, h1) \<Rightarrow> Some (LIBUSB_ERROR_NO_MEM, None, h1)
                | (Some p, h1) \<Rightarrow>
                    (case usbi_parse_descriptor LittleEndian buffer ''bbbbw'' False of
                       None \<Rightarrow> None
                     | Some (fs, _) \<Rightarrow> Some (LIBUSB_SUCCESS, Some (p, ss_store fs), h1))))
      else Some (LIBUSB_ERROR_NOT_FOUND, None, h))"
  by pat_completeness auto
termination
  by (relation "measure (\<lambda>(_, s, _). nat s)") auto

declare ss_companion_loop.simps [simp del]

definition libusb_get_ss_endpoint_companion_descriptor :: "libusb_endpoint_descriptor \<Rightarrow> heap \<Rightarrow>
    (int \<times> libusb_ss_endpoint_companion_descriptor blk \<times> heap) option" where
  "libusb_get_ss_endpoint_companion_descriptor endpoint h =
     ss_companion_loop (case ep_extra endpoint of None \<Rightarrow> [] | Some (_, bs) \<Rightarrow> bs) (ep_extra_length endpoint) h"

definition libusb_free_ss_endpoint_companion_descriptor ::
  "libusb_ss_endpoint_companion_descriptor blk \<Rightarrow> heap \<Rightarrow> heap option" where
  "libusb_free_ss_endpoint_companion_descriptor ep_comp h = c_free (blk_ptr ep_comp) h"

subsection \<open>The Binary Object Store\<close>

text \<open>The BOS descriptor; \<open>dev_capability\<close> is the array of the flexible member, one slot per
  announced capability, NULL where nothing was stored.\<close>

record libusb_bos_descriptor =
  bos_bLength :: u8
  bos_bDescriptorType :: u8
  bos_wTotalLength :: u16
  bos_bNumDeviceCaps :: u8
  bos_dev_capability :: "u8 list blk list"

definition bos_store :: "stores \<Rightarrow> libusb_bos_descriptor" where
  "bos_store fs = \<lparr>bos_bLength = st8 fs 0 0, bos_bDescriptorType = st8 fs 1 0, bos_wTotalLength = st16 fs 2 0,
     bos_bNumDeviceCaps = st8 fs 4 0, bos_dev_capability = replicate (unat (st8 fs 4 0)) None\<rparr>"

primrec free_caps :: "ptr \<Rightarrow> u8 list blk list \<Rightarrow> heap \<Rightarrow> heap option" where
  "free_caps p [] h = Some h"
| "free_caps p (c # cs) h = do {
     _ \<leftarrow> c_deref p h;
     h1 \<leftarrow> c_free (blk_ptr c) h;
     free_caps p cs h1
   }"

definition libusb_free_bos_descriptor :: "libusb_bos_descriptor blk \<Rightarrow> heap \<Rightarrow> heap option" where
  "libusb_free_bos_descriptor bos h =
     (case bos of
        None \<Rightarrow> Some h
      | Some (p, b) \<Rightarrow>
          if unat (bos_bNumDeviceCaps b) \<le> length (bos_dev_capability b) then do {
            h1 \<leftarrow> free_caps p (take (unat (bos_bNumDeviceCaps b)) (bos_dev_capability b)) h;
            c_release p h1
          }
          else None)"

datatype bos_outcome = BosErr int | BosStop nat | BosAll

fun bos_next :: "bos_outcome \<Rightarrow> bos_outcome" where
  "bos_next (BosStop i) = BosStop (Suc i)"
| "bos_next k = k"

text \<open>The loop over the capability slots: an error, a \<open>break\<close> at the i-th slot, or all of them.\<close>

fun parse_caps :: "u8 list blk list \<Rightarrow> u8 list \<Rightarrow> int \<Rightarrow> heap \<Rightarrow> (bos_outcome \<times> u8 list blk list \<times> heap) option" where
  "parse_caps [] buffer sz h = Some (BosAll, [], h)"
| "parse_caps (c # cs) buffer sz h =
     (if sz < LIBUSB_DT_DEVICE_CAPABILITY_SIZE then Some (BosStop 0, c # cs, h)
      else do {
        (fs, _) \<leftarrow> usbi_parse_descriptor LittleEndian buffer ''bbb'' False;
        let bLength = st8 fs 0 0;
        let bDescriptorType = st8 fs 1 0;
        if bDescriptorType \<noteq> LIBUSB_DT_DEVICE_CAPABILITY then Some (BosStop 0, c # cs, h)
        else if int_of bLength < LIBUSB_DT_DEVICE_CAPABILITY_SIZE then Some (BosErr LIBUSB_ERROR_IO, c # cs, h)
        else if int_of bLength > sz then Some (BosStop 0, c # cs, h)
        else
          (case c_malloc h of
             (None, h1) \<Rightarrow> Some (BosErr LIBUSB_ERROR_NO_MEM, None # cs, h1)
           | (Some q, h1) \<Rightarrow> do {
               bs \<leftarrow> c_memcpy buffer (int_of bLength);
               (k, cs', h2) \<leftarrow> parse_caps cs (drop (unat bLength) buffer) (sz - int_of bLength) h1;
               Some (bos_next k, Some (q, bs) # cs', h2)
             })
      })"

definition parse_bos :: "endian \<Rightarrow> u8 list \<Rightarrow> int \<Rightarrow> bool \<Rightarrow> heap \<Rightarrow>
    (int \<times> libusb_bos_descriptor blk \<times> heap) option" where
  "parse_bos cpu buffer sz host_endian h =
     (if sz < LIBUSB_DT_BOS_SIZE then Some (LIBUSB_ERROR_IO, None, h)
      else do {
        (fs, _) \<leftarrow> usbi_parse_descriptor cpu buffer ''bbwb'' host_endian;
        let bos = bos_store fs;
        if bos_bDescriptorType bos \<noteq> LIBUSB_DT_BOS then Some (LIBUSB_ERROR_IO, None, h)
        else if int_of (bos_bLength bos) < LIBUSB_DT_BOS_SIZE then Some (LIBUSB_ERROR_IO, None, h)
        else if int_of (bos_bLength bos) > sz then Some (LIBUSB_ERROR_IO, None, h)
        else
          (case c_malloc h of
             (None, h1) \<Rightarrow> Some (LIBUSB_ERROR_NO_MEM, None, h1)
           | (Some p, h1) \<Rightarrow> do {
               (k, caps, h2) \<leftarrow> parse_caps (bos_dev_capability bos)
                  (drop (unat (bos_bLength bos)) buffer) (sz - int_of (bos_bLength bos)) h1;
               let bos1 = bos\<lparr>bos_dev_capability := caps\<rparr>;
               (case k of
                  BosErr r \<Rightarrow> do { h3 \<leftarrow> libusb_free_bos_descriptor (Some (p, bos1)) h2; Some (r, None, h3) }
                | BosStop i \<Rightarrow> Some (LIBUSB_SUCCESS, Some (p, bos1\<lparr>bos_bNumDeviceCaps := u8_of i\<rparr>), h2)
                | BosAll \<Rightarrow> Some (LIBUSB_SUCCESS, Some (p, bos1), h2))
             })
      })"

text \<open>A zeroed array of \<open>n\<close> bytes over whose start \<open>bs\<close> was stored.\<close>

definition zero_filled :: "nat \<Rightarrow> u8 list \<Rightarrow> u8 list" where
  "zero_filled n bs = bs @ replicate (n - length bs) 0"

definition libusb_get_bos_descriptor :: "control \<Rightarrow> heap \<Rightarrow> (int \<times> libusb_bos_descriptor blk \<times> heap) option" where
  "libusb_get_bos_descriptor ctl h =
     (case libusb_get_descriptor ctl 0 LIBUSB_DT_BOS 0 LIBUSB_DT_BOS_SIZE of (r, bs) \<Rightarrow>
        if r < 0 then Some (r, None, h)
        else if r < LIBUSB_DT_BOS_SIZE then Some (LIBUSB_ERROR_IO, None, h)
        else do {
          (fs, _) \<leftarrow> usbi_parse_descriptor LittleEndian (zero_filled 5 bs) ''bbwb'' False;
          let wTotalLength = st16 fs 2 0;
          (case c_malloc h of
             (None, h1) \<Rightarrow> Some (LIBUSB_ERROR_NO_MEM, None, h1)
           | (Some p, h1) \<Rightarrow>
               (case libusb_get_descriptor ctl 1 LIBUSB_DT_BOS 0 (int (unat wTotalLength)) of (r2, bs2) \<Rightarrow> do {
                  (r3, bos, h2) \<leftarrow>
                    (if 0 \<le> r2 then parse_bos LittleEndian (zero_filled (unat wTotalLength) bs2) r2 False h1
                     else Some (r2, None, h1));
                  h3 \<leftarrow> c_release p h2;
                  Some (r3, bos, h3)
                }))
        })"

subsection \<open>Device capabilities\<close>

text \<open>The check and copy shared by the three \<open>libusb_get_..._descriptor\<close> functions for a device
  capability, whose block holds \<open>dev_cap\<close>.\<close>

definition get_dev_cap :: "u8 \<Rightarrow> int \<Rightarrow> string \<Rightarrow> u8 list \<Rightarrow> heap \<Rightarrow> (int \<times> stores blk \<times> heap) option" where
  "get_dev_cap cap_type min_size fmt dev_cap h = do {
     t \<leftarrow> rd dev_cap 2;
     if t \<noteq> cap_type then Some (LIBUSB_ERROR_INVALID_PARAM, None, h)
     else do {
       l \<leftarrow> rd dev_cap 0;
       if int_of l < min_size then Some (LIBUSB_ERROR_IO, None, h)
       else
         (case c_malloc h of
            (None, h1) \<Rightarrow> Some (LIBUSB_ERROR_NO_MEM, None, h1)
          | (Some p, h1) \<Rightarrow> do {
              (fs, _) \<leftarrow> usbi_parse_descriptor LittleEndian dev_cap fmt False;
              Some (LIBUSB_SUCCESS, Some (p, fs), h1)
            })
     }
   }"

record libusb_usb_2_0_extension_descriptor =
  ux_bLength :: u8
  ux_bDescriptorType :: u8
  ux_bDevCapabilityType :: u8
  ux_bmAttributes :: u32

record libusb_ss_usb_device_capability_descriptor =
  sc_bLength :: u8
  sc_bDescriptorType :: u8
  sc_bDevCapabilityType :: u8
  sc_bmAttributes :: u8
  sc_wSpeedSupported :: u16
  sc_bFunctionalitySupport :: u8
  sc_bU1DevExitLat :: u8
  sc_bU2DevExitLat :: u16

record libusb_container_id_descriptor =
  ci_bLength :: u8
  ci_bDescriptorType :: u8
  ci_bDevCapabilityType :: u8
  ci_bReserved :: u8
  ci_ContainerID :: "u8 list"

definition st_uuid :: "stores \<Rightarrow> nat \<Rightarrow> u8 list" where
  "st_uuid fs off = (case map_of fs off of Some (FU u) \<Rightarrow> u | _ \<Rightarrow> [])"

definition with_stores :: "(stores \<Rightarrow> 'a) \<Rightarrow> (int \<times> stores blk \<times> heap) option \<Rightarrow> (int \<times> 'a blk \<times> heap) option" where
  "with_stores f = map_option (\<lambda>(r, b, h). (r, map_option (\<lambda>(p, fs). (p, f fs)) b, h))"

definition libusb_get_usb_2_0_extension_descriptor :: "u8 list \<Rightarrow> heap \<Rightarrow>
    (int \<times> libusb_usb_2_0_extension_descriptor blk \<times> heap) option" where
  "libusb_get_usb_2_0_extension_descriptor dev_cap h =
     with_stores (\<lambda>fs. \<lparr>ux_bLength = st8 fs 0 0, ux_bDescriptorType = st8 fs 1 0,
         ux_bDevCapabilityType = st8 fs 2 0, ux_bmAttributes = st32 fs 4 0\<rparr>)
       (get_dev_cap LIBUSB_BT_USB_2_0_EXTENSION LIBUSB_BT_USB_2_0_EXTENSION_SIZE ''bbbd'' dev_cap h)"

definition libusb_get_ss_usb_device_capability_descriptor :: "u8 list \<Rightarrow> heap \<Rightarrow>
    (int \<times> libusb_ss_usb_device_capability_descriptor blk \<times> heap) option" where
  "libusb_get_ss_usb_device_capability_descriptor dev_cap h =
     with_stores (\<lambda>fs. \<lparr>sc_bLength = st8 fs 0 0, sc_bDescriptorType = st8 fs 1 0,
         sc_bDevCapabilityType = st8 fs 2 0, sc_bmAttributes = st8 fs 3 0, sc_wSpeedSupported = st16 fs 4 0,
         sc_bFunctionalitySupport = st8 fs 6 0, sc_bU1DevExitLat = st8 fs 7 0, sc_bU2DevExitLat = st16 fs 8 0\<rparr>)
       (get_dev_cap LIBUSB_BT_SS_USB_DEVICE_CAPABILITY LIBUSB_BT_SS_USB_DEVICE_CAPABILITY_SIZE
          ''bbbbwbbw'' dev_cap h)"

definition libusb_get_container_id_descriptor :: "u8 list \<Rightarrow> heap \<Rightarrow>
    (int \<times> libusb_container_id_descriptor blk \<times> heap) option" where
  "libusb_get_container_id_descriptor dev_cap h =
     with_stores (\<lambda>fs. \<lparr>ci_bLength = st8 fs 0 0, ci_bDescriptorType = st8 fs 1 0,
         ci_bDevCapabilityType = st8 fs 2 0, ci_bReserved = st8 fs 3 0, ci_ContainerID = st_uuid fs 4\<rparr>)
       (get_dev_cap LIBUSB_BT_CONTAINER_ID LIBUSB_BT_CONTAINER_ID_SIZE ''bbbbu'' dev_cap h)"

subsection \<open>String descriptors\<close>

text \<open>\<open>tbuf\<close> after a transfer stored \<open>bs\<close> over its start; bytes past the end of the array that
  holds the stored bytes were never written.\<close>

definition overlay :: "u8 list \<Rightarrow> u8 list \<Rightarrow> u8 list" where
  "overlay bs old = bs @ drop (length bs) old"

text \<open>The conversion loop from \<open>di\<close>, \<open>si\<close> on: the characters it stores.\<close>

function ascii_loop :: "u8 list \<Rightarrow> nat \<Rightarrow> int \<Rightarrow> nat \<Rightarrow> nat \<Rightarrow> u8 list option" where
  "ascii_loop tbuf n len di si =
     (if si < n \<and> int di < len - 1 then do {
        lo \<leftarrow> rd tbuf si;
        c \<leftarrow> (if lo AND 0x80 \<noteq> 0 then Some 63
              else do { hi \<leftarrow> rd tbuf (si + 1); Some (if hi \<noteq> 0 then 63 else lo) });
        cs \<leftarrow> ascii_loop tbuf n len (di + 1) (si + 2);
        Some (c # cs)
      }
      else Some [])"
  by pat_completeness auto
termination
  by (relation "measure (\<lambda>(_, n, _, _, si). n - si)") auto

declare ascii_loop.simps [simp del]

text \<open>The result and the bytes stored in \<open>data\<close>, the terminating 0 included. Storing them in an
  array of \<open>len\<close> bytes is a fault when there are more.\<close>

definition libusb_get_string_descriptor_ascii :: "control \<Rightarrow> u8 \<Rightarrow> int \<Rightarrow> (int \<times> u8 list) option" where
  "libusb_get_string_descriptor_ascii ctl desc_index len =
     (if desc_index = 0 then Some (LIBUSB_ERROR_INVALID_PARAM, [])
      else (case libusb_get_string_descriptor ctl 0 0 0 255 of (r, bs) \<Rightarrow>
        if r < 0 then Some (r, [])
        else if r < 4 then Some (LIBUSB_ERROR_IO, [])
        else do {
          b2 \<leftarrow> rd bs 2;
          b3 \<leftarrow> rd bs 3;
          (case libusb_get_string_descriptor ctl 1 desc_index (join16 b3 b2) 255 of (r2, bs2) \<Rightarrow>
            if r2 < 0 then Some (r2, [])
            else do {
              let tbuf = overlay bs2 bs;
              t \<leftarrow> rd tbuf 1;
              if t \<noteq> LIBUSB_DT_STRING then Some (LIBUSB_ERROR_IO, [])
              else do {
                n \<leftarrow> rd tbuf 0;
                if int_of n > r2 then Some (LIBUSB_ERROR_IO, [])
                else do {
                  cs \<leftarrow> ascii_loop tbuf (unat n) len 0 2;
                  if int (length cs) < len then Some (int (length cs), cs @ [0]) else None
                }
              }
            })
        }))"

end
