(* ===== verification/Desc_Api_Safety.thy ===== *)
theory Desc_Api_Safety
  imports Desc_Safety Desc_Api
begin

text \<open>
  The properties of the descriptor functions that read from a device: memory safety and exact
  ownership for every answer of a conforming backend or device, the search by configuration
  value, and the ASCII conversion of strings.
\<close>

subsection \<open>Configuration descriptors\<close>

lemma reader_okD:
  assumes "reader_ok be" and "be i len = (r, bs, he)" and "0 \<le> r"
  shows "int (length bs) = r" and "length bs \<le> len"
proof -
  have "0 \<le> r \<longrightarrow> int (length bs) = r \<and> length bs \<le> len"
    using assms(1,2) unfolding reader_ok_def by (metis (mono_tags, lifting) case_prod_conv)
  with assms(3) show "int (length bs) = r" "length bs \<le> len" by auto
qed

lemma fetch_config_owns:
  assumes be: "reader_ok be" and wf: "heap_wf h" and rf: "\<And>n. \<not> hp_refail h n"
  obtains (err) r h' where "fetch_config cpu be h = Some (r, None, h')" "r < 0" "owns h h' []"
  | (ok) p c h' lk where "fetch_config cpu be h = Some (0, Some (p, c), h')" "cf_wf c"
      "owns h h' (p # cf_ptrs c @ lk)" "length lk \<le> 1"
proof -
  obtain r tmp he where b0: "be 0 9 = (r, tmp, he)" using prod_cases3 by blast
  show thesis
  proof (cases "9 \<le> r")
    case False
    with b0 show thesis
      by (cases "r < 0") (auto intro: err simp: fetch_config_def)
  next
    case True
    with reader_okD [OF be b0] have "fmt_len ''bbw'' \<le> length tmp" by simp
    from usbi_parse_descriptor_len [OF this] obtain fs n where
      fs: "usbi_parse_descriptor cpu tmp ''bbw'' he = Some (fs, n)" by blast
    obtain q h1 where m: "c_malloc h = (q, h1)" by fastforce
    show thesis
    proof (cases q)
      case None
      with True b0 fs m owns_malloc_None [OF wf] show thesis by (intro err) (auto simp: fetch_config_def)
    next
      case (Some p)
      with m have own1: "owns h h1 [p]" using owns_malloc [OF wf] by simp
      have rf1: "\<And>n. \<not> hp_refail h1 n" using own1 rf by (simp add: owns_refail)
      note wf1 = owns_wf [OF own1 wf]
      obtain r2 buf he2 where b1: "be 1 (unat (st16 fs 2 0)) = (r2, buf, he2)" using prod_cases3 by blast
      show thesis
      proof (cases "0 \<le> r2")
        case False
        from owns_release [of h h1 "[]" p "[]"] own1 wf obtain h3 where
          "c_release p h1 = Some h3" "owns h h3 []" by auto
        with False True b0 fs m Some b1 show thesis by (intro err [of r2 h3]) (auto simp: fetch_config_def)
      next
        case r2: True
        then have "r2 \<le> int (length buf)" using reader_okD [OF be b1] by simp
        then show thesis using wf1 rf1
        proof (cases rule: raw_desc_to_config_owns [of r2 buf h1 cpu he2])
          case (err r3 h2)
          from owns_trans [OF own1 err(3)] owns_release [of h h2 "[]" p "[]"] wf obtain h3 where
            "c_release p h2 = Some h3" "owns h h3 []" by auto
          with err r2 True b0 fs m Some b1 show thesis by (intro that(1) [of r3 h3]) (auto simp: fetch_config_def)
        next
          case (ok q c h2 lk)
          from owns_trans [OF own1 ok(3)] owns_release [of h h2 "[]" p "q # cf_ptrs c @ lk"] wf obtain h3 where
            "c_release p h2 = Some h3" "owns h h3 (q # cf_ptrs c @ lk)" by auto
          with ok r2 True b0 fs m Some b1 show thesis
            by (intro that(2) [of q c h3 lk]) (auto simp: fetch_config_def)
        qed
      qed
    qed
  qed
qed


text \<open>A backend for the witnesses: a device with one configuration.\<close>

definition plain_reader :: "u8 \<Rightarrow> reader" where
  "plain_reader idx i len = (let bs = take len cfg_plain in (int (length bs), bs, False))"


subsection \<open>Search by configuration value\<close>

text \<open>What the device answers for the sixth byte of its i-th configuration.\<close>

definition config_value :: "(u8 \<Rightarrow> reader) \<Rightarrow> nat \<Rightarrow> u8" where
  "config_value get_config i = fst (snd (get_config (u8_of i) 0 6)) ! 5"

definition config_readable :: "(u8 \<Rightarrow> reader) \<Rightarrow> nat \<Rightarrow> bool" where
  "config_readable get_config i \<longleftrightarrow> 0 \<le> fst (get_config (u8_of i) 0 6) \<and> length (fst (snd (get_config (u8_of i) 0 6))) = 6"

lemma config_index_loop_find:
  assumes "\<forall>i \<in> set is. config_readable g i"
  shows "config_index_loop g v is = Some (0, case find (\<lambda>i. config_value g i = v) is of None \<Rightarrow> -1 | Some i \<Rightarrow> int i)"
  using assms
  by (induction "is") (auto simp: config_readable_def config_value_def split: prod.splits)

text \<open>\<open>usbi_get_config_index_by_value\<close> returns the least index whose configuration has the wanted
  \<open>bConfigurationValue\<close>, and -1 exactly when no configuration has it, for a device that answers
  each of the six-byte reads in full.\<close>

theorem config_index_by_value_correct:
  assumes "\<forall>i < unat n. config_readable g i"
  shows "\<exists>idx. usbi_get_config_index_by_value g n v = Some (0, idx) \<and>
    (if \<exists>i < unat n. config_value g i = v
     then idx = int (LEAST i. i < unat n \<and> config_value g i = v)
     else idx = -1)"
proof -
  have eq: "usbi_get_config_index_by_value g n v =
      Some (0, case find (\<lambda>i. config_value g i = v) [0..<unat n] of None \<Rightarrow> -1 | Some i \<Rightarrow> int i)"
    unfolding usbi_get_config_index_by_value_def using assms by (intro config_index_loop_find) auto
  show ?thesis
  proof (cases "find (\<lambda>i. config_value g i = v) [0..<unat n]")
    case None
    then have "\<not> (\<exists>i < unat n. config_value g i = v)" by (simp add: find_None_iff)
    with None eq show ?thesis by simp
  next
    case (Some i)
    then have i: "i < unat n" "config_value g i = v" "\<forall>j < i. config_value g j \<noteq> v"
      by (auto simp: find_Some_iff)
    have "(LEAST i. i < unat n \<and> config_value g i = v) = i"
      using i by (intro Least_equality) (auto simp: not_less [symmetric])
    with eq Some i show ?thesis by auto
  qed
qed

theorem config_index_by_value_correct_witness:
  "\<exists>idx. usbi_get_config_index_by_value plain_reader 1 1 = Some (0, idx) \<and>
    (if \<exists>i < unat (1 :: u8). config_value plain_reader i = 1
     then idx = int (LEAST i. i < unat (1 :: u8) \<and> config_value plain_reader i = 1)
     else idx = -1)"
  by (rule config_index_by_value_correct)
    (simp add: config_readable_def plain_reader_def Let_def cfg_plain_def)

text \<open>A device that answers the six-byte read with fewer bytes makes the loop compare a byte
  of the local array that nothing has stored: the result is not checked against 6.\<close>

theorem config_index_short_read_faults:
  "usbi_get_config_index_by_value (\<lambda>idx i len. (4, [9, 2, 18, 0], False)) 1 1 = None"
  by (simp add: usbi_get_config_index_by_value_def rd_def)

subsection \<open>The endpoint companion\<close>

definition ep_extra_ok :: "libusb_endpoint_descriptor \<Rightarrow> bool" where
  "ep_extra_ok e \<longleftrightarrow> (case ep_extra e of None \<Rightarrow> ep_extra_length e = 0
     | Some (_, bs) \<Rightarrow> ep_extra_length e = int (length bs))"

lemma parse_endpoint_extra_ok:
  assumes "parse_endpoint cpu e b s he h = Some (r, e', h')" and "ep_extra e = None" and "ep_extra_length e = 0"
  shows "ep_extra_ok e'"
proof -
  have store: "ep_extra_ok (ep_store fs e)" "ep_extra (ep_store fs e) = None" "ep_extra_length (ep_store fs e) = 0" for fs
    using assms(2,3) by (simp_all add: ep_extra_ok_def ep_store_def)
  have step: "ep_extra_ok e2" if "parse_endpoint_extra beg sz k (ep_store fs e) h = Some (r2, e2, h2)" for beg sz k fs r2 e2 h2
    using that store [of fs]
    by (auto simp: parse_endpoint_extra_def ep_extra_ok_def c_memcpy_def
        split: skip.splits if_splits prod.splits option.splits elim!: bind_SomeE dest!: skip_extra_shape)
  have "ep_extra_ok e" using assms(2,3) by (simp add: ep_extra_ok_def)
  with assms(1) step show ?thesis
    by (auto simp: parse_endpoint_def split: if_splits elim!: bind_SomeE)
qed

lemma ss_companion_loop_safe:
  "s \<le> int (length b) \<Longrightarrow> heap_wf h \<Longrightarrow> \<exists>r c h'. ss_companion_loop b s h = Some (r, c, h') \<and>
     owns h h' (blk_ptrs c) \<and> (r = LIBUSB_SUCCESS \<longleftrightarrow> c \<noteq> None)"
proof (induction b s h rule: ss_companion_loop.induct)
  case (1 b s h)
  note eq = ss_companion_loop.simps [of b s h]
  show ?case
  proof (cases "2 \<le> s")
    case False
    then show ?thesis using eq by simp
  next
    case True
    with "1.prems"(1) have hdr: "parse_header b = Some (b ! 0, b ! 1)" by (simp add: parse_header_eq)
    show ?thesis
    proof (cases "int_of (b ! 0) < 2 \<or> int_of (b ! 0) > s")
      case c: True
      then show ?thesis using eq True hdr by auto
    next
      case len: False
      show ?thesis
      proof (cases "b ! 1 = LIBUSB_DT_SS_ENDPOINT_COMPANION")
        case False
        from "1.IH" [OF True hdr refl len False drop_bound [OF "1.prems"(1)] "1.prems"(2)] eq True hdr len False
        show ?thesis by simp
      next
        case ss: True
        show ?thesis
        proof (cases "int_of (b ! 0) < 6")
          case c: True
          then show ?thesis using eq True hdr len ss by auto
        next
          case False
          with len "1.prems"(1) have "fmt_len ''bbbbw'' \<le> length b" by simp
          from usbi_parse_descriptor_len [OF this] obtain fs n where
            "usbi_parse_descriptor LittleEndian b ''bbbbw'' False = Some (fs, n)" by blast
          moreover obtain q h1 where m: "c_malloc h = (q, h1)" by fastforce
          ultimately show ?thesis
            using False eq True hdr len ss owns_malloc [OF "1.prems"(2)] owns_malloc_None [OF "1.prems"(2)]
            by (cases q) auto
        qed
      qed
    qed
  qed
qed

text \<open>\<open>libusb_get_ss_endpoint_companion_descriptor\<close> is safe on every endpoint that \<open>parse_endpoint\<close>
  produced, from whatever bytes: it reads only inside the endpoint's extra bytes, returns 0
  exactly when it delivers a descriptor, and freeing that restores the heap.\<close>

theorem ss_companion_of_parsed_endpoint:
  assumes "parse_endpoint cpu zero_endpoint buf sz he h0 = Some (r0, e, h1)" and "heap_wf h"
  shows "\<exists>r c h' h''. libusb_get_ss_endpoint_companion_descriptor e h = Some (r, c, h') \<and>
    (r = LIBUSB_SUCCESS \<longleftrightarrow> c \<noteq> None) \<and>
    libusb_free_ss_endpoint_companion_descriptor c h' = Some h'' \<and> hp_live h'' = hp_live h"
proof -
  have "ep_extra_ok e"
    using parse_endpoint_extra_ok [OF assms(1)] by (simp add: zero_endpoint_def)
  then have "ep_extra_length e \<le> int (length (case ep_extra e of None \<Rightarrow> [] | Some (_, bs) \<Rightarrow> bs))"
    by (auto simp: ep_extra_ok_def split: option.splits)
  from ss_companion_loop_safe [OF this assms(2)] obtain r c h' where
    r: "libusb_get_ss_endpoint_companion_descriptor e h = Some (r, c, h')" "owns h h' (blk_ptrs c @ [])"
      "r = LIBUSB_SUCCESS \<longleftrightarrow> c \<noteq> None"
    by (auto simp: libusb_get_ss_endpoint_companion_descriptor_def)
  from owns_blk_free [OF r(2) assms(2)] r show ?thesis
    by (auto simp: libusb_free_ss_endpoint_companion_descriptor_def owns_def)
qed

definition ep_with_companion :: "u8 list" where
  "ep_with_companion = [7, 5, 0x81, 2, 0, 4, 0,  6, 0x30, 3, 0, 0, 0]"

lemma ep_with_companion_parses:
  "\<exists>e h1. parse_endpoint LittleEndian zero_endpoint ep_with_companion 13 False empty_heap = Some (13, e, h1)"
proof -
  have "case parse_endpoint LittleEndian zero_endpoint ep_with_companion 13 False empty_heap of
      Some (r, _, _) \<Rightarrow> r = 13 | None \<Rightarrow> False" by code_simp
  then show ?thesis by (auto split: option.splits)
qed

theorem ss_companion_of_parsed_endpoint_witness:
  "\<exists>e h1 r c h' h''. parse_endpoint LittleEndian zero_endpoint ep_with_companion 13 False empty_heap = Some (13, e, h1) \<and>
    libusb_get_ss_endpoint_companion_descriptor e empty_heap = Some (r, c, h') \<and>
    libusb_free_ss_endpoint_companion_descriptor c h' = Some h'' \<and> hp_live h'' = hp_live empty_heap"
proof -
  obtain e h1 where e: "parse_endpoint LittleEndian zero_endpoint ep_with_companion 13 False empty_heap = Some (13, e, h1)"
    using ep_with_companion_parses by blast
  from ss_companion_of_parsed_endpoint [OF e empty_heap_wf] e show ?thesis by blast
qed

subsection \<open>The Binary Object Store\<close>

lemma free_caps_owns:
  "owns h0 h (concat (map blk_ptrs cs) @ p # qs) \<Longrightarrow> heap_wf h0 \<Longrightarrow>
    \<exists>h'. free_caps p cs h = Some h' \<and> owns h0 h' (p # qs)"
proof (induction cs arbitrary: h)
  case Nil
  then show ?case by simp
next
  case (Cons c cs)
  from Cons.prems have "c_deref p h = Some ()" by (intro owns_live) auto
  moreover obtain h1 where "c_free (blk_ptr c) h = Some h1" "owns h0 h1 (concat (map blk_ptrs cs) @ p # qs)"
    using owns_blk_free [of h0 h c "concat (map blk_ptrs cs) @ p # qs"] Cons.prems by auto
  ultimately show ?case using Cons.IH Cons.prems(2) by auto
qed

definition bos_ptrs :: "libusb_bos_descriptor blk \<Rightarrow> ptr list" where
  "bos_ptrs b = (case b of None \<Rightarrow> [] | Some (p, d) \<Rightarrow>
     concat (map blk_ptrs (take (unat (bos_bNumDeviceCaps d)) (bos_dev_capability d))) @ [p])"

lemma free_bos_owns:
  assumes own: "owns h0 h (bos_ptrs b @ qs)" and wf: "heap_wf h0"
    and "\<And>p d. b = Some (p, d) \<Longrightarrow> unat (bos_bNumDeviceCaps d) \<le> length (bos_dev_capability d)"
  shows "\<exists>h'. libusb_free_bos_descriptor b h = Some h' \<and> owns h0 h' qs"
proof (cases b)
  case None
  with own show ?thesis by (simp add: libusb_free_bos_descriptor_def bos_ptrs_def)
next
  case (Some a)
  then obtain p d where b: "b = Some (p, d)" by (cases a) auto
  let ?cs = "take (unat (bos_bNumDeviceCaps d)) (bos_dev_capability d)"
  from own b have "owns h0 h (concat (map blk_ptrs ?cs) @ p # qs)" by (simp add: bos_ptrs_def)
  from free_caps_owns [OF this wf] obtain h1 where h1: "free_caps p ?cs h = Some h1" "owns h0 h1 (p # qs)" by auto
  from owns_release [of h0 h1 "[]" p qs] h1(2) wf h1(1) b assms(3) show ?thesis
    by (auto simp: libusb_free_bos_descriptor_def)
qed

definition bos_outcome_ok :: "bos_outcome \<Rightarrow> u8 list blk list \<Rightarrow> bool" where
  "bos_outcome_ok k cs = (case k of
      BosErr r \<Rightarrow> r \<in> {LIBUSB_ERROR_IO, LIBUSB_ERROR_NO_MEM}
    | BosStop i \<Rightarrow> i < length cs \<and> (\<forall>c \<in> set (drop i cs). c = None)
    | BosAll \<Rightarrow> True)"

lemma bos_outcome_ok_next: "bos_outcome_ok k cs \<Longrightarrow> bos_outcome_ok (bos_next k) (c # cs)"
  by (cases k) (auto simp: bos_outcome_ok_def)

text \<open>A stored capability holds exactly the bytes its length byte announces.\<close>

definition cap_ok :: "u8 list blk \<Rightarrow> bool" where
  "cap_ok c = (case c of None \<Rightarrow> True | Some (_, bs) \<Rightarrow> 3 \<le> length bs \<and> length bs = unat (bs ! 0))"

lemma parse_caps_owns:
  "s \<le> int (length b) \<Longrightarrow> heap_wf h \<Longrightarrow> \<forall>c \<in> set cs. c = None \<Longrightarrow>
    \<exists>k cs' h'. parse_caps cs b s h = Some (k, cs', h') \<and> owns h h' (concat (map blk_ptrs cs')) \<and>
      length cs' = length cs \<and> bos_outcome_ok k cs' \<and> (\<forall>c \<in> set cs'. cap_ok c)"
proof (induction cs arbitrary: b s h)
  case Nil
  then show ?case by (simp add: bos_outcome_ok_def)
next
  case (Cons c cs)
  have nil: "concat (map blk_ptrs cs) = []" using Cons.prems(3) by auto
  have rest: "owns h h' (concat (map blk_ptrs (None # cs)))" if "owns h h' []" for h'
    using that by (simp only: list.map concat.simps nil blk_ptrs_simps append_Nil)
  have caps: "\<forall>c \<in> set (c # cs). cap_ok c" "c = None" using Cons.prems(3) by (auto simp: cap_ok_def)
  show ?case
  proof (cases "3 \<le> s")
    case False
    with rest [OF owns_refl] caps Cons.prems(3) show ?thesis by (auto simp: bos_outcome_ok_def)
  next
    case s: True
    then obtain l t x b' where b: "b = l # t # x # b'"
      using Cons.prems(1) by (auto simp: numeral_eq_Suc Suc_le_length_iff dest!: order_trans [OF s])
    then have ps: "usbi_parse_descriptor LittleEndian b ''bbb'' False = Some ([(0, FB l), (1, FB t), (2, FB x)], 3)"
      by (simp add: usbi_parse_descriptor_def)
    show ?thesis
    proof (cases "t = LIBUSB_DT_DEVICE_CAPABILITY \<and> 3 \<le> int_of l \<and> int_of l \<le> s")
      case False
      with s ps rest [OF owns_refl] caps Cons.prems(3) show ?thesis
        by (auto simp: bos_outcome_ok_def st8_def not_le)
    next
      case ok: True
      obtain q h1 where m: "c_malloc h = (q, h1)" by fastforce
      show ?thesis
      proof (cases q)
        case None
        with s ps ok m rest [OF owns_malloc_None [OF Cons.prems(2)]] caps Cons.prems(3) show ?thesis
          by (auto simp: bos_outcome_ok_def st8_def)
      next
        case (Some p)
        with m have own: "owns h h1 [p]" using owns_malloc [OF Cons.prems(2)] by simp
        have mc: "c_memcpy b (int_of l) = Some (take (unat l) b)"
          using ok Cons.prems(1) by (simp add: c_memcpy_def unat_le_int)
        from Cons.IH [OF drop_bound [OF Cons.prems(1), of l] owns_wf [OF own Cons.prems(2)]] Cons.prems(3)
        obtain k cs' h' where rec: "parse_caps cs (drop (unat l) b) (s - int_of l) h1 = Some (k, cs', h')"
          "owns h1 h' (concat (map blk_ptrs cs'))" "length cs' = length cs" "bos_outcome_ok k cs'"
          "\<forall>c \<in> set cs'. cap_ok c" by auto
        have "unat l \<le> length b" "3 \<le> unat l"
          using ok Cons.prems(1) unat_le_int [of l "length b"] unat_le_int [of l 2] by auto
        then have "cap_ok (Some (p, take (unat l) b))" using b by (auto simp: cap_ok_def nth_take)
        with s ps ok m Some mc rec owns_trans [OF own rec(2)] bos_outcome_ok_next show ?thesis
          by (auto simp: st8_def)
      qed
    qed
  qed
qed

lemma parse_bos_owns:
  assumes sz: "s \<le> int (length b)" and wf: "heap_wf h"
  obtains r bos h' where "parse_bos cpu b s he h = Some (r, bos, h')" "owns h h' (bos_ptrs bos)"
    "r = LIBUSB_SUCCESS \<and> bos \<noteq> None \<or> r \<in> {LIBUSB_ERROR_IO, LIBUSB_ERROR_NO_MEM} \<and> bos = None"
    "\<And>p d. bos = Some (p, d) \<Longrightarrow> unat (bos_bNumDeviceCaps d) \<le> length (bos_dev_capability d) \<and>
      (\<forall>c \<in> set (bos_dev_capability d). cap_ok c)"
proof (cases "5 \<le> s")
  case False
  then show thesis by (intro that) (auto simp: parse_bos_def bos_ptrs_def)
next
  case True
  then have "fmt_len ''bbwb'' \<le> length b" using sz by simp
  from usbi_parse_descriptor_len [OF this] obtain fs n where
    fs: "usbi_parse_descriptor cpu b ''bbwb'' he = Some (fs, n)" by blast
  let ?d = "bos_store fs"
  show thesis
  proof (cases "bos_bDescriptorType ?d = LIBUSB_DT_BOS \<and> 5 \<le> int_of (bos_bLength ?d) \<and> int_of (bos_bLength ?d) \<le> s")
    case False
    with True fs show thesis by (intro that) (auto simp: parse_bos_def bos_ptrs_def Let_def)
  next
    case ok: True
    obtain q h1 where m: "c_malloc h = (q, h1)" by fastforce
    show thesis
    proof (cases q)
      case None
      with True fs ok m owns_malloc_None [OF wf] show thesis
        by (intro that) (auto simp: parse_bos_def bos_ptrs_def Let_def)
    next
      case (Some p)
      with m have own: "owns h h1 [p]" using owns_malloc [OF wf] by simp
      have slots: "length (bos_dev_capability ?d) = unat (bos_bNumDeviceCaps ?d)"
        "\<forall>c \<in> set (bos_dev_capability ?d). c = None" by (simp_all add: bos_store_def)
      from parse_caps_owns [OF drop_bound [OF sz, of "bos_bLength ?d"] owns_wf [OF own wf] slots(2)]
      obtain k cs h2 where pc: "parse_caps (bos_dev_capability ?d) (drop (unat (bos_bLength ?d)) b)
          (s - int_of (bos_bLength ?d)) h1 = Some (k, cs, h2)"
        and cs: "owns h1 h2 (concat (map blk_ptrs cs))" "length cs = unat (bos_bNumDeviceCaps ?d)"
          "bos_outcome_ok k cs" "\<forall>c \<in> set cs. cap_ok c"
        using slots(1) by auto
      define d1 where "d1 = ?d\<lparr>bos_dev_capability := cs\<rparr>"
      from owns_trans [OF own cs(1)] have "owns h h2 (concat (map blk_ptrs cs) @ [p])"
        by (auto intro: iffD1 [OF owns_mset, rotated])
      then have own2: "owns h h2 (bos_ptrs (Some (p, d1)) @ [])" using cs(2) by (simp add: d1_def bos_ptrs_def)
      have res: "parse_bos cpu b s he h = (case k of
            BosErr r \<Rightarrow> do { h3 \<leftarrow> libusb_free_bos_descriptor (Some (p, d1)) h2; Some (r, None, h3) }
          | BosStop i \<Rightarrow> Some (LIBUSB_SUCCESS, Some (p, d1\<lparr>bos_bNumDeviceCaps := u8_of i\<rparr>), h2)
          | BosAll \<Rightarrow> Some (LIBUSB_SUCCESS, Some (p, d1), h2))"
        using True fs ok m Some pc by (cases k) (simp_all add: parse_bos_def Let_def d1_def)
      show thesis
      proof (cases k)
        case (BosErr r)
        from free_bos_owns [OF own2 wf] cs(2) obtain h3 where
          "libusb_free_bos_descriptor (Some (p, d1)) h2 = Some h3" "owns h h3 []" by (auto simp: d1_def)
        with BosErr res cs(3) show thesis by (intro that [of r None h3]) (auto simp: bos_ptrs_def bos_outcome_ok_def)
      next
        case (BosStop i)
        with cs(2,3) have i: "i < length cs" "i < 256" "\<forall>c \<in> set (drop i cs). c = None"
          by (auto simp: bos_outcome_ok_def intro: less_trans)
        then have "concat (map blk_ptrs (drop i cs)) = []" by auto
        with concat_take_drop [of blk_ptrs cs i] have "concat (map blk_ptrs (take i cs)) = concat (map blk_ptrs cs)"
          by (simp del: concat_eq_Nil_conv)
        with own2 i cs(2) have "owns h h2 (bos_ptrs (Some (p, d1\<lparr>bos_bNumDeviceCaps := u8_of i\<rparr>)))"
          by (simp add: d1_def bos_ptrs_def)
        with BosStop res i cs show thesis by (intro that) (auto simp: d1_def)
      next
        case BosAll
        with res own2 cs show thesis by (intro that) (auto simp: d1_def)
      qed
    qed
  qed
qed

lemma control_okD:
  assumes "control_ok ctl" and "ctl i ty q v x len = (r, bs)" and "0 \<le> r"
  shows "int (length bs) = r" and "length bs \<le> unat len"
proof -
  have "0 \<le> r \<longrightarrow> int (length bs) = r \<and> length bs \<le> unat len"
    using assms(1,2) unfolding control_ok_def by (metis (mono_tags, lifting) case_prod_conv)
  with assms(3) show "int (length bs) = r" "length bs \<le> unat len" by auto
qed

text \<open>\<open>libusb_get_bos_descriptor\<close> for every device (every control transfer stores what it
  reports, at most what was asked for): it does not fault, returns 0 exactly when it delivers a
  descriptor, and freeing what it delivered gives back every block; on an error nothing is left.\<close>

theorem get_bos_descriptor_safe:
  assumes ctl: "control_ok ctl" and wf: "heap_wf h"
  shows "\<exists>r bos h' h''. libusb_get_bos_descriptor ctl h = Some (r, bos, h') \<and> (r = LIBUSB_SUCCESS \<longleftrightarrow> bos \<noteq> None) \<and>
    libusb_free_bos_descriptor bos h' = Some h'' \<and> hp_live h'' = hp_live h"
proof -
  have fail: "owns h h1 [] \<Longrightarrow> r < 0 \<Longrightarrow> libusb_get_bos_descriptor ctl h = Some (r, None, h1) \<Longrightarrow> ?thesis" for r h1
    by (auto simp: libusb_free_bos_descriptor_def owns_def)
  obtain r bs where b0: "libusb_get_descriptor ctl 0 LIBUSB_DT_BOS 0 LIBUSB_DT_BOS_SIZE = (r, bs)" by fastforce
  show ?thesis
  proof (cases "5 \<le> r")
    case False
    with b0 show ?thesis by (cases "r < 0") (auto simp: libusb_get_bos_descriptor_def libusb_free_bos_descriptor_def)
  next
    case r: True
    have "fmt_len ''bbwb'' \<le> length (zero_filled 5 bs)" by (simp add: zero_filled_def)
    from usbi_parse_descriptor_len [OF this] obtain fs n where
      fs: "usbi_parse_descriptor LittleEndian (zero_filled 5 bs) ''bbwb'' False = Some (fs, n)" by blast
    obtain q h1 where m: "c_malloc h = (q, h1)" by fastforce
    show ?thesis
    proof (cases q)
      case None
      with r b0 fs m owns_malloc_None [OF wf] show ?thesis
        by (intro fail) (auto simp: libusb_get_bos_descriptor_def Let_def)
    next
      case (Some p)
      with m have own: "owns h h1 [p]" using owns_malloc [OF wf] by simp
      let ?w = "st16 fs 2 0"
      obtain r2 bs2 where b1: "libusb_get_descriptor ctl 1 LIBUSB_DT_BOS 0 (int (unat ?w)) = (r2, bs2)" by fastforce
      show ?thesis
      proof (cases "0 \<le> r2")
        case False
        from owns_release [of h h1 "[]" p "[]"] own wf obtain h3 where "c_release p h1 = Some h3" "owns h h3 []" by auto
        with False r b0 fs m Some b1 show ?thesis
          by (intro fail) (auto simp: libusb_get_bos_descriptor_def Let_def)
      next
        case r2: True
        have "r2 \<le> int (length (zero_filled (unat ?w) bs2))"
          using control_okD(1) [OF ctl b1 [unfolded libusb_get_descriptor_def] r2] by (simp add: zero_filled_def)
        from parse_bos_owns [OF this owns_wf [OF own wf], of LittleEndian False] obtain r3 bos h2 where
          pb: "parse_bos LittleEndian (zero_filled (unat ?w) bs2) r2 False h1 = Some (r3, bos, h2)"
          and own2: "owns h1 h2 (bos_ptrs bos)"
          and r3: "r3 = LIBUSB_SUCCESS \<and> bos \<noteq> None \<or> r3 \<in> {LIBUSB_ERROR_IO, LIBUSB_ERROR_NO_MEM} \<and> bos = None"
          and caps: "\<And>p d. bos = Some (p, d) \<Longrightarrow> unat (bos_bNumDeviceCaps d) \<le> length (bos_dev_capability d)"
          by metis
        from owns_release [of h h2 "[]" p "bos_ptrs bos @ []"] owns_trans [OF own own2] wf obtain h3 where
          h3: "c_release p h2 = Some h3" "owns h h3 (bos_ptrs bos @ [])" by auto
        from free_bos_owns [OF h3(2) wf] caps obtain h4 where
          "libusb_free_bos_descriptor bos h3 = Some h4" "owns h h4 []" by blast
        with h3(1) r r2 b0 fs m Some b1 pb r3 show ?thesis
          by (auto simp: libusb_get_bos_descriptor_def Let_def owns_def)
      qed
    qed
  qed
qed

definition bos_control :: control where
  "bos_control i t q v x len = (let bs = take (unat len) [5, 0x0f, 12, 0, 1,  7, 0x10, 2, 2, 0, 0, 0] in (int (length bs), bs))"

theorem get_bos_descriptor_safe_witness:
  "\<exists>r bos h' h''. libusb_get_bos_descriptor bos_control empty_heap = Some (r, bos, h') \<and>
    (r = LIBUSB_SUCCESS \<longleftrightarrow> bos \<noteq> None) \<and>
    libusb_free_bos_descriptor bos h' = Some h'' \<and> hp_live h'' = hp_live empty_heap"
  by (rule get_bos_descriptor_safe) (auto simp: control_ok_def bos_control_def Let_def)

text \<open>Every capability that \<open>parse_bos\<close> stored can be handed to
  \<open>libusb_get_container_id_descriptor\<close>: it reads only inside that block, answers
  LIBUSB_ERROR_INVALID_PARAM exactly for another capability type, and on success the UUID is
  bytes 4 to 19 of the capability.\<close>

theorem container_id_of_parsed_bos:
  assumes "s \<le> int (length b)" and "heap_wf h0"
    and "parse_bos cpu b s he h0 = Some (r0, Some (p, d), h1)"
    and "Some (q, dev_cap) \<in> set (bos_dev_capability d)"
  shows "\<exists>r ci h'. libusb_get_container_id_descriptor dev_cap h = Some (r, ci, h') \<and>
    (r = LIBUSB_ERROR_INVALID_PARAM \<longleftrightarrow> dev_cap ! 2 \<noteq> LIBUSB_BT_CONTAINER_ID) \<and>
    (r = LIBUSB_SUCCESS \<longrightarrow> map_option (ci_ContainerID \<circ> snd) ci = Some (take 16 (drop 4 dev_cap)))"
proof -
  from parse_bos_owns [OF assms(1,2), of cpu he] assms(3,4) have ok: "cap_ok (Some (q, dev_cap))" by auto
  then have len: "3 \<le> length dev_cap" "length dev_cap = unat (dev_cap ! 0)" by (simp_all add: cap_ok_def)
  then have rds: "rd dev_cap 2 = Some (dev_cap ! 2)" "rd dev_cap 0 = Some (dev_cap ! 0)"
    by (auto simp: rd_def)
  show ?thesis
  proof (cases "dev_cap ! 2 = LIBUSB_BT_CONTAINER_ID \<and> 20 \<le> int_of (dev_cap ! 0)")
    case False
    with rds show ?thesis
      by (auto simp: libusb_get_container_id_descriptor_def get_dev_cap_def with_stores_def)
  next
    case True
    then have "20 \<le> length dev_cap" using len(2) unat_le_int [of "dev_cap ! 0" 19] by simp
    then obtain b0 b1 b2 b3 rest where dc: "dev_cap = b0 # b1 # b2 # b3 # rest" and "16 \<le> length rest"
      by (auto simp: numeral_eq_Suc Suc_le_length_iff)
    then have "usbi_parse_descriptor LittleEndian dev_cap ''bbbbu'' False =
        Some ([(0, FB b0), (1, FB b1), (2, FB b2), (3, FB b3), (4, FU (take 16 rest))], 20)"
      by (simp add: usbi_parse_descriptor_def)
    with True rds dc show ?thesis
      by (cases "c_malloc h")
        (auto simp: libusb_get_container_id_descriptor_def get_dev_cap_def with_stores_def st_uuid_def
          split: option.split)
  qed
qed

definition bos_bytes :: "u8 list" where
  "bos_bytes = [5, 0x0f, 25, 0, 1,  20, 0x10, 4, 0, 1, 2, 3, 4, 5, 6, 7, 8, 9, 10, 11, 12, 13, 14, 15, 16]"

lemma bos_bytes_parse:
  "\<exists>r p d h1 q dc. parse_bos LittleEndian bos_bytes 25 False empty_heap = Some (r, Some (p, d), h1) \<and>
    Some (q, dc) \<in> set (bos_dev_capability d)"
proof -
  have "case parse_bos LittleEndian bos_bytes 25 False empty_heap of
      Some (_, Some (_, d), _) \<Rightarrow> (\<exists>c \<in> set (bos_dev_capability d). c \<noteq> None) | _ \<Rightarrow> False"
    by code_simp
  then show ?thesis by (fastforce split: option.splits)
qed

theorem container_id_of_parsed_bos_witness:
  "\<exists>r0 p d h1 q dev_cap r ci h'. parse_bos LittleEndian bos_bytes 25 False empty_heap = Some (r0, Some (p, d), h1) \<and>
    Some (q, dev_cap) \<in> set (bos_dev_capability d) \<and>
    libusb_get_container_id_descriptor dev_cap empty_heap = Some (r, ci, h') \<and>
    (r = LIBUSB_ERROR_INVALID_PARAM \<longleftrightarrow> dev_cap ! 2 \<noteq> LIBUSB_BT_CONTAINER_ID)"
proof -
  obtain r0 p d h1 q dev_cap where
    d: "parse_bos LittleEndian bos_bytes 25 False empty_heap = Some (r0, Some (p, d), h1)"
    "Some (q, dev_cap) \<in> set (bos_dev_capability d)"
    using bos_bytes_parse by blast
  have "(25 :: int) \<le> int (length bos_bytes)" by (simp add: bos_bytes_def)
  from container_id_of_parsed_bos [OF this empty_heap_wf d, of empty_heap] d show ?thesis by blast
qed

subsection \<open>Strings\<close>

definition ascii_char :: "u8 list \<Rightarrow> nat \<Rightarrow> u8" where
  "ascii_char tbuf i = (if tbuf ! i AND 0x80 \<noteq> 0 \<or> tbuf ! (i + 1) \<noteq> 0 then 63 else tbuf ! i)"

lemma ascii_loop_eq:
  "si + 2 * k \<le> length tbuf \<Longrightarrow> k = min (nat (len - 1 - int di)) ((n + 1 - si) div 2) \<Longrightarrow>
    ascii_loop tbuf n len di si = Some (map (\<lambda>j. ascii_char tbuf (si + 2 * j)) [0..<k])"
proof (induction k arbitrary: di si)
  case 0
  then have "\<not> (si < n \<and> int di < len - 1)" by auto
  then show ?case by (subst ascii_loop.simps) auto
next
  case (Suc k)
  then have "si < n" "int di < len - 1" by (auto simp: min_def split: if_splits)
  moreover have "ascii_loop tbuf n len (di + 1) (si + 2) = Some (map (\<lambda>j. ascii_char tbuf (si + 2 + 2 * j)) [0..<k])"
  proof (rule Suc.IH)
    show "si + 2 + 2 * k \<le> length tbuf" using Suc.prems(1) by simp
    show "k = min (nat (len - 1 - int (di + 1))) ((n + 1 - (si + 2)) div 2)"
    proof -
      have "n + 1 - si = (n + 1 - (si + 2)) + 2" using \<open>si < n\<close> by simp
      then have "(n + 1 - si) div 2 = Suc ((n + 1 - (si + 2)) div 2)" by simp
      moreover have "nat (len - 1 - int di) = Suc (nat (len - 1 - int (di + 1)))"
        using \<open>int di < len - 1\<close> by simp
      ultimately show ?thesis using Suc.prems(2) by simp
    qed
  qed
  moreover have "si < length tbuf" "si + 1 < length tbuf" using Suc.prems(1) by auto
  moreover have "map (\<lambda>j. ascii_char tbuf (si + 2 * j)) [0..<Suc k] =
      ascii_char tbuf si # map (\<lambda>j. ascii_char tbuf (si + 2 + 2 * j)) [0..<k]"
    by (simp add: map_upt_Suc algebra_simps del: upt_Suc)
  ultimately show ?case by (auto simp: ascii_loop.simps [of tbuf n len di si] ascii_char_def)
qed

text \<open>The string descriptor of a text, in UTF-16LE.\<close>

definition string_descriptor :: "u8 list \<Rightarrow> u8 list" where
  "string_descriptor txt = u8_of (2 + 2 * length txt) # 3 # concat (map (\<lambda>c. [c, 0]) txt)"

lemma length_pairs [simp]: "length (concat (map (\<lambda>c. [c, 0 :: u8]) txt)) = 2 * length txt"
  by (induction "txt") auto

lemma nth_pairs: "j < length txt \<Longrightarrow>
    concat (map (\<lambda>c. [c, 0 :: u8]) txt) ! (2 * j) = txt ! j \<and> concat (map (\<lambda>c. [c, 0]) txt) ! (2 * j + 1) = 0"
  by (induction "txt" arbitrary: j) (auto simp: nth_Cons split: nat.splits)

lemma ascii_char_string:
  assumes "j < length txt" and "txt ! j AND 0x80 = 0"
  shows "ascii_char (overlay (string_descriptor txt) old) (2 + 2 * j) = txt ! j"
proof -
  let ?b = "concat (map (\<lambda>c. [c, 0 :: u8]) txt)"
  have "overlay (string_descriptor txt) old ! (2 + 2 * j + i) = ?b ! (2 * j + i)" if "i < 2" for i
  proof -
    have "2 * j + i < length ?b" using assms(1) that by simp
    then show ?thesis by (simp add: overlay_def string_descriptor_def nth_append)
  qed
  from this [of 0] this [of 1] nth_pairs [OF assms(1)] assms(2) show ?thesis
    by (simp add: ascii_char_def)
qed

text \<open>A device whose string is an ASCII text of at most 126 characters gets that text back: the
  function stores the text, cut to \<open>len - 1\<close> characters, and a terminating 0, never more than
  \<open>len\<close> bytes, and returns the number of characters.\<close>

theorem string_ascii_roundtrip:
  assumes "desc_index \<noteq> 0" and "1 \<le> len" and "length txt \<le> 126" and "\<forall>c \<in> set txt. c AND 0x80 = 0"
    and "libusb_get_string_descriptor ctl 0 0 0 255 = (4, langs)" and "length langs = 4"
    and "libusb_get_string_descriptor ctl 1 desc_index (join16 (langs ! 3) (langs ! 2)) 255 =
      (2 + 2 * int (length txt), string_descriptor txt)"
  shows "libusb_get_string_descriptor_ascii ctl desc_index len =
    Some (int (min (length txt) (nat (len - 1))), take (nat (len - 1)) txt @ [0])"
proof -
  let ?t = "overlay (string_descriptor txt) langs" and ?n = "2 + 2 * length txt"
  let ?k = "min (nat (len - 1)) (length txt)"
  define nn where "nn = u8_of ?n"
  have rds: "rd langs 2 = Some (langs ! 2)" "rd langs 3 = Some (langs ! 3)" using assms(6) by simp_all
  have "unat nn = ?n" using assms(3) by (simp add: nn_def)
  then have n: "\<not> 2 + 2 * int (length txt) < uint nn" using unat_le_int [of nn ?n] by simp
  have t: "rd ?t 1 = Some 3" "rd ?t 0 = Some nn"
    by (simp_all add: overlay_def string_descriptor_def nn_def)
  have "ascii_loop ?t ?n len 0 2 = Some (map (\<lambda>j. ascii_char ?t (2 + 2 * j)) [0..<?k])"
    by (rule ascii_loop_eq) (auto simp: overlay_def string_descriptor_def)
  moreover have "map (\<lambda>j. ascii_char ?t (2 + 2 * j)) [0..<?k] = take (nat (len - 1)) txt"
    using assms(4) ascii_char_string [of _ "txt" langs] by (auto intro!: nth_equalityI)
  ultimately have loop: "ascii_loop ?t (unat nn) len 0 2 = Some (take (nat (len - 1)) txt)"
    using \<open>unat nn = ?n\<close> by simp
  have "libusb_get_string_descriptor_ascii ctl desc_index len = do {
      cs \<leftarrow> ascii_loop ?t (unat nn) len 0 2;
      if int (length cs) < len then Some (int (length cs), cs @ [0]) else None }"
    unfolding libusb_get_string_descriptor_ascii_def using assms(1,5,7) rds t n by simp
  moreover have "int (length (take (nat (len - 1)) txt)) < len" using assms(2) by simp
  ultimately show ?thesis using loop by simp
qed

definition string_control :: control where
  "string_control i t q v x len =
     (if i = 0 then (4, [4, 3, 9, 4]) else (2 + 2 * int (length [72, 105 :: u8]), string_descriptor [72, 105]))"

theorem string_ascii_roundtrip_witness:
  "libusb_get_string_descriptor_ascii string_control 1 10 =
    Some (int (min (length [72, 105 :: u8]) (nat (10 - 1))), take (nat (10 - 1)) [72, 105] @ [0])"
  by (rule string_ascii_roundtrip [where langs = "[4, 3, 9, 4]"])
    (simp_all add: libusb_get_string_descriptor_def string_control_def)

definition odd_control :: control where
  "odd_control i t q v x len =
     (if i = 0 then (4, [4, 3, 9, 4]) else (255, 255 # 3 # replicate 253 65))"

text \<open>A device may report a string descriptor of 255 bytes, an odd length: the conversion then
  reads \<open>tbuf[255]\<close>, one byte past the array of 255.\<close>

theorem string_length_255_overread:
  "libusb_get_string_descriptor_ascii odd_control 1 300 = None"
  by code_simp

subsection \<open>The device descriptor\<close>

text \<open>\<open>usbi_device_cache_descriptor\<close> gives the same structure on CPUs of both byte orders when
  the backend delivers bus order, with every 16-bit field the little-endian value of its bytes.\<close>

theorem device_descriptor_endian:
  assumes "18 \<le> length bs"
  shows "\<exists>d. usbi_device_cache_descriptor cpu (0, bs, False) = Some (LIBUSB_SUCCESS, Some d) \<and>
    dd_bcdUSB d = join16 (bs ! 3) (bs ! 2) \<and> dd_idVendor d = join16 (bs ! 9) (bs ! 8) \<and>
    dd_idProduct d = join16 (bs ! 11) (bs ! 10) \<and> dd_bcdDevice d = join16 (bs ! 13) (bs ! 12) \<and>
    dd_bNumConfigurations d = bs ! 17"
  using assms by (cases cpu)
    (simp_all add: usbi_device_cache_descriptor_def dd_native_def libusb_cpu_to_le16_def load16_def Let_def)

theorem device_descriptor_endian_witness:
  "\<exists>d. usbi_device_cache_descriptor BigEndian (0, [18, 1, 0, 2, 0, 0, 0, 64, 0xd1, 0x18, 2, 0x2d, 0, 1, 0, 0, 0, 1], False) =
      Some (LIBUSB_SUCCESS, Some d) \<and> dd_idVendor d = 0x18d1"
  using device_descriptor_endian [of "[18, 1, 0, 2, 0, 0, 0, 64, 0xd1, 0x18, 2, 0x2d, 0, 1, 0, 0, 0, 1]" BigEndian]
  by (auto simp: join16_def)

end
