(* ===== verification/List_Head.thy ===== *)
theory List_Head
  imports Usb_Prelude
begin

text \<open>
  The intrusive circular doubly-linked list of libusbi.h (\<open>struct list_head\<close>). A store of
  links maps each node to its \<open>next\<close> and \<open>prev\<close> pointers (\<open>None\<close> is NULL); the operations
  are the pointer assignments of the C functions in their order, and following a NULL pointer
  is a fault. The relation \<open>dlist s hd0 xs\<close> says that the cycle starting at the head \<open>hd0\<close>
  holds the nodes \<open>xs\<close>; each operation is shown to refine its operation on HOL lists, so the
  other theories work with HOL lists.

  The interface \<open>linked_seq\<close> is the contract of such lists; its FIFO lemma is what the
  queues of hotplug messages and of completed transfers rest on.
\<close>

record links =
  lnext :: "nat \<Rightarrow> nat option"
  lprev :: "nat \<Rightarrow> nat option"

definition set_next :: "nat \<Rightarrow> nat option \<Rightarrow> links \<Rightarrow> links" where
  "set_next a b s = s\<lparr>lnext := (lnext s)(a := b)\<rparr>"

definition set_prev :: "nat \<Rightarrow> nat option \<Rightarrow> links \<Rightarrow> links" where
  "set_prev a b s = s\<lparr>lprev := (lprev s)(a := b)\<rparr>"

definition list_init :: "nat \<Rightarrow> links \<Rightarrow> links" where
  "list_init entry s = set_prev entry (Some entry) (set_next entry (Some entry) s)"

definition list_empty :: "nat \<Rightarrow> links \<Rightarrow> bool" where
  "list_empty entry s \<longleftrightarrow> lnext s entry = Some entry"

definition list_add :: "nat \<Rightarrow> nat \<Rightarrow> links \<Rightarrow> links option" where
  "list_add entry head s = do {
     let s1 = set_next entry (lnext s head) s;
     let s2 = set_prev entry (Some head) s1;
     n \<leftarrow> lnext s2 head;
     let s3 = set_prev n (Some entry) s2;
     Some (set_next head (Some entry) s3)
   }"

definition list_add_tail :: "nat \<Rightarrow> nat \<Rightarrow> links \<Rightarrow> links option" where
  "list_add_tail entry head s = do {
     let s1 = set_next entry (Some head) s;
     let s2 = set_prev entry (lprev s1 head) s1;
     p \<leftarrow> lprev s2 head;
     let s3 = set_next p (Some entry) s2;
     Some (set_prev head (Some entry) s3)
   }"

definition list_del :: "nat \<Rightarrow> links \<Rightarrow> links option" where
  "list_del entry s = do {
     n \<leftarrow> lnext s entry;
     let s1 = set_prev n (lprev s entry) s;
     p \<leftarrow> lprev s1 entry;
     let s2 = set_next p (lnext s1 entry) s1;
     Some (set_next entry None (set_prev entry None s2))
   }"

text \<open>
  \<open>list_for_each_entry\<close>: the nodes visited from \<open>pos\<close> until the head comes round again. The
  fuel bounds the number of iterations; \<open>list_entries_enough\<close> says one more than the number
  of nodes is enough.
\<close>

fun list_for_each_entry :: "nat \<Rightarrow> links \<Rightarrow> nat \<Rightarrow> nat \<Rightarrow> nat list option" where
  "list_for_each_entry 0 s head pos = None"
| "list_for_each_entry (Suc fuel) s head pos =
     (if pos = head then Some []
      else do { n \<leftarrow> lnext s pos; xs \<leftarrow> list_for_each_entry fuel s head n; Some (pos # xs) })"

definition list_entries :: "nat \<Rightarrow> links \<Rightarrow> nat \<Rightarrow> nat list option" where
  "list_entries fuel s head = do { pos \<leftarrow> lnext s head; list_for_each_entry fuel s head pos }"

definition list_first_entry :: "nat \<Rightarrow> links \<Rightarrow> nat option" where
  "list_first_entry head s = lnext s head"

fun chain :: "links \<Rightarrow> nat list \<Rightarrow> bool" where
  "chain s (a # b # xs) \<longleftrightarrow> lnext s a = Some b \<and> lprev s b = Some a \<and> chain s (b # xs)"
| "chain s _ \<longleftrightarrow> True"

definition dlist :: "links \<Rightarrow> nat \<Rightarrow> nat list \<Rightarrow> bool" where
  "dlist s hd0 xs \<longleftrightarrow> distinct (hd0 # xs) \<and> chain s (hd0 # xs @ [hd0])"

subsection \<open>Chains of links\<close>

lemma set_next_sel [simp]:
  "lnext (set_next a b s) = (lnext s)(a := b)" "lprev (set_next a b s) = lprev s"
  by (simp_all add: set_next_def)

lemma set_prev_sel [simp]:
  "lprev (set_prev a b s) = (lprev s)(a := b)" "lnext (set_prev a b s) = lnext s"
  by (simp_all add: set_prev_def)

lemma chain_split: "chain s (us @ a # vs) \<longleftrightarrow> chain s (us @ [a]) \<and> chain s (a # vs)"
proof (induction us)
  case (Cons u us)
  then show ?case by (cases us) auto
qed simp

lemma chain_frame:
  assumes "chain s zs"
    and "\<And>x. x \<in> set (butlast zs) \<Longrightarrow> lnext s' x = lnext s x"
    and "\<And>x. x \<in> set (tl zs) \<Longrightarrow> lprev s' x = lprev s x"
  shows "chain s' zs"
  using assms
proof (induction s zs rule: chain.induct)
  case (1 s a b xs)
  have "chain s' (b # xs)"
    using 1 by (auto intro!: "1.IH")
  then show ?case using 1 by auto
qed auto

text \<open>
  Linking a new node between two neighbours of a cycle, and unlinking one. A node other than
  the head occurs once in \<open>hd0 # xs @ [hd0]\<close>; the head occurs once as a predecessor and once
  as a successor, which is what the distinctness of \<open>butlast\<close> and \<open>tl\<close> says.
\<close>

lemma chain_insert:
  assumes ch: "chain s (us @ a # b # vs)"
    and db: "distinct (butlast (us @ a # b # vs))" and dt: "distinct (tl (us @ a # b # vs))"
    and e: "e \<notin> set (us @ a # b # vs)"
    and n: "lnext s' = (lnext s)(e := Some b, a := Some e)"
    and p: "lprev s' = (lprev s)(e := Some a, b := Some e)"
  shows "chain s' (us @ a # e # b # vs)"
proof -
  from ch have l: "chain s (us @ [a])" and r: "chain s (b # vs)"
    using chain_split [of s us a "b # vs"] by auto
  have "chain s' (us @ [a])"
    by (rule chain_frame [OF l]) (use n p db dt e in \<open>auto simp: butlast_append tl_append split: list.splits\<close>)
  moreover have "chain s' (b # vs)"
    by (rule chain_frame [OF r]) (use n p db dt e in
      \<open>auto simp: butlast_append tl_append split: list.splits if_splits dest: in_set_butlastD\<close>)
  ultimately show ?thesis
    using n p e chain_split [of s' us a "e # b # vs"] by auto
qed

lemma chain_delete:
  assumes ch: "chain s (us @ a # e # b # vs)"
    and db: "distinct (butlast (us @ a # e # b # vs))" and dt: "distinct (tl (us @ a # e # b # vs))"
    and e: "e \<notin> set (us @ a # b # vs)"
    and n: "lnext s' = (lnext s)(a := Some b, e := None)"
    and p: "lprev s' = (lprev s)(b := Some a, e := None)"
  shows "chain s' (us @ a # b # vs)"
proof -
  from ch have l: "chain s (us @ [a])" and r: "chain s (b # vs)"
    using chain_split [of s us a "e # b # vs"] by auto
  have "chain s' (us @ [a])"
    by (rule chain_frame [OF l]) (use n p db dt e in \<open>auto simp: butlast_append tl_append split: list.splits\<close>)
  moreover have "chain s' (b # vs)"
    by (rule chain_frame [OF r]) (use n p db dt e in
      \<open>auto simp: butlast_append tl_append split: list.splits if_splits dest: in_set_butlastD\<close>)
  ultimately show ?thesis
    using n p e chain_split [of s' us a "b # vs"] by auto
qed

subsection \<open>The operations on a cycle\<close>

text \<open>The nodes of a cycle in order, from the head back to the head.\<close>

definition cycle :: "nat \<Rightarrow> nat list \<Rightarrow> nat list" where
  "cycle hd0 xs = hd0 # xs @ [hd0]"

lemma dlist_cycle:
  "dlist s hd0 xs \<longleftrightarrow> chain s (cycle hd0 xs) \<and> distinct (butlast (cycle hd0 xs)) \<and>
     distinct (tl (cycle hd0 xs))"
  by (auto simp: dlist_def cycle_def butlast_append)

lemma list_add_cycle:
  assumes "chain s (us @ a # b # vs)" "distinct (butlast (us @ a # b # vs))"
    "distinct (tl (us @ a # b # vs))" "e \<notin> set (us @ a # b # vs)"
  shows "\<exists>s'. list_add e a s = Some s' \<and> chain s' (us @ a # e # b # vs)"
proof -
  define s' where "s' = set_next a (Some e) (set_prev b (Some e) (set_prev e (Some a) (set_next e (Some b) s)))"
  have n: "lnext s a = Some b" using assms(1) chain_split [of s us a "b # vs"] by simp
  have "list_add e a s = Some s'"
    using n assms(4) by (simp add: list_add_def s'_def Let_def)
  moreover have "chain s' (us @ a # e # b # vs)"
    by (rule chain_insert [OF assms]) (use assms(4) in \<open>auto simp: s'_def\<close>)
  ultimately show ?thesis by blast
qed

lemma list_add_tail_cycle:
  assumes "chain s (us @ a # b # vs)" "distinct (butlast (us @ a # b # vs))"
    "distinct (tl (us @ a # b # vs))" "e \<notin> set (us @ a # b # vs)"
  shows "\<exists>s'. list_add_tail e b s = Some s' \<and> chain s' (us @ a # e # b # vs)"
proof -
  define s' where "s' = set_prev b (Some e) (set_next a (Some e) (set_prev e (Some a) (set_next e (Some b) s)))"
  have p: "lprev s b = Some a" using assms(1) chain_split [of s us a "b # vs"] by simp
  have "list_add_tail e b s = Some s'"
    using p assms(4) by (simp add: list_add_tail_def s'_def Let_def)
  moreover have "chain s' (us @ a # e # b # vs)"
    by (rule chain_insert [OF assms]) (use assms(4) in \<open>auto simp: s'_def\<close>)
  ultimately show ?thesis by blast
qed

lemma list_del_cycle:
  assumes "chain s (us @ a # e # b # vs)" "distinct (butlast (us @ a # e # b # vs))"
    "distinct (tl (us @ a # e # b # vs))" "e \<notin> set (us @ a # b # vs)"
  shows "\<exists>s'. list_del e s = Some s' \<and> chain s' (us @ a # b # vs) \<and>
           lnext s' e = None \<and> lprev s' e = None"
proof -
  define s' where "s' = set_next e None (set_prev e None (set_next a (Some b) (set_prev b (Some a) s)))"
  have n: "lnext s e = Some b" "lprev s e = Some a"
    using assms(1) chain_split [of s us a "e # b # vs"] by auto
  have "list_del e s = Some s'"
    using n assms(4) by (simp add: list_del_def s'_def Let_def)
  moreover have "chain s' (us @ a # b # vs)"
    by (rule chain_delete [OF assms]) (use assms(4) in \<open>auto simp: s'_def\<close>)
  ultimately show ?thesis by (auto simp: s'_def)
qed

subsection \<open>The operations refine the operations on lists\<close>

lemma dlist_init: "dlist (list_init hd0 s) hd0 []"
  by (simp add: dlist_def list_init_def)

lemma dlist_empty_iff: "dlist s hd0 xs \<Longrightarrow> list_empty hd0 s \<longleftrightarrow> xs = []"
  by (cases xs) (auto simp: dlist_def list_empty_def)

lemma dlist_first: "dlist s hd0 (x # xs) \<Longrightarrow> list_first_entry hd0 s = Some x"
  by (simp add: dlist_def list_first_entry_def)

lemma dlistI: "chain s (cycle hd0 xs) \<Longrightarrow> distinct (hd0 # xs) \<Longrightarrow> dlist s hd0 xs"
  by (simp add: dlist_def cycle_def)

lemma dlist_distinct: "dlist s hd0 xs \<Longrightarrow> distinct (hd0 # xs)"
  by (simp add: dlist_def)

lemma cycle_set [simp]: "set (cycle hd0 xs) = set (hd0 # xs)"
  by (auto simp: cycle_def)

lemma dlist_add:
  assumes dl: "dlist s hd0 xs" and e: "e \<notin> set (hd0 # xs)"
  shows "\<exists>s'. list_add e hd0 s = Some s' \<and> dlist s' hd0 (e # xs)"
proof -
  obtain b vs where z: "cycle hd0 xs = [] @ hd0 # b # vs" and z': "cycle hd0 (e # xs) = [] @ hd0 # e # b # vs"
    by (cases xs) (auto simp: cycle_def)
  from e have e': "e \<notin> set (cycle hd0 xs)" by simp
  from dl e' obtain s' where "list_add e hd0 s = Some s'" "chain s' (cycle hd0 (e # xs))"
    using list_add_cycle [of s "[]" hd0 b vs e] unfolding dlist_cycle z z' by blast
  with dlist_distinct [OF dl] e show ?thesis by (auto intro!: dlistI)
qed

lemma dlist_insert_before:
  assumes dl: "dlist s hd0 (xs @ c # ys)" and e: "e \<notin> set (hd0 # xs @ c # ys)"
  shows "\<exists>s'. list_add_tail e c s = Some s' \<and> dlist s' hd0 (xs @ e # c # ys)"
proof -
  obtain us a where u: "hd0 # xs = us @ [a]" by (cases "hd0 # xs" rule: rev_cases) auto
  have split: "hd0 # xs @ zs = us @ a # zs" for zs
    using arg_cong [OF u, of "\<lambda>l. l @ zs"] by simp
  then have z: "cycle hd0 (xs @ c # ys) = us @ a # c # ys @ [hd0]"
    and z': "cycle hd0 (xs @ e # c # ys) = us @ a # e # c # ys @ [hd0]"
    by (simp_all add: cycle_def)
  from e have e': "e \<notin> set (cycle hd0 (xs @ c # ys))" by simp
  from dl e' obtain s' where "list_add_tail e c s = Some s'" "chain s' (cycle hd0 (xs @ e # c # ys))"
    using list_add_tail_cycle [of s us a c "ys @ [hd0]" e] unfolding dlist_cycle z z' by blast
  with dlist_distinct [OF dl] e show ?thesis by (auto intro!: dlistI)
qed

lemma dlist_add_tail:
  assumes dl: "dlist s hd0 xs" and e: "e \<notin> set (hd0 # xs)"
  shows "\<exists>s'. list_add_tail e hd0 s = Some s' \<and> dlist s' hd0 (xs @ [e])"
proof -
  obtain us a where u: "hd0 # xs = us @ [a]" by (cases "hd0 # xs" rule: rev_cases) auto
  have split: "hd0 # xs @ zs = us @ a # zs" for zs
    using arg_cong [OF u, of "\<lambda>l. l @ zs"] by simp
  then have z: "cycle hd0 xs = us @ a # hd0 # []" and z': "cycle hd0 (xs @ [e]) = us @ a # e # hd0 # []"
    by (simp_all add: cycle_def)
  from e have e': "e \<notin> set (cycle hd0 xs)" by simp
  from dl e' obtain s' where "list_add_tail e hd0 s = Some s'" "chain s' (cycle hd0 (xs @ [e]))"
    using list_add_tail_cycle [of s us a hd0 "[]" e] unfolding dlist_cycle z z' by blast
  with dlist_distinct [OF dl] e show ?thesis by (auto intro!: dlistI)
qed

lemma dlist_del:
  assumes dl: "dlist s hd0 (xs @ e # ys)"
  shows "\<exists>s'. list_del e s = Some s' \<and> dlist s' hd0 (xs @ ys) \<and> lnext s' e = None \<and> lprev s' e = None"
proof -
  obtain us a where u: "hd0 # xs = us @ [a]" by (cases "hd0 # xs" rule: rev_cases) auto
  have split: "hd0 # xs @ zs = us @ a # zs" for zs
    using arg_cong [OF u, of "\<lambda>l. l @ zs"] by simp
  obtain b vs where v: "ys @ [hd0] = b # vs" by (cases ys) auto
  from split v have z: "cycle hd0 (xs @ e # ys) = us @ a # e # b # vs" and z': "cycle hd0 (xs @ ys) = us @ a # b # vs"
    by (simp_all add: cycle_def)
  from dlist_distinct [OF dl] have "e \<notin> set (cycle hd0 (xs @ ys))" by auto
  with dl obtain s' where "list_del e s = Some s'" "chain s' (cycle hd0 (xs @ ys))"
      "lnext s' e = None" "lprev s' e = None"
    using list_del_cycle [of s us a e b vs] unfolding dlist_cycle z z' by blast
  with dlist_distinct [OF dl] show ?thesis by (auto intro!: dlistI)
qed

lemma for_each_entry_chain:
  "chain s (xs @ [hd0]) \<Longrightarrow> hd0 \<notin> set xs \<Longrightarrow> length xs < fuel \<Longrightarrow>
    list_for_each_entry fuel s hd0 (hd (xs @ [hd0])) = Some xs"
proof (induction xs arbitrary: fuel)
  case Nil
  then show ?case by (cases fuel) auto
next
  case (Cons x xs)
  then obtain f where f: "fuel = Suc f" by (cases fuel) auto
  from Cons.prems have "lnext s x = Some (hd (xs @ [hd0]))" "chain s (xs @ [hd0])"
    by (cases xs; auto)+
  with Cons f show ?case by auto
qed

lemma list_entries_enough: "dlist s hd0 xs \<Longrightarrow> length xs < fuel \<Longrightarrow> list_entries fuel s hd0 = Some xs"
  using for_each_entry_chain [of s xs hd0 fuel]
  by (cases xs) (auto simp: dlist_def list_entries_def)

subsection \<open>The contract of a linked sequence\<close>

locale linked_seq =
  fixes rep :: "'s \<Rightarrow> nat \<Rightarrow> nat list \<Rightarrow> bool"
    and push_tail :: "nat \<Rightarrow> nat \<Rightarrow> 's \<Rightarrow> 's option"
    and unlink :: "nat \<Rightarrow> 's \<Rightarrow> 's option"
    and first :: "nat \<Rightarrow> 's \<Rightarrow> nat option"
  assumes push_tail: "rep s q xs \<Longrightarrow> e \<notin> set (q # xs) \<Longrightarrow>
      \<exists>s'. push_tail e q s = Some s' \<and> rep s' q (xs @ [e])"
    and unlink: "rep s q (xs @ e # ys) \<Longrightarrow> \<exists>s'. unlink e s = Some s' \<and> rep s' q (xs @ ys)"
    and first: "rep s q (x # xs) \<Longrightarrow> first q s = Some x"
begin

lemma push_all:
  "rep s q xs \<Longrightarrow> distinct es \<Longrightarrow> set es \<inter> set (q # xs) = {} \<Longrightarrow>
    \<exists>s'. foldl (\<lambda>m e. Option.bind m (push_tail e q)) (Some s) es = Some s' \<and> rep s' q (xs @ es)"
proof (induction es arbitrary: s xs)
  case Nil
  then show ?case by simp
next
  case (Cons e es)
  then obtain s1 where s1: "push_tail e q s = Some s1" "rep s1 q (xs @ [e])"
    using push_tail [of s q xs e] by auto
  with Cons.prems Cons.IH [of s1 "xs @ [e]"] show ?case by auto
qed

lemma pop_first:
  "rep s q (x # xs) \<Longrightarrow> \<exists>s'. Option.bind (first q s) (\<lambda>e. unlink e s) = Some s' \<and> rep s' q xs"
  using first [of s q x xs] unlink [of s q "[]" x xs] by auto

end

interpretation dl: linked_seq dlist list_add_tail list_del list_first_entry
  by unfold_locales (use dlist_add_tail dlist_del dlist_first in \<open>blast+\<close>)

subsection \<open>A queue of messages\<close>

text \<open>A doubly linked list of libusbi.h is a FIFO queue: appending the nodes \<open>es\<close> one by one with
  \<open>list_add_tail\<close> never follows a NULL pointer, the traversal \<open>list_for_each_entry\<close> then ends and
  visits the old nodes and the new ones in order, and taking the first entry off with \<open>list_del\<close>
  leaves the others.\<close>

theorem list_is_fifo:
  assumes "dlist s q xs" and "distinct es" and "set es \<inter> set (q # xs) = {}" and "xs @ es = y # ys"
  shows "\<exists>s1 s2. foldl (\<lambda>m e. Option.bind m (list_add_tail e q)) (Some s) es = Some s1 \<and>
    list_entries (Suc (length (xs @ es))) s1 q = Some (xs @ es) \<and>
    list_first_entry q s1 = Some y \<and> list_del y s1 = Some s2 \<and>
    list_entries (Suc (length ys)) s2 q = Some ys"
proof -
  from dl.push_all [OF assms(1-3)] obtain s1 where
    s1: "foldl (\<lambda>m e. Option.bind m (list_add_tail e q)) (Some s) es = Some s1" "dlist s1 q (xs @ es)" by blast
  then have d: "dlist s1 q (y # ys)" using assms(4) by simp
  have first: "list_first_entry q s1 = Some y" using d by (rule dlist_first)
  from dl.pop_first [OF d] first obtain s2 where "list_del y s1 = Some s2" "dlist s2 q ys" by auto
  with s1 first show ?thesis
    using list_entries_enough [OF s1(2)] list_entries_enough [of s2 q ys] by auto
qed

theorem list_is_fifo_witness:
  "\<exists>s1 s2. foldl (\<lambda>m e. Option.bind m (list_add_tail e 0)) (Some (list_init 0 \<lparr>lnext = (\<lambda>_. None), lprev = (\<lambda>_. None)\<rparr>))
      [1, 2] = Some s1 \<and>
    list_entries (Suc (length ([] @ [1, 2 :: nat]))) s1 0 = Some ([] @ [1, 2]) \<and>
    list_first_entry 0 s1 = Some 1 \<and> list_del 1 s1 = Some s2 \<and>
    list_entries (Suc (length [2 :: nat])) s2 0 = Some [2]"
  by (rule list_is_fifo) (simp_all add: dlist_init)

end
