(* ===== verification/Transfers.thy ===== *)
theory Transfers
  imports Usb_Types
begin

text \<open>
  The transfer engine of io.c: transfers, the list of flying transfers sorted by timeout, the
  timerfd that is armed for the next timeout, submission, cancellation, completion, and the
  handling of timeouts and disconnection.

  A context is a record; the doubly linked list of the C code is the sequence it holds
  (List_Head proves that the pointer operations implement the operations on sequences used here).
  The bit masks \<open>state_flags\<close> and \<open>timeout_flags\<close> are sets of their flags. A mutex is a flag of what it
  protects: locking one that is held and unlocking one that is not are faults, so that a run
  without a fault has no self-deadlock. What the outside decides (the clock, the result of
  \<open>timerfd_settime\<close>, and of the backend's submit and cancel) is a record \<open>env\<close>.
\<close>

subsection \<open>Time\<close>

record timeval =
  tv_sec :: int
  tv_usec :: int

record timespec =
  ts_sec :: int
  ts_nsec :: int

definition timerisset :: "timeval \<Rightarrow> bool" where
  "timerisset tv \<longleftrightarrow> tv_sec tv \<noteq> 0 \<or> tv_usec tv \<noteq> 0"

definition tv_less :: "timeval \<Rightarrow> timeval \<Rightarrow> bool" where
  "tv_less a b \<longleftrightarrow> tv_sec a < tv_sec b \<or> tv_sec a = tv_sec b \<and> tv_usec a < tv_usec b"

definition timersub :: "timeval \<Rightarrow> timeval \<Rightarrow> timeval" where
  "timersub a b = (if tv_usec a - tv_usec b < 0
     then \<lparr>tv_sec = tv_sec a - tv_sec b - 1, tv_usec = tv_usec a - tv_usec b + 1000000\<rparr>
     else \<lparr>tv_sec = tv_sec a - tv_sec b, tv_usec = tv_usec a - tv_usec b\<rparr>)"

abbreviation tv_zero :: timeval where "tv_zero \<equiv> \<lparr>tv_sec = 0, tv_usec = 0\<rparr>"

definition TIMESPEC_TO_TIMEVAL :: "timespec \<Rightarrow> timeval" where
  "TIMESPEC_TO_TIMEVAL ts = \<lparr>tv_sec = ts_sec ts, tv_usec = ts_nsec ts div 1000\<rparr>"

subsection \<open>Transfers and contexts\<close>

datatype state_flag = USBI_TRANSFER_IN_FLIGHT | USBI_TRANSFER_CANCELLING | USBI_TRANSFER_DEVICE_DISAPPEARED

datatype timeout_flag = USBI_TRANSFER_OS_HANDLES_TIMEOUT | USBI_TRANSFER_TIMEOUT_HANDLED | USBI_TRANSFER_TIMED_OUT

datatype transfer_flag = LIBUSB_TRANSFER_SHORT_NOT_OK | LIBUSB_TRANSFER_FREE_BUFFER
  | LIBUSB_TRANSFER_FREE_TRANSFER | LIBUSB_TRANSFER_ADD_ZERO_PACKET

datatype transfer_type = LIBUSB_TRANSFER_TYPE_CONTROL | LIBUSB_TRANSFER_TYPE_ISOCHRONOUS
  | LIBUSB_TRANSFER_TYPE_BULK | LIBUSB_TRANSFER_TYPE_INTERRUPT | LIBUSB_TRANSFER_TYPE_BULK_STREAM

text \<open>\<open>struct usbi_transfer\<close>, and the \<open>struct libusb_transfer\<close> that lies behind it in the same block.\<close>

record usbi_transfer =
  it_num_iso_packets :: int
  it_timeout :: timeval
  it_transferred :: int
  it_stream_id :: u32
  it_state_flags :: "state_flag set"
  it_timeout_flags :: "timeout_flag set"
  it_lock :: bool
  tr_dev_handle :: nat
  tr_dev :: nat
  tr_flags :: "transfer_flag set"
  tr_endpoint :: u8
  tr_type :: transfer_type
  tr_timeout :: u32
  tr_status :: libusb_transfer_status
  tr_length :: int
  tr_actual_length :: int
  tr_callback :: "nat option"
  tr_user_data :: nat
  tr_buffer :: "ptr option"

abbreviation LIBUSB_CONTROL_SETUP_SIZE :: int where "LIBUSB_CONTROL_SETUP_SIZE \<equiv> 8"

record io_ctx =
  ic_heap :: heap
  ic_xfers :: "ptr \<Rightarrow> usbi_transfer option"
  ic_flying :: "ptr list"
  ic_flying_lock :: bool
  ic_timerfd :: int
  ic_timer :: "timeval option"
  ic_refs :: "nat \<Rightarrow> int"

record env =
  env_clock :: "int \<times> timespec"
  env_settime :: int
  env_submit :: "ptr \<Rightarrow> int"
  env_cancel :: "ptr \<Rightarrow> int"

definition usbi_using_timerfd :: "io_ctx \<Rightarrow> bool" where
  "usbi_using_timerfd c \<longleftrightarrow> 0 \<le> ic_timerfd c"

subsection \<open>Access and locks\<close>

definition get_x :: "ptr \<Rightarrow> io_ctx \<Rightarrow> usbi_transfer option" where
  "get_x t c = ic_xfers c t"

definition put_x :: "ptr \<Rightarrow> usbi_transfer \<Rightarrow> io_ctx \<Rightarrow> io_ctx" where
  "put_x t x c = c\<lparr>ic_xfers := (ic_xfers c)(t \<mapsto> x)\<rparr>"

definition lock_flying :: "io_ctx \<Rightarrow> io_ctx option" where
  "lock_flying c = (if ic_flying_lock c then None else Some (c\<lparr>ic_flying_lock := True\<rparr>))"

definition unlock_flying :: "io_ctx \<Rightarrow> io_ctx option" where
  "unlock_flying c = (if ic_flying_lock c then Some (c\<lparr>ic_flying_lock := False\<rparr>) else None)"

definition lock_x :: "ptr \<Rightarrow> io_ctx \<Rightarrow> io_ctx option" where
  "lock_x t c = do { x \<leftarrow> get_x t c; if it_lock x then None else Some (put_x t (x\<lparr>it_lock := True\<rparr>) c) }"

definition unlock_x :: "ptr \<Rightarrow> io_ctx \<Rightarrow> io_ctx option" where
  "unlock_x t c = do { x \<leftarrow> get_x t c; if it_lock x then Some (put_x t (x\<lparr>it_lock := False\<rparr>) c) else None }"

text \<open>The references to devices that the transfer engine takes and drops (the reference counts
  themselves are those of Core_Device).\<close>

definition ref_dev :: "nat \<Rightarrow> io_ctx \<Rightarrow> io_ctx" where
  "ref_dev d c = c\<lparr>ic_refs := (ic_refs c)(d := ic_refs c d + 1)\<rparr>"

definition unref_dev :: "nat \<Rightarrow> io_ctx \<Rightarrow> io_ctx" where
  "unref_dev d c = c\<lparr>ic_refs := (ic_refs c)(d := ic_refs c d - 1)\<rparr>"

subsection \<open>calculate\_timeout\<close>

function normalize_ts :: "timespec \<Rightarrow> timespec" where
  "normalize_ts ts = (if 1000000000 \<le> ts_nsec ts
     then normalize_ts \<lparr>ts_sec = ts_sec ts + 1, ts_nsec = ts_nsec ts - 1000000000\<rparr> else ts)"
  by pat_completeness auto
termination
  by (relation "measure (\<lambda>ts. nat (ts_nsec ts))") auto

declare normalize_ts.simps [simp del]

definition calculate_timeout :: "env \<Rightarrow> usbi_transfer \<Rightarrow> int \<times> usbi_transfer" where
  "calculate_timeout e x =
     (let timeout = uint (tr_timeout x) in
      if timeout = 0 then (0, x)
      else (case env_clock e of (r, now) \<Rightarrow>
        if r < 0 then (r, x)
        else (0, x\<lparr>it_timeout := TIMESPEC_TO_TIMEVAL (normalize_ts
          \<lparr>ts_sec = ts_sec now + timeout div 1000,
           ts_nsec = ts_nsec now + (timeout mod 1000) * 1000000\<rparr>)\<rparr>)))"

subsection \<open>Allocation\<close>

definition new_transfer :: "int \<Rightarrow> usbi_transfer" where
  "new_transfer iso_packets = \<lparr>it_num_iso_packets = iso_packets, it_timeout = tv_zero, it_transferred = 0,
     it_stream_id = 0, it_state_flags = {}, it_timeout_flags = {}, it_lock = False, tr_dev_handle = 0,
     tr_dev = 0, tr_flags = {}, tr_endpoint = 0, tr_type = LIBUSB_TRANSFER_TYPE_CONTROL, tr_timeout = 0,
     tr_status = LIBUSB_TRANSFER_COMPLETED, tr_length = 0, tr_actual_length = 0, tr_callback = None,
     tr_user_data = 0, tr_buffer = None\<rparr>"

definition libusb_alloc_transfer :: "int \<Rightarrow> io_ctx \<Rightarrow> ptr option \<times> io_ctx" where
  "libusb_alloc_transfer iso_packets c =
     (case c_malloc (ic_heap c) of
        (None, h) \<Rightarrow> (None, c\<lparr>ic_heap := h\<rparr>)
      | (Some t, h) \<Rightarrow> (Some t, put_x t (new_transfer iso_packets) (c\<lparr>ic_heap := h\<rparr>)))"

definition libusb_free_transfer :: "ptr option \<Rightarrow> io_ctx \<Rightarrow> io_ctx option" where
  "libusb_free_transfer transfer c =
     (case transfer of
        None \<Rightarrow> Some c
      | Some t \<Rightarrow> do {
          x \<leftarrow> get_x t c;
          h1 \<leftarrow> (if LIBUSB_TRANSFER_FREE_BUFFER \<in> tr_flags x \<and> tr_buffer x \<noteq> None
                 then c_free (tr_buffer x) (ic_heap c) else Some (ic_heap c));
          if it_lock x then None
          else do {
            h2 \<leftarrow> c_release t h1;
            Some (c\<lparr>ic_heap := h2, ic_xfers := (ic_xfers c)(t := None)\<rparr>)
          }
        })"

definition libusb_transfer_set_stream_id :: "ptr \<Rightarrow> u32 \<Rightarrow> io_ctx \<Rightarrow> io_ctx option" where
  "libusb_transfer_set_stream_id t stream_id c = do {
     x \<leftarrow> get_x t c; Some (put_x t (x\<lparr>it_stream_id := stream_id\<rparr>) c) }"

definition libusb_transfer_get_stream_id :: "ptr \<Rightarrow> io_ctx \<Rightarrow> u32 option" where
  "libusb_transfer_get_stream_id t c = map_option it_stream_id (get_x t c)"

subsection \<open>The timerfd\<close>

text \<open>\<open>timerfd_settime\<close>: its result, and the armed time when it succeeds.\<close>

definition timerfd_settime :: "env \<Rightarrow> timeval option \<Rightarrow> io_ctx \<Rightarrow> int \<times> io_ctx" where
  "timerfd_settime e tv c = (env_settime e, if env_settime e < 0 then c else c\<lparr>ic_timer := tv\<rparr>)"

definition disarm_timerfd :: "env \<Rightarrow> io_ctx \<Rightarrow> int \<times> io_ctx" where
  "disarm_timerfd e c = (case timerfd_settime e None c of (r, c1) \<Rightarrow>
     if r < 0 then (LIBUSB_ERROR_OTHER, c1) else (0, c1))"

definition timeout_done :: "usbi_transfer \<Rightarrow> bool" where
  "timeout_done x \<longleftrightarrow> it_timeout_flags x \<inter> {USBI_TRANSFER_TIMEOUT_HANDLED, USBI_TRANSFER_OS_HANDLES_TIMEOUT} \<noteq> {}"

primrec arm_loop :: "env \<Rightarrow> ptr list \<Rightarrow> io_ctx \<Rightarrow> (int \<times> io_ctx) option" where
  "arm_loop e [] c = Some (disarm_timerfd e c)"
| "arm_loop e (t # ts) c = do {
     x \<leftarrow> get_x t c;
     if \<not> timerisset (it_timeout x) then Some (disarm_timerfd e c)
     else if \<not> timeout_done x then
       (case timerfd_settime e (Some (it_timeout x)) c of (r, c1) \<Rightarrow>
          if r < 0 then Some (LIBUSB_ERROR_OTHER, c1) else Some (0, c1))
     else arm_loop e ts c
   }"

definition arm_timerfd_for_next_timeout :: "env \<Rightarrow> io_ctx \<Rightarrow> (int \<times> io_ctx) option" where
  "arm_timerfd_for_next_timeout e c = arm_loop e (ic_flying c) c"

subsection \<open>The list of flying transfers\<close>

text \<open>\<open>cur\<close> stays before a new transfer with the given timeout unless it is of infinite timeout or
  times out later.\<close>

definition later :: "timeval \<Rightarrow> timeval \<Rightarrow> bool" where
  "later cur_tv timeout \<longleftrightarrow> \<not> timerisset cur_tv \<or> tv_sec cur_tv > tv_sec timeout \<or>
     tv_sec cur_tv = tv_sec timeout \<and> tv_usec cur_tv > tv_usec timeout"

text \<open>The search loop: the new list and the variable \<open>first\<close>.\<close>

primrec insert_loop :: "io_ctx \<Rightarrow> ptr \<Rightarrow> timeval \<Rightarrow> ptr list \<Rightarrow> bool \<Rightarrow> (ptr list \<times> bool) option" where
  "insert_loop c t timeout [] first = Some ([t], first)"
| "insert_loop c t timeout (cur # ts) first = do {
     y \<leftarrow> get_x cur c;
     if later (it_timeout y) timeout then Some (t # cur # ts, first)
     else do {
       (ts', first') \<leftarrow> insert_loop c t timeout ts False;
       Some (cur # ts', first')
     }
   }"

definition flying_insert :: "io_ctx \<Rightarrow> ptr \<Rightarrow> timeval \<Rightarrow> (ptr list \<times> bool) option" where
  "flying_insert c t timeout =
     (if ic_flying c = [] then Some ([t], True)
      else if \<not> timerisset timeout then Some (ic_flying c @ [t], True)
      else insert_loop c t timeout (ic_flying c) True)"

definition add_to_flying_list :: "env \<Rightarrow> ptr \<Rightarrow> io_ctx \<Rightarrow> (int \<times> io_ctx) option" where
  "add_to_flying_list e t c = do {
     x0 \<leftarrow> get_x t c;
     (case calculate_timeout e x0 of (r, x) \<Rightarrow>
        if r \<noteq> 0 then Some (r, c)
        else do {
          let c1 = put_x t x c;
          (ts, first) \<leftarrow> flying_insert c1 t (it_timeout x);
          let c2 = c1\<lparr>ic_flying := ts\<rparr>;
          let (r1, c3) = (if first \<and> usbi_using_timerfd c2 \<and> timerisset (it_timeout x)
                          then (case timerfd_settime e (Some (it_timeout x)) c2 of (r, c3) \<Rightarrow>
                                  (if r < 0 then LIBUSB_ERROR_OTHER else r, c3))
                          else (0, c2));
          if r1 \<noteq> 0 then Some (r1, c3\<lparr>ic_flying := remove1 t (ic_flying c3)\<rparr>) else Some (r1, c3)
        })
   }"

text \<open>\<open>list_del\<close> of a transfer that is on no list dereferences a NULL link: a fault.\<close>

definition flying_del :: "ptr \<Rightarrow> io_ctx \<Rightarrow> io_ctx option" where
  "flying_del t c = (if t \<in> set (ic_flying c) then Some (c\<lparr>ic_flying := remove1 t (ic_flying c)\<rparr>) else None)"

definition remove_from_flying_list :: "env \<Rightarrow> ptr \<Rightarrow> io_ctx \<Rightarrow> (int \<times> io_ctx) option" where
  "remove_from_flying_list e t c = do {
     c1 \<leftarrow> lock_flying c;
     x \<leftarrow> get_x t c1;
     let rearm_timerfd = (timerisset (it_timeout x) \<and> (case ic_flying c1 of [] \<Rightarrow> False | u # _ \<Rightarrow> u = t));
     c2 \<leftarrow> flying_del t c1;
     (r, c3) \<leftarrow> (if usbi_using_timerfd c2 \<and> rearm_timerfd then arm_timerfd_for_next_timeout e c2
                  else Some (0, c2));
     c4 \<leftarrow> unlock_flying c3;
     Some (r, c4)
   }"

subsection \<open>Submission and cancellation\<close>

text \<open>The part of \<open>libusb_submit_transfer\<close> after the transfer was put on the list.\<close>

definition submit_backend :: "env \<Rightarrow> ptr \<Rightarrow> io_ctx \<Rightarrow> (int \<times> io_ctx) option" where
  "submit_backend e t c = do {
     c1 \<leftarrow> unlock_flying c;
     let r = env_submit e t;
     x \<leftarrow> get_x t c1;
     let c2 = (if r = LIBUSB_SUCCESS
               then ref_dev (tr_dev x)
                 (put_x t (x\<lparr>it_state_flags := insert USBI_TRANSFER_IN_FLIGHT (it_state_flags x)\<rparr>) c1)
               else c1);
     c3 \<leftarrow> unlock_x t c2;
     if r \<noteq> LIBUSB_SUCCESS then do {
       (_, c4) \<leftarrow> remove_from_flying_list e t c3;
       Some (r, c4)
     }
     else Some (r, c3)
   }"

definition libusb_submit_transfer :: "env \<Rightarrow> ptr \<Rightarrow> io_ctx \<Rightarrow> (int \<times> io_ctx) option" where
  "libusb_submit_transfer e t c = do {
     c1 \<leftarrow> lock_flying c;
     c2 \<leftarrow> lock_x t c1;
     x \<leftarrow> get_x t c2;
     if USBI_TRANSFER_IN_FLIGHT \<in> it_state_flags x then do {
       c3 \<leftarrow> unlock_flying c2;
       c4 \<leftarrow> unlock_x t c3;
       Some (LIBUSB_ERROR_BUSY, c4)
     }
     else do {
       let c3 = put_x t (x\<lparr>it_transferred := 0, it_state_flags := {}, it_timeout_flags := {}\<rparr>) c2;
       (r, c4) \<leftarrow> add_to_flying_list e t c3;
       if r \<noteq> 0 then do {
         c5 \<leftarrow> unlock_flying c4;
         c6 \<leftarrow> unlock_x t c5;
         Some (r, c6)
       }
       else submit_backend e t c4
     }
   }"

definition libusb_cancel_transfer :: "env \<Rightarrow> ptr \<Rightarrow> io_ctx \<Rightarrow> (int \<times> io_ctx) option" where
  "libusb_cancel_transfer e t c = do {
     c1 \<leftarrow> lock_x t c;
     x \<leftarrow> get_x t c1;
     if USBI_TRANSFER_IN_FLIGHT \<notin> it_state_flags x \<or> USBI_TRANSFER_CANCELLING \<in> it_state_flags x then do {
       c2 \<leftarrow> unlock_x t c1;
       Some (LIBUSB_ERROR_NOT_FOUND, c2)
     }
     else do {
       let r = env_cancel e t;
       let fl = (if r = LIBUSB_ERROR_NO_DEVICE
                 then insert USBI_TRANSFER_DEVICE_DISAPPEARED (it_state_flags x) else it_state_flags x);
       c2 \<leftarrow> unlock_x t (put_x t (x\<lparr>it_state_flags := insert USBI_TRANSFER_CANCELLING fl\<rparr>) c1);
       Some (r, c2)
     }
   }"

subsection \<open>Completion\<close>

text \<open>
  The user's callback is a parameter: the context after it ran, from the callback's name, the
  transfer and the context before.
\<close>

type_synonym callback = "nat \<Rightarrow> ptr \<Rightarrow> io_ctx \<Rightarrow> io_ctx option"

definition final_status :: "usbi_transfer \<Rightarrow> libusb_transfer_status \<Rightarrow> libusb_transfer_status" where
  "final_status x status =
     (if status = LIBUSB_TRANSFER_COMPLETED \<and> LIBUSB_TRANSFER_SHORT_NOT_OK \<in> tr_flags x then
        (let rqlen = (if tr_type x = LIBUSB_TRANSFER_TYPE_CONTROL
                      then tr_length x - LIBUSB_CONTROL_SETUP_SIZE else tr_length x)
         in if rqlen \<noteq> it_transferred x then LIBUSB_TRANSFER_ERROR else status)
      else status)"

definition usbi_handle_transfer_completion ::
  "callback \<Rightarrow> env \<Rightarrow> ptr \<Rightarrow> libusb_transfer_status \<Rightarrow> io_ctx \<Rightarrow> (int \<times> io_ctx) option" where
  "usbi_handle_transfer_completion cb e t status c = do {
     x0 \<leftarrow> get_x t c;
     (r, c1) \<leftarrow> remove_from_flying_list e t c;
     c2 \<leftarrow> lock_x t c1;
     x \<leftarrow> get_x t c2;
     c3 \<leftarrow> unlock_x t (put_x t (x\<lparr>it_state_flags := it_state_flags x - {USBI_TRANSFER_IN_FLIGHT}\<rparr>) c2);
     x1 \<leftarrow> get_x t c3;
     let x2 = x1\<lparr>tr_status := final_status x1 status, tr_actual_length := it_transferred x1\<rparr>;
     let c4 = put_x t x2 c3;
     c5 \<leftarrow> (case tr_callback x2 of None \<Rightarrow> Some c4 | Some f \<Rightarrow> cb f t c4);
     c6 \<leftarrow> (if LIBUSB_TRANSFER_FREE_TRANSFER \<in> tr_flags x2 then libusb_free_transfer (Some t) c5 else Some c5);
     Some (r, unref_dev (tr_dev x0) c6)
   }"

definition usbi_handle_transfer_cancellation ::
  "callback \<Rightarrow> env \<Rightarrow> ptr \<Rightarrow> io_ctx \<Rightarrow> (int \<times> io_ctx) option" where
  "usbi_handle_transfer_cancellation cb e t c = do {
     c1 \<leftarrow> lock_flying c;
     x \<leftarrow> get_x t c1;
     c2 \<leftarrow> unlock_flying c1;
     if USBI_TRANSFER_TIMED_OUT \<in> it_timeout_flags x
     then usbi_handle_transfer_completion cb e t LIBUSB_TRANSFER_TIMED_OUT c2
     else usbi_handle_transfer_completion cb e t LIBUSB_TRANSFER_CANCELLED c2
   }"

subsection \<open>Timeouts\<close>

definition handle_timeout :: "env \<Rightarrow> ptr \<Rightarrow> io_ctx \<Rightarrow> io_ctx option" where
  "handle_timeout e t c = do {
     x \<leftarrow> get_x t c;
     (r, c1) \<leftarrow> libusb_cancel_transfer e t
        (put_x t (x\<lparr>it_timeout_flags := insert USBI_TRANSFER_TIMEOUT_HANDLED (it_timeout_flags x)\<rparr>) c);
     x1 \<leftarrow> get_x t c1;
     Some (if r = LIBUSB_SUCCESS
           then put_x t (x1\<lparr>it_timeout_flags := insert USBI_TRANSFER_TIMED_OUT (it_timeout_flags x1)\<rparr>) c1
           else c1)
   }"

primrec timeouts_loop :: "env \<Rightarrow> timeval \<Rightarrow> ptr list \<Rightarrow> io_ctx \<Rightarrow> io_ctx option" where
  "timeouts_loop e systime [] c = Some c"
| "timeouts_loop e systime (t # ts) c = do {
     x \<leftarrow> get_x t c;
     if \<not> timerisset (it_timeout x) then Some c
     else if timeout_done x then timeouts_loop e systime ts c
     else if tv_less systime (it_timeout x) then Some c
     else do {
       c1 \<leftarrow> handle_timeout e t c;
       timeouts_loop e systime ts c1
     }
   }"

definition handle_timeouts_locked :: "env \<Rightarrow> io_ctx \<Rightarrow> (int \<times> io_ctx) option" where
  "handle_timeouts_locked e c =
     (if ic_flying c = [] then Some (0, c)
      else (case env_clock e of (r, systime_ts) \<Rightarrow>
        if r < 0 then Some (r, c)
        else do {
          c1 \<leftarrow> timeouts_loop e (TIMESPEC_TO_TIMEVAL systime_ts) (ic_flying c) c;
          Some (0, c1)
        }))"

definition handle_timeouts :: "env \<Rightarrow> io_ctx \<Rightarrow> (int \<times> io_ctx) option" where
  "handle_timeouts e c = do {
     c1 \<leftarrow> lock_flying c;
     (r, c2) \<leftarrow> handle_timeouts_locked e c1;
     c3 \<leftarrow> unlock_flying c2;
     Some (r, c3)
   }"

definition handle_timerfd_trigger :: "env \<Rightarrow> io_ctx \<Rightarrow> (int \<times> io_ctx) option" where
  "handle_timerfd_trigger e c = do {
     c1 \<leftarrow> lock_flying c;
     (r, c2) \<leftarrow> handle_timeouts_locked e c1;
     (r', c3) \<leftarrow> (if r < 0 then Some (r, c2) else arm_timerfd_for_next_timeout e c2);
     c4 \<leftarrow> unlock_flying c3;
     Some (r', c4)
   }"

text \<open>The search for the next timeout that is not done yet.\<close>

primrec next_timeout_loop :: "ptr list \<Rightarrow> io_ctx \<Rightarrow> timeval option" where
  "next_timeout_loop [] c = Some tv_zero"
| "next_timeout_loop (t # ts) c = do {
     x \<leftarrow> get_x t c;
     if timeout_done x then next_timeout_loop ts c
     else if \<not> timerisset (it_timeout x) then Some tv_zero
     else Some (it_timeout x)
   }"

text \<open>The result, and what is stored in \<open>tv\<close> if anything is.\<close>

definition libusb_get_next_timeout :: "env \<Rightarrow> io_ctx \<Rightarrow> (int \<times> timeval option \<times> io_ctx) option" where
  "libusb_get_next_timeout e c =
     (if usbi_using_timerfd c then Some (0, None, c)
      else do {
        c1 \<leftarrow> lock_flying c;
        if ic_flying c1 = [] then do { c2 \<leftarrow> unlock_flying c1; Some (0, None, c2) }
        else do {
          next_timeout \<leftarrow> next_timeout_loop (ic_flying c1) c1;
          c2 \<leftarrow> unlock_flying c1;
          if \<not> timerisset next_timeout then Some (0, None, c2)
          else (case env_clock e of (r, cur_ts) \<Rightarrow>
            if r < 0 then Some (0, None, c2)
            else
              (let cur_tv = TIMESPEC_TO_TIMEVAL cur_ts in
               if \<not> tv_less cur_tv next_timeout then Some (1, Some tv_zero, c2)
               else Some (1, Some (timersub next_timeout cur_tv), c2)))
        }
      })"

definition get_next_timeout :: "env \<Rightarrow> timeval \<Rightarrow> io_ctx \<Rightarrow> (int \<times> timeval \<times> io_ctx) option" where
  "get_next_timeout e tv c = do {
     (r, out, c1) \<leftarrow> libusb_get_next_timeout e c;
     (case out of
        Some timeout \<Rightarrow>
          if r \<noteq> 0 then
            if \<not> timerisset timeout then Some (1, tv, c1)
            else if tv_less timeout tv then Some (0, timeout, c1)
            else Some (0, tv, c1)
          else Some (0, tv, c1)
      | None \<Rightarrow> Some (0, tv, c1))
   }"

subsection \<open>Disconnection\<close>

primrec disconnect_search :: "nat \<Rightarrow> ptr list \<Rightarrow> io_ctx \<Rightarrow> (ptr option \<times> io_ctx) option" where
  "disconnect_search dh [] c = Some (None, c)"
| "disconnect_search dh (t # ts) c = do {
     x \<leftarrow> get_x t c;
     if tr_dev_handle x = dh then do {
       c1 \<leftarrow> lock_x t c;
       x1 \<leftarrow> get_x t c1;
       c2 \<leftarrow> unlock_x t c1;
       if USBI_TRANSFER_IN_FLIGHT \<in> it_state_flags x1 then Some (Some t, c2) else disconnect_search dh ts c2
     }
     else disconnect_search dh ts c
   }"

text \<open>\<open>while (1)\<close>, with a bound on its rounds: \<open>None\<close> when the bound is too small. The backend's
  \<open>clear_transfer_priv\<close> touches only the backend's data.\<close>

primrec disconnect_loop :: "callback \<Rightarrow> env \<Rightarrow> nat \<Rightarrow> nat \<Rightarrow> io_ctx \<Rightarrow> io_ctx option" where
  "disconnect_loop cb e dh 0 c = None"
| "disconnect_loop cb e dh (Suc n) c = do {
     c1 \<leftarrow> lock_flying c;
     (to_cancel, c2) \<leftarrow> disconnect_search dh (ic_flying c1) c1;
     c3 \<leftarrow> unlock_flying c2;
     (case to_cancel of
        None \<Rightarrow> Some c3
      | Some t \<Rightarrow> do {
          c4 \<leftarrow> lock_x t c3;
          c5 \<leftarrow> unlock_x t c4;
          (_, c6) \<leftarrow> usbi_handle_transfer_completion cb e t LIBUSB_TRANSFER_NO_DEVICE c5;
          disconnect_loop cb e dh n c6
        })
   }"

definition usbi_handle_disconnect :: "callback \<Rightarrow> env \<Rightarrow> nat \<Rightarrow> nat \<Rightarrow> io_ctx \<Rightarrow> io_ctx option" where
  "usbi_handle_disconnect cb e fuel dev_handle c = disconnect_loop cb e dev_handle fuel c"

end
