(* ===== verification/Transfer_Invariants.thy ===== *)
theory Transfer_Invariants
  imports Transfers
begin

text \<open>
  The invariant of the transfer engine between two calls (\<open>io_wf\<close>: no lock held, a transfer is on the
  flying list iff it is in flight, the list is sorted by timeout) and what each operation does
  to it. The effect of every operation is given by an equation or an elimination rule.
\<close>

subsection \<open>Access\<close>

lemma get_put [simp]: "get_x u (put_x t x c) = (if u = t then Some x else get_x u c)"
  by (simp add: get_x_def put_x_def)

lemma put_x_fields [simp]:
  "ic_flying (put_x t x c) = ic_flying c" "ic_flying_lock (put_x t x c) = ic_flying_lock c"
  "ic_timerfd (put_x t x c) = ic_timerfd c" "ic_timer (put_x t x c) = ic_timer c"
  "ic_refs (put_x t x c) = ic_refs c" "ic_heap (put_x t x c) = ic_heap c"
  by (simp_all add: put_x_def)

lemma get_x_update [simp]:
  "get_x t (c\<lparr>ic_flying := ts\<rparr>) = get_x t c" "get_x t (c\<lparr>ic_flying_lock := b\<rparr>) = get_x t c"
  "get_x t (c\<lparr>ic_timer := tm\<rparr>) = get_x t c" "get_x t (c\<lparr>ic_refs := rf\<rparr>) = get_x t c"
  by (simp_all add: get_x_def)

lemma put_put [simp]: "put_x t x (put_x t y c) = put_x t x c"
  by (simp add: put_x_def)

lemma put_get: "get_x t c = Some x \<Longrightarrow> put_x t x c = c"
  by (simp add: put_x_def get_x_def fun_upd_idem)

lemma put_swap:
  "put_x t x (c\<lparr>ic_flying := ts\<rparr>) = (put_x t x c)\<lparr>ic_flying := ts\<rparr>"
  "put_x t x (c\<lparr>ic_flying_lock := b\<rparr>) = (put_x t x c)\<lparr>ic_flying_lock := b\<rparr>"
  "put_x t x (c\<lparr>ic_timer := tm\<rparr>) = (put_x t x c)\<lparr>ic_timer := tm\<rparr>"
  "put_x t x (c\<lparr>ic_refs := rf\<rparr>) = (put_x t x c)\<lparr>ic_refs := rf\<rparr>"
  by (simp_all add: put_x_def)

lemma lock_flying_free [lock_laws]: "\<not> ic_flying_lock c \<Longrightarrow> lock_flying c = Some (c\<lparr>ic_flying_lock := True\<rparr>)"
  by (simp add: lock_flying_def)

lemma unlock_flying_held [lock_laws]: "ic_flying_lock c \<Longrightarrow> unlock_flying c = Some (c\<lparr>ic_flying_lock := False\<rparr>)"
  by (simp add: unlock_flying_def)

lemma lock_x_free [lock_laws]:
  "get_x t c = Some x \<Longrightarrow> \<not> it_lock x \<Longrightarrow> lock_x t c = Some (put_x t (x\<lparr>it_lock := True\<rparr>) c)"
  by (simp add: lock_x_def)

lemma unlock_x_held [lock_laws]:
  "get_x t c = Some x \<Longrightarrow> it_lock x \<Longrightarrow> unlock_x t c = Some (put_x t (x\<lparr>it_lock := False\<rparr>) c)"
  by (simp add: unlock_x_def)

lemma unlock_free [simp]: "\<not> ic_flying_lock c \<Longrightarrow> c\<lparr>ic_flying_lock := False\<rparr> = c"
  by simp

lemma x_unlock_free [simp]: "\<not> it_lock x \<Longrightarrow> x\<lparr>it_lock := False\<rparr> = x"
  by simp

subsection \<open>The order of timeouts\<close>

text \<open>The list order: a finite timeout before a later one, and everything before an infinite one.\<close>

definition tv_before :: "timeval \<Rightarrow> timeval \<Rightarrow> bool" where
  "tv_before a b \<longleftrightarrow> \<not> timerisset b \<or> timerisset a \<and> \<not> tv_less b a"

lemma tv_before_trans: "tv_before a b \<Longrightarrow> tv_before b d \<Longrightarrow> tv_before a d"
  by (auto simp: tv_before_def tv_less_def)

lemma not_later: "timerisset tm \<Longrightarrow> \<not> later a tm \<longleftrightarrow> tv_before a tm"
  by (auto simp: later_def tv_before_def tv_less_def)

lemma later_before: "timerisset tm \<Longrightarrow> later a tm \<Longrightarrow> tv_before tm a"
  by (auto simp: later_def tv_before_def tv_less_def)

definition timeout_of :: "io_ctx \<Rightarrow> ptr \<Rightarrow> timeval" where
  "timeout_of c t = (case get_x t c of Some x \<Rightarrow> it_timeout x | None \<Rightarrow> tv_zero)"

definition tv_sorted :: "io_ctx \<Rightarrow> ptr list \<Rightarrow> bool" where
  "tv_sorted c ts \<longleftrightarrow> sorted_wrt (\<lambda>a b. tv_before (timeout_of c a) (timeout_of c b)) ts"

lemma tv_sorted_Cons: "tv_sorted c (t # ts) \<longleftrightarrow> (\<forall>u \<in> set ts. tv_before (timeout_of c t) (timeout_of c u)) \<and> tv_sorted c ts"
  by (simp add: tv_sorted_def)

lemma tv_sorted_Nil [simp]: "tv_sorted c []"
  by (simp add: tv_sorted_def)

lemma tv_sorted_cong:
  "(\<And>t. t \<in> set ts \<Longrightarrow> timeout_of c' t = timeout_of c t) \<Longrightarrow> tv_sorted c' ts \<longleftrightarrow> tv_sorted c ts"
  by (induction ts) (auto simp: tv_sorted_Cons)

lemma tv_sorted_remove1: "tv_sorted c ts \<Longrightarrow> tv_sorted c (remove1 t ts)"
  by (induction ts) (auto simp: tv_sorted_Cons dest: set_remove1_subset [THEN subsetD])

lemma insert_loop_correct:
  assumes "\<forall>u \<in> set ts. get_x u c \<noteq> None" and "timerisset tm"
  shows "\<exists>pre post first'. insert_loop c t tm ts first = Some (pre @ t # post, first') \<and> ts = pre @ post \<and>
    (\<forall>u \<in> set pre. \<not> later (timeout_of c u) tm) \<and>
    (case post of [] \<Rightarrow> True | u # _ \<Rightarrow> later (timeout_of c u) tm) \<and> (first' \<longleftrightarrow> first \<and> pre = [])"
  using assms
proof (induction ts arbitrary: first)
  case Nil
  then show ?case by simp
next
  case (Cons u ts)
  then obtain y where y: "get_x u c = Some y" by auto
  show ?case
  proof (cases "later (it_timeout y) tm")
    case True
    with y show ?thesis 
      by (intro exI [of _ "[]"] exI [of _ "u # ts"] exI [of _ first]) (simp add: timeout_of_def)
  next
    case False
    from Cons.IH [of False] Cons.prems obtain pre post f where
      "insert_loop c t tm ts False = Some (pre @ t # post, f)" "ts = pre @ post"
      "\<forall>u \<in> set pre. \<not> later (timeout_of c u) tm" "case post of [] \<Rightarrow> True | u # _ \<Rightarrow> later (timeout_of c u) tm"
      "\<not> f" by auto
    with False y show ?thesis 
      by (intro exI [of _ "u # pre"] exI [of _ post] exI [of _ False]) (auto simp: timeout_of_def)
  qed
qed

lemma tv_sorted_insert:
  assumes "tv_sorted c (pre @ post)" and "timerisset (timeout_of c t)"
    and "\<forall>u \<in> set pre. \<not> later (timeout_of c u) (timeout_of c t)"
    and "case post of [] \<Rightarrow> True | u # _ \<Rightarrow> later (timeout_of c u) (timeout_of c t)"
  shows "tv_sorted c (pre @ t # post)"
proof -
  have "tv_before (timeout_of c t) (timeout_of c v)" if "v \<in> set post" for v
  proof (cases post)
    case Nil
    with that show ?thesis by simp
  next
    case (Cons u us)
    then have "tv_before (timeout_of c t) (timeout_of c u)" using assms(2,4) later_before by simp
    moreover have "v = u \<or> tv_before (timeout_of c u) (timeout_of c v)"
      using assms(1) Cons that by (auto simp: tv_sorted_def sorted_wrt_append)
    ultimately show ?thesis using tv_before_trans by blast
  qed
  moreover have "\<forall>u \<in> set pre. tv_before (timeout_of c u) (timeout_of c t)"
    using assms(2,3) not_later by blast
  ultimately show ?thesis using assms(1) by (auto simp: tv_sorted_def sorted_wrt_append)
qed

lemma flying_insert_correct:
  assumes "\<forall>u \<in> set (ic_flying c). get_x u c \<noteq> None" and "tv_sorted c (ic_flying c)"
    and "timeout_of c t = tm" and "t \<notin> set (ic_flying c)" and "distinct (ic_flying c)"
  shows "\<exists>ts first. flying_insert c t tm = Some (ts, first) \<and> set ts = insert t (set (ic_flying c)) \<and>
    distinct ts \<and> tv_sorted c ts \<and> remove1 t ts = ic_flying c"
proof -
  consider "ic_flying c = []" | "ic_flying c \<noteq> []" "\<not> timerisset tm" | "ic_flying c \<noteq> []" "timerisset tm" by blast
  then show ?thesis
  proof cases
    case 1
    then show ?thesis by (simp add: flying_insert_def tv_sorted_def exI [of _ True])
  next
    case 2
    moreover have "tv_sorted c (ic_flying c @ [t])"
      using assms(2,3) 2(2) by (auto simp: tv_sorted_def sorted_wrt_append tv_before_def)
    ultimately show ?thesis using assms(4,5)
      by (simp add: flying_insert_def remove1_append exI [of _ True])
  next
    case 3
    from insert_loop_correct [OF assms(1) 3(2), of t True] obtain pre post f where
      i: "insert_loop c t tm (ic_flying c) True = Some (pre @ t # post, f)" and fl: "ic_flying c = pre @ post"
      and o: "\<forall>u \<in> set pre. \<not> later (timeout_of c u) tm" "case post of [] \<Rightarrow> True | u # _ \<Rightarrow> later (timeout_of c u) tm"
      by auto
    have "tv_sorted c (pre @ t # post)" 
      by (rule tv_sorted_insert) (use o assms(2,3) fl 3(2) in \<open>auto split: list.splits\<close>)
    with 3 i fl assms(4,5) show ?thesis by (auto simp: flying_insert_def remove1_append)
  qed
qed

subsection \<open>The invariant\<close>

definition in_flight :: "io_ctx \<Rightarrow> ptr \<Rightarrow> bool" where
  "in_flight c t \<longleftrightarrow> (case get_x t c of Some x \<Rightarrow> USBI_TRANSFER_IN_FLIGHT \<in> it_state_flags x | None \<Rightarrow> False)"

definition quiescent :: "io_ctx \<Rightarrow> bool" where
  "quiescent c \<longleftrightarrow> \<not> ic_flying_lock c \<and> (\<forall>t x. get_x t c = Some x \<longrightarrow> \<not> it_lock x)"

definition flying_wf :: "io_ctx \<Rightarrow> bool" where
  "flying_wf c \<longleftrightarrow> distinct (ic_flying c) \<and> (\<forall>t \<in> set (ic_flying c). get_x t c \<noteq> None) \<and> tv_sorted c (ic_flying c)"

definition io_wf :: "io_ctx \<Rightarrow> bool" where
  "io_wf c \<longleftrightarrow> quiescent c \<and> flying_wf c \<and> (\<forall>t. in_flight c t \<longleftrightarrow> t \<in> set (ic_flying c))"

lemma io_wfD:
  assumes "io_wf c"
  shows "\<not> ic_flying_lock c" and "get_x t c = Some x \<Longrightarrow> \<not> it_lock x" and "flying_wf c"
    and "in_flight c t \<longleftrightarrow> t \<in> set (ic_flying c)"
  using assms by (auto simp: io_wf_def quiescent_def)

lemma timeout_of_put [simp]:
  "timeout_of (put_x t x c) u = (if u = t then it_timeout x else timeout_of c u)"
  by (simp add: timeout_of_def)

lemma timeout_of_update [simp]:
  "timeout_of (c\<lparr>ic_flying := ts\<rparr>) = timeout_of c" "timeout_of (c\<lparr>ic_flying_lock := b\<rparr>) = timeout_of c"
  "timeout_of (c\<lparr>ic_timer := tm\<rparr>) = timeout_of c" "timeout_of (c\<lparr>ic_refs := rf\<rparr>) = timeout_of c"
  by (simp_all add: timeout_of_def fun_eq_iff)

lemma in_flight_put [simp]:
  "in_flight (put_x t x c) u \<longleftrightarrow> (if u = t then USBI_TRANSFER_IN_FLIGHT \<in> it_state_flags x else in_flight c u)"
  by (simp add: in_flight_def)

lemma in_flight_update [simp]:
  "in_flight (c\<lparr>ic_flying := ts\<rparr>) = in_flight c" "in_flight (c\<lparr>ic_flying_lock := b\<rparr>) = in_flight c"
  "in_flight (c\<lparr>ic_timer := tm\<rparr>) = in_flight c" "in_flight (c\<lparr>ic_refs := rf\<rparr>) = in_flight c"
  by (simp_all add: in_flight_def fun_eq_iff)

lemma tv_sorted_put_notin [simp]: "t \<notin> set ts \<Longrightarrow> tv_sorted (put_x t x c) ts \<longleftrightarrow> tv_sorted c ts"
  by (rule tv_sorted_cong) auto

lemma tv_sorted_put_timeout: "it_timeout x = it_timeout y \<Longrightarrow> tv_sorted (put_x t x c) ts \<longleftrightarrow> tv_sorted (put_x t y c) ts"
  by (rule tv_sorted_cong) auto

lemma tv_sorted_put_same:
  assumes "get_x t c = Some x" and "it_timeout y = it_timeout x"
  shows "tv_sorted (put_x t y c) ts \<longleftrightarrow> tv_sorted c ts"
  by (rule tv_sorted_cong) (use assms in \<open>auto simp: timeout_of_def\<close>)

lemma tv_sorted_update [simp]:
  "tv_sorted (c\<lparr>ic_flying := us\<rparr>) ts = tv_sorted c ts" "tv_sorted (c\<lparr>ic_flying_lock := b\<rparr>) ts = tv_sorted c ts"
  "tv_sorted (c\<lparr>ic_timer := tm\<rparr>) ts = tv_sorted c ts" "tv_sorted (c\<lparr>ic_refs := rf\<rparr>) ts = tv_sorted c ts"
  by (simp_all add: tv_sorted_def)

text \<open>What changes nothing but the timer.\<close>

definition timer_step :: "io_ctx \<Rightarrow> io_ctx \<Rightarrow> bool" where
  "timer_step c c' \<longleftrightarrow> (\<exists>tm. c' = c\<lparr>ic_timer := tm\<rparr>)"

lemma timer_step_refl [simp]: "timer_step c c"
  unfolding timer_step_def by (rule exI [of _ "ic_timer c"]) simp

lemma timer_step_settime: "timerfd_settime e tv c = (r, c') \<Longrightarrow> timer_step c c'"
  by (auto simp: timerfd_settime_def timer_step_def split: if_splits intro: exI [of _ "ic_timer c"])

lemma timer_step_disarm: "disarm_timerfd e c = (r, c') \<Longrightarrow> timer_step c c'"
  by (auto simp: disarm_timerfd_def timerfd_settime_def timer_step_def split: if_splits
      intro: exI [of _ "ic_timer c"])

lemma arm_loop_total:
  "\<forall>t \<in> set ts. get_x t c \<noteq> None \<Longrightarrow> \<exists>r c'. arm_loop e ts c = Some (r, c') \<and> timer_step c c'"
proof (induction ts)
  case Nil
  then show ?case by (cases "disarm_timerfd e c") (auto dest: timer_step_disarm)
next
  case (Cons t ts)
  then obtain x where x: "get_x t c = Some x" by auto
  show ?case
  proof (cases "timerisset (it_timeout x) \<and> timeout_done x")
    case True
    with Cons x show ?thesis by auto
  next
    case False
    with x show ?thesis
      by (cases "disarm_timerfd e c"; cases "timerfd_settime e (Some (it_timeout x)) c")
        (auto dest: timer_step_disarm timer_step_settime)
  qed
qed

text \<open>\<open>remove_from_flying_list\<close> always takes the transfer off the list.\<close>

lemma remove_from_flying_list_eq:
  assumes "\<not> ic_flying_lock c" and "flying_wf c" and "t \<in> set (ic_flying c)"
  shows "\<exists>r tm. remove_from_flying_list e t c =
    Some (r, c\<lparr>ic_flying := remove1 t (ic_flying c), ic_timer := tm\<rparr>)"
proof -
  from assms obtain x where x: "get_x t c = Some x" by (auto simp: flying_wf_def)
  let ?c1 = "c\<lparr>ic_flying_lock := True\<rparr>" and ?c2 = "c\<lparr>ic_flying_lock := True, ic_flying := remove1 t (ic_flying c)\<rparr>"
  let ?cond = "usbi_using_timerfd ?c2 \<and> timerisset (it_timeout x) \<and>
    (case ic_flying c of [] \<Rightarrow> False | u # _ \<Rightarrow> u = t)"
  have "\<forall>u \<in> set (ic_flying ?c2). get_x u ?c2 \<noteq> None"
    using assms(2) by (auto simp: flying_wf_def dest: set_remove1_subset [THEN subsetD])
  from arm_loop_total [OF this, of e] obtain r c3 where
    arm: "arm_timerfd_for_next_timeout e ?c2 = Some (r, c3)" "timer_step ?c2 c3"
    by (auto simp: arm_timerfd_for_next_timeout_def)
  obtain r' c4 where c4: "(if ?cond then arm_timerfd_for_next_timeout e ?c2 else Some (0, ?c2)) = Some (r', c4)"
    "timer_step ?c2 c4" using arm by (cases ?cond) auto
  then obtain tm where "c4 = ?c2\<lparr>ic_timer := tm\<rparr>" by (auto simp: timer_step_def)
  with c4 assms x show ?thesis
    by (auto simp: remove_from_flying_list_def flying_del_def lock_flying_def unlock_flying_def Let_def
        intro!: exI [of _ tm])
qed

subsection \<open>Submission\<close>

lemma calculate_timeout_timeout:
  "calculate_timeout e x = (r, y) \<Longrightarrow> \<exists>tv. y = x\<lparr>it_timeout := tv\<rparr>"
  by (auto simp: calculate_timeout_def Let_def split: if_splits prod.splits intro: exI [of _ "it_timeout x"])

lemma add_to_flying_list_cases:
  assumes wf: "flying_wf c" and x: "get_x t c = Some x" and nin: "t \<notin> set (ic_flying c)"
  obtains (fail) r tv tm where "r \<noteq> 0"
      "add_to_flying_list e t c = Some (r, (put_x t (x\<lparr>it_timeout := tv\<rparr>) c)\<lparr>ic_timer := tm\<rparr>)"
  | (ok) tv tm ts where "set ts = insert t (set (ic_flying c))" "distinct ts" "remove1 t ts = ic_flying c"
      "tv_sorted (put_x t (x\<lparr>it_timeout := tv\<rparr>) c) ts"
      "add_to_flying_list e t c = Some (0, (put_x t (x\<lparr>it_timeout := tv\<rparr>) c)\<lparr>ic_flying := ts, ic_timer := tm\<rparr>)"
proof -
  obtain r y where ct: "calculate_timeout e x = (r, y)" by fastforce
  then obtain tv where y: "y = x\<lparr>it_timeout := tv\<rparr>" using calculate_timeout_timeout by blast
  show thesis
  proof (cases "r = 0")
    case False
    have "(put_x t (x\<lparr>it_timeout := it_timeout x\<rparr>) c)\<lparr>ic_timer := ic_timer c\<rparr> = c" using put_get [OF x] by simp
    with False ct x show thesis
      by (intro fail [where tv = "it_timeout x" and tm = "ic_timer c"]) (simp_all add: add_to_flying_list_def)
  next
    case True
    let ?c1 = "put_x t y c"
    have fl: "\<forall>u \<in> set (ic_flying ?c1). get_x u ?c1 \<noteq> None" "distinct (ic_flying ?c1)" "t \<notin> set (ic_flying ?c1)"
      using wf nin by (auto simp: flying_wf_def)
    have "tv_sorted ?c1 (ic_flying c) \<longleftrightarrow> tv_sorted c (ic_flying c)"
      by (rule tv_sorted_cong) (use nin in auto)
    then have "tv_sorted ?c1 (ic_flying ?c1)" using wf by (simp add: flying_wf_def)
    moreover have "timeout_of ?c1 t = it_timeout y" by simp
    ultimately obtain ts first where ins: "flying_insert ?c1 t (it_timeout y) = Some (ts, first)"
      "set ts = insert t (set (ic_flying c))" "distinct ts" "tv_sorted ?c1 ts" "remove1 t ts = ic_flying c"
      using flying_insert_correct [OF fl(1) _ _ fl(3,2)] by auto
    let ?c2 = "?c1\<lparr>ic_flying := ts\<rparr>" and ?arm = "first \<and> usbi_using_timerfd (?c1\<lparr>ic_flying := ts\<rparr>) \<and> timerisset (it_timeout y)"
    obtain r1 c3 where rc: "(if ?arm then (case timerfd_settime e (Some (it_timeout y)) ?c2 of (r, c3) \<Rightarrow>
        (if r < 0 then LIBUSB_ERROR_OTHER else r, c3)) else (0, ?c2)) = (r1, c3)" by fastforce
    then have "timer_step ?c2 c3"
      by (cases ?arm) (auto simp: timer_step_settime split: prod.splits)
    then obtain tm where c3: "c3 = ?c2\<lparr>ic_timer := tm\<rparr>" by (auto simp: timer_step_def)
    have add: "add_to_flying_list e t c =
        (if r1 \<noteq> 0 then Some (r1, c3\<lparr>ic_flying := remove1 t (ic_flying c3)\<rparr>) else Some (r1, c3))"
      using x ct True ins(1) rc by (simp add: add_to_flying_list_def Let_def)
    have c3': "c3\<lparr>ic_flying := remove1 t (ic_flying c3)\<rparr> = ?c1\<lparr>ic_timer := tm\<rparr>"
      using c3 ins(5) by (simp add: put_x_def)
    show thesis
    proof (cases "r1 = 0")
      case True
      show thesis by (rule ok [OF ins(2,3,5)]) (use ins(4) add True c3 y in simp_all)
    next
      case False
      show thesis by (rule fail [OF False]) (use add False c3' y in simp)
    qed
  qed
qed

text \<open>A context in which only the transfer \<open>t\<close>, the list, the timer and the references differ.\<close>

definition io_upd :: "ptr \<Rightarrow> usbi_transfer \<Rightarrow> ptr list \<Rightarrow> timeval option \<Rightarrow> (nat \<Rightarrow> int) \<Rightarrow> io_ctx \<Rightarrow> io_ctx" where
  "io_upd t y ts tm rf c = (put_x t y c)\<lparr>ic_flying := ts, ic_timer := tm, ic_refs := rf\<rparr>"

lemma io_upd_simps [simp]:
  "ic_flying (io_upd t y ts tm rf c) = ts" "ic_timer (io_upd t y ts tm rf c) = tm"
  "ic_refs (io_upd t y ts tm rf c) = rf" "ic_flying_lock (io_upd t y ts tm rf c) = ic_flying_lock c"
  "ic_heap (io_upd t y ts tm rf c) = ic_heap c" "ic_timerfd (io_upd t y ts tm rf c) = ic_timerfd c"
  "get_x u (io_upd t y ts tm rf c) = (if u = t then Some y else get_x u c)"
  "in_flight (io_upd t y ts tm rf c) u \<longleftrightarrow> (if u = t then USBI_TRANSFER_IN_FLIGHT \<in> it_state_flags y else in_flight c u)"
  "timeout_of (io_upd t y ts tm rf c) u = (if u = t then it_timeout y else timeout_of c u)"
  by (simp_all add: io_upd_def)

lemma io_wf_upd:
  assumes "io_wf c" and "\<not> it_lock y" and "distinct ts"
    and "set ts = (if USBI_TRANSFER_IN_FLIGHT \<in> it_state_flags y then insert t (set (ic_flying c)) else set (ic_flying c) - {t})"
    and "tv_sorted (put_x t y c) ts"
  shows "io_wf (io_upd t y ts tm rf c)"
proof -
  have "tv_sorted (io_upd t y ts tm rf c) ts \<longleftrightarrow> tv_sorted (put_x t y c) ts" by (rule tv_sorted_cong) simp
  with assms show ?thesis
    by (auto simp: io_wf_def quiescent_def flying_wf_def split: if_splits)
qed

lemma io_wf_upd_same:
  assumes wf: "io_wf c" and "\<not> it_lock y" and "USBI_TRANSFER_IN_FLIGHT \<notin> it_state_flags y"
  shows "io_wf (io_upd t y (remove1 t (ic_flying c)) tm rf c)"
proof (rule io_wf_upd [OF wf assms(2)])
  have d: "distinct (ic_flying c)" "tv_sorted c (ic_flying c)" using io_wfD(3) [OF wf] by (auto simp: flying_wf_def)
  then show "distinct (remove1 t (ic_flying c))" by simp
  show "set (remove1 t (ic_flying c)) = (if USBI_TRANSFER_IN_FLIGHT \<in> it_state_flags y
      then insert t (set (ic_flying c)) else set (ic_flying c) - {t})"
    using d(1) assms(3) by (simp add: set_remove1_eq)
  have "tv_sorted (put_x t y c) (remove1 t (ic_flying c)) \<longleftrightarrow> tv_sorted c (remove1 t (ic_flying c))"
    by (rule tv_sorted_cong) (use d(1) in auto)
  then show "tv_sorted (put_x t y c) (remove1 t (ic_flying c))" using tv_sorted_remove1 [OF d(2)] by blast
qed

text \<open>
  The effect of a submission: the transfers other than \<open>t\<close> are untouched; \<open>t\<close> is on the list and
  in flight, and its device referenced once more, iff the result is 0.
\<close>

definition submit_effect :: "io_ctx \<Rightarrow> ptr \<Rightarrow> int \<Rightarrow> io_ctx \<Rightarrow> bool" where
  "submit_effect c t r c' \<longleftrightarrow> io_wf c' \<and> (\<forall>u. u \<noteq> t \<longrightarrow> get_x u c' = get_x u c) \<and> ic_heap c' = ic_heap c \<and>
     (case get_x t c of None \<Rightarrow> False | Some x \<Rightarrow>
       (\<exists>fl tv. get_x t c' = Some (x\<lparr>it_transferred := 0, it_state_flags := fl, it_timeout_flags := {}, it_timeout := tv\<rparr>)) \<and>
       (if r = 0 then in_flight c' t \<and> set (ic_flying c') = insert t (set (ic_flying c)) \<and>
           ic_refs c' = (ic_refs c)(tr_dev x := ic_refs c (tr_dev x) + 1) \<and>
           remove1 t (ic_flying c') = ic_flying c \<and>
           (\<exists>x'. get_x t c' = Some x' \<and> it_transferred x' = 0 \<and> it_timeout_flags x' = {} \<and>
              tr_dev x' = tr_dev x \<and> tr_flags x' = tr_flags x)
        else \<not> in_flight c' t \<and> ic_flying c' = ic_flying c \<and> ic_refs c' = ic_refs c))"

lemma submit_spec:
  assumes wf: "io_wf c" and x: "get_x t c = Some x" and nf: "\<not> in_flight c t"
  shows "\<exists>r c'. libusb_submit_transfer e t c = Some (r, c') \<and> submit_effect c t r c'"
proof -
  note wfd = io_wfD [OF wf]
  have nl: "\<not> it_lock x" and nin: "t \<notin> set (ic_flying c)" and nf': "USBI_TRANSFER_IN_FLIGHT \<notin> it_state_flags x"
    using wfd(2) [OF x] wfd(4) [of t] nf x by (auto simp: in_flight_def)
  let ?x = "x\<lparr>it_lock := True, it_transferred := 0, it_state_flags := {}, it_timeout_flags := {}\<rparr>"
  let ?c = "put_x t ?x (c\<lparr>ic_flying_lock := True\<rparr>)"
  have fwf: "flying_wf ?c" using wfd(3) nin by (auto simp: flying_wf_def)
  have gx: "get_x t ?c = Some ?x" and gn: "t \<notin> set (ic_flying ?c)" using nin by simp_all
  have start: "libusb_submit_transfer e t c = do {
      (r, c4) \<leftarrow> add_to_flying_list e t ?c;
      if r \<noteq> 0 then do { c5 \<leftarrow> unlock_flying c4; c6 \<leftarrow> unlock_x t c5; Some (r, c6) }
      else submit_backend e t c4 }"
    using wfd(1) x nl nf' by (simp add: libusb_submit_transfer_def submit_backend_def lock_flying_def lock_x_def Let_def)
  from fwf gx gn show ?thesis
  proof (cases rule: add_to_flying_list_cases [of ?c t ?x e])
    case (fail r tv tm)
    let ?y = "x\<lparr>it_transferred := 0, it_state_flags := {}, it_timeout_flags := {}, it_timeout := tv\<rparr>"
    let ?c' = "io_upd t ?y (remove1 t (ic_flying c)) tm (ic_refs c) c"
    have "libusb_submit_transfer e t c = Some (r, ?c')"
      using start fail nl wfd(1) nin
      by (simp add: unlock_flying_def unlock_x_def remove1_idem) (simp add: put_x_def io_upd_def)
    moreover have "submit_effect c t r ?c'"
      using io_wf_upd_same [OF wf, of ?y t tm "ic_refs c"] nl fail(1) x nin
      by (auto simp add: submit_effect_def remove1_idem intro!: exI [of _ "{}"] exI [of _ tv])
    ultimately show ?thesis by blast
  next
    case (ok tv tm ts)
    let ?y = "x\<lparr>it_transferred := 0, it_state_flags := {}, it_timeout_flags := {}, it_timeout := tv\<rparr>"
    let ?z = "?y\<lparr>it_state_flags := {USBI_TRANSFER_IN_FLIGHT}\<rparr>"
    have eqs: "set ts = insert t (set (ic_flying c))" "distinct ts" "remove1 t ts = ic_flying c"
      "tv_sorted (put_x t ?z c) ts" "tv_sorted (put_x t ?y c) ts"
      using ok(1-4) by (auto simp: put_swap intro: iffD1 [OF tv_sorted_put_timeout, rotated])
    show ?thesis
    proof (cases "env_submit e t = 0")
      case True
      let ?c' = "io_upd t ?z ts tm ((ic_refs c)(tr_dev x := ic_refs c (tr_dev x) + 1)) c"
      have "libusb_submit_transfer e t c = Some (0, ?c')"
        using start ok(5) nl wfd(1) True
        by (simp add: submit_backend_def unlock_flying_def unlock_x_def ref_dev_def Let_def)
          (simp add: put_x_def io_upd_def)
      moreover have "submit_effect c t 0 ?c'"
        using io_wf_upd [OF wf, of ?z ts t] eqs nl x
        by (auto simp add: submit_effect_def intro!: exI [of _ "{USBI_TRANSFER_IN_FLIGHT}"] exI [of _ tv])
      ultimately show ?thesis by blast
    next
      case False
      let ?c3 = "io_upd t ?y ts tm (ic_refs c) c"
      have "tv_sorted ?c3 ts" using eqs(5) by (simp add: io_upd_def)
      then have "flying_wf ?c3" using eqs(1,2) wfd(3) by (auto simp: flying_wf_def)
      from remove_from_flying_list_eq [OF _ this, of t e] eqs(1) wfd(1) obtain r' tm' where
        rm: "remove_from_flying_list e t ?c3 = Some (r', ?c3\<lparr>ic_flying := ic_flying c, ic_timer := tm'\<rparr>)"
        using eqs(3) by auto
      let ?c' = "io_upd t ?y (remove1 t (ic_flying c)) tm' (ic_refs c) c"
      have "submit_backend e t ((put_x t (?x\<lparr>it_timeout := tv\<rparr>) c)\<lparr>ic_flying_lock := True, ic_flying := ts, ic_timer := tm\<rparr>) =
          do { (_, c4) \<leftarrow> remove_from_flying_list e t ?c3; Some (env_submit e t, c4) }"
        using False nl wfd(1)
        by (simp add: submit_backend_def unlock_flying_def unlock_x_def Let_def) (cases c, cases x, simp add: put_x_def io_upd_def)
      moreover have "?c3\<lparr>ic_flying := ic_flying c, ic_timer := tm'\<rparr> = ?c'"
        using nin by (simp add: io_upd_def put_x_def remove1_idem)
      ultimately have "libusb_submit_transfer e t c = Some (env_submit e t, ?c')"
        using start ok(5) nl rm by (simp add: put_swap)
      moreover have "submit_effect c t (env_submit e t) ?c'"
        using io_wf_upd_same [OF wf, of ?y t tm' "ic_refs c"] nl False x nin
        by (auto simp add: submit_effect_def remove1_idem intro!: exI [of _ "{}"] exI [of _ tv])
      ultimately show ?thesis by blast
    qed
  qed
qed

lemma submit_busy:
  assumes wf: "io_wf c" and nf: "in_flight c t"
  shows "libusb_submit_transfer e t c = Some (LIBUSB_ERROR_BUSY, c)"
proof -
  from nf obtain x where x: "get_x t c = Some x" "USBI_TRANSFER_IN_FLIGHT \<in> it_state_flags x"
    by (auto simp: in_flight_def split: option.splits)
  with io_wfD(1,2) [OF wf] have "\<not> it_lock x" "\<not> ic_flying_lock c" by auto
  with x put_get [OF x(1)] show ?thesis
    by (simp add: libusb_submit_transfer_def lock_flying_def lock_x_def unlock_flying_def unlock_x_def put_swap)
qed

subsection \<open>Cancellation\<close>

definition cancel_flags :: "int \<Rightarrow> usbi_transfer \<Rightarrow> usbi_transfer" where
  "cancel_flags r x = x\<lparr>it_state_flags := insert USBI_TRANSFER_CANCELLING
     (if r = LIBUSB_ERROR_NO_DEVICE then insert USBI_TRANSFER_DEVICE_DISAPPEARED (it_state_flags x) else it_state_flags x)\<rparr>"

definition cancellable :: "usbi_transfer \<Rightarrow> bool" where
  "cancellable x \<longleftrightarrow> USBI_TRANSFER_IN_FLIGHT \<in> it_state_flags x \<and> USBI_TRANSFER_CANCELLING \<notin> it_state_flags x"

lemma cancel_eq:
  assumes "get_x t c = Some x" and "\<not> it_lock x"
  shows "libusb_cancel_transfer e t c =
    Some (if cancellable x then (env_cancel e t, put_x t (cancel_flags (env_cancel e t) x) c)
          else (LIBUSB_ERROR_NOT_FOUND, c))"
  using assms put_get [OF assms(1)]
  by (auto simp: libusb_cancel_transfer_def lock_x_def unlock_x_def Let_def cancellable_def cancel_flags_def)

lemma io_wf_put:
  assumes wf: "io_wf c" and x: "get_x t c = Some x" and "\<not> it_lock y" and "it_timeout y = it_timeout x"
    and "USBI_TRANSFER_IN_FLIGHT \<in> it_state_flags y \<longleftrightarrow> USBI_TRANSFER_IN_FLIGHT \<in> it_state_flags x"
  shows "io_wf (put_x t y c)"
proof -
  have inf: "in_flight c t \<longleftrightarrow> USBI_TRANSFER_IN_FLIGHT \<in> it_state_flags x" using x by (simp add: in_flight_def)
  have "io_wf (io_upd t y (ic_flying c) (ic_timer c) (ic_refs c) c)"
    using io_wfD(3,4) [OF wf] assms(3,5) inf tv_sorted_put_same [OF x assms(4)]
    by (intro io_wf_upd [OF wf]) (auto simp: flying_wf_def)
  then show ?thesis by (simp add: io_upd_def put_x_def)
qed

lemma cancel_spec:
  assumes wf: "io_wf c" and x: "get_x t c = Some x"
  shows "\<exists>r c'. libusb_cancel_transfer e t c = Some (r, c') \<and> io_wf c' \<and> ic_flying c' = ic_flying c \<and>
    ic_refs c' = ic_refs c \<and> (\<forall>u. u \<noteq> t \<longrightarrow> get_x u c' = get_x u c) \<and>
    (cancellable x \<longrightarrow> r = env_cancel e t \<and> get_x t c' = Some (cancel_flags r x)) \<and>
    (\<not> cancellable x \<longrightarrow> r = LIBUSB_ERROR_NOT_FOUND \<and> c' = c)"
proof -
  have nl: "\<not> it_lock x" using io_wfD(2) [OF wf x] .
  have "io_wf (put_x t (cancel_flags r x) c)" for r
    using nl by (intro io_wf_put [OF wf x]) (auto simp: cancel_flags_def)
  with cancel_eq [OF x nl, of e] wf show ?thesis by (cases "cancellable x") auto
qed

subsection \<open>Completion\<close>

text \<open>A transfer after its completion, before the callback.\<close>

definition completed :: "usbi_transfer \<Rightarrow> libusb_transfer_status \<Rightarrow> usbi_transfer" where
  "completed x status = x\<lparr>it_state_flags := it_state_flags x - {USBI_TRANSFER_IN_FLIGHT},
     tr_status := final_status x status, tr_actual_length := it_transferred x\<rparr>"

lemma final_status_update [simp]:
  "final_status (x\<lparr>it_state_flags := s\<rparr>) status = final_status x status"
  "final_status (x\<lparr>it_lock := b\<rparr>) status = final_status x status"
  by (simp_all add: final_status_def)

lemma completion_eq:
  assumes wf: "io_wf c" and x: "get_x t c = Some x" and fl: "in_flight c t"
  shows "\<exists>r tm. usbi_handle_transfer_completion cb e t status c = do {
      c5 \<leftarrow> (case tr_callback x of None \<Rightarrow> Some (io_upd t (completed x status) (remove1 t (ic_flying c)) tm (ic_refs c) c)
             | Some f \<Rightarrow> cb f t (io_upd t (completed x status) (remove1 t (ic_flying c)) tm (ic_refs c) c));
      c6 \<leftarrow> (if LIBUSB_TRANSFER_FREE_TRANSFER \<in> tr_flags x then libusb_free_transfer (Some t) c5 else Some c5);
      Some (r, unref_dev (tr_dev x) c6) }"
proof -
  have nl: "\<not> it_lock x" using io_wfD(2) [OF wf x] .
  from remove_from_flying_list_eq [OF io_wfD(1,3) [OF wf], of t e] io_wfD(4) [OF wf, of t] fl obtain r tm where
    rm: "remove_from_flying_list e t c = Some (r, c\<lparr>ic_flying := remove1 t (ic_flying c), ic_timer := tm\<rparr>)" by auto
  let ?c = "put_x t (x\<lparr>it_state_flags := it_state_flags x - {USBI_TRANSFER_IN_FLIGHT},
      tr_status := final_status x status, tr_actual_length := it_transferred x\<rparr>)
      (c\<lparr>ic_flying := remove1 t (ic_flying c), ic_timer := tm\<rparr>)"
  have "?c = io_upd t (completed x status) (remove1 t (ic_flying c)) tm (ic_refs c) c"
    by (simp add: io_upd_def put_x_def completed_def)
  with x nl rm show ?thesis
    by (intro exI [of _ r] exI [of _ tm],
      simp add: usbi_handle_transfer_completion_def lock_x_def unlock_x_def, simp only: Let_def)
qed

lemma completed_wf:
  assumes "io_wf c" and "get_x t c = Some x"
  shows "io_wf (io_upd t (completed x status) (remove1 t (ic_flying c)) tm rf c)"
  using io_wfD(2) [OF assms] by (intro io_wf_upd_same [OF assms(1)]) (simp_all add: completed_def)

subsection \<open>Timeouts\<close>

text \<open>What \<open>handle_timeout\<close> does to a transfer, and which transfers it is for.\<close>

definition handled :: "env \<Rightarrow> ptr \<Rightarrow> usbi_transfer \<Rightarrow> usbi_transfer" where
  "handled e t x =
     (let y = x\<lparr>it_timeout_flags := insert USBI_TRANSFER_TIMEOUT_HANDLED (it_timeout_flags x)\<rparr> in
      if \<not> cancellable x then y
      else
        (let z = cancel_flags (env_cancel e t) y in
         if env_cancel e t = LIBUSB_SUCCESS
         then z\<lparr>it_timeout_flags := insert USBI_TRANSFER_TIMED_OUT (it_timeout_flags z)\<rparr> else z))"

definition expired :: "timeval \<Rightarrow> usbi_transfer \<Rightarrow> bool" where
  "expired now x \<longleftrightarrow> timerisset (it_timeout x) \<and> \<not> timeout_done x \<and> \<not> tv_less now (it_timeout x)"

definition apply_timeouts :: "env \<Rightarrow> timeval \<Rightarrow> ptr list \<Rightarrow> io_ctx \<Rightarrow> io_ctx" where
  "apply_timeouts e now ts c = c\<lparr>ic_xfers := (\<lambda>u. case ic_xfers c u of None \<Rightarrow> None
     | Some x \<Rightarrow> Some (if u \<in> set ts \<and> expired now x then handled e u x else x))\<rparr>"

lemma handled_fields [simp]:
  "it_timeout (handled e t x) = it_timeout x" "it_lock (handled e t x) = it_lock x"
  "USBI_TRANSFER_IN_FLIGHT \<in> it_state_flags (handled e t x) \<longleftrightarrow> USBI_TRANSFER_IN_FLIGHT \<in> it_state_flags x"
  "USBI_TRANSFER_TIMEOUT_HANDLED \<in> it_timeout_flags (handled e t x)"
  "tr_dev_handle (handled e t x) = tr_dev_handle x"
  by (auto simp: handled_def Let_def cancel_flags_def)

lemma handle_timeout_eq:
  assumes "get_x t c = Some x" and "\<not> it_lock x"
  shows "handle_timeout e t c = Some (put_x t (handled e t x) c)"
proof -
  let ?y = "x\<lparr>it_timeout_flags := insert USBI_TRANSFER_TIMEOUT_HANDLED (it_timeout_flags x)\<rparr>"
  have y: "get_x t (put_x t ?y c) = Some ?y" "\<not> it_lock ?y" "cancellable ?y = cancellable x"
    using assms by (simp_all add: cancellable_def)
  from cancel_eq [OF y(1,2), of e] assms(1) y(3) show ?thesis
    by (simp add: handle_timeout_def handled_def Let_def)
qed

lemma apply_timeouts_skip:
  assumes "\<And>u x. u \<in> set ts \<Longrightarrow> get_x u c = Some x \<Longrightarrow> \<not> expired now x"
  shows "apply_timeouts e now ts c = c"
proof -
  have "(\<lambda>u. case ic_xfers c u of None \<Rightarrow> None
     | Some x \<Rightarrow> Some (if u \<in> set ts \<and> expired now x then handled e u x else x)) = ic_xfers c"
    using assms by (auto simp: fun_eq_iff get_x_def split: option.split)
  then show ?thesis by (simp add: apply_timeouts_def)
qed

lemma apply_timeouts_Cons:
  assumes "get_x t c = Some x" and "t \<notin> set ts"
  shows "apply_timeouts e now (t # ts) c =
    apply_timeouts e now ts (if expired now x then put_x t (handled e t x) c else c)"
proof -
  let ?c = "if expired now x then put_x t (handled e t x) c else c"
  have "ic_xfers (apply_timeouts e now (t # ts) c) u = ic_xfers (apply_timeouts e now ts ?c) u" for u
    using assms by (auto simp: apply_timeouts_def put_x_def get_x_def split: option.split)
  then have "ic_xfers (apply_timeouts e now (t # ts) c) = ic_xfers (apply_timeouts e now ts ?c)" by blast
  then show ?thesis by (cases c) (simp add: apply_timeouts_def put_x_def)
qed

lemma not_expired_after:
  assumes "\<not> timerisset a \<or> tv_less now a" and "tv_before a b"
  shows "\<not> timerisset b \<or> tv_less now b"
  using assms by (auto simp: tv_before_def tv_less_def)

lemma timeouts_loop_eq:
  "distinct ts \<Longrightarrow> \<forall>t \<in> set ts. \<exists>x. get_x t c = Some x \<and> \<not> it_lock x \<Longrightarrow> tv_sorted c ts \<Longrightarrow>
    timeouts_loop e now ts c = Some (apply_timeouts e now ts c)"
proof (induction ts arbitrary: c)
  case Nil
  then show ?case using apply_timeouts_skip [of "[]" c now e] by simp
next
  case (Cons t ts)
  then obtain x where x: "get_x t c = Some x" "\<not> it_lock x" by auto
  have t: "t \<notin> set ts" using Cons.prems(1) by simp
  show ?case
  proof (cases "timerisset (it_timeout x) \<and> \<not> tv_less now (it_timeout x)")
    case False
    have "\<not> expired now y" if "u \<in> set (t # ts)" "get_x u c = Some y" for u y
    proof (cases "u = t")
      case True
      with that x False show ?thesis by (auto simp: expired_def)
    next
      case ut: False
      with that x Cons.prems(3) have "tv_before (it_timeout x) (it_timeout y)"
        by (auto simp: tv_sorted_Cons timeout_of_def)
      from not_expired_after [OF _ this, of now] False show ?thesis by (auto simp: expired_def)
    qed
    then have "apply_timeouts e now (t # ts) c = c" "apply_timeouts e now ts c = c"
      by (auto intro!: apply_timeouts_skip)
    moreover have "timeouts_loop e now ts c = Some (apply_timeouts e now ts c)"
      using Cons by (intro Cons.IH) (auto simp: tv_sorted_Cons)
    ultimately show ?thesis using x False by auto
  next
    case True
    let ?c = "if expired now x then put_x t (handled e t x) c else c"
    have "timeouts_loop e now ts ?c = Some (apply_timeouts e now ts ?c)"
      using Cons.prems x t
      by (intro Cons.IH) (auto simp: tv_sorted_Cons)
    with x True apply_timeouts_Cons [OF x(1) t, of e now] show ?thesis
      by (auto simp: handle_timeout_eq expired_def)
  qed
qed

lemma apply_timeouts_get [simp]:
  "get_x u (apply_timeouts e now ts c) = map_option (\<lambda>x. if u \<in> set ts \<and> expired now x then handled e u x else x) (get_x u c)"
  by (auto simp: apply_timeouts_def get_x_def split: option.split)

lemma apply_timeouts_fields [simp]:
  "ic_flying (apply_timeouts e now ts c) = ic_flying c" "ic_flying_lock (apply_timeouts e now ts c) = ic_flying_lock c"
  "ic_refs (apply_timeouts e now ts c) = ic_refs c" "ic_timer (apply_timeouts e now ts c) = ic_timer c"
  by (simp_all add: apply_timeouts_def)

lemma apply_timeouts_wf:
  assumes "io_wf c"
  shows "io_wf (apply_timeouts e now ts c)"
proof -
  have tm: "timeout_of (apply_timeouts e now ts c) u = timeout_of c u" for u
    by (auto simp: timeout_of_def split: option.split)
  then have "tv_sorted (apply_timeouts e now ts c) us = tv_sorted c us" for us by (intro tv_sorted_cong) simp
  moreover have "in_flight (apply_timeouts e now ts c) u = in_flight c u" for u
    by (auto simp: in_flight_def split: option.split)
  ultimately show ?thesis using assms
    by (auto simp: io_wf_def quiescent_def flying_wf_def split: if_splits)
qed

lemma handle_timeouts_eq:
  assumes wf: "io_wf c" and clk: "env_clock e = (0, ts)"
  shows "handle_timeouts e c = Some (0, apply_timeouts e (TIMESPEC_TO_TIMEVAL ts) (ic_flying c) c)"
proof -
  note wfd = io_wfD [OF wf]
  let ?c = "c\<lparr>ic_flying_lock := True\<rparr>" and ?now = "TIMESPEC_TO_TIMEVAL ts"
  have xs: "\<forall>t \<in> set (ic_flying c). \<exists>x. get_x t ?c = Some x \<and> \<not> it_lock x"
    using wfd(2,3) by (auto simp: flying_wf_def)
  have "handle_timeouts_locked e ?c = Some (0, apply_timeouts e ?now (ic_flying c) ?c)"
    using clk timeouts_loop_eq [of "ic_flying c" ?c e ?now] xs wfd(3) apply_timeouts_skip [of "[]" ?c]
    by (auto simp: handle_timeouts_locked_def flying_wf_def)
  moreover have "(apply_timeouts e ?now (ic_flying c) ?c)\<lparr>ic_flying_lock := False\<rparr> =
      apply_timeouts e ?now (ic_flying c) c"
    using wfd(1) by (simp add: apply_timeouts_def)
  ultimately show ?thesis using wfd(1)
    by (simp add: handle_timeouts_def lock_flying_def unlock_flying_def)
qed

subsection \<open>The next timeout\<close>

lemma next_timeout_loop_find:
  assumes "\<forall>t \<in> set ts. get_x t c \<noteq> None"
  shows "next_timeout_loop ts c = Some (case find (\<lambda>t. \<not> timeout_done (the (get_x t c))) ts of
     None \<Rightarrow> tv_zero | Some t \<Rightarrow> if timerisset (timeout_of c t) then timeout_of c t else tv_zero)"
  using assms by (induction ts) (auto simp: timeout_of_def)

text \<open>The transfers whose timeout is still to come or to be handled.\<close>

definition pending_timeout :: "io_ctx \<Rightarrow> ptr \<Rightarrow> bool" where
  "pending_timeout c t \<longleftrightarrow> t \<in> set (ic_flying c) \<and> (case get_x t c of None \<Rightarrow> False
     | Some x \<Rightarrow> timerisset (it_timeout x) \<and> \<not> timeout_done x)"

lemma next_timeout_loop_min:
  assumes wf: "flying_wf c"
  shows "(\<forall>t. \<not> pending_timeout c t) \<and> next_timeout_loop (ic_flying c) c = Some tv_zero \<or>
    (\<exists>t. pending_timeout c t \<and> next_timeout_loop (ic_flying c) c = Some (timeout_of c t) \<and>
      (\<forall>u. pending_timeout c u \<longrightarrow> \<not> tv_less (timeout_of c u) (timeout_of c t)))"
proof -
  have alloc: "\<forall>t \<in> set (ic_flying c). get_x t c \<noteq> None" and sorted: "tv_sorted c (ic_flying c)"
    using wf by (auto simp: flying_wf_def)
  note eq = next_timeout_loop_find [OF alloc]
  let ?P = "\<lambda>t. \<not> timeout_done (the (get_x t c))"
  show ?thesis
  proof (cases "find ?P (ic_flying c)")
    case None
    then have "\<forall>t \<in> set (ic_flying c). \<not> ?P t" by (auto simp: find_None_iff)
    then have "\<forall>t. \<not> pending_timeout c t" by (force simp: pending_timeout_def split: option.splits)
    with None eq show ?thesis by simp
  next
    case (Some t)
    then obtain i where i: "i < length (ic_flying c)" "t = ic_flying c ! i" "?P t" "\<forall>j < i. \<not> ?P (ic_flying c ! j)"
      by (auto simp: find_Some_iff)
    have after: "u = t \<or> tv_before (timeout_of c t) (timeout_of c u)" if u: "pending_timeout c u" for u
    proof -
      from u obtain j where j: "j < length (ic_flying c)" "u = ic_flying c ! j" "?P u"
        by (auto simp: pending_timeout_def in_set_conv_nth split: option.splits)
      then have "\<not> j < i" using i(4) by blast
      then show ?thesis
        using i j sorted by (cases "j = i") (auto simp: tv_sorted_def sorted_wrt_iff_nth_less)
    qed
    from i alloc obtain x where x: "get_x t c = Some x" by (metis nth_mem option.exhaust)
    show ?thesis
    proof (cases "timerisset (timeout_of c t)")
      case True
      then have "pending_timeout c t" using i x by (auto simp: pending_timeout_def timeout_of_def)
      moreover have "\<not> tv_less (timeout_of c u) (timeout_of c t)" if "pending_timeout c u" for u
      proof (cases "u = t")
        case True
        then show ?thesis by (simp add: tv_less_def)
      next
        case False
        with after [OF that] have "tv_before (timeout_of c t) (timeout_of c u)" by blast
        moreover have "timerisset (timeout_of c u)" using that by (auto simp: pending_timeout_def timeout_of_def split: option.splits)
        ultimately show ?thesis by (auto simp: tv_before_def)
      qed
      ultimately show ?thesis using eq Some True by auto
    next
      case False
      have "\<not> pending_timeout c u" for u
      proof
        assume u: "pending_timeout c u"
        then have "timerisset (timeout_of c u)" by (auto simp: pending_timeout_def timeout_of_def split: option.splits)
        with after [OF u] False show False by (auto simp: tv_before_def)
      qed
      with eq Some False show ?thesis by simp
    qed
  qed
qed

subsection \<open>Disconnection\<close>

definition of_handle :: "io_ctx \<Rightarrow> nat \<Rightarrow> ptr \<Rightarrow> bool" where
  "of_handle c dh t \<longleftrightarrow> (case get_x t c of None \<Rightarrow> False | Some x \<Rightarrow> tr_dev_handle x = dh)"

lemma disconnect_search_find:
  "\<forall>t \<in> set ts. \<exists>x. get_x t c = Some x \<and> \<not> it_lock x \<Longrightarrow>
    disconnect_search dh ts c = Some (find (\<lambda>t. of_handle c dh t \<and> in_flight c t) ts, c)"
proof (induction ts)
  case Nil
  then show ?case by simp
next
  case (Cons t ts)
  then obtain x where x: "get_x t c = Some x" "\<not> it_lock x" by auto
  with Cons put_get [OF x(1)] show ?case
    by (auto simp: lock_x_def unlock_x_def of_handle_def in_flight_def)
qed

text \<open>A callback that does not call back into the library.\<close>

definition cb_quiet :: "callback \<Rightarrow> bool" where
  "cb_quiet cb \<longleftrightarrow> (\<forall>f t c. cb f t c = Some c)"

lemma completion_quiet:
  assumes wf: "io_wf c" and x: "get_x t c = Some x" and fl: "in_flight c t" and cb: "cb_quiet cb"
    and nf: "LIBUSB_TRANSFER_FREE_TRANSFER \<notin> tr_flags x"
  shows "\<exists>r tm. usbi_handle_transfer_completion cb e t status c =
    Some (r, io_upd t (completed x status) (remove1 t (ic_flying c)) tm
      ((ic_refs c)(tr_dev x := ic_refs c (tr_dev x) - 1)) c)"
proof -
  from completion_eq [OF wf x fl, of cb e status] obtain r tm where
    eq: "usbi_handle_transfer_completion cb e t status c = do {
      c5 \<leftarrow> (case tr_callback x of None \<Rightarrow> Some (io_upd t (completed x status) (remove1 t (ic_flying c)) tm (ic_refs c) c)
             | Some f \<Rightarrow> cb f t (io_upd t (completed x status) (remove1 t (ic_flying c)) tm (ic_refs c) c));
      c6 \<leftarrow> (if LIBUSB_TRANSFER_FREE_TRANSFER \<in> tr_flags x then libusb_free_transfer (Some t) c5 else Some c5);
      Some (r, unref_dev (tr_dev x) c6) }" by blast
  have "usbi_handle_transfer_completion cb e t status c =
      Some (r, unref_dev (tr_dev x) (io_upd t (completed x status) (remove1 t (ic_flying c)) tm (ic_refs c) c))"
    unfolding eq using cb nf by (cases "tr_callback x") (simp_all add: cb_quiet_def)
  then show ?thesis by (auto simp: unref_dev_def io_upd_def)
qed

lemma disconnect_loop_spec:
  assumes "io_wf c" and "cb_quiet cb" and "length (ic_flying c) < n"
    and "\<forall>t \<in> set (ic_flying c). \<forall>x. get_x t c = Some x \<longrightarrow> LIBUSB_TRANSFER_FREE_TRANSFER \<notin> tr_flags x"
  shows "\<exists>c'. disconnect_loop cb e dh n c = Some c' \<and> io_wf c' \<and>
    ic_flying c' = filter (\<lambda>t. \<not> of_handle c dh t) (ic_flying c) \<and>
    (\<forall>t x. get_x t c = Some x \<longrightarrow> get_x t c' = Some (if t \<in> set (ic_flying c) \<and> of_handle c dh t
      then completed x LIBUSB_TRANSFER_NO_DEVICE else x))"
  using assms
proof (induction n arbitrary: c)
  case 0
  then show ?case by simp
next
  case (Suc n)
  note wf = Suc.prems(1) and wfd = io_wfD [OF Suc.prems(1)]
  let ?c1 = "c\<lparr>ic_flying_lock := True\<rparr>"
  let ?f = "find (\<lambda>t. of_handle c dh t \<and> in_flight c t) (ic_flying c)"
  have "disconnect_search dh (ic_flying c) ?c1 = Some (find (\<lambda>t. of_handle ?c1 dh t \<and> in_flight ?c1 t) (ic_flying c), ?c1)"
    using wfd(2,3) by (intro disconnect_search_find) (auto simp: flying_wf_def)
  then have search: "disconnect_search dh (ic_flying c) ?c1 = Some (?f, ?c1)" by (simp add: of_handle_def)
  have unl: "?c1\<lparr>ic_flying_lock := False\<rparr> = c" using wfd(1) by simp
  show ?case
  proof (cases ?f)
    case None
    then have none: "\<forall>t \<in> set (ic_flying c). \<not> of_handle c dh t"
      using wfd(4) by (auto simp: find_None_iff)
    then have "filter (\<lambda>t. \<not> of_handle c dh t) (ic_flying c) = ic_flying c" by (simp add: filter_id_conv)
    with None search unl wf wfd(1) none show ?thesis
      by (auto simp: lock_flying_def unlock_flying_def)
  next
    case (Some t)
    then have t: "t \<in> set (ic_flying c)" "of_handle c dh t" "in_flight c t"
      by (auto simp: find_Some_iff)
    then obtain x where x: "get_x t c = Some x" by (auto simp: of_handle_def split: option.splits)
    have nl: "\<not> it_lock x" using wfd(2) [OF x] .
    have nfree: "LIBUSB_TRANSFER_FREE_TRANSFER \<notin> tr_flags x" using Suc.prems(4) t(1) x by blast
    from completion_quiet [OF wf x t(3) Suc.prems(2) nfree, of e LIBUSB_TRANSFER_NO_DEVICE] obtain r tm where
      comp: "usbi_handle_transfer_completion cb e t LIBUSB_TRANSFER_NO_DEVICE c =
        Some (r, io_upd t (completed x LIBUSB_TRANSFER_NO_DEVICE) (remove1 t (ic_flying c)) tm
          ((ic_refs c)(tr_dev x := ic_refs c (tr_dev x) - 1)) c)" by blast
    let ?c2 = "io_upd t (completed x LIBUSB_TRANSFER_NO_DEVICE) (remove1 t (ic_flying c)) tm
          ((ic_refs c)(tr_dev x := ic_refs c (tr_dev x) - 1)) c"
    have step: "disconnect_loop cb e dh (Suc n) c = disconnect_loop cb e dh n ?c2"
      using search Some unl wfd(1) x nl put_get [OF x] comp
      by (simp add: lock_flying_def unlock_flying_def lock_x_def unlock_x_def)
    have d: "distinct (ic_flying c)" using wfd(3) by (simp add: flying_wf_def)
    have len: "length (ic_flying ?c2) < n" using Suc.prems(3) t(1)
      length_pos_if_in_set [OF t(1)] by (simp only: io_upd_simps length_remove1 if_True)
    have free: "\<forall>u \<in> set (ic_flying ?c2). \<forall>y. get_x u ?c2 = Some y \<longrightarrow> LIBUSB_TRANSFER_FREE_TRANSFER \<notin> tr_flags y"
      using Suc.prems(4) d by auto
    from Suc.IH [OF completed_wf [OF wf x] Suc.prems(2) len free] obtain c' where
      rec: "disconnect_loop cb e dh (Suc n) c = Some c'" "io_wf c'"
      "ic_flying c' = filter (\<lambda>u. \<not> of_handle ?c2 dh u) (remove1 t (ic_flying c))"
      "\<forall>u y. get_x u ?c2 = Some y \<longrightarrow> get_x u c' = Some (if u \<in> set (remove1 t (ic_flying c)) \<and> of_handle ?c2 dh u
        then completed y LIBUSB_TRANSFER_NO_DEVICE else y)"
      unfolding step io_upd_simps(1) by blast
    have oh: "of_handle ?c2 dh u = of_handle c dh u" for u using x by (simp add: of_handle_def completed_def)
    have fl: "ic_flying c' = filter (\<lambda>u. \<not> of_handle c dh u) (ic_flying c)"
      using t(2) d unfolding rec(3) oh by (simp add: distinct_remove1_removeAll removeAll_filter_not_eq)
        (auto intro: filter_cong)
    have "get_x u c' = Some (if u \<in> set (ic_flying c) \<and> of_handle c dh u then completed y LIBUSB_TRANSFER_NO_DEVICE else y)"
      if "get_x u c = Some y" for u y
      using that rec(4) [rule_format, of u] x t d oh by (cases "u = t") auto
    with rec(1,2) fl show ?thesis by blast
  qed
qed

end
