(* ===== verification/Transfer_Props.thy ===== *)
theory Transfer_Props
  imports Transfer_Invariants
begin

text \<open>
  The properties of the transfer engine: submission, cancellation, completion, timeouts and
  disconnection, each on all branches, and two concrete runs in which a timeout goes wrong.
\<close>

subsection \<open>Concrete contexts\<close>

definition xfer1 :: usbi_transfer where
  "xfer1 = (new_transfer 0)\<lparr>tr_dev_handle := 7, tr_dev := 3, tr_timeout := 1000, tr_length := 64\<rparr>"

definition ctx_idle :: io_ctx where
  "ctx_idle = \<lparr>ic_heap = empty_heap, ic_xfers = [0 \<mapsto> xfer1], ic_flying = [], ic_flying_lock = False,
     ic_timerfd = -1, ic_timer = None, ic_refs = (\<lambda>_. 1)\<rparr>"

definition xfer1_flying :: usbi_transfer where
  "xfer1_flying = xfer1\<lparr>it_timeout := \<lparr>tv_sec = 11, tv_usec = 5\<rparr>, it_state_flags := {USBI_TRANSFER_IN_FLIGHT}\<rparr>"

definition ctx_flying :: io_ctx where
  "ctx_flying = ctx_idle\<lparr>ic_xfers := [0 \<mapsto> xfer1_flying], ic_flying := [0]\<rparr>"

definition env_at :: "int \<Rightarrow> env" where
  "env_at sec = \<lparr>env_clock = (0, \<lparr>ts_sec = sec, ts_nsec = 5000\<rparr>), env_settime = 0,
     env_submit = (\<lambda>_. 0), env_cancel = (\<lambda>_. 0)\<rparr>"

lemma ctx_idle_wf: "io_wf ctx_idle"
  by (auto simp: io_wf_def quiescent_def flying_wf_def ctx_idle_def in_flight_def get_x_def xfer1_def
      new_transfer_def tv_sorted_def split: if_splits)

lemma ctx_flying_wf: "io_wf ctx_flying"
  by (auto simp: io_wf_def quiescent_def flying_wf_def ctx_flying_def ctx_idle_def in_flight_def get_x_def
      xfer1_flying_def xfer1_def new_transfer_def tv_sorted_def split: if_splits)

lemma ctx_get [simp]: "get_x 0 ctx_idle = Some xfer1" "get_x 0 ctx_flying = Some xfer1_flying"
  by (simp_all add: ctx_idle_def ctx_flying_def get_x_def)

lemma ctx_in_flight [simp]: "\<not> in_flight ctx_idle 0" "in_flight ctx_flying 0"
  by (simp_all add: in_flight_def xfer1_flying_def xfer1_def new_transfer_def)

subsection \<open>Submission, cancellation, completion\<close>

text \<open>C2. \<open>libusb_submit_transfer\<close>, on every branch: it never faults (so it never takes a lock it holds, and
  leaves none held); a transfer in flight gives LIBUSB_ERROR_BUSY and no change; otherwise the
  result is 0 and the transfer is in flight, at its place in the list by timeout, with its device
  referenced once more, or the result is an error and list, flags and references are as before.\<close>

theorem submit_transfer_correct:
  assumes "io_wf c" and "get_x t c = Some x"
  shows "\<exists>r c'. libusb_submit_transfer e t c = Some (r, c') \<and>
    (if in_flight c t then r = LIBUSB_ERROR_BUSY \<and> c' = c else submit_effect c t r c')"
  using submit_spec [OF assms, of e] submit_busy [OF assms(1), of t e] by auto

theorem submit_transfer_correct_witness:
  "\<exists>r c'. libusb_submit_transfer (env_at 10) 0 ctx_idle = Some (r, c') \<and>
    (if in_flight ctx_idle 0 then r = LIBUSB_ERROR_BUSY \<and> c' = ctx_idle else submit_effect ctx_idle 0 r c')"
  by (rule submit_transfer_correct [OF ctx_idle_wf]) simp

text \<open>Cancellation is requested at most once: \<open>libusb_cancel_transfer\<close> of a transfer that is in flight
  and not being cancelled returns the backend's answer and marks the transfer, keeping it on the
  list and the invariant; every other call, a second cancellation in particular, returns
  LIBUSB_ERROR_NOT_FOUND and changes nothing.\<close>

theorem cancel_transfer_once:
  assumes "io_wf c" and "get_x t c = Some x" and "cancellable x"
  shows "\<exists>c1. libusb_cancel_transfer e t c = Some (env_cancel e t, c1) \<and> io_wf c1 \<and> in_flight c1 t \<and>
    ic_flying c1 = ic_flying c \<and>
    libusb_cancel_transfer e' t c1 = Some (LIBUSB_ERROR_NOT_FOUND, c1)"
proof -
  from cancel_spec [OF assms(1,2), of e] assms(3) obtain c1 where
    c1: "libusb_cancel_transfer e t c = Some (env_cancel e t, c1)" "io_wf c1" "ic_flying c1 = ic_flying c"
      "get_x t c1 = Some (cancel_flags (env_cancel e t) x)" by auto
  have "\<not> cancellable (cancel_flags (env_cancel e t) x)" by (simp add: cancellable_def cancel_flags_def)
  with cancel_spec [OF c1(2,4), of e'] have "libusb_cancel_transfer e' t c1 = Some (LIBUSB_ERROR_NOT_FOUND, c1)"
    by auto
  moreover have "in_flight c1 t" using c1(4) assms(3) by (simp add: in_flight_def cancellable_def cancel_flags_def)
  ultimately show ?thesis using c1 by blast
qed

theorem cancel_transfer_once_witness:
  "\<exists>c1. libusb_cancel_transfer (env_at 10) 0 ctx_flying = Some (env_cancel (env_at 10) 0, c1) \<and> io_wf c1 \<and>
    in_flight c1 0 \<and> ic_flying c1 = ic_flying ctx_flying \<and>
    libusb_cancel_transfer (env_at 10) 0 c1 = Some (LIBUSB_ERROR_NOT_FOUND, c1)"
  by (rule cancel_transfer_once [OF ctx_flying_wf ctx_get(2)])
    (simp add: cancellable_def xfer1_flying_def xfer1_def new_transfer_def)

lemma final_status_eq:
  "final_status x status =
    (if status = LIBUSB_TRANSFER_COMPLETED \<and> LIBUSB_TRANSFER_SHORT_NOT_OK \<in> tr_flags x \<and>
        (if tr_type x = LIBUSB_TRANSFER_TYPE_CONTROL then tr_length x - 8 else tr_length x) \<noteq> it_transferred x
     then LIBUSB_TRANSFER_ERROR else status)"
  by (simp add: final_status_def Let_def)

text \<open>C9. Completion, for a callback that does not call back: the transfer leaves the list and the
  in-flight state, its device loses the reference of the submission, the status is the given one,
  or LIBUSB_TRANSFER_ERROR for a transfer with LIBUSB_TRANSFER_SHORT_NOT_OK that moved fewer bytes than
  asked (the setup packet of a control transfer does not count), and the
  invariant holds again. Completing it a second time would unlink it from a list it is not on: a fault.\<close>

theorem completion_correct:
  assumes "io_wf c" and "get_x t c = Some x" and "in_flight c t" and "cb_quiet cb"
    and "LIBUSB_TRANSFER_FREE_TRANSFER \<notin> tr_flags x"
  shows "\<exists>r c'. usbi_handle_transfer_completion cb e t status c = Some (r, c') \<and> io_wf c' \<and>
    \<not> in_flight c' t \<and> ic_flying c' = remove1 t (ic_flying c) \<and>
    ic_refs c' = (ic_refs c)(tr_dev x := ic_refs c (tr_dev x) - 1) \<and>
    map_option tr_status (get_x t c') = Some (if status = LIBUSB_TRANSFER_COMPLETED \<and> LIBUSB_TRANSFER_SHORT_NOT_OK \<in> tr_flags x \<and>
        (if tr_type x = LIBUSB_TRANSFER_TYPE_CONTROL then tr_length x - 8 else tr_length x) \<noteq> it_transferred x
        then LIBUSB_TRANSFER_ERROR else status) \<and>
    map_option tr_actual_length (get_x t c') = Some (it_transferred x) \<and>
    usbi_handle_transfer_completion cb e t status c' = None"
proof -
  from completion_quiet [OF assms(1-5), of e status] obtain r tm where
    eq: "usbi_handle_transfer_completion cb e t status c =
      Some (r, io_upd t (completed x status) (remove1 t (ic_flying c)) tm
        ((ic_refs c)(tr_dev x := ic_refs c (tr_dev x) - 1)) c)" by blast
  let ?c' = "io_upd t (completed x status) (remove1 t (ic_flying c)) tm
        ((ic_refs c)(tr_dev x := ic_refs c (tr_dev x) - 1)) c"
  have wf': "io_wf ?c'" by (rule completed_wf [OF assms(1,2)])
  have "t \<notin> set (remove1 t (ic_flying c))"
    using io_wfD(3) [OF assms(1)] by (simp add: flying_wf_def)
  then have "remove_from_flying_list e t ?c' = None"
    using io_wfD(1) [OF wf'] by (simp add: remove_from_flying_list_def lock_flying_def flying_del_def Let_def)
  then have "usbi_handle_transfer_completion cb e t status ?c' = None"
    by (simp add: usbi_handle_transfer_completion_def)
  with eq wf' show ?thesis by (simp add: completed_def final_status_eq)
qed

theorem completion_correct_witness:
  "\<exists>r c'. usbi_handle_transfer_completion (\<lambda>f t c. Some c) (env_at 10) 0 LIBUSB_TRANSFER_COMPLETED ctx_flying = Some (r, c') \<and>
    io_wf c' \<and> \<not> in_flight c' 0 \<and> ic_flying c' = remove1 0 (ic_flying ctx_flying) \<and>
    ic_refs c' = (ic_refs ctx_flying)(tr_dev xfer1_flying := ic_refs ctx_flying (tr_dev xfer1_flying) - 1) \<and>
    map_option tr_status (get_x 0 c') = Some (if LIBUSB_TRANSFER_COMPLETED = LIBUSB_TRANSFER_COMPLETED \<and> LIBUSB_TRANSFER_SHORT_NOT_OK \<in> tr_flags xfer1_flying \<and>
        (if tr_type xfer1_flying = LIBUSB_TRANSFER_TYPE_CONTROL then tr_length xfer1_flying - 8 else tr_length xfer1_flying) \<noteq> it_transferred xfer1_flying
        then LIBUSB_TRANSFER_ERROR else LIBUSB_TRANSFER_COMPLETED) \<and>
    map_option tr_actual_length (get_x 0 c') = Some (it_transferred xfer1_flying) \<and>
    usbi_handle_transfer_completion (\<lambda>f t c. Some c) (env_at 10) 0 LIBUSB_TRANSFER_COMPLETED c' = None"
  by (rule completion_correct [OF ctx_flying_wf ctx_get(2) ctx_in_flight(2)])
    (simp_all add: cb_quiet_def xfer1_flying_def xfer1_def new_transfer_def)

text \<open>A submission and the completion of the same transfer cancel out: the list of flying
  transfers and the references to devices are what they were before the submission.\<close>

theorem submit_complete_balanced:
  assumes "io_wf c" and "get_x t c = Some x" and "\<not> in_flight c t" and "cb_quiet cb"
    and "LIBUSB_TRANSFER_FREE_TRANSFER \<notin> tr_flags x"
    and "libusb_submit_transfer e t c = Some (0, c1)"
  shows "\<exists>r c2. usbi_handle_transfer_completion cb e' t status c1 = Some (r, c2) \<and> io_wf c2 \<and>
    ic_flying c2 = ic_flying c \<and> ic_refs c2 = ic_refs c"
proof -
  from submit_spec [OF assms(1-3), of e] assms(2,6) have eff: "submit_effect c t 0 c1" by auto
  with assms(2) obtain x' where x': "get_x t c1 = Some x'" "tr_dev x' = tr_dev x" "tr_flags x' = tr_flags x"
    by (auto simp: submit_effect_def)
  with eff assms(2) have c1: "io_wf c1" "in_flight c1 t" "remove1 t (ic_flying c1) = ic_flying c"
    "ic_refs c1 = (ic_refs c)(tr_dev x := ic_refs c (tr_dev x) + 1)"
    by (simp_all add: submit_effect_def)
  have "LIBUSB_TRANSFER_FREE_TRANSFER \<notin> tr_flags x'" using x'(3) assms(5) by simp
  from completion_quiet [OF c1(1) x'(1) c1(2) assms(4) this, of e' status]
  obtain r tm where "usbi_handle_transfer_completion cb e' t status c1 =
    Some (r, io_upd t (completed x' status) (remove1 t (ic_flying c1)) tm
      ((ic_refs c1)(tr_dev x' := ic_refs c1 (tr_dev x') - 1)) c1)" by blast
  with completed_wf [OF c1(1) x'(1)] c1(3,4) x'(2) show ?thesis by (auto simp: fun_upd_idem)
qed

theorem submit_complete_balanced_witness:
  "\<exists>c1 r c2. libusb_submit_transfer (env_at 10) 0 ctx_idle = Some (0, c1) \<and>
    usbi_handle_transfer_completion (\<lambda>f t c. Some c) (env_at 10) 0 LIBUSB_TRANSFER_COMPLETED c1 = Some (r, c2) \<and>
    ic_flying c2 = ic_flying ctx_idle \<and> ic_refs c2 = ic_refs ctx_idle"
proof -
  have "case libusb_submit_transfer (env_at 10) 0 ctx_idle of Some (r, _) \<Rightarrow> r = 0 | None \<Rightarrow> False" by code_simp
  then obtain c1 where c1: "libusb_submit_transfer (env_at 10) 0 ctx_idle = Some (0, c1)"
    by (auto split: option.splits)
  have "cb_quiet (\<lambda>f t c. Some c)" "LIBUSB_TRANSFER_FREE_TRANSFER \<notin> tr_flags xfer1"
    by (simp_all add: cb_quiet_def xfer1_def new_transfer_def)
  from submit_complete_balanced [OF ctx_idle_wf ctx_get(1) ctx_in_flight(1) this c1] c1 show ?thesis by blast
qed

subsection \<open>Timeouts\<close>

text \<open>C6. \<open>handle_timeouts\<close> handles exactly the transfers in flight whose finite timeout has passed and
  was not handled before: each of them is cancelled through the backend (once) and marked, and no
  other transfer changes. That the loop stops at the first transfer that is not due loses none
  of them, because the list is sorted.\<close>

theorem handle_timeouts_exact:
  assumes "io_wf c" and "env_clock e = (0, ts)"
  shows "\<exists>c'. handle_timeouts e c = Some (0, c') \<and> io_wf c' \<and> ic_flying c' = ic_flying c \<and>
    (\<forall>t x. get_x t c = Some x \<longrightarrow> get_x t c' = Some
      (if in_flight c t \<and> expired (TIMESPEC_TO_TIMEVAL ts) x then handled e t x else x))"
proof -
  from handle_timeouts_eq [OF assms] apply_timeouts_wf [OF assms(1)] io_wfD(4) [OF assms(1)]
  show ?thesis by auto
qed

theorem handle_timeouts_exact_witness:
  "\<exists>c'. handle_timeouts (env_at 20) ctx_flying = Some (0, c') \<and> io_wf c' \<and>
    get_x 0 c' = Some (handled (env_at 20) 0 xfer1_flying)"
proof -
  have "env_clock (env_at 20) = (0, \<lparr>ts_sec = 20, ts_nsec = 5000\<rparr>)" by (simp add: env_at_def)
  from handle_timeouts_exact [OF ctx_flying_wf this] obtain c' where
    "handle_timeouts (env_at 20) ctx_flying = Some (0, c')" "io_wf c'"
    "get_x 0 c' = Some (if in_flight ctx_flying 0 \<and> expired (TIMESPEC_TO_TIMEVAL \<lparr>ts_sec = 20, ts_nsec = 5000\<rparr>) xfer1_flying
      then handled (env_at 20) 0 xfer1_flying else xfer1_flying)"
    by (auto simp del: ctx_in_flight)
  moreover have "expired (TIMESPEC_TO_TIMEVAL \<lparr>ts_sec = 20, ts_nsec = 5000\<rparr>) xfer1_flying"
    by (simp add: expired_def TIMESPEC_TO_TIMEVAL_def xfer1_flying_def timerisset_def timeout_done_def
        tv_less_def xfer1_def new_transfer_def)
  ultimately show ?thesis by auto
qed

text \<open>Without a timerfd, \<open>libusb_get_next_timeout\<close> returns 0 exactly when no transfer in flight has
  a finite timeout left to handle (and the clock can be read); otherwise it gives the time to the
  smallest such timeout, zero when that has passed.\<close>

theorem get_next_timeout_min:
  assumes "io_wf c" and "\<not> usbi_using_timerfd c" and "env_clock e = (0, ts)"
  shows "(\<forall>t. \<not> pending_timeout c t) \<and> libusb_get_next_timeout e c = Some (0, None, c) \<or>
    (\<exists>t. pending_timeout c t \<and> (\<forall>u. pending_timeout c u \<longrightarrow> \<not> tv_less (timeout_of c u) (timeout_of c t)) \<and>
      libusb_get_next_timeout e c = Some (1, Some (if tv_less (TIMESPEC_TO_TIMEVAL ts) (timeout_of c t)
        then timersub (timeout_of c t) (TIMESPEC_TO_TIMEVAL ts) else tv_zero), c))"
proof -
  note wfd = io_wfD [OF assms(1)]
  have loop: "next_timeout_loop us (c\<lparr>ic_flying_lock := True\<rparr>) = next_timeout_loop us c" for us
    by (induction us) (simp_all cong: if_cong)
  have unl: "c\<lparr>ic_flying_lock := True, ic_flying_lock := False\<rparr> = c" using wfd(1) by simp
  have zero: "\<not> timerisset tv_zero" by (simp add: timerisset_def)
  have set: "timerisset (timeout_of c t)" if "pending_timeout c t" for t
    using that by (auto simp: pending_timeout_def timeout_of_def split: option.splits)
  show ?thesis
  proof (cases "ic_flying c = []")
    case True
    with assms(2) wfd(1) unl show ?thesis
      by (auto simp: libusb_get_next_timeout_def lock_flying_def unlock_flying_def pending_timeout_def)
  next
    case False
    then have eq: "libusb_get_next_timeout e c = do {
        next_timeout \<leftarrow> next_timeout_loop (ic_flying c) c;
        if \<not> timerisset next_timeout then Some (0, None, c)
        else if \<not> tv_less (TIMESPEC_TO_TIMEVAL ts) next_timeout then Some (1, Some tv_zero, c)
        else Some (1, Some (timersub next_timeout (TIMESPEC_TO_TIMEVAL ts)), c) }"
      using assms(2,3) wfd(1) unl loop
      by (simp add: libusb_get_next_timeout_def lock_flying_def unlock_flying_def Let_def cong: if_cong)
    from next_timeout_loop_min [OF wfd(3)] show ?thesis
      unfolding eq using zero set by (elim disjE exE conjE) auto
  qed
qed

theorem get_next_timeout_min_witness:
  "(\<forall>t. \<not> pending_timeout ctx_flying t) \<and> libusb_get_next_timeout (env_at 10) ctx_flying = Some (0, None, ctx_flying) \<or>
    (\<exists>t. pending_timeout ctx_flying t \<and>
      (\<forall>u. pending_timeout ctx_flying u \<longrightarrow> \<not> tv_less (timeout_of ctx_flying u) (timeout_of ctx_flying t)) \<and>
      libusb_get_next_timeout (env_at 10) ctx_flying = Some (1, Some
        (if tv_less (TIMESPEC_TO_TIMEVAL \<lparr>ts_sec = 10, ts_nsec = 5000\<rparr>) (timeout_of ctx_flying t)
         then timersub (timeout_of ctx_flying t) (TIMESPEC_TO_TIMEVAL \<lparr>ts_sec = 10, ts_nsec = 5000\<rparr>) else tv_zero), ctx_flying))"
  by (rule get_next_timeout_min [OF ctx_flying_wf])
    (simp_all add: usbi_using_timerfd_def ctx_flying_def ctx_idle_def env_at_def)

subsection \<open>Disconnection\<close>

text \<open>C10. \<open>usbi_handle_disconnect\<close> ends (a bound of one round more than there are transfers in flight is
  enough), for callbacks that do not call back: exactly the transfers of the handle are completed,
  each once, with LIBUSB_TRANSFER_NO_DEVICE, and the others stay in flight, in order.\<close>

theorem handle_disconnect_correct:
  assumes "io_wf c" and "cb_quiet cb" and "length (ic_flying c) < fuel"
    and "\<forall>t \<in> set (ic_flying c). \<forall>x. get_x t c = Some x \<longrightarrow> LIBUSB_TRANSFER_FREE_TRANSFER \<notin> tr_flags x"
  shows "\<exists>c'. usbi_handle_disconnect cb e fuel dh c = Some c' \<and> io_wf c' \<and>
    ic_flying c' = filter (\<lambda>t. \<not> of_handle c dh t) (ic_flying c) \<and>
    (\<forall>t x. get_x t c = Some x \<longrightarrow> get_x t c' = Some (if t \<in> set (ic_flying c) \<and> of_handle c dh t
      then completed x LIBUSB_TRANSFER_NO_DEVICE else x))"
  unfolding usbi_handle_disconnect_def by (rule disconnect_loop_spec [OF assms])

theorem handle_disconnect_correct_witness:
  "\<exists>c'. usbi_handle_disconnect (\<lambda>f t c. Some c) (env_at 10) 2 7 ctx_flying = Some c' \<and> io_wf c' \<and>
    ic_flying c' = filter (\<lambda>t. \<not> of_handle ctx_flying 7 t) (ic_flying ctx_flying)"
proof -
  have "cb_quiet (\<lambda>f t c. Some c)" "length (ic_flying ctx_flying) < 2"
    "\<forall>t \<in> set (ic_flying ctx_flying). \<forall>x. get_x t ctx_flying = Some x \<longrightarrow> LIBUSB_TRANSFER_FREE_TRANSFER \<notin> tr_flags x"
    by (auto simp: cb_quiet_def ctx_flying_def ctx_idle_def get_x_def xfer1_flying_def xfer1_def new_transfer_def)
  from handle_disconnect_correct [OF ctx_flying_wf this, of "env_at 10" 7] show ?thesis by blast
qed

subsection \<open>Two runs in which a timeout goes wrong\<close>

text \<open>A transfer that was completed and is submitted again, now with \<open>timeout\<close> 0 (unlimited).\<close>

definition ctx_reused :: io_ctx where
  "ctx_reused = ctx_idle\<lparr>ic_xfers := [0 \<mapsto> xfer1\<lparr>it_timeout := \<lparr>tv_sec = 11, tv_usec = 5\<rparr>, tr_timeout := 0\<rparr>]\<rparr>"

text \<open>\<open>calculate_timeout\<close> returns early for an unlimited timeout and leaves the absolute timeout of
  the previous submission in place: a transfer that is reused with \<open>timeout\<close> 0 is cancelled, and
  marked as timed out, as soon as timeouts are handled.\<close>

theorem reused_unlimited_transfer_times_out:
  "case libusb_submit_transfer (env_at 20) 0 ctx_reused of
     Some (r, c1) \<Rightarrow> r = 0 \<and>
       (case handle_timeouts (env_at 20) c1 of
          Some (r2, c2) \<Rightarrow>
            (case get_x 0 c2 of
               Some x \<Rightarrow> tr_timeout x = 0 \<and> USBI_TRANSFER_CANCELLING \<in> it_state_flags x \<and>
                 USBI_TRANSFER_TIMED_OUT \<in> it_timeout_flags x
             | None \<Rightarrow> False)
        | None \<Rightarrow> False)
   | None \<Rightarrow> False"
  by code_simp

text \<open>Two transfers of one second on a context with a timerfd.\<close>

definition ctx_timerfd :: io_ctx where
  "ctx_timerfd = ctx_idle\<lparr>ic_timerfd := 5, ic_xfers := [0 \<mapsto> xfer1, 1 \<mapsto> xfer1]\<rparr>"

text \<open>The timerfd is not armed for a transfer that is submitted while an older one, whose timeout
  was already handled, is still waiting for its cancellation: the first is submitted at 10 s, its
  timeout handled at 12 s (which disarms the timer), the second is submitted at 20 s, and the timer
  stays disarmed although the second transfer has a timeout to be handled at 21 s.\<close>

theorem timerfd_left_disarmed:
  "case (do {
      (r1, c1) \<leftarrow> libusb_submit_transfer (env_at 10) 0 ctx_timerfd;
      (r2, c2) \<leftarrow> handle_timerfd_trigger (env_at 12) c1;
      (r3, c3) \<leftarrow> libusb_submit_transfer (env_at 20) 1 c2;
      Some ([r1, r2, r3], c1, c3) }) of
     Some (rs, c1, c3) \<Rightarrow> rs = [0, 0, 0] \<and> ic_timer c1 = Some \<lparr>tv_sec = 11, tv_usec = 5\<rparr> \<and>
       ic_flying c3 = [0, 1] \<and> pending_timeout c3 1 \<and> ic_timer c3 = None
   | None \<Rightarrow> False"
  by code_simp

end
