(* ===== verification/Event_Data.thy ===== *)
theory Event_Data
  imports Usb_Types
begin

text \<open>
  The data that wakes up the event handler (io.c, hotplug.c, core.c): the event pipe, the event
  flags, the count of closing devices, the pending hotplug messages and completed transfers, the
  list of file descriptors to poll, and the locks around them.

  The event pipe is the number of its unread bytes. Its write end does not block: a write to a full
  pipe fails. Its read end does: a read from an empty pipe would wait for ever with
  \<open>event_data_lock\<close> held, so it is modelled as \<open>None\<close>.
\<close>

subsection \<open>State\<close>

datatype event_flag = USBI_EVENT_POLLFDS_MODIFIED | USBI_EVENT_USER_INTERRUPT

abbreviation LIBUSB_HOTPLUG_EVENT_DEVICE_ARRIVED :: u32 where "LIBUSB_HOTPLUG_EVENT_DEVICE_ARRIVED \<equiv> 1"
abbreviation LIBUSB_HOTPLUG_EVENT_DEVICE_LEFT :: u32 where "LIBUSB_HOTPLUG_EVENT_DEVICE_LEFT \<equiv> 2"

record libusb_hotplug_message =
  hm_block :: ptr
  hm_event :: u32
  hm_device :: "ptr option"

record usbi_pollfd =
  pf_block :: ptr
  pf_fd :: int
  pf_events :: int

text \<open>A call of one of the user's notifiers for file descriptors.\<close>

datatype fd_call = FdAdded int int | FdRemoved int

record event_data =
  ed_heap :: heap
  ed_lock :: bool
  ed_event_flags :: "event_flag set"
  ed_device_close :: u32
  ed_hotplug_ready :: bool
  ed_hotplug_msgs :: "libusb_hotplug_message list"
  ed_completed :: "ptr list"
  ed_ipollfds :: "usbi_pollfd list"
  ed_pollfds :: "(int \<times> int) list blk"
  ed_pollfds_cnt :: int
  ed_event_pipe :: "int \<times> int"
  ed_pipe :: nat
  ed_pipe_cap :: nat
  ed_added_cb :: bool
  ed_removed_cb :: bool
  ed_fd_calls :: "fd_call list"
  ed_events_lock :: bool
  ed_handler_active :: bool
  ed_waiters_lock :: bool
  ed_handling :: bool

abbreviation POLLIN :: int where "POLLIN \<equiv> 1"
abbreviation POLLOUT :: int where "POLLOUT \<equiv> 4"

definition lock_event_data :: "event_data \<Rightarrow> event_data option" where
  "lock_event_data d = (if ed_lock d then None else Some (d\<lparr>ed_lock := True\<rparr>))"

definition unlock_event_data :: "event_data \<Rightarrow> event_data option" where
  "unlock_event_data d = (if ed_lock d then Some (d\<lparr>ed_lock := False\<rparr>) else None)"

subsection \<open>The event pipe\<close>

definition usbi_pending_events :: "event_data \<Rightarrow> bool" where
  "usbi_pending_events d \<longleftrightarrow> ed_event_flags d \<noteq> {} \<or> ed_device_close d \<noteq> 0 \<or>
     ed_hotplug_msgs d \<noteq> [] \<or> ed_completed d \<noteq> []"

definition usbi_signal_event :: "event_data \<Rightarrow> int \<times> event_data" where
  "usbi_signal_event d = (if ed_pipe d < ed_pipe_cap d then (0, d\<lparr>ed_pipe := Suc (ed_pipe d)\<rparr>)
     else (LIBUSB_ERROR_IO, d))"

definition usbi_clear_event :: "event_data \<Rightarrow> (int \<times> event_data) option" where
  "usbi_clear_event d = (case ed_pipe d of 0 \<Rightarrow> None | Suc n \<Rightarrow> Some (0, d\<lparr>ed_pipe := n\<rparr>))"

definition signal_unless :: "bool \<Rightarrow> event_data \<Rightarrow> event_data" where
  "signal_unless pending d = (if pending then d else snd (usbi_signal_event d))"

definition clear_unless_pending :: "event_data \<Rightarrow> event_data option" where
  "clear_unless_pending d = (if usbi_pending_events d then Some d
     else do { (_, d1) \<leftarrow> usbi_clear_event d; Some d1 })"

subsection \<open>The sources of events\<close>

definition usbi_fd_notification :: "event_data \<Rightarrow> event_data" where
  "usbi_fd_notification d = signal_unless (usbi_pending_events d)
     (d\<lparr>ed_event_flags := insert USBI_EVENT_POLLFDS_MODIFIED (ed_event_flags d)\<rparr>)"

definition usbi_add_pollfd :: "int \<Rightarrow> int \<Rightarrow> event_data \<Rightarrow> (int \<times> event_data) option" where
  "usbi_add_pollfd fd events d =
     (case c_malloc (ed_heap d) of
        (None, h) \<Rightarrow> Some (LIBUSB_ERROR_NO_MEM, d\<lparr>ed_heap := h\<rparr>)
      | (Some p, h) \<Rightarrow> do {
          d1 \<leftarrow> lock_event_data (d\<lparr>ed_heap := h\<rparr>);
          let d2 = d1\<lparr>ed_ipollfds := ed_ipollfds d1 @ [\<lparr>pf_block = p, pf_fd = fd, pf_events = events\<rparr>],
                      ed_pollfds_cnt := ed_pollfds_cnt d1 + 1\<rparr>;
          d3 \<leftarrow> unlock_event_data (usbi_fd_notification d2);
          Some (0, if ed_added_cb d3 then d3\<lparr>ed_fd_calls := ed_fd_calls d3 @ [FdAdded fd events]\<rparr> else d3)
        })"

definition usbi_remove_pollfd :: "int \<Rightarrow> event_data \<Rightarrow> event_data option" where
  "usbi_remove_pollfd fd d = do {
     d1 \<leftarrow> lock_event_data d;
     (case find (\<lambda>f. pf_fd f = fd) (ed_ipollfds d1) of
        None \<Rightarrow> unlock_event_data d1
      | Some f \<Rightarrow> do {
          let d2 = d1\<lparr>ed_ipollfds := remove1 f (ed_ipollfds d1), ed_pollfds_cnt := ed_pollfds_cnt d1 - 1\<rparr>;
          d3 \<leftarrow> unlock_event_data (usbi_fd_notification d2);
          h \<leftarrow> c_release (pf_block f) (ed_heap d3);
          let d4 = d3\<lparr>ed_heap := h\<rparr>;
          Some (if ed_removed_cb d4 then d4\<lparr>ed_fd_calls := ed_fd_calls d4 @ [FdRemoved fd]\<rparr> else d4)
        })
   }"

definition usbi_signal_transfer_completion :: "ptr \<Rightarrow> event_data \<Rightarrow> event_data option" where
  "usbi_signal_transfer_completion t d = do {
     d1 \<leftarrow> lock_event_data d;
     let pending_events = usbi_pending_events d1;
     unlock_event_data (signal_unless pending_events (d1\<lparr>ed_completed := ed_completed d1 @ [t]\<rparr>))
   }"

definition usbi_hotplug_notification :: "ptr option \<Rightarrow> u32 \<Rightarrow> event_data \<Rightarrow> event_data option" where
  "usbi_hotplug_notification dev event d =
     (case c_malloc (ed_heap d) of
        (None, h) \<Rightarrow> Some (d\<lparr>ed_heap := h\<rparr>)
      | (Some p, h) \<Rightarrow> do {
          d1 \<leftarrow> lock_event_data (d\<lparr>ed_heap := h\<rparr>);
          let pending_events = usbi_pending_events d1;
          unlock_event_data (signal_unless pending_events (d1\<lparr>ed_hotplug_msgs :=
            ed_hotplug_msgs d1 @ [\<lparr>hm_block = p, hm_event = event, hm_device = dev\<rparr>]\<rparr>))
        })"

definition libusb_interrupt_event_handler :: "event_data \<Rightarrow> event_data option" where
  "libusb_interrupt_event_handler d = do {
     d1 \<leftarrow> lock_event_data d;
     unlock_event_data (if \<not> usbi_pending_events d1
       then snd (usbi_signal_event (d1\<lparr>ed_event_flags := insert USBI_EVENT_USER_INTERRUPT (ed_event_flags d1)\<rparr>))
       else d1)
   }"

text \<open>What \<open>libusb_close\<close> does before and after it closes a device, when its thread is not the event handler.\<close>

definition close_begin :: "event_data \<Rightarrow> event_data option" where
  "close_begin d = do {
     d1 \<leftarrow> lock_event_data d;
     let pending_events = usbi_pending_events d1;
     unlock_event_data (signal_unless pending_events (d1\<lparr>ed_device_close := ed_device_close d1 + 1\<rparr>))
   }"

definition close_end :: "event_data \<Rightarrow> event_data option" where
  "close_end d = do {
     d1 \<leftarrow> lock_event_data d;
     d2 \<leftarrow> clear_unless_pending (d1\<lparr>ed_device_close := ed_device_close d1 - 1\<rparr>);
     unlock_event_data d2
   }"

subsection \<open>The events lock\<close>

definition libusb_try_lock_events :: "event_data \<Rightarrow> (int \<times> event_data) option" where
  "libusb_try_lock_events d = do {
     d1 \<leftarrow> lock_event_data d;
     let ru = ed_device_close d1;
     d2 \<leftarrow> unlock_event_data d1;
     if ru \<noteq> 0 then Some (1, d2)
     else if ed_events_lock d2 then Some (1, d2)
     else Some (0, d2\<lparr>ed_events_lock := True, ed_handler_active := True\<rparr>)
   }"

text \<open>\<open>None\<close>: the lock is held, the thread has to wait.\<close>

definition libusb_lock_events :: "event_data \<Rightarrow> event_data option" where
  "libusb_lock_events d = (if ed_events_lock d then None
     else Some (d\<lparr>ed_events_lock := True, ed_handler_active := True\<rparr>))"

definition libusb_lock_event_waiters :: "event_data \<Rightarrow> event_data option" where
  "libusb_lock_event_waiters d = (if ed_waiters_lock d then None else Some (d\<lparr>ed_waiters_lock := True\<rparr>))"

definition libusb_unlock_event_waiters :: "event_data \<Rightarrow> event_data option" where
  "libusb_unlock_event_waiters d = (if ed_waiters_lock d then Some (d\<lparr>ed_waiters_lock := False\<rparr>) else None)"

definition libusb_unlock_events :: "event_data \<Rightarrow> event_data option" where
  "libusb_unlock_events d = do {
     let d1 = d\<lparr>ed_handler_active := False\<rparr>;
     d2 \<leftarrow> (if ed_events_lock d1 then Some (d1\<lparr>ed_events_lock := False\<rparr>) else None);
     d3 \<leftarrow> libusb_lock_event_waiters d2;
     libusb_unlock_event_waiters d3
   }"

definition libusb_event_handling_ok :: "event_data \<Rightarrow> (int \<times> event_data) option" where
  "libusb_event_handling_ok d = do {
     d1 \<leftarrow> lock_event_data d;
     let r = ed_device_close d1;
     d2 \<leftarrow> unlock_event_data d1;
     if r \<noteq> 0 then Some (0, d2) else Some (1, d2)
   }"

definition libusb_event_handler_active :: "event_data \<Rightarrow> (int \<times> event_data) option" where
  "libusb_event_handler_active d = do {
     d1 \<leftarrow> lock_event_data d;
     let r = ed_device_close d1;
     d2 \<leftarrow> unlock_event_data d1;
     if r \<noteq> 0 then Some (1, d2) else Some (if ed_handler_active d2 then 1 else 0, d2)
   }"

text \<open>The wait on the condition is the environment's: the result of the timed wait, if a time is given.\<close>

definition libusb_wait_for_event :: "int option \<Rightarrow> event_data \<Rightarrow> (int \<times> event_data) option" where
  "libusb_wait_for_event timedwait d =
     (if \<not> ed_waiters_lock d then None
      else (case timedwait of
          None \<Rightarrow> Some (0, d)
        | Some r \<Rightarrow> if r < 0 then Some (r, d) else Some (if r = 110 then 1 else 0, d)))"

subsection \<open>Poll descriptors for the user\<close>

definition libusb_set_pollfd_notifiers :: "bool \<Rightarrow> bool \<Rightarrow> event_data \<Rightarrow> event_data" where
  "libusb_set_pollfd_notifiers added_cb removed_cb d = d\<lparr>ed_added_cb := added_cb, ed_removed_cb := removed_cb\<rparr>"

text \<open>The array has \<open>pollfds_cnt + 1\<close> entries; storing more is a fault.\<close>

definition libusb_get_pollfds :: "event_data \<Rightarrow> (usbi_pollfd option list blk \<times> event_data) option" where
  "libusb_get_pollfds d = do {
     d1 \<leftarrow> lock_event_data d;
     (case c_malloc (ed_heap d1) of
        (None, h) \<Rightarrow> do { d2 \<leftarrow> unlock_event_data (d1\<lparr>ed_heap := h\<rparr>); Some (None, d2) }
      | (Some p, h) \<Rightarrow>
          if int (length (ed_ipollfds d1)) \<le> ed_pollfds_cnt d1 + 1 \<and> 0 \<le> ed_pollfds_cnt d1 then do {
            let n = nat (ed_pollfds_cnt d1);
            let ret = map Some (ed_ipollfds d1) @ replicate (Suc n - length (ed_ipollfds d1)) None;
            d2 \<leftarrow> unlock_event_data (d1\<lparr>ed_heap := h\<rparr>);
            Some (Some (p, ret[n := None]), d2)
          }
          else None)
   }"

definition libusb_free_pollfds :: "usbi_pollfd option list blk \<Rightarrow> event_data \<Rightarrow> event_data option" where
  "libusb_free_pollfds pollfds d = (case pollfds of
       None \<Rightarrow> Some d
     | Some (p, _) \<Rightarrow> do { h \<leftarrow> c_release p (ed_heap d); Some (d\<lparr>ed_heap := h\<rparr>) })"

subsection \<open>Initialisation\<close>

text \<open>The file descriptors are what the system gives: the pipe's result and ends, and the timerfd's.\<close>

definition usbi_io_init :: "int \<times> int \<times> int \<Rightarrow> int \<Rightarrow> event_data \<Rightarrow> (int \<times> int \<times> event_data) option" where
  "usbi_io_init pipe timerfd_create d0 =
     (let d = d0\<lparr>ed_ipollfds := [], ed_hotplug_msgs := [], ed_completed := [], ed_hotplug_ready := True,
                 ed_events_lock := False, ed_waiters_lock := False, ed_lock := False, ed_handling := False\<rparr> in
      case pipe of (r, fd0, fd1) \<Rightarrow>
        if r < 0 then Some (LIBUSB_ERROR_OTHER, 0, d)
        else do {
          (r1, d1) \<leftarrow> usbi_add_pollfd fd0 POLLIN (d\<lparr>ed_event_pipe := (fd0, fd1), ed_pipe := 0\<rparr>);
          if r1 < 0 then Some (r1, 0, d1)
          else if 0 \<le> timerfd_create then do {
            (r2, d2) \<leftarrow> usbi_add_pollfd timerfd_create POLLIN d1;
            if r2 < 0 then do { d3 \<leftarrow> usbi_remove_pollfd fd0 d2; Some (r2, timerfd_create, d3) }
            else Some (0, timerfd_create, d2)
          }
          else Some (0, -1, d1)
        })"

definition usbi_io_exit :: "int \<Rightarrow> event_data \<Rightarrow> event_data option" where
  "usbi_io_exit timerfd d = do {
     d1 \<leftarrow> usbi_remove_pollfd (fst (ed_event_pipe d)) d;
     d2 \<leftarrow> (if 0 \<le> timerfd then usbi_remove_pollfd timerfd d1 else Some d1);
     h \<leftarrow> c_free (blk_ptr (ed_pollfds d2)) (ed_heap d2);
     Some (d2\<lparr>ed_heap := h\<rparr>)
   }"

subsection \<open>The event handler's critical sections\<close>

text \<open>\<open>handle_events\<close> before \<open>poll\<close>: the array of descriptors is built again when they changed. The assertion on
  the number of descriptors is a fault when it does not hold, as is a store outside the array.\<close>

definition poll_setup :: "bool \<Rightarrow> event_data \<Rightarrow> (int \<times> event_data) option" where
  "poll_setup using_timerfd d = do {
     let internal_nfds = (if using_timerfd then 2 else 1);
     d1 \<leftarrow> lock_event_data d;
     if USBI_EVENT_POLLFDS_MODIFIED \<in> ed_event_flags d1 then do {
       h1 \<leftarrow> c_free (blk_ptr (ed_pollfds d1)) (ed_heap d1);
       if ed_pollfds_cnt d1 < internal_nfds then None
       else (case c_malloc h1 of
           (None, h2) \<Rightarrow> do {
             d2 \<leftarrow> unlock_event_data (d1\<lparr>ed_heap := h2, ed_pollfds := None\<rparr>);
             Some (LIBUSB_ERROR_NO_MEM, d2)
           }
         | (Some p, h2) \<Rightarrow>
             if ed_pollfds_cnt d1 < int (length (ed_ipollfds d1)) then None
             else do {
               d2 \<leftarrow> clear_unless_pending (d1\<lparr>ed_heap := h2,
                 ed_pollfds := Some (p, map (\<lambda>f. (pf_fd f, pf_events f)) (ed_ipollfds d1) @
                   replicate (nat (ed_pollfds_cnt d1) - length (ed_ipollfds d1)) (0, 0)),
                 ed_event_flags := ed_event_flags d1 - {USBI_EVENT_POLLFDS_MODIFIED}\<rparr>);
               d3 \<leftarrow> unlock_event_data d2;
               Some (0, d3)
             })
     }
     else do { d2 \<leftarrow> unlock_event_data d1; Some (0, d2) }
   }"

text \<open>The start of the work on the event pipe: the lock is taken, an interrupt is noted, and the first
  hotplug message is taken off its list.\<close>

definition pipe_begin :: "event_data \<Rightarrow> (libusb_hotplug_message option \<times> event_data) option" where
  "pipe_begin d = do {
     d1 \<leftarrow> lock_event_data d;
     let d2 = d1\<lparr>ed_event_flags := ed_event_flags d1 - {USBI_EVENT_USER_INTERRUPT}\<rparr>;
     (case ed_hotplug_msgs d2 of
        [] \<Rightarrow> Some (None, d2)
      | message # ms \<Rightarrow> Some (Some message, d2\<lparr>ed_hotplug_msgs := ms\<rparr>))
   }"

text \<open>One round of the loop over completed transfers, up to the call of the backend.\<close>

definition complete_begin :: "event_data \<Rightarrow> (ptr option \<times> event_data) option" where
  "complete_begin d =
     (case ed_completed d of
        [] \<Rightarrow> Some (None, d)
      | t # ts \<Rightarrow> do { d1 \<leftarrow> unlock_event_data (d\<lparr>ed_completed := ts\<rparr>); Some (Some t, d1) })"

definition pipe_end :: "event_data \<Rightarrow> event_data option" where
  "pipe_end d = do { d1 \<leftarrow> clear_unless_pending d; unlock_event_data d1 }"

end
