(* ===== verification/Event_Protocol.thy ===== *)
theory Event_Protocol
  imports Event_Data
begin

text \<open>
  The event pipe under concurrency. Threads that add or remove descriptors, interrupt the handler,
  complete transfers, report hotplug events or close devices interleave, one critical section of
  \<open>event_data_lock\<close> at a time, with the one thread that handles events. A system state is the data
  of Event_Data with the position of the holder of the events lock and the hotplug message it has taken.

  The invariant \<open>proto_inv\<close> holds in every reachable state. It says that no wake-up is lost (there is
  a byte in the pipe whenever an event is pending), that the pipe is never read while it is empty, and
  that the blocks of descriptors and messages are live and not shared.
\<close>

subsection \<open>Laws of the operations\<close>

named_theorems ev_defs \<open>definitions of the critical sections\<close>

lemma pending_update [simp]:
  "usbi_pending_events (d\<lparr>ed_lock := b\<rparr>) = usbi_pending_events d"
  "usbi_pending_events (d\<lparr>ed_heap := h\<rparr>) = usbi_pending_events d"
  "usbi_pending_events (d\<lparr>ed_pipe := n\<rparr>) = usbi_pending_events d"
  "usbi_pending_events (d\<lparr>ed_pollfds := a\<rparr>) = usbi_pending_events d"
  "usbi_pending_events (d\<lparr>ed_fd_calls := f\<rparr>) = usbi_pending_events d"
  "usbi_pending_events (d\<lparr>ed_handler_active := b\<rparr>) = usbi_pending_events d"
  "usbi_pending_events (d\<lparr>ed_events_lock := b\<rparr>) = usbi_pending_events d"
  "usbi_pending_events (d\<lparr>ed_ipollfds := x, ed_pollfds_cnt := k\<rparr>) = usbi_pending_events d"
  "usbi_pending_events (d\<lparr>ed_waiters_lock := b\<rparr>) = usbi_pending_events d"
  by (simp_all add: usbi_pending_events_def)

lemma pending_add [simp]:
  "usbi_pending_events (d\<lparr>ed_event_flags := insert f F\<rparr>)"
  "usbi_pending_events (d\<lparr>ed_completed := ts @ [t]\<rparr>)"
  "usbi_pending_events (d\<lparr>ed_hotplug_msgs := ms @ [m]\<rparr>)"
  by (simp_all add: usbi_pending_events_def)

text \<open>The number of bytes in the pipe after a signal that is sent unless an event is pending.\<close>

definition signalled :: "event_data \<Rightarrow> nat" where
  "signalled d = (if usbi_pending_events d \<or> ed_pipe_cap d \<le> ed_pipe d then ed_pipe d else Suc (ed_pipe d))"

lemma signalled_mono: "ed_pipe d \<le> signalled d"
  by (simp add: signalled_def)

lemma signalled_pos: "0 < ed_pipe_cap d \<Longrightarrow> (usbi_pending_events d \<Longrightarrow> 0 < ed_pipe d) \<Longrightarrow> 0 < signalled d"
  by (auto simp: signalled_def)

lemma unlock_idle [simp]: "\<not> ed_lock d \<Longrightarrow> d\<lparr>ed_lock := False\<rparr> = d"
  by simp

text \<open>A critical section of \<open>event_data_lock\<close> that stores \<open>f\<close> and signals.\<close>

lemma section_eq:
  assumes "\<not> ed_lock d" and "f (d\<lparr>ed_lock := True\<rparr>) = (f d)\<lparr>ed_lock := True\<rparr>" and "\<not> ed_lock (f d)"
    and "ed_pipe (f d) = ed_pipe d" and "ed_pipe_cap (f d) = ed_pipe_cap d"
  shows "unlock_event_data (signal_unless (usbi_pending_events d) (f (d\<lparr>ed_lock := True\<rparr>))) =
    Some ((f d)\<lparr>ed_pipe := signalled d\<rparr>)"
  unfolding assms(2)
  by (cases "f d") (use assms(3-5) in \<open>auto simp: signal_unless_def usbi_signal_event_def
      unlock_event_data_def signalled_def\<close>)

lemma lock_event_dataD: "lock_event_data d = Some d1 \<Longrightarrow> \<not> ed_lock d \<and> d1 = d\<lparr>ed_lock := True\<rparr>"
  by (auto simp: lock_event_data_def split: if_splits)

lemma clear_unless_pending_eq:
  "0 < ed_pipe d \<Longrightarrow> clear_unless_pending d =
     Some (if usbi_pending_events d then d else d\<lparr>ed_pipe := ed_pipe d - 1\<rparr>)"
  by (auto simp: clear_unless_pending_def usbi_clear_event_def split: nat.split)

subsection \<open>The system\<close>

datatype phase = Idle | Closing | Handling | InPipe | InBackend

record proto =
  ps_data :: event_data
  ps_phase :: phase
  ps_message :: "libusb_hotplug_message option"

abbreviation pstate :: "event_data \<Rightarrow> phase \<Rightarrow> libusb_hotplug_message option \<Rightarrow> proto" where
  "pstate d ph m \<equiv> \<lparr>ps_data = d, ps_phase = ph, ps_message = m\<rparr>"

text \<open>\<open>tfd\<close> is the timerfd, negative when there is none. A backend removes only descriptors of its own.\<close>

definition internal_fd :: "int \<Rightarrow> event_data \<Rightarrow> int \<Rightarrow> bool" where
  "internal_fd tfd d fd \<longleftrightarrow> fd = fst (ed_event_pipe d) \<or> 0 \<le> tfd \<and> fd = tfd"

inductive pstep :: "int \<Rightarrow> proto \<Rightarrow> proto \<Rightarrow> bool" for tfd :: int where
  add_pollfd: "usbi_add_pollfd fd events d = Some (r, d') \<Longrightarrow> pstep tfd (pstate d ph m) (pstate d' ph m)"
| remove_pollfd: "\<not> internal_fd tfd d fd \<Longrightarrow> usbi_remove_pollfd fd d = Some d' \<Longrightarrow>
    pstep tfd (pstate d ph m) (pstate d' ph m)"
| transfer_completion: "usbi_signal_transfer_completion t d = Some d' \<Longrightarrow>
    pstep tfd (pstate d ph m) (pstate d' ph m)"
| hotplug: "usbi_hotplug_notification dev event d = Some d' \<Longrightarrow> pstep tfd (pstate d ph m) (pstate d' ph m)"
| interrupt: "libusb_interrupt_event_handler d = Some d' \<Longrightarrow> pstep tfd (pstate d ph m) (pstate d' ph m)"
| close_begins: "ed_device_close d + 1 \<noteq> 0 \<Longrightarrow> close_begin d = Some d' \<Longrightarrow>
    pstep tfd (pstate d ph m) (pstate d' ph m)"
| close_locks: "ed_device_close d \<noteq> 0 \<Longrightarrow> libusb_lock_events d = Some d' \<Longrightarrow>
    pstep tfd (pstate d Idle m) (pstate d' Closing m)"
| close_ends: "close_end d = Some d1 \<Longrightarrow> libusb_unlock_events d1 = Some d' \<Longrightarrow>
    pstep tfd (pstate d Closing m) (pstate d' Idle m)"
| handler_starts: "libusb_try_lock_events d = Some (0, d') \<Longrightarrow>
    pstep tfd (pstate d Idle m) (pstate d' Handling m)"
| polls: "poll_setup (0 \<le> tfd) d = Some (r, d') \<Longrightarrow> pstep tfd (pstate d Handling m) (pstate d' Handling m)"
| pipe_begins: "0 < ed_pipe d \<Longrightarrow> pipe_begin d = Some (m', d') \<Longrightarrow>
    pstep tfd (pstate d Handling None) (pstate d' InPipe m')"
| completes: "complete_begin d = Some (Some t, d') \<Longrightarrow> pstep tfd (pstate d InPipe m) (pstate d' InBackend m)"
| backend_returns: "lock_event_data d = Some d' \<Longrightarrow> pstep tfd (pstate d InBackend m) (pstate d' InPipe m)"
| pipe_ends: "pipe_end d = Some d' \<Longrightarrow> pstep tfd (pstate d InPipe m) (pstate d' Handling m)"
| message_freed: "c_release (hm_block msg) (ed_heap d) = Some h \<Longrightarrow>
    pstep tfd (pstate d Handling (Some msg)) (pstate (d\<lparr>ed_heap := h\<rparr>) Handling None)"
| handler_stops: "libusb_unlock_events d = Some d' \<Longrightarrow> pstep tfd (pstate d Handling None) (pstate d' Idle None)"

inductive preach :: "int \<Rightarrow> proto \<Rightarrow> proto \<Rightarrow> bool" for tfd :: int and s0 :: proto where
  start: "preach tfd s0 s0"
| step: "preach tfd s0 s \<Longrightarrow> pstep tfd s s' \<Longrightarrow> preach tfd s0 s'"

subsection \<open>The invariant\<close>

definition ed_blocks :: "event_data \<Rightarrow> ptr list" where
  "ed_blocks d = map pf_block (ed_ipollfds d) @ map hm_block (ed_hotplug_msgs d) @ blk_ptrs (ed_pollfds d)"

definition msg_blocks :: "libusb_hotplug_message option \<Rightarrow> ptr list" where
  "msg_blocks m = (case m of None \<Rightarrow> [] | Some msg \<Rightarrow> [hm_block msg])"

lemma msg_blocks_simps [simp]: "msg_blocks None = []" "msg_blocks (Some msg) = [hm_block msg]"
  by (simp_all add: msg_blocks_def)

definition awake :: "event_data \<Rightarrow> phase \<Rightarrow> bool" where
  "awake d ph \<longleftrightarrow> 0 < ed_pipe_cap d \<and> (usbi_pending_events d \<or> ph \<in> {InPipe, InBackend} \<longrightarrow> 0 < ed_pipe d)"

definition locks_ok :: "event_data \<Rightarrow> phase \<Rightarrow> bool" where
  "locks_ok d ph \<longleftrightarrow> (ed_lock d \<longleftrightarrow> ph = InPipe) \<and> (ed_events_lock d \<longleftrightarrow> ph \<noteq> Idle) \<and> \<not> ed_waiters_lock d \<and>
     (ph = Closing \<longrightarrow> ed_device_close d \<noteq> 0)"

definition blocks_ok :: "event_data \<Rightarrow> libusb_hotplug_message option \<Rightarrow> bool" where
  "blocks_ok d m \<longleftrightarrow> heap_wf (ed_heap d) \<and> distinct (msg_blocks m @ ed_blocks d) \<and>
     set (msg_blocks m @ ed_blocks d) \<subseteq> hp_live (ed_heap d)"

definition fds_ok :: "int \<Rightarrow> event_data \<Rightarrow> bool" where
  "fds_ok tfd d \<longleftrightarrow> ed_pollfds_cnt d = int (length (ed_ipollfds d)) \<and>
     fst (ed_event_pipe d) \<in> pf_fd ` set (ed_ipollfds d) \<and>
     (0 \<le> tfd \<longrightarrow> tfd \<in> pf_fd ` set (ed_ipollfds d) \<and> tfd \<noteq> fst (ed_event_pipe d))"

definition proto_inv :: "int \<Rightarrow> proto \<Rightarrow> bool" where
  "proto_inv tfd s \<longleftrightarrow> awake (ps_data s) (ps_phase s) \<and> locks_ok (ps_data s) (ps_phase s) \<and>
     blocks_ok (ps_data s) (ps_message s) \<and> fds_ok tfd (ps_data s)"

lemma proto_invI:
  "awake d ph \<Longrightarrow> locks_ok d ph \<Longrightarrow> blocks_ok d m \<Longrightarrow> fds_ok tfd d \<Longrightarrow> proto_inv tfd (pstate d ph m)"
  by (simp add: proto_inv_def)

lemma proto_inv_pstate:
  "proto_inv tfd (pstate d ph m) \<longleftrightarrow> awake d ph \<and> locks_ok d ph \<and> blocks_ok d m \<and> fds_ok tfd d"
  by (simp add: proto_inv_def)

lemma proto_invE:
  assumes "proto_inv tfd (pstate d ph m)"
  obtains "awake d ph" "locks_ok d ph" "blocks_ok d m" "fds_ok tfd d"
  using assms by (simp add: proto_inv_def)


subsection \<open>What the operations do\<close>

text \<open>A critical section that adds an event: \<open>f\<close> is what it stores while it holds the lock.\<close>

definition adds_event :: "(event_data \<Rightarrow> event_data) \<Rightarrow> event_data \<Rightarrow> event_data \<Rightarrow> bool" where
  "adds_event f d d' \<longleftrightarrow> \<not> ed_lock d \<and> d' = (f d)\<lparr>ed_pipe := signalled d\<rparr>"

lemma awake_adds_event:
  assumes "awake d ph" and "adds_event f d d'" and "ed_pipe_cap (f d) = ed_pipe_cap d"
  shows "awake d' ph"
  using assms signalled_pos [of d] by (auto simp: awake_def adds_event_def)

lemma transfer_completion_adds:
  assumes "usbi_signal_transfer_completion t d = Some d'"
  shows "adds_event (\<lambda>d. d\<lparr>ed_completed := ed_completed d @ [t]\<rparr>) d d'"
  using assms section_eq [of d "\<lambda>d. d\<lparr>ed_completed := ed_completed d @ [t]\<rparr>"]
  by (auto simp: usbi_signal_transfer_completion_def adds_event_def dest!: lock_event_dataD elim!: bind_SomeE)

lemma close_begin_adds:
  assumes "close_begin d = Some d'"
  shows "adds_event (\<lambda>d. d\<lparr>ed_device_close := ed_device_close d + 1\<rparr>) d d'"
  using assms section_eq [of d "\<lambda>d. d\<lparr>ed_device_close := ed_device_close d + 1\<rparr>"]
  by (auto simp: close_begin_def adds_event_def dest!: lock_event_dataD elim!: bind_SomeE)

lemma interrupt_adds:
  assumes "libusb_interrupt_event_handler d = Some d'"
  obtains "usbi_pending_events d" "d' = d" "\<not> ed_lock d"
  | "adds_event (\<lambda>d. d\<lparr>ed_event_flags := insert USBI_EVENT_USER_INTERRUPT (ed_event_flags d)\<rparr>) d d'"
proof (cases "usbi_pending_events d")
  case True
  with assms that(1) show ?thesis
    by (auto simp: libusb_interrupt_event_handler_def unlock_event_data_def dest!: lock_event_dataD elim!: bind_SomeE)
next
  case False
  with assms section_eq [of d "\<lambda>d. d\<lparr>ed_event_flags := insert USBI_EVENT_USER_INTERRUPT (ed_event_flags d)\<rparr>"] that(2)
  show ?thesis
    by (auto simp: libusb_interrupt_event_handler_def adds_event_def signal_unless_def dest!: lock_event_dataD elim!: bind_SomeE)
qed

lemma hotplug_adds:
  assumes "usbi_hotplug_notification dev event d = Some d'"
  obtains h where "c_malloc (ed_heap d) = (None, h)" "d' = d\<lparr>ed_heap := h\<rparr>"
  | p h where "c_malloc (ed_heap d) = (Some p, h)"
      "adds_event (\<lambda>d. d\<lparr>ed_hotplug_msgs := ed_hotplug_msgs d @
        [\<lparr>hm_block = p, hm_event = event, hm_device = dev\<rparr>]\<rparr>) (d\<lparr>ed_heap := h\<rparr>) d'"
proof (cases "c_malloc (ed_heap d)")
  case (Pair q h)
  show ?thesis
  proof (cases q)
    case None
    with Pair assms that(1) show ?thesis by (simp add: usbi_hotplug_notification_def)
  next
    case (Some p)
    with Pair assms that(2) section_eq [of "d\<lparr>ed_heap := h\<rparr>" "\<lambda>d. d\<lparr>ed_hotplug_msgs := ed_hotplug_msgs d @
        [\<lparr>hm_block = p, hm_event = event, hm_device = dev\<rparr>]\<rparr>"] show ?thesis
      by (auto simp: usbi_hotplug_notification_def adds_event_def dest!: lock_event_dataD elim!: bind_SomeE)
  qed
qed

lemma calls_upd: "(if b then d\<lparr>ed_fd_calls := x\<rparr> else d) = d\<lparr>ed_fd_calls := if b then x else ed_fd_calls d\<rparr>"
  by simp

text \<open>Notifiers of the user are called after the lock was released: their calls are appended at the end.\<close>

lemma add_pollfd_adds:
  assumes "usbi_add_pollfd fd events d = Some (r, d')"
  obtains h where "c_malloc (ed_heap d) = (None, h)" "d' = d\<lparr>ed_heap := h\<rparr>" "r = LIBUSB_ERROR_NO_MEM"
  | p h d1 calls where "c_malloc (ed_heap d) = (Some p, h)" "r = 0" "d' = d1\<lparr>ed_fd_calls := calls\<rparr>"
      "adds_event (\<lambda>d. d\<lparr>ed_ipollfds := ed_ipollfds d @ [\<lparr>pf_block = p, pf_fd = fd, pf_events = events\<rparr>],
          ed_pollfds_cnt := ed_pollfds_cnt d + 1,
          ed_event_flags := insert USBI_EVENT_POLLFDS_MODIFIED (ed_event_flags d)\<rparr>) (d\<lparr>ed_heap := h\<rparr>) d1"
proof (cases "c_malloc (ed_heap d)")
  case (Pair q h)
  show ?thesis
  proof (cases q)
    case None
    with Pair assms that(1) show ?thesis by (simp add: usbi_add_pollfd_def)
  next
    case (Some p)
    let ?f = "\<lambda>d. d\<lparr>ed_ipollfds := ed_ipollfds d @ [\<lparr>pf_block = p, pf_fd = fd, pf_events = events\<rparr>],
          ed_pollfds_cnt := ed_pollfds_cnt d + 1,
          ed_event_flags := insert USBI_EVENT_POLLFDS_MODIFIED (ed_event_flags d)\<rparr>"
    from assms Pair Some have l: "\<not> ed_lock d" by (auto simp: usbi_add_pollfd_def dest!: lock_event_dataD elim!: bind_SomeE)
    then have "adds_event ?f (d\<lparr>ed_heap := h\<rparr>) ((?f (d\<lparr>ed_heap := h\<rparr>))\<lparr>ed_pipe := signalled (d\<lparr>ed_heap := h\<rparr>)\<rparr>)"
      (is "adds_event _ _ ?d1") by (simp add: adds_event_def)
    moreover from assms Pair Some l section_eq [of "d\<lparr>ed_heap := h\<rparr>" ?f] obtain calls where
      "r = 0" "d' = ?d1\<lparr>ed_fd_calls := calls\<rparr>"
      by (auto simp: usbi_add_pollfd_def usbi_fd_notification_def lock_event_data_def calls_upd Let_def simp del: if_Some_eq_Some)
    ultimately show ?thesis using Pair Some that(2) by blast
  qed
qed

lemma remove_pollfd_adds:
  assumes "usbi_remove_pollfd fd d = Some d'"
  obtains "fd \<notin> pf_fd ` set (ed_ipollfds d)" "d' = d" "\<not> ed_lock d"
  | f h d1 calls where "f \<in> set (ed_ipollfds d)" "pf_fd f = fd" "c_release (pf_block f) (ed_heap d) = Some h"
      "d' = d1\<lparr>ed_heap := h, ed_fd_calls := calls\<rparr>"
      "adds_event (\<lambda>d. d\<lparr>ed_ipollfds := remove1 f (ed_ipollfds d), ed_pollfds_cnt := ed_pollfds_cnt d - 1,
          ed_event_flags := insert USBI_EVENT_POLLFDS_MODIFIED (ed_event_flags d)\<rparr>) d d1"
proof -
  from assms have l: "\<not> ed_lock d" by (auto simp: usbi_remove_pollfd_def dest!: lock_event_dataD elim!: bind_SomeE)
  show ?thesis
  proof (cases "find (\<lambda>f. pf_fd f = fd) (ed_ipollfds d)")
    case None
    from assms l None have "d' = d"
      by (auto simp: usbi_remove_pollfd_def lock_event_data_def unlock_event_data_def)
    with None l that(1) show ?thesis by (auto simp: find_None_iff)
  next
    case (Some f)
    let ?f = "\<lambda>d. d\<lparr>ed_ipollfds := remove1 f (ed_ipollfds d), ed_pollfds_cnt := ed_pollfds_cnt d - 1,
          ed_event_flags := insert USBI_EVENT_POLLFDS_MODIFIED (ed_event_flags d)\<rparr>"
    from l have "adds_event ?f d ((?f d)\<lparr>ed_pipe := signalled d\<rparr>)" (is "adds_event _ _ ?d1")
      by (simp add: adds_event_def)
    moreover from assms Some l section_eq [of d ?f] obtain h calls where
      "c_release (pf_block f) (ed_heap d) = Some h" "d' = ?d1\<lparr>ed_heap := h, ed_fd_calls := calls\<rparr>"
      by (auto simp: usbi_remove_pollfd_def usbi_fd_notification_def lock_event_data_def calls_upd Let_def elim!: bind_SomeE)
    moreover from Some have "f \<in> set (ed_ipollfds d)" "pf_fd f = fd"
      by (auto simp: find_Some_iff in_set_conv_nth)
    ultimately show ?thesis using that(2) by blast
  qed
qed


subsection \<open>Preservation\<close>

lemma awake_fields [simp]:
  "awake (d\<lparr>ed_heap := h\<rparr>) ph = awake d ph" "awake (d\<lparr>ed_fd_calls := c\<rparr>) ph = awake d ph"
  "awake (d\<lparr>ed_heap := h, ed_fd_calls := c\<rparr>) ph = awake d ph"
  by (simp_all add: awake_def usbi_pending_events_def)

lemma locks_ok_fields [simp]:
  "locks_ok (d\<lparr>ed_heap := h\<rparr>) ph = locks_ok d ph" "locks_ok (d\<lparr>ed_pipe := n\<rparr>) ph = locks_ok d ph"
  "locks_ok (d\<lparr>ed_fd_calls := c\<rparr>) ph = locks_ok d ph" "locks_ok (d\<lparr>ed_pollfds_cnt := k\<rparr>) ph = locks_ok d ph"
  "locks_ok (d\<lparr>ed_ipollfds := fs\<rparr>) ph = locks_ok d ph"
  "locks_ok (d\<lparr>ed_completed := ts\<rparr>) ph = locks_ok d ph" "locks_ok (d\<lparr>ed_hotplug_msgs := ms\<rparr>) ph = locks_ok d ph"
  "locks_ok (d\<lparr>ed_event_flags := F\<rparr>) ph = locks_ok d ph"
  by (simp_all add: locks_ok_def)

lemma fds_ok_fields [simp]:
  "fds_ok tfd (d\<lparr>ed_heap := h\<rparr>) = fds_ok tfd d" "fds_ok tfd (d\<lparr>ed_pipe := n\<rparr>) = fds_ok tfd d"
  "fds_ok tfd (d\<lparr>ed_fd_calls := c\<rparr>) = fds_ok tfd d" "fds_ok tfd (d\<lparr>ed_lock := b\<rparr>) = fds_ok tfd d"
  "fds_ok tfd (d\<lparr>ed_completed := ts\<rparr>) = fds_ok tfd d" "fds_ok tfd (d\<lparr>ed_hotplug_msgs := ms\<rparr>) = fds_ok tfd d"
  "fds_ok tfd (d\<lparr>ed_event_flags := F\<rparr>) = fds_ok tfd d" "fds_ok tfd (d\<lparr>ed_device_close := k\<rparr>) = fds_ok tfd d"
  "fds_ok tfd (d\<lparr>ed_pollfds := a\<rparr>) = fds_ok tfd d"
  "fds_ok tfd (d\<lparr>ed_events_lock := b\<rparr>) = fds_ok tfd d" "fds_ok tfd (d\<lparr>ed_handler_active := b\<rparr>) = fds_ok tfd d"
  by (simp_all add: fds_ok_def)

lemma blocks_ok_fields [simp]:
  "blocks_ok (d\<lparr>ed_pipe := n\<rparr>) m = blocks_ok d m" "blocks_ok (d\<lparr>ed_fd_calls := c\<rparr>) m = blocks_ok d m"
  "blocks_ok (d\<lparr>ed_lock := b\<rparr>) m = blocks_ok d m" "blocks_ok (d\<lparr>ed_completed := ts\<rparr>) m = blocks_ok d m"
  "blocks_ok (d\<lparr>ed_event_flags := F\<rparr>) m = blocks_ok d m" "blocks_ok (d\<lparr>ed_device_close := k\<rparr>) m = blocks_ok d m"
  "blocks_ok (d\<lparr>ed_pollfds_cnt := i\<rparr>) m = blocks_ok d m"
  "blocks_ok (d\<lparr>ed_events_lock := b\<rparr>) m = blocks_ok d m" "blocks_ok (d\<lparr>ed_handler_active := b\<rparr>) m = blocks_ok d m"
  by (simp_all add: blocks_ok_def ed_blocks_def)

lemma blocks_ok_malloc:
  assumes "blocks_ok d m" and "c_malloc (ed_heap d) = (q, h)"
  shows "blocks_ok (d\<lparr>ed_heap := h\<rparr>) m"
    and "q = Some p \<Longrightarrow> p \<in> hp_live h \<and> p \<notin> set (msg_blocks m @ ed_blocks d)"
proof -
  from assms(1) have wf: "heap_wf (ed_heap d)" by (simp add: blocks_ok_def)
  have live: "hp_live (ed_heap d) \<subseteq> hp_live h \<and> heap_wf h"
    using ledger.alloc_Some [OF wf] ledger.alloc_None [OF wf] assms(2) by (cases q) auto
  with assms(1) show "blocks_ok (d\<lparr>ed_heap := h\<rparr>) m" by (auto simp: blocks_ok_def ed_blocks_def)
  assume "q = Some p"
  with ledger.alloc_Some [OF wf] assms show "p \<in> hp_live h \<and> p \<notin> set (msg_blocks m @ ed_blocks d)"
    by (auto simp: blocks_ok_def)
qed

lemma blocks_ok_release:
  assumes "heap_wf (ed_heap d)" and "distinct (p # bs)" and "set (p # bs) \<subseteq> hp_live (ed_heap d)"
  obtains h where "c_release p (ed_heap d) = Some h" "heap_wf h" "set bs \<subseteq> hp_live h"
  using ledger.release_live [OF assms(1), of p] assms(2,3) by auto

text \<open>A step that stores a fresh block.\<close>

lemma blocks_ok_fresh:
  assumes "blocks_ok d m" and "p \<in> hp_live (ed_heap d)" and "p \<notin> set (msg_blocks m @ ed_blocks d)"
  shows "blocks_ok (d\<lparr>ed_ipollfds := ed_ipollfds d @ [\<lparr>pf_block = p, pf_fd = fd, pf_events = ev\<rparr>]\<rparr>) m"
    and "blocks_ok (d\<lparr>ed_hotplug_msgs := ed_hotplug_msgs d @ [\<lparr>hm_block = p, hm_event = e, hm_device = dev\<rparr>]\<rparr>) m"
  using assms by (auto simp: blocks_ok_def ed_blocks_def)

lemma inv_adds_event:
  assumes inv: "proto_inv tfd (pstate d ph m)" and add: "adds_event f d d'"
    and "ed_pipe_cap (f d) = ed_pipe_cap d" and "locks_ok (f d) ph" and "blocks_ok (f d) m" and "fds_ok tfd (f d)"
  shows "proto_inv tfd (pstate d' ph m)"
  using awake_adds_event [OF _ add assms(3)] add assms(4-6) inv
  by (auto simp: adds_event_def elim!: proto_invE intro!: proto_invI)

lemma inv_transfer_completion:
  assumes "proto_inv tfd (pstate d ph m)" and "usbi_signal_transfer_completion t d = Some d'"
  shows "proto_inv tfd (pstate d' ph m)"
  by (rule inv_adds_event [OF assms(1) transfer_completion_adds [OF assms(2)]])
    (use assms(1) in \<open>simp_all add: proto_inv_pstate\<close>)

lemma inv_close_begin:
  assumes "proto_inv tfd (pstate d ph m)" and "ed_device_close d + 1 \<noteq> 0" and "close_begin d = Some d'"
  shows "proto_inv tfd (pstate d' ph m)"
  by (rule inv_adds_event [OF assms(1) close_begin_adds [OF assms(3)]])
    (use assms(1,2) in \<open>auto simp: proto_inv_pstate locks_ok_def\<close>)

lemma inv_interrupt:
  assumes "proto_inv tfd (pstate d ph m)" and "libusb_interrupt_event_handler d = Some d'"
  shows "proto_inv tfd (pstate d' ph m)"
  using assms(2)
proof (cases rule: interrupt_adds)
  case 1
  with assms(1) show ?thesis by simp
next
  case 2
  show ?thesis
    by (rule inv_adds_event [OF assms(1) 2]) (use assms(1) in \<open>simp_all add: proto_inv_pstate\<close>)
qed

lemma inv_heap:
  assumes "proto_inv tfd (pstate d ph m)" and "blocks_ok (d\<lparr>ed_heap := h\<rparr>) m"
  shows "proto_inv tfd (pstate (d\<lparr>ed_heap := h\<rparr>) ph m)"
  using assms by (auto elim!: proto_invE intro!: proto_invI)

lemma inv_malloc:
  assumes "proto_inv tfd (pstate d ph m)" and "c_malloc (ed_heap d) = (q, h)"
  shows "proto_inv tfd (pstate (d\<lparr>ed_heap := h\<rparr>) ph m)"
  using assms blocks_ok_malloc(1) by (auto elim!: proto_invE intro!: inv_heap proto_invI)

lemma inv_hotplug:
  assumes inv: "proto_inv tfd (pstate d ph m)" and "usbi_hotplug_notification dev event d = Some d'"
  shows "proto_inv tfd (pstate d' ph m)"
  using assms(2)
proof (cases rule: hotplug_adds)
  case (1 h)
  with inv inv_malloc show ?thesis by blast
next
  case (2 p h)
  from inv have b: "blocks_ok d m" by (rule proto_invE)
  have fresh: "p \<in> hp_live h" "p \<notin> set (msg_blocks m @ ed_blocks (d\<lparr>ed_heap := h\<rparr>))"
    using blocks_ok_malloc(2) [OF b 2(1)] by (auto simp: ed_blocks_def)
  have inv': "proto_inv tfd (pstate (d\<lparr>ed_heap := h\<rparr>) ph m)" using inv 2(1) by (rule inv_malloc)
  then have b': "blocks_ok (d\<lparr>ed_heap := h\<rparr>) m" by (rule proto_invE)
  show ?thesis
    using inv' blocks_ok_fresh(2) [OF b' _ fresh(2)] fresh(1)
    by (intro inv_adds_event [OF inv' 2(2)]) (auto elim!: proto_invE)
qed

lemma inv_fd_calls: "proto_inv tfd (pstate d ph m) \<Longrightarrow> proto_inv tfd (pstate (d\<lparr>ed_fd_calls := c\<rparr>) ph m)"
  by (auto elim!: proto_invE intro!: proto_invI)

lemma inv_add_pollfd:
  assumes inv: "proto_inv tfd (pstate d ph m)" and "usbi_add_pollfd fd events d = Some (r, d')"
  shows "proto_inv tfd (pstate d' ph m)"
  using assms(2)
proof (cases rule: add_pollfd_adds)
  case (1 h)
  with inv inv_malloc show ?thesis by blast
next
  case (2 p h d1 calls)
  from inv have b: "blocks_ok d m" by (rule proto_invE)
  have fresh: "p \<in> hp_live h" "p \<notin> set (msg_blocks m @ ed_blocks (d\<lparr>ed_heap := h\<rparr>))"
    using blocks_ok_malloc(2) [OF b 2(1)] by (auto simp: ed_blocks_def)
  have inv': "proto_inv tfd (pstate (d\<lparr>ed_heap := h\<rparr>) ph m)" using inv 2(1) by (rule inv_malloc)
  then have b': "blocks_ok (d\<lparr>ed_heap := h\<rparr>) m" by (rule proto_invE)
  have "blocks_ok (d\<lparr>ed_heap := h, ed_ipollfds := ed_ipollfds d @ [\<lparr>pf_block = p, pf_fd = fd, pf_events = events\<rparr>]\<rparr>) m"
    using blocks_ok_fresh(1) [OF b' _ fresh(2), of fd events] fresh(1) by simp
  then have "proto_inv tfd (pstate d1 ph m)"
    using inv' by (intro inv_adds_event [OF inv' 2(4)])
      (auto elim!: proto_invE simp: fds_ok_def locks_ok_def blocks_ok_def ed_blocks_def)
  with 2(3) inv_fd_calls show ?thesis by simp
qed

lemma distinct_map_remove1:
  assumes "distinct (map g xs)" and "x \<in> set xs"
  shows "set (map g (remove1 x xs)) = set (map g xs) - {g x}" and "distinct (map g (remove1 x xs))"
proof -
  from assms(1) have d: "distinct xs" by (simp add: distinct_map)
  then show "set (map g (remove1 x xs)) = set (map g xs) - {g x}"
    using assms by (auto simp: distinct_map inj_on_def)
  show "distinct (map g (remove1 x xs))"
    using assms d by (auto simp: distinct_map intro: inj_on_subset)
qed

lemma inv_remove_pollfd:
  assumes inv: "proto_inv tfd (pstate d ph m)" and ext: "\<not> internal_fd tfd d fd"
    and "usbi_remove_pollfd fd d = Some d'"
  shows "proto_inv tfd (pstate d' ph m)"
  using assms(3)
proof (cases rule: remove_pollfd_adds)
  case 1
  with inv show ?thesis by simp
next
  case (2 f h d1 calls)
  from inv have b: "blocks_ok d m" "fds_ok tfd d" by (auto elim: proto_invE)
  let ?d = "d\<lparr>ed_ipollfds := remove1 f (ed_ipollfds d), ed_pollfds_cnt := ed_pollfds_cnt d - 1,
          ed_event_flags := insert USBI_EVENT_POLLFDS_MODIFIED (ed_event_flags d)\<rparr>"
  from b(1) have "distinct (map pf_block (ed_ipollfds d))" by (simp add: blocks_ok_def ed_blocks_def)
  note rm = distinct_map_remove1 [OF this 2(1)]
  from b(1) have all: "distinct (msg_blocks m @ ed_blocks d)" "set (msg_blocks m @ ed_blocks d) \<subseteq> hp_live (ed_heap d)"
    by (simp_all add: blocks_ok_def)
  have set_eq: "set (msg_blocks m @ ed_blocks ?d) = set (msg_blocks m @ ed_blocks d) - {pf_block f}"
    using all(1) rm(1) 2(1) by (auto simp: ed_blocks_def)
  have dist: "distinct (msg_blocks m @ ed_blocks ?d)"
    using all(1) rm by (auto simp: ed_blocks_def)
  have "blocks_ok ?d m" using b(1) set_eq dist by (auto simp: blocks_ok_def)
  moreover have "fds_ok tfd ?d"
  proof -
    have "x \<in> pf_fd ` set (remove1 f (ed_ipollfds d))" if "x \<in> pf_fd ` set (ed_ipollfds d)" "x \<noteq> fd" for x
      using that 2(2) by (auto simp: image_iff) (metis in_set_remove1)
    moreover have "int (length (remove1 f (ed_ipollfds d))) = int (length (ed_ipollfds d)) - 1"
      using 2(1) length_pos_if_in_set [OF 2(1)] by (simp add: length_remove1 of_nat_diff Suc_le_eq del: length_greater_0_conv)
    ultimately show ?thesis
      using b(2) ext unfolding fds_ok_def internal_fd_def by auto
  qed
  ultimately have inv1: "proto_inv tfd (pstate d1 ph m)"
    using inv by (intro inv_adds_event [OF inv 2(5)]) (auto elim!: proto_invE)
  have d1: "ed_heap d1 = ed_heap d" "ed_blocks d1 = ed_blocks ?d"
    using 2(5) by (simp_all add: adds_event_def ed_blocks_def)
  have live: "hp_live h = hp_live (ed_heap d) - {pf_block f} \<and> heap_wf h"
    using 2(3) ledger.release_live [of "ed_heap d" "pf_block f"] b(1) all(2) 2(1)
    by (auto simp: blocks_ok_def ed_blocks_def)
  have "blocks_ok (d1\<lparr>ed_heap := h\<rparr>) m"
    using dist set_eq live all(2) d1(2) by (auto simp: blocks_ok_def ed_blocks_def)
  with inv1 have "proto_inv tfd (pstate (d1\<lparr>ed_heap := h\<rparr>) ph m)" by (rule inv_heap)
  from inv_fd_calls [OF this] 2(4) show ?thesis by simp
qed


lemma inv_close_locks:
  assumes "proto_inv tfd (pstate d Idle m)" and "ed_device_close d \<noteq> 0" and "libusb_lock_events d = Some d'"
  shows "proto_inv tfd (pstate d' Closing m)"
  using assms
  by (auto simp: proto_inv_pstate libusb_lock_events_def locks_ok_def awake_def usbi_pending_events_def split: if_splits)

lemma unlock_events_eq:
  assumes "ed_events_lock d" and "\<not> ed_waiters_lock d"
  shows "libusb_unlock_events d = Some (d\<lparr>ed_handler_active := False, ed_events_lock := False\<rparr>)"
  using assms
  by (cases d) (simp add: libusb_unlock_events_def libusb_lock_event_waiters_def libusb_unlock_event_waiters_def)

text \<open>Lowering the count of closing devices, with the pipe cleared when nothing else is pending.\<close>

lemma close_end_eq:
  assumes "awake d ph" and "\<not> ed_lock d" and "ed_device_close d \<noteq> 0"
  obtains n where "close_end d = Some (d\<lparr>ed_device_close := ed_device_close d - 1, ed_pipe := n\<rparr>)"
    and "usbi_pending_events (d\<lparr>ed_device_close := ed_device_close d - 1\<rparr>) \<longrightarrow> 0 < n"
proof -
  let ?d = "d\<lparr>ed_device_close := ed_device_close d - 1\<rparr>"
  have pos: "0 < ed_pipe d" using assms by (simp add: awake_def usbi_pending_events_def)
  let ?n = "if usbi_pending_events ?d then ed_pipe d else ed_pipe d - 1"
  have pend: "usbi_pending_events (d\<lparr>ed_lock := True, ed_device_close := ed_device_close d - 1\<rparr>) = usbi_pending_events ?d"
    by (simp add: usbi_pending_events_def)
  have "close_end d = Some (d\<lparr>ed_device_close := ed_device_close d - 1, ed_pipe := ?n\<rparr>)"
    using assms(2) pos clear_unless_pending_eq [of "d\<lparr>ed_lock := True, ed_device_close := ed_device_close d - 1\<rparr>"] pend
    by (cases d) (auto simp: close_end_def lock_event_data_def unlock_event_data_def)
  with pos that [of ?n] show ?thesis by auto
qed

lemma inv_close_ends:
  assumes inv: "proto_inv tfd (pstate d Closing m)" and "close_end d = Some d1" and "libusb_unlock_events d1 = Some d'"
  shows "proto_inv tfd (pstate d' Idle m)"
proof -
  from inv have "awake d Closing" "\<not> ed_lock d" "ed_device_close d \<noteq> 0"
    by (simp_all add: proto_inv_pstate locks_ok_def)
  then obtain n where n: "close_end d = Some (d\<lparr>ed_device_close := ed_device_close d - 1, ed_pipe := n\<rparr>)"
    "usbi_pending_events (d\<lparr>ed_device_close := ed_device_close d - 1\<rparr>) \<longrightarrow> 0 < n" by (rule close_end_eq)
  with assms(2) have d1: "d1 = d\<lparr>ed_device_close := ed_device_close d - 1, ed_pipe := n\<rparr>" by simp
  with inv have "libusb_unlock_events d1 = Some (d1\<lparr>ed_handler_active := False, ed_events_lock := False\<rparr>)"
    by (intro unlock_events_eq) (simp_all add: proto_inv_pstate locks_ok_def)
  with assms(3) d1 n(2) inv show ?thesis
    by (auto simp: proto_inv_pstate locks_ok_def awake_def)
qed

lemma inv_handler_starts:
  assumes "proto_inv tfd (pstate d Idle m)" and "libusb_try_lock_events d = Some (0, d')"
  shows "proto_inv tfd (pstate d' Handling m)"
proof -
  from assms have "d' = d\<lparr>ed_events_lock := True, ed_handler_active := True\<rparr>"
    by (auto simp: libusb_try_lock_events_def lock_event_data_def unlock_event_data_def split: if_splits)
  with assms(1) show ?thesis by (auto simp: proto_inv_pstate locks_ok_def awake_def)
qed

lemma inv_handler_stops:
  assumes "proto_inv tfd (pstate d Handling m)" and "libusb_unlock_events d = Some d'"
  shows "proto_inv tfd (pstate d' Idle m)"
  using assms unlock_events_eq [of d] by (auto simp: proto_inv_pstate locks_ok_def awake_def)

text \<open>The array for \<open>poll\<close> holds every descriptor of the list, in its order.\<close>

definition poll_array :: "usbi_pollfd list \<Rightarrow> (int \<times> int) list" where
  "poll_array fs = map (\<lambda>f. (pf_fd f, pf_events f)) fs"

lemma poll_setup_cases:
  assumes inv: "proto_inv tfd (pstate d Handling m)"
  obtains (reuse) "USBI_EVENT_POLLFDS_MODIFIED \<notin> ed_event_flags d" "poll_setup (0 \<le> tfd) d = Some (0, d)"
  | (no_mem) h1 h2 where "c_free (blk_ptr (ed_pollfds d)) (ed_heap d) = Some h1" "c_malloc h1 = (None, h2)"
      "poll_setup (0 \<le> tfd) d = Some (LIBUSB_ERROR_NO_MEM, d\<lparr>ed_heap := h2, ed_pollfds := None\<rparr>)"
  | (built) h1 h2 p n where "c_free (blk_ptr (ed_pollfds d)) (ed_heap d) = Some h1" "c_malloc h1 = (Some p, h2)"
      "poll_setup (0 \<le> tfd) d = Some (0, d\<lparr>ed_heap := h2, ed_pollfds := Some (p, poll_array (ed_ipollfds d)),
         ed_event_flags := ed_event_flags d - {USBI_EVENT_POLLFDS_MODIFIED}, ed_pipe := n\<rparr>)"
      "usbi_pending_events (d\<lparr>ed_event_flags := ed_event_flags d - {USBI_EVENT_POLLFDS_MODIFIED}\<rparr>) \<longrightarrow> 0 < n"
proof (cases "USBI_EVENT_POLLFDS_MODIFIED \<in> ed_event_flags d")
  case False
  with inv have "poll_setup (0 \<le> tfd) d = Some (0, d)"
    by (simp add: poll_setup_def lock_event_data_def unlock_event_data_def proto_inv_pstate locks_ok_def)
  with False show ?thesis by (rule reuse)
next
  case True
  from inv have l: "\<not> ed_lock d" and w: "0 < ed_pipe d" and b: "blocks_ok d m" and f: "fds_ok tfd d"
    using True by (auto simp: proto_inv_pstate locks_ok_def awake_def usbi_pending_events_def)
  obtain h1 where h1: "c_free (blk_ptr (ed_pollfds d)) (ed_heap d) = Some h1"
  proof (cases "ed_pollfds d")
    case (Some b')
    then obtain p a where "ed_pollfds d = Some (p, a)" by (cases b') auto
    with b that ledger.release_live [of "ed_heap d" p] show ?thesis by (auto simp: blocks_ok_def ed_blocks_def)
  qed (use that in auto)
  have cnt: "\<not> ed_pollfds_cnt d < (if 0 \<le> tfd then 2 else 1)"
  proof -
    let ?fds = "map pf_fd (ed_ipollfds d)"
    have "card (set ?fds) \<le> length (ed_ipollfds d)" using card_length [of ?fds] by simp
    moreover have "(if 0 \<le> tfd then 2 else 1) \<le> card (set ?fds)"
    proof (cases "0 \<le> tfd")
      case True
      with f have "{fst (ed_event_pipe d), tfd} \<subseteq> set ?fds" "tfd \<noteq> fst (ed_event_pipe d)" by (auto simp: fds_ok_def)
      with card_mono [of "set ?fds" "{fst (ed_event_pipe d), tfd}"] True show ?thesis by simp
    next
      case False
      with f have "set ?fds \<noteq> {}" by (auto simp: fds_ok_def)
      with False show ?thesis by (simp add: Suc_le_eq card_gt_0_iff)
    qed
    ultimately show ?thesis using f by (auto simp: fds_ok_def split: if_splits)
  qed
  obtain q h2 where h2: "c_malloc h1 = (q, h2)" by fastforce
  show ?thesis
  proof (cases q)
    case None
    with True l h1 h2 cnt have "poll_setup (0 \<le> tfd) d = Some (LIBUSB_ERROR_NO_MEM, d\<lparr>ed_heap := h2, ed_pollfds := None\<rparr>)"
      by (cases d) (simp add: poll_setup_def lock_event_data_def unlock_event_data_def)
    with h1 h2 None show ?thesis using no_mem by blast
  next
    case (Some p)
    let ?F = "ed_event_flags d - {USBI_EVENT_POLLFDS_MODIFIED}"
    let ?A = "Some (p, poll_array (ed_ipollfds d))"
    let ?d = "d\<lparr>ed_lock := True, ed_heap := h2, ed_pollfds := ?A, ed_event_flags := ?F\<rparr>"
    let ?n = "if usbi_pending_events (d\<lparr>ed_event_flags := ?F\<rparr>) then ed_pipe d else ed_pipe d - 1"
    have pend: "usbi_pending_events ?d = usbi_pending_events (d\<lparr>ed_event_flags := ?F\<rparr>)"
      by (simp add: usbi_pending_events_def)
    have arr: "map (\<lambda>f. (pf_fd f, pf_events f)) (ed_ipollfds d) @
        replicate (nat (ed_pollfds_cnt d) - length (ed_ipollfds d)) (0, 0) = poll_array (ed_ipollfds d)"
      using f by (simp add: fds_ok_def poll_array_def)
    have "clear_unless_pending ?d = Some (?d\<lparr>ed_pipe := ?n\<rparr>)"
      using clear_unless_pending_eq [of ?d] w pend by auto
    then have "poll_setup (0 \<le> tfd) d = unlock_event_data (?d\<lparr>ed_pipe := ?n\<rparr>) \<bind> (\<lambda>d3. Some (0, d3))"
      using True l h1 h2 cnt Some f arr
      by (simp add: poll_setup_def lock_event_data_def fds_ok_def)
    then have "poll_setup (0 \<le> tfd) d = Some (0, d\<lparr>ed_heap := h2, ed_pollfds := ?A, ed_event_flags := ?F, ed_pipe := ?n\<rparr>)"
      using l by (cases d) (simp add: unlock_event_data_def)
    with h1 h2 Some w show ?thesis using built [of h1 p h2 ?n] by auto
  qed
qed


lemma blocks_ok_free_pollfds:
  assumes "blocks_ok d m" and "c_free (blk_ptr (ed_pollfds d)) (ed_heap d) = Some h"
  shows "blocks_ok (d\<lparr>ed_heap := h, ed_pollfds := None\<rparr>) m"
proof (cases "ed_pollfds d")
  case None
  with assms show ?thesis by (simp add: blocks_ok_def ed_blocks_def)
next
  case (Some b)
  then obtain p a where p: "ed_pollfds d = Some (p, a)" by (cases b) auto
  with assms ledger.release_live [of "ed_heap d" p] have "hp_live h = hp_live (ed_heap d) - {p} \<and> heap_wf h"
    by (auto simp: blocks_ok_def ed_blocks_def)
  with assms(1) p show ?thesis by (auto simp: blocks_ok_def ed_blocks_def)
qed

lemma inv_polls:
  assumes inv: "proto_inv tfd (pstate d Handling m)" and "poll_setup (0 \<le> tfd) d = Some (r, d')"
  shows "proto_inv tfd (pstate d' Handling m)"
  using inv
proof (cases rule: poll_setup_cases)
  case reuse
  with assms show ?thesis by simp
next
  case (no_mem h1 h2)
  from inv have "blocks_ok d m" by (simp add: proto_inv_pstate)
  from blocks_ok_malloc(1) [OF blocks_ok_free_pollfds [OF this no_mem(1)], of None h2] no_mem(2)
  have "blocks_ok (d\<lparr>ed_heap := h2, ed_pollfds := None\<rparr>) m" by (simp add: blocks_ok_def ed_blocks_def)
  with inv no_mem(3) assms(2) show ?thesis
    by (auto simp: proto_inv_pstate awake_def locks_ok_def usbi_pending_events_def fds_ok_def)
next
  case (built h1 h2 p n)
  from inv have "blocks_ok d m" by (simp add: proto_inv_pstate)
  note free = blocks_ok_free_pollfds [OF this built(1)]
  from blocks_ok_malloc(1) [OF free, of "Some p" h2] blocks_ok_malloc(2) [OF free, of "Some p" h2 p] built(2)
  have "blocks_ok (d\<lparr>ed_heap := h2, ed_pollfds := None\<rparr>) m" "p \<in> hp_live h2"
    "p \<notin> set (msg_blocks m @ ed_blocks (d\<lparr>ed_heap := h2, ed_pollfds := None\<rparr>))"
    by (simp_all add: ed_blocks_def blocks_ok_def)
  then have "blocks_ok (d\<lparr>ed_heap := h2, ed_pollfds := Some (p, poll_array (ed_ipollfds d))\<rparr>) m"
    by (auto simp: blocks_ok_def ed_blocks_def)
  moreover from built(3) assms(2) have d': "d' = d\<lparr>ed_heap := h2, ed_pollfds := Some (p, poll_array (ed_ipollfds d)),
         ed_event_flags := ed_event_flags d - {USBI_EVENT_POLLFDS_MODIFIED}, ed_pipe := n\<rparr>" by simp
  ultimately have "blocks_ok d' m" by simp
  moreover from inv built(4) have "awake d' Handling" by (simp add: d' proto_inv_pstate awake_def usbi_pending_events_def)
  moreover from inv have "locks_ok d' Handling" "fds_ok tfd d'"
    by (simp_all add: d' proto_inv_pstate locks_ok_def fds_ok_def)
  ultimately show ?thesis by (simp add: proto_inv_pstate)
qed

lemma pipe_begin_eq:
  assumes "\<not> ed_lock d"
  shows "pipe_begin d = Some (case ed_hotplug_msgs d of [] \<Rightarrow> None | msg # _ \<Rightarrow> Some msg,
    d\<lparr>ed_lock := True, ed_event_flags := ed_event_flags d - {USBI_EVENT_USER_INTERRUPT},
      ed_hotplug_msgs := tl (ed_hotplug_msgs d)\<rparr>)"
  using assms by (cases d) (simp add: pipe_begin_def lock_event_data_def split: list.split)

lemma inv_pipe_begins:
  assumes inv: "proto_inv tfd (pstate d Handling None)" and "0 < ed_pipe d" and "pipe_begin d = Some (m', d')"
  shows "proto_inv tfd (pstate d' InPipe m')"
proof -
  from inv have "\<not> ed_lock d" by (simp add: proto_inv_pstate locks_ok_def)
  from pipe_begin_eq [OF this] assms(3) have
    eq: "m' = (case ed_hotplug_msgs d of [] \<Rightarrow> None | msg # _ \<Rightarrow> Some msg)"
      "d' = d\<lparr>ed_lock := True, ed_event_flags := ed_event_flags d - {USBI_EVENT_USER_INTERRUPT},
        ed_hotplug_msgs := tl (ed_hotplug_msgs d)\<rparr>" by simp_all
  from inv have "blocks_ok d' m'"
    by (cases "ed_hotplug_msgs d") (auto simp: eq proto_inv_pstate blocks_ok_def ed_blocks_def)
  with inv assms(2) show ?thesis
    by (auto simp: eq(2) proto_inv_pstate awake_def locks_ok_def)
qed

lemma inv_completes:
  assumes "proto_inv tfd (pstate d InPipe m)" and "complete_begin d = Some (Some t, d')"
  shows "proto_inv tfd (pstate d' InBackend m)"
  using assms
  by (auto simp: complete_begin_def unlock_event_data_def proto_inv_pstate awake_def locks_ok_def
      split: list.splits if_splits)

lemma inv_backend_returns:
  assumes "proto_inv tfd (pstate d InBackend m)" and "lock_event_data d = Some d'"
  shows "proto_inv tfd (pstate d' InPipe m)"
  using assms by (auto simp: proto_inv_pstate awake_def locks_ok_def dest!: lock_event_dataD)

lemma pipe_end_eq:
  assumes "proto_inv tfd (pstate d InPipe m)"
  obtains n where "pipe_end d = Some (d\<lparr>ed_lock := False, ed_pipe := n\<rparr>)" and "usbi_pending_events d \<longrightarrow> 0 < n"
proof -
  from assms have l: "ed_lock d" "0 < ed_pipe d" by (simp_all add: proto_inv_pstate awake_def locks_ok_def)
  let ?n = "if usbi_pending_events d then ed_pipe d else ed_pipe d - 1"
  have "pipe_end d = Some (d\<lparr>ed_lock := False, ed_pipe := ?n\<rparr>)"
    using clear_unless_pending_eq [OF l(2)] l(1) by (cases d) (simp add: pipe_end_def unlock_event_data_def)
  with l that [of ?n] show ?thesis by auto
qed

lemma inv_pipe_ends:
  assumes inv: "proto_inv tfd (pstate d InPipe m)" and "pipe_end d = Some d'"
  shows "proto_inv tfd (pstate d' Handling m)"
  using inv
proof (cases rule: pipe_end_eq)
  case (1 n)
  with assms show ?thesis by (auto simp: proto_inv_pstate awake_def locks_ok_def)
qed

lemma inv_message_freed:
  assumes "proto_inv tfd (pstate d Handling (Some msg))" and "c_release (hm_block msg) (ed_heap d) = Some h"
  shows "proto_inv tfd (pstate (d\<lparr>ed_heap := h\<rparr>) Handling None)"
proof -
  from assms ledger.release_live [of "ed_heap d" "hm_block msg"]
  have "hp_live h = hp_live (ed_heap d) - {hm_block msg} \<and> heap_wf h"
    by (auto simp: proto_inv_pstate blocks_ok_def)
  moreover from assms(1) have "distinct (ed_blocks d)" "set (ed_blocks d) \<subseteq> hp_live (ed_heap d) - {hm_block msg}"
    by (auto simp: proto_inv_pstate blocks_ok_def)
  moreover have "ed_blocks (d\<lparr>ed_heap := h\<rparr>) = ed_blocks d" by (simp add: ed_blocks_def)
  ultimately show ?thesis using assms(1) by (simp add: proto_inv_pstate blocks_ok_def)
qed

lemma pstep_inv: "pstep tfd s s' \<Longrightarrow> proto_inv tfd s \<Longrightarrow> proto_inv tfd s'"
  by (induction rule: pstep.induct)
    (blast intro: inv_add_pollfd inv_remove_pollfd inv_transfer_completion inv_hotplug inv_interrupt inv_close_begin
      inv_close_locks inv_close_ends inv_handler_starts inv_polls inv_pipe_begins inv_completes
      inv_backend_returns inv_pipe_ends inv_message_freed inv_handler_stops)+

lemma preach_inv: "preach tfd s0 s \<Longrightarrow> proto_inv tfd s0 \<Longrightarrow> proto_inv tfd s"
  by (induction rule: preach.induct) (auto intro: pstep_inv)

subsection \<open>The start\<close>

definition zero_event_data :: event_data where
  "zero_event_data = \<lparr>ed_heap = empty_heap, ed_lock = False, ed_event_flags = {}, ed_device_close = 0,
     ed_hotplug_ready = False, ed_hotplug_msgs = [], ed_completed = [], ed_ipollfds = [], ed_pollfds = None,
     ed_pollfds_cnt = 0, ed_event_pipe = (0, 0), ed_pipe = 0, ed_pipe_cap = 0, ed_added_cb = False,
     ed_removed_cb = False, ed_fd_calls = [], ed_events_lock = False, ed_handler_active = False,
     ed_waiters_lock = False, ed_handling = False\<rparr>"

end
