(* ===== verification/Event_Props.thy ===== *)
theory Event_Props
  imports Event_Protocol
begin

text \<open>
  The properties of the event pipe: the initial state satisfies the invariant, no wake-up is lost, and
  no thread gets stuck in a critical section.
\<close>

subsection \<open>Initialisation\<close>

text \<open>The data of a context fresh from \<open>calloc\<close>, on a heap and with a pipe of some capacity.\<close>

definition fresh_data :: "heap \<Rightarrow> nat \<Rightarrow> event_data" where
  "fresh_data h cap = zero_event_data\<lparr>ed_heap := h, ed_pipe_cap := cap\<rparr>"

text \<open>The invariant without the descriptors, which \<open>usbi_io_init\<close> is about to add.\<close>

definition setup_inv :: "event_data \<Rightarrow> bool" where
  "setup_inv d \<longleftrightarrow> awake d Idle \<and> locks_ok d Idle \<and> blocks_ok d None \<and>
     ed_pollfds_cnt d = int (length (ed_ipollfds d))"

lemma setup_inv_add:
  assumes "setup_inv d" and "usbi_add_pollfd fd events d = Some (r, d')"
  shows "setup_inv d'" and "r = 0 \<Longrightarrow> map pf_fd (ed_ipollfds d') = map pf_fd (ed_ipollfds d) @ [fd]"
    and "ed_event_pipe d' = ed_event_pipe d" and "r = 0 \<or> r = LIBUSB_ERROR_NO_MEM"
proof -
  from assms(1) have b: "blocks_ok d None" by (simp add: setup_inv_def)
  have "setup_inv d' \<and> (r = 0 \<longrightarrow> map pf_fd (ed_ipollfds d') = map pf_fd (ed_ipollfds d) @ [fd]) \<and>
      ed_event_pipe d' = ed_event_pipe d \<and> (r = 0 \<or> r = LIBUSB_ERROR_NO_MEM)"
    using assms(2)
  proof (cases rule: add_pollfd_adds)
    case (1 h)
    with assms(1) blocks_ok_malloc(1) [OF b 1(1)] show ?thesis
      by (simp add: setup_inv_def)
  next
    case (2 p h d1 calls)
    have fresh: "p \<in> hp_live h" "p \<notin> set (msg_blocks None @ ed_blocks (d\<lparr>ed_heap := h\<rparr>))"
      using blocks_ok_malloc(2) [OF b 2(1)] by (auto simp: ed_blocks_def)
    have b': "blocks_ok (d\<lparr>ed_heap := h\<rparr>) None" using b 2(1) by (rule blocks_ok_malloc)
    have "blocks_ok d1 None"
      using blocks_ok_fresh(1) [OF b' _ fresh(2), of fd events] fresh(1) 2(4)
      by (simp add: adds_event_def)
    moreover have "awake d1 Idle"
      by (rule awake_adds_event [OF _ 2(4)]) (use assms(1) in \<open>simp_all add: setup_inv_def\<close>)
    ultimately show ?thesis
      using assms(1) 2 by (simp add: setup_inv_def adds_event_def locks_ok_def)
  qed
  then show "setup_inv d'" and "r = 0 \<Longrightarrow> map pf_fd (ed_ipollfds d') = map pf_fd (ed_ipollfds d) @ [fd]"
    and "ed_event_pipe d' = ed_event_pipe d" and "r = 0 \<or> r = LIBUSB_ERROR_NO_MEM" by auto
qed

lemma io_init_inv:
  assumes "heap_wf h" and "0 < cap" and "fd0 \<noteq> tf"
    and "usbi_io_init (0, fd0, fd1) tf (fresh_data h cap) = Some (0, tfd, d)"
  shows "proto_inv tfd (pstate d Idle None)"
proof -
  let ?d = "(fresh_data h cap)\<lparr>ed_ipollfds := [], ed_hotplug_msgs := [], ed_completed := [], ed_hotplug_ready := True,
     ed_events_lock := False, ed_waiters_lock := False, ed_lock := False, ed_handling := False,
     ed_event_pipe := (fd0, fd1), ed_pipe := 0\<rparr>"
  have s: "setup_inv ?d" using assms(1,2)
    by (simp add: setup_inv_def fresh_data_def zero_event_data_def awake_def locks_ok_def blocks_ok_def
        ed_blocks_def usbi_pending_events_def)
  from assms(4) obtain r1 d1 where d1: "usbi_add_pollfd fd0 POLLIN ?d = Some (r1, d1)"
    by (auto simp: usbi_io_init_def elim!: bind_SomeE)
  note s1 = setup_inv_add [OF s d1]
  from assms(4) d1 s1(4) have r1: "r1 = 0" by (auto simp: usbi_io_init_def split: if_splits)
  with s1(2) have fds1: "map pf_fd (ed_ipollfds d1) = [fd0]" by (simp add: fresh_data_def)
  have pipe1: "ed_event_pipe d1 = (fd0, fd1)" using s1(3) by simp
  show ?thesis
  proof (cases "0 \<le> tf")
    case False
    with assms(4) d1 r1 have "tfd = -1" "d = d1" by (auto simp: usbi_io_init_def)
    with s1(1) fds1 pipe1 show ?thesis
      by (auto simp: proto_inv_pstate setup_inv_def fds_ok_def simp flip: set_map)
  next
    case True
    with assms(4) d1 r1 obtain r2 d2 where d2: "usbi_add_pollfd tf POLLIN d1 = Some (r2, d2)"
      by (auto simp: usbi_io_init_def elim!: bind_SomeE)
    note s2 = setup_inv_add [OF s1(1) d2]
    from assms(4) d1 r1 d2 True s2(4) have r2: "r2 = 0" "tfd = tf" "d = d2"
      by (auto simp: usbi_io_init_def split: if_splits elim!: bind_SomeE)
    from s2(2) r2 fds1 have "set (map pf_fd (ed_ipollfds d2)) = {fd0, tf}" by simp
    with s2(1,3) r2 pipe1 assms(3) show ?thesis
      by (auto simp: proto_inv_pstate setup_inv_def fds_ok_def simp flip: set_map)
  qed
qed

subsection \<open>Wake-ups\<close>

text \<open>C3. No wake-up is lost: after initialisation, in every interleaving of the threads, there is a byte
  in the event pipe whenever an event is pending (a changed descriptor list, an interrupt, a device
  that is being closed, a hotplug message, a completed transfer). The handler's \<open>poll\<close> then returns at
  once. The count of descriptors is the length of their list, and the pipe's own descriptor and the
  timerfd are on it.\<close>

theorem no_lost_wakeup:
  assumes "heap_wf h" and "0 < cap" and "fd0 \<noteq> tf"
    and "usbi_io_init (0, fd0, fd1) tf (fresh_data h cap) = Some (0, tfd, d)"
    and "preach tfd (pstate d Idle None) s"
  shows "(usbi_pending_events (ps_data s) \<longrightarrow> 0 < ed_pipe (ps_data s)) \<and> fds_ok tfd (ps_data s)"
  using preach_inv [OF assms(5) io_init_inv [OF assms(1-4)]]
  by (simp add: proto_inv_def awake_def)

definition ready_data :: event_data where
  "ready_data = (case usbi_io_init (0, 3, 4) 5 (fresh_data empty_heap 4) of
     Some (_, _, d) \<Rightarrow> d | None \<Rightarrow> zero_event_data)"

lemma ready_data_init: "usbi_io_init (0, 3, 4) 5 (fresh_data empty_heap 4) = Some (0, 5, ready_data)"
proof -
  have "(case usbi_io_init (0, 3, 4) 5 (fresh_data empty_heap 4) of Some (r, t, _) \<Rightarrow> r = 0 \<and> t = 5 | None \<Rightarrow> False)"
    by code_simp
  then show ?thesis by (auto simp: ready_data_def split: option.splits)
qed

definition close_data :: event_data where
  "close_data = (case close_begin ready_data of Some d \<Rightarrow> d | None \<Rightarrow> ready_data)"

lemma close_data_pending: "usbi_pending_events close_data" "\<not> ed_lock close_data"
  by code_simp+

lemma close_data_step: "preach 5 (pstate ready_data Idle None) (pstate close_data Idle None)"
proof (rule preach.step [OF preach.start], rule pstep.close_begins)
  have "(case close_begin ready_data of Some _ \<Rightarrow> True | None \<Rightarrow> False)" by code_simp
  then show "close_begin ready_data = Some close_data" by (auto simp: close_data_def split: option.splits)
  show "ed_device_close ready_data + 1 \<noteq> 0" by code_simp
qed

theorem no_lost_wakeup_witness:
  "usbi_pending_events close_data \<and> 0 < ed_pipe close_data \<and> fds_ok 5 close_data"
  using no_lost_wakeup [OF empty_heap_wf _ _ ready_data_init close_data_step] close_data_pending by simp

text \<open>C4. No thread gets stuck: in every reachable state the handler's critical sections end, because the
  pipe, whose read end blocks, is read only when it holds a byte; the assertion on the number of
  descriptors holds and the array for \<open>poll\<close> has room; the message the handler took is a live block;
  removing a descriptor frees a live block; and a thread that closes a device can lower the count
  and give the events lock back.\<close>

theorem event_threads_never_stuck:
  assumes "heap_wf h" and "0 < cap" and "fd0 \<noteq> tf"
    and "usbi_io_init (0, fd0, fd1) tf (fresh_data h cap) = Some (0, tfd, d0)"
    and "preach tfd (pstate d0 Idle None) (pstate d ph m)"
  shows "(ph = Handling \<longrightarrow> poll_setup (0 \<le> tfd) d \<noteq> None \<and> pipe_begin d \<noteq> None \<and>
            (\<forall>msg. m = Some msg \<longrightarrow> c_release (hm_block msg) (ed_heap d) \<noteq> None)) \<and>
         (ph = InPipe \<longrightarrow> pipe_end d \<noteq> None) \<and>
         (ph = Closing \<longrightarrow> (\<exists>d1. close_end d = Some d1 \<and> libusb_unlock_events d1 \<noteq> None)) \<and>
         (\<not> ed_lock d \<longrightarrow> usbi_remove_pollfd fd d \<noteq> None)"
proof -
  have inv: "proto_inv tfd (pstate d ph m)"
    using preach_inv [OF assms(5) io_init_inv [OF assms(1-4)]] .
  have "poll_setup (0 \<le> tfd) d \<noteq> None" if "ph = Handling"
    using inv [unfolded that] by (cases rule: poll_setup_cases) auto
  moreover have "pipe_begin d \<noteq> None" if "ph = Handling"
    using inv that pipe_begin_eq [of d] by (simp add: proto_inv_pstate locks_ok_def)
  moreover have "c_release (hm_block msg) (ed_heap d) \<noteq> None" if "m = Some msg" for msg
    using inv that by (auto simp: proto_inv_pstate blocks_ok_def c_release_def)
  moreover have "pipe_end d \<noteq> None" if "ph = InPipe"
    using inv [unfolded that] by (cases rule: pipe_end_eq) auto
  moreover have "\<exists>d1. close_end d = Some d1 \<and> libusb_unlock_events d1 \<noteq> None" if c: "ph = Closing"
  proof -
    from inv c have a: "awake d Closing" "\<not> ed_lock d" "ed_device_close d \<noteq> 0" "ed_events_lock d" "\<not> ed_waiters_lock d"
      by (simp_all add: proto_inv_pstate locks_ok_def)
    from close_end_eq [OF a(1-3)] obtain n where
      "close_end d = Some (d\<lparr>ed_device_close := ed_device_close d - 1, ed_pipe := n\<rparr>)" by blast
    with a(4,5) unlock_events_eq [of "d\<lparr>ed_device_close := ed_device_close d - 1, ed_pipe := n\<rparr>"] show ?thesis by simp
  qed
  moreover have "usbi_remove_pollfd fd d \<noteq> None" if l: "\<not> ed_lock d"
  proof (cases "find (\<lambda>f. pf_fd f = fd) (ed_ipollfds d)")
    case None
    with l show ?thesis by (simp add: usbi_remove_pollfd_def lock_event_data_def unlock_event_data_def)
  next
    case (Some f)
    then have "f \<in> set (ed_ipollfds d)" by (auto simp: find_Some_iff in_set_conv_nth)
    with inv have "pf_block f \<in> hp_live (ed_heap d)" by (auto simp: proto_inv_pstate blocks_ok_def ed_blocks_def)
    with Some l section_eq [of d "\<lambda>d. d\<lparr>ed_ipollfds := remove1 f (ed_ipollfds d), ed_pollfds_cnt := ed_pollfds_cnt d - 1,
          ed_event_flags := insert USBI_EVENT_POLLFDS_MODIFIED (ed_event_flags d)\<rparr>"] show ?thesis
      by (simp add: usbi_remove_pollfd_def usbi_fd_notification_def lock_event_data_def c_release_def Let_def)
  qed
  ultimately show ?thesis by blast
qed

theorem event_threads_never_stuck_witness:
  "usbi_remove_pollfd 3 close_data \<noteq> None"
  using event_threads_never_stuck [OF empty_heap_wf _ _ ready_data_init close_data_step, of 3] close_data_pending(2)
  by simp

end
