(* ===== verification/Endpoints.thy ===== *)
theory Endpoints
  imports Desc_Api_Safety
begin

text \<open>
  The search for an endpoint in the active configuration and the packet sizes computed from it
  (\<open>find_endpoint\<close>, \<open>libusb_get_max_packet_size\<close>, \<open>libusb_get_max_iso_packet_size\<close> of core.c), on the
  configurations of the descriptor parser.
\<close>

subsection \<open>Definitions\<close>

text \<open>A counting loop that stops at the first index where its body finds something.\<close>

primrec find_loop :: "(nat \<Rightarrow> 'a option option) \<Rightarrow> nat list \<Rightarrow> 'a option option" where
  "find_loop body [] = Some None"
| "find_loop body (i # is) = do {
     r \<leftarrow> body i;
     (case r of Some x \<Rightarrow> Some (Some x) | None \<Rightarrow> find_loop body is)
   }"

text \<open>Indexing through a pointer: a fault for NULL and outside the array.\<close>

definition blk_rd :: "'a list blk \<Rightarrow> nat \<Rightarrow> 'a option" where
  "blk_rd b i = do { (_, xs) \<leftarrow> b; rd xs i }"

definition find_endpoint ::
  "libusb_config_descriptor \<Rightarrow> u8 \<Rightarrow> libusb_endpoint_descriptor option option" where
  "find_endpoint config endpoint =
     find_loop (\<lambda>iface_idx. do {
       iface \<leftarrow> blk_rd (cf_interface config) iface_idx;
       find_loop (\<lambda>altsetting_idx. do {
         alt \<leftarrow> blk_rd (altsetting iface) altsetting_idx;
         find_loop (\<lambda>ep_idx. do {
           ep \<leftarrow> blk_rd (if_endpoint alt) ep_idx;
           Some (if ep_bEndpointAddress ep = endpoint then Some ep else None)
         }) [0..<unat (if_bNumEndpoints alt)]
       }) [0..<nat (num_altsetting iface)]
     }) [0..<unat (cf_bNumInterfaces config)]"

definition libusb_get_max_packet_size :: "endian \<Rightarrow> reader \<Rightarrow> u8 \<Rightarrow> heap \<Rightarrow> (int \<times> heap) option" where
  "libusb_get_max_packet_size cpu get_active endpoint h = do {
     (r, config, h1) \<leftarrow> libusb_get_active_config_descriptor cpu get_active h;
     if r < 0 then Some (LIBUSB_ERROR_OTHER, h1)
     else do {
       (_, c) \<leftarrow> config;
       ep \<leftarrow> find_endpoint c endpoint;
       let r1 = (case ep of None \<Rightarrow> LIBUSB_ERROR_NOT_FOUND | Some e \<Rightarrow> uint (ep_wMaxPacketSize e));
       h2 \<leftarrow> libusb_free_config_descriptor config h1;
       Some (r1, h2)
     }
   }"

abbreviation EP_TYPE_ISOCHRONOUS :: u8 where "EP_TYPE_ISOCHRONOUS \<equiv> 1"
abbreviation EP_TYPE_INTERRUPT :: u8 where "EP_TYPE_INTERRUPT \<equiv> 3"

definition iso_packet_size :: "libusb_endpoint_descriptor \<Rightarrow> int" where
  "iso_packet_size ep =
     (let val = ep_wMaxPacketSize ep;
          ep_type = ep_bmAttributes ep AND 3;
          r = uint (val AND 0x07ff)
      in if ep_type = EP_TYPE_ISOCHRONOUS \<or> ep_type = EP_TYPE_INTERRUPT
         then r * (1 + uint (drop_bit 11 val AND 3)) else r)"

definition libusb_get_max_iso_packet_size :: "endian \<Rightarrow> reader \<Rightarrow> u8 \<Rightarrow> heap \<Rightarrow> (int \<times> heap) option" where
  "libusb_get_max_iso_packet_size cpu get_active endpoint h = do {
     (r, config, h1) \<leftarrow> libusb_get_active_config_descriptor cpu get_active h;
     if r < 0 then Some (LIBUSB_ERROR_OTHER, h1)
     else do {
       (_, c) \<leftarrow> config;
       ep \<leftarrow> find_endpoint c endpoint;
       let r1 = (case ep of None \<Rightarrow> LIBUSB_ERROR_NOT_FOUND | Some e \<Rightarrow> iso_packet_size e);
       h2 \<leftarrow> libusb_free_config_descriptor config h1;
       Some (r1, h2)
     }
   }"

subsection \<open>The search\<close>

text \<open>The first element found by a search through a list, as a reference for the nested loops.\<close>

fun first_of :: "('a \<Rightarrow> 'b option) \<Rightarrow> 'a list \<Rightarrow> 'b option" where
  "first_of f [] = None"
| "first_of f (x # xs) = (case f x of Some y \<Rightarrow> Some y | None \<Rightarrow> first_of f xs)"

lemma first_of_concat: "first_of f (concat xss) = first_of (first_of f) xss"
proof (induction xss)
  case (Cons xs xss)
  have "first_of f (xs @ ys) = (case first_of f xs of Some y \<Rightarrow> Some y | None \<Rightarrow> first_of f ys)" for ys
    by (induction xs) (auto split: option.splits)
  with Cons show ?case by (simp split: option.split)
qed simp

lemma first_of_map: "first_of f (map g xs) = first_of (\<lambda>x. f (g x)) xs"
  by (induction xs) (auto split: option.splits)

lemma first_of_find: "first_of (\<lambda>x. if P x then Some x else None) xs = find P xs"
  by (induction xs) auto

lemma find_loop_first:
  "(\<And>i. i \<in> set is \<Longrightarrow> body i = Some (g i)) \<Longrightarrow> find_loop body is = Some (first_of g is)"
  by (induction "is") (auto split: option.splits)

lemma first_of_nth:
  assumes "n \<le> length xs"
  shows "first_of (\<lambda>i. f (xs ! i)) [0..<n] = first_of f (take n xs)"
proof -
  have "take n xs = map ((!) xs) [0..<n]" using assms by (intro nth_equalityI) simp_all
  then show ?thesis by (simp add: first_of_map)
qed

text \<open>The arrays of a configuration, cut to their counts; \<open>complete_config\<close>: no array with a positive count
  is NULL.\<close>

definition arr :: "'a list blk \<Rightarrow> nat \<Rightarrow> 'a list" where
  "arr b n = (case b of None \<Rightarrow> [] | Some (_, xs) \<Rightarrow> take n xs)"

definition full :: "'a list blk \<Rightarrow> nat \<Rightarrow> bool" where
  "full b n \<longleftrightarrow> n = 0 \<or> (case b of None \<Rightarrow> False | Some (_, xs) \<Rightarrow> n \<le> length xs)"

definition complete_alt :: "libusb_interface_descriptor \<Rightarrow> bool" where
  "complete_alt d \<longleftrightarrow> full (if_endpoint d) (unat (if_bNumEndpoints d))"

definition complete_iface :: "libusb_interface \<Rightarrow> bool" where
  "complete_iface u \<longleftrightarrow> full (altsetting u) (nat (num_altsetting u)) \<and>
     (\<forall>d \<in> set (arr (altsetting u) (nat (num_altsetting u))). complete_alt d)"

definition complete_config :: "libusb_config_descriptor \<Rightarrow> bool" where
  "complete_config c \<longleftrightarrow> full (cf_interface c) (unat (cf_bNumInterfaces c)) \<and>
     (\<forall>u \<in> set (arr (cf_interface c) (unat (cf_bNumInterfaces c))). complete_iface u)"

definition config_endpoints :: "libusb_config_descriptor \<Rightarrow> libusb_endpoint_descriptor list" where
  "config_endpoints c =
     concat (map (\<lambda>u. concat (map (\<lambda>d. arr (if_endpoint d) (unat (if_bNumEndpoints d)))
       (arr (altsetting u) (nat (num_altsetting u))))) (arr (cf_interface c) (unat (cf_bNumInterfaces c))))"

text \<open>One loop over an array whose elements are searched by a function that never faults.\<close>

lemma find_loop_arr:
  assumes "full b n" and "\<And>x. x \<in> set (arr b n) \<Longrightarrow> body x = Some (g x)"
  shows "find_loop (\<lambda>i. do { x \<leftarrow> blk_rd b i; body x }) [0..<n] = Some (first_of g (arr b n))"
proof (cases "n = 0")
  case True
  then show ?thesis by (simp add: arr_def split: option.split)
next
  case False
  with assms(1) obtain p xs where b: "b = Some (p, xs)" "n \<le> length xs" by (auto simp: full_def split: option.splits)
  have "find_loop (\<lambda>i. do { x \<leftarrow> blk_rd b i; body x }) [0..<n] = Some (first_of (\<lambda>i. g (xs ! i)) [0..<n])"
  proof (rule find_loop_first)
    fix i assume "i \<in> set [0..<n]"
    then have i: "i < n" by simp
    then have "xs ! i \<in> set (arr b n)" using b by (auto simp: arr_def in_set_conv_nth)
    with assms(2) b i show "do { x \<leftarrow> blk_rd b i; body x } = Some (g (xs ! i))" by (simp add: blk_rd_def)
  qed
  with b first_of_nth show ?thesis by (simp add: arr_def)
qed

lemma find_endpoint_eq:
  assumes "complete_config c"
  shows "find_endpoint c a = Some (find (\<lambda>e. ep_bEndpointAddress e = a) (config_endpoints c))"
proof -
  let ?f = "\<lambda>e. if ep_bEndpointAddress e = a then Some e else None"
  have alt: "find_loop (\<lambda>i. do { ep \<leftarrow> blk_rd (if_endpoint d) i; Some (?f ep) }) [0..<unat (if_bNumEndpoints d)] =
      Some (first_of ?f (arr (if_endpoint d) (unat (if_bNumEndpoints d))))" if "complete_alt d" for d
    using that by (intro find_loop_arr) (simp_all add: complete_alt_def)
  have iface: "find_loop (\<lambda>i. do { d \<leftarrow> blk_rd (altsetting u) i;
        find_loop (\<lambda>i. do { ep \<leftarrow> blk_rd (if_endpoint d) i; Some (?f ep) }) [0..<unat (if_bNumEndpoints d)] })
        [0..<nat (num_altsetting u)] =
      Some (first_of (\<lambda>d. first_of ?f (arr (if_endpoint d) (unat (if_bNumEndpoints d))))
        (arr (altsetting u) (nat (num_altsetting u))))" if "complete_iface u" for u
    using that by (intro find_loop_arr alt) (simp_all add: complete_iface_def)
  have "find_endpoint c a = Some (first_of (\<lambda>u. first_of (\<lambda>d. first_of ?f (arr (if_endpoint d) (unat (if_bNumEndpoints d))))
        (arr (altsetting u) (nat (num_altsetting u)))) (arr (cf_interface c) (unat (cf_bNumInterfaces c))))"
    unfolding find_endpoint_def
    using assms by (intro find_loop_arr iface) (simp_all add: complete_config_def)
  then show ?thesis
    by (simp add: config_endpoints_def first_of_concat first_of_map flip: first_of_find)
qed


subsection \<open>Packet sizes\<close>

lemma iso_packet_size_bounds: "0 \<le> iso_packet_size ep \<and> iso_packet_size ep \<le> 8188"
proof -
  let ?v = "ep_wMaxPacketSize ep"
  have a: "uint (?v AND 0x07ff) \<le> 2047"
  proof -
    have "?v AND 0x07ff \<le> (0x07ff :: u16)" by (rule word_and_le1)
    then show ?thesis by (simp add: word_le_def)
  qed
  have b: "uint (drop_bit 11 ?v AND 3) \<le> 3"
  proof -
    have "drop_bit 11 ?v AND 3 \<le> (3 :: u16)" by (rule word_and_le1)
    then show ?thesis by (simp add: word_le_def)
  qed
  have "uint (?v AND 0x07ff) * (1 + uint (drop_bit 11 ?v AND 3)) \<le> 2047 * 4"
    by (rule mult_mono) (use a b in simp_all)
  with a show ?thesis by (simp add: iso_packet_size_def Let_def)
qed

text \<open>The endpoint a size is computed from: the first of its address in the active configuration.\<close>

definition size_of_endpoint ::
  "endian \<Rightarrow> reader \<Rightarrow> u8 \<Rightarrow> heap \<Rightarrow> (libusb_endpoint_descriptor \<Rightarrow> int) \<Rightarrow> int \<Rightarrow> bool" where
  "size_of_endpoint cpu get_active a h sz r \<longleftrightarrow>
     (case libusb_get_active_config_descriptor cpu get_active h of
        Some (_, Some (_, c), _) \<Rightarrow>
          r = (case find (\<lambda>e. ep_bEndpointAddress e = a) (config_endpoints c) of
                 None \<Rightarrow> LIBUSB_ERROR_NOT_FOUND | Some e \<Rightarrow> sz e)
      | _ \<Rightarrow> r = LIBUSB_ERROR_OTHER)"

definition complete_active :: "endian \<Rightarrow> reader \<Rightarrow> heap \<Rightarrow> bool" where
  "complete_active cpu get_active h \<longleftrightarrow>
     (case libusb_get_active_config_descriptor cpu get_active h of
        Some (_, Some (_, c), _) \<Rightarrow> complete_config c | _ \<Rightarrow> True)"

text \<open>C30. The packet size functions, on every answer of a conforming device whose endpoint arrays are there: they
  return the value of the first endpoint with the address in the active configuration,
  LIBUSB_ERROR_NOT_FOUND if there is none, LIBUSB_ERROR_OTHER if the configuration cannot be
  read; the isochronous size is at most 8188; and the configuration is freed again, but for at most one block.\<close>

theorem max_packet_sizes_correct:
  assumes be: "reader_ok be" and wf: "heap_wf h" and rf: "\<And>n. \<not> hp_refail h n" and full: "complete_active cpu be h"
  shows "\<exists>r ri h'. libusb_get_max_packet_size cpu be a h = Some (r, h') \<and>
    libusb_get_max_iso_packet_size cpu be a h = Some (ri, h') \<and>
    size_of_endpoint cpu be a h (\<lambda>e. uint (ep_wMaxPacketSize e)) r \<and>
    size_of_endpoint cpu be a h iso_packet_size ri \<and> ri \<le> 8188 \<and>
    hp_live h \<subseteq> hp_live h' \<and> card (hp_live h' - hp_live h) \<le> 1"
  using be wf rf
proof (cases rule: fetch_config_owns [of be h cpu])
  case (err r h')
  then show ?thesis
    by (auto simp: libusb_get_max_packet_size_def libusb_get_max_iso_packet_size_def size_of_endpoint_def
        libusb_get_active_config_descriptor_def owns_def)
next
  case (ok p c h1 lk)
  have act: "libusb_get_active_config_descriptor cpu be h = Some (0, Some (p, c), h1)"
    using ok(1) by (simp add: libusb_get_active_config_descriptor_def)
  with full have "complete_config c" by (simp add: complete_active_def)
  note find = find_endpoint_eq [OF this, of a]
  from free_parsed_config [OF ok(3,2) wf] obtain h2 where
    h2: "libusb_free_config_descriptor (Some (p, c)) h1 = Some h2" "owns h h2 lk" by blast
  have live: "hp_live h \<subseteq> hp_live h2" "card (hp_live h2 - hp_live h) \<le> 1"
  proof -
    have "hp_live h2 - hp_live h \<subseteq> set lk" using h2(2) by (auto simp: owns_def)
    then have "card (hp_live h2 - hp_live h) \<le> card (set lk)" by (intro card_mono) simp_all
    with ok(4) card_length [of lk] show "card (hp_live h2 - hp_live h) \<le> 1" by linarith
    show "hp_live h \<subseteq> hp_live h2" using h2(2) by (auto simp: owns_def)
  qed
  let ?e = "find (\<lambda>e. ep_bEndpointAddress e = a) (config_endpoints c)"
  have "libusb_get_max_packet_size cpu be a h =
      Some (case ?e of None \<Rightarrow> LIBUSB_ERROR_NOT_FOUND | Some e \<Rightarrow> uint (ep_wMaxPacketSize e), h2)"
    using act find h2(1) by (simp add: libusb_get_max_packet_size_def)
  moreover have "libusb_get_max_iso_packet_size cpu be a h =
      Some (case ?e of None \<Rightarrow> LIBUSB_ERROR_NOT_FOUND | Some e \<Rightarrow> iso_packet_size e, h2)"
    using act find h2(1) by (simp add: libusb_get_max_iso_packet_size_def)
  moreover have "(case ?e of None \<Rightarrow> LIBUSB_ERROR_NOT_FOUND | Some e \<Rightarrow> iso_packet_size e) \<le> 8188"
    using iso_packet_size_bounds by (simp split: option.split)
  ultimately show ?thesis using act live by (simp add: size_of_endpoint_def)
qed

definition cfg_one_ep :: "u8 list" where
  "cfg_one_ep = [9, 2, 25, 0, 1, 1, 0, 0x80, 50,  9, 4, 0, 0, 1, 255, 0, 0, 0,  7, 5, 0x81, 1, 0x00, 0x14, 1]"

definition bytes_reader :: "u8 list \<Rightarrow> reader" where
  "bytes_reader all i len = (let bs = take len all in (int (length bs), bs, False))"

lemma bytes_reader_ok: "reader_ok (bytes_reader all)"
  by (simp add: reader_ok_def bytes_reader_def Let_def)

lemma one_ep_complete: "complete_active LittleEndian (bytes_reader cfg_one_ep) empty_heap"
  by code_simp

theorem max_packet_sizes_correct_witness:
  "\<exists>r ri h'. libusb_get_max_packet_size LittleEndian (bytes_reader cfg_one_ep) 0x81 empty_heap = Some (r, h') \<and>
    libusb_get_max_iso_packet_size LittleEndian (bytes_reader cfg_one_ep) 0x81 empty_heap = Some (ri, h') \<and>
    size_of_endpoint LittleEndian (bytes_reader cfg_one_ep) 0x81 empty_heap (\<lambda>e. uint (ep_wMaxPacketSize e)) r \<and>
    size_of_endpoint LittleEndian (bytes_reader cfg_one_ep) 0x81 empty_heap iso_packet_size ri \<and> ri \<le> 8188 \<and>
    hp_live empty_heap \<subseteq> hp_live h' \<and> card (hp_live h' - hp_live empty_heap) \<le> 1"
  by (rule max_packet_sizes_correct [OF bytes_reader_ok empty_heap_wf _ one_ep_complete])
    (simp add: empty_heap_def)

text \<open>The hypothesis is needed: on a configuration with a truncated class descriptor after its interface, which
  the parser accepts with an endpoint count over a NULL array, asking for a packet size reads
  through NULL.\<close>

theorem max_packet_size_null_endpoints:
  "libusb_get_max_packet_size LittleEndian (bytes_reader cfg_short_extra) 0x81 empty_heap = None"
  by code_simp

end
