(* ===== verification/Core_Device.thy ===== *)
theory Core_Device
  imports Event_Data Desc_Api
begin

text \<open>
  Devices (core.c): the reference counted device structures, the context's list of devices, connection
  and disconnection with their hotplug messages, enumeration, and the functions that look at a device.

  A device is a block of the ledger with its contents in a store. What the operating system backend
  decides is a record \<open>core_backend\<close>; an operation a backend may leave out is an option.
\<close>

subsection \<open>State\<close>

record libusb_device =
  dv_lock :: bool
  dv_refcnt :: int
  dv_bus_number :: u8
  dv_port_number :: u8
  dv_parent_dev :: "ptr option"
  dv_device_address :: u8
  dv_num_configurations :: u8
  dv_speed :: int
  dv_session_data :: nat
  dv_device_descriptor :: libusb_device_descriptor
  dv_attached :: bool

record core_ctx =
  co_ev :: event_data
  co_devs :: "ptr \<Rightarrow> libusb_device option"
  co_usb_devs :: "ptr list"
  co_usb_devs_lock :: bool

text \<open>\<open>be_get_device_list\<close> is set in a backend without hotplug support: the devices it adds, or an error.\<close>

record core_backend =
  be_caps :: u32
  be_get_device_list :: "(int \<times> ptr list) option"
  be_mutex_init :: int

abbreviation USBI_CAP_HAS_HID_ACCESS :: u32 where "USBI_CAP_HAS_HID_ACCESS \<equiv> 0x00010000"
abbreviation USBI_CAP_SUPPORTS_DETACH_KERNEL_DRIVER :: u32 where
  "USBI_CAP_SUPPORTS_DETACH_KERNEL_DRIVER \<equiv> 0x00020000"

abbreviation LIBUSB_CAP_HAS_CAPABILITY :: u32 where "LIBUSB_CAP_HAS_CAPABILITY \<equiv> 0"
abbreviation LIBUSB_CAP_HAS_HOTPLUG :: u32 where "LIBUSB_CAP_HAS_HOTPLUG \<equiv> 1"
abbreviation LIBUSB_CAP_HAS_HID_ACCESS :: u32 where "LIBUSB_CAP_HAS_HID_ACCESS \<equiv> 0x100"
abbreviation LIBUSB_CAP_SUPPORTS_DETACH_KERNEL_DRIVER :: u32 where
  "LIBUSB_CAP_SUPPORTS_DETACH_KERNEL_DRIVER \<equiv> 0x101"

definition libusb_has_capability :: "core_backend \<Rightarrow> u32 \<Rightarrow> int" where
  "libusb_has_capability be capability =
     (if capability = LIBUSB_CAP_HAS_CAPABILITY then 1
      else if capability = LIBUSB_CAP_HAS_HOTPLUG then (if be_get_device_list be = None then 1 else 0)
      else if capability = LIBUSB_CAP_HAS_HID_ACCESS then sint (be_caps be AND USBI_CAP_HAS_HID_ACCESS)
      else if capability = LIBUSB_CAP_SUPPORTS_DETACH_KERNEL_DRIVER
           then sint (be_caps be AND USBI_CAP_SUPPORTS_DETACH_KERNEL_DRIVER)
      else 0)"

definition has_hotplug :: "core_backend \<Rightarrow> bool" where
  "has_hotplug be \<longleftrightarrow> libusb_has_capability be LIBUSB_CAP_HAS_HOTPLUG \<noteq> 0"

subsection \<open>Access\<close>

definition get_dev :: "ptr \<Rightarrow> core_ctx \<Rightarrow> libusb_device option" where
  "get_dev p c = co_devs c p"

definition put_dev :: "ptr \<Rightarrow> libusb_device \<Rightarrow> core_ctx \<Rightarrow> core_ctx" where
  "put_dev p dv c = c\<lparr>co_devs := (co_devs c)(p \<mapsto> dv)\<rparr>"

abbreviation co_heap :: "core_ctx \<Rightarrow> heap" where "co_heap c \<equiv> ed_heap (co_ev c)"

definition set_heap :: "heap \<Rightarrow> core_ctx \<Rightarrow> core_ctx" where
  "set_heap h c = c\<lparr>co_ev := (co_ev c)\<lparr>ed_heap := h\<rparr>\<rparr>"

definition lock_usb_devs :: "core_ctx \<Rightarrow> core_ctx option" where
  "lock_usb_devs c = (if co_usb_devs_lock c then None else Some (c\<lparr>co_usb_devs_lock := True\<rparr>))"

definition unlock_usb_devs :: "core_ctx \<Rightarrow> core_ctx option" where
  "unlock_usb_devs c = (if co_usb_devs_lock c then Some (c\<lparr>co_usb_devs_lock := False\<rparr>) else None)"

text \<open>A critical section of the device's own lock in which it is changed by \<open>f\<close>.\<close>

definition with_dev :: "ptr \<Rightarrow> (libusb_device \<Rightarrow> libusb_device) \<Rightarrow> core_ctx \<Rightarrow> core_ctx option" where
  "with_dev p f c = do { dv \<leftarrow> get_dev p c; if dv_lock dv then None else Some (put_dev p (f dv) c) }"

subsection \<open>Hotplug messages, connection, disconnection\<close>

definition core_notification :: "ptr option \<Rightarrow> u32 \<Rightarrow> core_ctx \<Rightarrow> core_ctx option" where
  "core_notification dev event c = do {
     d \<leftarrow> usbi_hotplug_notification dev event (co_ev c); Some (c\<lparr>co_ev := d\<rparr>) }"

definition usbi_connect_device :: "core_backend \<Rightarrow> ptr \<Rightarrow> core_ctx \<Rightarrow> core_ctx option" where
  "usbi_connect_device be dev c = do {
     dv \<leftarrow> get_dev dev c;
     let c1 = put_dev dev (dv\<lparr>dv_attached := True\<rparr>) c;
     c2 \<leftarrow> lock_usb_devs c1;
     c3 \<leftarrow> unlock_usb_devs (c2\<lparr>co_usb_devs := dev # co_usb_devs c2\<rparr>);
     if has_hotplug be \<and> ed_hotplug_ready (co_ev c3)
     then core_notification (Some dev) LIBUSB_HOTPLUG_EVENT_DEVICE_ARRIVED c3
     else Some c3
   }"

definition usb_devs_del :: "ptr \<Rightarrow> core_ctx \<Rightarrow> core_ctx option" where
  "usb_devs_del dev c = (if dev \<in> set (co_usb_devs c) then Some (c\<lparr>co_usb_devs := remove1 dev (co_usb_devs c)\<rparr>) else None)"

definition usbi_disconnect_device :: "core_backend \<Rightarrow> ptr \<Rightarrow> core_ctx \<Rightarrow> core_ctx option" where
  "usbi_disconnect_device be dev c = do {
     c1 \<leftarrow> with_dev dev (\<lambda>dv. dv\<lparr>dv_attached := False\<rparr>) c;
     c2 \<leftarrow> lock_usb_devs c1;
     c3 \<leftarrow> usb_devs_del dev c2;
     c4 \<leftarrow> unlock_usb_devs c3;
     if has_hotplug be \<and> ed_hotplug_ready (co_ev c4)
     then core_notification (Some dev) LIBUSB_HOTPLUG_EVENT_DEVICE_LEFT c4
     else Some c4
   }"

subsection \<open>References\<close>

definition libusb_ref_device :: "ptr \<Rightarrow> core_ctx \<Rightarrow> core_ctx option" where
  "libusb_ref_device dev c = with_dev dev (\<lambda>dv. dv\<lparr>dv_refcnt := dv_refcnt dv + 1\<rparr>) c"

text \<open>The destroyed device's parent loses a reference in turn. \<open>destroy_device\<close> of the backend touches only
  its private data.\<close>

partial_function (option) libusb_unref_device :: "core_backend \<Rightarrow> ptr option \<Rightarrow> core_ctx \<Rightarrow> core_ctx option" where
  "libusb_unref_device be dev c =
     (case dev of
        None \<Rightarrow> Some c
      | Some p \<Rightarrow>
          Option.bind (with_dev p (\<lambda>dv. dv\<lparr>dv_refcnt := dv_refcnt dv - 1\<rparr>) c) (\<lambda>c1.
          Option.bind (get_dev p c1) (\<lambda>dv.
          if dv_refcnt dv = 0 then
            Option.bind (libusb_unref_device be (dv_parent_dev dv) c1) (\<lambda>c2.
            Option.bind (if \<not> has_hotplug be then usbi_disconnect_device be p c2 else Some c2) (\<lambda>c3.
            Option.bind (c_release p (co_heap c3)) (\<lambda>h.
            Some (set_heap h (c3\<lparr>co_devs := (co_devs c3)(p := None)\<rparr>)))))
          else Some c1)))"

definition new_device :: "nat \<Rightarrow> libusb_device" where
  "new_device session_id = \<lparr>dv_lock = False, dv_refcnt = 1, dv_bus_number = 0, dv_port_number = 0, dv_parent_dev = None,
     dv_device_address = 0, dv_num_configurations = 0, dv_speed = 0, dv_session_data = session_id,
     dv_device_descriptor = dd_native LittleEndian (replicate 18 0), dv_attached = False\<rparr>"

definition usbi_alloc_device :: "core_backend \<Rightarrow> nat \<Rightarrow> core_ctx \<Rightarrow> (ptr option \<times> core_ctx) option" where
  "usbi_alloc_device be session_id c =
     (case c_malloc (co_heap c) of
        (None, h) \<Rightarrow> Some (None, set_heap h c)
      | (Some p, h) \<Rightarrow>
          if be_mutex_init be \<noteq> 0 then do { h1 \<leftarrow> c_release p h; Some (None, set_heap h1 c) }
          else do {
            let c1 = put_dev p (new_device session_id) (set_heap h c);
            c2 \<leftarrow> (if \<not> has_hotplug be then usbi_connect_device be p c1 else Some c1);
            Some (Some p, c2)
          })"

text \<open>\<open>answer\<close> is what the backend gives for the device descriptor (see \<open>usbi_device_cache_descriptor\<close>).\<close>

definition usbi_sanitize_device ::
  "endian \<Rightarrow> int \<times> u8 list \<times> bool \<Rightarrow> ptr \<Rightarrow> core_ctx \<Rightarrow> (int \<times> core_ctx) option" where
  "usbi_sanitize_device cpu answer dev c = do {
     dv \<leftarrow> get_dev dev c;
     (r, desc) \<leftarrow> usbi_device_cache_descriptor cpu answer;
     (case desc of
        None \<Rightarrow> Some (r, c)
      | Some dd \<Rightarrow> do {
          let dv1 = dv\<lparr>dv_device_descriptor := dd\<rparr>;
          let num_configurations = dd_bNumConfigurations dd;
          if int_of num_configurations > USB_MAXCONFIG then Some (LIBUSB_ERROR_IO, put_dev dev dv1 c)
          else Some (0, put_dev dev (dv1\<lparr>dv_num_configurations := num_configurations\<rparr>) c)
        })
   }"

primrec session_loop :: "nat \<Rightarrow> ptr list \<Rightarrow> core_ctx \<Rightarrow> (ptr option \<times> core_ctx) option" where
  "session_loop session_id [] c = Some (None, c)"
| "session_loop session_id (p # ps) c = do {
     dv \<leftarrow> get_dev p c;
     if dv_session_data dv = session_id then do { c1 \<leftarrow> libusb_ref_device p c; Some (Some p, c1) }
     else session_loop session_id ps c
   }"

definition usbi_get_device_by_session_id :: "nat \<Rightarrow> core_ctx \<Rightarrow> (ptr option \<times> core_ctx) option" where
  "usbi_get_device_by_session_id session_id c = do {
     c1 \<leftarrow> lock_usb_devs c;
     (ret, c2) \<leftarrow> session_loop session_id (co_usb_devs c1) c1;
     c3 \<leftarrow> unlock_usb_devs c2;
     Some (ret, c3)
   }"

subsection \<open>Discovered devices and the device list\<close>

abbreviation DISCOVERED_DEVICES_SIZE_STEP :: nat where "DISCOVERED_DEVICES_SIZE_STEP \<equiv> 8"

text \<open>\<open>len\<close> is the length of the list \<open>dd_devices\<close>.\<close>

record discovered_devs =
  ds_block :: ptr
  ds_devices :: "ptr list"
  ds_capacity :: nat

definition discovered_devs_alloc :: "core_ctx \<Rightarrow> discovered_devs option \<times> core_ctx" where
  "discovered_devs_alloc c = (case c_malloc (co_heap c) of
       (None, h) \<Rightarrow> (None, set_heap h c)
     | (Some p, h) \<Rightarrow> (Some \<lparr>ds_block = p, ds_devices = [], ds_capacity = DISCOVERED_DEVICES_SIZE_STEP\<rparr>, set_heap h c))"

primrec unref_all :: "core_backend \<Rightarrow> ptr list \<Rightarrow> core_ctx \<Rightarrow> core_ctx option" where
  "unref_all be [] c = Some c"
| "unref_all be (p # ps) c = do { c1 \<leftarrow> libusb_unref_device be (Some p) c; unref_all be ps c1 }"

definition discovered_devs_free :: "core_backend \<Rightarrow> discovered_devs \<Rightarrow> core_ctx \<Rightarrow> core_ctx option" where
  "discovered_devs_free be discdevs c = do {
     c1 \<leftarrow> unref_all be (ds_devices discdevs) c;
     h \<leftarrow> c_release (ds_block discdevs) (co_heap c1);
     Some (set_heap h c1)
   }"

text \<open>A plain \<open>realloc\<close>: when it fails the old block stays.\<close>

definition discovered_devs_append ::
  "core_backend \<Rightarrow> discovered_devs \<Rightarrow> ptr \<Rightarrow> core_ctx \<Rightarrow> (discovered_devs option \<times> core_ctx) option" where
  "discovered_devs_append be discdevs dev c =
     (if length (ds_devices discdevs) < ds_capacity discdevs then do {
        c1 \<leftarrow> libusb_ref_device dev c;
        Some (Some (discdevs\<lparr>ds_devices := ds_devices discdevs @ [dev]\<rparr>), c1)
      }
      else
        (let capacity = ds_capacity discdevs + DISCOVERED_DEVICES_SIZE_STEP; h = co_heap c in
         if hp_refail h (hp_next h) then do {
           c1 \<leftarrow> discovered_devs_free be discdevs (set_heap (h\<lparr>hp_next := Suc (hp_next h)\<rparr>) c);
           Some (None, c1)
         }
         else do {
           (q, h1) \<leftarrow> usbi_reallocf (Some (ds_block discdevs)) h;
           p \<leftarrow> q;
           c1 \<leftarrow> libusb_ref_device dev (set_heap h1 c);
           Some (Some (discdevs\<lparr>ds_block := p, ds_capacity := capacity, ds_devices := ds_devices discdevs @ [dev]\<rparr>), c1)
         }))"

primrec append_all ::
  "core_backend \<Rightarrow> ptr list \<Rightarrow> discovered_devs \<Rightarrow> core_ctx \<Rightarrow> (discovered_devs option \<times> core_ctx) option" where
  "append_all be [] discdevs c = Some (Some discdevs, c)"
| "append_all be (p # ps) discdevs c = do {
     (d, c1) \<leftarrow> discovered_devs_append be discdevs p c;
     (case d of None \<Rightarrow> Some (None, c1) | Some d' \<Rightarrow> append_all be ps d' c1)
   }"

primrec ref_all :: "ptr list \<Rightarrow> core_ctx \<Rightarrow> core_ctx option" where
  "ref_all [] c = Some c"
| "ref_all (p # ps) c = do { c1 \<leftarrow> libusb_ref_device p c; ref_all ps c1 }"

text \<open>The enumeration: the context's list under its lock, or the devices that a backend without hotplug support
  finds and appends.\<close>

definition enumerate_devices ::
  "core_backend \<Rightarrow> discovered_devs \<Rightarrow> core_ctx \<Rightarrow> (int \<times> discovered_devs option \<times> core_ctx) option" where
  "enumerate_devices be discdevs c =
     (case be_get_device_list be of
        None \<Rightarrow> do {
          c1 \<leftarrow> lock_usb_devs c;
          (d, c2) \<leftarrow> append_all be (co_usb_devs c1) discdevs c1;
          c3 \<leftarrow> unlock_usb_devs c2;
          Some (if d = None then LIBUSB_ERROR_NO_MEM else 0, d, c3)
        }
      | Some (r, devs) \<Rightarrow> do {
          (d, c1) \<leftarrow> append_all be devs discdevs c;
          Some (if d = None then LIBUSB_ERROR_NO_MEM else r, d, c1)
        })"

text \<open>The result, the list (its block and the devices, the final NULL apart) and the context.\<close>

definition libusb_get_device_list :: "core_backend \<Rightarrow> core_ctx \<Rightarrow> (int \<times> ptr list blk \<times> core_ctx) option" where
  "libusb_get_device_list be c =
     (case discovered_devs_alloc c of
        (None, c1) \<Rightarrow> Some (LIBUSB_ERROR_NO_MEM, None, c1)
      | (Some d0, c1) \<Rightarrow> do {
          (r, discdevs, c2) \<leftarrow> enumerate_devices be d0 c1;
          (len, ret, c5) \<leftarrow>
            (if r < 0 then Some (r, None, c2)
             else do {
               d \<leftarrow> discdevs;
               (case c_malloc (co_heap c2) of
                  (None, h) \<Rightarrow> Some (LIBUSB_ERROR_NO_MEM, None, set_heap h c2)
                | (Some p, h) \<Rightarrow> do {
                    c3 \<leftarrow> ref_all (ds_devices d) (set_heap h c2);
                    Some (int (length (ds_devices d)), Some (p, ds_devices d), c3)
                  })
             });
          c6 \<leftarrow> (case discdevs of None \<Rightarrow> Some c5 | Some d \<Rightarrow> discovered_devs_free be d c5);
          Some (len, ret, c6)
        })"

definition libusb_free_device_list :: "core_backend \<Rightarrow> ptr list blk \<Rightarrow> bool \<Rightarrow> core_ctx \<Rightarrow> core_ctx option" where
  "libusb_free_device_list be list unref_devices c =
     (case list of
        None \<Rightarrow> Some c
      | Some (p, devs) \<Rightarrow> do {
          c1 \<leftarrow> (if unref_devices then unref_all be devs c else Some c);
          h \<leftarrow> c_release p (co_heap c1);
          Some (set_heap h c1)
        })"

subsection \<open>Looking at a device\<close>

definition libusb_get_bus_number :: "ptr \<Rightarrow> core_ctx \<Rightarrow> u8 option" where
  "libusb_get_bus_number dev c = map_option dv_bus_number (get_dev dev c)"

definition libusb_get_port_number :: "ptr \<Rightarrow> core_ctx \<Rightarrow> u8 option" where
  "libusb_get_port_number dev c = map_option dv_port_number (get_dev dev c)"

definition libusb_get_parent :: "ptr \<Rightarrow> core_ctx \<Rightarrow> ptr option option" where
  "libusb_get_parent dev c = map_option dv_parent_dev (get_dev dev c)"

definition libusb_get_device_address :: "ptr \<Rightarrow> core_ctx \<Rightarrow> u8 option" where
  "libusb_get_device_address dev c = map_option dv_device_address (get_dev dev c)"

definition libusb_get_device_speed :: "ptr \<Rightarrow> core_ctx \<Rightarrow> int option" where
  "libusb_get_device_speed dev c = map_option dv_speed (get_dev dev c)"

text \<open>The walk to the root. \<open>i\<close> is the C variable before its decrement; the result is an error or the
  final \<open>i\<close>, and the array. Storing outside the array is a fault.\<close>

primrec port_loop :: "core_ctx \<Rightarrow> nat \<Rightarrow> ptr option \<Rightarrow> u8 list \<Rightarrow> ((int + nat) \<times> u8 list) option" where
  "port_loop c 0 dev arr = (case dev of None \<Rightarrow> Some (Inr 0, arr) | Some p \<Rightarrow> do {
     dv \<leftarrow> get_dev p c;
     if dv_port_number dv = 0 then Some (Inr 0, arr) else Some (Inl LIBUSB_ERROR_OVERFLOW, arr) })"
| "port_loop c (Suc i) dev arr = (case dev of None \<Rightarrow> Some (Inr (Suc i), arr) | Some p \<Rightarrow> do {
     dv \<leftarrow> get_dev p c;
     if dv_port_number dv = 0 then Some (Inr (Suc i), arr)
     else if i < length arr then port_loop c i (dv_parent_dev dv) (arr[i := dv_port_number dv])
     else None })"

definition libusb_get_port_numbers :: "core_ctx \<Rightarrow> ptr \<Rightarrow> u8 list \<Rightarrow> int \<Rightarrow> (int \<times> u8 list) option" where
  "libusb_get_port_numbers c dev port_numbers port_numbers_len =
     (if port_numbers_len \<le> 0 then Some (LIBUSB_ERROR_INVALID_PARAM, port_numbers)
      else do {
        (r, arr) \<leftarrow> port_loop c (nat port_numbers_len) (Some dev) port_numbers;
        (case r of
           Inl err \<Rightarrow> Some (err, arr)
         | Inr i \<Rightarrow>
             (let n = nat port_numbers_len - i in
              Some (int n, if 0 < n then take n (drop i arr) @ drop n arr else arr)))
      })"

definition libusb_get_port_path :: "core_ctx \<Rightarrow> ptr \<Rightarrow> u8 list \<Rightarrow> u8 \<Rightarrow> (int \<times> u8 list) option" where
  "libusb_get_port_path c dev port_numbers port_numbers_len =
     libusb_get_port_numbers c dev port_numbers (int_of port_numbers_len)"

end
