(* ===== verification/Core_Handles.thy ===== *)
theory Core_Handles
  imports Core_Device Transfers
begin

text \<open>
  Device handles (core.c): opening and closing a device, claiming and releasing its interfaces, and the calls
  that are passed on to the backend.

  A library context joins the device part, the transfer engine and the open handles. What the backend
  answers is a record of functions; the calls of the backend that change the system are logged in
  \<open>lc_calls\<close>. The bit mask \<open>claimed_interfaces\<close> is an \<open>unsigned long\<close> of 64 bits. A handle
  \<open>p\<close> is \<open>Suc p\<close> in \<open>tr_dev_handle\<close>, where 0 is NULL.
\<close>

record device_handle =
  dh_lock :: bool
  dh_claimed_interfaces :: "64 word"
  dh_dev :: ptr
  dh_auto_detach_kernel_driver :: int

datatype backend_call =
    BE_open ptr | BE_close ptr
  | BE_claim ptr int | BE_release ptr int | BE_set_altsetting ptr int int
  | BE_set_configuration ptr int | BE_clear_halt ptr u8 | BE_reset ptr
  | BE_detach ptr int | BE_attach ptr int | BE_alloc_streams ptr u32 "u8 list" | BE_free_streams ptr "u8 list"

record lib_ctx =
  lc_core :: core_ctx
  lc_io :: io_ctx
  lc_handles :: "ptr \<Rightarrow> device_handle option"
  lc_open_devs :: "ptr list"
  lc_open_devs_lock :: bool
  lc_calls :: "backend_call list"

text \<open>The answers of the backend: to the calls it must have, and to those it may leave out.\<close>

record handle_backend = core_backend +
  hb_answer :: "backend_call \<Rightarrow> int"
  hb_has_detach :: bool
  hb_has_attach :: bool
  hb_has_streams :: bool
  hb_get_configuration :: "(ptr \<Rightarrow> int \<times> int) option"
  hb_kernel_driver_active :: "(ptr \<Rightarrow> int \<Rightarrow> int) option"
  hb_dev_mem_alloc :: "(ptr \<Rightarrow> nat \<Rightarrow> ptr option) option"
  hb_dev_mem_free :: "(ptr \<Rightarrow> ptr \<Rightarrow> nat \<Rightarrow> int) option"

definition core_of :: "handle_backend \<Rightarrow> core_backend" where
  "core_of be = \<lparr>be_caps = be_caps be, be_get_device_list = be_get_device_list be, be_mutex_init = be_mutex_init be\<rparr>"

subsection \<open>Access\<close>

definition get_h :: "ptr \<Rightarrow> lib_ctx \<Rightarrow> device_handle option" where
  "get_h p l = lc_handles l p"

definition put_h :: "ptr \<Rightarrow> device_handle \<Rightarrow> lib_ctx \<Rightarrow> lib_ctx" where
  "put_h p dh l = l\<lparr>lc_handles := (lc_handles l)(p \<mapsto> dh)\<rparr>"

definition lock_h :: "ptr \<Rightarrow> lib_ctx \<Rightarrow> lib_ctx option" where
  "lock_h p l = do { dh \<leftarrow> get_h p l; if dh_lock dh then None else Some (put_h p (dh\<lparr>dh_lock := True\<rparr>) l) }"

definition unlock_h :: "ptr \<Rightarrow> lib_ctx \<Rightarrow> lib_ctx option" where
  "unlock_h p l = do { dh \<leftarrow> get_h p l; if dh_lock dh then Some (put_h p (dh\<lparr>dh_lock := False\<rparr>) l) else None }"

definition lock_open_devs :: "lib_ctx \<Rightarrow> lib_ctx option" where
  "lock_open_devs l = (if lc_open_devs_lock l then None else Some (l\<lparr>lc_open_devs_lock := True\<rparr>))"

definition unlock_open_devs :: "lib_ctx \<Rightarrow> lib_ctx option" where
  "unlock_open_devs l = (if lc_open_devs_lock l then Some (l\<lparr>lc_open_devs_lock := False\<rparr>) else None)"

text \<open>A call of the backend: its answer, and the log.\<close>

definition backend_call :: "handle_backend \<Rightarrow> backend_call \<Rightarrow> lib_ctx \<Rightarrow> int \<times> lib_ctx" where
  "backend_call be k l = (hb_answer be k, l\<lparr>lc_calls := lc_calls l @ [k]\<rparr>)"

definition attached :: "ptr \<Rightarrow> lib_ctx \<Rightarrow> bool option" where
  "attached p l = do { dh \<leftarrow> get_h p l; dv \<leftarrow> get_dev (dh_dev dh) (lc_core l); Some (dv_attached dv) }"

subsection \<open>Interfaces\<close>

text \<open>\<open>1 << n\<close> is an \<open>int\<close>, converted to \<open>unsigned long\<close> for the mask; shifting by a negative number or by
  the width is undefined. (For \<open>n = 31\<close> the sign bit is set, as compilers do it.)\<close>

definition interface_bit :: "int \<Rightarrow> (64 word) option" where
  "interface_bit n = (if 0 \<le> n \<and> n < 32 then Some (scast (push_bit (nat n) (1 :: 32 word))) else None)"

text \<open>\<open>~(1 << n)\<close>.\<close>

definition interface_mask :: "int \<Rightarrow> (64 word) option" where
  "interface_mask n = (if 0 \<le> n \<and> n < 32 then Some (scast (NOT (push_bit (nat n) (1 :: 32 word)))) else None)"

definition libusb_claim_interface :: "handle_backend \<Rightarrow> ptr \<Rightarrow> int \<Rightarrow> lib_ctx \<Rightarrow> (int \<times> lib_ctx) option" where
  "libusb_claim_interface be dev_handle interface_number l =
     (if interface_number \<ge> USB_MAXINTERFACES then Some (LIBUSB_ERROR_INVALID_PARAM, l)
      else do {
        a \<leftarrow> attached dev_handle l;
        if \<not> a then Some (LIBUSB_ERROR_NO_DEVICE, l)
        else do {
          l1 \<leftarrow> lock_h dev_handle l;
          dh \<leftarrow> get_h dev_handle l1;
          b \<leftarrow> interface_bit interface_number;
          (r, l2) \<leftarrow>
            (if dh_claimed_interfaces dh AND b \<noteq> 0 then Some (0, l1)
             else (case backend_call be (BE_claim dev_handle interface_number) l1 of (r, l2) \<Rightarrow>
               Some (r, if r = 0 then put_h dev_handle (dh\<lparr>dh_claimed_interfaces := dh_claimed_interfaces dh OR b\<rparr>) l2
                        else l2)));
          l3 \<leftarrow> unlock_h dev_handle l2;
          Some (r, l3)
        }
      })"

definition libusb_release_interface :: "handle_backend \<Rightarrow> ptr \<Rightarrow> int \<Rightarrow> lib_ctx \<Rightarrow> (int \<times> lib_ctx) option" where
  "libusb_release_interface be dev_handle interface_number l =
     (if interface_number \<ge> USB_MAXINTERFACES then Some (LIBUSB_ERROR_INVALID_PARAM, l)
      else do {
        l1 \<leftarrow> lock_h dev_handle l;
        dh \<leftarrow> get_h dev_handle l1;
        b \<leftarrow> interface_bit interface_number;
        m \<leftarrow> interface_mask interface_number;
        (r, l2) \<leftarrow>
          (if dh_claimed_interfaces dh AND b = 0 then Some (LIBUSB_ERROR_NOT_FOUND, l1)
           else (case backend_call be (BE_release dev_handle interface_number) l1 of (r, l2) \<Rightarrow>
             Some (r, if r = 0 then put_h dev_handle (dh\<lparr>dh_claimed_interfaces := dh_claimed_interfaces dh AND m\<rparr>) l2
                      else l2)));
        l3 \<leftarrow> unlock_h dev_handle l2;
        Some (r, l3)
      })"

definition libusb_set_interface_alt_setting ::
  "handle_backend \<Rightarrow> ptr \<Rightarrow> int \<Rightarrow> int \<Rightarrow> lib_ctx \<Rightarrow> (int \<times> lib_ctx) option" where
  "libusb_set_interface_alt_setting be dev_handle interface_number alternate_setting l =
     (if interface_number \<ge> USB_MAXINTERFACES then Some (LIBUSB_ERROR_INVALID_PARAM, l)
      else do {
        l1 \<leftarrow> lock_h dev_handle l;
        a \<leftarrow> attached dev_handle l1;
        if \<not> a then do { l2 \<leftarrow> unlock_h dev_handle l1; Some (LIBUSB_ERROR_NO_DEVICE, l2) }
        else do {
          dh \<leftarrow> get_h dev_handle l1;
          b \<leftarrow> interface_bit interface_number;
          l2 \<leftarrow> unlock_h dev_handle l1;
          if dh_claimed_interfaces dh AND b = 0 then Some (LIBUSB_ERROR_NOT_FOUND, l2)
          else Some (backend_call be (BE_set_altsetting dev_handle interface_number alternate_setting) l2)
        }
      })"

subsection \<open>Calls passed on to the backend\<close>

text \<open>The control transfer of the fallback is a parameter: its result and the byte it read.\<close>

definition libusb_get_configuration ::
  "handle_backend \<Rightarrow> int \<times> u8 \<Rightarrow> ptr \<Rightarrow> lib_ctx \<Rightarrow> int \<times> int option" where
  "libusb_get_configuration be control dev_handle l =
     (let (r, config) = (case hb_get_configuration be of
            None \<Rightarrow> (LIBUSB_ERROR_NOT_SUPPORTED, None)
          | Some f \<Rightarrow> (case f dev_handle of (r, v) \<Rightarrow> (r, Some v)))
      in if r = LIBUSB_ERROR_NOT_SUPPORTED then
           (case control of (r1, tmp) \<Rightarrow>
              if r1 = 0 then (LIBUSB_ERROR_IO, config)
              else if r1 = 1 then (0, Some (uint tmp)) else (r1, config))
         else (r, config))"

definition libusb_set_configuration :: "handle_backend \<Rightarrow> ptr \<Rightarrow> int \<Rightarrow> lib_ctx \<Rightarrow> int \<times> lib_ctx" where
  "libusb_set_configuration be dev_handle configuration l =
     backend_call be (BE_set_configuration dev_handle configuration) l"

text \<open>The shape that most of the remaining calls share: nothing for a device that is gone, and
  LIBUSB_ERROR_NOT_SUPPORTED for a call the backend does not have.\<close>

definition when_attached :: "handle_backend \<Rightarrow> ptr \<Rightarrow> bool \<Rightarrow> backend_call \<Rightarrow> lib_ctx \<Rightarrow> (int \<times> lib_ctx) option" where
  "when_attached be dev_handle supported k l = do {
     a \<leftarrow> attached dev_handle l;
     if \<not> a then Some (LIBUSB_ERROR_NO_DEVICE, l)
     else if supported then Some (backend_call be k l)
     else Some (LIBUSB_ERROR_NOT_SUPPORTED, l)
   }"

definition libusb_clear_halt :: "handle_backend \<Rightarrow> ptr \<Rightarrow> u8 \<Rightarrow> lib_ctx \<Rightarrow> (int \<times> lib_ctx) option" where
  "libusb_clear_halt be dev_handle endpoint l = when_attached be dev_handle True (BE_clear_halt dev_handle endpoint) l"

definition libusb_reset_device :: "handle_backend \<Rightarrow> ptr \<Rightarrow> lib_ctx \<Rightarrow> (int \<times> lib_ctx) option" where
  "libusb_reset_device be dev_handle l = when_attached be dev_handle True (BE_reset dev_handle) l"

definition libusb_alloc_streams :: "handle_backend \<Rightarrow> ptr \<Rightarrow> u32 \<Rightarrow> u8 list \<Rightarrow> lib_ctx \<Rightarrow> (int \<times> lib_ctx) option" where
  "libusb_alloc_streams be dev_handle num_streams endpoints l =
     when_attached be dev_handle (hb_has_streams be) (BE_alloc_streams dev_handle num_streams endpoints) l"

definition libusb_free_streams :: "handle_backend \<Rightarrow> ptr \<Rightarrow> u8 list \<Rightarrow> lib_ctx \<Rightarrow> (int \<times> lib_ctx) option" where
  "libusb_free_streams be dev_handle endpoints l =
     when_attached be dev_handle (hb_has_streams be) (BE_free_streams dev_handle endpoints) l"

definition libusb_detach_kernel_driver :: "handle_backend \<Rightarrow> ptr \<Rightarrow> int \<Rightarrow> lib_ctx \<Rightarrow> (int \<times> lib_ctx) option" where
  "libusb_detach_kernel_driver be dev_handle interface_number l =
     when_attached be dev_handle (hb_has_detach be) (BE_detach dev_handle interface_number) l"

definition libusb_attach_kernel_driver :: "handle_backend \<Rightarrow> ptr \<Rightarrow> int \<Rightarrow> lib_ctx \<Rightarrow> (int \<times> lib_ctx) option" where
  "libusb_attach_kernel_driver be dev_handle interface_number l =
     when_attached be dev_handle (hb_has_attach be) (BE_attach dev_handle interface_number) l"

definition libusb_kernel_driver_active :: "handle_backend \<Rightarrow> ptr \<Rightarrow> int \<Rightarrow> lib_ctx \<Rightarrow> int option" where
  "libusb_kernel_driver_active be dev_handle interface_number l = do {
     a \<leftarrow> attached dev_handle l;
     Some (if \<not> a then LIBUSB_ERROR_NO_DEVICE
           else case hb_kernel_driver_active be of
             Some f \<Rightarrow> f dev_handle interface_number | None \<Rightarrow> LIBUSB_ERROR_NOT_SUPPORTED)
   }"

definition libusb_dev_mem_alloc :: "handle_backend \<Rightarrow> ptr \<Rightarrow> nat \<Rightarrow> lib_ctx \<Rightarrow> ptr option option" where
  "libusb_dev_mem_alloc be dev_handle len l = do {
     a \<leftarrow> attached dev_handle l;
     Some (if \<not> a then None else case hb_dev_mem_alloc be of Some f \<Rightarrow> f dev_handle len | None \<Rightarrow> None)
   }"

definition libusb_dev_mem_free :: "handle_backend \<Rightarrow> ptr \<Rightarrow> ptr \<Rightarrow> nat \<Rightarrow> int" where
  "libusb_dev_mem_free be dev_handle buffer len =
     (case hb_dev_mem_free be of Some f \<Rightarrow> f dev_handle buffer len | None \<Rightarrow> LIBUSB_ERROR_NOT_SUPPORTED)"

definition libusb_set_auto_detach_kernel_driver ::
  "handle_backend \<Rightarrow> ptr \<Rightarrow> int \<Rightarrow> lib_ctx \<Rightarrow> (int \<times> lib_ctx) option" where
  "libusb_set_auto_detach_kernel_driver be dev_handle enable l =
     (if be_caps be AND USBI_CAP_SUPPORTS_DETACH_KERNEL_DRIVER = 0 then Some (LIBUSB_ERROR_NOT_SUPPORTED, l)
      else do {
        dh \<leftarrow> get_h dev_handle l;
        Some (LIBUSB_SUCCESS, put_h dev_handle (dh\<lparr>dh_auto_detach_kernel_driver := enable\<rparr>) l)
      })"

definition libusb_get_device :: "ptr \<Rightarrow> lib_ctx \<Rightarrow> ptr option" where
  "libusb_get_device dev_handle l = map_option dh_dev (get_h dev_handle l)"

subsection \<open>Opening\<close>

definition on_core :: "(core_ctx \<Rightarrow> core_ctx option) \<Rightarrow> lib_ctx \<Rightarrow> lib_ctx option" where
  "on_core f l = do { c \<leftarrow> f (lc_core l); Some (l\<lparr>lc_core := c\<rparr>) }"

definition set_lheap :: "heap \<Rightarrow> lib_ctx \<Rightarrow> lib_ctx" where
  "set_lheap h l = l\<lparr>lc_core := set_heap h (lc_core l)\<rparr>"

abbreviation lc_heap :: "lib_ctx \<Rightarrow> heap" where "lc_heap l \<equiv> co_heap (lc_core l)"

definition new_handle :: "ptr \<Rightarrow> device_handle" where
  "new_handle dev = \<lparr>dh_lock = False, dh_claimed_interfaces = 0, dh_dev = dev, dh_auto_detach_kernel_driver = 0\<rparr>"

definition libusb_open :: "handle_backend \<Rightarrow> ptr \<Rightarrow> lib_ctx \<Rightarrow> (int \<times> ptr option \<times> lib_ctx) option" where
  "libusb_open be dev l = do {
     dv \<leftarrow> get_dev dev (lc_core l);
     if \<not> dv_attached dv then Some (LIBUSB_ERROR_NO_DEVICE, None, l)
     else (case c_malloc (lc_heap l) of
         (None, h) \<Rightarrow> Some (LIBUSB_ERROR_NO_MEM, None, set_lheap h l)
       | (Some p, h) \<Rightarrow>
           if be_mutex_init be \<noteq> 0 then do {
             h1 \<leftarrow> c_release p h; Some (LIBUSB_ERROR_OTHER, None, set_lheap h1 l)
           }
           else do {
             l1 \<leftarrow> on_core (libusb_ref_device dev) (set_lheap h l);
             let (r, l2) = backend_call be (BE_open p) (put_h p (new_handle dev) l1);
             if r < 0 then do {
               l3 \<leftarrow> on_core (libusb_unref_device (core_of be) (Some dev)) l2;
               h1 \<leftarrow> c_release p (lc_heap l3);
               Some (r, None, set_lheap h1 (l3\<lparr>lc_handles := (lc_handles l3)(p := None)\<rparr>))
             }
             else do {
               l3 \<leftarrow> lock_open_devs l2;
               l4 \<leftarrow> unlock_open_devs (l3\<lparr>lc_open_devs := p # lc_open_devs l3\<rparr>);
               Some (0, Some p, l4)
             }
           })
   }"

text \<open>The search of \<open>libusb_open_device_with_vid_pid\<close> through the list it got.\<close>

primrec vid_pid_loop :: "core_ctx \<Rightarrow> u16 \<Rightarrow> u16 \<Rightarrow> ptr list \<Rightarrow> ptr option option" where
  "vid_pid_loop c vendor_id product_id [] = Some None"
| "vid_pid_loop c vendor_id product_id (dev # devs) = do {
     dv \<leftarrow> get_dev dev c;
     let (r, desc) = libusb_get_device_descriptor (dv_device_descriptor dv);
     if r < 0 then Some None
     else if dd_idVendor desc = vendor_id \<and> dd_idProduct desc = product_id then Some (Some dev)
     else vid_pid_loop c vendor_id product_id devs
   }"

definition libusb_open_device_with_vid_pid ::
  "handle_backend \<Rightarrow> u16 \<Rightarrow> u16 \<Rightarrow> lib_ctx \<Rightarrow> (ptr option \<times> lib_ctx) option" where
  "libusb_open_device_with_vid_pid be vendor_id product_id l = do {
     (r, devs, c1) \<leftarrow> libusb_get_device_list (core_of be) (lc_core l);
     let l1 = l\<lparr>lc_core := c1\<rparr>;
     if r < 0 then Some (None, l1)
     else do {
       (_, ps) \<leftarrow> devs;
       found \<leftarrow> vid_pid_loop (lc_core l1) vendor_id product_id ps;
       (dev_handle, l2) \<leftarrow> (case found of
            None \<Rightarrow> Some (None, l1)
          | Some dev \<Rightarrow> do { (r, h, l2) \<leftarrow> libusb_open be dev l1; Some (if r < 0 then None else h, l2) });
       l3 \<leftarrow> on_core (libusb_free_device_list (core_of be) devs True) l2;
       Some (dev_handle, l3)
     }
   }"

subsection \<open>Closing\<close>

text \<open>Transfers of the handle that are still in flight are taken off the list and lose their handle.\<close>

primrec close_transfers :: "ptr \<Rightarrow> ptr list \<Rightarrow> io_ctx \<Rightarrow> io_ctx option" where
  "close_transfers dh [] c = Some c"
| "close_transfers dh (t # ts) c = do {
     x \<leftarrow> get_x t c;
     if tr_dev_handle x \<noteq> Suc dh then close_transfers dh ts c
     else do {
       c1 \<leftarrow> lock_x t c;
       c2 \<leftarrow> unlock_x t c1;
       c3 \<leftarrow> flying_del t c2;
       y \<leftarrow> get_x t c3;
       close_transfers dh ts (put_x t (y\<lparr>tr_dev_handle := 0\<rparr>) c3)
     }
   }"

definition do_close :: "handle_backend \<Rightarrow> ptr \<Rightarrow> lib_ctx \<Rightarrow> lib_ctx option" where
  "do_close be dev_handle l = do {
     c1 \<leftarrow> lock_flying (lc_io l);
     c2 \<leftarrow> close_transfers dev_handle (ic_flying c1) c1;
     c3 \<leftarrow> unlock_flying c2;
     l1 \<leftarrow> lock_open_devs (l\<lparr>lc_io := c3\<rparr>);
     l2 \<leftarrow> (if dev_handle \<in> set (lc_open_devs l1) then Some (l1\<lparr>lc_open_devs := remove1 dev_handle (lc_open_devs l1)\<rparr>)
           else None);
     l3 \<leftarrow> unlock_open_devs l2;
     let l4 = snd (backend_call be (BE_close dev_handle) l3);
     dh \<leftarrow> get_h dev_handle l4;
     l5 \<leftarrow> on_core (libusb_unref_device (core_of be) (Some (dh_dev dh))) l4;
     h \<leftarrow> c_release dev_handle (lc_heap l5);
     Some (set_lheap h (l5\<lparr>lc_handles := (lc_handles l5)(dev_handle := None)\<rparr>))
   }"

definition on_events :: "(event_data \<Rightarrow> event_data option) \<Rightarrow> lib_ctx \<Rightarrow> lib_ctx option" where
  "on_events f l = do { d \<leftarrow> f (co_ev (lc_core l)); Some (l\<lparr>lc_core := (lc_core l)\<lparr>co_ev := d\<rparr>\<rparr>) }"

definition libusb_close :: "handle_backend \<Rightarrow> ptr option \<Rightarrow> lib_ctx \<Rightarrow> lib_ctx option" where
  "libusb_close be dev_handle l =
     (case dev_handle of
        None \<Rightarrow> Some l
      | Some p \<Rightarrow>
          if ed_handling (co_ev (lc_core l)) then do_close be p l
          else do {
            l1 \<leftarrow> on_events close_begin l;
            l2 \<leftarrow> on_events libusb_lock_events l1;
            l3 \<leftarrow> do_close be p l2;
            l4 \<leftarrow> on_events close_end l3;
            on_events libusb_unlock_events l4
          })"

end
