(* ===== verification/Device_Refs.thy ===== *)
theory Device_Refs
  imports Core_Device
begin

text \<open>
  Reference counting of devices. \<open>refs_ok be Z ext c\<close>: the count stored in every device is the number of
  references to it: those held outside the store (the multiset \<open>ext\<close>: the application, open handles,
  device lists, pending messages), one of each device whose parent it is, and, with a hotplug
  backend, one of the context's list of devices. \<open>Z\<close> is the set of devices that are being destroyed:
  their count has reached zero, their parent's reference is part of \<open>ext\<close> already.
\<close>

definition parent_of :: "core_ctx \<Rightarrow> ptr \<Rightarrow> ptr option" where
  "parent_of c q = (case get_dev q c of Some dv \<Rightarrow> dv_parent_dev dv | None \<Rightarrow> None)"

definition children :: "ptr set \<Rightarrow> core_ctx \<Rightarrow> ptr \<Rightarrow> ptr set" where
  "children Z c p = {q \<in> dom (co_devs c) - Z. parent_of c q = Some p}"

definition listed :: "core_backend \<Rightarrow> core_ctx \<Rightarrow> ptr \<Rightarrow> nat" where
  "listed be c p = (if has_hotplug be \<and> p \<in> set (co_usb_devs c) then 1 else 0)"

definition ref_count :: "core_backend \<Rightarrow> ptr set \<Rightarrow> ptr multiset \<Rightarrow> core_ctx \<Rightarrow> ptr \<Rightarrow> nat" where
  "ref_count be Z ext c p = count ext p + card (children Z c p) + listed be c p"

text \<open>The shape of the store and the list, and the counts.\<close>

definition store_ok :: "core_backend \<Rightarrow> core_ctx \<Rightarrow> bool" where
  "store_ok be c \<longleftrightarrow> finite (dom (co_devs c)) \<and> dom (co_devs c) \<subseteq> hp_live (co_heap c) \<and> heap_wf (co_heap c) \<and>
     (\<forall>p dv. get_dev p c = Some dv \<longrightarrow> \<not> dv_lock dv) \<and> distinct (co_usb_devs c) \<and>
     (if has_hotplug be then set (co_usb_devs c) \<subseteq> dom (co_devs c)
      else \<not> co_usb_devs_lock c \<and> set (co_usb_devs c) = dom (co_devs c))"

definition refs_ok :: "core_backend \<Rightarrow> ptr set \<Rightarrow> ptr multiset \<Rightarrow> core_ctx \<Rightarrow> bool" where
  "refs_ok be Z ext c \<longleftrightarrow> store_ok be c \<and> Z \<subseteq> dom (co_devs c) \<and>
     (\<forall>p dv. get_dev p c = Some dv \<longrightarrow> dv_refcnt dv = int (ref_count be Z ext c p) \<and> (p \<in> Z \<longleftrightarrow> ref_count be Z ext c p = 0)) \<and>
     set_mset ext \<subseteq> dom (co_devs c) \<and>
     (\<forall>q p. q \<in> dom (co_devs c) - Z \<longrightarrow> parent_of c q = Some p \<longrightarrow> p \<in> dom (co_devs c))"

lemma get_dev_dom: "p \<in> dom (co_devs c) \<longleftrightarrow> (\<exists>dv. get_dev p c = Some dv)"
  by (auto simp: get_dev_def)

lemma refs_okD:
  assumes "refs_ok be Z ext c" and "get_dev p c = Some dv"
  shows "\<not> dv_lock dv" and "dv_refcnt dv = int (ref_count be Z ext c p)" and "p \<in> Z \<longleftrightarrow> ref_count be Z ext c p = 0"
    and "p \<in> hp_live (co_heap c)"
proof -
  have "p \<in> dom (co_devs c)" using assms(2) by (auto simp: get_dev_def)
  then show "\<not> dv_lock dv" and "dv_refcnt dv = int (ref_count be Z ext c p)" and "p \<in> Z \<longleftrightarrow> ref_count be Z ext c p = 0"
    and "p \<in> hp_live (co_heap c)"
    using assms unfolding refs_ok_def store_ok_def by blast+
qed

lemma refs_ok_store: "refs_ok be Z ext c \<Longrightarrow> store_ok be c"
  by (simp add: refs_ok_def)

text \<open>A reference held outside points to a device that is not being destroyed.\<close>

lemma ext_live:
  assumes "refs_ok be Z ext c" and "p \<in># ext"
  obtains dv where "get_dev p c = Some dv" and "p \<notin> Z" and "0 < dv_refcnt dv"
proof -
  from assms have "p \<in> dom (co_devs c)" unfolding refs_ok_def by blast
  then obtain dv where dv: "get_dev p c = Some dv" by (auto simp: get_dev_def)
  have "0 < ref_count be Z ext c p" using assms(2) by (simp add: ref_count_def)
  with refs_okD [OF assms(1) dv] dv that show ?thesis by simp
qed

subsection \<open>Changing one device\<close>

lemma get_put_dev [simp]: "get_dev q (put_dev p dv c) = (if q = p then Some dv else get_dev q c)"
  by (simp add: get_dev_def put_dev_def)

lemma put_dev_fields [simp]:
  "co_usb_devs (put_dev p dv c) = co_usb_devs c" "co_usb_devs_lock (put_dev p dv c) = co_usb_devs_lock c"
  "co_ev (put_dev p dv c) = co_ev c" "dom (co_devs (put_dev p dv c)) = insert p (dom (co_devs c))"
  by (auto simp: put_dev_def)

lemma set_heap_fields [simp]:
  "co_usb_devs (set_heap h c) = co_usb_devs c" "co_usb_devs_lock (set_heap h c) = co_usb_devs_lock c"
  "co_devs (set_heap h c) = co_devs c" "co_heap (set_heap h c) = h" "get_dev q (set_heap h c) = get_dev q c"
  "co_ev (set_heap h c) = (co_ev c)\<lparr>ed_heap := h\<rparr>"
  by (simp_all add: set_heap_def get_dev_def)

lemma with_dev_eq: "get_dev p c = Some dv \<Longrightarrow> \<not> dv_lock dv \<Longrightarrow> with_dev p f c = Some (put_dev p (f dv) c)"
  by (simp add: with_dev_def)

lemma parent_of_put: "get_dev p c = Some dv \<Longrightarrow> dv_parent_dev dv' = dv_parent_dev dv \<Longrightarrow> parent_of (put_dev p dv' c) = parent_of c"
  by (auto simp: parent_of_def fun_eq_iff)

lemma ref_count_put:
  assumes "get_dev p c = Some dv" and "dv_parent_dev dv' = dv_parent_dev dv"
  shows "ref_count be Z ext (put_dev p dv' c) q = ref_count be Z ext c q"
proof -
  have "p \<in> dom (co_devs c)" using assms(1) by (auto simp: get_dev_def)
  then have "insert p (dom (co_devs c)) = dom (co_devs c)" by blast
  then have "children Z (put_dev p dv' c) q = children Z c q"
    by (simp add: children_def parent_of_put [OF assms])
  then show ?thesis by (simp add: ref_count_def listed_def)
qed

lemma store_ok_put:
  assumes "store_ok be c" and "get_dev p c = Some dv" and "\<not> dv_lock dv'"
  shows "store_ok be (put_dev p dv' c)"
proof -
  have "p \<in> dom (co_devs c)" using assms(2) by (auto simp: get_dev_def)
  then have "insert p (dom (co_devs c)) = dom (co_devs c)" by blast
  with assms show ?thesis by (simp add: store_ok_def)
qed

text \<open>A device whose count is changed together with the references outside.\<close>

lemma refs_ok_put:
  assumes ok: "refs_ok be Z ext c" and dv: "get_dev p c = Some dv" and "p \<notin> Z"
    and dv': "\<not> dv_lock dv'" "dv_parent_dev dv' = dv_parent_dev dv" "dv_refcnt dv' = int (ref_count be Z ext' c p)"
    and pos: "0 < ref_count be Z ext' c p"
    and others: "\<And>q. q \<noteq> p \<Longrightarrow> count ext' q = count ext q"
  shows "refs_ok be Z ext' (put_dev p dv' c)"
proof -
  have p: "p \<in> dom (co_devs c)" using dv by (auto simp: get_dev_def)
  have dom: "dom (co_devs (put_dev p dv' c)) = dom (co_devs c)" using p by auto
  have same: "ref_count be Z ext' c q = ref_count be Z ext c q" if "q \<noteq> p" for q
    using others [OF that] by (simp add: ref_count_def)
  have "set_mset ext' \<subseteq> dom (co_devs c)"
  proof
    fix q assume "q \<in># ext'"
    show "q \<in> dom (co_devs c)"
    proof (cases "q = p")
      case False
      with others \<open>q \<in># ext'\<close> have "q \<in># ext" by (metis count_greater_zero_iff)
      with ok show ?thesis unfolding refs_ok_def by blast
    qed (use p in simp)
  qed
  moreover have rc: "ref_count be Z ext' (put_dev p dv' c) q = ref_count be Z ext' c q" for q
    by (rule ref_count_put [OF dv dv'(2)])
  have "dv_refcnt d = int (ref_count be Z ext' (put_dev p dv' c) q) \<and>
      (q \<in> Z \<longleftrightarrow> ref_count be Z ext' (put_dev p dv' c) q = 0)" if "get_dev q (put_dev p dv' c) = Some d" for q d
    using that refs_okD(2,3) [OF ok, of q d] same [of q] dv'(3) pos \<open>p \<notin> Z\<close>
    unfolding rc by (cases "q = p") auto
  ultimately show ?thesis
    using ok store_ok_put [OF refs_ok_store [OF ok] dv dv'(1)] unfolding refs_ok_def dom parent_of_put [OF dv dv'(2)]
    by blast
qed

lemma ref_count_add [simp]: "ref_count be Z (add_mset p ext) c q = ref_count be Z ext c q + (if q = p then 1 else 0)"
  by (simp add: ref_count_def)

lemma libusb_ref_device_ok:
  assumes ok: "refs_ok be Z ext c" and p: "p \<in> dom (co_devs c)" "p \<notin> Z"
  obtains c' where "libusb_ref_device p c = Some c'" and "refs_ok be Z (add_mset p ext) c'"
    and "dom (co_devs c') = dom (co_devs c)" and "co_usb_devs c' = co_usb_devs c" and "co_ev c' = co_ev c"
proof -
  from p obtain dv where dv: "get_dev p c = Some dv" by (auto simp: get_dev_def)
  note d = refs_okD [OF ok dv]
  let ?dv = "dv\<lparr>dv_refcnt := dv_refcnt dv + 1\<rparr>"
  have "libusb_ref_device p c = Some (put_dev p ?dv c)"
    unfolding libusb_ref_device_def by (rule with_dev_eq [OF dv d(1)])
  moreover have "refs_ok be Z (add_mset p ext) (put_dev p ?dv c)"
    by (rule refs_ok_put [OF ok dv p(2)]) (use d in simp_all)
  moreover have "dom (co_devs (put_dev p ?dv c)) = dom (co_devs c)" using p(1) by auto
  ultimately show ?thesis using that by simp
qed


subsection \<open>Dropping a reference\<close>

definition opt_mset :: "'a option \<Rightarrow> 'a multiset" where
  "opt_mset x = (case x of None \<Rightarrow> {#} | Some a \<Rightarrow> {#a#})"

lemma opt_mset_simps [simp]: "opt_mset None = {#}" "opt_mset (Some a) = {#a#}"
  by (simp_all add: opt_mset_def)

text \<open>What a dropped reference leaves alone: devices being destroyed, the event data but for the heap, and
  every block but those of the devices that were freed.\<close>

definition unref_frame :: "core_backend \<Rightarrow> ptr set \<Rightarrow> core_ctx \<Rightarrow> core_ctx \<Rightarrow> bool" where
  "unref_frame be Z c c' \<longleftrightarrow> dom (co_devs c') \<subseteq> dom (co_devs c) \<and> (\<forall>q \<in> Z. get_dev q c' = get_dev q c) \<and>
     (\<forall>q \<in> dom (co_devs c'). parent_of c' q = parent_of c q) \<and>
     (\<exists>h. co_ev c' = (co_ev c)\<lparr>ed_heap := h\<rparr>) \<and>
     hp_live (co_heap c') = hp_live (co_heap c) - (dom (co_devs c) - dom (co_devs c')) \<and>
     co_usb_devs_lock c' = co_usb_devs_lock c \<and> (has_hotplug be \<longrightarrow> co_usb_devs c' = co_usb_devs c)"

lemma unref_frame_refl [simp]: "unref_frame be Z c c"
  by (auto simp: unref_frame_def intro: exI [of _ "co_heap c"])

lemma unref_frame_trans:
  assumes "unref_frame be Z c c1" and "unref_frame be Z c1 c2"
  shows "unref_frame be Z c c2"
proof -
  note f = assms [unfolded unref_frame_def]
  from f obtain h1 h2 where "co_ev c1 = (co_ev c)\<lparr>ed_heap := h1\<rparr>" "co_ev c2 = (co_ev c1)\<lparr>ed_heap := h2\<rparr>" by blast
  then have "co_ev c2 = (co_ev c)\<lparr>ed_heap := h2\<rparr>" by simp
  then have ev: "\<exists>h. co_ev c2 = (co_ev c)\<lparr>ed_heap := h\<rparr>" by blast
  from f have live: "hp_live (co_heap c2) = hp_live (co_heap c) - (dom (co_devs c) - dom (co_devs c2))" by blast
  from f have "dom (co_devs c2) \<subseteq> dom (co_devs c)" by blast
  moreover from f have "\<forall>q \<in> Z. get_dev q c2 = get_dev q c" by metis
  moreover from f have "\<forall>q \<in> dom (co_devs c2). parent_of c2 q = parent_of c q" by (metis subsetD)
  moreover from f have "co_usb_devs_lock c2 = co_usb_devs_lock c" by metis
  moreover from f have "has_hotplug be \<longrightarrow> co_usb_devs c2 = co_usb_devs c" by metis
  ultimately show ?thesis using ev live unfolding unref_frame_def by blast
qed

lemma unref_frame_weaken: "unref_frame be Z c c1 \<Longrightarrow> Y \<subseteq> Z \<Longrightarrow> unref_frame be Y c c1"
  unfolding unref_frame_def by blast

lemma unref_frame_put:
  assumes "get_dev p c = Some dv" and "p \<notin> Z" and "dv_parent_dev dv' = dv_parent_dev dv"
  shows "unref_frame be Z c (put_dev p dv' c)"
proof -
  have "p \<in> dom (co_devs c)" using assms(1) by (auto simp: get_dev_def)
  then show ?thesis
    using assms(2) unfolding unref_frame_def parent_of_put [OF assms(1,3)]
    by (auto intro: exI [of _ "co_heap c"])
qed

lemma finite_children [simp]: "finite (dom (co_devs c)) \<Longrightarrow> finite (children Z c p)"
  by (simp add: children_def)

lemma ref_count_zero:
  assumes "finite (dom (co_devs c))"
  shows "ref_count be Z ext c p = 0 \<longleftrightarrow> p \<notin># ext \<and> children Z c p = {} \<and> \<not> (has_hotplug be \<and> p \<in> set (co_usb_devs c))"
  using assms by (auto simp: ref_count_def listed_def not_in_iff)

text \<open>The last reference to \<open>p\<close> is gone: from now on \<open>p\<close> is being destroyed and its parent's reference is
  to be dropped.\<close>

lemma refs_ok_last:
  assumes ok: "refs_ok be Z (add_mset p ext) c" and dv: "get_dev p c = Some dv" and p: "p \<notin> Z"
    and zero: "dv_refcnt dv = 1"
  shows "refs_ok be (insert p Z) (ext + opt_mset (dv_parent_dev dv)) (put_dev p (dv\<lparr>dv_refcnt := 0\<rparr>) c)"
    (is "refs_ok be ?Z ?ext ?c")
proof -
  have fin: "finite (dom (co_devs c))" using ok by (simp add: refs_ok_def store_ok_def)
  have pd: "p \<in> dom (co_devs c)" using dv by (auto simp: get_dev_def)
  have domc: "dom (co_devs ?c) = dom (co_devs c)" using pd by auto
  note d = refs_okD [OF ok dv]
  have "ref_count be Z ext c p = 0" using d(2) zero by simp
  then have none: "p \<notin># ext" "children Z c p = {}" "\<not> (has_hotplug be \<and> p \<in> set (co_usb_devs c))"
    using ref_count_zero [OF fin] by blast+
  have par: "parent_of c p = dv_parent_dev dv" using dv by (simp add: parent_of_def)
  have self: "dv_parent_dev dv \<noteq> Some p"
    using none(2) pd p par by (auto simp: children_def)
  have pof: "parent_of ?c = parent_of c" by (rule parent_of_put [OF dv]) simp
  have count: "ref_count be ?Z ?ext ?c q = (if q = p then 0 else ref_count be Z (add_mset p ext) c q)" for q
  proof (cases "q = p")
    case True
    have "children ?Z ?c p = {}" using none(2) pd by (auto simp: children_def pof domc)
    with True none self show ?thesis
      by (cases "dv_parent_dev dv") (auto simp: ref_count_def listed_def not_in_iff)
  next
    case False
    have ch: "children Z c q = (if dv_parent_dev dv = Some q then insert p (children ?Z ?c q) else children ?Z ?c q)"
      using pd p par by (auto simp: children_def pof domc)
    have "p \<notin> children ?Z ?c q" by (simp add: children_def)
    then have "card (children Z c q) = card (children ?Z ?c q) + count (opt_mset (dv_parent_dev dv)) q"
      using fin ch by (cases "dv_parent_dev dv") (auto simp: children_def domc)
    with False show ?thesis by (simp add: ref_count_def listed_def)
  qed
  have "dv_refcnt e = int (ref_count be ?Z ?ext ?c q) \<and> (q \<in> ?Z \<longleftrightarrow> ref_count be ?Z ?ext ?c q = 0)"
    if "get_dev q ?c = Some e" for q e
    using that refs_okD(2,3) [OF ok, of q e] unfolding count by (cases "q = p") auto
  moreover have "store_ok be ?c" by (rule store_ok_put [OF refs_ok_store [OF ok] dv]) (use d(1) in simp)
  moreover have "set_mset ?ext \<subseteq> dom (co_devs c)"
  proof -
    have "set_mset ext \<subseteq> dom (co_devs c)" using ok unfolding refs_ok_def by auto
    moreover have "set_mset (opt_mset (dv_parent_dev dv)) \<subseteq> dom (co_devs c)"
    proof (cases "dv_parent_dev dv")
      case (Some q)
      have "p \<in> dom (co_devs c) - Z" using pd p by blast
      with ok par Some have "q \<in> dom (co_devs c)" unfolding refs_ok_def by metis
      with Some show ?thesis by simp
    qed simp
    ultimately show ?thesis by simp
  qed
  moreover have "q \<in> dom (co_devs c) - ?Z \<Longrightarrow> parent_of c q = Some r \<Longrightarrow> r \<in> dom (co_devs c)" for q r
    using ok unfolding refs_ok_def by blast
  ultimately show ?thesis
    using ok pd unfolding refs_ok_def domc pof by blast
qed

text \<open>A device that is being destroyed leaves the store.\<close>

definition drop_dev :: "ptr \<Rightarrow> heap \<Rightarrow> ptr list \<Rightarrow> core_ctx \<Rightarrow> core_ctx" where
  "drop_dev p h ds c = set_heap h (c\<lparr>co_devs := (co_devs c)(p := None), co_usb_devs := ds\<rparr>)"

lemma drop_dev_fields [simp]:
  "co_usb_devs (drop_dev p h ds c) = ds" "co_usb_devs_lock (drop_dev p h ds c) = co_usb_devs_lock c"
  "co_heap (drop_dev p h ds c) = h" "dom (co_devs (drop_dev p h ds c)) = dom (co_devs c) - {p}"
  "get_dev q (drop_dev p h ds c) = (if q = p then None else get_dev q c)"
  "co_ev (drop_dev p h ds c) = (co_ev c)\<lparr>ed_heap := h\<rparr>"
  by (auto simp: drop_dev_def get_dev_def)

lemma refs_ok_drop:
  assumes ok: "refs_ok be (insert p Z) ext c" and p: "p \<notin> Z"
    and h: "heap_wf h" "hp_live h = hp_live (co_heap c) - {p}"
    and ds: "ds = (if has_hotplug be then co_usb_devs c else remove1 p (co_usb_devs c))"
  shows "refs_ok be Z ext (drop_dev p h ds c)" (is "refs_ok be Z ext ?c")
proof -
  have st: "store_ok be c" using ok by (rule refs_ok_store)
  then have fin: "finite (dom (co_devs c))" by (simp add: store_ok_def)
  have "p \<in> dom (co_devs c)" using ok by (simp add: refs_ok_def)
  then obtain dv where dv: "get_dev p c = Some dv" by (auto simp: get_dev_def)
  from refs_okD(3) [OF ok dv] ref_count_zero [OF fin, of be "insert p Z" ext p]
  have none: "p \<notin># ext" "children (insert p Z) c p = {}" "\<not> (has_hotplug be \<and> p \<in> set (co_usb_devs c))" by simp_all
  have ch: "children Z ?c q = children (insert p Z) c q" for q
    by (auto simp: children_def parent_of_def)
  have li: "listed be ?c q = listed be c q" for q using ds by (simp add: listed_def)
  have count: "ref_count be Z ext ?c q = ref_count be (insert p Z) ext c q" for q
    by (simp add: ref_count_def ch li)
  have "store_ok be ?c"
    using st h ds none(3) unfolding store_ok_def
    by (cases "has_hotplug be") (auto simp: set_remove1_eq)
  moreover have "dv_refcnt e = int (ref_count be Z ext ?c q) \<and> (q \<in> Z \<longleftrightarrow> ref_count be Z ext ?c q = 0)"
    if "get_dev q ?c = Some e" for q e
    using that refs_okD(2,3) [OF ok, of q e] unfolding count by (auto split: if_splits)
  moreover have "set_mset ext \<subseteq> dom (co_devs ?c)"
    using ok none(1) unfolding refs_ok_def by auto
  moreover have "r \<in> dom (co_devs ?c)" if "q \<in> dom (co_devs ?c) - Z" "parent_of ?c q = Some r" for q r
  proof -
    from that have q: "q \<in> dom (co_devs c) - insert p Z" "parent_of c q = Some r" by (auto simp: parent_of_def split: if_splits)
    with ok have "r \<in> dom (co_devs c)" unfolding refs_ok_def by blast
    moreover have "r \<noteq> p" using q none(2) by (auto simp: children_def)
    ultimately show ?thesis by simp
  qed
  moreover have "Z \<subseteq> dom (co_devs ?c)" using ok p unfolding refs_ok_def by auto
  ultimately show ?thesis unfolding refs_ok_def by blast
qed


lemma disconnect_last:
  assumes ok: "refs_ok be (insert p Z) ext c" and be: "\<not> has_hotplug be" and dv: "get_dev p c = Some dv"
  shows "usbi_disconnect_device be p c =
    Some (put_dev p (dv\<lparr>dv_attached := False\<rparr>) (c\<lparr>co_usb_devs := remove1 p (co_usb_devs c)\<rparr>))"
proof -
  from refs_ok_store [OF ok] be have st: "\<not> co_usb_devs_lock c" "set (co_usb_devs c) = dom (co_devs c)"
    by (simp_all add: store_ok_def)
  have "p \<in> set (co_usb_devs c)" using dv st by (auto simp: get_dev_def)
  with st(1) be refs_okD(1) [OF ok dv] dv show ?thesis
    by (cases c) (simp add: usbi_disconnect_device_def with_dev_def lock_usb_devs_def usb_devs_del_def
        unlock_usb_devs_def put_dev_def get_dev_def)
qed

lemma drop_dev_put: "drop_dev p h ds (put_dev p dv (c\<lparr>co_usb_devs := ds'\<rparr>)) = drop_dev p h ds c"
  by (simp add: drop_dev_def put_dev_def set_heap_def)

text \<open>The end of the destruction, after the parent has lost its reference.\<close>

lemma destroy_end:
  assumes ok: "refs_ok be (insert p Z) ext c" and p: "p \<notin> Z"
  obtains c' where "Option.bind (if \<not> has_hotplug be then usbi_disconnect_device be p c else Some c) (\<lambda>c3.
      Option.bind (c_release p (co_heap c3)) (\<lambda>h. Some (set_heap h (c3\<lparr>co_devs := (co_devs c3)(p := None)\<rparr>)))) = Some c'"
    and "refs_ok be Z ext c'" and "unref_frame be Z c c'" and "dom (co_devs c') = dom (co_devs c) - {p}"
proof -
  have "p \<in> dom (co_devs c)" using ok by (simp add: refs_ok_def)
  then obtain dv where dv: "get_dev p c = Some dv" by (auto simp: get_dev_def)
  from refs_ok_store [OF ok] have wf: "heap_wf (co_heap c)" by (simp add: store_ok_def)
  obtain h where h: "c_release p (co_heap c) = Some h" "hp_live h = hp_live (co_heap c) - {p}" "heap_wf h"
    using ledger.release_live [OF wf refs_okD(4) [OF ok dv]] by blast
  let ?ds = "if has_hotplug be then co_usb_devs c else remove1 p (co_usb_devs c)"
  let ?c = "drop_dev p h ?ds c"
  have "Option.bind (if \<not> has_hotplug be then usbi_disconnect_device be p c else Some c) (\<lambda>c3.
      Option.bind (c_release p (co_heap c3)) (\<lambda>h. Some (set_heap h (c3\<lparr>co_devs := (co_devs c3)(p := None)\<rparr>)))) = Some ?c"
    using disconnect_last [OF ok _ dv] h(1)
    by (cases "has_hotplug be") (simp_all add: drop_dev_def put_dev_def set_heap_def)
  moreover have "refs_ok be Z ext ?c" by (rule refs_ok_drop [OF ok p h(3,2)]) simp
  moreover have "unref_frame be Z c ?c"
    using p h(2) \<open>p \<in> dom (co_devs c)\<close> unfolding unref_frame_def by (auto simp: parent_of_def)
  ultimately show ?thesis using that by simp
qed

lemma unref_Some:
  "libusb_unref_device be (Some p) c =
     Option.bind (with_dev p (\<lambda>dv. dv\<lparr>dv_refcnt := dv_refcnt dv - 1\<rparr>) c) (\<lambda>c1.
     Option.bind (get_dev p c1) (\<lambda>dv.
     if dv_refcnt dv = 0 then
       Option.bind (libusb_unref_device be (dv_parent_dev dv) c1) (\<lambda>c2.
       Option.bind (if \<not> has_hotplug be then usbi_disconnect_device be p c2 else Some c2) (\<lambda>c3.
       Option.bind (c_release p (co_heap c3)) (\<lambda>h.
       Some (set_heap h (c3\<lparr>co_devs := (co_devs c3)(p := None)\<rparr>)))))
     else Some c1))"
  by (subst libusb_unref_device.simps) simp

text \<open>Dropping a reference ends, without a fault, and keeps the counts exact.\<close>

lemma unref_ok:
  "refs_ok be Z (opt_mset dev + ext) c \<Longrightarrow>
    \<exists>c'. libusb_unref_device be dev c = Some c' \<and> refs_ok be Z ext c' \<and> unref_frame be Z c c'"
proof (induction "card (dom (co_devs c) - Z)" arbitrary: dev ext Z c rule: less_induct)
  case less
  show ?case
  proof (cases dev)
    case None
    with less.prems show ?thesis by (subst libusb_unref_device.simps) simp
  next
    case (Some p)
    with less.prems have ok: "refs_ok be Z (add_mset p ext) c" by simp
    obtain dv where dv: "get_dev p c = Some dv" "p \<notin> Z" using ext_live [OF ok, of p] by auto
    note d = refs_okD [OF ok dv(1)]
    have fin: "finite (dom (co_devs c))" using refs_ok_store [OF ok] by (simp add: store_ok_def)
    have pd: "p \<in> dom (co_devs c)" using dv(1) by (auto simp: get_dev_def)
    let ?dv = "dv\<lparr>dv_refcnt := dv_refcnt dv - 1\<rparr>"
    have dec: "with_dev p (\<lambda>dv. dv\<lparr>dv_refcnt := dv_refcnt dv - 1\<rparr>) c = Some (put_dev p ?dv c)"
      by (rule with_dev_eq [OF dv(1) d(1)])
    show ?thesis
    proof (cases "dv_refcnt dv = 1")
      case False
      have "refs_ok be Z ext (put_dev p ?dv c)"
        by (rule refs_ok_put [OF ok dv]) (use d False in simp_all)
      moreover have "libusb_unref_device be dev c = Some (put_dev p ?dv c)"
        using Some dec False by (subst libusb_unref_device.simps) simp
      ultimately show ?thesis using unref_frame_put [OF dv] by fastforce
    next
      case True
      let ?c1 = "put_dev p (dv\<lparr>dv_refcnt := 0\<rparr>) c"
      have dv1: "?dv = dv\<lparr>dv_refcnt := 0\<rparr>" using True by simp
      have ok1: "refs_ok be (insert p Z) (opt_mset (dv_parent_dev dv) + ext) ?c1"
        using refs_ok_last [OF ok dv True] by (simp add: add.commute)
      have "dom (co_devs ?c1) - insert p Z = (dom (co_devs c) - Z) - {p}" using pd by auto
      then have "card (dom (co_devs ?c1) - insert p Z) < card (dom (co_devs c) - Z)"
        using card_Diff1_less [of "dom (co_devs c) - Z" p] fin pd dv(2) by simp
      from less.hyps [OF this ok1] obtain c2 where
        c2: "libusb_unref_device be (dv_parent_dev dv) ?c1 = Some c2" "refs_ok be (insert p Z) ext c2"
          "unref_frame be (insert p Z) ?c1 c2" by blast
      obtain c' where
        c': "Option.bind (if \<not> has_hotplug be then usbi_disconnect_device be p c2 else Some c2) (\<lambda>c3.
            Option.bind (c_release p (co_heap c3)) (\<lambda>h. Some (set_heap h (c3\<lparr>co_devs := (co_devs c3)(p := None)\<rparr>)))) = Some c'"
          "refs_ok be Z ext c'" "unref_frame be Z c2 c'"
        by (rule destroy_end [OF c2(2) dv(2)]) (rule that, assumption+)
      have "libusb_unref_device be dev c = Some c'"
        unfolding Some unref_Some dec [unfolded dv1] by (simp add: c2(1) c'(1) del: if_not_P)
      moreover have "unref_frame be Z c c'"
        using unref_frame_trans [OF unref_frame_put [OF dv]
            unref_frame_trans [OF unref_frame_weaken [OF c2(3) subset_insertI] c'(3)]] by simp
      ultimately show ?thesis using c'(2) by blast
    qed
  qed
qed


subsection \<open>Steps that change only counts and the heap\<close>

definition uncounted :: "libusb_device \<Rightarrow> libusb_device" where
  "uncounted dv = dv\<lparr>dv_refcnt := 0\<rparr>"

definition same_devs :: "core_ctx \<Rightarrow> core_ctx \<Rightarrow> bool" where
  "same_devs c c' \<longleftrightarrow> (\<exists>h. co_ev c' = (co_ev c)\<lparr>ed_heap := h\<rparr>) \<and> co_usb_devs c' = co_usb_devs c \<and>
     co_usb_devs_lock c' = co_usb_devs_lock c \<and>
     (\<forall>q. map_option uncounted (get_dev q c') = map_option uncounted (get_dev q c))"

lemma same_devs_refl [simp]: "same_devs c c"
  by (auto simp: same_devs_def intro: exI [of _ "co_heap c"])

lemma same_devs_trans:
  assumes "same_devs c c1" and "same_devs c1 c2"
  shows "same_devs c c2"
proof -
  note f = assms [unfolded same_devs_def]
  from f obtain h1 h2 where "co_ev c1 = (co_ev c)\<lparr>ed_heap := h1\<rparr>" "co_ev c2 = (co_ev c1)\<lparr>ed_heap := h2\<rparr>" by blast
  then have "co_ev c2 = (co_ev c)\<lparr>ed_heap := h2\<rparr>" by simp
  then have "\<exists>h. co_ev c2 = (co_ev c)\<lparr>ed_heap := h\<rparr>" by blast
  with f show ?thesis by (simp add: same_devs_def)
qed

lemma same_devs_set_heap [simp]: "same_devs c (set_heap h c)"
  by (auto simp: same_devs_def)

lemma same_devs_put: "get_dev p c = Some dv \<Longrightarrow> same_devs c (put_dev p (dv\<lparr>dv_refcnt := n\<rparr>) c)"
  by (auto simp: same_devs_def uncounted_def intro: exI [of _ "co_heap c"])

lemma same_devs_dom:
  assumes "same_devs c c'"
  shows "dom (co_devs c') = dom (co_devs c)"
proof -
  have "get_dev q c' = None \<longleftrightarrow> get_dev q c = None" for q
    using assms unfolding same_devs_def by (metis map_option_is_None)
  then show ?thesis by (auto simp: get_dev_def dom_def)
qed

lemma same_devs_ref_count:
  assumes "same_devs c c'"
  shows "ref_count be Z ext c' p = ref_count be Z ext c p"
proof -
  have par: "parent_of d q = (case map_option uncounted (get_dev q d) of Some dv \<Rightarrow> dv_parent_dev dv | None \<Rightarrow> None)" for d q
    by (simp add: parent_of_def uncounted_def split: option.split)
  have "parent_of c' q = parent_of c q" for q
    using assms unfolding par same_devs_def by simp
  then have "children Z c' p = children Z c p"
    by (simp add: children_def same_devs_dom [OF assms])
  with assms show ?thesis by (simp add: ref_count_def listed_def same_devs_def)
qed

lemma refs_ok_set_heap:
  assumes "refs_ok be Z ext c" and "heap_wf h" and "dom (co_devs c) \<subseteq> hp_live h"
  shows "refs_ok be Z ext (set_heap h c)"
proof -
  have "store_ok be (set_heap h c)" using refs_ok_store [OF assms(1)] assms(2,3) by (simp add: store_ok_def)
  moreover have "ref_count be Z ext (set_heap h c) p = ref_count be Z ext c p" for p
    by (rule same_devs_ref_count) simp
  moreover have "parent_of (set_heap h c) = parent_of c" by (simp add: parent_of_def fun_eq_iff)
  ultimately show ?thesis using assms(1) by (simp add: refs_ok_def)
qed

lemma ref_keeps:
  assumes ok: "refs_ok be Z ext c" and p: "p \<in> dom (co_devs c)" "p \<notin> Z"
  obtains c' where "libusb_ref_device p c = Some c'" and "refs_ok be Z (add_mset p ext) c'" and "same_devs c c'"
    and "co_heap c' = co_heap c"
proof -
  from p obtain dv where dv: "get_dev p c = Some dv" by (auto simp: get_dev_def)
  note d = refs_okD [OF ok dv]
  let ?dv = "dv\<lparr>dv_refcnt := dv_refcnt dv + 1\<rparr>"
  have "libusb_ref_device p c = Some (put_dev p ?dv c)"
    unfolding libusb_ref_device_def by (rule with_dev_eq [OF dv d(1)])
  moreover have "refs_ok be Z (add_mset p ext) (put_dev p ?dv c)"
    by (rule refs_ok_put [OF ok dv p(2)]) (use d in simp_all)
  ultimately show ?thesis using that same_devs_put [OF dv] by simp
qed

lemma unref_keeps:
  assumes ok: "refs_ok be Z (add_mset p ext) c" and pos: "0 < ref_count be Z ext c p"
  obtains c' where "libusb_unref_device be (Some p) c = Some c'" and "refs_ok be Z ext c'" and "same_devs c c'"
    and "co_heap c' = co_heap c"
proof -
  obtain dv where dv: "get_dev p c = Some dv" "p \<notin> Z" using ext_live [OF ok, of p] by auto
  note d = refs_okD [OF ok dv(1)]
  let ?dv = "dv\<lparr>dv_refcnt := dv_refcnt dv - 1\<rparr>"
  have dec: "with_dev p (\<lambda>dv. dv\<lparr>dv_refcnt := dv_refcnt dv - 1\<rparr>) c = Some (put_dev p ?dv c)"
    by (rule with_dev_eq [OF dv(1) d(1)])
  have "libusb_unref_device be (Some p) c = Some (put_dev p ?dv c)"
    unfolding unref_Some dec using d(2) pos by simp
  moreover have "refs_ok be Z ext (put_dev p ?dv c)"
    by (rule refs_ok_put [OF ok dv]) (use d pos in simp_all)
  ultimately show ?thesis using that same_devs_put [OF dv(1)] by simp
qed

lemma ref_all_ok:
  "refs_ok be Z ext c \<Longrightarrow> set ps \<subseteq> dom (co_devs c) - Z \<Longrightarrow>
    \<exists>c'. ref_all ps c = Some c' \<and> refs_ok be Z (mset ps + ext) c' \<and> same_devs c c' \<and> co_heap c' = co_heap c"
proof (induction ps arbitrary: c ext)
  case Nil
  then show ?case by simp
next
  case (Cons p ps)
  from Cons.prems(2) have p: "p \<in> dom (co_devs c)" "p \<notin> Z" by auto
  obtain c1 where c1: "libusb_ref_device p c = Some c1" "refs_ok be Z (add_mset p ext) c1" "same_devs c c1" "co_heap c1 = co_heap c"
    by (rule ref_keeps [OF Cons.prems(1) p])
  from Cons.IH [OF c1(2)] Cons.prems(2) same_devs_dom [OF c1(3)] obtain c' where
    "ref_all ps c1 = Some c'" "refs_ok be Z (mset ps + add_mset p ext) c'" "same_devs c1 c'" "co_heap c' = co_heap c1" by auto
  with c1 same_devs_trans [OF c1(3)] show ?case by auto
qed

lemma unref_all_keeps:
  "refs_ok be Z (mset ps + ext) c \<Longrightarrow> \<forall>p \<in> set ps. 0 < ref_count be Z ext c p \<Longrightarrow>
    \<exists>c'. unref_all be ps c = Some c' \<and> refs_ok be Z ext c' \<and> same_devs c c' \<and> co_heap c' = co_heap c"
proof (induction ps arbitrary: c)
  case Nil
  then show ?case by simp
next
  case (Cons p ps)
  have "0 < ref_count be Z (mset ps + ext) c p" using Cons.prems(2) by (simp add: ref_count_def)
  with Cons.prems(1) obtain c1 where c1: "libusb_unref_device be (Some p) c = Some c1"
    "refs_ok be Z (mset ps + ext) c1" "same_devs c c1" "co_heap c1 = co_heap c"
    using unref_keeps [of be Z p "mset ps + ext" c] by auto
  from Cons.prems(2) same_devs_ref_count [OF c1(3)] have "\<forall>p \<in> set ps. 0 < ref_count be Z ext c1 p" by simp
  from Cons.IH [OF c1(2) this] c1 same_devs_trans [OF c1(3)] show ?case by auto
qed

lemma unref_all_ok:
  "refs_ok be Z (mset ps + ext) c \<Longrightarrow>
    \<exists>c'. unref_all be ps c = Some c' \<and> refs_ok be Z ext c' \<and> unref_frame be Z c c'"
proof (induction ps arbitrary: c)
  case Nil
  then show ?case by simp
next
  case (Cons p ps)
  from Cons.prems have "refs_ok be Z (opt_mset (Some p) + (mset ps + ext)) c" by simp
  from unref_ok [OF this] obtain c1 where c1: "libusb_unref_device be (Some p) c = Some c1"
    "refs_ok be Z (mset ps + ext) c1" "unref_frame be Z c c1" by blast
  from Cons.IH [OF c1(2)] obtain c' where c': "unref_all be ps c1 = Some c'" "refs_ok be Z ext c'" "unref_frame be Z c1 c'"
    by blast
  have "unref_frame be Z c c'" using c1(3) c'(3) by (rule unref_frame_trans)
  with c1(1) c'(1,2) show ?case by simp
qed

end
