(* ===== verification/Device_Lists.thy ===== *)
theory Device_Lists
  imports Device_Refs
begin

text \<open>
  The device list a program gets: \<open>libusb_get_device_list\<close> takes one reference for every device of the list
  and gives back everything else it took, on every path; \<open>libusb_free_device_list\<close> undoes it. And the
  path of port numbers from the root to a device.
\<close>

subsection \<open>The collection of discovered devices\<close>

definition collecting :: "core_backend \<Rightarrow> ptr multiset \<Rightarrow> core_ctx \<Rightarrow> discovered_devs \<Rightarrow> core_ctx \<Rightarrow> bool" where
  "collecting be ext c0 d c \<longleftrightarrow> refs_ok be {} (mset (ds_devices d) + ext) c \<and> same_devs c0 c \<and>
     ds_block d \<notin> hp_live (co_heap c0) \<and> hp_live (co_heap c) = insert (ds_block d) (hp_live (co_heap c0))"

text \<open>Nothing is left of a call.\<close>

definition restored :: "core_backend \<Rightarrow> ptr multiset \<Rightarrow> core_ctx \<Rightarrow> core_ctx \<Rightarrow> bool" where
  "restored be ext c0 c \<longleftrightarrow> refs_ok be {} ext c \<and> same_devs c0 c \<and> hp_live (co_heap c) = hp_live (co_heap c0)"

lemma refs_ok_pos:
  assumes "refs_ok be {} ext c" and "p \<in> dom (co_devs c)"
  shows "0 < ref_count be {} ext c p"
proof -
  from assms(2) obtain dv where "get_dev p c = Some dv" by (auto simp: get_dev_def)
  from refs_okD(3) [OF assms(1) this] show ?thesis by simp
qed

lemma refs_ok_heap: "refs_ok be Z ext c \<Longrightarrow> heap_wf (co_heap c) \<and> dom (co_devs c) \<subseteq> hp_live (co_heap c)"
  using refs_ok_store [of be Z ext c] by (simp add: store_ok_def)

lemma refs_ok_ext: "refs_ok be Z ext c \<Longrightarrow> set_mset ext \<subseteq> dom (co_devs c)"
  by (simp add: refs_ok_def)

lemma discovered_free_ok:
  assumes base: "refs_ok be {} ext c0" and "collecting be ext c0 d c"
  obtains c' where "discovered_devs_free be d c = Some c'" and "restored be ext c0 c'"
proof -
  from assms(2) have d: "refs_ok be {} (mset (ds_devices d) + ext) c" "same_devs c0 c"
    "ds_block d \<notin> hp_live (co_heap c0)" "hp_live (co_heap c) = insert (ds_block d) (hp_live (co_heap c0))"
    by (simp_all add: collecting_def)
  have "\<forall>p \<in> set (ds_devices d). 0 < ref_count be {} ext c p"
  proof
    fix p assume "p \<in> set (ds_devices d)"
    with refs_ok_ext [OF d(1)] same_devs_dom [OF d(2)] have "p \<in> dom (co_devs c0)" by auto
    from refs_ok_pos [OF base this] show "0 < ref_count be {} ext c p" by (simp add: same_devs_ref_count [OF d(2)])
  qed
  from unref_all_keeps [OF d(1) this] obtain c1 where
    c1: "unref_all be (ds_devices d) c = Some c1" "refs_ok be {} ext c1" "same_devs c c1" "co_heap c1 = co_heap c" by blast
  obtain h where h: "c_release (ds_block d) (co_heap c1) = Some h" "hp_live h = hp_live (co_heap c0)" "heap_wf h"
    using ledger.release_live [of "co_heap c1" "ds_block d"] refs_ok_heap [OF c1(2)] d(3,4) c1(4) by auto
  have dom1: "dom (co_devs c1) \<subseteq> hp_live h"
    using refs_ok_heap [OF base] same_devs_dom [OF d(2)] same_devs_dom [OF c1(3)] h(2) by simp
  have "discovered_devs_free be d c = Some (set_heap h c1)" by (simp add: discovered_devs_free_def c1(1) h(1))
  moreover have "refs_ok be {} ext (set_heap h c1)" by (rule refs_ok_set_heap [OF c1(2) h(3) dom1])
  moreover have "same_devs c0 (set_heap h c1)"
    using same_devs_trans [OF same_devs_trans [OF d(2) c1(3)] same_devs_set_heap] .
  ultimately show ?thesis using that h(2) by (simp add: restored_def)
qed

lemma discovered_append_ok:
  assumes base: "refs_ok be {} ext c0" and col: "collecting be ext c0 d c" and p: "p \<in> dom (co_devs c0)"
  obtains d' c' where "discovered_devs_append be d p c = Some (Some d', c')" and "collecting be ext c0 d' c'"
    and "ds_devices d' = ds_devices d @ [p]"
  | c' where "discovered_devs_append be d p c = Some (None, c')" and "restored be ext c0 c'"
proof -
  from col have d: "refs_ok be {} (mset (ds_devices d) + ext) c" "same_devs c0 c"
    "ds_block d \<notin> hp_live (co_heap c0)" "hp_live (co_heap c) = insert (ds_block d) (hp_live (co_heap c0))"
    by (simp_all add: collecting_def)
  have pc: "p \<in> dom (co_devs c)" using p same_devs_dom [OF d(2)] by simp
  show ?thesis
  proof (cases "length (ds_devices d) < ds_capacity d")
    case True
    obtain c1 where c1: "libusb_ref_device p c = Some c1" "refs_ok be {} (add_mset p (mset (ds_devices d) + ext)) c1"
      "same_devs c c1" "co_heap c1 = co_heap c"
      by (rule ref_keeps [OF d(1) pc]) simp_all
    let ?d = "d\<lparr>ds_devices := ds_devices d @ [p]\<rparr>"
    have "collecting be ext c0 ?d c1"
      using c1(2,4) d(3,4) same_devs_trans [OF d(2) c1(3)] by (simp add: collecting_def)
    with c1(1) True that(1) [of ?d c1] show ?thesis by (simp add: discovered_devs_append_def)
  next
    case False
    let ?h = "co_heap c"
    note hp = refs_ok_heap [OF d(1)]
    show ?thesis
    proof (cases "hp_refail ?h (hp_next ?h)")
      case True
      let ?c = "set_heap (?h\<lparr>hp_next := Suc (hp_next ?h)\<rparr>) c"
      have "refs_ok be {} (mset (ds_devices d) + ext) ?c"
        by (rule refs_ok_set_heap [OF d(1)]) (use hp in \<open>auto simp: heap_wf_def\<close>)
      then have "collecting be ext c0 d ?c"
        using d same_devs_trans [OF d(2) same_devs_set_heap] by (simp add: collecting_def)
      from discovered_free_ok [OF base this] obtain c' where
        "discovered_devs_free be d ?c = Some c'" "restored be ext c0 c'" by blast
      with False True that(2) [of c'] show ?thesis by (simp add: discovered_devs_append_def Let_def)
    next
      case nofail: False
      from d(4) have live: "ds_block d \<in> hp_live ?h" by simp
      from hp have wf: "heap_wf ?h" by blast
      obtain h1 where h1: "c_release (ds_block d) ?h = Some h1" "hp_live h1 = hp_live ?h - {ds_block d}" "heap_wf h1"
        using ledger.release_live [OF wf live] by blast
      have nx: "hp_next h1 = hp_next ?h" using c_release_same [OF h1(1)] by simp
      let ?p = "hp_next ?h"
      let ?h2 = "h1\<lparr>hp_next := Suc ?p, hp_live := insert ?p (hp_live h1)\<rparr>"
      have re: "usbi_reallocf (Some (ds_block d)) ?h = Some (Some ?p, ?h2)"
        using nofail h1(1) by (simp add: usbi_reallocf_def)
      have fresh: "?p \<notin> hp_live ?h" using wf by (auto simp: heap_wf_def)
      have live2: "hp_live ?h2 = insert ?p (hp_live (co_heap c0))" using h1(2) d(3,4) by auto
      have dom2: "dom (co_devs c) \<subseteq> hp_live ?h2"
        using refs_ok_heap [OF base] same_devs_dom [OF d(2)] live2 by auto
      have wf2: "heap_wf ?h2" using h1(2) wf by (auto simp: heap_wf_def less_SucI)
      have ok2: "refs_ok be {} (mset (ds_devices d) + ext) (set_heap ?h2 c)" by (rule refs_ok_set_heap [OF d(1) wf2 dom2])
      obtain c1 where c1: "libusb_ref_device p (set_heap ?h2 c) = Some c1"
        "refs_ok be {} (add_mset p (mset (ds_devices d) + ext)) c1" "same_devs (set_heap ?h2 c) c1"
        "co_heap c1 = ?h2"
        using ref_keeps [OF ok2, of p] pc by auto
      let ?d = "d\<lparr>ds_block := ?p, ds_capacity := ds_capacity d + 8, ds_devices := ds_devices d @ [p]\<rparr>"
      have "?p \<notin> hp_live (co_heap c0)" using fresh d(4) by auto
      moreover have "same_devs c0 c1"
        using same_devs_trans [OF same_devs_trans [OF d(2) same_devs_set_heap] c1(3)] .
      ultimately have "collecting be ext c0 ?d c1" using c1(2,4) live2 by (simp add: collecting_def)
      with False nofail re c1(1) that(1) [of ?d c1] show ?thesis
        by (simp add: discovered_devs_append_def Let_def)
    qed
  qed
qed

lemma append_all_ok:
  assumes base: "refs_ok be {} ext c0"
  shows "collecting be ext c0 d c \<Longrightarrow> set ps \<subseteq> dom (co_devs c0) \<Longrightarrow>
    (\<exists>d' c'. append_all be ps d c = Some (Some d', c') \<and> collecting be ext c0 d' c' \<and>
       ds_devices d' = ds_devices d @ ps) \<or>
    (\<exists>c'. append_all be ps d c = Some (None, c') \<and> restored be ext c0 c')"
proof (induction ps arbitrary: d c)
  case Nil
  then show ?case by simp
next
  case (Cons p ps)
  from Cons.prems(2) have p: "p \<in> dom (co_devs c0)" by simp
  from base Cons.prems(1) p show ?case
  proof (cases rule: discovered_append_ok)
    case (1 d' c')
    with Cons.IH [OF 1(2)] Cons.prems(2) show ?thesis by auto
  next
    case (2 c')
    then show ?thesis by simp
  qed
qed


subsection \<open>The device list\<close>

lemma discovered_alloc_ok:
  assumes base: "refs_ok be {} ext c0"
  obtains c' where "discovered_devs_alloc c0 = (None, c')" and "restored be ext c0 c'"
  | d c' where "discovered_devs_alloc c0 = (Some d, c')" and "collecting be ext c0 d c'" and "ds_devices d = []"
proof (cases "c_malloc (co_heap c0)")
  case (Pair q h)
  note hp = refs_ok_heap [OF base]
  show ?thesis
  proof (cases q)
    case None
    with Pair ledger.alloc_None [of "co_heap c0" h] hp have l: "hp_live h = hp_live (co_heap c0)" "heap_wf h" by auto
    with hp have "refs_ok be {} ext (set_heap h c0)" by (intro refs_ok_set_heap [OF base]) auto
    with l have "restored be ext c0 (set_heap h c0)" by (simp add: restored_def)
    with Pair None that(1) show ?thesis by (simp add: discovered_devs_alloc_def)
  next
    case (Some p)
    with Pair ledger.alloc_Some [of "co_heap c0" p h] hp have
      l: "p \<notin> hp_live (co_heap c0)" "hp_live h = insert p (hp_live (co_heap c0))" "heap_wf h" by auto
    let ?d = "\<lparr>ds_block = p, ds_devices = [], ds_capacity = DISCOVERED_DEVICES_SIZE_STEP\<rparr>"
    from l hp have "refs_ok be {} ext (set_heap h c0)" by (intro refs_ok_set_heap [OF base]) auto
    with l have "collecting be ext c0 ?d (set_heap h c0)" by (simp add: collecting_def)
    with Pair Some that(2) [of ?d] show ?thesis by (simp add: discovered_devs_alloc_def)
  qed
qed

text \<open>The end of \<open>libusb_get_device_list\<close>: the collection becomes the list, or is dropped.\<close>

lemma collection_to_list:
  assumes base: "refs_ok be {} ext c0" and col: "collecting be ext c0 d c"
  obtains h where "c_malloc (co_heap c) = (None, h)" and "collecting be ext c0 d (set_heap h c)"
  | p h c1 c2 where "c_malloc (co_heap c) = (Some p, h)" and "ref_all (ds_devices d) (set_heap h c) = Some c1"
      and "discovered_devs_free be d c1 = Some c2" and "refs_ok be {} (mset (ds_devices d) + ext) c2"
      and "same_devs c0 c2" and "p \<notin> hp_live (co_heap c0)" and "hp_live (co_heap c2) = insert p (hp_live (co_heap c0))"
proof -
  from col have d: "refs_ok be {} (mset (ds_devices d) + ext) c" "same_devs c0 c"
    "ds_block d \<notin> hp_live (co_heap c0)" "hp_live (co_heap c) = insert (ds_block d) (hp_live (co_heap c0))"
    by (simp_all add: collecting_def)
  note hp = refs_ok_heap [OF d(1)]
  obtain q h where m: "c_malloc (co_heap c) = (q, h)" by fastforce
  show ?thesis
  proof (cases q)
    case None
    with m ledger.alloc_None [of "co_heap c" h] hp have l: "hp_live h = hp_live (co_heap c)" "heap_wf h" by auto
    with hp have "refs_ok be {} (mset (ds_devices d) + ext) (set_heap h c)" by (intro refs_ok_set_heap [OF d(1)]) auto
    with d l same_devs_trans [OF d(2) same_devs_set_heap] have "collecting be ext c0 d (set_heap h c)" by (simp add: collecting_def)
    with m None that(1) show ?thesis by blast
  next
    case (Some p)
    with m ledger.alloc_Some [of "co_heap c" p h] hp have
      l: "p \<notin> hp_live (co_heap c)" "hp_live h = insert p (hp_live (co_heap c))" "heap_wf h" by auto
    from l hp have ok1: "refs_ok be {} (mset (ds_devices d) + ext) (set_heap h c)" by (intro refs_ok_set_heap [OF d(1)]) auto
    have "set (ds_devices d) \<subseteq> dom (co_devs (set_heap h c)) - {}" using refs_ok_ext [OF d(1)] by simp
    from ref_all_ok [OF ok1 this] obtain c1 where c1: "ref_all (ds_devices d) (set_heap h c) = Some c1"
      "refs_ok be {} (mset (ds_devices d) + (mset (ds_devices d) + ext)) c1" "same_devs (set_heap h c) c1"
      "co_heap c1 = h" by auto
    have s1: "same_devs c0 c1" using same_devs_trans [OF same_devs_trans [OF d(2) same_devs_set_heap] c1(3)] .
    let ?ext = "mset (ds_devices d) + ext"
    have "\<forall>p \<in> set (ds_devices d). 0 < ref_count be {} ?ext c1 p" by (simp add: ref_count_def)
    from unref_all_keeps [OF c1(2) this] obtain c2 where
      c2: "unref_all be (ds_devices d) c1 = Some c2" "refs_ok be {} ?ext c2" "same_devs c1 c2" "co_heap c2 = h"
      using c1(4) by auto
    have live: "ds_block d \<in> hp_live h" "ds_block d \<noteq> p" using l d(4) by auto
    obtain h2 where h2: "c_release (ds_block d) h = Some h2" "hp_live h2 = hp_live h - {ds_block d}" "heap_wf h2"
      using ledger.release_live [OF l(3) live(1)] by blast
    have s2: "same_devs c0 (set_heap h2 c2)"
      using same_devs_trans [OF same_devs_trans [OF s1 c2(3)] same_devs_set_heap] .
    have live2: "hp_live h2 = insert p (hp_live (co_heap c0))" using h2(2) l(2) d(3,4) live(2) by auto
    have "dom (co_devs c2) \<subseteq> hp_live h2"
      using refs_ok_heap [OF base] same_devs_dom [OF same_devs_trans [OF s1 c2(3)]] live2 by auto
    then have "refs_ok be {} ?ext (set_heap h2 c2)" by (rule refs_ok_set_heap [OF c2(2) h2(3)])
    moreover have "discovered_devs_free be d c1 = Some (set_heap h2 c2)"
      by (simp add: discovered_devs_free_def c2(1,4) h2(1))
    moreover have "p \<notin> hp_live (co_heap c0)" using l(1) d(4) by auto
    ultimately show ?thesis using that(2) m Some c1(1) s2 live2 by simp
  qed
qed

text \<open>The devices an enumeration adds: those of the context's list with a hotplug backend.\<close>

definition enumerates :: "core_backend \<Rightarrow> core_ctx \<Rightarrow> bool" where
  "enumerates be c \<longleftrightarrow> (case be_get_device_list be of
     None \<Rightarrow> \<not> co_usb_devs_lock c
   | Some (r, devs) \<Rightarrow> set devs \<subseteq> dom (co_devs c))"

text \<open>The devices that are enumerated.\<close>

definition enum_devs :: "core_backend \<Rightarrow> core_ctx \<Rightarrow> ptr list" where
  "enum_devs be c = (case be_get_device_list be of None \<Rightarrow> co_usb_devs c | Some (_, devs) \<Rightarrow> devs)"

definition list_effect :: "core_backend \<Rightarrow> ptr multiset \<Rightarrow> core_ctx \<Rightarrow> int \<Rightarrow> ptr list blk \<Rightarrow> core_ctx \<Rightarrow> bool" where
  "list_effect be ext c r ret c' \<longleftrightarrow>
     (case ret of
        None \<Rightarrow> r < 0 \<and> restored be ext c c'
      | Some (b, ps) \<Rightarrow> r = int (length ps) \<and> refs_ok be {} (mset ps + ext) c' \<and> same_devs c c' \<and>
          b \<notin> hp_live (co_heap c) \<and> hp_live (co_heap c') = insert b (hp_live (co_heap c)) \<and>
          ps = enum_devs be c)"


abbreviation set_lock :: "bool \<Rightarrow> core_ctx \<Rightarrow> core_ctx" where
  "set_lock b c \<equiv> c\<lparr>co_usb_devs_lock := b\<rparr>"

lemma ref_count_lock [simp]: "ref_count be Z ext (set_lock b c) p = ref_count be Z ext c p"
  by (simp add: ref_count_def listed_def children_def parent_of_def get_dev_def)

lemma refs_ok_lock: "has_hotplug be \<Longrightarrow> refs_ok be Z ext (set_lock b c) = refs_ok be Z ext c"
  by (simp add: refs_ok_def store_ok_def get_dev_def parent_of_def)

lemma same_devs_lock: "same_devs c0 c \<Longrightarrow> same_devs (set_lock b c0) (set_lock b c)"
  by (simp add: same_devs_def get_dev_def)

lemma collecting_lock: "has_hotplug be \<Longrightarrow> collecting be ext c0 d c \<Longrightarrow> collecting be ext (set_lock b c0) d (set_lock b c)"
  by (simp add: collecting_def refs_ok_lock same_devs_lock)

lemma restored_lock: "has_hotplug be \<Longrightarrow> restored be ext c0 c \<Longrightarrow> restored be ext (set_lock b c0) (set_lock b c)"
  by (simp add: restored_def refs_ok_lock same_devs_lock)

lemma has_hotplug_iff: "has_hotplug be \<longleftrightarrow> be_get_device_list be = None"
  by (simp add: has_hotplug_def libusb_has_capability_def)

lemma enumerate_ok:
  assumes base: "refs_ok be {} ext c0" and en: "enumerates be c0" and col: "collecting be ext c0 d c"
    and nil: "ds_devices d = []"
  obtains r d' c' where "enumerate_devices be d c = Some (r, Some d', c')" and "collecting be ext c0 d' c'"
      and "ds_devices d' = enum_devs be c0"
  | c' where "enumerate_devices be d c = Some (LIBUSB_ERROR_NO_MEM, None, c')" and "restored be ext c0 c'"
proof (cases "be_get_device_list be")
  case None
  then have hot: "has_hotplug be" by (simp add: has_hotplug_iff)
  from en None have nl: "\<not> co_usb_devs_lock c0" by (simp add: enumerates_def)
  from col have same: "same_devs c0 c" by (simp add: collecting_def)
  with nl have l: "lock_usb_devs c = Some (set_lock True c)" "co_usb_devs c = co_usb_devs c0"
    by (simp_all add: lock_usb_devs_def same_devs_def)
  have b1: "refs_ok be {} ext (set_lock True c0)" using base hot by (simp add: refs_ok_lock)
  have dm: "set (co_usb_devs c0) \<subseteq> dom (co_devs (set_lock True c0))"
    using refs_ok_store [OF base] hot by (simp add: store_ok_def)
  have id: "set_lock False (set_lock True c0) = c0" using nl by simp
  from append_all_ok [OF b1 collecting_lock [OF hot col] dm] nil show ?thesis
  proof (elim disjE exE conjE)
    fix d' c' assume a: "append_all be (co_usb_devs c0) d (set_lock True c) = Some (Some d', c')"
      "collecting be ext (set_lock True c0) d' c'" "ds_devices d' = ds_devices d @ co_usb_devs c0"
    have "co_usb_devs_lock c'" using a(2) by (simp add: collecting_def same_devs_def)
    then have "enumerate_devices be d c = Some (0, Some d', set_lock False c')"
      using None l a(1) by (simp add: enumerate_devices_def unlock_usb_devs_def)
    moreover have "collecting be ext c0 d' (set_lock False c')"
      using collecting_lock [OF hot a(2), of False] id by simp
    ultimately show ?thesis using that(1) a(3) nil None by (simp add: enum_devs_def)
  next
    fix c' assume a: "append_all be (co_usb_devs c0) d (set_lock True c) = Some (None, c')"
      "restored be ext (set_lock True c0) c'"
    have "co_usb_devs_lock c'" using a(2) by (simp add: restored_def same_devs_def)
    then have "enumerate_devices be d c = Some (LIBUSB_ERROR_NO_MEM, None, set_lock False c')"
      using None l a(1) by (simp add: enumerate_devices_def unlock_usb_devs_def)
    moreover have "restored be ext c0 (set_lock False c')"
      using restored_lock [OF hot a(2), of False] id by simp
    ultimately show ?thesis using that(2) by blast
  qed
next
  case (Some b)
  obtain r devs where b: "b = (r, devs)" by (cases b)
  with en Some have dm: "set devs \<subseteq> dom (co_devs c0)" by (simp add: enumerates_def)
  from append_all_ok [OF base col dm] nil show ?thesis
  proof (elim disjE exE conjE)
    fix d' c' assume a: "append_all be devs d c = Some (Some d', c')" "collecting be ext c0 d' c'"
      "ds_devices d' = ds_devices d @ devs"
    with Some b nil that(1) [of r d' c'] show ?thesis by (simp add: enumerate_devices_def enum_devs_def)
  next
    fix c' assume a: "append_all be devs d c = Some (None, c')" "restored be ext c0 c'"
    with Some b that(2) show ?thesis by (simp add: enumerate_devices_def)
  qed
qed

lemma get_device_list_spec:
  assumes base: "refs_ok be {} ext c" and en: "enumerates be c"
  shows "\<exists>r ret c'. libusb_get_device_list be c = Some (r, ret, c') \<and> list_effect be ext c r ret c'"
  using base
proof (cases rule: discovered_alloc_ok)
  case (1 c')
  then show ?thesis by (simp add: libusb_get_device_list_def list_effect_def)
next
  case (2 d c1)
  from base en 2(2,3) show ?thesis
  proof (cases rule: enumerate_ok)
    case (2 c')
    with \<open>discovered_devs_alloc c = (Some d, c1)\<close> show ?thesis by (simp add: libusb_get_device_list_def list_effect_def)
  next
    case (1 r d' c2)
    show ?thesis
    proof (cases "r < 0")
      case True
      from discovered_free_ok [OF base 1(2)] obtain c3 where "discovered_devs_free be d' c2 = Some c3" "restored be ext c c3" by blast
      with True 1(1) \<open>discovered_devs_alloc c = (Some d, c1)\<close> show ?thesis by (simp add: libusb_get_device_list_def list_effect_def)
    next
      case False
      from base 1(2) show ?thesis
      proof (cases rule: collection_to_list)
        case mem: (1 h)
        from discovered_free_ok [OF base mem(2)] obtain c3 where
          "discovered_devs_free be d' (set_heap h c2) = Some c3" "restored be ext c c3" by blast
        with False 1(1) mem(1) \<open>discovered_devs_alloc c = (Some d, c1)\<close> show ?thesis
          by (simp add: libusb_get_device_list_def list_effect_def)
      next
        case full: (2 p h c3 c4)
        with False 1(1,3) \<open>discovered_devs_alloc c = (Some d, c1)\<close> show ?thesis
          by (simp add: libusb_get_device_list_def list_effect_def enum_devs_def)
      qed
    qed
  qed
qed

text \<open>Freeing the list with its references.\<close>

lemma free_device_list_spec:
  assumes base: "refs_ok be {} ext c0" and eff: "list_effect be ext c0 r (Some (b, ps)) c"
  shows "\<exists>c'. libusb_free_device_list be (Some (b, ps)) True c = Some c' \<and> restored be ext c0 c'"
proof -
  have e: "refs_ok be {} (mset ps + ext) c" "same_devs c0 c" "b \<notin> hp_live (co_heap c0)"
    "hp_live (co_heap c) = insert b (hp_live (co_heap c0))"
    using eff unfolding list_effect_def option.case prod.case by blast+
  have "collecting be ext c0 \<lparr>ds_block = b, ds_devices = ps, ds_capacity = 0\<rparr> c"
    using e by (simp add: collecting_def)
  from discovered_free_ok [OF base this] show ?thesis
    by (auto simp: libusb_free_device_list_def discovered_devs_free_def)
qed

end
