(* ===== verification/Device_Props.thy ===== *)
theory Device_Props
  imports Device_Lists
begin

text \<open>
  The properties of devices: exact reference counts and destruction with the last reference, the device
  list, and port numbers.
\<close>

subsection \<open>Concrete contexts\<close>

definition event_data0 :: event_data where
  "event_data0 = \<lparr>ed_heap = \<lparr>hp_next = 2, hp_live = {0, 1}, hp_fail = (\<lambda>_. False), hp_refail = (\<lambda>_. False)\<rparr>,
     ed_lock = False, ed_event_flags = {}, ed_device_close = 0, ed_hotplug_ready = True, ed_hotplug_msgs = [],
     ed_completed = [], ed_ipollfds = [], ed_pollfds = None, ed_pollfds_cnt = 0, ed_event_pipe = (3, 4), ed_pipe = 0,
     ed_pipe_cap = 4, ed_added_cb = False, ed_removed_cb = False, ed_fd_calls = [], ed_events_lock = False,
     ed_handler_active = False, ed_waiters_lock = False, ed_handling = False\<rparr>"

text \<open>A root hub (block 0, port 0) and a device (block 1) on its port 3; the application holds a reference to the
  device.\<close>

definition hub_and_device :: core_ctx where
  "hub_and_device = \<lparr>co_ev = event_data0,
     co_devs = [0 \<mapsto> (new_device 256)\<lparr>dv_refcnt := 2\<rparr>,
                1 \<mapsto> (new_device 257)\<lparr>dv_refcnt := 2, dv_parent_dev := Some 0, dv_port_number := 3\<rparr>],
     co_usb_devs = [1, 0], co_usb_devs_lock = False\<rparr>"

definition linux_backend :: core_backend where
  "linux_backend = \<lparr>be_caps = 0x00030000, be_get_device_list = None, be_mutex_init = 0\<rparr>"

lemma linux_hotplug [simp]: "has_hotplug linux_backend"
  by (simp add: has_hotplug_iff linux_backend_def)

lemma hub_get: "get_dev q hub_and_device =
    (if q = 1 then Some ((new_device 257)\<lparr>dv_refcnt := 2, dv_parent_dev := Some 0, dv_port_number := 3\<rparr>)
     else if q = 0 then Some ((new_device 256)\<lparr>dv_refcnt := 2\<rparr>) else None)"
  by (simp add: get_dev_def hub_and_device_def)

lemma hub_dom [simp]: "dom (co_devs hub_and_device) = {0, 1}"
  by (auto simp: hub_and_device_def)

lemma hub_parent: "parent_of hub_and_device q = (if q = 1 then Some 0 else None)"
  by (simp add: parent_of_def hub_get new_device_def)

lemma hub_refs_ok: "refs_ok linux_backend {} {#1#} hub_and_device"
proof -
  have "children {} hub_and_device p = (if p = 0 then {1} else {})" for p
    by (auto simp: children_def hub_parent)
  moreover have "co_usb_devs hub_and_device = [1, 0]" "co_heap hub_and_device = ed_heap event_data0"
    by (simp_all add: hub_and_device_def)
  ultimately show ?thesis
    by (auto simp: refs_ok_def store_ok_def ref_count_def listed_def hub_get hub_parent new_device_def
        event_data0_def heap_wf_def split: if_splits)
qed

subsection \<open>References\<close>

text \<open>C18. Reference counts are exact, and a device dies with its last reference: in a context whose counts are
  exact, dropping a reference that is held ends without a fault and leaves the counts exact; the
  device is destroyed and its block freed if and only if no other reference to it is left, and then its
  parent has lost a reference in turn, up to the root.\<close>

theorem unref_device_exact:
  assumes "refs_ok be {} (add_mset p ext) c"
  shows "\<exists>c'. libusb_unref_device be (Some p) c = Some c' \<and> refs_ok be {} ext c' \<and>
    (get_dev p c' = None \<longleftrightarrow> ref_count be {} ext c p = 0) \<and>
    hp_live (co_heap c') = hp_live (co_heap c) - (dom (co_devs c) - dom (co_devs c'))"
proof (cases "ref_count be {} ext c p = 0")
  case False
  obtain c' where c': "libusb_unref_device be (Some p) c = Some c'" "refs_ok be {} ext c'" "same_devs c c'"
    "co_heap c' = co_heap c" by (rule unref_keeps [OF assms]) (use False in simp_all)
  from ext_live [OF assms, of p] have "p \<in> dom (co_devs c)" by (auto simp: get_dev_def)
  with same_devs_dom [OF c'(3)] have "get_dev p c' \<noteq> None" by (auto simp: get_dev_def)
  with c' False same_devs_dom [OF c'(3)] show ?thesis by simp
next
  case True
  from assms have "refs_ok be {} (opt_mset (Some p) + ext) c" by simp
  from unref_ok [OF this] obtain c' where
    c': "libusb_unref_device be (Some p) c = Some c'" "refs_ok be {} ext c'" "unref_frame be {} c c'" by blast
  have fin: "finite (dom (co_devs c))" "finite (dom (co_devs c'))"
    using refs_ok_store [OF assms] refs_ok_store [OF c'(2)] by (simp_all add: store_ok_def)
  have sub: "dom (co_devs c') \<subseteq> dom (co_devs c)" and par: "\<And>q. q \<in> dom (co_devs c') \<Longrightarrow> parent_of c' q = parent_of c q"
    using c'(3) unfolding unref_frame_def by blast+
  have "children {} c' p \<subseteq> children {} c p"
  proof
    fix q assume "q \<in> children {} c' p"
    then have "q \<in> dom (co_devs c')" "parent_of c' q = Some p" by (simp_all add: children_def)
    with sub par [of q] show "q \<in> children {} c p" by (auto simp: children_def)
  qed
  moreover have "has_hotplug be \<longrightarrow> co_usb_devs c' = co_usb_devs c" using c'(3) by (simp add: unref_frame_def)
  ultimately have "ref_count be {} ext c' p = 0"
    using True ref_count_zero [OF fin(1), of be "{}" ext p] ref_count_zero [OF fin(2), of be "{}" ext p] by auto
  then have "get_dev p c' = None" using refs_okD(3) [OF c'(2), of p] by (cases "get_dev p c'") auto
  with c' True show ?thesis by (auto simp: unref_frame_def)
qed

theorem unref_device_exact_witness:
  "\<exists>c'. libusb_unref_device linux_backend (Some 1) hub_and_device = Some c' \<and> refs_ok linux_backend {} {#} c' \<and>
    (get_dev 1 c' = None \<longleftrightarrow> ref_count linux_backend {} {#} hub_and_device 1 = 0) \<and>
    hp_live (co_heap c') = hp_live (co_heap hub_and_device) - (dom (co_devs hub_and_device) - dom (co_devs c'))"
  by (rule unref_device_exact) (rule hub_refs_ok)



subsection \<open>Port numbers\<close>

text \<open>\<open>port_path c dev ps\<close>: from \<open>dev\<close> up to the root hub, or to a device without a port number, the port numbers
  are \<open>ps\<close>.\<close>

inductive port_path :: "core_ctx \<Rightarrow> ptr option \<Rightarrow> u8 list \<Rightarrow> bool" for c :: core_ctx where
  no_parent: "port_path c None []"
| root: "get_dev p c = Some dv \<Longrightarrow> dv_port_number dv = 0 \<Longrightarrow> port_path c (Some p) []"
| hop: "get_dev p c = Some dv \<Longrightarrow> dv_port_number dv \<noteq> 0 \<Longrightarrow> port_path c (dv_parent_dev dv) ps \<Longrightarrow>
    port_path c (Some p) (dv_port_number dv # ps)"

inductive_cases port_path_NoneE: "port_path c None ps"
inductive_cases port_path_SomeE: "port_path c (Some p) ps"

text \<open>The loop fills the array downwards from \<open>i\<close>.\<close>

lemma port_loop_path:
  "port_path c dev ps \<Longrightarrow> i \<le> length arr \<Longrightarrow>
    (if length ps \<le> i
     then port_loop c i dev arr = Some (Inr (i - length ps), take (i - length ps) arr @ rev ps @ drop i arr)
     else \<exists>arr'. port_loop c i dev arr = Some (Inl LIBUSB_ERROR_OVERFLOW, arr') \<and> length arr' = length arr)"
proof (induction i arbitrary: dev ps arr)
  case 0
  from 0(1) show ?case by (cases rule: port_path.cases) auto
next
  case (Suc i)
  from Suc.prems(1) show ?case
  proof (cases rule: port_path.cases)
    case no_parent
    then show ?thesis by simp
  next
    case (root p dv)
    then show ?thesis by simp
  next
    case (hop p dv qs)
    from Suc.prems(2) have i: "i < length arr" by simp
    from i have "drop i (arr[i := dv_port_number dv]) = dv_port_number dv # drop (Suc i) arr"
      by (simp add: drop_update_swap flip: Cons_nth_drop_Suc)
    moreover have "take k (arr[i := dv_port_number dv]) = take k arr" if "k \<le> i" for k using that by simp
    ultimately show ?thesis
      using Suc.IH [OF hop(5), of "arr[i := dv_port_number dv]"] hop i by (simp split: if_splits)
  qed
qed

text \<open>\<open>libusb_get_port_numbers\<close> stores the path from the root to the device and returns its length, when the
  array is long enough for it; otherwise it returns LIBUSB_ERROR_OVERFLOW. In both cases it stores only inside
  the array.\<close>

theorem port_numbers_path:
  assumes "port_path c (Some dev) ps" and "0 < n" and "n \<le> int (length arr)"
  shows "if int (length ps) \<le> n
    then \<exists>rest. libusb_get_port_numbers c dev arr n = Some (int (length ps), rev ps @ rest) \<and>
           length rest = length arr - length ps
    else \<exists>arr'. libusb_get_port_numbers c dev arr n = Some (LIBUSB_ERROR_OVERFLOW, arr') \<and> length arr' = length arr"
proof -
  let ?n = "nat n"
  from assms(3) have len: "?n \<le> length arr" by simp
  note loop = port_loop_path [OF assms(1) len]
  show ?thesis
  proof (cases "int (length ps) \<le> n")
    case True
    then have le: "length ps \<le> ?n" by linarith
    let ?arr = "take (?n - length ps) arr @ rev ps @ drop ?n arr"
    have d: "drop (?n - length ps) ?arr = rev ps @ drop ?n arr" using len by (simp add: min_def)
    have la: "length ?arr = length arr" using le len by simp
    have take_len: "take (length ps) (rev ps @ drop ?n arr) = rev ps" by simp
    have "libusb_get_port_numbers c dev arr n =
        Some (int (length ps), rev ps @ (if ps = [] then arr else drop (length ps) ?arr))"
    proof (cases "ps = []")
      case True
      with assms(2) loop len show ?thesis by (simp add: libusb_get_port_numbers_def)
    next
      case False
      have "?n - (?n - length ps) = length ps" using le by simp
      with False assms(2) loop le d take_len show ?thesis by (simp add: libusb_get_port_numbers_def Let_def)
    qed
    moreover have "length (if ps = [] then arr else drop (length ps) ?arr) = length arr - length ps"
      using la by (simp only: length_drop if_distrib [of length]) simp
    ultimately show ?thesis using True by auto
  next
    case False
    then have "\<not> length ps \<le> ?n" using assms(2) by linarith
    with loop obtain arr' where "port_loop c ?n (Some dev) arr = Some (Inl LIBUSB_ERROR_OVERFLOW, arr')" "length arr' = length arr"
      by auto
    with assms(2) False show ?thesis by (simp add: libusb_get_port_numbers_def)
  qed
qed

lemma hub_port_path: "port_path hub_and_device (Some 1) [3]"
proof -
  have root: "port_path hub_and_device (Some 0) []"
    by (rule port_path.root [of 0 _ "(new_device 256)\<lparr>dv_refcnt := 2\<rparr>"]) (simp_all add: hub_get new_device_def)
  show ?thesis
    using port_path.hop [of 1 hub_and_device "(new_device 257)\<lparr>dv_refcnt := 2, dv_parent_dev := Some 0, dv_port_number := 3\<rparr>" "[]"] root
    by (simp add: hub_get)
qed

theorem port_numbers_path_witness:
  "\<exists>rest. libusb_get_port_numbers hub_and_device 1 [0, 0, 0, 0] 4 = Some (1, [3] @ rest) \<and>
    length rest = length [0 :: u8, 0, 0, 0] - length [3 :: u8]"
  using port_numbers_path [OF hub_port_path, of 4 "[0, 0, 0, 0]"] by simp

end
