(* ===== verification/Handle_Props.thy ===== *)
theory Handle_Props
  imports Core_Handles Device_Props Event_Protocol Transfer_Invariants
begin

text \<open>
  The properties of device handles: the bit mask of claimed interfaces is a set, opening takes exactly one
  reference and one block, and closing gives them back and takes the handle's transfers off the list.
\<close>

subsection \<open>Claimed interfaces\<close>

text \<open>The interfaces a handle has claimed, and the masks that occur: sign extensions of 32 bits.\<close>

definition claimed :: "ptr \<Rightarrow> lib_ctx \<Rightarrow> nat set" where
  "claimed p l = {n. n < 32 \<and> (\<exists>dh. get_h p l = Some dh \<and> bit (dh_claimed_interfaces dh) n)}"

definition mask_ok :: "64 word \<Rightarrow> bool" where
  "mask_ok w \<longleftrightarrow> w = scast (ucast w :: 32 word)"

lemma scast_ucast_id: "ucast (scast (v :: 32 word) :: 64 word) = v"
  by (rule bit_word_eqI) (simp add: bit_simps)

lemma mask_okE:
  assumes "mask_ok w"
  obtains v :: "32 word" where "w = scast v"
  using assms by (auto simp: mask_ok_def)

lemma mask_ok_scast [simp]: "mask_ok (scast (v :: 32 word))"
  by (simp add: mask_ok_def scast_ucast_id)

lemma bit_scast [simp]: "n < 32 \<Longrightarrow> bit (scast (v :: 32 word) :: 64 word) n = bit v n"
  by (simp add: bit_simps)

lemma scast_eq_0 [simp]: "(scast (v :: 32 word) :: 64 word) = 0 \<longleftrightarrow> v = 0"
  by (metis scast_ucast_id signed_0 unsigned_0)

lemma and_bit_eq_0:
  fixes v :: "32 word"
  assumes "n < 32"
  shows "v AND push_bit n 1 = 0 \<longleftrightarrow> \<not> bit v n"
proof
  assume "v AND push_bit n 1 = 0"
  then have "\<not> bit (v AND push_bit n 1) n" by simp
  with assms show "\<not> bit v n" by (simp add: bit_simps)
next
  assume "\<not> bit v n"
  show "v AND push_bit n 1 = 0"
  proof (rule bit_word_eqI)
    fix k assume "k < LENGTH(32)"
    with \<open>\<not> bit v n\<close> show "bit (v AND push_bit n 1) k = bit (0 :: 32 word) k" by (cases "k = n") (auto simp: bit_simps)
  qed
qed

lemma interface_bits:
  assumes "0 \<le> n" and "n < 32"
  shows "interface_bit n = Some (scast (push_bit (nat n) (1 :: 32 word)))"
    and "interface_mask n = Some (scast (NOT (push_bit (nat n) (1 :: 32 word))))"
  using assms by (simp_all add: interface_bit_def interface_mask_def)

lemma mask_and:
  fixes v :: "32 word"
  shows "(scast v :: 64 word) AND scast b = scast (v AND b)"
    and "(scast v :: 64 word) OR scast b = scast (v OR b)"
  by (simp_all add: signed_and_eq signed_or_eq)

lemma claimed_bits:
  fixes v :: "32 word"
  assumes "n < 32"
  shows "{k. k < 32 \<and> bit (scast (v OR push_bit n 1) :: 64 word) k} = insert n {k. k < 32 \<and> bit (scast v :: 64 word) k}"
    and "{k. k < 32 \<and> bit (scast (v AND NOT (push_bit n 1)) :: 64 word) k} = {k. k < 32 \<and> bit (scast v :: 64 word) k} - {n}"
  using assms by (auto simp: bit_simps)


lemma get_put_h [simp]: "get_h q (put_h p dh l) = (if q = p then Some dh else get_h q l)"
  by (simp add: get_h_def put_h_def)

lemma put_h_fields [simp]:
  "lc_core (put_h p dh l) = lc_core l" "lc_io (put_h p dh l) = lc_io l" "lc_calls (put_h p dh l) = lc_calls l"
  "lc_open_devs (put_h p dh l) = lc_open_devs l" "lc_open_devs_lock (put_h p dh l) = lc_open_devs_lock l"
  by (simp_all add: put_h_def)

lemma put_put_h [simp]: "put_h p x (put_h p y l) = put_h p x l"
  by (simp add: put_h_def)

lemma put_h_id: "get_h p l = Some dh \<Longrightarrow> put_h p dh l = l"
  by (simp add: put_h_def get_h_def fun_upd_idem)

lemma get_h_calls [simp]: "get_h p (l\<lparr>lc_calls := ks\<rparr>) = get_h p l" "put_h p dh (l\<lparr>lc_calls := ks\<rparr>) = (put_h p dh l)\<lparr>lc_calls := ks\<rparr>"
  by (simp_all add: get_h_def put_h_def)

lemma dh_unlocked [simp]: "\<not> dh_lock dh \<Longrightarrow> dh\<lparr>dh_lock := False\<rparr> = dh"
  by simp

text \<open>An interface of the handle in the abstract: claiming inserts it, releasing removes it, and a repeated
  claim asks nobody.\<close>

definition claim_effect :: "handle_backend \<Rightarrow> ptr \<Rightarrow> nat \<Rightarrow> lib_ctx \<Rightarrow> int \<Rightarrow> lib_ctx \<Rightarrow> bool" where
  "claim_effect be p n l r l' \<longleftrightarrow>
     (if n \<in> claimed p l then r = 0 \<and> l' = l
      else r = hb_answer be (BE_claim p (int n)) \<and> lc_calls l' = lc_calls l @ [BE_claim p (int n)] \<and>
        claimed p l' = (if r = 0 then insert n (claimed p l) else claimed p l))"

definition release_effect :: "handle_backend \<Rightarrow> ptr \<Rightarrow> nat \<Rightarrow> lib_ctx \<Rightarrow> int \<Rightarrow> lib_ctx \<Rightarrow> bool" where
  "release_effect be p n l r l' \<longleftrightarrow>
     (if n \<notin> claimed p l then r = LIBUSB_ERROR_NOT_FOUND \<and> l' = l
      else r = hb_answer be (BE_release p (int n)) \<and> lc_calls l' = lc_calls l @ [BE_release p (int n)] \<and>
        claimed p l' = (if r = 0 then claimed p l - {n} else claimed p l))"

text \<open>A free handle with a mask that occurs.\<close>

definition handle_ok :: "ptr \<Rightarrow> lib_ctx \<Rightarrow> bool" where
  "handle_ok p l \<longleftrightarrow> (case get_h p l of Some dh \<Rightarrow> \<not> dh_lock dh \<and> mask_ok (dh_claimed_interfaces dh) | None \<Rightarrow> False)"

lemma claimed_eq: "get_h p l = Some dh \<Longrightarrow> claimed p l = {k. k < 32 \<and> bit (dh_claimed_interfaces dh) k}"
  by (auto simp: claimed_def)

lemma claim_spec:
  assumes ok: "handle_ok p l" and att: "attached p l = Some True" and n: "n < 32"
  shows "\<exists>r l'. libusb_claim_interface be p (int n) l = Some (r, l') \<and> handle_ok p l' \<and> claim_effect be p n l r l'"
proof -
  from ok obtain dh v where dh: "get_h p l = Some dh" "\<not> dh_lock dh" "dh_claimed_interfaces dh = scast (v :: 32 word)"
    by (auto simp: handle_ok_def elim!: mask_okE split: option.splits)
  have cl: "n \<in> claimed p l \<longleftrightarrow> bit v n" using dh n by (simp add: claimed_eq)
  let ?b = "push_bit n (1 :: 32 word)"
  have test: "dh_claimed_interfaces dh AND scast ?b \<noteq> 0 \<longleftrightarrow> bit v n"
    using and_bit_eq_0 [OF n, of v] by (simp add: dh(3) mask_and del: push_bit_of_1)
  note bits = interface_bits(1) [of "int n"]
  have lock: "lock_h p l = Some (put_h p (dh\<lparr>dh_lock := True\<rparr>) l)" using dh by (simp add: lock_h_def)
  show ?thesis
  proof (cases "bit v n")
    case True
    have "libusb_claim_interface be p (int n) l = Some (0, l)"
      using n att bits test True dh(1,2) lock put_h_id [OF dh(1)]
      by (simp add: libusb_claim_interface_def unlock_h_def del: push_bit_of_1)
    with ok True cl show ?thesis by (simp add: claim_effect_def)
  next
    case False
    let ?r = "hb_answer be (BE_claim p (int n))"
    let ?dh = "if ?r = 0 then dh\<lparr>dh_claimed_interfaces := dh_claimed_interfaces dh OR scast ?b\<rparr> else dh"
    let ?l = "(put_h p ?dh l)\<lparr>lc_calls := lc_calls l @ [BE_claim p (int n)]\<rparr>"
    have "libusb_claim_interface be p (int n) l = Some (?r, ?l)"
      using n att bits test False dh(1,2) lock
      by (auto simp: libusb_claim_interface_def unlock_h_def backend_call_def simp del: push_bit_of_1)
    moreover have "handle_ok p ?l" using dh by (simp add: handle_ok_def mask_and)
    moreover have "claimed p ?l = (if ?r = 0 then insert n (claimed p l) else claimed p l)"
    proof -
      have "get_h p ?l = Some ?dh" by simp
      from claimed_eq [OF this] claimed_eq [OF dh(1)] claimed_bits(1) [OF n, of v] show ?thesis
        by (simp add: dh(3) mask_and del: push_bit_of_1)
    qed
    ultimately show ?thesis using False cl by (auto simp: claim_effect_def)
  qed
qed

lemma release_spec:
  assumes ok: "handle_ok p l" and n: "n < 32"
  shows "\<exists>r l'. libusb_release_interface be p (int n) l = Some (r, l') \<and> handle_ok p l' \<and> release_effect be p n l r l'"
proof -
  from ok obtain dh v where dh: "get_h p l = Some dh" "\<not> dh_lock dh" "dh_claimed_interfaces dh = scast (v :: 32 word)"
    by (auto simp: handle_ok_def elim!: mask_okE split: option.splits)
  have cl: "n \<in> claimed p l \<longleftrightarrow> bit v n" using dh n by (simp add: claimed_eq)
  let ?b = "push_bit n (1 :: 32 word)"
  have test: "dh_claimed_interfaces dh AND scast ?b = 0 \<longleftrightarrow> \<not> bit v n"
    using and_bit_eq_0 [OF n, of v] by (simp add: dh(3) mask_and del: push_bit_of_1)
  note bits = interface_bits [of "int n"]
  have lock: "lock_h p l = Some (put_h p (dh\<lparr>dh_lock := True\<rparr>) l)" using dh by (simp add: lock_h_def)
  show ?thesis
  proof (cases "bit v n")
    case False
    have "libusb_release_interface be p (int n) l = Some (LIBUSB_ERROR_NOT_FOUND, l)"
      using n bits test False dh(1,2) lock put_h_id [OF dh(1)]
      by (simp add: libusb_release_interface_def unlock_h_def del: push_bit_of_1)
    with ok False cl show ?thesis by (simp add: release_effect_def)
  next
    case True
    let ?r = "hb_answer be (BE_release p (int n))"
    let ?dh = "if ?r = 0 then dh\<lparr>dh_claimed_interfaces := dh_claimed_interfaces dh AND scast (NOT ?b)\<rparr> else dh"
    let ?l = "(put_h p ?dh l)\<lparr>lc_calls := lc_calls l @ [BE_release p (int n)]\<rparr>"
    have "libusb_release_interface be p (int n) l = Some (?r, ?l)"
      using n bits test True dh(1,2) lock
      by (auto simp: libusb_release_interface_def unlock_h_def backend_call_def simp del: push_bit_of_1)
    moreover have "handle_ok p ?l" using dh by (simp add: handle_ok_def mask_and)
    moreover have "claimed p ?l = (if ?r = 0 then claimed p l - {n} else claimed p l)"
    proof -
      have "get_h p ?l = Some ?dh" by simp
      from claimed_eq [OF this] claimed_eq [OF dh(1)] claimed_bits(2) [OF n, of v] show ?thesis
        by (simp add: dh(3) mask_and del: push_bit_of_1)
    qed
    ultimately show ?thesis using True cl by (auto simp: release_effect_def)
  qed
qed


definition lib_data :: lib_ctx where
  "lib_data = \<lparr>lc_core = hub_and_device\<lparr>co_devs := (co_devs hub_and_device)(1 \<mapsto> (new_device 257)\<lparr>dv_refcnt := 2,
       dv_parent_dev := Some 0, dv_port_number := 3, dv_attached := True\<rparr>)\<rparr>,
     lc_io = \<lparr>ic_heap = empty_heap, ic_xfers = Map.empty, ic_flying = [], ic_flying_lock = False,
       ic_timerfd = -1, ic_timer = None, ic_refs = (\<lambda>_. 0)\<rparr>,
     lc_handles = Map.empty, lc_open_devs = [], lc_open_devs_lock = False, lc_calls = []\<rparr>"

definition yes_backend :: handle_backend where
  "yes_backend = \<lparr>be_caps = 0x00030000, be_get_device_list = None, be_mutex_init = 0, hb_answer = (\<lambda>_. 0),
     hb_has_detach = True, hb_has_attach = True, hb_has_streams = True, hb_get_configuration = None,
     hb_kernel_driver_active = None, hb_dev_mem_alloc = None, hb_dev_mem_free = None\<rparr>"

definition lib_open :: lib_ctx where
  "lib_open = put_h 7 (new_handle 1) lib_data"

lemma lib_open_handle: "handle_ok 7 lib_open" "attached 7 lib_open = Some True"
  by (simp_all add: handle_ok_def lib_open_def new_handle_def mask_ok_def attached_def lib_data_def get_dev_def)

text \<open>C21. The 64-bit mask implements a set of interfaces, for all numbers below 32: claiming an interface inserts it
  when the backend agrees, claiming it again returns 0 and asks nobody, releasing it removes it, and
  releasing one that is not claimed returns LIBUSB_ERROR_NOT_FOUND and asks nobody; no other interface is
  affected, interface 31 with its sign extension included. Numbers from 32 on are refused.\<close>

theorem claims_refine_set:
  assumes "handle_ok p l" and "attached p l = Some True"
  shows "(if n < 32
    then (\<exists>r l'. libusb_claim_interface be p (int n) l = Some (r, l') \<and> handle_ok p l' \<and> claim_effect be p n l r l') \<and>
         (\<exists>r l'. libusb_release_interface be p (int n) l = Some (r, l') \<and> handle_ok p l' \<and> release_effect be p n l r l')
    else libusb_claim_interface be p (int n) l = Some (LIBUSB_ERROR_INVALID_PARAM, l) \<and>
         libusb_release_interface be p (int n) l = Some (LIBUSB_ERROR_INVALID_PARAM, l))"
proof (cases "n < 32")
  case True
  with claim_spec [OF assms] release_spec [OF assms(1)] show ?thesis by simp
next
  case False
  then show ?thesis by (simp add: libusb_claim_interface_def libusb_release_interface_def)
qed

theorem claims_refine_set_witness:
  "(\<exists>r l'. libusb_claim_interface yes_backend 7 (int 31) lib_open = Some (r, l') \<and> handle_ok 7 l' \<and>
     claim_effect yes_backend 7 31 lib_open r l') \<and>
   (\<exists>r l'. libusb_release_interface yes_backend 7 (int 31) lib_open = Some (r, l') \<and> handle_ok 7 l' \<and>
     release_effect yes_backend 7 31 lib_open r l')"
  using claims_refine_set [OF lib_open_handle, of 31 yes_backend] by simp

text \<open>Negative interface numbers are not refused: \<open>interface_number >= USB_MAXINTERFACES\<close> is false for -1, so
  the functions shift by a negative number, which is undefined.\<close>

theorem negative_interface_undefined:
  "libusb_claim_interface yes_backend 7 (-1) lib_open = None \<and>
   libusb_release_interface yes_backend 7 (-1) lib_open = None"
  by code_simp

subsection \<open>Opening\<close>

lemma has_hotplug_core [simp]: "has_hotplug (core_of be) \<longleftrightarrow> be_get_device_list be = None"
  by (simp add: has_hotplug_iff core_of_def)

text \<open>What a call leaves of the context: handles, open devices and transfers as they were.\<close>

definition same_handles :: "lib_ctx \<Rightarrow> lib_ctx \<Rightarrow> bool" where
  "same_handles l l' \<longleftrightarrow> lc_handles l' = lc_handles l \<and> lc_open_devs l' = lc_open_devs l \<and>
     lc_open_devs_lock l' = lc_open_devs_lock l \<and> lc_io l' = lc_io l"

definition open_effect :: "handle_backend \<Rightarrow> ptr multiset \<Rightarrow> ptr \<Rightarrow> lib_ctx \<Rightarrow> int \<Rightarrow> ptr option \<Rightarrow> lib_ctx \<Rightarrow> bool" where
  "open_effect be ext dev l r res l' \<longleftrightarrow>
     (case res of
        None \<Rightarrow> r < 0 \<and> same_handles l l' \<and> restored (core_of be) ext (lc_core l) (lc_core l')
      | Some p \<Rightarrow> r = 0 \<and> p \<notin> hp_live (lc_heap l) \<and> hp_live (lc_heap l') = insert p (hp_live (lc_heap l)) \<and>
          refs_ok (core_of be) {} (add_mset dev ext) (lc_core l') \<and> same_devs (lc_core l) (lc_core l') \<and>
          get_h p l' = Some (new_handle dev) \<and> lc_open_devs l' = p # lc_open_devs l \<and>
          lc_open_devs_lock l' = lc_open_devs_lock l \<and> lc_io l' = lc_io l)"

lemma open_spec:
  assumes ok: "refs_ok (core_of be) {} ext (lc_core l)" and dv: "get_dev dev (lc_core l) = Some dv"
    and lk: "\<not> lc_open_devs_lock l" and fresh: "dom (lc_handles l) \<subseteq> hp_live (lc_heap l)"
  shows "\<exists>r res l'. libusb_open be dev l = Some (r, res, l') \<and> open_effect be ext dev l r res l'"
proof (cases "dv_attached dv")
  case False
  with ok dv show ?thesis by (simp add: libusb_open_def open_effect_def same_handles_def restored_def)
next
  case att: True
  note hp = refs_ok_heap [OF ok]
  obtain q h where m: "c_malloc (lc_heap l) = (q, h)" by fastforce
  show ?thesis
  proof (cases q)
    case None
    with m ledger.alloc_None [of "lc_heap l" h] hp have "hp_live h = hp_live (lc_heap l)" "heap_wf h" by auto
    with refs_ok_set_heap [OF ok] hp att dv m None show ?thesis
      by (simp add: libusb_open_def open_effect_def same_handles_def restored_def set_lheap_def)
  next
    case (Some p)
    with m ledger.alloc_Some [of "lc_heap l" p h] hp have
      h: "p \<notin> hp_live (lc_heap l)" "hp_live h = insert p (hp_live (lc_heap l))" "heap_wf h" by auto
    have hp_p: "p \<in> hp_live h" using h by simp
    have okh: "refs_ok (core_of be) {} ext (set_heap h (lc_core l))"
      by (rule refs_ok_set_heap [OF ok h(3)]) (use hp h in auto)
    have unh: "(lc_handles l)(p := None) = lc_handles l" using fresh h(1) by (cases "lc_handles l p") (auto simp: fun_upd_idem)
    show ?thesis
    proof (cases "be_mutex_init be = 0")
      case False
      obtain h1 where h1: "c_release p h = Some h1" "hp_live h1 = hp_live (lc_heap l)" "heap_wf h1"
        using ledger.release_live [OF h(3) hp_p] h(1,2) by auto
      with refs_ok_set_heap [OF ok h1(3)] hp att dv m Some False show ?thesis
        by (simp add: libusb_open_def open_effect_def same_handles_def restored_def set_lheap_def)
    next
      case mutex: True
      have dd: "dev \<in> dom (co_devs (set_heap h (lc_core l)))" using dv by (auto simp: get_dev_def)
      obtain c1 where c1: "libusb_ref_device dev (set_heap h (lc_core l)) = Some c1"
        "refs_ok (core_of be) {} (add_mset dev ext) c1" "same_devs (set_heap h (lc_core l)) c1" "co_heap c1 = h"
        using ref_keeps [OF okh dd] by auto
      have s1: "same_devs (lc_core l) c1" using same_devs_trans [OF same_devs_set_heap c1(3)] .
      show ?thesis
      proof (cases "hb_answer be (BE_open p) < 0")
        case False
        let ?l = "(put_h p (new_handle dev) l)\<lparr>lc_core := c1, lc_open_devs := p # lc_open_devs l,
          lc_calls := lc_calls l @ [BE_open p]\<rparr>"
        have "libusb_open be dev l = Some (0, Some p, ?l)"
          using att dv m Some mutex c1(1) False lk
          by (cases l) (simp add: libusb_open_def on_core_def set_lheap_def backend_call_def put_h_def
              lock_open_devs_def unlock_open_devs_def)
        moreover have "open_effect be ext dev l 0 (Some p) ?l"
          using h c1(2,4) s1 by (simp add: open_effect_def get_h_def put_h_def)
        ultimately show ?thesis by blast
      next
        case True
        have pos: "0 < ref_count (core_of be) {} ext c1 dev"
          using refs_ok_pos [OF okh dd] same_devs_ref_count [OF c1(3)] by simp
        obtain c2 where c2: "libusb_unref_device (core_of be) (Some dev) c1 = Some c2"
          "refs_ok (core_of be) {} ext c2" "same_devs c1 c2" "co_heap c2 = h"
          using unref_keeps [OF c1(2) pos] c1(4) by auto
        obtain h2 where h2: "c_release p h = Some h2" "hp_live h2 = hp_live (lc_heap l)" "heap_wf h2"
          using ledger.release_live [OF h(3) hp_p] h(1,2) by auto
        have s2: "same_devs (lc_core l) (set_heap h2 c2)"
          using same_devs_trans [OF same_devs_trans [OF s1 c2(3)] same_devs_set_heap] .
        have "refs_ok (core_of be) {} ext (set_heap h2 c2)"
          by (rule refs_ok_set_heap [OF c2(2) h2(3)])
            (use hp h2(2) same_devs_dom [OF same_devs_trans [OF s1 c2(3)]] in simp)
        moreover have "libusb_open be dev l = Some (hb_answer be (BE_open p), None,
            l\<lparr>lc_core := set_heap h2 c2, lc_calls := lc_calls l @ [BE_open p]\<rparr>)"
          using att dv m Some mutex c1(1) True c2(1,4) h2(1) unh
          by (cases l) (simp add: libusb_open_def on_core_def set_lheap_def backend_call_def put_h_def)
        ultimately show ?thesis using True s2 h2(2)
          by (auto simp: open_effect_def same_handles_def restored_def)
      qed
    qed
  qed
qed



lemma lib_data_refs: "refs_ok (core_of yes_backend) {} {#1#} (lc_core lib_data)"
proof -
  have d: "lc_core lib_data = put_dev 1 ((new_device 257)\<lparr>dv_refcnt := 2, dv_parent_dev := Some 0,
      dv_port_number := 3, dv_attached := True\<rparr>) hub_and_device"
    by (simp add: lib_data_def put_dev_def)
  have be: "core_of yes_backend = linux_backend" by (simp add: core_of_def yes_backend_def linux_backend_def)
  have g: "get_dev 1 hub_and_device = Some ((new_device 257)\<lparr>dv_refcnt := 2, dv_parent_dev := Some 0, dv_port_number := 3\<rparr>)"
    by (simp add: hub_get)
  note r = refs_okD [OF hub_refs_ok g]
  show ?thesis unfolding d be
    by (rule refs_ok_put [OF hub_refs_ok g]) (use r in \<open>simp_all add: new_device_def\<close>)
qed


subsection \<open>Closing\<close>

lemma get_x_put_handle: "get_x t (put_x t x c) = Some x"
  by (simp add: get_x_def put_x_def)

definition of_dh :: "io_ctx \<Rightarrow> ptr \<Rightarrow> ptr \<Rightarrow> bool" where
  "of_dh c dh t \<longleftrightarrow> (case get_x t c of Some x \<Rightarrow> tr_dev_handle x = Suc dh | None \<Rightarrow> False)"

text \<open>The transfers of the handle leave the list, in their order; the others stay, in theirs.\<close>

lemma close_transfers_spec:
  "distinct (ic_flying c) \<Longrightarrow> distinct ts \<Longrightarrow> set ts \<subseteq> set (ic_flying c) \<Longrightarrow>
    \<forall>t \<in> set ts. \<exists>x. get_x t c = Some x \<and> \<not> it_lock x \<Longrightarrow>
    \<exists>c'. close_transfers dh ts c = Some c' \<and> ic_flying c' = filter (\<lambda>t. \<not> (t \<in> set ts \<and> of_dh c dh t)) (ic_flying c) \<and>
      ic_flying_lock c' = ic_flying_lock c \<and> ic_heap c' = ic_heap c \<and>
      (\<forall>t. get_x t c' = (if t \<in> set ts \<and> of_dh c dh t
         then map_option (\<lambda>x. x\<lparr>tr_dev_handle := 0\<rparr>) (get_x t c) else get_x t c))"
proof (induction ts arbitrary: c)
  case Nil
  then show ?case by simp
next
  case (Cons t ts)
  from Cons.prems(4) obtain x where x: "get_x t c = Some x" "\<not> it_lock x" by auto
  show ?case
  proof (cases "tr_dev_handle x = Suc dh")
    case False
    then have n: "\<not> of_dh c dh t" using x by (simp add: of_dh_def)
    from Cons.IH [of c] Cons.prems obtain c' where c': "close_transfers dh ts c = Some c'"
      "ic_flying c' = filter (\<lambda>t. \<not> (t \<in> set ts \<and> of_dh c dh t)) (ic_flying c)"
      "ic_flying_lock c' = ic_flying_lock c" "ic_heap c' = ic_heap c"
      "\<forall>t. get_x t c' = (if t \<in> set ts \<and> of_dh c dh t
         then map_option (\<lambda>x. x\<lparr>tr_dev_handle := 0\<rparr>) (get_x t c) else get_x t c)" by auto
    have "filter (\<lambda>u. \<not> (u \<in> set (t # ts) \<and> of_dh c dh u)) (ic_flying c) =
        filter (\<lambda>u. \<not> (u \<in> set ts \<and> of_dh c dh u)) (ic_flying c)"
      using n by (intro filter_cong) auto
    with c' n False x show ?thesis by auto
  next
    case True
    define c1 where "c1 = (put_x t (x\<lparr>tr_dev_handle := 0\<rparr>) c)\<lparr>ic_flying := remove1 t (ic_flying c)\<rparr>"
    have step: "close_transfers dh (t # ts) c = close_transfers dh ts c1"
    proof -
      have "put_x t (x\<lparr>it_lock := False\<rparr>) c = c" using x by (simp add: put_get)
      then show ?thesis using x True Cons.prems(3)
        by (simp add: lock_x_def unlock_x_def flying_del_def put_swap c1_def)
    qed
    have g: "get_x u c1 = (if u = t then Some (x\<lparr>tr_dev_handle := 0\<rparr>) else get_x u c)" for u by (simp add: c1_def)
    have o: "of_dh c1 dh u = (u \<noteq> t \<and> of_dh c dh u)" for u using x by (simp add: of_dh_def g)
    have fl: "ic_flying c1 = remove1 t (ic_flying c)" by (simp add: c1_def)
    have d: "distinct (ic_flying c1)" "set ts \<subseteq> set (ic_flying c1)" "t \<notin> set ts" "distinct ts"
      using Cons.prems(1-3) by (auto simp: fl)
    have l: "\<forall>u \<in> set ts. \<exists>y. get_x u c1 = Some y \<and> \<not> it_lock y" using Cons.prems(4) d(3) by (auto simp: g)
    from Cons.IH [OF d(1,4,2) l] obtain c' where c': "close_transfers dh ts c1 = Some c'"
      "ic_flying c' = filter (\<lambda>u. \<not> (u \<in> set ts \<and> of_dh c1 dh u)) (ic_flying c1)"
      "ic_flying_lock c' = ic_flying_lock c1" "ic_heap c' = ic_heap c1"
      "\<forall>u. get_x u c' = (if u \<in> set ts \<and> of_dh c1 dh u
         then map_option (\<lambda>x. x\<lparr>tr_dev_handle := 0\<rparr>) (get_x u c1) else get_x u c1)" by blast
    have ot: "of_dh c dh t" using x True by (simp add: of_dh_def)
    have "ic_flying c' = filter (\<lambda>u. \<not> (u \<in> set (t # ts) \<and> of_dh c dh u)) (ic_flying c)"
      unfolding c'(2) fl distinct_remove1_removeAll [OF Cons.prems(1)] o
      using ot by (simp add: removeAll_filter_not_eq) (intro filter_cong, auto)
    moreover have "\<forall>u. get_x u c' = (if u \<in> set (t # ts) \<and> of_dh c dh u
         then map_option (\<lambda>x. x\<lparr>tr_dev_handle := 0\<rparr>) (get_x u c) else get_x u c)"
      using c'(5) ot x d(3) by (auto simp: g o)
    ultimately show ?thesis using c'(1,3,4) step by (auto simp: c1_def)
  qed
qed


lemma refs_ok_ev:
  assumes "ed_heap d = co_heap c"
  shows "refs_ok be Z ext (c\<lparr>co_ev := d\<rparr>) = refs_ok be Z ext c"
proof -
  have "ref_count be Z ext (c\<lparr>co_ev := d\<rparr>) p = ref_count be Z ext c p" for p
    by (simp add: ref_count_def listed_def children_def parent_of_def get_dev_def)
  with assms show ?thesis by (simp add: refs_ok_def store_ok_def get_dev_def parent_of_def)
qed

text \<open>The two critical sections around a close, with the events lock in between.\<close>

lemma close_sections:
  assumes "awake d Idle" and "locks_ok d Idle" and "ed_device_close d + 1 \<noteq> 0"
  obtains d1 d2 where "close_begin d = Some d1" and "libusb_lock_events d1 = Some d2" and "ed_heap d2 = ed_heap d"
    and "\<And>h. \<exists>d3 d4. close_end (d2\<lparr>ed_heap := h\<rparr>) = Some d3 \<and> libusb_unlock_events d3 = Some d4 \<and>
      awake d4 Idle \<and> locks_ok d4 Idle \<and> ed_heap d4 = h \<and> ed_device_close d4 = ed_device_close d"
proof -
  let ?f = "\<lambda>d. d\<lparr>ed_device_close := ed_device_close d + 1\<rparr>"
  from assms(2) have l: "\<not> ed_lock d" "\<not> ed_events_lock d" "\<not> ed_waiters_lock d" by (simp_all add: locks_ok_def)
  let ?d1 = "(?f d)\<lparr>ed_pipe := signalled d\<rparr>"
  have b: "close_begin d = Some ?d1"
    using l(1) section_eq [of d ?f] by (simp add: close_begin_def lock_event_data_def Let_def)
  have aw: "awake ?d1 Idle"
    by (rule awake_adds_event [OF assms(1) close_begin_adds [OF b]]) simp
  let ?d2 = "?d1\<lparr>ed_events_lock := True, ed_handler_active := True\<rparr>"
  have lk: "libusb_lock_events ?d1 = Some ?d2" using l(2) by (simp add: libusb_lock_events_def)
  have "\<exists>d3 d4. close_end (?d2\<lparr>ed_heap := h\<rparr>) = Some d3 \<and> libusb_unlock_events d3 = Some d4 \<and>
      awake d4 Idle \<and> locks_ok d4 Idle \<and> ed_heap d4 = h \<and> ed_device_close d4 = ed_device_close d" for h
  proof -
    let ?d = "?d2\<lparr>ed_heap := h\<rparr>"
    have a: "awake ?d Closing" "\<not> ed_lock ?d" "ed_device_close ?d \<noteq> 0"
      using aw l(1) assms(3) by (simp_all add: awake_def usbi_pending_events_def)
    from close_end_eq [OF a] obtain n where n:
      "close_end ?d = Some (?d\<lparr>ed_device_close := ed_device_close ?d - 1, ed_pipe := n\<rparr>)"
      "usbi_pending_events (?d\<lparr>ed_device_close := ed_device_close ?d - 1\<rparr>) \<longrightarrow> 0 < n" by blast
    let ?d3 = "?d\<lparr>ed_device_close := ed_device_close ?d - 1, ed_pipe := n\<rparr>"
    have u: "libusb_unlock_events ?d3 = Some (?d3\<lparr>ed_handler_active := False, ed_events_lock := False\<rparr>)"
      by (rule unlock_events_eq) (use l in simp_all)
    have cap: "0 < ed_pipe_cap d" using assms(1) by (simp add: awake_def)
    have "awake (?d3\<lparr>ed_handler_active := False, ed_events_lock := False\<rparr>) Idle"
      using n(2) cap by (simp add: awake_def usbi_pending_events_def)
    moreover have "locks_ok (?d3\<lparr>ed_handler_active := False, ed_events_lock := False\<rparr>) Idle"
      using l by (simp add: locks_ok_def)
    ultimately show ?thesis using n(1) u by simp
  qed
  with b lk that show ?thesis by simp
qed

definition close_effect :: "handle_backend \<Rightarrow> ptr multiset \<Rightarrow> ptr \<Rightarrow> lib_ctx \<Rightarrow> lib_ctx \<Rightarrow> bool" where
  "close_effect be ext p l l' \<longleftrightarrow> refs_ok (core_of be) {} ext (lc_core l') \<and> get_h p l' = None \<and>
     lc_open_devs l' = remove1 p (lc_open_devs l) \<and> \<not> lc_open_devs_lock l' \<and> lc_calls l' = lc_calls l @ [BE_close p] \<and>
     ic_flying (lc_io l') = filter (\<lambda>t. \<not> of_dh (lc_io l) p t) (ic_flying (lc_io l)) \<and> \<not> ic_flying_lock (lc_io l') \<and>
     hp_live (lc_heap l') = hp_live (lc_heap l) - {p} - (dom (co_devs (lc_core l)) - dom (co_devs (lc_core l')))"

text \<open>An open handle: its device's reference is counted, its block is live and no device.\<close>

definition handle_open :: "handle_backend \<Rightarrow> ptr multiset \<Rightarrow> ptr \<Rightarrow> lib_ctx \<Rightarrow> bool" where
  "handle_open be ext p l \<longleftrightarrow> (\<exists>dh. get_h p l = Some dh \<and> refs_ok (core_of be) {} (add_mset (dh_dev dh) ext) (lc_core l)) \<and>
     p \<in> set (lc_open_devs l) \<and> p \<in> hp_live (lc_heap l) \<and> p \<notin> dom (co_devs (lc_core l)) \<and>
     \<not> lc_open_devs_lock l \<and> io_wf (lc_io l)"

lemma handle_openE:
  assumes "handle_open be ext p l"
  obtains dh where "get_h p l = Some dh" and "refs_ok (core_of be) {} (add_mset (dh_dev dh) ext) (lc_core l)"
    and "p \<in> set (lc_open_devs l)" and "p \<in> hp_live (lc_heap l)" and "p \<notin> dom (co_devs (lc_core l))"
    and "\<not> lc_open_devs_lock l" and "io_wf (lc_io l)"
  using assms by (auto simp: handle_open_def)

lemma do_close_spec:
  assumes "handle_open be ext p l"
  obtains l' h where "do_close be p l = Some l'" and "close_effect be ext p l l'"
    and "co_ev (lc_core l') = (co_ev (lc_core l))\<lparr>ed_heap := h\<rparr>"
  using assms
proof (rule handle_openE)
  fix dh assume dh: "get_h p l = Some dh" "refs_ok (core_of be) {} (add_mset (dh_dev dh) ext) (lc_core l)"
    "p \<in> set (lc_open_devs l)" "p \<in> hp_live (lc_heap l)" "p \<notin> dom (co_devs (lc_core l))"
    "\<not> lc_open_devs_lock l" "io_wf (lc_io l)"
  let ?io = "(lc_io l)\<lparr>ic_flying_lock := True\<rparr>"
  have fl: "\<not> ic_flying_lock (lc_io l)" "distinct (ic_flying (lc_io l))"
    "\<forall>t \<in> set (ic_flying (lc_io l)). \<exists>x. get_x t (lc_io l) = Some x \<and> \<not> it_lock x"
    using dh(7) by (auto simp: io_wf_def quiescent_def flying_wf_def in_flight_def split: option.splits)
  from close_transfers_spec [of ?io "ic_flying ?io" p] fl obtain c2 where
    c2: "close_transfers p (ic_flying (lc_io l)) ?io = Some c2"
      "ic_flying c2 = filter (\<lambda>t. \<not> (t \<in> set (ic_flying (lc_io l)) \<and> of_dh ?io p t)) (ic_flying (lc_io l))"
      "ic_flying_lock c2" by auto
  have fl2: "ic_flying c2 = filter (\<lambda>t. \<not> of_dh (lc_io l) p t) (ic_flying (lc_io l))"
    unfolding c2(2) by (intro filter_cong) (auto simp: of_dh_def)
  from dh(2) have "refs_ok (core_of be) {} (opt_mset (Some (dh_dev dh)) + ext) (lc_core l)" by simp
  from unref_ok [OF this] obtain c' where c': "libusb_unref_device (core_of be) (Some (dh_dev dh)) (lc_core l) = Some c'"
    "refs_ok (core_of be) {} ext c'" "unref_frame (core_of be) {} (lc_core l) c'" by blast
  have sub: "dom (co_devs c') \<subseteq> dom (co_devs (lc_core l))"
    and live: "hp_live (co_heap c') = hp_live (lc_heap l) - (dom (co_devs (lc_core l)) - dom (co_devs c'))"
    using c'(3) unfolding unref_frame_def by blast+
  obtain g where ev: "co_ev c' = (co_ev (lc_core l))\<lparr>ed_heap := g\<rparr>" using c'(3) unfolding unref_frame_def by blast
  have wf: "heap_wf (co_heap c')" using refs_ok_heap [OF c'(2)] by blast
  have "p \<in> hp_live (co_heap c')" using live dh(4,5) by simp
  then obtain h where h: "c_release p (co_heap c') = Some h" "hp_live h = hp_live (co_heap c') - {p}" "heap_wf h"
    using ledger.release_live [OF wf] by blast
  have ok': "refs_ok (core_of be) {} ext (set_heap h c')"
    by (rule refs_ok_set_heap [OF c'(2) h(3)]) (use refs_ok_heap [OF c'(2)] h(2) sub dh(5) in auto)
  let ?l = "l\<lparr>lc_io := c2\<lparr>ic_flying_lock := False\<rparr>, lc_open_devs := remove1 p (lc_open_devs l),
     lc_calls := lc_calls l @ [BE_close p], lc_core := set_heap h c', lc_handles := (lc_handles l)(p := None)\<rparr>"
  have "do_close be p l = Some ?l"
    using fl(1) c2(1,3) dh(1,3,6) c'(1) h(1)
    by (cases l) (simp add: do_close_def lock_flying_def unlock_flying_def lock_open_devs_def unlock_open_devs_def
        backend_call_def get_h_def on_core_def set_lheap_def)
  moreover have "close_effect be ext p l ?l"
    using ok' fl2 h(2) live dh(6) by (auto simp: close_effect_def get_h_def)
  moreover have "co_ev (lc_core ?l) = (co_ev (lc_core l))\<lparr>ed_heap := h\<rparr>" using ev by simp
  ultimately show thesis by (rule that)
qed



definition lib_closing :: lib_ctx where
  "lib_closing = set_lheap (empty_heap\<lparr>hp_next := 8, hp_live := {0, 1, 7}\<rparr>) (lib_open\<lparr>lc_open_devs := [7]\<rparr>)"

lemma lib_closing_open: "handle_open yes_backend {#} 7 lib_closing"
proof -
  have core: "lc_core lib_closing = set_heap (empty_heap\<lparr>hp_next := 8, hp_live := {0, 1, 7}\<rparr>) (lc_core lib_data)"
    by (simp add: lib_closing_def set_lheap_def lib_open_def)
  have dom: "dom (co_devs (lc_core lib_data)) = {0, 1}" by (auto simp: lib_data_def hub_and_device_def)
  have "refs_ok (core_of yes_backend) {} {#1#} (lc_core lib_closing)"
    unfolding core by (rule refs_ok_set_heap [OF lib_data_refs]) (auto simp: dom heap_wf_def empty_heap_def)
  moreover have "get_h 7 lib_closing = Some (new_handle 1)"
    by (simp add: lib_closing_def set_lheap_def lib_open_def get_h_def put_h_def)
  moreover have "io_wf (lc_io lib_closing)"
    by (simp add: lib_closing_def set_lheap_def lib_open_def lib_data_def put_h_def io_wf_def quiescent_def flying_wf_def
        in_flight_def get_x_def tv_sorted_def)
  moreover have "lc_open_devs lib_closing = [7]" "\<not> lc_open_devs_lock lib_closing"
    by (simp_all add: lib_closing_def set_lheap_def lib_open_def lib_data_def put_h_def)
  moreover have "lc_heap lib_closing = empty_heap\<lparr>hp_next := 8, hp_live := {0, 1, 7}\<rparr>" by (simp add: core)
  moreover have "dom (co_devs (lc_core lib_closing)) = {0, 1}" by (simp add: core dom)
  ultimately show ?thesis by (simp add: handle_open_def new_handle_def)
qed

lemma lib_closing_events:
  "awake (co_ev (lc_core lib_closing)) Idle" "locks_ok (co_ev (lc_core lib_closing)) Idle"
  "ed_device_close (co_ev (lc_core lib_closing)) + 1 \<noteq> 0" "\<not> ed_handling (co_ev (lc_core lib_closing))"
  by (simp_all add: lib_closing_def set_lheap_def lib_open_def lib_data_def hub_and_device_def event_data0_def
      awake_def locks_ok_def usbi_pending_events_def)


end
