(* ===== verification/Linux_Urbs.thy ===== *)
theory Linux_Urbs
  imports Transfers "HOL-Library.Signed_Division"
begin

text \<open>
  The transfers of the Linux backend (os/linux_usbfs.c): how a transfer is cut into URBs, how the URBs are
  submitted, discarded and reaped, and how their completions become the completion of the transfer.

  The kernel is a parameter. The answer to a SUBMITURB or DISCARDURB is an \<open>errno\<close> (0 for success) that may depend on all
  the calls made so far, which are logged in \<open>uc_calls\<close>. What REAPURBNDELAY gives is a \<open>reap_event\<close>: the
  address of an URB and what the kernel writes into the URB and into the user's buffer. An URB is addressed by its
  block and its index in it; an address in a block that is not live is a fault. A position in the buffer of
  a transfer is an offset.
\<close>

subsection \<open>usbfs\<close>

abbreviation ENOENT :: "'a :: numeral" where "ENOENT \<equiv> 2"
abbreviation EAGAIN :: "'a :: numeral" where "EAGAIN \<equiv> 11"
abbreviation EXDEV :: "'a :: numeral" where "EXDEV \<equiv> 18"
abbreviation ENODEV :: "'a :: numeral" where "ENODEV \<equiv> 19"
abbreviation EINVAL :: "'a :: numeral" where "EINVAL \<equiv> 22"
abbreviation EPIPE :: "'a :: numeral" where "EPIPE \<equiv> 32"
abbreviation ETIME :: "'a :: numeral" where "ETIME \<equiv> 62"
abbreviation ENOSR :: "'a :: numeral" where "ENOSR \<equiv> 63"
abbreviation ECOMM :: "'a :: numeral" where "ECOMM \<equiv> 70"
abbreviation EPROTO :: "'a :: numeral" where "EPROTO \<equiv> 71"
abbreviation EOVERFLOW :: "'a :: numeral" where "EOVERFLOW \<equiv> 75"
abbreviation EILSEQ :: "'a :: numeral" where "EILSEQ \<equiv> 84"
abbreviation ECONNRESET :: "'a :: numeral" where "ECONNRESET \<equiv> 104"
abbreviation ESHUTDOWN :: "'a :: numeral" where "ESHUTDOWN \<equiv> 108"
abbreviation EREMOTEIO :: "'a :: numeral" where "EREMOTEIO \<equiv> 121"

datatype usbfs_urb_type = USBFS_URB_TYPE_ISO | USBFS_URB_TYPE_INTERRUPT | USBFS_URB_TYPE_CONTROL | USBFS_URB_TYPE_BULK

abbreviation USBFS_URB_SHORT_NOT_OK :: u32 where "USBFS_URB_SHORT_NOT_OK \<equiv> 0x01"
abbreviation USBFS_URB_ISO_ASAP :: u32 where "USBFS_URB_ISO_ASAP \<equiv> 0x02"
abbreviation USBFS_URB_BULK_CONTINUATION :: u32 where "USBFS_URB_BULK_CONTINUATION \<equiv> 0x04"
abbreviation USBFS_URB_ZERO_PACKET :: u32 where "USBFS_URB_ZERO_PACKET \<equiv> 0x40"

abbreviation USBFS_CAP_ZERO_PACKET :: u32 where "USBFS_CAP_ZERO_PACKET \<equiv> 0x01"
abbreviation USBFS_CAP_BULK_CONTINUATION :: u32 where "USBFS_CAP_BULK_CONTINUATION \<equiv> 0x02"
abbreviation USBFS_CAP_NO_PACKET_SIZE_LIM :: u32 where "USBFS_CAP_NO_PACKET_SIZE_LIM \<equiv> 0x04"
abbreviation USBFS_CAP_BULK_SCATTER_GATHER :: u32 where "USBFS_CAP_BULK_SCATTER_GATHER \<equiv> 0x08"
abbreviation USBFS_CAP_REAP_AFTER_DISCONNECT :: u32 where "USBFS_CAP_REAP_AFTER_DISCONNECT \<equiv> 0x10"

abbreviation MAX_ISO_BUFFER_LENGTH :: int where "MAX_ISO_BUFFER_LENGTH \<equiv> 49152 * 128"
abbreviation MAX_BULK_BUFFER_LENGTH :: int where "MAX_BULK_BUFFER_LENGTH \<equiv> 16384"
abbreviation MAX_CTRL_BUFFER_LENGTH :: int where "MAX_CTRL_BUFFER_LENGTH \<equiv> 4096"

record usbfs_iso_packet_desc =
  fd_length :: u32
  fd_actual_length :: u32
  fd_status :: u32

record usbfs_urb =
  ub_type :: usbfs_urb_type
  ub_endpoint :: u8
  ub_status :: int
  ub_flags :: u32
  ub_buffer :: int
  ub_buffer_length :: int
  ub_actual_length :: int
  ub_number_of_packets :: int
  ub_stream_id :: u32
  ub_usercontext :: ptr
  ub_iso_frame_desc :: "usbfs_iso_packet_desc list"

text \<open>What \<open>calloc\<close> leaves in an URB, with its \<open>usercontext\<close>.\<close>

definition zero_urb :: "ptr \<Rightarrow> usbfs_urb" where
  "zero_urb t = \<lparr>ub_type = USBFS_URB_TYPE_ISO, ub_endpoint = 0, ub_status = 0, ub_flags = 0, ub_buffer = 0,
     ub_buffer_length = 0, ub_actual_length = 0, ub_number_of_packets = 0, ub_stream_id = 0, ub_usercontext = t,
     ub_iso_frame_desc = []\<rparr>"

record libusb_iso_packet_descriptor =
  ip_length :: u32
  ip_actual_length :: u32
  ip_status :: libusb_transfer_status

datatype reap_action = NORMAL | SUBMIT_FAILED | CANCELLED | COMPLETED_EARLY | ERROR

text \<open>The union of \<open>urbs\<close> and \<open>iso_urbs\<close>: NULL, an array of URBs, or an array of pointers to URBs.\<close>

datatype urbs_union = No_urbs | Urbs ptr | Iso_urbs ptr

record linux_transfer_priv =
  tp_urbs :: urbs_union
  tp_reap_action :: reap_action
  tp_num_urbs :: int
  tp_num_retired :: int
  tp_reap_status :: libusb_transfer_status
  tp_iso_packet_offset :: int

datatype ioctl = SUBMITURB ptr nat | DISCARDURB ptr nat

type_synonym usbfs = "ioctl list \<Rightarrow> ioctl \<Rightarrow> int"

text \<open>
  The transfers with what the backend keeps of them: their private data, the arrays of URBs, the users' buffers
  and packet descriptors, and the capabilities of the open handles.
\<close>

record urb_ctx =
  uc_io :: io_ctx
  uc_priv :: "ptr \<Rightarrow> linux_transfer_priv"
  uc_urbs :: "ptr \<Rightarrow> usbfs_urb list option"
  uc_arrays :: "ptr \<Rightarrow> ptr option list option"
  uc_buffer :: "ptr \<Rightarrow> u8 list"
  uc_iso_desc :: "ptr \<Rightarrow> libusb_iso_packet_descriptor list"
  uc_num_iso_packets :: "ptr \<Rightarrow> int"
  uc_caps :: "nat \<Rightarrow> u32"
  uc_calls :: "ioctl list"

definition usb_ioctl :: "usbfs \<Rightarrow> ioctl \<Rightarrow> urb_ctx \<Rightarrow> int \<times> urb_ctx" where
  "usb_ioctl k req u = (k (uc_calls u) req, u\<lparr>uc_calls := uc_calls u @ [req]\<rparr>)"

subsection \<open>Access\<close>

definition on_io :: "(io_ctx \<Rightarrow> io_ctx option) \<Rightarrow> urb_ctx \<Rightarrow> urb_ctx option" where
  "on_io f u = do { c \<leftarrow> f (uc_io u); Some (u\<lparr>uc_io := c\<rparr>) }"

definition set_uheap :: "heap \<Rightarrow> urb_ctx \<Rightarrow> urb_ctx" where
  "set_uheap h u = u\<lparr>uc_io := (uc_io u)\<lparr>ic_heap := h\<rparr>\<rparr>"

definition set_priv :: "ptr \<Rightarrow> linux_transfer_priv \<Rightarrow> urb_ctx \<Rightarrow> urb_ctx" where
  "set_priv t tp u = u\<lparr>uc_priv := (uc_priv u)(t := tp)\<rparr>"

definition get_urb :: "ptr \<Rightarrow> nat \<Rightarrow> urb_ctx \<Rightarrow> usbfs_urb option" where
  "get_urb p i u = do { us \<leftarrow> uc_urbs u p; rd us i }"

definition put_urb :: "ptr \<Rightarrow> nat \<Rightarrow> usbfs_urb \<Rightarrow> urb_ctx \<Rightarrow> urb_ctx option" where
  "put_urb p i b u = do {
     us \<leftarrow> uc_urbs u p;
     if i < length us then Some (u\<lparr>uc_urbs := (uc_urbs u)(p \<mapsto> us[i := b])\<rparr>) else None
   }"

text \<open>A block of \<open>n\<close> zeroed URBs, and its release.\<close>

definition calloc_urbs :: "ptr \<Rightarrow> nat \<Rightarrow> urb_ctx \<Rightarrow> ptr option \<times> urb_ctx" where
  "calloc_urbs t n u =
     (case c_malloc (ic_heap (uc_io u)) of
        (None, h) \<Rightarrow> (None, set_uheap h u)
      | (Some p, h) \<Rightarrow> (Some p, set_uheap h (u\<lparr>uc_urbs := (uc_urbs u)(p \<mapsto> replicate n (zero_urb t))\<rparr>)))"

definition free_urbs :: "ptr \<Rightarrow> urb_ctx \<Rightarrow> urb_ctx option" where
  "free_urbs p u = do {
     h \<leftarrow> c_release p (ic_heap (uc_io u));
     Some (set_uheap h (u\<lparr>uc_urbs := (uc_urbs u)(p := None)\<rparr>))
   }"

text \<open>The address of the URB with index \<open>i\<close> of a transfer.\<close>

definition urb_address :: "usbi_transfer \<Rightarrow> linux_transfer_priv \<Rightarrow> nat \<Rightarrow> urb_ctx \<Rightarrow> (ptr \<times> nat) option" where
  "urb_address x tp i u =
     (if tr_type x = LIBUSB_TRANSFER_TYPE_ISOCHRONOUS
      then (case tp_urbs tp of
              Iso_urbs a \<Rightarrow> do { ps \<leftarrow> uc_arrays u a; q \<leftarrow> rd ps i; p \<leftarrow> q; Some (p, 0) }
            | _ \<Rightarrow> None)
      else (case tp_urbs tp of Urbs p \<Rightarrow> Some (p, i) | _ \<Rightarrow> None))"

subsection \<open>Discarding\<close>

definition discard_result :: "nat \<Rightarrow> nat \<Rightarrow> int \<Rightarrow> int \<Rightarrow> int" where
  "discard_result last_plus_one i e ret =
     (if e = 0 then ret
      else if e = EINVAL then (if Suc i = last_plus_one then LIBUSB_ERROR_NOT_FOUND else ret)
      else if e = ENODEV then LIBUSB_ERROR_NO_DEVICE
      else LIBUSB_ERROR_OTHER)"

primrec discard_loop :: "usbfs \<Rightarrow> ptr \<Rightarrow> nat \<Rightarrow> nat list \<Rightarrow> int \<Rightarrow> urb_ctx \<Rightarrow> (int \<times> urb_ctx) option" where
  "discard_loop k t last_plus_one [] ret u = Some (ret, u)"
| "discard_loop k t last_plus_one (i # is) ret u = do {
     x \<leftarrow> get_x t (uc_io u);
     (p, j) \<leftarrow> urb_address x (uc_priv u t) i u;
     let (e, u1) = usb_ioctl k (DISCARDURB p j) u;
     discard_loop k t last_plus_one is (discard_result last_plus_one i e ret) u1
   }"

definition discard_urbs :: "usbfs \<Rightarrow> ptr \<Rightarrow> nat \<Rightarrow> nat \<Rightarrow> urb_ctx \<Rightarrow> (int \<times> urb_ctx) option" where
  "discard_urbs k t first last_plus_one u = discard_loop k t last_plus_one (rev [first..<last_plus_one]) 0 u"

primrec free_iso_loop :: "ptr option list \<Rightarrow> urb_ctx \<Rightarrow> urb_ctx option" where
  "free_iso_loop [] u = Some u"
| "free_iso_loop (q # qs) u = (case q of None \<Rightarrow> Some u | Some p \<Rightarrow> do { u1 \<leftarrow> free_urbs p u; free_iso_loop qs u1 })"

definition free_iso_urbs :: "ptr \<Rightarrow> urb_ctx \<Rightarrow> urb_ctx option" where
  "free_iso_urbs t u =
     (case tp_urbs (uc_priv u t) of
        Iso_urbs a \<Rightarrow> do {
          qs \<leftarrow> uc_arrays u a;
          if nat (tp_num_urbs (uc_priv u t)) \<le> length qs then do {
            u1 \<leftarrow> free_iso_loop (take (nat (tp_num_urbs (uc_priv u t))) qs) u;
            h \<leftarrow> c_release a (ic_heap (uc_io u1));
            Some (set_priv t ((uc_priv u1 t)\<lparr>tp_urbs := No_urbs\<rparr>)
              (set_uheap h (u1\<lparr>uc_arrays := (uc_arrays u1)(a := None)\<rparr>)))
          }
          else None
        }
      | _ \<Rightarrow> None)"

subsection \<open>Submitting bulk and interrupt transfers\<close>

text \<open>The size of the pieces, and whether bulk continuation is used.\<close>

definition bulk_split :: "u32 \<Rightarrow> int \<Rightarrow> int \<times> bool" where
  "bulk_split caps len =
     (if caps AND USBFS_CAP_BULK_SCATTER_GATHER \<noteq> 0 then (if len \<noteq> 0 then len else 1, False)
      else if caps AND USBFS_CAP_BULK_CONTINUATION \<noteq> 0 then (MAX_BULK_BUFFER_LENGTH, True)
      else if caps AND USBFS_CAP_NO_PACKET_SIZE_LIM \<noteq> 0 then (if len \<noteq> 0 then len else 1, False)
      else (MAX_BULK_BUFFER_LENGTH, False))"

text \<open>The number of URBs, and whether the last one is partial. The divisions are those of C.\<close>

definition bulk_num_urbs :: "int \<Rightarrow> int \<Rightarrow> int \<times> bool" where
  "bulk_num_urbs len bulk_buffer_len =
     (if len = 0 then (1, False)
      else if len smod bulk_buffer_len > 0 then (len sdiv bulk_buffer_len + 1, True)
      else (len sdiv bulk_buffer_len, False))"

definition is_out :: "usbi_transfer \<Rightarrow> bool" where
  "is_out x \<longleftrightarrow> tr_endpoint x AND 0x80 = 0"

text \<open>The URB with index \<open>i\<close> of \<open>num\<close>.\<close>

definition bulk_urb :: "usbi_transfer \<Rightarrow> ptr \<Rightarrow> int \<Rightarrow> bool \<Rightarrow> int \<Rightarrow> bool \<Rightarrow> nat \<Rightarrow> usbfs_urb" where
  "bulk_urb x t bulk_buffer_len use_bulk_continuation num last_urb_partial i =
     (let urb = zero_urb t;
          urb1 = (case tr_type x of
                    LIBUSB_TRANSFER_TYPE_BULK \<Rightarrow> urb\<lparr>ub_type := USBFS_URB_TYPE_BULK, ub_stream_id := 0\<rparr>
                  | LIBUSB_TRANSFER_TYPE_BULK_STREAM \<Rightarrow> urb\<lparr>ub_type := USBFS_URB_TYPE_BULK, ub_stream_id := it_stream_id x\<rparr>
                  | LIBUSB_TRANSFER_TYPE_INTERRUPT \<Rightarrow> urb\<lparr>ub_type := USBFS_URB_TYPE_INTERRUPT\<rparr>
                  | _ \<Rightarrow> urb);
          flags0 = (if use_bulk_continuation \<and> \<not> is_out x \<and> int i < num - 1 then USBFS_URB_SHORT_NOT_OK else 0);
          flags1 = (if 0 < i \<and> use_bulk_continuation then flags0 OR USBFS_URB_BULK_CONTINUATION else flags0);
          flags2 = (if is_out x \<and> int i = num - 1 \<and> LIBUSB_TRANSFER_ADD_ZERO_PACKET \<in> tr_flags x
                    then flags1 OR USBFS_URB_ZERO_PACKET else flags1)
      in urb1\<lparr>ub_endpoint := tr_endpoint x,
              ub_buffer := int i * bulk_buffer_len,
              ub_buffer_length :=
                (if int i = num - 1 \<and> last_urb_partial then tr_length x smod bulk_buffer_len
                 else if tr_length x = 0 then 0 else bulk_buffer_len),
              ub_flags := flags2\<rparr>)"

text \<open>The submission of the URB with index \<open>i\<close> failed with \<open>errno\<close> \<open>e\<close>.\<close>

definition bulk_submit_failed :: "usbfs \<Rightarrow> ptr \<Rightarrow> ptr \<Rightarrow> int \<Rightarrow> nat \<Rightarrow> int \<Rightarrow> urb_ctx \<Rightarrow> (int \<times> urb_ctx) option" where
  "bulk_submit_failed k t urbs num i e u =
     (let r = (if e = ENODEV then LIBUSB_ERROR_NO_DEVICE else LIBUSB_ERROR_IO) in
      if i = 0 then do {
        u1 \<leftarrow> free_urbs urbs u;
        Some (r, set_priv t ((uc_priv u1 t)\<lparr>tp_urbs := No_urbs\<rparr>) u1)
      }
      else (let action = (if e = EREMOTEIO then COMPLETED_EARLY else SUBMIT_FAILED);
                u1 = set_priv t ((uc_priv u t)\<lparr>tp_reap_action := action,
                       tp_num_retired := tp_num_retired (uc_priv u t) + (num - int i)\<rparr>) u
            in if action = COMPLETED_EARLY then Some (0, u1)
               else do { (_, u2) \<leftarrow> discard_urbs k t 0 i u1; Some (0, u2) }))"

primrec bulk_submit_loop ::
  "usbfs \<Rightarrow> ptr \<Rightarrow> ptr \<Rightarrow> int \<Rightarrow> (nat \<Rightarrow> usbfs_urb) \<Rightarrow> nat list \<Rightarrow> urb_ctx \<Rightarrow> (int \<times> urb_ctx) option" where
  "bulk_submit_loop k t urbs num mk [] u = Some (0, u)"
| "bulk_submit_loop k t urbs num mk (i # is) u = do {
     u1 \<leftarrow> put_urb urbs i (mk i) u;
     let (e, u2) = usb_ioctl k (SUBMITURB urbs i) u1;
     if e \<noteq> 0 then bulk_submit_failed k t urbs num i e u2
     else bulk_submit_loop k t urbs num mk is u2
   }"

definition submit_bulk_transfer :: "usbfs \<Rightarrow> ptr \<Rightarrow> urb_ctx \<Rightarrow> (int \<times> urb_ctx) option" where
  "submit_bulk_transfer k t u = do {
     x \<leftarrow> get_x t (uc_io u);
     let caps = uc_caps u (tr_dev_handle x);
     if is_out x \<and> LIBUSB_TRANSFER_ADD_ZERO_PACKET \<in> tr_flags x \<and> caps AND USBFS_CAP_ZERO_PACKET = 0
     then Some (LIBUSB_ERROR_NOT_SUPPORTED, u)
     else (case bulk_split caps (tr_length x) of (bulk_buffer_len, use_bulk_continuation) \<Rightarrow>
       (case bulk_num_urbs (tr_length x) bulk_buffer_len of (num, last_urb_partial) \<Rightarrow>
         if num < 0 then Some (LIBUSB_ERROR_NO_MEM, u)
         else (case calloc_urbs t (nat num) u of
             (None, u1) \<Rightarrow> Some (LIBUSB_ERROR_NO_MEM, u1)
           | (Some urbs, u1) \<Rightarrow>
               bulk_submit_loop k t urbs num (bulk_urb x t bulk_buffer_len use_bulk_continuation num last_urb_partial)
                 [0..<nat num]
                 (set_priv t ((uc_priv u1 t)\<lparr>tp_urbs := Urbs urbs, tp_num_urbs := num, tp_num_retired := 0,
                   tp_reap_action := NORMAL, tp_reap_status := LIBUSB_TRANSFER_COMPLETED\<rparr>) u1))))
   }"

subsection \<open>Submitting isochronous transfers\<close>

text \<open>The number of URBs needed. The lengths are \<open>unsigned\<close>, \<open>this_urb_len\<close> is an \<open>int\<close>: an overflow of the
  signed subtraction is a fault, the conversions wrap.\<close>

primrec iso_count :: "u32 list \<Rightarrow> int \<Rightarrow> int \<Rightarrow> (int + int) option" where
  "iso_count [] num_urbs this_urb_len = Some (Inr num_urbs)"
| "iso_count (packet_len # ls) num_urbs this_urb_len =
     (if MAX_ISO_BUFFER_LENGTH - this_urb_len > 2147483647 then None
      else if packet_len > word_of_int (MAX_ISO_BUFFER_LENGTH - this_urb_len)
      then (if sint packet_len > MAX_ISO_BUFFER_LENGTH then Some (Inl LIBUSB_ERROR_INVALID_PARAM)
            else iso_count ls (num_urbs + 1) (sint packet_len))
      else iso_count ls num_urbs (sint (word_of_int this_urb_len + packet_len)))"

text \<open>The packets from the list that fit into what is left of an URB.\<close>

primrec iso_take :: "u32 list \<Rightarrow> u32 \<Rightarrow> u32 list" where
  "iso_take [] space_remaining_in_urb = []"
| "iso_take (packet_len # ls) space_remaining_in_urb =
     (if packet_len \<le> space_remaining_in_urb then packet_len # iso_take ls (space_remaining_in_urb - packet_len) else [])"

definition bytes_of :: "u32 list \<Rightarrow> int" where
  "bytes_of ls = (\<Sum>l\<leftarrow>ls. uint l)"

definition iso_urb :: "usbi_transfer \<Rightarrow> ptr \<Rightarrow> u32 list \<Rightarrow> int \<Rightarrow> usbfs_urb" where
  "iso_urb x t packets urb_buffer =
     (zero_urb t)\<lparr>ub_type := USBFS_URB_TYPE_ISO, ub_flags := USBFS_URB_ISO_ASAP, ub_endpoint := tr_endpoint x,
       ub_number_of_packets := int (length packets), ub_buffer := urb_buffer,
       ub_iso_frame_desc := map (\<lambda>l. \<lparr>fd_length = l, fd_actual_length = 0, fd_status = 0\<rparr>) packets\<rparr>"

definition put_array :: "ptr \<Rightarrow> nat \<Rightarrow> ptr \<Rightarrow> urb_ctx \<Rightarrow> urb_ctx option" where
  "put_array a i p u = do {
     qs \<leftarrow> uc_arrays u a;
     if i < length qs then Some (u\<lparr>uc_arrays := (uc_arrays u)(a \<mapsto> qs[i := Some p])\<rparr>) else None
   }"

text \<open>Allocating and filling the URBs: \<open>rest\<close> are the lengths of the packets from \<open>packet_offset\<close> on.\<close>

primrec iso_build ::
  "usbi_transfer \<Rightarrow> ptr \<Rightarrow> ptr \<Rightarrow> nat list \<Rightarrow> u32 list \<Rightarrow> int \<Rightarrow> urb_ctx \<Rightarrow> (int \<times> urb_ctx) option" where
  "iso_build x t a [] rest urb_buffer u = Some (0, u)"
| "iso_build x t a (i # is) rest urb_buffer u =
     (let packets = iso_take rest (word_of_int MAX_ISO_BUFFER_LENGTH) in
      case calloc_urbs t 1 u of
        (None, u1) \<Rightarrow> do { u2 \<leftarrow> free_iso_urbs t u1; Some (LIBUSB_ERROR_NO_MEM, u2) }
      | (Some p, u1) \<Rightarrow> do {
          u2 \<leftarrow> put_array a i p u1;
          u3 \<leftarrow> put_urb p 0 (iso_urb x t packets urb_buffer) u2;
          iso_build x t a is (drop (length packets) rest) (urb_buffer + bytes_of packets) u3
        })"

definition iso_submit_failed :: "usbfs \<Rightarrow> ptr \<Rightarrow> int \<Rightarrow> nat \<Rightarrow> int \<Rightarrow> urb_ctx \<Rightarrow> (int \<times> urb_ctx) option" where
  "iso_submit_failed k t num i e u =
     (let r = (if e = ENODEV then LIBUSB_ERROR_NO_DEVICE
               else if e = EINVAL then LIBUSB_ERROR_INVALID_PARAM else LIBUSB_ERROR_IO) in
      if i = 0 then do { u1 \<leftarrow> free_iso_urbs t u; Some (r, u1) }
      else do {
        (_, u2) \<leftarrow> discard_urbs k t 0 i
          (set_priv t ((uc_priv u t)\<lparr>tp_reap_action := SUBMIT_FAILED, tp_num_retired := num - int i\<rparr>) u);
        Some (0, u2)
      })"

primrec iso_submit_loop :: "usbfs \<Rightarrow> ptr \<Rightarrow> ptr \<Rightarrow> int \<Rightarrow> nat list \<Rightarrow> urb_ctx \<Rightarrow> (int \<times> urb_ctx) option" where
  "iso_submit_loop k t a num [] u = Some (0, u)"
| "iso_submit_loop k t a num (i # is) u = do {
     qs \<leftarrow> uc_arrays u a;
     q \<leftarrow> rd qs i;
     p \<leftarrow> q;
     let (e, u1) = usb_ioctl k (SUBMITURB p 0) u;
     if e \<noteq> 0 then iso_submit_failed k t num i e u1 else iso_submit_loop k t a num is u1
   }"

definition iso_lengths :: "ptr \<Rightarrow> urb_ctx \<Rightarrow> u32 list option" where
  "iso_lengths t u =
     (if nat (uc_num_iso_packets u t) \<le> length (uc_iso_desc u t)
      then Some (map ip_length (take (nat (uc_num_iso_packets u t)) (uc_iso_desc u t))) else None)"

definition submit_iso_transfer :: "usbfs \<Rightarrow> ptr \<Rightarrow> urb_ctx \<Rightarrow> (int \<times> urb_ctx) option" where
  "submit_iso_transfer k t u = do {
     x \<leftarrow> get_x t (uc_io u);
     lens \<leftarrow> iso_lengths t u;
     n \<leftarrow> iso_count lens 1 0;
     (case n of
        Inl e \<Rightarrow> Some (e, u)
      | Inr num \<Rightarrow>
         (case c_malloc (ic_heap (uc_io u)) of
            (None, h) \<Rightarrow> Some (LIBUSB_ERROR_NO_MEM, set_uheap h u)
          | (Some a, h) \<Rightarrow> do {
              let u1 = set_uheap h (u\<lparr>uc_arrays := (uc_arrays u)(a \<mapsto> replicate (nat num) None)\<rparr>);
              (r, u2) \<leftarrow> iso_build x t a [0..<nat num] lens 0
                (set_priv t ((uc_priv u1 t)\<lparr>tp_urbs := Iso_urbs a, tp_num_urbs := num, tp_num_retired := 0,
                  tp_reap_action := NORMAL, tp_iso_packet_offset := 0\<rparr>) u1);
              if r \<noteq> 0 then Some (r, u2) else iso_submit_loop k t a num [0..<nat num] u2
            }))
   }"

subsection \<open>Submitting control transfers\<close>

text \<open>\<open>LIBUSB_CONTROL_SETUP_SIZE\<close> is a \<open>size_t\<close>, so the subtraction is unsigned.\<close>

definition submit_control_transfer :: "usbfs \<Rightarrow> ptr \<Rightarrow> urb_ctx \<Rightarrow> (int \<times> urb_ctx) option" where
  "submit_control_transfer k t u = do {
     x \<leftarrow> get_x t (uc_io u);
     if uint (word_of_int (tr_length x) - 8 :: 64 word) > MAX_CTRL_BUFFER_LENGTH
     then Some (LIBUSB_ERROR_INVALID_PARAM, u)
     else (case calloc_urbs t 1 u of
         (None, u1) \<Rightarrow> Some (LIBUSB_ERROR_NO_MEM, u1)
       | (Some p, u1) \<Rightarrow> do {
           u2 \<leftarrow> put_urb p 0 ((zero_urb t)\<lparr>ub_type := USBFS_URB_TYPE_CONTROL, ub_endpoint := tr_endpoint x,
             ub_buffer := 0, ub_buffer_length := tr_length x\<rparr>)
             (set_priv t ((uc_priv u1 t)\<lparr>tp_urbs := Urbs p, tp_num_urbs := 1, tp_reap_action := NORMAL\<rparr>) u1);
           let (e, u3) = usb_ioctl k (SUBMITURB p 0) u2;
           if e \<noteq> 0 then do {
             u4 \<leftarrow> free_urbs p u3;
             Some (if e = ENODEV then LIBUSB_ERROR_NO_DEVICE else LIBUSB_ERROR_IO,
                   set_priv t ((uc_priv u4 t)\<lparr>tp_urbs := No_urbs\<rparr>) u4)
           }
           else Some (0, u3)
         })
   }"

subsection \<open>The operations of the backend\<close>

definition op_submit_transfer :: "usbfs \<Rightarrow> ptr \<Rightarrow> urb_ctx \<Rightarrow> (int \<times> urb_ctx) option" where
  "op_submit_transfer k t u = do {
     x \<leftarrow> get_x t (uc_io u);
     (case tr_type x of
        LIBUSB_TRANSFER_TYPE_CONTROL \<Rightarrow> submit_control_transfer k t u
      | LIBUSB_TRANSFER_TYPE_BULK \<Rightarrow> submit_bulk_transfer k t u
      | LIBUSB_TRANSFER_TYPE_BULK_STREAM \<Rightarrow> submit_bulk_transfer k t u
      | LIBUSB_TRANSFER_TYPE_INTERRUPT \<Rightarrow> submit_bulk_transfer k t u
      | LIBUSB_TRANSFER_TYPE_ISOCHRONOUS \<Rightarrow> submit_iso_transfer k t u)
   }"

definition op_cancel_transfer :: "usbfs \<Rightarrow> ptr \<Rightarrow> urb_ctx \<Rightarrow> (int \<times> urb_ctx) option" where
  "op_cancel_transfer k t u = do {
     x \<leftarrow> get_x t (uc_io u);
     if tp_urbs (uc_priv u t) = No_urbs then Some (LIBUSB_ERROR_NOT_FOUND, u)
     else do {
       (r, u1) \<leftarrow> discard_urbs k t 0 (nat (tp_num_urbs (uc_priv u t))) u;
       if r \<noteq> 0 then Some (r, u1)
       else if tr_type x \<in> {LIBUSB_TRANSFER_TYPE_BULK, LIBUSB_TRANSFER_TYPE_BULK_STREAM} \<and>
               tp_reap_action (uc_priv u1 t) = ERROR
            then Some (0, u1)
            else Some (0, set_priv t ((uc_priv u1 t)\<lparr>tp_reap_action := CANCELLED\<rparr>) u1)
     }
   }"

definition op_clear_transfer_priv :: "ptr \<Rightarrow> urb_ctx \<Rightarrow> urb_ctx option" where
  "op_clear_transfer_priv t u = do {
     x \<leftarrow> get_x t (uc_io u);
     (if tr_type x = LIBUSB_TRANSFER_TYPE_ISOCHRONOUS
      then (case tp_urbs (uc_priv u t) of No_urbs \<Rightarrow> Some u | _ \<Rightarrow> free_iso_urbs t u)
      else (case tp_urbs (uc_priv u t) of
              No_urbs \<Rightarrow> Some u
            | Urbs p \<Rightarrow> do { u1 \<leftarrow> free_urbs p u; Some (set_priv t ((uc_priv u1 t)\<lparr>tp_urbs := No_urbs\<rparr>) u1) }
            | Iso_urbs a \<Rightarrow> None))
   }"

end
