(* ===== verification/Linux_Reap.thy ===== *)
theory Linux_Reap
  imports Linux_Urbs
begin

text \<open>
  Reaping (os/linux_usbfs.c): what the backend does with a completed URB. The three handlers follow the code
  label by label: the labels of \<open>handle_bulk_completion\<close> are the constructors of \<open>bulk_goto\<close>.
\<close>

subsection \<open>What the kernel gives\<close>

text \<open>\<open>re_data\<close> are the bytes the kernel copied to the start of the URB's piece of the buffer (none for an OUT
  transfer); \<open>re_frames\<close> the results of the packets of an isochronous URB.\<close>

record reap_event =
  re_urb :: "ptr \<times> nat"
  re_status :: int
  re_actual_length :: int
  re_data :: "u8 list"
  re_frames :: "usbfs_iso_packet_desc list"

definition write_at :: "nat \<Rightarrow> u8 list \<Rightarrow> u8 list \<Rightarrow> u8 list" where
  "write_at i d buf = take i buf @ d @ drop (i + length d) buf"

text \<open>\<open>memmove\<close> inside a buffer: a fault when one of the two areas is not in it.\<close>

definition memmove :: "nat \<Rightarrow> nat \<Rightarrow> nat \<Rightarrow> u8 list \<Rightarrow> u8 list option" where
  "memmove target source n buf =
     (if target + n \<le> length buf \<and> source + n \<le> length buf
      then Some (write_at target (take n (drop source buf)) buf) else None)"

definition kernel_reap :: "reap_event \<Rightarrow> urb_ctx \<Rightarrow> urb_ctx option" where
  "kernel_reap ev u = (case re_urb ev of (p, i) \<Rightarrow> do {
     urb \<leftarrow> get_urb p i u;
     let t = ub_usercontext urb;
     u1 \<leftarrow> put_urb p i (urb\<lparr>ub_status := re_status ev, ub_actual_length := re_actual_length ev,
       ub_iso_frame_desc := (if ub_type urb = USBFS_URB_TYPE_ISO then re_frames ev else ub_iso_frame_desc urb)\<rparr>) u;
     if re_data ev = [] then Some u1
     else if nat (ub_buffer urb) + length (re_data ev) \<le> length (uc_buffer u t)
     then Some (u1\<lparr>uc_buffer := (uc_buffer u)(t := write_at (nat (ub_buffer urb)) (re_data ev) (uc_buffer u t))\<rparr>)
     else None
   })"

subsection \<open>Bulk and interrupt transfers\<close>

datatype bulk_goto = Fall_through | Cancel_remaining | Out_unlock | Completed

text \<open>The bytes of an URB that is reaped while the transfer is torn down are moved to the end of what was
  received before.\<close>

definition move_surplus :: "ptr \<Rightarrow> usbfs_urb \<Rightarrow> urb_ctx \<Rightarrow> urb_ctx option" where
  "move_surplus t urb u =
     (if ub_actual_length urb > 0 then do {
        x \<leftarrow> get_x t (uc_io u);
        buf \<leftarrow> (if ub_buffer urb \<noteq> it_transferred x
                 then memmove (nat (it_transferred x)) (nat (ub_buffer urb)) (nat (ub_actual_length urb)) (uc_buffer u t)
                 else Some (uc_buffer u t));
        Some (u\<lparr>uc_io := put_x t (x\<lparr>it_transferred := it_transferred x + ub_actual_length urb\<rparr>) (uc_io u),
                uc_buffer := (uc_buffer u)(t := buf)\<rparr>)
      }
      else Some u)"

definition bulk_abnormal_next :: "linux_transfer_priv \<Rightarrow> bulk_goto \<times> linux_transfer_priv" where
  "bulk_abnormal_next tp =
     (if tp_num_retired tp = tp_num_urbs tp
      then (Completed, if tp_reap_action tp \<noteq> COMPLETED_EARLY \<and> tp_reap_status tp = LIBUSB_TRANSFER_COMPLETED
                       then tp\<lparr>tp_reap_status := LIBUSB_TRANSFER_ERROR\<rparr> else tp)
      else (Out_unlock, tp))"

definition bulk_status_switch :: "int \<Rightarrow> linux_transfer_priv \<Rightarrow> bulk_goto \<times> linux_transfer_priv" where
  "bulk_status_switch status tp =
     (if status = 0 \<or> status = - EREMOTEIO \<or> status = - ENOENT \<or> status = - ECONNRESET then (Fall_through, tp)
      else if status = - ENODEV \<or> status = - ESHUTDOWN
      then (Cancel_remaining, tp\<lparr>tp_reap_status := LIBUSB_TRANSFER_NO_DEVICE\<rparr>)
      else if status = - EPIPE
      then (Cancel_remaining, if tp_reap_status tp = LIBUSB_TRANSFER_COMPLETED
                              then tp\<lparr>tp_reap_status := LIBUSB_TRANSFER_STALL\<rparr> else tp)
      else if status = - EOVERFLOW
      then (Completed, if tp_reap_status tp = LIBUSB_TRANSFER_COMPLETED
                       then tp\<lparr>tp_reap_status := LIBUSB_TRANSFER_OVERFLOW\<rparr> else tp)
      else (Cancel_remaining, tp\<lparr>tp_reap_action := ERROR\<rparr>))"

text \<open>After the switch: the last URB, a short one, or one of those before.\<close>

definition bulk_length_next :: "usbfs_urb \<Rightarrow> nat \<Rightarrow> linux_transfer_priv \<Rightarrow> bulk_goto \<times> linux_transfer_priv" where
  "bulk_length_next urb urb_idx tp =
     (if int urb_idx = tp_num_urbs tp - 1 then (Completed, tp)
      else if ub_actual_length urb < ub_buffer_length urb
      then (Cancel_remaining, if tp_reap_action tp = NORMAL then tp\<lparr>tp_reap_action := COMPLETED_EARLY\<rparr> else tp)
      else (Out_unlock, tp))"

definition bulk_normal_next :: "usbfs_urb \<Rightarrow> nat \<Rightarrow> linux_transfer_priv \<Rightarrow> bulk_goto \<times> linux_transfer_priv" where
  "bulk_normal_next urb urb_idx tp =
     (case bulk_status_switch (ub_status urb) tp of
        (Fall_through, tp1) \<Rightarrow> bulk_length_next urb urb_idx tp1
      | r \<Rightarrow> r)"

text \<open>From the label \<open>cancel_remaining\<close>.\<close>

definition bulk_cancel_remaining :: "usbfs \<Rightarrow> ptr \<Rightarrow> nat \<Rightarrow> linux_transfer_priv \<Rightarrow> urb_ctx \<Rightarrow> (bulk_goto \<times> urb_ctx) option" where
  "bulk_cancel_remaining k t urb_idx tp u =
     (let tp1 = (if tp_reap_action tp = ERROR \<and> tp_reap_status tp = LIBUSB_TRANSFER_COMPLETED
                 then tp\<lparr>tp_reap_status := LIBUSB_TRANSFER_ERROR\<rparr> else tp);
          u1 = set_priv t tp1 u
      in if tp_num_retired tp1 = tp_num_urbs tp1 then Some (Completed, u1)
         else do { (_, u2) \<leftarrow> discard_urbs k t (Suc urb_idx) (nat (tp_num_urbs tp1)) u1; Some (Out_unlock, u2) })"

text \<open>The body of the handler, up to \<open>out_unlock\<close> or \<open>completed\<close>.\<close>

definition bulk_reap :: "usbfs \<Rightarrow> ptr \<Rightarrow> usbfs_urb \<Rightarrow> nat \<Rightarrow> urb_ctx \<Rightarrow> (bulk_goto \<times> urb_ctx) option" where
  "bulk_reap k t urb urb_idx u =
     (let tp = (uc_priv u t)\<lparr>tp_num_retired := tp_num_retired (uc_priv u t) + 1\<rparr>;
          u1 = set_priv t tp u
      in if tp_reap_action tp \<noteq> NORMAL then do {
           u2 \<leftarrow> move_surplus t urb u1;
           (case bulk_abnormal_next tp of (g, tp1) \<Rightarrow> Some (g, set_priv t tp1 u2))
         }
         else do {
           x \<leftarrow> get_x t (uc_io u1);
           let u2 = u1\<lparr>uc_io := put_x t (x\<lparr>it_transferred := it_transferred x + ub_actual_length urb\<rparr>) (uc_io u1)\<rparr>;
           (case bulk_normal_next urb urb_idx tp of
              (Cancel_remaining, tp1) \<Rightarrow> bulk_cancel_remaining k t urb_idx tp1 u2
            | (g, tp1) \<Rightarrow> Some (g, set_priv t tp1 u2))
         })"

text \<open>From the label \<open>completed\<close>.\<close>

definition bulk_completed :: "callback \<Rightarrow> env \<Rightarrow> ptr \<Rightarrow> ptr \<Rightarrow> urb_ctx \<Rightarrow> (int \<times> urb_ctx) option" where
  "bulk_completed cb e t urbs u = do {
     u1 \<leftarrow> free_urbs urbs u;
     let tp = (uc_priv u1 t)\<lparr>tp_urbs := No_urbs\<rparr>;
     u2 \<leftarrow> on_io (unlock_x t) (set_priv t tp u1);
     (r, c) \<leftarrow> (if tp_reap_action tp = CANCELLED then usbi_handle_transfer_cancellation cb e t (uc_io u2)
                else usbi_handle_transfer_completion cb e t (tp_reap_status tp) (uc_io u2));
     Some (r, u2\<lparr>uc_io := c\<rparr>)
   }"

definition handle_bulk_completion ::
  "usbfs \<Rightarrow> callback \<Rightarrow> env \<Rightarrow> ptr \<Rightarrow> ptr \<times> nat \<Rightarrow> urb_ctx \<Rightarrow> (int \<times> urb_ctx) option" where
  "handle_bulk_completion k cb e t addr u =
     (case tp_urbs (uc_priv u t) of
        Urbs p \<Rightarrow>
          if fst addr \<noteq> p then None
          else do {
            u1 \<leftarrow> on_io (lock_x t) u;
            urb \<leftarrow> get_urb p (snd addr) u1;
            (g, u2) \<leftarrow> bulk_reap k t urb (snd addr) u1;
            if g = Completed then bulk_completed cb e t p u2
            else do { u3 \<leftarrow> on_io (unlock_x t) u2; Some (0, u3) }
          }
      | _ \<Rightarrow> None)"

subsection \<open>Isochronous transfers\<close>

definition iso_packet_status :: "u32 \<Rightarrow> libusb_transfer_status" where
  "iso_packet_status status =
     (if status = 0 \<or> status = - ENOENT \<or> status = - ECONNRESET then LIBUSB_TRANSFER_COMPLETED
      else if status = - ENODEV \<or> status = - ESHUTDOWN then LIBUSB_TRANSFER_NO_DEVICE
      else if status = - EPIPE then LIBUSB_TRANSFER_STALL
      else if status = - EOVERFLOW then LIBUSB_TRANSFER_OVERFLOW
      else LIBUSB_TRANSFER_ERROR)"

text \<open>The loop that copies the results back: \<open>off\<close> is \<open>iso_packet_offset\<close>.\<close>

primrec iso_results ::
  "usbfs_iso_packet_desc list \<Rightarrow> nat \<Rightarrow> libusb_iso_packet_descriptor list \<Rightarrow>
    (nat \<times> libusb_iso_packet_descriptor list) option" where
  "iso_results [] off ds = Some (off, ds)"
| "iso_results (f # fs) off ds =
     (if off < length ds
      then iso_results fs (Suc off)
        (ds[off := (ds ! off)\<lparr>ip_status := iso_packet_status (fd_status f), ip_actual_length := fd_actual_length f\<rparr>])
      else None)"

text \<open>The search for the URB among the transfer's: its index plus one, or 0.\<close>

primrec iso_find :: "ptr \<Rightarrow> ptr option list \<Rightarrow> nat \<Rightarrow> nat" where
  "iso_find p [] i = 0"
| "iso_find p (q # qs) i = (if q = Some p then Suc i else iso_find p qs (Suc i))"

definition iso_urb_status :: "int \<Rightarrow> libusb_transfer_status" where
  "iso_urb_status status =
     (if status = 0 \<or> status = - ENOENT \<or> status = - ECONNRESET then LIBUSB_TRANSFER_COMPLETED
      else if status = - ESHUTDOWN then LIBUSB_TRANSFER_NO_DEVICE
      else LIBUSB_TRANSFER_ERROR)"

text \<open>What follows the copying: \<open>None\<close> when the transfer goes on, else how it ends.\<close>

datatype iso_end = Iso_cancelled | Iso_completed libusb_transfer_status

definition iso_next :: "linux_transfer_priv \<Rightarrow> usbfs_urb \<Rightarrow> nat \<Rightarrow> iso_end option" where
  "iso_next tp urb urb_idx =
     (if tp_reap_action tp \<noteq> NORMAL
      then (if tp_num_retired tp = tp_num_urbs tp
            then Some (if tp_reap_action tp = CANCELLED then Iso_cancelled else Iso_completed LIBUSB_TRANSFER_ERROR)
            else None)
      else if int urb_idx = tp_num_urbs tp then Some (Iso_completed (iso_urb_status (ub_status urb)))
      else None)"

definition handle_iso_completion ::
  "usbfs \<Rightarrow> callback \<Rightarrow> env \<Rightarrow> ptr \<Rightarrow> ptr \<times> nat \<Rightarrow> urb_ctx \<Rightarrow> (int \<times> urb_ctx) option" where
  "handle_iso_completion k cb e t addr u = do {
     u1 \<leftarrow> on_io (lock_x t) u;
     let tp = uc_priv u1 t;
     qs \<leftarrow> (case tp_urbs tp of Iso_urbs a \<Rightarrow> uc_arrays u1 a | _ \<Rightarrow> None);
     let urb_idx = iso_find (fst addr) (take (nat (tp_num_urbs tp)) qs) 0;
     if urb_idx = 0 then do { u2 \<leftarrow> on_io (unlock_x t) u1; Some (LIBUSB_ERROR_NOT_FOUND, u2) }
     else do {
       urb \<leftarrow> get_urb (fst addr) 0 u1;
       if nat (ub_number_of_packets urb) > length (ub_iso_frame_desc urb) then None
       else do {
         (off, ds) \<leftarrow> iso_results (take (nat (ub_number_of_packets urb)) (ub_iso_frame_desc urb))
           (nat (tp_iso_packet_offset tp)) (uc_iso_desc u1 t);
         let tp1 = tp\<lparr>tp_iso_packet_offset := int off, tp_num_retired := tp_num_retired tp + 1\<rparr>;
         let u2 = set_priv t tp1 (u1\<lparr>uc_iso_desc := (uc_iso_desc u1)(t := ds)\<rparr>);
         (case iso_next tp1 urb urb_idx of
            None \<Rightarrow> do { u3 \<leftarrow> on_io (unlock_x t) u2; Some (0, u3) }
          | Some n \<Rightarrow> do {
              u3 \<leftarrow> free_iso_urbs t u2;
              u4 \<leftarrow> on_io (unlock_x t) u3;
              (r, c) \<leftarrow> (case n of
                  Iso_cancelled \<Rightarrow> usbi_handle_transfer_cancellation cb e t (uc_io u4)
                | Iso_completed s \<Rightarrow> usbi_handle_transfer_completion cb e t s (uc_io u4));
              Some (r, u4\<lparr>uc_io := c\<rparr>)
            })
       }
     }
   }"

subsection \<open>Control transfers\<close>

definition control_status :: "int \<Rightarrow> libusb_transfer_status" where
  "control_status status =
     (if status = 0 then LIBUSB_TRANSFER_COMPLETED
      else if status = - ENOENT then LIBUSB_TRANSFER_CANCELLED
      else if status = - ENODEV \<or> status = - ESHUTDOWN then LIBUSB_TRANSFER_NO_DEVICE
      else if status = - EPIPE then LIBUSB_TRANSFER_STALL
      else if status = - EOVERFLOW then LIBUSB_TRANSFER_OVERFLOW
      else LIBUSB_TRANSFER_ERROR)"

definition handle_control_completion ::
  "usbfs \<Rightarrow> callback \<Rightarrow> env \<Rightarrow> ptr \<Rightarrow> ptr \<times> nat \<Rightarrow> urb_ctx \<Rightarrow> (int \<times> urb_ctx) option" where
  "handle_control_completion k cb e t addr u = do {
     u1 \<leftarrow> on_io (lock_x t) u;
     urb \<leftarrow> get_urb (fst addr) (snd addr) u1;
     x \<leftarrow> get_x t (uc_io u1);
     let u2 = u1\<lparr>uc_io := put_x t (x\<lparr>it_transferred := it_transferred x + ub_actual_length urb\<rparr>) (uc_io u1)\<rparr>;
     u3 \<leftarrow> (case tp_urbs (uc_priv u2 t) of No_urbs \<Rightarrow> Some u2 | Urbs p \<Rightarrow> free_urbs p u2 | Iso_urbs a \<Rightarrow> None);
     u4 \<leftarrow> on_io (unlock_x t) (set_priv t ((uc_priv u3 t)\<lparr>tp_urbs := No_urbs\<rparr>) u3);
     (r, c) \<leftarrow> (if tp_reap_action (uc_priv u4 t) = CANCELLED then usbi_handle_transfer_cancellation cb e t (uc_io u4)
                else usbi_handle_transfer_completion cb e t (control_status (ub_status urb)) (uc_io u4));
     Some (r, u4\<lparr>uc_io := c\<rparr>)
   }"

subsection \<open>Reaping\<close>

text \<open>The answer to REAPURBNDELAY: an \<open>errno\<close>, or an URB.\<close>

datatype reap_answer = Reap_errno int | Reaped reap_event

definition reap_for_handle ::
  "usbfs \<Rightarrow> callback \<Rightarrow> env \<Rightarrow> reap_answer \<Rightarrow> urb_ctx \<Rightarrow> (int \<times> urb_ctx) option" where
  "reap_for_handle k cb e ans u =
     (case ans of
        Reap_errno n \<Rightarrow>
          Some (if n = EAGAIN then 1 else if n = ENODEV then LIBUSB_ERROR_NO_DEVICE else LIBUSB_ERROR_IO, u)
      | Reaped ev \<Rightarrow> do {
          u1 \<leftarrow> kernel_reap ev u;
          urb \<leftarrow> get_urb (fst (re_urb ev)) (snd (re_urb ev)) u1;
          let t = ub_usercontext urb;
          x \<leftarrow> get_x t (uc_io u1);
          (case tr_type x of
             LIBUSB_TRANSFER_TYPE_ISOCHRONOUS \<Rightarrow> handle_iso_completion k cb e t (re_urb ev) u1
           | LIBUSB_TRANSFER_TYPE_BULK \<Rightarrow> handle_bulk_completion k cb e t (re_urb ev) u1
           | LIBUSB_TRANSFER_TYPE_BULK_STREAM \<Rightarrow> handle_bulk_completion k cb e t (re_urb ev) u1
           | LIBUSB_TRANSFER_TYPE_INTERRUPT \<Rightarrow> handle_bulk_completion k cb e t (re_urb ev) u1
           | LIBUSB_TRANSFER_TYPE_CONTROL \<Rightarrow> handle_control_completion k cb e t (re_urb ev) u1)
        })"

text \<open>\<open>do r = reap_for_handle(handle); while (r == 0)\<close>, on the answers the kernel has ready for the handle; when
  it has no more, it answers EAGAIN. The rest of the answers is given back.\<close>

primrec reap_loop ::
  "usbfs \<Rightarrow> callback \<Rightarrow> env \<Rightarrow> reap_answer list \<Rightarrow> urb_ctx \<Rightarrow> (int \<times> reap_answer list \<times> urb_ctx) option" where
  "reap_loop k cb e [] u = Some (1, [], u)"
| "reap_loop k cb e (a # as) u = do {
     (r, u1) \<leftarrow> reap_for_handle k cb e a u;
     if r = 0 then reap_loop k cb e as u1 else Some (r, as, u1)
   }"

end
