(* ===== verification/Linux_Bulk.thy ===== *)
theory Linux_Bulk
  imports Linux_Reap Transfer_Props
begin

text \<open>
  The life of a bulk or interrupt transfer in the Linux backend: the invariant between its URBs in the kernel and
  what the backend counts, and that submission, cancellation and every reap keep it until the last URB
  is reaped, which frees the URBs and completes the transfer.

  \<open>pend\<close> is the set of the URBs the kernel holds.
\<close>

subsection \<open>The invariant\<close>

definition bulk_type :: "usbi_transfer \<Rightarrow> bool" where
  "bulk_type x \<longleftrightarrow> tr_type x \<in> {LIBUSB_TRANSFER_TYPE_BULK, LIBUSB_TRANSFER_TYPE_BULK_STREAM, LIBUSB_TRANSFER_TYPE_INTERRUPT}"

definition urbs_ok :: "ptr \<Rightarrow> usbfs_urb list \<Rightarrow> nat \<Rightarrow> bool" where
  "urbs_ok t us n \<longleftrightarrow>
     (\<forall>b \<in> set us. ub_usercontext b = t \<and> 0 \<le> ub_buffer_length b \<and> 0 \<le> ub_buffer b \<and>
        ub_buffer b + ub_buffer_length b \<le> int n) \<and>
     (\<Sum>b\<leftarrow>us. ub_buffer_length b) \<le> int n"

definition pend_ok :: "linux_transfer_priv \<Rightarrow> nat \<Rightarrow> nat set \<Rightarrow> bool" where
  "pend_ok tp n pend \<longleftrightarrow> tp_num_urbs tp = int n \<and> pend \<subseteq> {..<n} \<and> tp_num_retired tp + int (card pend) = int n \<and>
     (tp_reap_action tp = NORMAL \<longrightarrow> pend = {nat (tp_num_retired tp)..<n})"

definition bytes_out :: "usbfs_urb list \<Rightarrow> nat set \<Rightarrow> int" where
  "bytes_out us pend = (\<Sum>i \<in> {..<length us} - pend. ub_buffer_length (us ! i))"

definition urbs_wf :: "ptr \<Rightarrow> nat set \<Rightarrow> urb_ctx \<Rightarrow> bool" where
  "urbs_wf t pend u \<longleftrightarrow> (\<exists>x p us. get_x t (uc_io u) = Some x \<and> bulk_type x \<and> tp_urbs (uc_priv u t) = Urbs p \<and>
     uc_urbs u p = Some us \<and> p \<in> hp_live (ic_heap (uc_io u)) \<and> urbs_ok t us (length (uc_buffer u t)) \<and>
     pend_ok (uc_priv u t) (length us) pend \<and> 0 \<le> it_transferred x \<and> it_transferred x \<le> bytes_out us pend)"

text \<open>What the backend relies on: the kernel returns an URB it holds, with no more data than its piece; as long as
  the backend has not begun to tear the transfer down, URBs come back in the order of their submission, and only the last one
  overflows.\<close>

definition bulk_event :: "ptr \<Rightarrow> nat set \<Rightarrow> urb_ctx \<Rightarrow> reap_event \<Rightarrow> bool" where
  "bulk_event t pend u ev \<longleftrightarrow> (case re_urb ev of (p, i) \<Rightarrow>
     tp_urbs (uc_priv u t) = Urbs p \<and> i \<in> pend \<and> 0 \<le> re_actual_length ev \<and>
     (case get_urb p i u of None \<Rightarrow> False | Some b \<Rightarrow>
        re_actual_length ev \<le> ub_buffer_length b \<and> int (length (re_data ev)) \<le> ub_buffer_length b) \<and>
     (tp_reap_action (uc_priv u t) = NORMAL \<longrightarrow>
        (\<forall>j \<in> pend. i \<le> j) \<and> (re_status ev = - EOVERFLOW \<longrightarrow> pend = {i})))"

lemma bytes_out_remove:
  assumes "i \<in> pend" and "pend \<subseteq> {..<length us}"
  shows "bytes_out us (pend - {i}) = bytes_out us pend + ub_buffer_length (us ! i)"
proof -
  have "{..<length us} - (pend - {i}) = insert i ({..<length us} - pend)" using assms by auto
  then show ?thesis using assms(1) by (simp add: bytes_out_def)
qed

lemma bytes_out_le:
  assumes "urbs_ok t us n"
  shows "bytes_out us pend \<le> int n"
proof -
  have "0 \<le> ub_buffer_length (us ! i)" if "i < length us" for i
    using assms that by (auto simp: urbs_ok_def)
  then have "bytes_out us pend \<le> (\<Sum>i \<in> {..<length us}. ub_buffer_length (us ! i))"
    unfolding bytes_out_def by (intro sum_mono2) auto
  also have "\<dots> = (\<Sum>b\<leftarrow>us. ub_buffer_length b)"
    by (simp add: sum_list_sum_nth atLeast0LessThan)
  finally show ?thesis using assms by (simp add: urbs_ok_def)
qed

lemma pend_last:
  assumes "pend_ok tp n pend" and "i \<in> pend"
  shows "tp_num_retired tp + 1 = tp_num_urbs tp \<longleftrightarrow> pend = {i}"
proof -
  have fin: "finite pend" using assms(1) finite_subset by (auto simp: pend_ok_def)
  from assms(1) have "tp_num_retired tp + 1 = tp_num_urbs tp \<longleftrightarrow> card pend = 1"
    unfolding pend_ok_def by linarith
  also have "\<dots> \<longleftrightarrow> pend = {i}" using assms(2) fin by (auto simp: card_1_singleton_iff)
  finally show ?thesis .
qed

lemma pend_card:
  assumes "pend_ok tp n pend" and "i \<in> pend"
  shows "int (card (pend - {i})) = int (card pend) - 1"
proof -
  have "finite pend" using assms(1) finite_subset by (auto simp: pend_ok_def)
  with assms(2) show ?thesis by (simp add: card_Diff_singleton_if Suc_leI card_gt_0_iff of_nat_diff)
      (metis card_gt_0_iff empty_iff of_nat_diff One_nat_def Suc_leI of_nat_1)
qed

text \<open>The first of the pending URBs.\<close>

lemma pend_normal:
  assumes "pend_ok tp n pend" and "i \<in> pend" and "tp_reap_action tp = NORMAL" and "\<forall>j \<in> pend. i \<le> j"
  shows "tp_num_retired tp = int i" and "pend - {i} = {Suc i..<n}" and "i < n"
    and "int i = tp_num_urbs tp - 1 \<longleftrightarrow> pend = {i}"
proof -
  from assms have pd: "pend = {nat (tp_num_retired tp)..<n}" and n: "tp_num_urbs tp = int n"
    by (simp_all add: pend_ok_def)
  from pd assms(2) have ge: "nat (tp_num_retired tp) \<le> i" and "i < n" by simp_all
  then have "nat (tp_num_retired tp) \<in> pend" using pd by simp
  with assms(4) ge \<open>i < n\<close> have i: "i = nat (tp_num_retired tp)" "i < n" by (simp_all add: le_antisym)
  have "card pend \<le> n" using pd by simp
  then have "0 \<le> tp_num_retired tp" using assms(1) by (auto simp: pend_ok_def)
  with i show "tp_num_retired tp = int i" by simp
  show "pend - {i} = {Suc i..<n}" using pd i by auto
  show "i < n" by fact
  show "int i = tp_num_urbs tp - 1 \<longleftrightarrow> pend = {i}"
    using pend_last [OF assms(1,2)] \<open>tp_num_retired tp = int i\<close> n by auto
qed

subsection \<open>Discarding\<close>

lemma discard_loop_bulk:
  assumes "get_x t (uc_io u) = Some x" and "bulk_type x" and "tp_urbs (uc_priv u t) = Urbs p"
  shows "\<exists>r. discard_loop k t l is ret u = Some (r, u\<lparr>uc_calls := uc_calls u @ map (DISCARDURB p) is\<rparr>)"
  using assms
proof (induction "is" arbitrary: ret u)
  case Nil
  then show ?case by simp
next
  case (Cons i "is")
  let ?u = "u\<lparr>uc_calls := uc_calls u @ [DISCARDURB p i]\<rparr>"
  have addr: "urb_address x (uc_priv u t) i u = Some (p, i)"
    using Cons.prems by (auto simp: urb_address_def bulk_type_def)
  from Cons.IH [of ?u "discard_result l i (k (uc_calls u) (DISCARDURB p i)) ret"] Cons.prems
  show ?case by (simp add: addr usb_ioctl_def)
qed

lemma discard_urbs_bulk:
  assumes "get_x t (uc_io u) = Some x" and "bulk_type x" and "tp_urbs (uc_priv u t) = Urbs p"
  shows "\<exists>r. discard_urbs k t f l u = Some (r, u\<lparr>uc_calls := uc_calls u @ map (DISCARDURB p) (rev [f..<l])\<rparr>)"
  unfolding discard_urbs_def by (rule discard_loop_bulk [OF assms])

subsection \<open>One URB\<close>

definition bulk_upd ::
  "ptr \<Rightarrow> usbi_transfer \<Rightarrow> linux_transfer_priv \<Rightarrow> u8 list \<Rightarrow> ioctl list \<Rightarrow> urb_ctx \<Rightarrow> urb_ctx" where
  "bulk_upd t y tp buf calls u = u\<lparr>uc_io := put_x t y (uc_io u), uc_priv := (uc_priv u)(t := tp),
     uc_buffer := (uc_buffer u)(t := buf), uc_calls := calls\<rparr>"

lemma bulk_upd_simps [simp]:
  "uc_io (bulk_upd t y tp buf calls u) = put_x t y (uc_io u)"
  "uc_priv (bulk_upd t y tp buf calls u) = (uc_priv u)(t := tp)"
  "uc_buffer (bulk_upd t y tp buf calls u) = (uc_buffer u)(t := buf)"
  "uc_calls (bulk_upd t y tp buf calls u) = calls"
  "uc_urbs (bulk_upd t y tp buf calls u) = uc_urbs u"
  by (simp_all add: bulk_upd_def)

lemma length_write_at [simp]: "i + length d \<le> length buf \<Longrightarrow> length (write_at i d buf) = length buf"
  by (simp add: write_at_def)

lemma memmove_Some:
  assumes "target + n \<le> length buf" and "source + n \<le> length buf"
  shows "\<exists>buf'. memmove target source n buf = Some buf' \<and> length buf' = length buf"
  using assms by (simp add: memmove_def)

text \<open>A piece \<open>b\<close> whose bytes can be moved to the end of what was received.\<close>

definition room_for :: "usbi_transfer \<Rightarrow> usbfs_urb \<Rightarrow> nat \<Rightarrow> bool" where
  "room_for x b n \<longleftrightarrow> 0 \<le> ub_actual_length b \<and> 0 \<le> ub_buffer b \<and> 0 \<le> it_transferred x \<and>
     it_transferred x + ub_actual_length b \<le> int n \<and> ub_buffer b + ub_actual_length b \<le> int n"

lemma move_surplus_spec:
  assumes x: "get_x t (uc_io u) = Some x" and room: "room_for x b (length (uc_buffer u t))"
  shows "\<exists>buf. move_surplus t b u = Some (bulk_upd t (x\<lparr>it_transferred := it_transferred x + ub_actual_length b\<rparr>)
      (uc_priv u t) buf (uc_calls u) u) \<and> length buf = length (uc_buffer u t)"
proof (cases "ub_actual_length b > 0")
  case False
  with room have "ub_actual_length b = 0" by (simp add: room_for_def)
  with x False show ?thesis
    by (intro exI [of _ "uc_buffer u t"]) (simp add: move_surplus_def bulk_upd_def put_get)
next
  case True
  let ?n = "nat (ub_actual_length b)"
  have "nat (it_transferred x) + ?n \<le> length (uc_buffer u t)" "nat (ub_buffer b) + ?n \<le> length (uc_buffer u t)"
    using room by (auto simp: room_for_def)
  from memmove_Some [OF this] obtain buf where
    "memmove (nat (it_transferred x)) (nat (ub_buffer b)) ?n (uc_buffer u t) = Some buf"
    "length buf = length (uc_buffer u t)" by blast
  with x True show ?thesis
    by (intro exI [of _ "if ub_buffer b = it_transferred x then uc_buffer u t else buf"])
      (simp add: move_surplus_def bulk_upd_def)
qed

lemma bulk_switch_fields:
  "bulk_status_switch s tp = (g, tp') \<Longrightarrow> tp_urbs tp' = tp_urbs tp \<and> tp_num_urbs tp' = tp_num_urbs tp \<and>
     tp_num_retired tp' = tp_num_retired tp \<and> (tp_reap_action tp' = NORMAL \<longrightarrow> tp_reap_action tp = NORMAL) \<and>
     g \<noteq> Out_unlock \<and> (g = Completed \<longrightarrow> s = - EOVERFLOW)"
  by (auto simp: bulk_status_switch_def split: if_splits)

lemma bulk_normal_fields:
  assumes "bulk_normal_next b i tp = (g, tp')"
  shows "tp_urbs tp' = tp_urbs tp" "tp_num_urbs tp' = tp_num_urbs tp" "tp_num_retired tp' = tp_num_retired tp"
    and "tp_reap_action tp' = NORMAL \<Longrightarrow> tp_reap_action tp = NORMAL" and "g \<noteq> Fall_through"
    and "g = Completed \<Longrightarrow> ub_status b = - EOVERFLOW \<or> int i = tp_num_urbs tp - 1"
    and "g = Out_unlock \<Longrightarrow> int i \<noteq> tp_num_urbs tp - 1"
proof -
  obtain g1 tp1 where sw: "bulk_status_switch (ub_status b) tp = (g1, tp1)" by (cases "bulk_status_switch (ub_status b) tp")
  note f = bulk_switch_fields [OF sw]
  have n: "bulk_normal_next b i tp = (if g1 = Fall_through then bulk_length_next b i tp1 else (g1, tp1))"
    unfolding bulk_normal_next_def sw by (cases g1) simp_all
  note d = assms [unfolded n bulk_length_next_def]
  show "tp_urbs tp' = tp_urbs tp" "tp_num_urbs tp' = tp_num_urbs tp" "tp_num_retired tp' = tp_num_retired tp"
    "tp_reap_action tp' = NORMAL \<Longrightarrow> tp_reap_action tp = NORMAL" "g \<noteq> Fall_through"
    "g = Completed \<Longrightarrow> ub_status b = - EOVERFLOW \<or> int i = tp_num_urbs tp - 1"
    "g = Out_unlock \<Longrightarrow> int i \<noteq> tp_num_urbs tp - 1"
    using d f by (auto split: if_splits)
qed

lemma pend_step:
  assumes pd: "pend_ok tp n pend" and i: "i \<in> pend"
    and first: "tp_reap_action tp = NORMAL \<Longrightarrow> \<forall>j \<in> pend. i \<le> j"
    and tp': "tp_num_urbs tp' = tp_num_urbs tp" "tp_num_retired tp' = tp_num_retired tp + 1"
      "tp_reap_action tp' = NORMAL \<Longrightarrow> tp_reap_action tp = NORMAL"
  shows "pend_ok tp' n (pend - {i})"
proof -
  have "pend - {i} = {nat (tp_num_retired tp')..<n}" if "tp_reap_action tp' = NORMAL"
    using pend_normal(1,2) [OF pd i tp'(3) [OF that] first [OF tp'(3) [OF that]]] tp'(2) by (simp add: nat_add_distrib)
  moreover have "tp_num_retired tp' + int (card (pend - {i})) = int n"
    using pend_card [OF pd i] pd tp'(2) by (simp add: pend_ok_def)
  ultimately show ?thesis using pd tp'(1) by (auto simp: pend_ok_def)
qed

lemma bulk_cancel_spec:
  assumes x: "get_x t (uc_io u) = Some x" and ty: "bulk_type x" and tp: "tp_urbs tp = Urbs p"
  shows "\<exists>g tp' calls. bulk_cancel_remaining k t i tp u = Some (g, set_priv t tp' u\<lparr>uc_calls := calls\<rparr>) \<and>
    tp_urbs tp' = Urbs p \<and> tp_num_urbs tp' = tp_num_urbs tp \<and> tp_num_retired tp' = tp_num_retired tp \<and>
    tp_reap_action tp' = tp_reap_action tp \<and>
    g = (if tp_num_retired tp = tp_num_urbs tp then Completed else Out_unlock)"
proof -
  define tp1 where "tp1 = (if tp_reap_action tp = ERROR \<and> tp_reap_status tp = LIBUSB_TRANSFER_COMPLETED
      then tp\<lparr>tp_reap_status := LIBUSB_TRANSFER_ERROR\<rparr> else tp)"
  have f: "tp_urbs tp1 = Urbs p" "tp_num_urbs tp1 = tp_num_urbs tp" "tp_num_retired tp1 = tp_num_retired tp"
    "tp_reap_action tp1 = tp_reap_action tp" using tp by (simp_all add: tp1_def)
  have eq: "bulk_cancel_remaining k t i tp u =
      (if tp_num_retired tp = tp_num_urbs tp then Some (Completed, set_priv t tp1 u)
       else do { (_, u2) \<leftarrow> discard_urbs k t (Suc i) (nat (tp_num_urbs tp)) (set_priv t tp1 u); Some (Out_unlock, u2) })"
    unfolding bulk_cancel_remaining_def tp1_def [symmetric] Let_def f(2,3) by (rule refl)
  show ?thesis
  proof (cases "tp_num_retired tp = tp_num_urbs tp")
    case True
    have "set_priv t tp1 u = set_priv t tp1 u\<lparr>uc_calls := uc_calls u\<rparr>" by (simp add: set_priv_def)
    with True f show ?thesis unfolding eq by (metis (no_types))
  next
    case False
    have "get_x t (uc_io (set_priv t tp1 u)) = Some x" "tp_urbs (uc_priv (set_priv t tp1 u) t) = Urbs p"
      using x f by (simp_all add: set_priv_def)
    from discard_urbs_bulk [OF this(1) ty this(2), of k "Suc i" "nat (tp_num_urbs tp)"] obtain r where
      "discard_urbs k t (Suc i) (nat (tp_num_urbs tp)) (set_priv t tp1 u) = Some (r, set_priv t tp1 u
        \<lparr>uc_calls := uc_calls u @ map (DISCARDURB p) (rev [Suc i..<nat (tp_num_urbs tp)])\<rparr>)"
      by (auto simp: set_priv_def)
    with False f show ?thesis unfolding eq by auto
  qed
qed

text \<open>What is counted of an URB, whatever happened to it.\<close>

definition add_bytes :: "usbfs_urb \<Rightarrow> usbi_transfer \<Rightarrow> usbi_transfer" where
  "add_bytes b x = x\<lparr>it_transferred := it_transferred x + ub_actual_length b\<rparr>"

lemma bulk_reap_spec:
  assumes x: "get_x t (uc_io u) = Some x" and ty: "bulk_type x" and urbs: "tp_urbs (uc_priv u t) = Urbs p"
    and pd: "pend_ok (uc_priv u t) n pend" and i: "i \<in> pend" and room: "room_for x b (length (uc_buffer u t))"
    and order: "tp_reap_action (uc_priv u t) = NORMAL \<Longrightarrow>
      (\<forall>j \<in> pend. i \<le> j) \<and> (ub_status b = - EOVERFLOW \<longrightarrow> pend = {i})"
  shows "\<exists>g tp' buf calls. bulk_reap k t b i u = Some (g, bulk_upd t (add_bytes b x) tp' buf calls u) \<and>
    length buf = length (uc_buffer u t) \<and> tp_urbs tp' = Urbs p \<and> (g = Completed \<longleftrightarrow> pend = {i}) \<and>
    pend_ok tp' n (pend - {i})"
proof -
  define tp where "tp = uc_priv u t"
  define tp0 where "tp0 = tp\<lparr>tp_num_retired := tp_num_retired tp + 1\<rparr>"
  note last = pend_last [OF pd i, folded tp_def]
  note pstep = pend_step [OF pd i, folded tp_def]
  have f0: "tp_urbs tp0 = Urbs p" "tp_num_urbs tp0 = tp_num_urbs tp" "tp_num_retired tp0 = tp_num_retired tp + 1"
    "tp_reap_action tp0 = tp_reap_action tp" using urbs by (simp_all add: tp0_def tp_def)
  show ?thesis
  proof (cases "tp_reap_action tp = NORMAL")
    case False
    have "get_x t (uc_io (set_priv t tp0 u)) = Some x" "room_for x b (length (uc_buffer (set_priv t tp0 u) t))"
      using x room by (simp_all add: set_priv_def)
    from move_surplus_spec [OF this] obtain buf where
      mv: "move_surplus t b (set_priv t tp0 u) = Some (bulk_upd t (add_bytes b x) tp0 buf (uc_calls u) (set_priv t tp0 u))"
      and len: "length buf = length (uc_buffer u t)" by (auto simp: set_priv_def add_bytes_def)
    obtain g tp' where nx: "bulk_abnormal_next tp0 = (g, tp')" by (cases "bulk_abnormal_next tp0")
    then have f: "tp_urbs tp' = Urbs p" "tp_num_urbs tp' = tp_num_urbs tp" "tp_num_retired tp' = tp_num_retired tp + 1"
      "tp_reap_action tp' = tp_reap_action tp" "g = Completed \<longleftrightarrow> pend = {i}"
      using f0 last by (auto simp: bulk_abnormal_next_def split: if_splits)
    have "bulk_reap k t b i u = Some (g, bulk_upd t (add_bytes b x) tp' buf (uc_calls u) u)"
      using False f0(4) mv nx by (simp add: bulk_reap_def tp0_def [symmetric] tp_def [symmetric])
        (simp add: set_priv_def bulk_upd_def)
    moreover have "pend_ok tp' n (pend - {i})" using False f by (intro pstep) simp_all
    ultimately show ?thesis using len f by blast
  next
    case True
    from order True have first: "\<forall>j \<in> pend. i \<le> j" and ovf: "ub_status b = - EOVERFLOW \<longrightarrow> pend = {i}"
      by (simp_all add: tp_def)
    note nm = pend_normal [OF pd i True [unfolded tp_def] first, folded tp_def]
    obtain g tp1 where nx: "bulk_normal_next b i tp0 = (g, tp1)" by (cases "bulk_normal_next b i tp0")
    note f = bulk_normal_fields [OF nx, unfolded f0]
    define u2 where "u2 = (set_priv t tp0 u)\<lparr>uc_io := put_x t (add_bytes b x) (uc_io u)\<rparr>"
    have reap: "bulk_reap k t b i u = (case (g, tp1) of (Cancel_remaining, tp1) \<Rightarrow> bulk_cancel_remaining k t i tp1 u2
        | (g, tp1) \<Rightarrow> Some (g, set_priv t tp1 u2))"
      using True f0(4) x nx
      by (cases g) (simp_all add: bulk_reap_def tp0_def [symmetric] tp_def [symmetric] u2_def set_priv_def add_bytes_def Let_def)
    show ?thesis
    proof (cases "g = Cancel_remaining")
      case False
      have g: "g = Completed \<longleftrightarrow> pend = {i}"
        using f(5-7) False ovf nm(4) by (cases g) auto
      have "bulk_reap k t b i u = Some (g, bulk_upd t (add_bytes b x) tp1 (uc_buffer u t) (uc_calls u) u)"
        unfolding reap using False by (cases g) (simp_all add: u2_def set_priv_def bulk_upd_def)
      moreover have "pend_ok tp1 n (pend - {i})" using f(2-4) first by (intro pstep) simp_all
      ultimately show ?thesis using g f(1) by blast
    next
      case True
      have "get_x t (uc_io u2) = Some (add_bytes b x)" "bulk_type (add_bytes b x)"
        using ty by (simp_all add: u2_def bulk_type_def add_bytes_def)
      from bulk_cancel_spec [OF this f(1), of k i] obtain g' tp' calls where
        c: "bulk_cancel_remaining k t i tp1 u2 = Some (g', (set_priv t tp' u2)\<lparr>uc_calls := calls\<rparr>)"
        and f': "tp_urbs tp' = Urbs p" "tp_num_urbs tp' = tp_num_urbs tp1" "tp_num_retired tp' = tp_num_retired tp1"
          "tp_reap_action tp' = tp_reap_action tp1"
          "g' = (if tp_num_retired tp1 = tp_num_urbs tp1 then Completed else Out_unlock)" by blast
      have g: "g' = Completed \<longleftrightarrow> pend = {i}" using f'(5) f(2,3) last by simp
      have "bulk_reap k t b i u = Some (g', bulk_upd t (add_bytes b x) tp' (uc_buffer u t) calls u)"
        unfolding reap using True c by (simp add: u2_def set_priv_def bulk_upd_def)
      moreover have "pend_ok tp' n (pend - {i})" using f(2-4) f' first by (intro pstep) simp_all
      ultimately show ?thesis using g f'(1) by blast
    qed
  qed
qed

subsection \<open>A reap\<close>

lemma kernel_reap_bulk:
  assumes us: "uc_urbs u p = Some us" and ok: "urbs_ok t us (length (uc_buffer u t))" and i: "i < length us"
    and ev: "re_urb ev = (p, i)" and dat: "int (length (re_data ev)) \<le> ub_buffer_length (us ! i)"
  shows "\<exists>b buf. kernel_reap ev u = Some (u\<lparr>uc_urbs := (uc_urbs u)(p \<mapsto> us[i := b]), uc_buffer := (uc_buffer u)(t := buf)\<rparr>) \<and>
    length buf = length (uc_buffer u t) \<and> ub_status b = re_status ev \<and> ub_actual_length b = re_actual_length ev \<and>
    ub_usercontext b = t \<and> ub_buffer b = ub_buffer (us ! i) \<and> ub_buffer_length b = ub_buffer_length (us ! i)"
proof -
  let ?old = "us ! i"
  let ?b = "?old\<lparr>ub_status := re_status ev, ub_actual_length := re_actual_length ev,
       ub_iso_frame_desc := (if ub_type ?old = USBFS_URB_TYPE_ISO then re_frames ev else ub_iso_frame_desc ?old)\<rparr>"
  have b0: "ub_usercontext ?old = t" "0 \<le> ub_buffer ?old"
    "ub_buffer ?old + ub_buffer_length ?old \<le> int (length (uc_buffer u t))"
    using ok i by (auto simp: urbs_ok_def)
  then have fits: "nat (ub_buffer ?old) + length (re_data ev) \<le> length (uc_buffer u t)" using dat by linarith
  define buf where "buf = (if re_data ev = [] then uc_buffer u t else write_at (nat (ub_buffer ?old)) (re_data ev) (uc_buffer u t))"
  have "kernel_reap ev u = Some (u\<lparr>uc_urbs := (uc_urbs u)(p \<mapsto> us[i := ?b]), uc_buffer := (uc_buffer u)(t := buf)\<rparr>)"
    using us i fits b0(1) by (simp add: kernel_reap_def ev get_urb_def put_urb_def Let_def buf_def)
  with fits b0(1) show ?thesis by (intro exI [of _ ?b] exI [of _ buf]) (simp add: buf_def)
qed

lemma urbs_ok_update:
  assumes "urbs_ok t us n" and "i < length us" and "ub_usercontext b = t" and "ub_buffer b = ub_buffer (us ! i)"
    and "ub_buffer_length b = ub_buffer_length (us ! i)"
  shows "urbs_ok t (us[i := b]) n" and "bytes_out (us[i := b]) pend = bytes_out us pend"
proof -
  have "map ub_buffer_length (us[i := b]) = map ub_buffer_length us"
    using assms(2,5) by (simp add: map_update list_update_same_conv)
  moreover have "c \<in> set us \<or> c = b" if "c \<in> set (us[i := b])" for c
    using that set_update_subset_insert by fastforce
  ultimately show "urbs_ok t (us[i := b]) n"
    using assms nth_mem [OF assms(2)] unfolding urbs_ok_def by metis
  have "ub_buffer_length (us[i := b] ! j) = ub_buffer_length (us ! j)" for j
    using assms(2,5) by (cases "j = i") simp_all
  then show "bytes_out (us[i := b]) pend = bytes_out us pend" by (simp add: bytes_out_def)
qed

lemma cancellation_quiet:
  assumes "io_wf c" and "get_x t c = Some x" and "in_flight c t" and "cb_quiet cb"
    and "LIBUSB_TRANSFER_FREE_TRANSFER \<notin> tr_flags x"
  shows "\<exists>status. usbi_handle_transfer_cancellation cb e t c = usbi_handle_transfer_completion cb e t status c \<and>
    status = (if USBI_TRANSFER_TIMED_OUT \<in> it_timeout_flags x then LIBUSB_TRANSFER_TIMED_OUT else LIBUSB_TRANSFER_CANCELLED)"
  using io_wfD(1) [OF assms(1)] assms(2)
  by (simp add: usbi_handle_transfer_cancellation_def lock_flying_def unlock_flying_def)

text \<open>What the last reap leaves: \<open>x\<close> is the transfer before it, in the context \<open>c\<close>.\<close>

definition bulk_finished :: "ptr \<Rightarrow> ptr \<Rightarrow> usbi_transfer \<Rightarrow> reap_event \<Rightarrow> io_ctx \<Rightarrow> urb_ctx \<Rightarrow> bool" where
  "bulk_finished t p x ev c u' \<longleftrightarrow> io_wf (uc_io u') \<and> \<not> in_flight (uc_io u') t \<and>
     ic_flying (uc_io u') = remove1 t (ic_flying c) \<and> tp_urbs (uc_priv u' t) = No_urbs \<and> uc_urbs u' p = None \<and>
     hp_live (ic_heap (uc_io u')) = hp_live (ic_heap c) - {p} \<and>
     map_option tr_actual_length (get_x t (uc_io u')) = Some (it_transferred x + re_actual_length ev)"

lemma io_wf_heap [simp]: "io_wf (c\<lparr>ic_heap := h\<rparr>) \<longleftrightarrow> io_wf c"
  by (simp add: io_wf_def quiescent_def flying_wf_def tv_sorted_def timeout_of_def in_flight_def get_x_def)

lemma in_flight_heap [simp]: "in_flight (c\<lparr>ic_heap := h\<rparr>) t \<longleftrightarrow> in_flight c t"
  by (simp add: in_flight_def get_x_def)

lemma get_x_heap [simp]: "get_x t (c\<lparr>ic_heap := h\<rparr>) = get_x t c"
  by (simp add: get_x_def)

lemma put_x_heap: "put_x t y (c\<lparr>ic_heap := h\<rparr>) = (put_x t y c)\<lparr>ic_heap := h\<rparr>"
  by (simp add: put_x_def)

lemma bulk_complete_spec:
  assumes wf: "io_wf c" and fl: "in_flight c t" and x: "get_x t c = Some x" and cb: "cb_quiet cb"
    and nf: "LIBUSB_TRANSFER_FREE_TRANSFER \<notin> tr_flags x" and p: "p \<in> hp_live (ic_heap c)"
    and u: "uc_io u = put_x t (y\<lparr>it_lock := True\<rparr>) c" and urbs: "uc_urbs u p = Some us"
    and y: "y = x\<lparr>it_transferred := n\<rparr>"
  shows "\<exists>u3 u4 r c'. free_urbs p u = Some u3 \<and> on_io (unlock_x t) (set_priv t tp u3) = Some u4 \<and>
    (if b then usbi_handle_transfer_cancellation cb e t (uc_io u4)
     else usbi_handle_transfer_completion cb e t s (uc_io u4)) = Some (r, c') \<and>
    io_wf c' \<and> \<not> in_flight c' t \<and> ic_flying c' = remove1 t (ic_flying c) \<and> uc_priv u4 t = tp \<and> uc_urbs u4 p = None \<and>
    hp_live (ic_heap c') = hp_live (ic_heap c) - {p} \<and> map_option tr_actual_length (get_x t c') = Some n"
proof -
  define h where "h = (ic_heap c)\<lparr>hp_live := hp_live (ic_heap c) - {p}\<rparr>"
  define c1 where "c1 = (put_x t y c)\<lparr>ic_heap := h\<rparr>"
  define u3 where "u3 = set_uheap h (u\<lparr>uc_urbs := (uc_urbs u)(p := None)\<rparr>)"
  have f: "free_urbs p u = Some u3"
    using p by (simp add: free_urbs_def u c_release_def u3_def h_def)
  have nl: "\<not> it_lock y" using io_wfD(2) [OF wf x] y by simp
  have un: "on_io (unlock_x t) (set_priv t tp u3) = Some ((set_priv t tp u3)\<lparr>uc_io := c1\<rparr>)"
    using nl by (simp add: on_io_def unlock_x_def set_priv_def u3_def set_uheap_def u c1_def put_x_heap [symmetric])
  have wf1: "io_wf c1" unfolding c1_def io_wf_heap using nl y by (intro io_wf_put [OF wf x]) simp_all
  have g1: "get_x t c1 = Some y" by (simp add: c1_def)
  have fl1: "in_flight c1 t" using fl x y by (simp add: c1_def) (simp add: in_flight_def)
  have nf1: "LIBUSB_TRANSFER_FREE_TRANSFER \<notin> tr_flags y" using nf y by simp
  obtain s' where s': "(if b then usbi_handle_transfer_cancellation cb e t c1
      else usbi_handle_transfer_completion cb e t s c1) = usbi_handle_transfer_completion cb e t s' c1"
    using cancellation_quiet [OF wf1 g1 fl1 cb nf1, of e] by (cases b) auto
  from completion_quiet [OF wf1 g1 fl1 cb nf1, of e s'] obtain r tm where
    c: "usbi_handle_transfer_completion cb e t s' c1 = Some (r, io_upd t (completed y s') (remove1 t (ic_flying c1)) tm
      ((ic_refs c1)(tr_dev y := ic_refs c1 (tr_dev y) - 1)) c1)" by blast
  define c' where "c' = io_upd t (completed y s') (remove1 t (ic_flying c1)) tm
      ((ic_refs c1)(tr_dev y := ic_refs c1 (tr_dev y) - 1)) c1"
  have c': "io_wf c'" "\<not> in_flight c' t" "ic_flying c' = remove1 t (ic_flying c)"
    "hp_live (ic_heap c') = hp_live (ic_heap c) - {p}" "map_option tr_actual_length (get_x t c') = Some n"
    using completed_wf [OF wf1 g1] y by (simp_all add: c'_def completed_def in_flight_def c1_def h_def)
  have "(if b then usbi_handle_transfer_cancellation cb e t (uc_io ((set_priv t tp u3)\<lparr>uc_io := c1\<rparr>))
     else usbi_handle_transfer_completion cb e t s (uc_io ((set_priv t tp u3)\<lparr>uc_io := c1\<rparr>))) = Some (r, c')"
    using s' c by (cases b) (simp_all add: c'_def)
  moreover have "uc_priv ((set_priv t tp u3)\<lparr>uc_io := c1\<rparr>) t = tp" "uc_urbs ((set_priv t tp u3)\<lparr>uc_io := c1\<rparr>) p = None"
    by (simp_all add: set_priv_def u3_def set_uheap_def)
  ultimately show ?thesis using f un c' by blast
qed

lemma lock_transferred:
  "x\<lparr>it_lock := l, it_transferred := n\<rparr> = x\<lparr>it_transferred := n, it_lock := l\<rparr>"
  by (rule usbi_transfer.equality) simp_all

lemma free_urbs_priv: "free_urbs p u = Some u' \<Longrightarrow> uc_priv u' = uc_priv u"
  by (auto simp: free_urbs_def set_uheap_def bind_eq_Some_conv)

lemma reap_bulk:
  assumes wf: "io_wf (uc_io u)" and fl: "in_flight (uc_io u) t" and cb: "cb_quiet cb"
    and x: "get_x t (uc_io u) = Some x" and nf: "LIBUSB_TRANSFER_FREE_TRANSFER \<notin> tr_flags x"
    and uw: "urbs_wf t pend u" and ev: "bulk_event t pend u ev"
  shows "\<exists>r u'. reap_for_handle k cb e (Reaped ev) u = Some (r, u') \<and>
    (if pend = {snd (re_urb ev)} then bulk_finished t (fst (re_urb ev)) x ev (uc_io u) u'
     else r = 0 \<and> urbs_wf t (pend - {snd (re_urb ev)}) u' \<and> io_wf (uc_io u') \<and> in_flight (uc_io u') t \<and>
       get_x t (uc_io u') = Some (x\<lparr>it_transferred := it_transferred x + re_actual_length ev\<rparr>))"
proof -
  obtain p i where re: "re_urb ev = (p, i)" by fastforce
  from uw x obtain us where ty: "bulk_type x" and us: "uc_urbs u p = Some us" and urbs: "tp_urbs (uc_priv u t) = Urbs p"
    and live: "p \<in> hp_live (ic_heap (uc_io u))" and ok: "urbs_ok t us (length (uc_buffer u t))"
    and pd: "pend_ok (uc_priv u t) (length us) pend" and tr: "0 \<le> it_transferred x" "it_transferred x \<le> bytes_out us pend"
    using ev re by (auto simp: urbs_wf_def bulk_event_def)
  from ev re have i: "i \<in> pend" by (simp add: bulk_event_def)
  with pd have il: "i < length us" by (auto simp: pend_ok_def)
  from ev re us il have act: "0 \<le> re_actual_length ev" "re_actual_length ev \<le> ub_buffer_length (us ! i)"
    and dat: "int (length (re_data ev)) \<le> ub_buffer_length (us ! i)"
    by (auto simp: bulk_event_def get_urb_def)
  from kernel_reap_bulk [OF us ok il re dat] obtain b buf where
    kr: "kernel_reap ev u = Some (u\<lparr>uc_urbs := (uc_urbs u)(p \<mapsto> us[i := b]), uc_buffer := (uc_buffer u)(t := buf)\<rparr>)"
    and lb: "length buf = length (uc_buffer u t)" and bs: "ub_status b = re_status ev"
    "ub_actual_length b = re_actual_length ev" "ub_usercontext b = t" "ub_buffer b = ub_buffer (us ! i)"
    "ub_buffer_length b = ub_buffer_length (us ! i)" by blast
  define u1 where "u1 = u\<lparr>uc_urbs := (uc_urbs u)(p \<mapsto> us[i := b]), uc_buffer := (uc_buffer u)(t := buf),
    uc_io := put_x t (x\<lparr>it_lock := True\<rparr>) (uc_io u)\<rparr>"
  let ?xl = "x\<lparr>it_lock := True\<rparr>"
  have nl: "\<not> it_lock x" using io_wfD(2) [OF wf x] .
  have room: "room_for ?xl b (length (uc_buffer u1 t))"
  proof -
    have "it_transferred x + re_actual_length ev \<le> bytes_out us (pend - {i})"
      using bytes_out_remove [OF i, of us] pd tr(2) act(2) by (simp add: pend_ok_def)
    also have "\<dots> \<le> int (length (uc_buffer u t))" by (rule bytes_out_le [OF ok])
    finally have "it_transferred x + re_actual_length ev \<le> int (length (uc_buffer u t))" .
    moreover have "0 \<le> ub_buffer (us ! i)" "ub_buffer (us ! i) + ub_buffer_length (us ! i) \<le> int (length (uc_buffer u t))"
      using ok il by (auto simp: urbs_ok_def)
    ultimately show ?thesis using act tr(1) bs lb by (simp add: room_for_def u1_def)
  qed
  have order: "(\<forall>j \<in> pend. i \<le> j) \<and> (ub_status b = - EOVERFLOW \<longrightarrow> pend = {i})"
    if "tp_reap_action (uc_priv u1 t) = NORMAL" using that ev re bs(1) by (simp add: bulk_event_def u1_def)
  have "get_x t (uc_io u1) = Some ?xl" "bulk_type ?xl" "tp_urbs (uc_priv u1 t) = Urbs p"
    "pend_ok (uc_priv u1 t) (length us) pend" using ty urbs pd by (simp_all add: u1_def bulk_type_def)
  from bulk_reap_spec [OF this i room order, of k] obtain g tp' buf' calls where
    br: "bulk_reap k t b i u1 = Some (g, bulk_upd t (add_bytes b ?xl) tp' buf' calls u1)"
    and lb': "length buf' = length (uc_buffer u1 t)" and tp': "tp_urbs tp' = Urbs p" "g = Completed \<longleftrightarrow> pend = {i}"
      "pend_ok tp' (length us) (pend - {i})" by blast
  define u2 where "u2 = bulk_upd t (add_bytes b ?xl) tp' buf' calls u1"
  define y where "y = x\<lparr>it_transferred := it_transferred x + re_actual_length ev\<rparr>"
  have u2: "uc_io u2 = put_x t (y\<lparr>it_lock := True\<rparr>) (uc_io u)" "uc_urbs u2 p = Some (us[i := b])" "uc_priv u2 t = tp'"
    using bs(2) by (simp_all add: u2_def u1_def y_def add_bytes_def lock_transferred)
  have reap: "reap_for_handle k cb e (Reaped ev) u = handle_bulk_completion k cb e t (p, i)
      (u\<lparr>uc_urbs := (uc_urbs u)(p \<mapsto> us[i := b]), uc_buffer := (uc_buffer u)(t := buf)\<rparr>)"
    using kr il bs(3) x ty by (auto simp: reap_for_handle_def re get_urb_def bulk_type_def split: transfer_type.splits)
  also have "\<dots> = (if g = Completed then bulk_completed cb e t p u2 else do { u3 \<leftarrow> on_io (unlock_x t) u2; Some (0, u3) })"
  proof -
    have "on_io (lock_x t) (u\<lparr>uc_urbs := (uc_urbs u)(p \<mapsto> us[i := b]), uc_buffer := (uc_buffer u)(t := buf)\<rparr>) = Some u1"
      using x nl by (simp add: on_io_def lock_x_def u1_def)
    moreover have "get_urb p i u1 = Some b" using il by (simp add: get_urb_def u1_def)
    ultimately show ?thesis using br urbs by (simp add: handle_bulk_completion_def u2_def)
  qed
  finally have run: "reap_for_handle k cb e (Reaped ev) u = \<dots>" .
  show ?thesis
  proof (cases "pend = {i}")
    case True
    from bulk_complete_spec [OF wf fl x cb nf live u2(1,2) y_def, of "tp'\<lparr>tp_urbs := No_urbs\<rparr>"
        "tp_reap_action tp' = CANCELLED" e "tp_reap_status tp'"] obtain u3 u4 r c' where
      "free_urbs p u2 = Some u3" "on_io (unlock_x t) (set_priv t (tp'\<lparr>tp_urbs := No_urbs\<rparr>) u3) = Some u4"
      "(if tp_reap_action tp' = CANCELLED then usbi_handle_transfer_cancellation cb e t (uc_io u4)
        else usbi_handle_transfer_completion cb e t (tp_reap_status tp') (uc_io u4)) = Some (r, c')"
      "io_wf c'" "\<not> in_flight c' t" "ic_flying c' = remove1 t (ic_flying (uc_io u))"
      "uc_priv u4 t = tp'\<lparr>tp_urbs := No_urbs\<rparr>" "uc_urbs u4 p = None"
      "hp_live (ic_heap c') = hp_live (ic_heap (uc_io u)) - {p}"
      "map_option tr_actual_length (get_x t c') = Some (it_transferred x + re_actual_length ev)"
      by blast
    moreover from this(1) have "uc_priv u3 t = tp'" using free_urbs_priv [of p u2 u3] u2(3) by simp
    ultimately show ?thesis unfolding run re using True tp'(2)
      by (cases "tp_reap_action tp' = CANCELLED") (simp_all add: bulk_finished_def bulk_completed_def)
  next
    case False
    define u3 where "u3 = u2\<lparr>uc_io := put_x t y (uc_io u)\<rparr>"
    have "on_io (unlock_x t) u2 = Some u3" using nl by (simp add: on_io_def unlock_x_def u2(1) u3_def y_def)
    then have r: "reap_for_handle k cb e (Reaped ev) u = Some (0, u3)" unfolding run using False tp'(2) by simp
    note bok = urbs_ok_update [OF ok il bs(3-5)]
    have "urbs_wf t (pend - {i}) u3" unfolding urbs_wf_def
      by (rule exI [of _ y], rule exI [of _ p], rule exI [of _ "us[i := b]"])
        (use ty tp' live lb lb' bok bytes_out_remove [OF i, of us] pd tr act u2 in
          \<open>simp add: u3_def u2_def y_def u1_def bulk_type_def pend_ok_def\<close>)
    moreover have "io_wf (uc_io u3)" using nl by (simp add: u3_def y_def) (intro io_wf_put [OF wf x], simp_all)
    moreover have "in_flight (uc_io u3) t" using fl x by (simp add: u3_def y_def) (simp add: in_flight_def)
    ultimately show ?thesis unfolding re using r False by (simp add: u3_def y_def)
  qed
qed

end
