(* ===== verification/Linux_Bulk_Props.thy ===== *)
theory Linux_Bulk_Props
  imports Linux_Bulk
begin

text \<open>
  Bulk and interrupt transfers in the Linux backend: the pieces tile the user's buffer, submission establishes the
  invariant of Linux_Bulk, cancellation keeps it, and the transfer ends with its last URB. At the end a run
  that violates the order of reaps.
\<close>

subsection \<open>Cutting a transfer into pieces\<close>

lemma c_division:
  fixes a b :: int
  assumes "0 \<le> a" and "0 < b"
  shows "a sdiv b = a div b" and "a smod b = a mod b"
  using assms by (cases "a = 0"; simp add: signed_divide_int_def signed_modulo_int_def)+

lemma bulk_piece:
  assumes len: "0 \<le> len" and sp: "bulk_split caps len = (bl, cont)" and num: "bulk_num_urbs len bl = (num, part)"
  shows "1 \<le> num" and "0 < bl" and "cont \<Longrightarrow> bl = MAX_BULK_BUFFER_LENGTH"
    and "len = 0 \<Longrightarrow> num = 1 \<and> \<not> part"
    and "0 < len \<Longrightarrow> (num - 1) * bl + (if part then len mod bl else bl) = len"
    and "0 \<le> (if part then len mod bl else bl)" and "(if part then len mod bl else bl) \<le> bl"
proof -
  show bl: "0 < bl" and "cont \<Longrightarrow> bl = MAX_BULK_BUFFER_LENGTH"
    using sp len by (auto simp: bulk_split_def split: if_splits)
  have c: "len sdiv bl = len div bl" "len smod bl = len mod bl"
    using c_division [OF len bl] by simp_all
  show "len = 0 \<Longrightarrow> num = 1 \<and> \<not> part" using num by (simp add: bulk_num_urbs_def)
  have dm: "len div bl * bl + len mod bl = len" by (rule div_mult_mod_eq)
  have mb: "0 \<le> len mod bl" "len mod bl < bl" using bl by simp_all
  have dv: "0 \<le> len div bl" using len bl by (simp add: pos_imp_zdiv_nonneg_iff)
  show "1 \<le> num"
  proof (cases "len = 0 \<or> 0 < len mod bl")
    case True
    then show ?thesis using num dv by (auto simp: bulk_num_urbs_def c split: if_splits)
  next
    case False
    with mb dm have "len div bl * bl = len" "0 < len" using len by auto
    then have "0 < len div bl" using bl by (metis mult_le_0_iff not_le not_less_iff_gr_or_eq)
    with False num show ?thesis by (auto simp: bulk_num_urbs_def c split: if_splits)
  qed
  show "(num - 1) * bl + (if part then len mod bl else bl) = len" if "0 < len"
  proof (cases part)
    case True
    with num that have "num = len div bl + 1" by (simp add: bulk_num_urbs_def c split: if_splits)
    with True dm show ?thesis by simp
  next
    case False
    with num that have "num = len div bl" "len mod bl = 0" using mb by (auto simp: bulk_num_urbs_def c split: if_splits)
    with False dm show ?thesis by (simp add: left_diff_distrib)
  qed
  show "0 \<le> (if part then len mod bl else bl)" "(if part then len mod bl else bl) \<le> bl"
    using mb(1) less_imp_le [OF mb(2)] less_imp_le [OF bl] by (cases part; simp only: if_True if_False)+
qed

lemma bulk_urb_fields [simp]:
  "ub_usercontext (bulk_urb x t bl cont num part i) = t" "ub_buffer (bulk_urb x t bl cont num part i) = int i * bl"
  "ub_endpoint (bulk_urb x t bl cont num part i) = tr_endpoint x"
  by (simp_all add: bulk_urb_def Let_def zero_urb_def split: transfer_type.splits)

lemma bulk_urb_length:
  "ub_buffer_length (bulk_urb x t bl cont num part i) =
    (if int i = num - 1 \<and> part then tr_length x smod bl else if tr_length x = 0 then 0 else bl)"
  by (simp add: bulk_urb_def Let_def)

lemma bulk_urb_piece:
  assumes len: "0 \<le> tr_length x" and sp: "bulk_split caps (tr_length x) = (bl, cont)"
    and num: "bulk_num_urbs (tr_length x) bl = (num, part)" and i: "i < nat num"
  shows "0 \<le> ub_buffer_length (bulk_urb x t bl cont num part i)"
    and "int (Suc i) < num \<Longrightarrow> ub_buffer_length (bulk_urb x t bl cont num part i) = bl"
    and "int i * bl + ub_buffer_length (bulk_urb x t bl cont num part i) \<le> tr_length x"
    and "int (Suc i) = num \<Longrightarrow> int i * bl + ub_buffer_length (bulk_urb x t bl cont num part i) = tr_length x"
    and "ub_buffer_length (bulk_urb x t bl cont num part i) \<le> bl"
proof -
  note b = bulk_piece [OF len sp num]
  define l where "l = ub_buffer_length (bulk_urb x t bl cont num part i)"
  have c: "tr_length x smod bl = tr_length x mod bl" using c_division [OF len b(2)] by simp
  have l: "l = (if int i = num - 1 \<and> part then tr_length x mod bl else if tr_length x = 0 then 0 else bl)"
    by (simp add: l_def bulk_urb_length c)
  show "0 \<le> ub_buffer_length (bulk_urb x t bl cont num part i)" "ub_buffer_length (bulk_urb x t bl cont num part i) \<le> bl"
    using b(2,6,7) l unfolding l_def by auto
  show full: "ub_buffer_length (bulk_urb x t bl cont num part i) = bl" if "int (Suc i) < num"
    using that b(4) len l unfolding l_def by auto
  show last: "int i * bl + ub_buffer_length (bulk_urb x t bl cont num part i) = tr_length x" if "int (Suc i) = num"
  proof (cases "tr_length x = 0")
    case True
    with b(4) l that show ?thesis unfolding l_def by auto
  next
    case False
    moreover from that have "int i = num - 1" by simp
    ultimately show ?thesis using b(5) len l unfolding l_def by auto
  qed
  show "int i * bl + ub_buffer_length (bulk_urb x t bl cont num part i) \<le> tr_length x"
  proof (cases "int (Suc i) = num")
    case True
    from last [OF this] show ?thesis by simp
  next
    case False
    with i have s: "int (Suc i) < num" by linarith
    then have "tr_length x \<noteq> 0" using b(4) by auto
    then have "0 < tr_length x" using len by simp
    have "int (Suc i) * bl \<le> (num - 1) * bl" using s b(2) by (intro mult_right_mono) simp_all
    also have "\<dots> \<le> tr_length x" using b(5) [OF \<open>0 < tr_length x\<close>] b(6) by linarith
    finally show ?thesis using full [OF s] by (simp add: distrib_right)
  qed
qed

lemma bulk_urbs_prefix:
  assumes "0 \<le> tr_length x" and "bulk_split caps (tr_length x) = (bl, cont)"
    and "bulk_num_urbs (tr_length x) bl = (num, part)" and "i < nat num"
  shows "(\<Sum>b\<leftarrow>map (bulk_urb x t bl cont num part) [0..<i]. ub_buffer_length b) = int i * bl"
  using assms(4)
proof (induction i)
  case 0
  then show ?case by simp
next
  case (Suc i)
  then have "i < nat num" "int (Suc i) < num" by linarith+
  from bulk_urb_piece(2) [OF assms(1-3) this] Suc.IH [OF this(1)] show ?case by (simp add: distrib_right)
qed

lemma bulk_urbs_sum:
  assumes "0 \<le> tr_length x" and "bulk_split caps (tr_length x) = (bl, cont)"
    and "bulk_num_urbs (tr_length x) bl = (num, part)"
  shows "(\<Sum>b\<leftarrow>map (bulk_urb x t bl cont num part) [0..<nat num]. ub_buffer_length b) = tr_length x"
proof -
  obtain m where m: "nat num = Suc m" using bulk_piece(1) [OF assms] by (cases "nat num") auto
  then have "m < nat num" "int (Suc m) = num" by linarith+
  from bulk_urbs_prefix [OF assms this(1)] bulk_urb_piece(4) [OF assms this(1,2)] show ?thesis
    by (simp add: m)
qed

lemma bulk_urb_flags:
  "ub_flags (bulk_urb x t bl cont num part i) AND USBFS_URB_BULK_CONTINUATION \<noteq> 0 \<longleftrightarrow> cont \<and> 0 < i"
  "ub_flags (bulk_urb x t bl cont num part i) AND USBFS_URB_SHORT_NOT_OK \<noteq> 0 \<longleftrightarrow> cont \<and> \<not> is_out x \<and> int i < num - 1"
  "ub_flags (bulk_urb x t bl cont num part i) AND USBFS_URB_ZERO_PACKET \<noteq> 0 \<longleftrightarrow>
    is_out x \<and> int i = num - 1 \<and> LIBUSB_TRANSFER_ADD_ZERO_PACKET \<in> tr_flags x"
  by (simp_all add: bulk_urb_def Let_def)

subsection \<open>Submission\<close>

text \<open>The URBs whose submission the kernel accepted in the calls \<open>cs\<close>, which followed the calls \<open>pre\<close>.\<close>

primrec accepted :: "usbfs \<Rightarrow> ioctl list \<Rightarrow> ioctl list \<Rightarrow> nat set" where
  "accepted k pre [] = {}"
| "accepted k pre (c # cs) =
     (case c of SUBMITURB p i \<Rightarrow> if k pre c = 0 then {i} else {} | DISCARDURB p i \<Rightarrow> {}) \<union> accepted k (pre @ [c]) cs"

lemma accepted_discards [simp]: "accepted k pre (map (DISCARDURB p) is) = {}"
  by (induction "is" arbitrary: pre) simp_all

definition held_after :: "usbfs \<Rightarrow> urb_ctx \<Rightarrow> urb_ctx \<Rightarrow> nat set" where
  "held_after k u u' = accepted k (uc_calls u) (drop (length (uc_calls u)) (uc_calls u'))"

text \<open>After \<open>j\<close> URBs were handed to the kernel: what the array holds, and what the transfer is.\<close>

definition submitting :: "ptr \<Rightarrow> usbi_transfer \<Rightarrow> ptr \<Rightarrow> (nat \<Rightarrow> usbfs_urb) \<Rightarrow> nat \<Rightarrow> nat \<Rightarrow> urb_ctx \<Rightarrow> bool" where
  "submitting t x p mk n j u \<longleftrightarrow> get_x t (uc_io u) = Some x \<and> j \<le> n \<and> p \<in> hp_live (ic_heap (uc_io u)) \<and>
     uc_urbs u p = Some (map mk [0..<j] @ replicate (n - j) (zero_urb t)) \<and>
     tp_urbs (uc_priv u t) = Urbs p \<and> tp_num_urbs (uc_priv u t) = int n \<and> tp_num_retired (uc_priv u t) = 0 \<and>
     tp_reap_action (uc_priv u t) = NORMAL"

definition pieces_ok :: "ptr \<Rightarrow> (nat \<Rightarrow> usbfs_urb) \<Rightarrow> nat \<Rightarrow> nat \<Rightarrow> bool" where
  "pieces_ok t mk n len \<longleftrightarrow> (\<forall>j \<le> n. urbs_ok t (map mk [0..<j] @ replicate (n - j) (zero_urb t)) len)"

lemma pieces_okI:
  assumes "\<And>i. i < n \<Longrightarrow> ub_usercontext (mk i) = t \<and> 0 \<le> ub_buffer_length (mk i) \<and> 0 \<le> ub_buffer (mk i) \<and>
      ub_buffer (mk i) + ub_buffer_length (mk i) \<le> int len"
    and sum: "(\<Sum>b\<leftarrow>map mk [0..<n]. ub_buffer_length b) \<le> int len"
  shows "pieces_ok t mk n len"
proof (unfold pieces_ok_def, intro allI impI)
  fix j assume j: "j \<le> n"
  have "(\<Sum>b\<leftarrow>map mk [0..<j]. ub_buffer_length b) \<le> (\<Sum>b\<leftarrow>map mk [0..<n]. ub_buffer_length b)"
  proof -
    have "[0..<n] = [0..<j] @ [j..<n]" using j by (metis le_add_diff_inverse upt_add_eq_append zero_le)
    moreover have "0 \<le> (\<Sum>b\<leftarrow>map mk [j..<n]. ub_buffer_length b)" using assms(1) by (intro sum_list_nonneg) auto
    ultimately show ?thesis by simp
  qed
  moreover have "(\<Sum>b\<leftarrow>replicate (n - j) (zero_urb t). ub_buffer_length b) = 0" by (simp add: zero_urb_def sum_list_replicate)
  ultimately have "(\<Sum>b\<leftarrow>map mk [0..<j] @ replicate (n - j) (zero_urb t). ub_buffer_length b) \<le> int len"
    using sum by simp
  then show "urbs_ok t (map mk [0..<j] @ replicate (n - j) (zero_urb t)) len"
    using assms(1) j by (auto simp: urbs_ok_def zero_urb_def)
qed

lemma submitting_put:
  assumes "submitting t x p mk n j u" and "j < n"
  shows "\<exists>u1. put_urb p j (mk j) u = Some u1 \<and> (\<forall>cs. submitting t x p mk n (Suc j) (u1\<lparr>uc_calls := cs\<rparr>)) \<and>
    uc_buffer u1 = uc_buffer u \<and> uc_io u1 = uc_io u"
proof -
  have "(map mk [0..<j] @ replicate (n - j) (zero_urb t))[j := mk j] = map mk [0..<Suc j] @ replicate (n - Suc j) (zero_urb t)"
    using assms(2) by (cases "n - j") (simp_all add: list_update_append)
  then show ?thesis using assms by (simp add: put_urb_def submitting_def)
qed

lemma urbs_wfI:
  assumes "get_x t (uc_io u) = Some x" and "bulk_type x" and "tp_urbs (uc_priv u t) = Urbs p"
    and "uc_urbs u p = Some us" and "p \<in> hp_live (ic_heap (uc_io u))" and "urbs_ok t us (length (uc_buffer u t))"
    and "pend_ok (uc_priv u t) (length us) pend" and "it_transferred x = 0"
  shows "urbs_wf t pend u"
proof -
  have "0 \<le> bytes_out us pend" using assms(6) unfolding bytes_out_def urbs_ok_def by (intro sum_nonneg) auto
  with assms show ?thesis unfolding urbs_wf_def by (intro exI [of _ x] exI [of _ p] exI [of _ us]) simp
qed

lemma submitting_wf:
  assumes "submitting t x p mk n n u" and "pieces_ok t mk n (length (uc_buffer u t))" and "bulk_type x" and "it_transferred x = 0"
  shows "urbs_wf t {0..<n} u"
proof (rule urbs_wfI [where p = p])
  show "urbs_ok t (map mk [0..<n] @ replicate (n - n) (zero_urb t)) (length (uc_buffer u t))"
    using assms(2) [unfolded pieces_ok_def, rule_format, of n] by simp
qed (use assms in \<open>simp_all add: submitting_def pend_ok_def atLeast0LessThan\<close>)

lemma submit_failed_wf:
  assumes s: "submitting t x p mk n (Suc i) u" and ok: "pieces_ok t mk n (length (uc_buffer u t))"
    and ty: "bulk_type x" and tr: "it_transferred x = 0" and i: "0 < i"
  shows "\<exists>u'. bulk_submit_failed k t p (int n) i e u = Some (0, u') \<and> urbs_wf t {0..<i} u' \<and> uc_io u' = uc_io u \<and>
    (\<exists>is. uc_calls u' = uc_calls u @ map (DISCARDURB p) is)"
proof -
  define tp where "tp = (uc_priv u t)\<lparr>tp_reap_action := (if e = EREMOTEIO then COMPLETED_EARLY else SUBMIT_FAILED),
                       tp_num_retired := tp_num_retired (uc_priv u t) + (int n - int i)\<rparr>"
  let ?us = "map mk [0..<Suc i] @ replicate (n - Suc i) (zero_urb t)"
  have wf: "urbs_wf t {0..<i} ((set_priv t tp u)\<lparr>uc_calls := cs\<rparr>)" for cs
  proof (rule urbs_wfI [where p = p])
    show "urbs_ok t ?us (length (uc_buffer ((set_priv t tp u)\<lparr>uc_calls := cs\<rparr>) t))"
      using s ok by (simp add: pieces_ok_def submitting_def set_priv_def del: upt_Suc)
    show "pend_ok (uc_priv ((set_priv t tp u)\<lparr>uc_calls := cs\<rparr>) t) (length ?us) {0..<i}"
      using s by (auto simp: submitting_def set_priv_def tp_def pend_ok_def)
  qed (use s ty tr in \<open>simp_all add: submitting_def set_priv_def tp_def del: upt_Suc\<close>)
  have g: "get_x t (uc_io (set_priv t tp u)) = Some x" "tp_urbs (uc_priv (set_priv t tp u) t) = Urbs p"
    using s by (simp_all add: submitting_def set_priv_def tp_def)
  define cs where "cs = uc_calls u @ map (DISCARDURB p) (rev [0..<i])"
  from discard_urbs_bulk [OF g(1) ty g(2), of k 0 i] obtain r where
    d: "discard_urbs k t 0 i (set_priv t tp u) = Some (r, (set_priv t tp u)\<lparr>uc_calls := cs\<rparr>)"
    by (auto simp: cs_def set_priv_def)
  have "bulk_submit_failed k t p (int n) i e u =
      (if e = EREMOTEIO then Some (0, set_priv t tp u) else do { (_, u2) \<leftarrow> discard_urbs k t 0 i (set_priv t tp u); Some (0, u2) })"
    using i by (simp add: bulk_submit_failed_def tp_def Let_def)
  moreover have "urbs_wf t {0..<i} (set_priv t tp u)" using wf [of "uc_calls u"] by (simp add: set_priv_def)
  moreover have "\<exists>is. uc_calls u = uc_calls u @ map (DISCARDURB p) is" by (rule exI [of _ "[]"]) simp
  moreover have "\<exists>is. cs = uc_calls u @ map (DISCARDURB p) is" unfolding cs_def by blast
  ultimately show ?thesis using d wf [of cs] by (cases "e = EREMOTEIO") (simp_all add: set_priv_def)
qed

definition nothing_left :: "ptr \<Rightarrow> ptr set \<Rightarrow> urb_ctx \<Rightarrow> bool" where
  "nothing_left t live u \<longleftrightarrow> tp_urbs (uc_priv u t) = No_urbs \<and> hp_live (ic_heap (uc_io u)) = live"

lemma submit_loop_wf:
  assumes "submitting t x p mk n j u" and "pieces_ok t mk n (length (uc_buffer u t))"
    and "bulk_type x" and "it_transferred x = 0" and "0 < n"
  shows "\<exists>r u' h cs. bulk_submit_loop k t p (int n) mk [j..<n] u = Some (r, u') \<and> uc_io u' = (uc_io u)\<lparr>ic_heap := h\<rparr> \<and>
    uc_calls u' = uc_calls u @ cs \<and>
    (if r = 0 then {0..<j} \<union> accepted k (uc_calls u) cs \<noteq> {} \<and> urbs_wf t ({0..<j} \<union> accepted k (uc_calls u) cs) u'
     else nothing_left t (hp_live (ic_heap (uc_io u)) - {p}) u')"
  using assms(1,2)
proof (induction "n - j" arbitrary: j u)
  case 0
  then have "j = n" by (simp add: submitting_def)
  moreover from 0 this have "urbs_wf t {0..<n} u" using submitting_wf assms(3,4) by blast
  ultimately show ?case using assms(5)
    by (intro exI [of _ 0] exI [of _ u] exI [of _ "ic_heap (uc_io u)"] exI [of _ "[]"]) simp
next
  case (Suc d)
  then have j: "j < n" by simp
  then have up: "[j..<n] = j # [Suc j..<n]" by (simp add: upt_conv_Cons)
  from submitting_put [OF Suc.prems(1) j] obtain u1 where u1: "put_urb p j (mk j) u = Some u1"
    "\<forall>cs. submitting t x p mk n (Suc j) (u1\<lparr>uc_calls := cs\<rparr>)" "uc_buffer u1 = uc_buffer u" "uc_io u1 = uc_io u"
    by blast
  then have cl: "uc_calls u1 = uc_calls u" by (auto simp: put_urb_def bind_eq_Some_conv split: if_splits)
  define e where "e = k (uc_calls u) (SUBMITURB p j)"
  define u2 where "u2 = u1\<lparr>uc_calls := uc_calls u @ [SUBMITURB p j]\<rparr>"
  have s2: "submitting t x p mk n (Suc j) u2" "uc_buffer u2 = uc_buffer u" "uc_io u2 = uc_io u"
    "uc_calls u2 = uc_calls u @ [SUBMITURB p j]"
    using u1 by (simp_all add: u2_def)
  have loop: "bulk_submit_loop k t p (int n) mk [j..<n] u =
      (if e \<noteq> 0 then bulk_submit_failed k t p (int n) j e u2 else bulk_submit_loop k t p (int n) mk [Suc j..<n] u2)"
    unfolding up by (simp add: u1(1) usb_ioctl_def e_def u2_def cl)
  show ?case
  proof (cases "e = 0")
    case True
    from Suc.hyps(2) have "d = n - Suc j" by simp
    note IH = Suc.hyps(1) [OF this s2(1), unfolded s2(2-4), OF Suc.prems(2)]
    then obtain r u' h cs where IH: "bulk_submit_loop k t p (int n) mk [Suc j..<n] u2 = Some (r, u')"
      "uc_io u' = (uc_io u)\<lparr>ic_heap := h\<rparr>" "uc_calls u' = (uc_calls u @ [SUBMITURB p j]) @ cs"
      "if r = 0 then {0..<Suc j} \<union> accepted k (uc_calls u @ [SUBMITURB p j]) cs \<noteq> {} \<and>
         urbs_wf t ({0..<Suc j} \<union> accepted k (uc_calls u @ [SUBMITURB p j]) cs) u'
       else nothing_left t (hp_live (ic_heap (uc_io u)) - {p}) u'" by blast
    have se: "{0..<Suc j} \<union> accepted k (uc_calls u @ [SUBMITURB p j]) cs =
        {0..<j} \<union> accepted k (uc_calls u) (SUBMITURB p j # cs)" using True by (auto simp: e_def)
    with IH(1-3) IH(4) [unfolded se] True loop show ?thesis
      by (intro exI [of _ r] exI [of _ u'] exI [of _ h] exI [of _ "SUBMITURB p j # cs"])
        (cases "r = 0"; simp del: accepted.simps)
  next
    case False
    have acc: "accepted k (uc_calls u) (SUBMITURB p j # map (DISCARDURB p) is) = {}" for "is"
      using False by (simp add: e_def)
    show ?thesis
    proof (cases "j = 0")
      case True
      define h where "h = (ic_heap (uc_io u))\<lparr>hp_live := hp_live (ic_heap (uc_io u)) - {p}\<rparr>"
      have "free_urbs p u2 = Some (set_uheap h (u2\<lparr>uc_urbs := (uc_urbs u2)(p := None)\<rparr>))"
        using s2 by (simp add: free_urbs_def submitting_def c_release_def h_def)
      with True False loop s2(3,4) show ?thesis
        by (intro exI [of _ "if e = ENODEV then LIBUSB_ERROR_NO_DEVICE else LIBUSB_ERROR_IO"] exI
              [of _ "set_priv t ((uc_priv u2 t)\<lparr>tp_urbs := No_urbs\<rparr>) (set_uheap h (u2\<lparr>uc_urbs := (uc_urbs u2)(p := None)\<rparr>))"] exI [of _ h])
          (simp add: bulk_submit_failed_def nothing_left_def set_priv_def set_uheap_def h_def)
    next
      case False
      from submit_failed_wf [OF s2(1) _ assms(3,4), of k e] False Suc.prems(2) s2(2) obtain u' "is" where
        u': "bulk_submit_failed k t p (int n) j e u2 = Some (0, u')" "urbs_wf t {0..<j} u'" "uc_io u' = uc_io u2"
          "uc_calls u' = uc_calls u2 @ map (DISCARDURB p) is" by auto
      have "bulk_submit_loop k t p (int n) mk [j..<n] u = Some (0, u')" using loop u'(1) \<open>e \<noteq> 0\<close> by simp
      moreover have "uc_io u' = (uc_io u)\<lparr>ic_heap := ic_heap (uc_io u)\<rparr>" using u'(3) s2(3) by simp
      moreover have "uc_calls u' = uc_calls u @ (SUBMITURB p j # map (DISCARDURB p) is)" using u'(4) s2(4) by simp
      ultimately show ?thesis using u'(2) False acc [of "is"]
        by (intro exI [of _ 0] exI [of _ u'] exI [of _ "ic_heap (uc_io u)"] exI [of _ "SUBMITURB p j # map (DISCARDURB p) is"])
          (simp del: accepted.simps)
    qed
  qed
qed

lemma submit_bulk_spec:
  assumes x: "get_x t (uc_io u) = Some x" and ty: "bulk_type x" and len: "0 \<le> tr_length x"
    and buf: "tr_length x \<le> int (length (uc_buffer u t))" and tr: "it_transferred x = 0"
    and no: "tp_urbs (uc_priv u t) = No_urbs" and hwf: "heap_wf (ic_heap (uc_io u))"
  shows "\<exists>r u' h. op_submit_transfer k t u = Some (r, u') \<and> uc_io u' = (uc_io u)\<lparr>ic_heap := h\<rparr> \<and>
    (if r = 0 then held_after k u u' \<noteq> {} \<and> urbs_wf t (held_after k u u') u'
     else nothing_left t (hp_live (ic_heap (uc_io u))) u')"
proof -
  obtain bl cont where sp: "bulk_split (uc_caps u (tr_dev_handle x)) (tr_length x) = (bl, cont)" by fastforce
  obtain num part where num: "bulk_num_urbs (tr_length x) bl = (num, part)" by fastforce
  note b = bulk_piece [OF len sp num]
  define n where "n = nat num"
  have n: "num = int n" "0 < n" using b(1) by (simp_all add: n_def)
  define mk where "mk = bulk_urb x t bl cont num part"
  define refused where "refused \<longleftrightarrow> is_out x \<and> LIBUSB_TRANSFER_ADD_ZERO_PACKET \<in> tr_flags x \<and>
      uc_caps u (tr_dev_handle x) AND USBFS_CAP_ZERO_PACKET = 0"
  obtain q h where al: "c_malloc (ic_heap (uc_io u)) = (q, h)" by fastforce
  have op: "op_submit_transfer k t u = (if refused then Some (LIBUSB_ERROR_NOT_SUPPORTED, u)
      else (case calloc_urbs t n u of
             (None, u1) \<Rightarrow> Some (LIBUSB_ERROR_NO_MEM, u1)
           | (Some urbs, u1) \<Rightarrow> bulk_submit_loop k t urbs (int n) mk [0..<n]
                 (set_priv t ((uc_priv u1 t)\<lparr>tp_urbs := Urbs urbs, tp_num_urbs := int n, tp_num_retired := 0,
                   tp_reap_action := NORMAL, tp_reap_status := LIBUSB_TRANSFER_COMPLETED\<rparr>) u1)))"
  proof -
    have "op_submit_transfer k t u = submit_bulk_transfer k t u"
      using x ty by (auto simp: op_submit_transfer_def bulk_type_def)
    moreover obtain v u1 where "calloc_urbs t n u = (v, u1)" by fastforce
    ultimately show ?thesis using x sp num n unfolding submit_bulk_transfer_def mk_def refused_def
      by (cases v) (simp_all add: Let_def)
  qed
  show ?thesis
  proof (cases "refused \<or> q = None")
    case True
    have "set_uheap (ic_heap (uc_io u)) u = u" by (simp add: set_uheap_def)
    moreover have "hp_live h = hp_live (ic_heap (uc_io u))" if "q = None"
      using ledger.alloc_None [OF hwf] al that by simp
    ultimately show ?thesis using True no op al
      by (cases refused)
        (force simp: calloc_urbs_def nothing_left_def set_uheap_def intro: exI [of _ "ic_heap (uc_io u)"])+
  next
    case False
    then obtain p where q: "q = Some p" by blast
    from ledger.alloc_Some [OF hwf] al q have lv: "p \<notin> hp_live (ic_heap (uc_io u))"
      "hp_live h = insert p (hp_live (ic_heap (uc_io u)))" by simp_all
    define u1 where "u1 = set_uheap h (u\<lparr>uc_urbs := (uc_urbs u)(p \<mapsto> replicate n (zero_urb t))\<rparr>)"
    define u2 where "u2 = set_priv t ((uc_priv u1 t)\<lparr>tp_urbs := Urbs p, tp_num_urbs := int n, tp_num_retired := 0,
                   tp_reap_action := NORMAL, tp_reap_status := LIBUSB_TRANSFER_COMPLETED\<rparr>) u1"
    have s: "submitting t x p mk n 0 u2"
      using x lv by (simp add: submitting_def u2_def u1_def set_priv_def set_uheap_def)
    have "pieces_ok t mk n (length (uc_buffer u t))"
    proof (rule pieces_okI)
      fix i assume "i < n"
      then have "i < nat num" by (simp add: n_def)
      note c = bulk_urb_piece [OF len sp num this, of t]
      show "ub_usercontext (mk i) = t \<and> 0 \<le> ub_buffer_length (mk i) \<and> 0 \<le> ub_buffer (mk i) \<and>
          ub_buffer (mk i) + ub_buffer_length (mk i) \<le> int (length (uc_buffer u t))"
        using c(1,3) buf b(2) unfolding mk_def by simp
    next
      show "(\<Sum>b\<leftarrow>map mk [0..<n]. ub_buffer_length b) \<le> int (length (uc_buffer u t))"
        using bulk_urbs_sum [OF len sp num, of t] buf by (simp add: mk_def n_def)
    qed
    then have po: "pieces_ok t mk n (length (uc_buffer u2 t))" by (simp add: u2_def u1_def set_priv_def set_uheap_def)
    have "op_submit_transfer k t u = bulk_submit_loop k t p (int n) mk [0..<n] u2"
      using op False al q by (simp add: calloc_urbs_def u1_def [symmetric] u2_def)
    moreover have "uc_io u2 = (uc_io u)\<lparr>ic_heap := h\<rparr>" by (simp add: u2_def u1_def set_priv_def set_uheap_def)
    moreover have "hp_live h - {p} = hp_live (ic_heap (uc_io u))" using lv by auto
    moreover from submit_loop_wf [OF s po ty tr n(2), of k] obtain r u' h' cs where
      "bulk_submit_loop k t p (int n) mk [0..<n] u2 = Some (r, u')" "uc_io u' = (uc_io u2)\<lparr>ic_heap := h'\<rparr>"
      "uc_calls u' = uc_calls u2 @ cs"
      "if r = 0 then {0..<0} \<union> accepted k (uc_calls u2) cs \<noteq> {} \<and> urbs_wf t ({0..<0} \<union> accepted k (uc_calls u2) cs) u'
       else nothing_left t (hp_live (ic_heap (uc_io u2)) - {p}) u'" by blast
    moreover have "uc_calls u2 = uc_calls u" by (simp add: u2_def u1_def set_priv_def set_uheap_def)
    ultimately show ?thesis
      by (intro exI [of _ r] exI [of _ u'] exI [of _ h']) (cases "r = 0"; simp add: held_after_def)
  qed
qed

subsection \<open>The life of a transfer\<close>

definition bulk_ready :: "ptr \<Rightarrow> urb_ctx \<Rightarrow> bool" where
  "bulk_ready t u \<longleftrightarrow> (\<exists>x. get_x t (uc_io u) = Some x \<and> bulk_type x \<and> 0 \<le> tr_length x \<and>
     tr_length x \<le> int (length (uc_buffer u t)) \<and> it_transferred x = 0 \<and> tp_urbs (uc_priv u t) = No_urbs \<and>
     heap_wf (ic_heap (uc_io u)))"

text \<open>What \<open>libusb_submit_transfer\<close> adds when the backend took the transfer: it is in flight.\<close>

definition engine_marks :: "ptr \<Rightarrow> io_ctx \<Rightarrow> io_ctx \<Rightarrow> bool" where
  "engine_marks t c c' \<longleftrightarrow> io_wf c' \<and> in_flight c' t \<and> ic_heap c' = ic_heap c \<and>
     (case (get_x t c, get_x t c') of
        (Some x, Some x') \<Rightarrow> tr_type x' = tr_type x \<and> it_transferred x' = it_transferred x \<and>
          LIBUSB_TRANSFER_FREE_TRANSFER \<notin> tr_flags x'
      | _ \<Rightarrow> False)"

text \<open>The states of a bulk transfer between its submission and its completion, with the URBs the kernel holds.\<close>

inductive bulk_run :: "usbfs \<Rightarrow> callback \<Rightarrow> env \<Rightarrow> ptr \<Rightarrow> nat set \<Rightarrow> urb_ctx \<Rightarrow> bool"
  for k cb e t where
  submitted: "bulk_ready t u \<Longrightarrow> op_submit_transfer k t u = Some (0, u1) \<Longrightarrow> engine_marks t (uc_io u1) c \<Longrightarrow>
    bulk_run k cb e t (held_after k u u1) (u1\<lparr>uc_io := c\<rparr>)"
| cancelled: "bulk_run k cb e t pend u \<Longrightarrow> op_cancel_transfer k t u = Some (r, u') \<Longrightarrow> bulk_run k cb e t pend u'"
| reaped: "bulk_run k cb e t pend u \<Longrightarrow> bulk_event t pend u ev \<Longrightarrow> pend \<noteq> {snd (re_urb ev)} \<Longrightarrow>
    reap_for_handle k cb e (Reaped ev) u = Some (r, u') \<Longrightarrow> bulk_run k cb e t (pend - {snd (re_urb ev)}) u'"

definition bulk_inv :: "ptr \<Rightarrow> nat set \<Rightarrow> urb_ctx \<Rightarrow> bool" where
  "bulk_inv t pend u \<longleftrightarrow> pend \<noteq> {} \<and> urbs_wf t pend u \<and> io_wf (uc_io u) \<and> in_flight (uc_io u) t \<and>
     (case get_x t (uc_io u) of None \<Rightarrow> False | Some x \<Rightarrow> LIBUSB_TRANSFER_FREE_TRANSFER \<notin> tr_flags x)"

lemma cancel_bulk:
  assumes "urbs_wf t pend u"
  shows "\<exists>r u'. op_cancel_transfer k t u = Some (r, u') \<and> urbs_wf t pend u' \<and> uc_io u' = uc_io u"
proof -
  from assms obtain x p us where x: "get_x t (uc_io u) = Some x" and ty: "bulk_type x"
    and tp: "tp_urbs (uc_priv u t) = Urbs p" and w: "uc_urbs u p = Some us" "p \<in> hp_live (ic_heap (uc_io u))"
    "urbs_ok t us (length (uc_buffer u t))" "pend_ok (uc_priv u t) (length us) pend"
    "0 \<le> it_transferred x" "it_transferred x \<le> bytes_out us pend" by (auto simp: urbs_wf_def)
  define cs where "cs = uc_calls u @ map (DISCARDURB p) (rev [0..<nat (tp_num_urbs (uc_priv u t))])"
  from discard_urbs_bulk [OF x ty tp, of k 0 "nat (tp_num_urbs (uc_priv u t))"] obtain r where
    d: "discard_urbs k t 0 (nat (tp_num_urbs (uc_priv u t))) u = Some (r, u\<lparr>uc_calls := cs\<rparr>)" by (auto simp: cs_def)
  define tp' where "tp' = (uc_priv u t)\<lparr>tp_reap_action := CANCELLED\<rparr>"
  have "urbs_wf t pend (u\<lparr>uc_calls := cs\<rparr>)" "urbs_wf t pend (set_priv t tp' (u\<lparr>uc_calls := cs\<rparr>))"
    unfolding urbs_wf_def using x ty tp w
    by (auto intro!: exI [of _ x] exI [of _ p] exI [of _ us] simp: set_priv_def tp'_def pend_ok_def)
  moreover have "op_cancel_transfer k t u = Some (r, u\<lparr>uc_calls := cs\<rparr>) \<or>
      op_cancel_transfer k t u = Some (0, u\<lparr>uc_calls := cs\<rparr>) \<or>
      op_cancel_transfer k t u = Some (0, set_priv t tp' (u\<lparr>uc_calls := cs\<rparr>))"
    using x tp d by (simp add: op_cancel_transfer_def tp'_def)
  moreover have "uc_io (set_priv t tp' (u\<lparr>uc_calls := cs\<rparr>)) = uc_io u" "uc_io (u\<lparr>uc_calls := cs\<rparr>) = uc_io u"
    by (simp_all add: set_priv_def)
  ultimately show ?thesis by metis
qed

lemma engine_marks_wf:
  assumes "urbs_wf t pend u" and "engine_marks t (uc_io u) c"
  shows "urbs_wf t pend (u\<lparr>uc_io := c\<rparr>)"
  using assms by (auto simp: urbs_wf_def engine_marks_def bulk_type_def split: option.splits)

lemma bulk_run_inv:
  assumes "bulk_run k cb e t pend u" and "cb_quiet cb"
  shows "bulk_inv t pend u"
  using assms(1)
proof (induction rule: bulk_run.induct)
  case (submitted u u1 c)
  from submitted(1) obtain x where "get_x t (uc_io u) = Some x" "bulk_type x" "0 \<le> tr_length x"
    "tr_length x \<le> int (length (uc_buffer u t))" "it_transferred x = 0" "tp_urbs (uc_priv u t) = No_urbs"
    "heap_wf (ic_heap (uc_io u))" by (auto simp: bulk_ready_def)
  from submit_bulk_spec [OF this, of k] submitted(2)
  have "held_after k u u1 \<noteq> {}" "urbs_wf t (held_after k u u1) u1" by simp_all
  with engine_marks_wf [OF this(2) submitted(3)] submitted(3) show ?case
    by (auto simp: bulk_inv_def engine_marks_def split: option.splits)
next
  case (cancelled pend u r u')
  then have "urbs_wf t pend u" by (simp add: bulk_inv_def)
  from cancel_bulk [OF this, of k] cancelled show ?case by (auto simp: bulk_inv_def)
next
  case (reaped pend u ev r u')
  then obtain x where x: "get_x t (uc_io u) = Some x" "LIBUSB_TRANSFER_FREE_TRANSFER \<notin> tr_flags x"
    by (auto simp: bulk_inv_def split: option.splits)
  from reaped.IH have inv: "io_wf (uc_io u)" "in_flight (uc_io u) t" "urbs_wf t pend u" by (simp_all add: bulk_inv_def)
  from reap_bulk [OF inv(1,2) assms(2) x inv(3) reaped(2), of k e] reaped(3,4)
  have "urbs_wf t (pend - {snd (re_urb ev)}) u' \<and> io_wf (uc_io u') \<and> in_flight (uc_io u') t \<and>
       get_x t (uc_io u') = Some (x\<lparr>it_transferred := it_transferred x + re_actual_length ev\<rparr>)" by simp
  moreover have "snd (re_urb ev) \<in> pend" using reaped(2) by (auto simp: bulk_event_def)
  ultimately show ?case using reaped(3) x(2) by (auto simp: bulk_inv_def)
qed

subsection \<open>The properties\<close>

text \<open>C27. The pieces of a bulk transfer tile the user's buffer: there is at least one, each begins where the one before ends,
  none is longer than the size the kernel's capabilities allow, and together they are as long as the transfer. Bulk
  continuation is set on all but the first piece, SHORT_NOT_OK on all but the last of an IN transfer, and the
  zero-length packet is asked for on the last piece of an OUT transfer only.\<close>

theorem bulk_urbs_tile:
  assumes "0 \<le> tr_length x" and "bulk_split caps (tr_length x) = (bl, cont)"
    and "bulk_num_urbs (tr_length x) bl = (num, part)" and "i < nat num"
  shows "1 \<le> num \<and> (\<Sum>b\<leftarrow>map (bulk_urb x t bl cont num part) [0..<nat num]. ub_buffer_length b) = tr_length x \<and>
    ub_buffer (bulk_urb x t bl cont num part i) =
      (\<Sum>b\<leftarrow>map (bulk_urb x t bl cont num part) [0..<i]. ub_buffer_length b) \<and>
    0 \<le> ub_buffer_length (bulk_urb x t bl cont num part i) \<and> ub_buffer_length (bulk_urb x t bl cont num part i) \<le> bl \<and>
    (ub_flags (bulk_urb x t bl cont num part i) AND USBFS_URB_BULK_CONTINUATION \<noteq> 0 \<longleftrightarrow> cont \<and> 0 < i) \<and>
    (ub_flags (bulk_urb x t bl cont num part i) AND USBFS_URB_SHORT_NOT_OK \<noteq> 0 \<longleftrightarrow>
      cont \<and> \<not> is_out x \<and> int i < num - 1) \<and>
    (ub_flags (bulk_urb x t bl cont num part i) AND USBFS_URB_ZERO_PACKET \<noteq> 0 \<longleftrightarrow>
      is_out x \<and> int i = num - 1 \<and> LIBUSB_TRANSFER_ADD_ZERO_PACKET \<in> tr_flags x)"
  using bulk_piece(1) [OF assms(1-3)] bulk_urbs_sum [OF assms(1-3)] bulk_urbs_prefix [OF assms]
    bulk_urb_piece(1,5) [OF assms] by (simp only: bulk_urb_flags bulk_urb_fields simp_thms)

definition xfer_in :: usbi_transfer where
  "xfer_in = (new_transfer 0)\<lparr>tr_endpoint := 0x81, tr_type := LIBUSB_TRANSFER_TYPE_BULK, tr_length := 40000, tr_dev := 3\<rparr>"

theorem bulk_urbs_tile_witness:
  "(\<Sum>b\<leftarrow>map (bulk_urb xfer_in 0 16384 True 3 True) [0..<nat 3]. ub_buffer_length b) = tr_length xfer_in \<and>
    ub_buffer (bulk_urb xfer_in 0 16384 True 3 True 2) =
      (\<Sum>b\<leftarrow>map (bulk_urb xfer_in 0 16384 True 3 True) [0..<2]. ub_buffer_length b)"
proof -
  have "0 \<le> tr_length xfer_in" "bulk_split USBFS_CAP_BULK_CONTINUATION (tr_length xfer_in) = (16384, True)"
    "bulk_num_urbs (tr_length xfer_in) 16384 = (3, True)"
    by (simp_all add: xfer_in_def new_transfer_def bulk_split_def bulk_num_urbs_def signed_divide_int_def signed_modulo_int_def)
  from bulk_urbs_tile [OF this, of 2 0] show ?thesis by simp
qed

text \<open>C8. Submitting a bulk or interrupt transfer that is ready, whatever the kernel answers: on an error the URBs are
  freed and nothing is left allocated; when the submission is reported as successful the kernel holds at least one
  URB, and what the backend counts as retired is exactly the number of URBs the kernel did not take (the
  invariant \<open>urbs_wf\<close>).\<close>

theorem bulk_submit_correct:
  assumes "bulk_ready t u"
  shows "\<exists>r u'. op_submit_transfer k t u = Some (r, u') \<and>
    (if r = 0 then held_after k u u' \<noteq> {} \<and> urbs_wf t (held_after k u u') u'
     else nothing_left t (hp_live (ic_heap (uc_io u))) u')"
proof -
  from assms obtain x where "get_x t (uc_io u) = Some x" "bulk_type x" "0 \<le> tr_length x"
    "tr_length x \<le> int (length (uc_buffer u t))" "it_transferred x = 0" "tp_urbs (uc_priv u t) = No_urbs"
    "heap_wf (ic_heap (uc_io u))" by (auto simp: bulk_ready_def)
  from submit_bulk_spec [OF this, of k] show ?thesis by blast
qed

definition priv0 :: linux_transfer_priv where
  "priv0 = \<lparr>tp_urbs = No_urbs, tp_reap_action = NORMAL, tp_num_urbs = 0, tp_num_retired = 0,
     tp_reap_status = LIBUSB_TRANSFER_COMPLETED, tp_iso_packet_offset = 0\<rparr>"

text \<open>A context with one transfer that is not submitted, and its buffer.\<close>

definition bulk_ctx :: "usbi_transfer \<Rightarrow> u8 list \<Rightarrow> urb_ctx" where
  "bulk_ctx x buf = \<lparr>uc_io = ctx_idle\<lparr>ic_xfers := [0 \<mapsto> x]\<rparr>, uc_priv = (\<lambda>_. priv0), uc_urbs = (\<lambda>_. None),
     uc_arrays = (\<lambda>_. None), uc_buffer = (\<lambda>_. buf), uc_iso_desc = (\<lambda>_. []),
     uc_num_iso_packets = (\<lambda>_. 0), uc_caps = (\<lambda>_. 0), uc_calls = []\<rparr>"

abbreviation ctx_in :: urb_ctx where
  "ctx_in \<equiv> bulk_ctx xfer_in (replicate (nat 40000) 0)"

lemma bulk_ctx_ready: "bulk_ready 0 ctx_in"
  by (simp add: bulk_ready_def bulk_ctx_def get_x_def xfer_in_def new_transfer_def bulk_type_def priv0_def ctx_idle_def)

theorem bulk_submit_correct_witness:
  "\<exists>r u'. op_submit_transfer (\<lambda>_ _. 0) 0 ctx_in = Some (r, u') \<and>
    (if r = 0 then held_after (\<lambda>_ _. 0) ctx_in u' \<noteq> {} \<and>
       urbs_wf 0 (held_after (\<lambda>_ _. 0) ctx_in u') u'
     else nothing_left 0 (hp_live (ic_heap (uc_io ctx_in))) u')"
  by (rule bulk_submit_correct [OF bulk_ctx_ready])


text \<open>The context after the submission, all URBs accepted, with the transfer in flight.\<close>

definition accept_all :: usbfs where "accept_all = (\<lambda>_ _. 0)"

definition io_in_flight :: io_ctx where
  "io_in_flight = ctx_flying\<lparr>ic_xfers := [0 \<mapsto> xfer_in\<lparr>it_state_flags := {USBI_TRANSFER_IN_FLIGHT}\<rparr>]\<rparr>"

definition bulk_submitted :: "u8 list \<Rightarrow> urb_ctx" where
  "bulk_submitted buf = (case op_submit_transfer accept_all 0 (bulk_ctx xfer_in buf) of
     Some (r, u) \<Rightarrow> u | None \<Rightarrow> bulk_ctx xfer_in buf)"

lemma submit_in: "op_submit_transfer accept_all 0 (bulk_ctx xfer_in buf) = Some (0, bulk_submitted buf)"
proof -
  have "map_option fst (op_submit_transfer accept_all 0 (bulk_ctx xfer_in buf)) = Some 0" by code_simp
  then show ?thesis by (auto simp: bulk_submitted_def split: option.splits)
qed

definition bulk_flying :: "u8 list \<Rightarrow> urb_ctx" where
  "bulk_flying buf = (bulk_submitted buf)\<lparr>uc_io := io_in_flight\<lparr>ic_heap := ic_heap (uc_io (bulk_submitted buf))\<rparr>\<rparr>"

definition urb_event :: "nat \<Rightarrow> int \<Rightarrow> u8 list \<Rightarrow> reap_event" where
  "urb_event i status bytes = \<lparr>re_urb = (0, i), re_status = status, re_actual_length = int (length bytes),
     re_data = bytes, re_frames = []\<rparr>"

abbreviation no_cb :: callback where "no_cb \<equiv> \<lambda>f t c. Some c"

lemma bulk_submitted_facts:
  "tp_urbs (uc_priv (bulk_submitted buf) 0) = Urbs 0"
  "map_option ub_buffer_length (get_urb 0 0 (bulk_submitted buf)) = Some 16384"
  "held_after accept_all (bulk_ctx xfer_in buf) (bulk_submitted buf) = {0, 1, 2}"
  "get_x 0 (uc_io (bulk_submitted buf)) = Some xfer_in"
proof -
  show "tp_urbs (uc_priv (bulk_submitted buf) 0) = Urbs 0" by code_simp
  show "map_option ub_buffer_length (get_urb 0 0 (bulk_submitted buf)) = Some 16384" by code_simp
  have "uc_calls (bulk_submitted buf) = [SUBMITURB 0 0, SUBMITURB 0 1, SUBMITURB 0 2]" by code_simp
  then show "held_after accept_all (bulk_ctx xfer_in buf) (bulk_submitted buf) = {0, 1, 2}"
    by (auto simp: held_after_def bulk_ctx_def accept_all_def)
  show "get_x 0 (uc_io (bulk_submitted buf)) = Some xfer_in"
  proof -
    have "case get_x 0 (uc_io (bulk_submitted buf)) of None \<Rightarrow> False | Some x \<Rightarrow> x = xfer_in" by code_simp
    then show ?thesis by (simp split: option.splits)
  qed
qed

lemma bulk_flying_run:
  assumes "int (length buf) = 40000"
  shows "bulk_run accept_all no_cb e 0 {0, 1, 2} (bulk_flying buf)"
proof -
  have "bulk_ready 0 (bulk_ctx xfer_in buf)"
    using assms by (simp add: bulk_ready_def bulk_ctx_def get_x_def xfer_in_def new_transfer_def bulk_type_def priv0_def ctx_idle_def)
  moreover have "io_wf io_in_flight"
    by (auto simp: io_wf_def quiescent_def flying_wf_def io_in_flight_def ctx_flying_def ctx_idle_def in_flight_def get_x_def
      xfer_in_def new_transfer_def tv_sorted_def split: if_splits)
  then have "engine_marks 0 (uc_io (bulk_submitted buf)) (io_in_flight\<lparr>ic_heap := ic_heap (uc_io (bulk_submitted buf))\<rparr>)"
    by (simp add: engine_marks_def bulk_submitted_facts(4))
      (simp add: io_in_flight_def in_flight_def get_x_def xfer_in_def new_transfer_def)
  ultimately show ?thesis unfolding bulk_flying_def bulk_submitted_facts(3) [of buf, symmetric]
    by (rule bulk_run.submitted [OF _ submit_in])
qed


text \<open>The order of reaps is needed, and the backend itself destroys it: when the first of three URBs stalls, the
  rest is discarded from the last to the first, while the transfer still counts as not being torn down. A kernel
  that returns discarded URBs in the order of the discards gives the last one first; it counts as the end of
  the transfer, which is completed with the array of URBs freed, and the next reap reads the freed array.\<close>

theorem stall_reverse_reap_faults:
  "\<exists>u1 r u2. reap_for_handle accept_all no_cb (env_at 10) (Reaped (urb_event 0 (- EPIPE) [])) (bulk_flying buf) = Some (0, u1) \<and>
    uc_calls u1 = [SUBMITURB 0 0, SUBMITURB 0 1, SUBMITURB 0 2, DISCARDURB 0 2, DISCARDURB 0 1] \<and>
    reap_for_handle accept_all no_cb (env_at 10) (Reaped (urb_event 2 (- ENOENT) [])) u1 = Some (r, u2) \<and>
    ic_flying (uc_io u2) = [] \<and>
    reap_for_handle accept_all no_cb (env_at 10) (Reaped (urb_event 1 (- ENOENT) [])) u2 = None"
proof -
  have "case reap_for_handle accept_all no_cb (env_at 10) (Reaped (urb_event 0 (- EPIPE) [])) (bulk_flying buf) of
      None \<Rightarrow> False
    | Some (r1, u1) \<Rightarrow> r1 = 0 \<and>
        uc_calls u1 = [SUBMITURB 0 0, SUBMITURB 0 1, SUBMITURB 0 2, DISCARDURB 0 2, DISCARDURB 0 1] \<and>
        (case reap_for_handle accept_all no_cb (env_at 10) (Reaped (urb_event 2 (- ENOENT) [])) u1 of
           None \<Rightarrow> False
         | Some (r, u2) \<Rightarrow> ic_flying (uc_io u2) = [] \<and>
             Option.is_none (reap_for_handle accept_all no_cb (env_at 10) (Reaped (urb_event 1 (- ENOENT) [])) u2))"
    by code_simp
  then show ?thesis by (auto simp: Option.is_none_def split: option.splits) (metis not_None_eq surj_pair)
qed

end
