(* ===== verification/Linux_Iso_Props.thy ===== *)
theory Linux_Iso_Props
  imports Linux_Bulk_Props
begin

text \<open>
  Isochronous transfers in the Linux backend: the count of URBs and the filling of URBs are two walks over the
  packets; they agree, so that every packet is in exactly one URB. At the end a packet length for which the
  first walk goes wrong.
\<close>

text \<open>The packets of the URBs, as the second walk fills them.\<close>

primrec iso_chunks :: "nat \<Rightarrow> u32 list \<Rightarrow> u32 list list" where
  "iso_chunks 0 ls = []"
| "iso_chunks (Suc n) ls =
     (let packets = iso_take ls (word_of_int MAX_ISO_BUFFER_LENGTH)
      in packets # iso_chunks n (drop (length packets) ls))"

lemma length_iso_chunks [simp]: "length (iso_chunks n ls) = n"
  by (induction n arbitrary: ls) (simp_all add: Let_def)

lemma iso_take_prefix: "iso_take ls s @ drop (length (iso_take ls s)) ls = ls"
  by (induction ls arbitrary: s) simp_all

lemma bytes_of_simps [simp]: "bytes_of [] = 0" "bytes_of (l # ls) = uint l + bytes_of ls"
  by (simp_all add: bytes_of_def)

lemma iso_take_fits: "bytes_of (iso_take ls s) \<le> uint s"
proof (induction ls arbitrary: s)
  case (Cons l ls)
  then have "bytes_of (iso_take ls (s - l)) \<le> uint (s - l)" .
  moreover have "uint (s - l) = uint s - uint l" if "l \<le> s" using that by (simp add: uint_sub_if' word_le_def)
  ultimately show ?case by auto
qed simp

lemma iso_chunks_fit: "ps \<in> set (iso_chunks n ls) \<Longrightarrow> bytes_of ps \<le> MAX_ISO_BUFFER_LENGTH"
proof (induction n arbitrary: ls)
  case (Suc n)
  then consider "ps = iso_take ls (word_of_int MAX_ISO_BUFFER_LENGTH)"
    | "ps \<in> set (iso_chunks n (drop (length (iso_take ls (word_of_int MAX_ISO_BUFFER_LENGTH))) ls))"
    by (auto simp: Let_def)
  then show ?case
  proof cases
    case 1
    with iso_take_fits [of ls "word_of_int MAX_ISO_BUFFER_LENGTH"] show ?thesis by simp
  qed (rule Suc.IH)
qed simp

text \<open>Lengths that are nonnegative as \<open>int\<close>s.\<close>

definition int_lengths :: "u32 list \<Rightarrow> bool" where
  "int_lengths ls \<longleftrightarrow> (\<forall>l \<in> set ls. uint l < 2147483648)"

lemma sint_small:
  assumes "uint (l :: u32) < 2147483648"
  shows "sint l = uint l"
proof -
  have "0 \<le> uint l" by simp
  then have "- 2147483648 \<le> uint l" by linarith
  with assms show ?thesis by (simp add: sint_uint signed_take_bit_int_eq_self_iff)
qed

lemma iso_count_chunks:
  assumes "iso_count ls m s = Some (Inr num)" and "int_lengths ls" and "0 \<le> s" and "s \<le> MAX_ISO_BUFFER_LENGTH"
  shows "m \<le> num \<and> (let a = iso_take ls (word_of_int (MAX_ISO_BUFFER_LENGTH - s)); rest = drop (length a) ls
    in concat (iso_chunks (nat (num - m)) rest) = rest)"
  using assms
proof (induction ls arbitrary: m s)
  case Nil
  then show ?case by simp
next
  case (Cons l ls)
  let ?sp = "word_of_int (MAX_ISO_BUFFER_LENGTH - s) :: u32"
  have usp: "uint ?sp = MAX_ISO_BUFFER_LENGTH - s" using Cons.prems(3,4) by (subst uint_word_of_int) (simp add: mod_pos_pos_trivial)
  have l: "uint l < 2147483648" and ls: "int_lengths ls" using Cons.prems(2) by (simp_all add: int_lengths_def)
  note sl = sint_small [OF l]
  show ?case
  proof (cases "l > ?sp")
    case True
    with Cons.prems(1,3) have le: "uint l \<le> MAX_ISO_BUFFER_LENGTH" and c: "iso_count ls (m + 1) (uint l) = Some (Inr num)"
      by (auto simp: sl split: if_splits)
    let ?a = "iso_take ls (word_of_int (MAX_ISO_BUFFER_LENGTH - uint l))"
    from Cons.IH [OF c ls _ le] have IH: "m + 1 \<le> num"
      "concat (iso_chunks (nat (num - (m + 1))) (drop (length ?a) ls)) = drop (length ?a) ls" by (simp_all add: Let_def)
    have n: "nat (num - m) = Suc (nat (num - (m + 1)))" using IH(1) by simp
    have fits: "l \<le> word_of_int MAX_ISO_BUFFER_LENGTH" using le by (simp add: word_le_def)
    have "word_of_int (MAX_ISO_BUFFER_LENGTH - uint l) = (word_of_int MAX_ISO_BUFFER_LENGTH :: u32) - l" by simp
    then have "concat (iso_chunks (nat (num - m)) (l # ls)) = l # ls"
      using IH(2) fits iso_take_prefix [of ls "word_of_int (MAX_ISO_BUFFER_LENGTH - uint l)"]
      by (simp add: n Let_def)
    with True IH(1) show ?thesis by (simp add: not_le)
  next
    case False
    then have le: "uint l \<le> MAX_ISO_BUFFER_LENGTH - s" using usp by (simp add: word_le_def not_less)
    have w: "sint (word_of_int s + l) = s + uint l"
    proof -
      have "uint (word_of_int s + l) = s + uint l"
        using le Cons.prems(3) by (simp add: uint_word_ariths uint_word_of_int mod_simps)
      with le show ?thesis using sint_small [of "word_of_int s + l"] by simp
    qed
    from False Cons.prems(1,3) have c: "iso_count ls m (s + uint l) = Some (Inr num)"
      by (auto simp: w split: if_splits)
    have "word_of_int (MAX_ISO_BUFFER_LENGTH - (s + uint l)) = ?sp - l" by simp
    with Cons.IH [OF c ls] Cons.prems(3) le False show ?thesis by (simp add: Let_def not_less diff_diff_eq)
  qed
qed

lemma iso_chunks_all:
  assumes "iso_count ls 1 0 = Some (Inr num)" and "int_lengths ls"
  shows "1 \<le> num" and "concat (iso_chunks (nat num) ls) = ls"
proof -
  let ?a = "iso_take ls (word_of_int MAX_ISO_BUFFER_LENGTH)"
  from iso_count_chunks [OF assms] have c: "1 \<le> num"
    "concat (iso_chunks (nat (num - 1)) (drop (length ?a) ls)) = drop (length ?a) ls" by (simp_all add: Let_def)
  then show "1 \<le> num" by simp
  have n: "nat num = Suc (nat (num - 1))" using c(1) by simp
  show "concat (iso_chunks (nat num) ls) = ls"
    using c(2) iso_take_prefix [of ls "word_of_int MAX_ISO_BUFFER_LENGTH"] by (simp add: n Let_def)
qed

lemma iso_count_negative: "iso_count ls m s = Some (Inl e) \<Longrightarrow> e = LIBUSB_ERROR_INVALID_PARAM"
  by (induction ls arbitrary: m s) (auto split: if_splits)

subsection \<open>The URBs that are built\<close>

lemma bytes_of_append [simp]: "bytes_of (xs @ ys) = bytes_of xs + bytes_of ys"
  by (simp add: bytes_of_def)

lemma calloc_one:
  assumes "calloc_urbs t 1 u = (Some p, u1)" and "heap_wf (ic_heap (uc_io u))"
  shows "p \<notin> hp_live (ic_heap (uc_io u))" "hp_live (ic_heap (uc_io u1)) = insert p (hp_live (ic_heap (uc_io u)))"
    "heap_wf (ic_heap (uc_io u1))" "uc_urbs u1 = (uc_urbs u)(p \<mapsto> [zero_urb t])" "uc_arrays u1 = uc_arrays u"
proof -
  obtain q h where m: "c_malloc (ic_heap (uc_io u)) = (q, h)" by fastforce
  with assms(1) have "q = Some p" "u1 = set_uheap h (u\<lparr>uc_urbs := (uc_urbs u)(p \<mapsto> [zero_urb t])\<rparr>)"
    by (auto simp: calloc_urbs_def split: option.splits)
  with ledger.alloc_Some [OF assms(2)] m show "p \<notin> hp_live (ic_heap (uc_io u))"
    "hp_live (ic_heap (uc_io u1)) = insert p (hp_live (ic_heap (uc_io u)))"
    "heap_wf (ic_heap (uc_io u1))" "uc_urbs u1 = (uc_urbs u)(p \<mapsto> [zero_urb t])" "uc_arrays u1 = uc_arrays u"
    by (simp_all add: set_uheap_def)
qed

lemma iso_build_urbs:
  assumes "iso_build x t a [i..<n] rest off u = Some (0, u')" and "uc_arrays u a = Some qs" and "length qs = n"
    and "heap_wf (ic_heap (uc_io u))" and "i \<le> n"
  shows "\<exists>ps. length ps = n - i \<and> uc_arrays u' a = Some (take i qs @ map Some ps) \<and>
    (\<forall>q \<in> hp_live (ic_heap (uc_io u)). uc_urbs u' q = uc_urbs u q) \<and>
    (\<forall>j < n - i. uc_urbs u' (ps ! j) = Some [iso_urb x t (iso_chunks (n - i) rest ! j)
       (off + bytes_of (concat (take j (iso_chunks (n - i) rest))))])"
  using assms
proof (induction "n - i" arbitrary: i rest off u qs)
  case 0
  then show ?case by simp
next
  case (Suc d)
  then have i: "i < n" and up: "[i..<n] = i # [Suc i..<n]" by (simp_all add: upt_conv_Cons)
  let ?pk = "iso_take rest (word_of_int MAX_ISO_BUFFER_LENGTH)"
  obtain q u1 where ca: "calloc_urbs t 1 u = (q, u1)" by fastforce
  with Suc.prems(1) obtain p where q: "q = Some p"
    unfolding up by (cases q) (auto simp: Let_def bind_eq_Some_conv)
  note c = calloc_one [OF ca [unfolded q] Suc.prems(4)]
  define u2 where "u2 = u1\<lparr>uc_arrays := (uc_arrays u1)(a \<mapsto> qs[i := Some p])\<rparr>"
  have pa: "put_array a i p u1 = Some u2" using Suc.prems(2,3) i c(5) by (simp add: put_array_def u2_def)
  define u3 where "u3 = u2\<lparr>uc_urbs := (uc_urbs u2)(p \<mapsto> [iso_urb x t ?pk off])\<rparr>"
  have pu: "put_urb p 0 (iso_urb x t ?pk off) u2 = Some u3" using c(4) by (simp add: put_urb_def u3_def u2_def)
  have b: "iso_build x t a [Suc i..<n] (drop (length ?pk) rest) (off + bytes_of ?pk) u3 = Some (0, u')"
    using Suc.prems(1) unfolding up by (simp only: iso_build.simps Let_def ca q prod.case option.case pa pu Option.bind.bind_lunit)
  have h3: "ic_heap (uc_io u3) = ic_heap (uc_io u1)" by (simp add: u3_def u2_def)
  have u3: "uc_arrays u3 a = Some (qs[i := Some p])" "length (qs[i := Some p]) = n" "heap_wf (ic_heap (uc_io u3))"
    using Suc.prems(3) c(3) by (simp_all add: u3_def u2_def)
  from Suc.hyps(2) i have "d = n - Suc i" "Suc i \<le> n" by simp_all
  from Suc.hyps(1) [OF this(1) b u3 this(2)] obtain ps where ps: "length ps = n - Suc i"
    "uc_arrays u' a = Some (take (Suc i) (qs[i := Some p]) @ map Some ps)"
    "\<forall>q \<in> hp_live (ic_heap (uc_io u3)). uc_urbs u' q = uc_urbs u3 q"
    "\<forall>j < n - Suc i. uc_urbs u' (ps ! j) = Some [iso_urb x t (iso_chunks (n - Suc i) (drop (length ?pk) rest) ! j)
       (off + bytes_of ?pk + bytes_of (concat (take j (iso_chunks (n - Suc i) (drop (length ?pk) rest)))))]" by blast
  have n: "n - i = Suc (n - Suc i)" using i by simp
  have "take (Suc i) (qs[i := Some p]) = take i qs @ [Some p]"
    using i Suc.prems(3) by (simp add: take_Suc_conv_app_nth)
  moreover have "uc_urbs u' p = Some [iso_urb x t ?pk off]" using ps(3) c(2) h3 by (simp add: u3_def)
  moreover have "uc_urbs u' q = uc_urbs u q" if "q \<in> hp_live (ic_heap (uc_io u))" for q
    using that ps(3) c(1,2,4) h3 by (auto simp: u3_def u2_def)
  ultimately show ?case using ps(1,2,4)
    by (intro exI [of _ "p # ps"]) (auto simp: n Let_def nth_Cons add.assoc split: nat.splits)
qed

text \<open>A successful build leaves the private data alone, a reported submission the URBs.\<close>

lemma iso_build_priv:
  "iso_build x t a is rest off u = Some (0, u') \<Longrightarrow> uc_priv u' = uc_priv u"
proof (induction "is" arbitrary: rest off u)
  case (Cons i "is")
  let ?pk = "iso_take rest (word_of_int MAX_ISO_BUFFER_LENGTH)"
  obtain q u1 where ca: "calloc_urbs t 1 u = (q, u1)" by fastforce
  with Cons.prems obtain p where q: "q = Some p" by (cases q) (auto simp: Let_def bind_eq_Some_conv)
  with Cons.prems ca obtain u2 u3 where s: "put_array a i p u1 = Some u2" "put_urb p 0 (iso_urb x t ?pk off) u2 = Some u3"
    "iso_build x t a is (drop (length ?pk) rest) (off + bytes_of ?pk) u3 = Some (0, u')"
    by (auto simp: Let_def bind_eq_Some_conv)
  have "uc_priv u3 = uc_priv u"
    using s(1,2) ca q by (auto simp: put_array_def put_urb_def calloc_urbs_def set_uheap_def bind_eq_Some_conv
        split: option.splits prod.splits if_splits)
  with Cons.IH [OF s(3)] show ?case by simp
qed simp

lemma discard_loop_calls:
  "discard_loop k t l is ret u = Some (r, u') \<Longrightarrow> \<exists>cs. u' = u\<lparr>uc_calls := cs\<rparr>"
proof (induction "is" arbitrary: ret u)
  case Nil
  then show ?case by (auto intro: exI [of _ "uc_calls u"])
next
  case (Cons i "is")
  then obtain ret1 cs where "discard_loop k t l is ret1 (u\<lparr>uc_calls := cs\<rparr>) = Some (r, u')"
    by (auto simp: bind_eq_Some_conv usb_ioctl_def)
  from Cons.IH [OF this] show ?case by auto
qed

lemma iso_submit_keeps:
  assumes "iso_submit_loop k t a num is u = Some (0, u')"
  shows "uc_urbs u' = uc_urbs u \<and> uc_arrays u' = uc_arrays u \<and> tp_urbs (uc_priv u' t) = tp_urbs (uc_priv u t)"
  using assms
proof (induction "is" arbitrary: u)
  case (Cons i "is")
  then obtain p where p: "(let (e, u1) = usb_ioctl k (SUBMITURB p 0) u in
      if e \<noteq> 0 then iso_submit_failed k t num i e u1 else iso_submit_loop k t a num is u1) = Some (0, u')"
    by (auto simp: bind_eq_Some_conv)
  define e where "e = k (uc_calls u) (SUBMITURB p 0)"
  define u1 where "u1 = u\<lparr>uc_calls := uc_calls u @ [SUBMITURB p 0]\<rparr>"
  have same: "uc_urbs u1 = uc_urbs u" "uc_arrays u1 = uc_arrays u" "uc_priv u1 = uc_priv u" by (simp_all add: u1_def)
  from p have r: "(if e \<noteq> 0 then iso_submit_failed k t num i e u1 else iso_submit_loop k t a num is u1) = Some (0, u')"
    unfolding usb_ioctl_def e_def u1_def Let_def prod.case .
  show ?case
  proof (cases "e = 0")
    case True
    with r Cons.IH [of u1] same show ?thesis by simp
  next
    case False
    let ?v = "set_priv t ((uc_priv u1 t)\<lparr>tp_reap_action := SUBMIT_FAILED, tp_num_retired := num - int i\<rparr>) u1"
    from r False have "i \<noteq> 0" "\<exists>r1. discard_urbs k t 0 i ?v = Some (r1, u')"
      by (auto simp: iso_submit_failed_def Let_def bind_eq_Some_conv split: if_splits)
    then obtain cs where "u' = ?v\<lparr>uc_calls := cs\<rparr>" unfolding discard_urbs_def using discard_loop_calls by blast
    with same show ?thesis by (simp add: set_priv_def)
  qed
qed simp

text \<open>C28. Isochronous URBs partition the packets: when the submission of an isochronous transfer is reported as successful
  (all packet lengths being nonnegative as \<open>int\<close>s), the packets of its URBs, one after the other, are the
  packets of the transfer, no URB has more than MAX_ISO_BUFFER_LENGTH bytes, and each URB points at the bytes of
  its packets. So the URBs that the first walk over the packets counted are enough for the second.\<close>

theorem iso_urbs_partition:
  assumes "get_x t (uc_io u) = Some x" and "iso_lengths t u = Some lens" and "int_lengths lens"
    and "heap_wf (ic_heap (uc_io u))" and "submit_iso_transfer k t u = Some (0, u')"
  shows "\<exists>a ps packets. tp_urbs (uc_priv u' t) = Iso_urbs a \<and> uc_arrays u' a = Some (map Some ps) \<and>
    length packets = length ps \<and> concat packets = lens \<and>
    (\<forall>j < length ps. uc_urbs u' (ps ! j) = Some [iso_urb x t (packets ! j) (bytes_of (concat (take j packets)))] \<and>
       bytes_of (packets ! j) \<le> MAX_ISO_BUFFER_LENGTH)"
proof -
  obtain n where n: "iso_count lens 1 0 = Some n" using assms(1,2,5) by (auto simp: submit_iso_transfer_def bind_eq_Some_conv)
  obtain q h where al: "c_malloc (ic_heap (uc_io u)) = (q, h)" by fastforce
  have "\<exists>a num. q = Some a \<and> n = Inr num"
    using assms(1,2,5) n al by (auto simp: submit_iso_transfer_def split: sum.splits option.splits)
      (auto simp: bind_eq_Some_conv dest: iso_count_negative)
  then obtain a num where q: "q = Some a" and nn: "n = Inr num" by blast
  define u1 where "u1 = set_uheap h (u\<lparr>uc_arrays := (uc_arrays u)(a \<mapsto> replicate (nat num) None)\<rparr>)"
  define u2 where "u2 = set_priv t ((uc_priv u1 t)\<lparr>tp_urbs := Iso_urbs a, tp_num_urbs := num, tp_num_retired := 0,
                  tp_reap_action := NORMAL, tp_iso_packet_offset := 0\<rparr>) u1"
  from assms(1,2,5) n al q nn obtain r u3 where b: "iso_build x t a [0..<nat num] lens 0 u2 = Some (r, u3)"
    and s: "(if r \<noteq> 0 then Some (r, u3) else iso_submit_loop k t a num [0..<nat num] u3) = Some (0, u')"
    by (auto simp: submit_iso_transfer_def bind_eq_Some_conv Let_def u1_def u2_def)
  from s have r: "r = 0" and s: "iso_submit_loop k t a num [0..<nat num] u3 = Some (0, u')" by (auto split: if_splits)
  have hw: "heap_wf (ic_heap (uc_io u2))" "uc_arrays u2 a = Some (replicate (nat num) None)"
    using ledger.alloc_Some [OF assms(4)] al q by (simp_all add: u2_def u1_def set_priv_def set_uheap_def)
  from iso_build_urbs [OF b [unfolded r] hw(2) _ hw(1)] obtain ps where ps: "length ps = nat num"
    "uc_arrays u3 a = Some (map Some ps)"
    "\<forall>j < nat num. uc_urbs u3 (ps ! j) = Some [iso_urb x t (iso_chunks (nat num) lens ! j)
       (bytes_of (concat (take j (iso_chunks (nat num) lens))))]" by auto
  have "tp_urbs (uc_priv u3 t) = Iso_urbs a" using iso_build_priv [OF b [unfolded r]] by (simp add: u2_def set_priv_def)
  with ps iso_submit_keeps [OF s] iso_chunks_all(2) [OF n [unfolded nn] assms(3)]
    iso_chunks_fit [OF nth_mem [of _ "iso_chunks (nat num) lens"]] show ?thesis
    by (intro exI [of _ a] exI [of _ ps] exI [of _ "iso_chunks (nat num) lens"]) auto
qed

subsection \<open>Concrete transfers\<close>

definition iso_desc :: "u32 \<Rightarrow> libusb_iso_packet_descriptor" where
  "iso_desc l = \<lparr>ip_length = l, ip_actual_length = 0, ip_status = LIBUSB_TRANSFER_COMPLETED\<rparr>"

definition iso_ctx :: "u32 list \<Rightarrow> u8 list \<Rightarrow> urb_ctx" where
  "iso_ctx ls buf = (bulk_ctx (xfer_in\<lparr>tr_type := LIBUSB_TRANSFER_TYPE_ISOCHRONOUS\<rparr>) buf)
     \<lparr>uc_iso_desc := (\<lambda>_. map iso_desc ls), uc_num_iso_packets := (\<lambda>_. int (length ls))\<rparr>"

lemma iso_ctx_facts:
  "get_x 0 (uc_io (iso_ctx ls buf)) = Some (xfer_in\<lparr>tr_type := LIBUSB_TRANSFER_TYPE_ISOCHRONOUS\<rparr>)"
  "iso_lengths 0 (iso_ctx ls buf) = Some ls" "heap_wf (ic_heap (uc_io (iso_ctx ls buf)))"
  by (simp_all add: iso_ctx_def bulk_ctx_def iso_lengths_def get_x_def iso_desc_def ctx_idle_def comp_def)

theorem iso_urbs_partition_witness:
  "\<exists>u' a ps (packets :: u32 list list). submit_iso_transfer accept_all 0 (iso_ctx [6000000, 1000, 400000] []) = Some (0, u') \<and>
    tp_urbs (uc_priv u' 0) = Iso_urbs a \<and> uc_arrays u' a = Some (map Some ps) \<and>
    length packets = length ps \<and> concat packets = [6000000, 1000, 400000]"
proof -
  have "map_option fst (submit_iso_transfer accept_all 0 (iso_ctx [6000000, 1000, 400000] [])) = Some 0" by code_simp
  then obtain u' where s: "submit_iso_transfer accept_all 0 (iso_ctx [6000000, 1000, 400000] []) = Some (0, u')"
    by (auto simp: map_option_case split: option.splits)
  have "int_lengths [6000000, 1000, 400000]" by (simp add: int_lengths_def)
  from iso_urbs_partition [OF iso_ctx_facts(1,2) this iso_ctx_facts(3) s] s show ?thesis by blast
qed

text \<open>The bound on the lengths is needed: a packet length of 2^31 or more is negative as an \<open>int\<close>, so that the test
  \<open>this_urb_len > MAX_ISO_BUFFER_LENGTH\<close>, which is there to refuse it, does not see it. Unless the
  kernel refuses URBs without packets, the submission is reported as successful, with two URBs that contain none of the packets.\<close>

theorem iso_huge_packet_lost:
  "\<exists>u'. submit_iso_transfer accept_all 0 (iso_ctx [0xFFFFFFFF] buf) = Some (0, u') \<and>
    map_option (map ub_iso_frame_desc) (uc_urbs u' 1) = Some [[]] \<and>
    map_option (map ub_iso_frame_desc) (uc_urbs u' 2) = Some [[]] \<and>
    uc_calls u' = [SUBMITURB 1 0, SUBMITURB 2 0]"
proof -
  have "case submit_iso_transfer accept_all 0 (iso_ctx [0xFFFFFFFF] buf) of None \<Rightarrow> False
    | Some (r, u') \<Rightarrow> r = 0 \<and> map_option (map ub_iso_frame_desc) (uc_urbs u' 1) = Some [[]] \<and>
        map_option (map ub_iso_frame_desc) (uc_urbs u' 2) = Some [[]] \<and> uc_calls u' = [SUBMITURB 1 0, SUBMITURB 2 0]"
    by code_simp
  then show ?thesis by (auto split: option.splits)
qed

end
