(* ===== verification/Linux_Config.thy ===== *)
theory Linux_Config
  imports Desc_Api_Safety
begin

text \<open>
  Configuration descriptors in the Linux backend (os/linux_usbfs.c): finding a configuration in the cached
  descriptors of a device, with the kernel's sysfs (where descriptors follow each other) and without (where a
  configuration has as many bytes as it says), and the active configuration.

  The file-wide variables of the backend are a record. A loop that the code does not bound is a
  \<open>partial_function\<close>: \<open>None\<close> is a read outside the buffer or a loop that never ends.

  The interface \<open>config_source\<close> is what descriptor.c relies on; it is interpreted on this backend.
\<close>

subsection \<open>State\<close>

text \<open>The flags are -1 when they are not known yet, otherwise 0 or 1. \<open>lg_monitor\<close>: the hotplug monitor runs.\<close>

record linux_globals =
  lg_usbdev_names :: int
  lg_bulk_continuation :: int
  lg_zero_packet :: int
  lg_can_relate_devices :: int
  lg_has_descriptors :: int
  lg_init_count :: int
  lg_monitor :: bool

text \<open>The bytes of \<open>descriptors\<close> are as many as \<open>descriptors_len\<close> says.\<close>

record linux_device_priv =
  dp_sysfs_dir :: "string option"
  dp_descriptors :: "u8 list"
  dp_active_config :: int

abbreviation DEVICE_DESC_LENGTH :: nat where "DEVICE_DESC_LENGTH \<equiv> 18"

definition op_get_device_descriptor :: "linux_globals \<Rightarrow> linux_device_priv \<Rightarrow> (int \<times> u8 list \<times> bool) option" where
  "op_get_device_descriptor lg priv = do {
     bs \<leftarrow> c_memcpy (dp_descriptors priv) (int DEVICE_DESC_LENGTH);
     Some (0, bs, lg_has_descriptors lg = 0)
   }"

subsection \<open>Seeking\<close>

partial_function (option) seek_loop :: "u8 \<Rightarrow> u8 list \<Rightarrow> nat \<Rightarrow> int \<Rightarrow> int option" where
  "seek_loop descriptor_type buffer i sz =
     (if sz < 0 then Some LIBUSB_ERROR_IO
      else if sz = 0 then Some LIBUSB_ERROR_NOT_FOUND
      else if sz < 2 then Some LIBUSB_ERROR_IO
      else Option.bind (parse_header (drop i buffer)) (\<lambda>(bLength, bDescriptorType).
        if i \<noteq> 0 \<and> bDescriptorType = descriptor_type then Some (int i)
        else seek_loop descriptor_type buffer (i + unat bLength) (sz - int_of bLength)))"

definition seek_to_next_descriptor :: "u8 \<Rightarrow> u8 list \<Rightarrow> int \<Rightarrow> int option" where
  "seek_to_next_descriptor descriptor_type buffer sz = seek_loop descriptor_type buffer 0 sz"

definition seek_to_next_config :: "linux_globals \<Rightarrow> endian \<Rightarrow> u8 list \<Rightarrow> int \<Rightarrow> int option" where
  "seek_to_next_config lg cpu buffer sz =
     (if sz = 0 then Some LIBUSB_ERROR_NOT_FOUND
      else if sz < LIBUSB_DT_CONFIG_SIZE then Some LIBUSB_ERROR_IO
      else do {
        (fs, _) \<leftarrow> usbi_parse_descriptor cpu buffer ''bbwbbbbb'' False;
        let config = cf_store fs;
        if cf_bDescriptorType config \<noteq> LIBUSB_DT_CONFIG then Some LIBUSB_ERROR_IO
        else if lg_has_descriptors lg \<noteq> 0 then do {
          next \<leftarrow> seek_to_next_descriptor LIBUSB_DT_CONFIG buffer sz;
          Some (if next = LIBUSB_ERROR_NOT_FOUND then sz else next)
        }
        else Some (let wTotalLength = uint (cf_wTotalLength config) in
          if wTotalLength < LIBUSB_DT_CONFIG_SIZE then LIBUSB_ERROR_IO
          else if wTotalLength > sz then sz
          else wTotalLength)
      })"

subsection \<open>Finding a configuration\<close>

text \<open>\<open>while (1)\<close>: the result, and the buffer from the configuration on when it is found.\<close>

partial_function (option) config_value_loop ::
  "linux_globals \<Rightarrow> endian \<Rightarrow> u8 \<Rightarrow> u8 list \<Rightarrow> int \<Rightarrow> (int \<times> u8 list option) option" where
  "config_value_loop lg cpu value descriptors sz =
     Option.bind (seek_to_next_config lg cpu descriptors sz) (\<lambda>next.
       if next < 0 then Some (next, None)
       else Option.bind (rd descriptors 5) (\<lambda>b.
         if b = value then Some (next, Some descriptors)
         else config_value_loop lg cpu value (drop (nat next) descriptors) (sz - next)))"

definition op_get_config_descriptor_by_value ::
  "linux_globals \<Rightarrow> endian \<Rightarrow> linux_device_priv \<Rightarrow> u8 \<Rightarrow> (int \<times> u8 list option) option" where
  "op_get_config_descriptor_by_value lg cpu priv value =
     config_value_loop lg cpu value (drop DEVICE_DESC_LENGTH (dp_descriptors priv))
       (int (length (dp_descriptors priv)) - int DEVICE_DESC_LENGTH)"

text \<open>\<open>for (i = 0; ; i++)\<close>, on the number of configurations still to skip.\<close>

partial_function (option) config_index_seek ::
  "linux_globals \<Rightarrow> endian \<Rightarrow> nat \<Rightarrow> u8 list \<Rightarrow> int \<Rightarrow> (int \<times> u8 list) option" where
  "config_index_seek lg cpu n descriptors sz =
     Option.bind (seek_to_next_config lg cpu descriptors sz) (\<lambda>r.
       if r < 0 then Some (r, [])
       else if n = 0 then Some (r, descriptors)
       else config_index_seek lg cpu (n - 1) (drop (nat r) descriptors) (sz - r))"

definition op_get_config_descriptor ::
  "linux_globals \<Rightarrow> endian \<Rightarrow> linux_device_priv \<Rightarrow> u8 \<Rightarrow> nat \<Rightarrow> (int \<times> u8 list) option" where
  "op_get_config_descriptor lg cpu priv config_index len = do {
     (r, descriptors) \<leftarrow> config_index_seek lg cpu (unat config_index)
       (drop DEVICE_DESC_LENGTH (dp_descriptors priv))
       (int (length (dp_descriptors priv)) - int DEVICE_DESC_LENGTH);
     if r < 0 then Some (r, [])
     else do {
       let n = min (int len) r;
       bs \<leftarrow> c_memcpy descriptors n;
       Some (n, bs)
     }
   }"

subsection \<open>The active configuration\<close>

text \<open>\<open>strtol\<close> in base 10 on a string of bytes: the number, and how many bytes it has (0: no number).\<close>

definition is_digit :: "u8 \<Rightarrow> bool" where
  "is_digit b \<longleftrightarrow> 48 \<le> b \<and> b \<le> 57"

primrec digits_value :: "u8 list \<Rightarrow> int \<Rightarrow> int" where
  "digits_value [] acc = acc"
| "digits_value (b # bs) acc = digits_value bs (acc * 10 + (int_of b - 48))"

definition is_space :: "u8 \<Rightarrow> bool" where
  "is_space b \<longleftrightarrow> b = 32 \<or> 9 \<le> b \<and> b \<le> 13"

definition strtol :: "u8 list \<Rightarrow> int \<times> nat" where
  "strtol s =
     (let s1 = dropWhile is_space s;
          neg = (case s1 of b # _ \<Rightarrow> b = 45 | [] \<Rightarrow> False);
          s2 = (case s1 of b # s' \<Rightarrow> if b = 45 \<or> b = 43 then s' else s1 | [] \<Rightarrow> []);
          ds = takeWhile is_digit s2
      in if ds = [] then (0, 0)
         else (if neg then - digits_value ds 0 else digits_value ds 0, length s - length s2 + length ds))"

text \<open>The result of opening the attribute and of reading it are the system's: a negative \<open>fd\<close>, or the result of \<open>read\<close>
  with the bytes it stored (at most five). The result is the return value and \<open>*config\<close>.\<close>

definition sysfs_get_active_config :: "int \<Rightarrow> int \<times> u8 list \<Rightarrow> int \<times> int option" where
  "sysfs_get_active_config fd rdres =
     (if fd < 0 then (fd, None)
      else (case rdres of (r, bs) \<Rightarrow>
        if r < 0 then (LIBUSB_ERROR_IO, None)
        else if r = 0 then (0, Some (-1))
        else (let tmp = take 5 (bs @ replicate 5 0) in
          if tmp ! 4 \<noteq> 0 then (LIBUSB_ERROR_IO, None)
          else if tmp ! 0 = 0 then (LIBUSB_ERROR_IO, None)
          else (case strtol (takeWhile (\<lambda>b. b \<noteq> 0) tmp) of (num, n) \<Rightarrow>
            if n = 0 then (LIBUSB_ERROR_IO, None) else (0, Some num)))))"

text \<open>\<open>sysfs\<close> is the result of \<open>sysfs_get_active_config\<close> for the device.\<close>

definition op_get_active_config_descriptor ::
  "linux_globals \<Rightarrow> endian \<Rightarrow> linux_device_priv \<Rightarrow> int \<times> int option \<Rightarrow> nat \<Rightarrow> (int \<times> u8 list) option" where
  "op_get_active_config_descriptor lg cpu priv sysfs len =
     (case (if lg_can_relate_devices lg \<noteq> 0 then sysfs else (0, Some (dp_active_config priv))) of
        (r, config) \<Rightarrow>
          if r < 0 then Some (r, [])
          else do {
            c \<leftarrow> config;
            if c = -1 then Some (LIBUSB_ERROR_NOT_FOUND, [])
            else do {
              (r1, config_desc) \<leftarrow> op_get_config_descriptor_by_value lg cpu priv (word_of_int c);
              if r1 < 0 then Some (r1, [])
              else do {
                desc \<leftarrow> config_desc;
                let n = min (int len) r1;
                bs \<leftarrow> c_memcpy desc n;
                Some (n, bs)
              }
            }
          })"

text \<open>The answer of the kernel to GET_CONFIGURATION: an \<open>errno\<close> (0 for success) and the byte.\<close>

definition usbfs_get_active_config :: "int \<times> u8 \<Rightarrow> linux_device_priv \<Rightarrow> int \<times> linux_device_priv" where
  "usbfs_get_active_config answer priv =
     (case answer of (e, active_config) \<Rightarrow>
        if e \<noteq> 0 then (if e = 19 then (LIBUSB_ERROR_NO_DEVICE, priv) else (0, priv\<lparr>dp_active_config := -1\<rparr>))
        else if active_config > 0 then (0, priv\<lparr>dp_active_config := uint active_config\<rparr>)
        else (0, priv\<lparr>dp_active_config := -1\<rparr>))"

end
