(* ===== verification/Linux_Devices.thy ===== *)
theory Linux_Devices
  imports Linux_Config Device_Props
begin

text \<open>
  Devices in the Linux backend (os/linux_usbfs.c): reading a new device's descriptors into its cache, finding its
  parent, enumerating a device, a bus or everything, disconnection, and the start and the end of the backend.

  What the kernel answers is the record \<open>linux_env\<close>: files of sysfs and usbfs as functions of the names that are
  opened. \<open>linux_ctx\<close> is a context of the library with the backend's private data of its devices. The enumeration
  of a parent from within the enumeration of its child is bounded by fuel.
\<close>

unbundle bit_operations_syntax

subsection \<open>The system's answers\<close>

abbreviation ENOENT :: int where "ENOENT \<equiv> 2"
abbreviation EACCES :: int where "EACCES \<equiv> 13"
abbreviation ENODEV :: int where "ENODEV \<equiv> 19"

text \<open>A text file of sysfs: missing, not readable, or its bytes.\<close>

datatype attr_file = NoFile | FileError | FileText "u8 list"

text \<open>\<open>__read_sysfs_attr\<close>, on the file it opens; \<open>fscanf\<close> with \<open>%d\<close> reads a number as \<open>strtol\<close> does.\<close>

definition read_sysfs_attr :: "attr_file \<Rightarrow> int" where
  "read_sysfs_attr f =
     (case f of
        NoFile \<Rightarrow> LIBUSB_ERROR_NO_DEVICE
      | FileError \<Rightarrow> LIBUSB_ERROR_IO
      | FileText bs \<Rightarrow> (case strtol bs of (v, n) \<Rightarrow>
          if n = 0 then LIBUSB_ERROR_NO_DEVICE else if v < 0 then LIBUSB_ERROR_IO else v))"

definition open_sysfs_attr :: "int \<Rightarrow> int" where
  "open_sysfs_attr fd = (if fd < 0 then LIBUSB_ERROR_IO else fd)"

text \<open>\<open>_get_usbfs_fd\<close>: two attempts to open the node, each with an \<open>errno\<close> or a file descriptor as its answer; the
  second one, 10 ms later, only when the node did not exist.\<close>

definition usbfs_open_error :: "int \<Rightarrow> int" where
  "usbfs_open_error e =
     (if e = EACCES then LIBUSB_ERROR_ACCESS else if e = ENOENT then LIBUSB_ERROR_NO_DEVICE else LIBUSB_ERROR_IO)"

definition get_usbfs_fd :: "(int + int) \<times> (int + int) \<Rightarrow> int" where
  "get_usbfs_fd tries =
     (case fst tries of
        Inr fd \<Rightarrow> fd
      | Inl e \<Rightarrow>
          if e = ENOENT then (case snd tries of Inr fd \<Rightarrow> fd | Inl e2 \<Rightarrow> usbfs_open_error e2)
          else usbfs_open_error e)"

text \<open>What the initialisation of a device asks: memory for the name, the opening of the descriptors in sysfs and in
  usbfs, \<open>read\<close> at an offset for a number of bytes (an error, or the bytes, some of which usbfs skips), memory for a
  size, and the node opened for writing with the answer to GET_CONFIGURATION.\<close>

record device_files =
  df_strdup :: bool
  df_sysfs_fd :: int
  df_usbfs_ro :: "(int + int) \<times> (int + int)"
  df_read :: "nat \<Rightarrow> nat \<Rightarrow> u8 option list option"
  df_realloc :: "nat \<Rightarrow> bool"
  df_usbfs_rw :: "(int + int) \<times> (int + int)"
  df_config :: "int \<times> u8"

record linux_env =
  le_backend :: core_backend
  le_cpu :: endian
  le_files :: "u8 \<Rightarrow> u8 \<Rightarrow> string option \<Rightarrow> device_files"
  le_attr :: "string \<Rightarrow> string \<Rightarrow> attr_file"

record linux_ctx =
  lx_core :: core_ctx
  lx_priv :: "ptr \<Rightarrow> linux_device_priv option"

definition on_lcore :: "(core_ctx \<Rightarrow> core_ctx option) \<Rightarrow> linux_ctx \<Rightarrow> linux_ctx option" where
  "on_lcore f s = do { c \<leftarrow> f (lx_core s); Some (s\<lparr>lx_core := c\<rparr>) }"

abbreviation lx_heap :: "linux_ctx \<Rightarrow> heap" where "lx_heap s \<equiv> co_heap (lx_core s)"

definition set_lxheap :: "heap \<Rightarrow> linux_ctx \<Rightarrow> linux_ctx" where
  "set_lxheap h s = s\<lparr>lx_core := set_heap h (lx_core s)\<rparr>"

text \<open>Dropping a reference. \<open>op_destroy_device\<close> frees the private data of the devices that die with it.\<close>

definition op_destroy_device :: "core_ctx \<Rightarrow> (ptr \<Rightarrow> linux_device_priv option) \<Rightarrow> ptr \<Rightarrow> linux_device_priv option" where
  "op_destroy_device c privs = privs |` dom (co_devs c)"

definition linux_unref :: "core_backend \<Rightarrow> ptr \<Rightarrow> linux_ctx \<Rightarrow> linux_ctx option" where
  "linux_unref be dev s = do {
     c \<leftarrow> libusb_unref_device be (Some dev) (lx_core s);
     Some \<lparr>lx_core = c, lx_priv = op_destroy_device c (lx_priv s)\<rparr>
   }"

subsection \<open>Reading the descriptors\<close>

text \<open>The bytes a \<open>read\<close> stored: usbfs leaves holes, in a buffer that was cleared before; a hole in a file of sysfs
  would leave bytes that nobody has written.\<close>

definition read_bytes :: "linux_globals \<Rightarrow> u8 option list \<Rightarrow> u8 list option" where
  "read_bytes lg bs = (if lg_has_descriptors lg = 0 then Some (map (\<lambda>b. case b of None \<Rightarrow> 0 | Some x \<Rightarrow> x) bs) else those bs)"

text \<open>The loop: \<open>sz\<close> is \<open>descriptors_size\<close>, \<open>bs\<close> the bytes read so far; an error, or the bytes.\<close>

partial_function (option) read_descriptors ::
  "linux_globals \<Rightarrow> device_files \<Rightarrow> nat \<Rightarrow> u8 list \<Rightarrow> (int + u8 list) option" where
  "read_descriptors lg df sz bs =
     (if \<not> df_realloc df (sz * 2) then Some (Inl LIBUSB_ERROR_NO_MEM)
      else case df_read df (length bs) (sz * 2 - length bs) of
          None \<Rightarrow> Some (Inl LIBUSB_ERROR_IO)
        | Some new \<Rightarrow> Option.bind (read_bytes lg new) (\<lambda>xs.
            if length (bs @ xs) = sz * 2 then read_descriptors lg df (sz * 2) (bs @ xs)
            else Some (Inr (bs @ xs))))"

definition device_speed :: "int \<Rightarrow> int \<Rightarrow> int" where
  "device_speed old speed =
     (if speed = 1 then 1 else if speed = 12 then 2 else if speed = 480 then 3 else if speed = 5000 then 4 else old)"

text \<open>The configuration that is active: asked from the device, or the first one when that is not possible.\<close>

definition cache_active_config ::
  "endian \<Rightarrow> device_files \<Rightarrow> linux_device_priv \<Rightarrow> (int \<times> linux_device_priv) option" where
  "cache_active_config cpu df priv =
     (let fd = get_usbfs_fd (df_usbfs_rw df) in
      if fd < 0 then
        (if DEVICE_DESC_LENGTH + nat LIBUSB_DT_CONFIG_SIZE \<le> length (dp_descriptors priv) then do {
           (fs, _) \<leftarrow> usbi_parse_descriptor cpu (drop DEVICE_DESC_LENGTH (dp_descriptors priv)) ''bbwbbbbb'' False;
           Some (LIBUSB_SUCCESS, priv\<lparr>dp_active_config := uint (cf_bConfigurationValue (cf_store fs))\<rparr>)
         }
         else Some (LIBUSB_SUCCESS, priv\<lparr>dp_active_config := -1\<rparr>))
      else Some (usbfs_get_active_config (df_config df) priv))"

definition initialize_device ::
  "linux_globals \<Rightarrow> linux_env \<Rightarrow> u8 \<Rightarrow> u8 \<Rightarrow> string option \<Rightarrow> libusb_device \<Rightarrow> linux_device_priv
    \<Rightarrow> (int \<times> libusb_device \<times> linux_device_priv) option" where
  "initialize_device lg env busnum devaddr sysfs_dir dv0 priv0 =
     (let df = le_files env busnum devaddr sysfs_dir;
          dv = dv0\<lparr>dv_bus_number := busnum, dv_device_address := devaddr\<rparr> in
      if sysfs_dir \<noteq> None \<and> \<not> df_strdup df then Some (LIBUSB_ERROR_NO_MEM, dv, priv0)
      else do {
        let (dv1, priv1) = (case sysfs_dir of
            None \<Rightarrow> (dv, priv0)
          | Some dir \<Rightarrow>
              (let speed = read_sysfs_attr (le_attr env dir ''speed'') in
               (if 0 \<le> speed then dv\<lparr>dv_speed := device_speed (dv_speed dv) speed\<rparr> else dv,
                priv0\<lparr>dp_sysfs_dir := Some dir\<rparr>)));
        fd \<leftarrow> (if lg_has_descriptors lg \<noteq> 0
               then do { _ \<leftarrow> dp_sysfs_dir priv1; Some (open_sysfs_attr (df_sysfs_fd df)) }
               else Some (get_usbfs_fd (df_usbfs_ro df)));
        if fd < 0 then Some (fd, dv1, priv1)
        else do {
          x \<leftarrow> read_descriptors lg df 512 [];
          (case x of
             Inl e \<Rightarrow> Some (e, dv1, priv1)
           | Inr bs \<Rightarrow>
               (let priv2 = priv1\<lparr>dp_descriptors := bs\<rparr> in
                if length bs < DEVICE_DESC_LENGTH then Some (LIBUSB_ERROR_IO, dv1, priv2)
                else if lg_can_relate_devices lg \<noteq> 0 then Some (LIBUSB_SUCCESS, dv1, priv2)
                else do {
                  (r, priv3) \<leftarrow> cache_active_config (le_cpu env) df priv2;
                  Some (r, dv1, priv3)
                }))
        }
      })"

subsection \<open>The parent\<close>

text \<open>\<open>strrchr\<close>: the index of the last occurrence.\<close>

definition strrchr :: "'a \<Rightarrow> 'a list \<Rightarrow> nat option" where
  "strrchr ch s = (if ch \<in> set s then Some (length s - 1 - length (takeWhile (\<lambda>x. x \<noteq> ch) (rev s))) else None)"

definition atoi :: "string \<Rightarrow> int" where
  "atoi s = fst (strtol (map of_char s))"

text \<open>The port number and the parent's name in a name like 1-1.4 or 2-3.\<close>

definition split_port :: "string \<Rightarrow> (u8 \<times> string) option" where
  "split_port nm =
     (case strrchr (CHR ''.'') nm of
        Some i \<Rightarrow> Some (word_of_int (atoi (drop (Suc i) nm)), take i nm)
      | None \<Rightarrow> (case strrchr (CHR ''-'') nm of
          Some i \<Rightarrow> Some (word_of_int (atoi (drop (Suc i) nm)), take i nm)
        | None \<Rightarrow> None))"

text \<open>\<open>strcmp\<close> with the name of a device that has none is a fault.\<close>

primrec parent_loop :: "(ptr \<Rightarrow> linux_device_priv option) \<Rightarrow> string \<Rightarrow> ptr list \<Rightarrow> ptr option option" where
  "parent_loop privs nm [] = Some None"
| "parent_loop privs nm (it # ps) = do {
     priv \<leftarrow> privs it;
     dir \<leftarrow> dp_sysfs_dir priv;
     if dir = nm then Some (Some it) else parent_loop privs nm ps
   }"

definition find_parent :: "ptr \<Rightarrow> string \<Rightarrow> linux_ctx \<Rightarrow> linux_ctx option" where
  "find_parent dev nm s = do {
     s1 \<leftarrow> on_lcore lock_usb_devs s;
     it \<leftarrow> parent_loop (lx_priv s1) nm (co_usb_devs (lx_core s1));
     s2 \<leftarrow> (case it of
         None \<Rightarrow> Some s1
       | Some p \<Rightarrow> do {
           s2 \<leftarrow> on_lcore (libusb_ref_device p) s1;
           dv \<leftarrow> get_dev dev (lx_core s2);
           on_lcore (\<lambda>c. Some (put_dev dev (dv\<lparr>dv_parent_dev := Some p\<rparr>) c)) s2
         });
     on_lcore unlock_usb_devs s2
   }"

text \<open>\<open>parent_sysfs_dir\<close> with its block: the copy of the name, or the one \<open>asprintf\<close> makes for a root hub.\<close>

definition parent_dir :: "ptr \<Rightarrow> string \<Rightarrow> heap \<Rightarrow> ((ptr \<times> string) option \<times> heap) option" where
  "parent_dir tmp nm h =
     (if CHR ''-'' \<in> set nm then Some (Some (tmp, nm), h)
      else (case c_malloc h of (q, h1) \<Rightarrow> do {
        h2 \<leftarrow> c_release tmp h1;
        Some (map_option (\<lambda>p. (p, ''usb'' @ nm)) q, h2)
      }))"

definition linux_get_parent_info ::
  "(string \<Rightarrow> linux_ctx \<Rightarrow> (int \<times> linux_ctx) option) \<Rightarrow> ptr \<Rightarrow> string option \<Rightarrow> linux_ctx \<Rightarrow> (int \<times> linux_ctx) option" where
  "linux_get_parent_info scan dev sysfs_dir s =
     (case sysfs_dir of
        None \<Rightarrow> Some (LIBUSB_SUCCESS, s)
      | Some nm \<Rightarrow>
          if take 3 nm = ''usb'' then Some (LIBUSB_SUCCESS, s)
          else (case c_malloc (lx_heap s) of
              (None, h) \<Rightarrow> Some (LIBUSB_ERROR_NO_MEM, set_lxheap h s)
            | (Some tmp, h) \<Rightarrow>
                (case split_port nm of
                   None \<Rightarrow> do { h1 \<leftarrow> c_release tmp h; Some (LIBUSB_SUCCESS, set_lxheap h1 s) }
                 | Some (port, pn) \<Rightarrow> do {
                     dv \<leftarrow> get_dev dev (lx_core s);
                     let s1 = s\<lparr>lx_core := put_dev dev (dv\<lparr>dv_port_number := port\<rparr>) (lx_core s)\<rparr>;
                     (dir, h1) \<leftarrow> parent_dir tmp pn h;
                     (case dir of
                        None \<Rightarrow> Some (LIBUSB_ERROR_NO_MEM, set_lxheap h1 s1)
                      | Some (blk, parent_sysfs_dir) \<Rightarrow> do {
                          s2 \<leftarrow> find_parent dev parent_sysfs_dir (set_lxheap h1 s1);
                          dv2 \<leftarrow> get_dev dev (lx_core s2);
                          s3 \<leftarrow> (if dv_parent_dev dv2 = None then do {
                                  (_, s3) \<leftarrow> scan parent_sysfs_dir s2;
                                  find_parent dev parent_sysfs_dir s3
                                }
                                else Some s2);
                          h2 \<leftarrow> c_release blk (lx_heap s3);
                          Some (LIBUSB_SUCCESS, set_lxheap h2 s3)
                        })
                   })))"

subsection \<open>Enumerating a device\<close>

text \<open>\<open>%hhu\<close>: a number as \<open>strtoul\<close> reads it, cut to a byte, and the bytes behind it.\<close>

definition scan_hhu :: "u8 list \<Rightarrow> (u8 \<times> u8 list) option" where
  "scan_hhu s = (case strtol s of (v, n) \<Rightarrow> if n = 0 then None else Some (word_of_int v, drop n s))"

text \<open>\<open>sscanf\<close> with a path followed by two numbers: what it stores.\<close>

definition sscanf_node :: "string \<Rightarrow> string \<Rightarrow> u8 option \<times> u8 option" where
  "sscanf_node path s =
     (let p = path @ ''/'' in
      if take (length p) s \<noteq> p then (None, None)
      else (case scan_hhu (map of_char (drop (length p) s)) of
          None \<Rightarrow> (None, None)
        | Some (bus, rest) \<Rightarrow>
            (case rest of
               b # rest' \<Rightarrow> if b = 47 then (Some bus, map_option fst (scan_hhu rest')) else (Some bus, None)
             | [] \<Rightarrow> (Some bus, None))))"

text \<open>The result and what is stored for the bus number and the device address, if anything is.\<close>

definition linux_get_device_address ::
  "linux_globals \<Rightarrow> linux_env \<Rightarrow> bool \<Rightarrow> string option \<Rightarrow> string option \<Rightarrow> int \<times> u8 option \<times> u8 option" where
  "linux_get_device_address lg env detached dev_node sys_name =
     (case (if lg_can_relate_devices lg = 0 \<or> detached then None else sys_name) of
        None \<Rightarrow>
          (case dev_node of
             None \<Rightarrow> (LIBUSB_ERROR_OTHER, None, None)
           | Some node \<Rightarrow>
               if take 12 node = ''/dev/bus/usb'' then (LIBUSB_SUCCESS, sscanf_node ''/dev/bus/usb'' node)
               else if take 13 node = ''/proc/bus/usb'' then (LIBUSB_SUCCESS, sscanf_node ''/proc/bus/usb'' node)
               else (LIBUSB_SUCCESS, None, None))
      | Some nm \<Rightarrow>
          (let busnum = read_sysfs_attr (le_attr env nm ''busnum'') in
           if busnum < 0 then (busnum, None, None)
           else if busnum > 255 then (LIBUSB_ERROR_INVALID_PARAM, None, None)
           else (let devnum = read_sysfs_attr (le_attr env nm ''devnum'') in
             if devnum < 0 then (devnum, Some (word_of_int busnum), None)
             else if devnum > 255 then (LIBUSB_ERROR_INVALID_PARAM, Some (word_of_int busnum), None)
             else (LIBUSB_SUCCESS, Some (word_of_int busnum), Some (word_of_int devnum)))))"

definition session_id :: "u8 \<Rightarrow> u8 \<Rightarrow> nat" where
  "session_id busnum devaddr = push_bit 8 (unat busnum) OR unat devaddr"

text \<open>\<open>enum_dev\<close> is \<open>linux_enumerate_device\<close>.\<close>

definition sysfs_scan_device ::
  "linux_globals \<Rightarrow> linux_env \<Rightarrow> (u8 \<Rightarrow> u8 \<Rightarrow> string option \<Rightarrow> linux_ctx \<Rightarrow> (int \<times> linux_ctx) option)
    \<Rightarrow> string \<Rightarrow> linux_ctx \<Rightarrow> (int \<times> linux_ctx) option" where
  "sysfs_scan_device lg env enum_dev devname s =
     (case linux_get_device_address lg env False None (Some devname) of
        (ret, busnum, devaddr) \<Rightarrow>
          if ret \<noteq> LIBUSB_SUCCESS then Some (ret, s)
          else do { b \<leftarrow> busnum; d \<leftarrow> devaddr; enum_dev b d (Some devname) s })"

definition new_priv :: linux_device_priv where
  "new_priv = \<lparr>dp_sysfs_dir = None, dp_descriptors = [], dp_active_config = 0\<rparr>"

text \<open>The three steps that fill a new device, each only when the one before has succeeded.\<close>

definition init_new_device ::
  "linux_globals \<Rightarrow> linux_env \<Rightarrow> (string \<Rightarrow> linux_ctx \<Rightarrow> (int \<times> linux_ctx) option) \<Rightarrow> u8 \<Rightarrow> u8 \<Rightarrow> string option
    \<Rightarrow> ptr \<Rightarrow> linux_ctx \<Rightarrow> (int \<times> linux_ctx) option" where
  "init_new_device lg env scan busnum devaddr sysfs_dir dev s = do {
     dv \<leftarrow> get_dev dev (lx_core s);
     priv \<leftarrow> lx_priv s dev;
     (r, dv1, priv1) \<leftarrow> initialize_device lg env busnum devaddr sysfs_dir dv priv;
     let s1 = \<lparr>lx_core = put_dev dev dv1 (lx_core s), lx_priv = (lx_priv s)(dev \<mapsto> priv1)\<rparr>;
     if r < 0 then Some (r, s1)
     else do {
       answer \<leftarrow> op_get_device_descriptor lg priv1;
       (r1, c2) \<leftarrow> usbi_sanitize_device (le_cpu env) answer dev (lx_core s1);
       if r1 < 0 then Some (r1, s1\<lparr>lx_core := c2\<rparr>)
       else linux_get_parent_info scan dev sysfs_dir (s1\<lparr>lx_core := c2\<rparr>)
     }
   }"

primrec linux_enumerate_device ::
  "nat \<Rightarrow> linux_globals \<Rightarrow> linux_env \<Rightarrow> u8 \<Rightarrow> u8 \<Rightarrow> string option \<Rightarrow> linux_ctx \<Rightarrow> (int \<times> linux_ctx) option" where
  "linux_enumerate_device 0 lg env busnum devaddr sysfs_dir s = None"
| "linux_enumerate_device (Suc n) lg env busnum devaddr sysfs_dir s = do {
     let be = le_backend env;
     (found, c1) \<leftarrow> usbi_get_device_by_session_id (session_id busnum devaddr) (lx_core s);
     (case found of
        Some dev \<Rightarrow> do { s1 \<leftarrow> linux_unref be dev (s\<lparr>lx_core := c1\<rparr>); Some (LIBUSB_SUCCESS, s1) }
      | None \<Rightarrow> do {
          (new, c2) \<leftarrow> usbi_alloc_device be (session_id busnum devaddr) c1;
          (case new of
             None \<Rightarrow> Some (LIBUSB_ERROR_NO_MEM, s\<lparr>lx_core := c2\<rparr>)
           | Some dev \<Rightarrow> do {
               (r, s1) \<leftarrow> init_new_device lg env (sysfs_scan_device lg env (linux_enumerate_device n lg env))
                 busnum devaddr sysfs_dir dev \<lparr>lx_core = c2, lx_priv = (lx_priv s)(dev \<mapsto> new_priv)\<rparr>;
               s2 \<leftarrow> (if r < 0 then linux_unref be dev s1 else on_lcore (usbi_connect_device be dev) s1);
               Some (r, s2)
             })
        })
   }"

end
