(* ===== verification/Linux_Scan.thy ===== *)
theory Linux_Scan
  imports Linux_Devices
begin

text \<open>
  Finding devices in the Linux backend (os/linux_usbfs.c): the version of the kernel and the place of usbfs, the scans of
  sysfs and usbfs, arrival and disconnection of a device in all contexts, and the start and the end of the backend with
  its hotplug monitor.

  Directories, \<open>uname\<close> and the start of the monitor are the system's answers, in the record \<open>linux_system\<close>. An entry of a
  directory is its name, which is not empty.
\<close>

subsection \<open>The system\<close>

record linux_system =
  ls_dir :: "string \<Rightarrow> string list option"
  ls_release :: "string option"
  ls_sysfs_mounted :: bool
  ls_clock_monotonic :: bool
  ls_start_monitor :: int

abbreviation SYSFS_DEVICE_PATH :: string where "SYSFS_DEVICE_PATH \<equiv> ''/sys/bus/usb/devices''"

text \<open>The variables of the file: those of \<open>linux_globals\<close>, the path of usbfs, the clock, and two locks.\<close>

record linux_static =
  st_lg :: linux_globals
  st_usbfs_path :: "string option"
  st_monotonic_clkid :: int
  st_startstop_lock :: bool
  st_hotplug_lock :: bool

subsection \<open>Numbers in names\<close>

text \<open>\<open>%d\<close> in \<open>sscanf\<close>, and up to \<open>n\<close> of them with dots between: the numbers that were read.\<close>

definition scan_d :: "u8 list \<Rightarrow> (int \<times> u8 list) option" where
  "scan_d s = (case strtol s of (v, n) \<Rightarrow> if n = 0 then None else Some (v, drop n s))"

primrec scan_dotted :: "nat \<Rightarrow> u8 list \<Rightarrow> int list" where
  "scan_dotted 0 s = []"
| "scan_dotted (Suc n) s =
     (case scan_d s of
        None \<Rightarrow> []
      | Some (v, rest) \<Rightarrow> v # (case rest of b # rest' \<Rightarrow> if b = 46 then scan_dotted n rest' else [] | [] \<Rightarrow> []))"

definition is_usbdev_entry :: "string \<Rightarrow> (int \<times> int) option" where
  "is_usbdev_entry d_name =
     (if take 6 d_name = ''usbdev''
      then (case scan_dotted 2 (map of_char (drop 6 d_name)) of [busnum, devnum] \<Rightarrow> Some (busnum, devnum) | _ \<Rightarrow> None)
      else None)"

text \<open>1, 0, or -1 when the version is not known.\<close>

definition kernel_version_ge :: "string option \<Rightarrow> int \<Rightarrow> int \<Rightarrow> int \<Rightarrow> int" where
  "kernel_version_ge release major minor sublevel =
     (case release of
        None \<Rightarrow> -1
      | Some rel \<Rightarrow>
          (case scan_dotted 3 (map of_char rel) of
             [] \<Rightarrow> -1
           | kmajor # atoms \<Rightarrow>
               if kmajor > major then 1
               else if kmajor < major then 0
               else (case atoms of
                   [] \<Rightarrow> of_bool (0 = minor \<and> 0 = sublevel)
                 | kminor # atoms' \<Rightarrow>
                     if kminor > minor then 1
                     else if kminor < minor then 0
                     else (case atoms' of [] \<Rightarrow> of_bool (0 = sublevel) | ksublevel # _ \<Rightarrow> of_bool (ksublevel \<ge> sublevel)))))"

subsection \<open>Where usbfs is\<close>

definition check_usb_vfs :: "linux_system \<Rightarrow> string \<Rightarrow> bool" where
  "check_usb_vfs sys dirname = (case ls_dir sys dirname of None \<Rightarrow> False | Some entries \<Rightarrow> \<exists>e \<in> set entries. take 1 e \<noteq> ''.'')"

text \<open>The path, and whether the names are of the form usbdev1.2. \<open>udev\<close> stands for \<open>USE_UDEV\<close>.\<close>

definition find_usbfs_path :: "bool \<Rightarrow> linux_system \<Rightarrow> string option \<times> bool" where
  "find_usbfs_path udev sys =
     (if check_usb_vfs sys ''/dev/bus/usb'' then (Some ''/dev/bus/usb'', False)
      else if check_usb_vfs sys ''/proc/bus/usb'' then (Some ''/proc/bus/usb'', False)
      else if (case ls_dir sys ''/dev'' of None \<Rightarrow> False | Some entries \<Rightarrow> \<exists>e \<in> set entries. is_usbdev_entry e \<noteq> None)
      then (Some ''/dev'', True)
      else (if udev then Some ''/dev/bus/usb'' else None, False))"

subsection \<open>Scanning\<close>

text \<open>\<open>linux_enumerate_device\<close> with fuel for a device of this name.\<close>

definition enum_dev ::
  "linux_globals \<Rightarrow> linux_env \<Rightarrow> u8 \<Rightarrow> u8 \<Rightarrow> string option \<Rightarrow> linux_ctx \<Rightarrow> (int \<times> linux_ctx) option" where
  "enum_dev lg env busnum devaddr dir s =
     linux_enumerate_device (case dir of None \<Rightarrow> 1 | Some nm \<Rightarrow> Suc (length nm)) lg env busnum devaddr dir s"

primrec busdir_loop ::
  "linux_globals \<Rightarrow> linux_env \<Rightarrow> u8 \<Rightarrow> string list \<Rightarrow> int \<Rightarrow> linux_ctx \<Rightarrow> (int \<times> linux_ctx) option" where
  "busdir_loop lg env busnum [] r s = Some (r, s)"
| "busdir_loop lg env busnum (e # es) r s =
     (if take 1 e = ''.'' then busdir_loop lg env busnum es r s
      else (let devaddr = atoi e in
        if devaddr = 0 then busdir_loop lg env busnum es r s
        else Option.bind (enum_dev lg env busnum (word_of_int devaddr) None s) (\<lambda>(x, s1).
          busdir_loop lg env busnum es (if x \<noteq> 0 then r else 0) s1)))"

text \<open>\<open>%03d\<close> of a byte.\<close>

definition fmt_03 :: "u8 \<Rightarrow> string" where
  "fmt_03 n = map (\<lambda>d. char_of (48 + d mod 10 :: nat)) [unat n div 100, unat n div 10, unat n]"

definition usbfs_scan_busdir ::
  "linux_system \<Rightarrow> linux_globals \<Rightarrow> linux_env \<Rightarrow> string \<Rightarrow> u8 \<Rightarrow> linux_ctx \<Rightarrow> (int \<times> linux_ctx) option" where
  "usbfs_scan_busdir sys lg env path busnum s =
     (case ls_dir sys (path @ ''/'' @ fmt_03 busnum) of
        None \<Rightarrow> Some (LIBUSB_ERROR_IO, s)
      | Some entries \<Rightarrow> busdir_loop lg env busnum entries LIBUSB_ERROR_IO s)"

primrec usbfs_loop ::
  "linux_system \<Rightarrow> linux_globals \<Rightarrow> linux_env \<Rightarrow> string \<Rightarrow> string list \<Rightarrow> int \<Rightarrow> linux_ctx \<Rightarrow> (int \<times> linux_ctx) option" where
  "usbfs_loop sys lg env path [] r s = Some (r, s)"
| "usbfs_loop sys lg env path (e # es) r s =
     (if take 1 e = ''.'' then usbfs_loop sys lg env path es r s
      else if lg_usbdev_names lg \<noteq> 0 then
        (case is_usbdev_entry e of
           None \<Rightarrow> usbfs_loop sys lg env path es r s
         | Some (busnum, devaddr) \<Rightarrow>
             Option.bind (enum_dev lg env (word_of_int busnum) (word_of_int devaddr) None s) (\<lambda>(x, s1).
               usbfs_loop sys lg env path es x s1))
      else (let busnum = atoi e in
        if busnum = 0 then usbfs_loop sys lg env path es r s
        else Option.bind (usbfs_scan_busdir sys lg env path (word_of_int busnum) s) (\<lambda>(x, s1).
          if x < 0 then Some (x, s1) else usbfs_loop sys lg env path es x s1)))"

definition usbfs_get_device_list ::
  "linux_system \<Rightarrow> linux_globals \<Rightarrow> linux_env \<Rightarrow> string \<Rightarrow> linux_ctx \<Rightarrow> (int \<times> linux_ctx) option" where
  "usbfs_get_device_list sys lg env path s =
     (case ls_dir sys path of
        None \<Rightarrow> Some (LIBUSB_ERROR_IO, s)
      | Some entries \<Rightarrow> usbfs_loop sys lg env path entries 0 s)"

definition skip_entry :: "string \<Rightarrow> bool" where
  "skip_entry e \<longleftrightarrow> \<not> (\<exists>ch \<in> set (take 1 e). is_digit (of_char ch)) \<and> take 3 e \<noteq> ''usb'' \<or> CHR '':'' \<in> set e"

primrec sysfs_loop ::
  "linux_globals \<Rightarrow> linux_env \<Rightarrow> string list \<Rightarrow> int \<Rightarrow> linux_ctx \<Rightarrow> (int \<times> linux_ctx) option" where
  "sysfs_loop lg env [] r s = Some (r, s)"
| "sysfs_loop lg env (e # es) r s =
     (if skip_entry e then sysfs_loop lg env es r s
      else Option.bind (sysfs_scan_device lg env (enum_dev lg env) e s) (\<lambda>(x, s1).
        sysfs_loop lg env es (if x \<noteq> 0 then r else 0) s1))"

definition sysfs_get_device_list :: "linux_system \<Rightarrow> linux_globals \<Rightarrow> linux_env \<Rightarrow> linux_ctx \<Rightarrow> (int \<times> linux_ctx) option" where
  "sysfs_get_device_list sys lg env s =
     (case ls_dir sys SYSFS_DEVICE_PATH of
        None \<Rightarrow> Some (LIBUSB_ERROR_IO, s)
      | Some entries \<Rightarrow> sysfs_loop lg env entries LIBUSB_ERROR_IO s)"

definition linux_default_scan_devices ::
  "linux_system \<Rightarrow> linux_globals \<Rightarrow> linux_env \<Rightarrow> string \<Rightarrow> linux_ctx \<Rightarrow> (int \<times> linux_ctx) option" where
  "linux_default_scan_devices sys lg env path s =
     (if lg_can_relate_devices lg \<noteq> 0 then sysfs_get_device_list sys lg env s else usbfs_get_device_list sys lg env path s)"

subsection \<open>Arrival and disconnection\<close>

text \<open>The active contexts, in the order of their list.\<close>

primrec linux_hotplug_enumerate ::
  "linux_globals \<Rightarrow> linux_env \<Rightarrow> u8 \<Rightarrow> u8 \<Rightarrow> string option \<Rightarrow> linux_ctx list \<Rightarrow> linux_ctx list option" where
  "linux_hotplug_enumerate lg env busnum devaddr sys_name [] = Some []"
| "linux_hotplug_enumerate lg env busnum devaddr sys_name (s # ss) = do {
     (_, s1) \<leftarrow> enum_dev lg env busnum devaddr sys_name s;
     ss1 \<leftarrow> linux_hotplug_enumerate lg env busnum devaddr sys_name ss;
     Some (s1 # ss1)
   }"

definition disconnect_session :: "core_backend \<Rightarrow> nat \<Rightarrow> linux_ctx \<Rightarrow> linux_ctx option" where
  "disconnect_session be session s = do {
     (dev, c1) \<leftarrow> usbi_get_device_by_session_id session (lx_core s);
     (case dev of
        None \<Rightarrow> Some (s\<lparr>lx_core := c1\<rparr>)
      | Some p \<Rightarrow> do {
          c2 \<leftarrow> usbi_disconnect_device be p c1;
          linux_unref be p (s\<lparr>lx_core := c2\<rparr>)
        })
   }"

primrec linux_device_disconnected :: "core_backend \<Rightarrow> u8 \<Rightarrow> u8 \<Rightarrow> linux_ctx list \<Rightarrow> linux_ctx list option" where
  "linux_device_disconnected be busnum devaddr [] = Some []"
| "linux_device_disconnected be busnum devaddr (s # ss) = do {
     s1 \<leftarrow> disconnect_session be (session_id busnum devaddr) s;
     ss1 \<leftarrow> linux_device_disconnected be busnum devaddr ss;
     Some (s1 # ss1)
   }"

subsection \<open>Start and end\<close>

definition lock_startstop :: "linux_static \<Rightarrow> linux_static option" where
  "lock_startstop st = (if st_startstop_lock st then None else Some (st\<lparr>st_startstop_lock := True\<rparr>))"

definition unlock_startstop :: "linux_static \<Rightarrow> linux_static option" where
  "unlock_startstop st = (if st_startstop_lock st then Some (st\<lparr>st_startstop_lock := False\<rparr>) else None)"

definition set_lg :: "(linux_globals \<Rightarrow> linux_globals) \<Rightarrow> linux_static \<Rightarrow> linux_static" where
  "set_lg f st = st\<lparr>st_lg := f (st_lg st)\<rparr>"

definition linux_start_event_monitor :: "linux_system \<Rightarrow> linux_static \<Rightarrow> int \<times> linux_static" where
  "linux_start_event_monitor sys st =
     (ls_start_monitor sys, if ls_start_monitor sys = LIBUSB_SUCCESS then set_lg (lg_monitor_update (\<lambda>_. True)) st else st)"

definition linux_stop_event_monitor :: "linux_static \<Rightarrow> linux_static" where
  "linux_stop_event_monitor st = set_lg (lg_monitor_update (\<lambda>_. False)) st"

definition linux_scan_devices ::
  "linux_system \<Rightarrow> linux_env \<Rightarrow> string \<Rightarrow> linux_static \<Rightarrow> linux_ctx \<Rightarrow> (int \<times> linux_static \<times> linux_ctx) option" where
  "linux_scan_devices sys env path st s =
     (if st_hotplug_lock st then None
      else do { (ret, s1) \<leftarrow> linux_default_scan_devices sys (st_lg st) env path s; Some (ret, st, s1) })"

text \<open>\<open>CLOCK_MONOTONIC\<close> is 1, \<open>CLOCK_REALTIME\<close> is 0.\<close>

definition find_monotonic_clock :: "linux_system \<Rightarrow> int" where
  "find_monotonic_clock sys = (if ls_clock_monotonic sys then 1 else 0)"

text \<open>A flag that is not known yet is asked from the kernel's version.\<close>

definition known_flag :: "linux_system \<Rightarrow> int \<Rightarrow> int \<Rightarrow> int" where
  "known_flag sys sublevel old = (if old = -1 then kernel_version_ge (ls_release sys) 2 6 sublevel else old)"

text \<open>The flags, in their order, up to the first one that stays unknown (and keeps its value -1).\<close>

definition init_flags :: "linux_system \<Rightarrow> linux_globals \<Rightarrow> bool \<times> linux_globals" where
  "init_flags sys lg =
     (let bulk = known_flag sys 32 (lg_bulk_continuation lg); zero = known_flag sys 31 (lg_zero_packet lg);
          has = known_flag sys 26 (lg_has_descriptors lg); can = known_flag sys 22 (lg_can_relate_devices lg) in
      if bulk = -1 then (False, lg)
      else if zero = -1 then (False, lg\<lparr>lg_bulk_continuation := bulk\<rparr>)
      else if has = -1 then (False, lg\<lparr>lg_bulk_continuation := bulk, lg_zero_packet := zero\<rparr>)
      else if can = -1 then (False, lg\<lparr>lg_bulk_continuation := bulk, lg_zero_packet := zero, lg_has_descriptors := has\<rparr>)
      else if (can \<noteq> 0 \<or> has \<noteq> 0) \<and> \<not> ls_sysfs_mounted sys
      then (True, lg\<lparr>lg_bulk_continuation := bulk, lg_zero_packet := zero, lg_has_descriptors := 0, lg_can_relate_devices := 0\<rparr>)
      else (True, lg\<lparr>lg_bulk_continuation := bulk, lg_zero_packet := zero, lg_has_descriptors := has, lg_can_relate_devices := can\<rparr>))"

text \<open>The monitor is started with the first context, and stopped again when its scan fails.\<close>

definition start_backend ::
  "linux_system \<Rightarrow> linux_env \<Rightarrow> string \<Rightarrow> linux_static \<Rightarrow> linux_ctx \<Rightarrow> (int \<times> linux_static \<times> linux_ctx) option" where
  "start_backend sys env path st s = do {
     st1 \<leftarrow> lock_startstop st;
     let (r, st2) = (if lg_init_count (st_lg st1) = 0 then linux_start_event_monitor sys st1 else (LIBUSB_SUCCESS, st1));
     (r2, st3, s1) \<leftarrow>
       (if r = LIBUSB_SUCCESS then do {
          (r2, st3, s1) \<leftarrow> linux_scan_devices sys env path st2 s;
          Some (r2,
            if r2 = LIBUSB_SUCCESS then set_lg (lg_init_count_update (\<lambda>n. n + 1)) st3
            else if lg_init_count (st_lg st3) = 0 then linux_stop_event_monitor st3 else st3,
            s1)
        }
        else Some (r, st2, s));
     st4 \<leftarrow> unlock_startstop st3;
     Some (r2, st4, s1)
   }"

definition op_init ::
  "bool \<Rightarrow> linux_system \<Rightarrow> linux_env \<Rightarrow> linux_static \<Rightarrow> linux_ctx \<Rightarrow> (int \<times> linux_static \<times> linux_ctx) option" where
  "op_init udev sys env st s =
     (let (path, names) = find_usbfs_path udev sys;
          st1 = st\<lparr>st_usbfs_path := path, st_lg := (if names then (st_lg st)\<lparr>lg_usbdev_names := 1\<rparr> else st_lg st)\<rparr> in
      case path of
        None \<Rightarrow> Some (LIBUSB_ERROR_OTHER, st1, s)
      | Some p \<Rightarrow>
          (let st2 = (if st_monotonic_clkid st1 = -1 then st1\<lparr>st_monotonic_clkid := find_monotonic_clock sys\<rparr> else st1);
               (known, lg) = init_flags sys (st_lg st2); st3 = st2\<lparr>st_lg := lg\<rparr> in
           if \<not> known then Some (LIBUSB_ERROR_OTHER, st3, s) else start_backend sys env p st3 s))"

definition op_exit :: "linux_static \<Rightarrow> linux_static option" where
  "op_exit st = do {
     st1 \<leftarrow> lock_startstop st;
     if lg_init_count (st_lg st1) = 0 then None
     else (let st2 = set_lg (lg_init_count_update (\<lambda>n. n - 1)) st1 in
       unlock_startstop (if lg_init_count (st_lg st2) = 0 then linux_stop_event_monitor st2 else st2))
   }"

end
