(* ===== verification/Linux_Config_Props.thy ===== *)
theory Linux_Config_Props
  imports Linux_Config
begin

text \<open>
  The search for configurations ends, stays inside the cached descriptors, and gives what descriptor.c relies on,
  so that the safety of \<open>libusb_get_config_descriptor\<close> holds for the Linux backend.
\<close>

subsection \<open>The interface of descriptor.c\<close>

locale config_source =
  fixes get_config :: "u8 \<Rightarrow> reader"
  assumes conforms: "reader_ok (get_config i)"
begin

lemma result_length:
  assumes "get_config i n len = (r, bs, he)" and "0 \<le> r"
  shows "int (length bs) = r" and "length bs \<le> len"
  using reader_okD [OF conforms assms] by simp_all

lemma fetched:
  assumes "heap_wf h" and "\<And>n. \<not> hp_refail h n"
  shows "\<exists>r config h'. fetch_config cpu (get_config i) h = Some (r, config, h') \<and> heap_wf h' \<and>
    (r < 0 \<and> config = None \<and> owns h h' [] \<or>
     r = 0 \<and> (\<exists>p c lk. config = Some (p, c) \<and> cf_wf c \<and> owns h h' (p # cf_ptrs c @ lk) \<and> length lk \<le> 1))"
  using conforms [of i] assms
proof (cases rule: fetch_config_owns [of "get_config i" h cpu])
  case (err r h')
  then show ?thesis using owns_wf [OF err(3) assms(1)] by auto
next
  case (ok p c h' lk)
  then show ?thesis using owns_wf [OF ok(3) assms(1)] by auto
qed

end

text \<open>The backend's function as descriptor.c sees it: every call has the same answer.\<close>

definition linux_reader :: "linux_globals \<Rightarrow> endian \<Rightarrow> linux_device_priv \<Rightarrow> u8 \<Rightarrow> reader" where
  "linux_reader lg cpu priv config_index i len =
     (case op_get_config_descriptor lg cpu priv config_index len of
        Some (r, bs) \<Rightarrow> (r, bs, False)
      | None \<Rightarrow> (LIBUSB_ERROR_OTHER, [], False))"

lemma c_memcpy_Some: "c_memcpy b n = Some bs \<longleftrightarrow> nat n \<le> length b \<and> bs = take (nat n) b"
  by (auto simp: c_memcpy_def)

lemma linux_reader_ok: "reader_ok (linux_reader lg cpu priv config_index)"
proof (unfold reader_ok_def, intro allI)
  fix i len
  show "case linux_reader lg cpu priv config_index i len of (r, bs, he) \<Rightarrow> 0 \<le> r \<longrightarrow> int (length bs) = r \<and> length bs \<le> len"
    by (auto simp: linux_reader_def op_get_config_descriptor_def bind_eq_Some_conv c_memcpy_Some Let_def
        split: option.splits prod.splits if_splits)
qed

interpretation linux_source: config_source "linux_reader lg cpu priv" for lg cpu priv
  by unfold_locales (rule linux_reader_ok)

subsection \<open>Descriptors whose lengths the kernel has verified\<close>

function lengths_ok :: "u8 list \<Rightarrow> bool" where
  "lengths_ok b = (if length b < 2 then True else if b ! 0 = 0 then False else lengths_ok (drop (unat (b ! 0)) b))"
  by pat_completeness auto
termination
  by (relation "measure length") (auto simp: unat_gt_0 intro!: diff_less)

declare lengths_ok.simps [simp del]

lemma lengths_ok_step: "lengths_ok b \<Longrightarrow> 2 \<le> length b \<Longrightarrow> 0 < unat (b ! 0) \<and> lengths_ok (drop (unat (b ! 0)) b)"
  by (subst (asm) lengths_ok.simps) (auto split: if_splits simp: unat_gt_0)

lemma lengths_ok_Nil [simp]: "lengths_ok []"
  by (simp add: lengths_ok.simps)

definition seek_result :: "u8 \<Rightarrow> u8 list \<Rightarrow> int \<Rightarrow> bool" where
  "seek_result ty b r \<longleftrightarrow> r = LIBUSB_ERROR_IO \<or> r = LIBUSB_ERROR_NOT_FOUND \<or>
     0 < r \<and> r + 2 \<le> int (length b) \<and> b ! (nat r + 1) = ty \<and> lengths_ok (drop (nat r) b)"

lemma seek_loop_total:
  assumes "lengths_ok (drop i b)"
  shows "\<exists>r. seek_loop ty b i (int (length b) - int i) = Some r \<and> seek_result ty b r"
  using assms
proof (induction "length b - i" arbitrary: i rule: less_induct)
  case less
  show ?case
  proof (cases "i + 2 \<le> length b")
    case False
    then show ?thesis by (subst seek_loop.simps) (auto simp: seek_result_def)
  next
    case True
    then have h: "parse_header (drop i b) = Some (b ! i, b ! Suc i)" by (simp add: parse_header_eq)
    from lengths_ok_step [OF less.prems] True have step: "0 < unat (b ! i)" "lengths_ok (drop (i + unat (b ! i)) b)"
      by (simp_all add: add.commute)
    have sz: "int (length b) - int i - uint (b ! i) = int (length b) - int (i + unat (b ! i))" by simp
    have eq: "seek_loop ty b i (int (length b) - int i) =
        (if i \<noteq> 0 \<and> b ! Suc i = ty then Some (int i)
         else seek_loop ty b (i + unat (b ! i)) (int (length b) - int (i + unat (b ! i))))"
      using True by (subst seek_loop.simps) (simp add: h sz del: of_nat_add)
    show ?thesis
    proof (cases "i \<noteq> 0 \<and> b ! Suc i = ty")
      case found: True
      with True less.prems show ?thesis unfolding eq by (auto simp: seek_result_def)
    next
      case False
      have "length b - (i + unat (b ! i)) < length b - i" using True step(1) by linarith
      moreover have "seek_loop ty b i (int (length b) - int i) =
          seek_loop ty b (i + unat (b ! i)) (int (length b) - int (i + unat (b ! i)))"
        by (simp only: eq False if_False)
      ultimately show ?thesis using less.hyps [OF _ step(2)] by (simp only:)
    qed
  qed
qed

text \<open>What the seeking needs: without sysfs nothing, with sysfs the verified lengths.\<close>

definition seekable :: "linux_globals \<Rightarrow> u8 list \<Rightarrow> bool" where
  "seekable lg b \<longleftrightarrow> lg_has_descriptors lg = 0 \<or> lengths_ok b"

definition config_at :: "u8 list \<Rightarrow> bool" where
  "config_at b \<longleftrightarrow> LIBUSB_DT_CONFIG_SIZE \<le> int (length b) \<and> b ! 1 = LIBUSB_DT_CONFIG"

lemma config_fields:
  assumes "9 \<le> length b"
  shows "\<exists>fs. usbi_parse_descriptor cpu b ''bbwbbbbb'' he = Some (fs, 9) \<and> st8 fs 1 0 = b ! 1"
proof -
  from assms obtain x0 x1 x2 x3 x4 x5 x6 x7 x8 xs where "b = x0 # x1 # x2 # x3 # x4 # x5 # x6 # x7 # x8 # xs"
    by (auto simp: numeral_eq_Suc Suc_le_length_iff)
  then show ?thesis by (simp add: usbi_parse_descriptor_def st8_def align2_def)
qed

lemma seek_config_total:
  assumes "seekable lg b"
  shows "\<exists>r. seek_to_next_config lg cpu b (int (length b)) = Some r \<and>
    (r < 0 \<or> 0 < r \<and> r \<le> int (length b) \<and> config_at b \<and> seekable lg (drop (nat r) b))"
proof (cases "9 \<le> length b")
  case False
  then show ?thesis by (simp add: seek_to_next_config_def)
next
  case True
  from config_fields [OF True] obtain fs where fs: "usbi_parse_descriptor cpu b ''bbwbbbbb'' False = Some (fs, 9)"
    "st8 fs 1 0 = b ! 1" by blast
  have len: "int (length b) \<noteq> 0" "\<not> int (length b) < 9" using True by linarith+
  show ?thesis
  proof (cases "b ! 1 = LIBUSB_DT_CONFIG")
    case False
    then show ?thesis using fs len by (simp add: seek_to_next_config_def cf_store_def)
  next
    case ty: True
    then have at: "config_at b" using True by (simp add: config_at_def)
    show ?thesis
    proof (cases "lg_has_descriptors lg = 0")
      case True
      then show ?thesis using fs len ty at
        by (auto simp: seek_to_next_config_def cf_store_def Let_def seekable_def)
    next
      case False
      with assms have "lengths_ok (drop 0 b)" by (simp add: seekable_def)
      from seek_loop_total [OF this, of LIBUSB_DT_CONFIG] obtain r where
        r: "seek_loop LIBUSB_DT_CONFIG b 0 (int (length b)) = Some r" "seek_result LIBUSB_DT_CONFIG b r" by auto
      have eq: "seek_to_next_config lg cpu b (int (length b)) = Some (if r = LIBUSB_ERROR_NOT_FOUND then int (length b) else r)"
        using fs len ty False r(1) by (simp add: seek_to_next_config_def seek_to_next_descriptor_def cf_store_def)
      show ?thesis unfolding eq using r(2) at len by (auto simp: seek_result_def seekable_def)
    qed
  qed
qed

subsection \<open>The loops over configurations\<close>

lemma config_value_total:
  assumes "seekable lg b"
  shows "\<exists>r d. config_value_loop lg cpu v b (int (length b)) = Some (r, d) \<and>
    (r < 0 \<and> d = None \<or>
     0 < r \<and> (\<exists>off. d = Some (drop off b) \<and> r \<le> int (length (drop off b)) \<and> config_at (drop off b) \<and> drop off b ! 5 = v))"
  using assms
proof (induction "length b" arbitrary: b rule: less_induct)
  case less
  from seek_config_total [OF less.prems, of cpu] obtain n where
    n: "seek_to_next_config lg cpu b (int (length b)) = Some n"
    "n < 0 \<or> 0 < n \<and> n \<le> int (length b) \<and> config_at b \<and> seekable lg (drop (nat n) b)" by blast
  show ?case
  proof (cases "n < 0")
    case True
    with n(1) show ?thesis by (subst config_value_loop.simps) simp
  next
    case False
    with n(2) have m: "0 < n" "n \<le> int (length b)" "config_at b" "seekable lg (drop (nat n) b)" by auto
    then have r5: "rd b 5 = Some (b ! 5)" by (simp add: config_at_def)
    show ?thesis
    proof (cases "b ! 5 = v")
      case True
      with n(1) m r5 show ?thesis
        by (subst config_value_loop.simps) (auto intro: exI [of _ 0])
    next
      case False
      have "length (drop (nat n) b) < length b" using m(1,2) by simp
      from less.hyps [OF this m(4)] obtain r d where rd: "config_value_loop lg cpu v (drop (nat n) b) (int (length (drop (nat n) b))) = Some (r, d)"
        "r < 0 \<and> d = None \<or> 0 < r \<and> (\<exists>off. d = Some (drop off (drop (nat n) b)) \<and> r \<le> int (length (drop off (drop (nat n) b))) \<and>
          config_at (drop off (drop (nat n) b)) \<and> drop off (drop (nat n) b) ! 5 = v)" by blast
      have "int (length b) - n = int (length (drop (nat n) b))" using m(1,2) by simp
      then have "config_value_loop lg cpu v b (int (length b)) = Some (r, d)"
        using n(1) m(1) r5 False rd(1) by (subst config_value_loop.simps) (simp del: length_drop)
      moreover from rd(2) have "r < 0 \<and> d = None \<or>
        0 < r \<and> (\<exists>off. d = Some (drop off b) \<and> r \<le> int (length (drop off b)) \<and> config_at (drop off b) \<and> drop off b ! 5 = v)"
        unfolding drop_drop by blast
      ultimately show ?thesis by blast
    qed
  qed
qed

lemma config_index_total:
  assumes "seekable lg b"
  shows "\<exists>r d. config_index_seek lg cpu n b (int (length b)) = Some (r, d) \<and>
    (r < 0 \<or> 0 < r \<and> (\<exists>off. d = drop off b \<and> r \<le> int (length d) \<and> config_at d))"
  using assms
proof (induction n arbitrary: b)
  case 0
  from seek_config_total [OF this, of cpu] obtain m where
    "seek_to_next_config lg cpu b (int (length b)) = Some m"
    "m < 0 \<or> 0 < m \<and> m \<le> int (length b) \<and> config_at b" by blast
  then show ?case by (subst config_index_seek.simps) (auto intro: exI [of _ 0])
next
  case (Suc n)
  from seek_config_total [OF Suc.prems, of cpu] obtain m where
    m: "seek_to_next_config lg cpu b (int (length b)) = Some m"
    "m < 0 \<or> 0 < m \<and> m \<le> int (length b) \<and> seekable lg (drop (nat m) b)" by blast
  show ?case
  proof (cases "m < 0")
    case True
    with m(1) show ?thesis by (subst config_index_seek.simps) simp
  next
    case False
    with m(2) have k: "0 < m" "m \<le> int (length b)" "seekable lg (drop (nat m) b)" by auto
    have "int (length b) - m = int (length (drop (nat m) b))" using k(1,2) by simp
    then have eq: "config_index_seek lg cpu (Suc n) b (int (length b)) =
        config_index_seek lg cpu n (drop (nat m) b) (int (length (drop (nat m) b)))"
      using m(1) k(1) by (subst config_index_seek.simps) (simp del: length_drop)
    from Suc.IH [OF k(3)] show ?thesis unfolding eq by (metis drop_drop)
  qed
qed

subsection \<open>The properties\<close>

text \<open>The cached descriptors of a device: the device descriptor, and configurations that can be searched.\<close>

definition cache_ok :: "linux_globals \<Rightarrow> linux_device_priv \<Rightarrow> bool" where
  "cache_ok lg priv \<longleftrightarrow> DEVICE_DESC_LENGTH \<le> length (dp_descriptors priv) \<and>
     seekable lg (drop DEVICE_DESC_LENGTH (dp_descriptors priv))"

text \<open>C40. Searching a configuration in the cached descriptors ends and reads nothing outside them, whatever bytes they are
  (with sysfs, if the kernel has verified the lengths): by index or by value the result is an error, or the
  bytes of a configuration descriptor inside the cache, the one with the wanted value in the second case, cut to the
  caller's buffer.\<close>

theorem linux_config_search:
  assumes "cache_ok lg priv"
  shows "(\<exists>r bs. op_get_config_descriptor lg cpu priv idx len = Some (r, bs) \<and>
      (0 \<le> r \<longrightarrow> (\<exists>off. bs = take (nat r) (drop off (dp_descriptors priv)) \<and> 18 \<le> off \<and>
        config_at (drop off (dp_descriptors priv)) \<and> length bs = nat r \<and> nat r \<le> len))) \<and>
    (\<exists>r d. op_get_config_descriptor_by_value lg cpu priv v = Some (r, d) \<and>
      (0 \<le> r \<longrightarrow> (\<exists>off. d = Some (drop off (dp_descriptors priv)) \<and> 18 \<le> off \<and> config_at (drop off (dp_descriptors priv)) \<and>
        dp_descriptors priv ! (off + 5) = v \<and> off + nat r \<le> length (dp_descriptors priv))))"
proof
  let ?b = "drop DEVICE_DESC_LENGTH (dp_descriptors priv)"
  from assms have sk: "seekable lg ?b" and ln: "int (length (dp_descriptors priv)) - int DEVICE_DESC_LENGTH = int (length ?b)"
    by (simp_all add: cache_ok_def)
  from config_index_total [OF sk, of cpu "unat idx"] obtain r d where
    c: "config_index_seek lg cpu (unat idx) ?b (int (length ?b)) = Some (r, d)"
    "r < 0 \<or> 0 < r \<and> (\<exists>off. d = drop off ?b \<and> r \<le> int (length d) \<and> config_at d)" by blast
  have by_index: "op_get_config_descriptor lg cpu priv idx len =
      (if r < 0 then Some (r, []) else do { let n = min (int len) r; bs \<leftarrow> c_memcpy d n; Some (n, bs) })"
    unfolding op_get_config_descriptor_def ln c(1) by simp
  show "\<exists>r bs. op_get_config_descriptor lg cpu priv idx len = Some (r, bs) \<and>
      (0 \<le> r \<longrightarrow> (\<exists>off. bs = take (nat r) (drop off (dp_descriptors priv)) \<and> 18 \<le> off \<and>
        config_at (drop off (dp_descriptors priv)) \<and> length bs = nat r \<and> nat r \<le> len))"
  proof (cases "r < 0")
    case True
    then show ?thesis by (simp add: by_index)
  next
    case False
    with c(2) obtain off where d: "d = drop (18 + off) (dp_descriptors priv)" "r \<le> int (length d)" "config_at d" "0 < r"
      by (auto simp: add.commute)
    from False c(1) d(2) have "op_get_config_descriptor lg cpu priv idx len = Some (min (int len) r, take (nat (min (int len) r)) d)"
      by (simp add: by_index c_memcpy_def Let_def)
    moreover have "length (take (nat (min (int len) r)) d) = nat (min (int len) r)" using d(2,4) by simp
    ultimately show ?thesis using d by (auto intro!: exI [of _ "18 + off"])
  qed
  from config_value_total [OF sk, of cpu v] obtain r d where
    c: "config_value_loop lg cpu v ?b (int (length ?b)) = Some (r, d)"
    "r < 0 \<and> d = None \<or> 0 < r \<and> (\<exists>off. d = Some (drop off ?b) \<and> r \<le> int (length (drop off ?b)) \<and> config_at (drop off ?b) \<and> drop off ?b ! 5 = v)"
    by blast
  have "op_get_config_descriptor_by_value lg cpu priv v = Some (r, d)"
    using c(1) by (simp only: op_get_config_descriptor_by_value_def ln)
  moreover have "\<exists>off. d = Some (drop off (dp_descriptors priv)) \<and> 18 \<le> off \<and> config_at (drop off (dp_descriptors priv)) \<and>
        dp_descriptors priv ! (off + 5) = v \<and> off + nat r \<le> length (dp_descriptors priv)" if "0 \<le> r"
  proof -
    from c(2) that obtain off where d: "d = Some (drop off ?b)" "r \<le> int (length (drop off ?b))" "config_at (drop off ?b)"
      "drop off ?b ! 5 = v" "0 < r" by auto
    then have "off + 18 + 5 < length (dp_descriptors priv)" by (simp add: config_at_def)
    with d show ?thesis by (intro exI [of _ "off + 18"]) (simp add: add.commute add.left_commute)
  qed
  ultimately show "\<exists>r d. op_get_config_descriptor_by_value lg cpu priv v = Some (r, d) \<and>
      (0 \<le> r \<longrightarrow> (\<exists>off. d = Some (drop off (dp_descriptors priv)) \<and> 18 \<le> off \<and> config_at (drop off (dp_descriptors priv)) \<and>
        dp_descriptors priv ! (off + 5) = v \<and> off + nat r \<le> length (dp_descriptors priv)))" by blast
qed

text \<open>Two configurations of which the first is followed by an interface, searched with sysfs.\<close>

definition example_globals :: linux_globals where
  "example_globals = \<lparr>lg_usbdev_names = 0, lg_bulk_continuation = 1, lg_zero_packet = 1, lg_can_relate_devices = 1,
     lg_has_descriptors = 1, lg_init_count = 1, lg_monitor = True\<rparr>"

abbreviation example_configs :: "u8 list" where
  "example_configs \<equiv> [9, 2, 18, 0, 1, 1, 0, 0, 0, 9, 4, 0, 0, 0, 0, 0, 0, 0, 9, 2, 9, 0, 0, 2, 0, 0, 0]"

definition example_priv :: linux_device_priv where
  "example_priv = \<lparr>dp_sysfs_dir = None,
     dp_descriptors = [18, 1, 0, 0, 0, 0, 0, 0, 0, 0, 0, 0, 0, 0, 0, 0, 0, 0] @ example_configs, dp_active_config = 1\<rparr>"

lemma example_cache_ok: "cache_ok example_globals example_priv"
  by code_simp

lemma example_seek: "seek_loop 2 example_configs 0 27 = Some 18"
  by (simp add: seek_loop.simps [of 2 example_configs 0 27] seek_loop.simps [of 2 example_configs 9 18]
      seek_loop.simps [of 2 example_configs 18 9] parse_header_eq)

lemma example_by_index: "op_get_config_descriptor example_globals LittleEndian example_priv 0 64 =
    Some (18, [9, 2, 18, 0, 1, 1, 0, 0, 0, 9, 4, 0, 0, 0, 0, 0, 0, 0])"
  by (simp add: op_get_config_descriptor_def example_priv_def example_globals_def config_index_seek.simps [of _ _ 0]
      seek_to_next_config_def seek_to_next_descriptor_def example_seek usbi_parse_descriptor_def align2_def cf_store_def st8_def
      c_memcpy_def)

theorem linux_config_search_witness:
  "\<exists>r bs off. op_get_config_descriptor example_globals LittleEndian example_priv 0 64 = Some (r, bs) \<and> r = 18 \<and>
     bs = take (nat r) (drop off (dp_descriptors example_priv)) \<and> 18 \<le> off \<and> config_at (drop off (dp_descriptors example_priv))"
  using linux_config_search [OF example_cache_ok, of LittleEndian 0 64 2] by (auto simp: example_by_index)

end
