(* ===== verification/Linux_Device_Inv.thy ===== *)
theory Linux_Device_Inv
  imports Linux_Devices Linux_Config_Props
begin

text \<open>
  The invariant of the devices in the Linux backend and what enumeration does to it: exact reference counts,
  private data for every device, and a parent relation that follows the names of sysfs.
\<close>

subsection \<open>Reading the descriptors\<close>

text \<open>What \<open>read\<close> does on a regular file: an error, or as many bytes as are asked for and left.\<close>

definition files_ok :: "linux_globals \<Rightarrow> device_files \<Rightarrow> u8 option list \<Rightarrow> bool" where
  "files_ok lg df file \<longleftrightarrow> (lg_has_descriptors lg \<noteq> 0 \<longrightarrow> None \<notin> set file) \<and>
     (\<forall>off n. df_read df off n = None \<or> df_read df off n = Some (take n (drop off file)))"

definition file_bytes :: "u8 option list \<Rightarrow> u8 list" where
  "file_bytes file = map (\<lambda>b. case b of None \<Rightarrow> 0 | Some x \<Rightarrow> x) file"

lemma those_all_Some: "None \<notin> set xs \<Longrightarrow> those xs = Some (file_bytes xs)"
proof (induction xs)
  case (Cons a xs)
  then show ?case by (cases a) (auto simp: file_bytes_def)
qed (simp add: file_bytes_def)

lemma read_bytes_eq: "lg_has_descriptors lg = 0 \<or> None \<notin> set bs \<Longrightarrow> read_bytes lg bs = Some (file_bytes bs)"
  by (cases "lg_has_descriptors lg = 0") (simp_all add: read_bytes_def those_all_Some, simp add: file_bytes_def)

lemma file_bytes_slice: "file_bytes (take n (drop off file)) = take n (drop off (file_bytes file))"
  by (simp add: file_bytes_def take_map drop_map)

lemma read_descriptors_total:
  assumes "files_ok lg df file" and "0 < sz" and "bs = take (length bs) (file_bytes file)" and "length bs \<le> sz"
  shows "\<exists>x. read_descriptors lg df sz bs = Some x \<and> (case x of Inl e \<Rightarrow> e < 0 | Inr ys \<Rightarrow> ys = file_bytes file)"
  using assms(2-)
proof (induction "length file - sz" arbitrary: sz bs rule: less_induct)
  case less
  show ?case
  proof (cases "df_realloc df (sz * 2) \<and> df_read df (length bs) (sz * 2 - length bs) \<noteq> None")
    case False
    then show ?thesis by (subst read_descriptors.simps) (auto split: option.splits)
  next
    case True
    let ?F = "file_bytes file"
    let ?new = "take (sz * 2 - length bs) (drop (length bs) file)"
    have rd: "df_read df (length bs) (sz * 2 - length bs) = Some ?new"
      using True assms(1) unfolding files_ok_def by metis
    have "lg_has_descriptors lg = 0 \<or> None \<notin> set ?new"
      using assms(1) unfolding files_ok_def by (meson in_set_dropD in_set_takeD)
    then have rb: "read_bytes lg ?new = Some (take (sz * 2 - length bs) (drop (length bs) ?F))"
      by (simp add: read_bytes_eq file_bytes_slice)
    have "bs @ take (sz * 2 - length bs) (drop (length bs) ?F) = take (length bs) ?F @ take (sz * 2 - length bs) (drop (length bs) ?F)"
      using less.prems(2) by simp
    also have "\<dots> = take (length bs + (sz * 2 - length bs)) ?F" by (rule take_add [symmetric])
    also have "\<dots> = take (sz * 2) ?F" using less.prems(3) by simp
    finally have app: "bs @ take (sz * 2 - length bs) (drop (length bs) ?F) = take (sz * 2) ?F" .
    have eq: "read_descriptors lg df sz bs =
        (if length (take (sz * 2) ?F) = sz * 2 then read_descriptors lg df (sz * 2) (take (sz * 2) ?F) else Some (Inr (take (sz * 2) ?F)))"
      using True by (subst read_descriptors.simps) (simp only: rd rb app option.case bind.bind_lunit simp_thms if_False)
    show ?thesis
    proof (cases "sz * 2 \<le> length file")
      case False
      then show ?thesis unfolding eq by (simp add: file_bytes_def)
    next
      case long: True
      then have len: "length (take (sz * 2) ?F) = sz * 2" by (simp add: file_bytes_def)
      have "length file - sz * 2 < length file - sz" using long less.prems(1) by linarith
      moreover have "0 < sz * 2" using less.prems(1) by simp
      ultimately show ?thesis
        unfolding eq using len by (simp add: less.hyps)
    qed
  qed
qed

subsection \<open>Filling a new device\<close>

text \<open>Everything but what the initialisation sets.\<close>

definition same_core :: "libusb_device \<Rightarrow> libusb_device \<Rightarrow> bool" where
  "same_core dv dv' \<longleftrightarrow> dv_lock dv' = dv_lock dv \<and> dv_refcnt dv' = dv_refcnt dv \<and> dv_parent_dev dv' = dv_parent_dev dv \<and>
     dv_session_data dv' = dv_session_data dv"

lemma same_core_simps [simp]:
  "same_core dv (dv\<lparr>dv_bus_number := b\<rparr>)" "same_core dv (dv\<lparr>dv_bus_number := b, dv_device_address := d\<rparr>)"
  "same_core dv (dv\<lparr>dv_bus_number := b, dv_device_address := d, dv_speed := sp\<rparr>)"
  "same_core dv (dv\<lparr>dv_port_number := b\<rparr>)" "same_core dv (dv\<lparr>dv_device_descriptor := dd\<rparr>)"
  "same_core dv (dv\<lparr>dv_device_descriptor := dd, dv_num_configurations := b\<rparr>)" "same_core dv dv"
  by (simp_all add: same_core_def)

lemma usbfs_get_active_config_cases:
  "\<exists>r c. usbfs_get_active_config ans priv = (r, priv\<lparr>dp_active_config := c\<rparr>) \<and> r \<le> 0"
  by (cases priv) (auto simp: usbfs_get_active_config_def split: prod.splits)

lemma cache_active_config_total:
  "\<exists>r c. cache_active_config cpu df priv = Some (r, priv\<lparr>dp_active_config := c\<rparr>) \<and> r \<le> 0"
proof (cases "get_usbfs_fd (df_usbfs_rw df) < 0 \<and> 27 \<le> length (dp_descriptors priv)")
  case True
  then have "27 \<le> length (dp_descriptors priv)" by simp
  then have "9 \<le> length (drop 18 (dp_descriptors priv))" unfolding length_drop by linarith
  from config_fields [OF this, of cpu False] True show ?thesis by (auto simp: cache_active_config_def)
next
  case False
  with usbfs_get_active_config_cases [of "df_config df" priv] show ?thesis
    by (auto simp: cache_active_config_def Let_def)
qed

lemma usbfs_open_error_neg [simp]: "usbfs_open_error e < 0"
  by (simp add: usbfs_open_error_def)

definition device_file :: "linux_env \<Rightarrow> (u8 \<Rightarrow> u8 \<Rightarrow> string option \<Rightarrow> u8 option list) \<Rightarrow> linux_globals \<Rightarrow> bool" where
  "device_file env file lg \<longleftrightarrow> (\<forall>b d dir. files_ok lg (le_files env b d dir) (file b d dir))"

text \<open>The initialisation of a device ends; when it succeeds the cache is the whole file.\<close>

lemma initialize_device_total:
  assumes "device_file env file lg" and "lg_has_descriptors lg \<noteq> 0 \<longrightarrow> dir \<noteq> None"
    and "dp_sysfs_dir priv0 = None"
  shows "\<exists>r dv' priv'. initialize_device lg env b d dir dv priv0 = Some (r, dv', priv') \<and> same_core dv dv' \<and> r \<le> 0 \<and>
    (r = 0 \<longrightarrow> dp_sysfs_dir priv' = dir \<and> dp_descriptors priv' = file_bytes (file b d dir) \<and> 18 \<le> length (dp_descriptors priv') \<and>
       dv_bus_number dv' = b \<and> dv_device_address dv' = d)"
proof -
  let ?df = "le_files env b d dir"
  let ?dv = "dv\<lparr>dv_bus_number := b, dv_device_address := d\<rparr>"
  have f: "files_ok lg ?df (file b d dir)" using assms(1) by (simp add: device_file_def)
  from read_descriptors_total [OF f, of 512 "[]"] obtain x where
    x: "read_descriptors lg ?df 512 [] = Some x" "case x of Inl e \<Rightarrow> e < 0 | Inr ys \<Rightarrow> ys = file_bytes (file b d dir)" by auto
  define rest where "rest dv1 priv1 = (case x of
             Inl e \<Rightarrow> Some (e, dv1, priv1)
           | Inr bs \<Rightarrow>
               (let priv2 = priv1\<lparr>dp_descriptors := bs\<rparr> in
                if length bs < DEVICE_DESC_LENGTH then Some (LIBUSB_ERROR_IO, dv1, priv2)
                else if lg_can_relate_devices lg \<noteq> 0 then Some (LIBUSB_SUCCESS, dv1, priv2)
                else do {
                  (r, priv3) \<leftarrow> cache_active_config (le_cpu env) ?df priv2;
                  Some (r, dv1, priv3)
                }))" for dv1 :: libusb_device and priv1
  have rest: "\<exists>r priv'. rest dv1 priv1 = Some (r, dv1, priv') \<and> r \<le> 0 \<and>
      (r = 0 \<longrightarrow> dp_sysfs_dir priv' = dp_sysfs_dir priv1 \<and> dp_descriptors priv' = file_bytes (file b d dir) \<and> 18 \<le> length (dp_descriptors priv'))"
    for dv1 :: libusb_device and priv1
  proof (cases x)
    case (Inl e)
    with x(2) show ?thesis by (simp add: rest_def)
  next
    case (Inr ys)
    from cache_active_config_total [of "le_cpu env" ?df "priv1\<lparr>dp_descriptors := ys\<rparr>"] Inr x(2) show ?thesis
      by (auto simp: rest_def Let_def)
  qed
  define dv1 where "dv1 = (case dir of None \<Rightarrow> ?dv | Some nm \<Rightarrow>
      (let speed = read_sysfs_attr (le_attr env nm ''speed'') in
       if 0 \<le> speed then ?dv\<lparr>dv_speed := device_speed (dv_speed ?dv) speed\<rparr> else ?dv))"
  have sc: "same_core dv dv1" "dv_bus_number dv1 = b" "dv_device_address dv1 = d"
    by (auto simp: dv1_def Let_def split: option.split)
  let ?priv1 = "priv0\<lparr>dp_sysfs_dir := dir\<rparr>"
  have p1: "priv0 = ?priv1" if "dir = None" using assms(3) that by simp
  obtain fd where fd: "(if lg_has_descriptors lg \<noteq> 0
               then do { _ \<leftarrow> dir; Some (open_sysfs_attr (df_sysfs_fd ?df)) }
               else Some (get_usbfs_fd (df_usbfs_ro ?df))) = Some fd"
    using assms(2) by (cases dir; cases "lg_has_descriptors lg = 0") auto
  have eq: "initialize_device lg env b d dir dv priv0 =
      (if dir \<noteq> None \<and> \<not> df_strdup ?df then Some (LIBUSB_ERROR_NO_MEM, ?dv, priv0)
       else if fd < 0 then Some (fd, dv1, ?priv1) else rest dv1 ?priv1)"
  proof (cases dir)
    case None
    from fd p1 x(1) show ?thesis
      unfolding None initialize_device_def dv1_def rest_def Let_def by (cases x) (auto split: if_splits)
  next
    case (Some nm)
    from fd x(1) show ?thesis
      unfolding Some initialize_device_def dv1_def rest_def Let_def by (cases x) (auto split: if_splits)
  qed
  show ?thesis
  proof (cases "dir \<noteq> None \<and> \<not> df_strdup ?df")
    case True
    then show ?thesis unfolding eq by simp
  next
    case False
    with rest [of dv1 ?priv1] sc show ?thesis unfolding eq by (cases "fd < 0") auto
  qed
qed

end
