(* ===== verification/Linux_Device_Steps.thy ===== *)
theory Linux_Device_Steps
  imports Linux_Device_Inv
begin

text \<open>
  Steps of the device store with a hotplug backend: a new device, a device that gets a parent, a device that goes on
  the context's list. Each moves one reference and keeps the counts exact.
\<close>

lemma refs_ok_event_data:
  assumes "refs_ok be Z ext c" and "heap_wf (ed_heap d)" and "dom (co_devs c) \<subseteq> hp_live (ed_heap d)"
  shows "refs_ok be Z ext (c\<lparr>co_ev := d\<rparr>)"
proof -
  have g: "get_dev q (c\<lparr>co_ev := d\<rparr>) = get_dev q c" for q by (simp add: get_dev_def)
  have "parent_of (c\<lparr>co_ev := d\<rparr>) = parent_of c" by (simp add: parent_of_def g fun_eq_iff)
  then have "ref_count be Z ext (c\<lparr>co_ev := d\<rparr>) p = ref_count be Z ext c p" for p
    by (simp add: ref_count_def listed_def children_def)
  with assms show ?thesis by (simp add: refs_ok_def store_ok_def g parent_of_def)
qed

text \<open>A new device, with one reference.\<close>

lemma refs_ok_new:
  assumes ok: "refs_ok be {} ext c" and p: "p \<notin> hp_live (co_heap c)" and hot: "has_hotplug be"
    and h: "heap_wf h" "hp_live h = insert p (hp_live (co_heap c))"
  shows "refs_ok be {} (add_mset p ext) (put_dev p (new_device sid) (set_heap h c))" (is "refs_ok be {} _ ?c")
proof -
  have st: "store_ok be c" using ok by (rule refs_ok_store)
  then have dom: "dom (co_devs c) \<subseteq> hp_live (co_heap c)" by (simp add: store_ok_def)
  with p have pd: "p \<notin> dom (co_devs c)" by blast
  have pe: "p \<notin># ext" using refs_ok_ext [OF ok] pd by blast
  have pl: "p \<notin> set (co_usb_devs c)" using st hot pd by (auto simp: store_ok_def)
  have g: "get_dev q ?c = (if q = p then Some (new_device sid) else get_dev q c)" for q by simp
  have par: "parent_of ?c q = (if q = p then None else parent_of c q)" for q
    by (simp add: parent_of_def new_device_def)
  have ch: "children {} ?c q = children {} c q" for q
    using pd by (auto simp: children_def par)
  have "children {} c p = {}"
  proof -
    have "r \<in> dom (co_devs c)" if "q \<in> dom (co_devs c)" "parent_of c q = Some r" for q r
      using ok that unfolding refs_ok_def by blast
    with pd show ?thesis by (auto simp: children_def)
  qed
  then have p1: "ref_count be {} (add_mset p ext) ?c p = 1"
    using pe pl ch [of p] by (simp add: ref_count_def listed_def not_in_iff)
  have pq: "ref_count be {} (add_mset p ext) ?c q = ref_count be {} ext c q" if "q \<noteq> p" for q
    using that ch [of q] by (simp add: ref_count_def listed_def)
  have "dv_refcnt dv = int (ref_count be {} (add_mset p ext) ?c q) \<and> (q \<in> {} \<longleftrightarrow> ref_count be {} (add_mset p ext) ?c q = 0)"
    if "get_dev q ?c = Some dv" for q dv
  proof (cases "q = p")
    case True
    with that have "dv = new_device sid" by simp
    then show ?thesis unfolding True p1 by (simp add: new_device_def)
  next
    case False
    with that refs_okD(2,3) [OF ok, of q dv] pq [OF False] show ?thesis by simp
  qed
  moreover have "store_ok be ?c"
    using st hot h dom by (auto simp: store_ok_def new_device_def)
  moreover have "r \<in> dom (co_devs ?c)" if "q \<in> dom (co_devs ?c)" "parent_of ?c q = Some r" for q r
    using that ok unfolding refs_ok_def by (auto simp: par split: if_splits)
  moreover have "set_mset (add_mset p ext) \<subseteq> dom (co_devs ?c)" using refs_ok_ext [OF ok] by auto
  ultimately show ?thesis unfolding refs_ok_def by blast
qed

text \<open>A device without a parent gets one: a reference held outside is now the child's.\<close>

lemma refs_ok_adopt:
  assumes ok: "refs_ok be {} (add_mset p ext) c" and dv: "get_dev q c = Some dv" "dv_parent_dev dv = None"
  shows "refs_ok be {} ext (put_dev q (dv\<lparr>dv_parent_dev := Some p\<rparr>) c)" (is "refs_ok be {} ext ?c")
proof -
  let ?dv = "dv\<lparr>dv_parent_dev := Some p\<rparr>"
  have qd: "q \<in> dom (co_devs c)" using dv(1) by (auto simp: get_dev_def)
  then have dom: "dom (co_devs ?c) = dom (co_devs c)" by auto
  have fin: "finite (dom (co_devs c))" using refs_ok_store [OF ok] by (simp add: store_ok_def)
  have pd: "p \<in> dom (co_devs c)" using refs_ok_ext [OF ok] by auto
  have par: "parent_of ?c r = (if r = q then Some p else parent_of c r)" for r by (simp add: parent_of_def)
  have q0: "parent_of c q = None" using dv by (simp add: parent_of_def)
  have ch: "children {} ?c r = (if r = p then insert q (children {} c p) else children {} c r)" for r
    using qd q0 by (auto simp: children_def par dom)
  have "q \<notin> children {} c p" using q0 by (simp add: children_def)
  then have count: "ref_count be {} ext ?c r = ref_count be {} (add_mset p ext) c r" for r
    using finite_children [OF fin, of "{}" p] by (cases "r = p") (simp_all add: ref_count_def listed_def ch)
  have "dv_refcnt d = int (ref_count be {} ext ?c r) \<and> (r \<in> {} \<longleftrightarrow> ref_count be {} ext ?c r = 0)"
    if "get_dev r ?c = Some d" for r d
    using that refs_okD(2,3) [OF ok dv(1)] refs_okD(2,3) [OF ok, of r d] unfolding count by (cases "r = q") auto
  moreover have "store_ok be ?c" by (rule store_ok_put [OF refs_ok_store [OF ok] dv(1)]) (use refs_okD(1) [OF ok dv(1)] in simp)
  moreover have "s \<in> dom (co_devs ?c)" if "r \<in> dom (co_devs ?c)" "parent_of ?c r = Some s" for r s
    using that ok pd unfolding refs_ok_def dom par by (auto split: if_splits)
  moreover have "set_mset ext \<subseteq> dom (co_devs ?c)" using refs_ok_ext [OF ok] by auto
  ultimately show ?thesis unfolding refs_ok_def by blast
qed

text \<open>A device goes on the list, which takes over the reference of its creator.\<close>

lemma refs_ok_list_add:
  assumes ok: "refs_ok be {} (add_mset p ext) c" and hot: "has_hotplug be" and p: "p \<notin> set (co_usb_devs c)"
  shows "refs_ok be {} ext (c\<lparr>co_usb_devs := p # co_usb_devs c\<rparr>)" (is "refs_ok be {} ext ?c")
proof -
  have g: "get_dev q ?c = get_dev q c" for q by (simp add: get_dev_def)
  have par: "parent_of ?c = parent_of c" by (simp add: parent_of_def g fun_eq_iff)
  have count: "ref_count be {} ext ?c q = ref_count be {} (add_mset p ext) c q" for q
    using hot p by (auto simp: ref_count_def listed_def children_def par)
  have "p \<in> dom (co_devs c)" using refs_ok_ext [OF ok] by auto
  then have "store_ok be ?c" using refs_ok_store [OF ok] hot p by (simp add: store_ok_def g)
  with ok show ?thesis unfolding refs_ok_def count par g by auto
qed

lemma signal_unless_fields [simp]:
  "ed_lock (signal_unless b d) = ed_lock d" "ed_heap (signal_unless b d) = ed_heap d"
  by (simp_all add: signal_unless_def usbi_signal_event_def)

lemma hotplug_notification_ok:
  assumes "\<not> ed_lock d" and "heap_wf (ed_heap d)"
  shows "\<exists>d'. usbi_hotplug_notification dev event d = Some d' \<and> \<not> ed_lock d' \<and> heap_wf (ed_heap d') \<and>
    hp_live (ed_heap d) \<subseteq> hp_live (ed_heap d')"
proof (cases "c_malloc (ed_heap d)")
  case (Pair q h)
  show ?thesis
  proof (cases q)
    case None
    with Pair ledger.alloc_None [OF assms(2), of h] assms(1) show ?thesis
      by (simp add: usbi_hotplug_notification_def)
  next
    case (Some p)
    with Pair ledger.alloc_Some [OF assms(2), of p h] assms(1) show ?thesis
      by (auto simp: usbi_hotplug_notification_def lock_event_data_def unlock_event_data_def Let_def)
  qed
qed

text \<open>\<open>usbi_connect_device\<close> in a backend with hotplug support.\<close>

lemma connect_ok:
  assumes hot: "has_hotplug be" and ok: "refs_ok be {} (add_mset p ext) c" and lk: "\<not> co_usb_devs_lock c" "\<not> ed_lock (co_ev c)"
    and p: "p \<notin> set (co_usb_devs c)" and dv: "get_dev p c = Some dv"
  obtains c' where "usbi_connect_device be p c = Some c'" and "refs_ok be {} ext c'" and "co_usb_devs c' = p # co_usb_devs c"
    and "\<not> co_usb_devs_lock c'" and "\<not> ed_lock (co_ev c')" and "co_devs c' = (co_devs c)(p \<mapsto> dv\<lparr>dv_attached := True\<rparr>)"
    and "hp_live (co_heap c) \<subseteq> hp_live (co_heap c')"
proof -
  let ?c1 = "put_dev p (dv\<lparr>dv_attached := True\<rparr>) c"
  let ?c2 = "?c1\<lparr>co_usb_devs := p # co_usb_devs c\<rparr>"
  have ok1: "refs_ok be {} (add_mset p ext) ?c1"
    by (rule refs_ok_put [OF ok dv]) (use refs_okD [OF ok dv] in simp_all)
  have ok2: "refs_ok be {} ext ?c2"
    using refs_ok_list_add [OF ok1 hot] p by simp
  have st: "set_lock False ?c2 = ?c2"
    using lk(1) by (simp add: put_dev_def)
  have co: "usbi_connect_device be p c = (if ed_hotplug_ready (co_ev ?c2)
      then core_notification (Some p) LIBUSB_HOTPLUG_EVENT_DEVICE_ARRIVED ?c2 else Some ?c2)"
    using lk(1) hot dv by (simp add: usbi_connect_device_def lock_usb_devs_def unlock_usb_devs_def st)
  show ?thesis
  proof (cases "ed_hotplug_ready (co_ev ?c2)")
    case False
    show ?thesis
      by (rule that [of ?c2]) (use False co ok2 lk in \<open>simp_all add: put_dev_def\<close>)
  next
    case True
    have st2: "heap_wf (co_heap ?c2)" "dom (co_devs ?c2) \<subseteq> hp_live (co_heap ?c2)"
      using refs_ok_store [OF ok2] by (simp_all add: store_ok_def)
    obtain d' where d': "usbi_hotplug_notification (Some p) LIBUSB_HOTPLUG_EVENT_DEVICE_ARRIVED (co_ev ?c2) = Some d'"
      "\<not> ed_lock d'" "heap_wf (ed_heap d')" "hp_live (co_heap ?c2) \<subseteq> hp_live (ed_heap d')"
      using hotplug_notification_ok [of "co_ev ?c2" "Some p" LIBUSB_HOTPLUG_EVENT_DEVICE_ARRIVED] lk(2) st2(1) by auto
    have "refs_ok be {} ext (?c2\<lparr>co_ev := d'\<rparr>)"
      by (rule refs_ok_event_data [OF ok2 d'(3)]) (use st2(2) d'(4) in blast)
    moreover have "usbi_connect_device be p c = Some (?c2\<lparr>co_ev := d'\<rparr>)"
      unfolding co using True d'(1) by (simp add: core_notification_def)
    ultimately show ?thesis
      using that [of "?c2\<lparr>co_ev := d'\<rparr>"] d' lk by (simp add: put_dev_def)
  qed
qed

text \<open>The last reference to a device that is on no list and has no children: it alone is destroyed, when its parent is
  held by the list.\<close>

lemma unref_fresh:
  assumes hot: "has_hotplug be" and ok: "refs_ok be {} (add_mset p ext) c" and zero: "ref_count be {} ext c p = 0"
    and par: "\<And>q. parent_of c p = Some q \<Longrightarrow> q \<in> set (co_usb_devs c)"
  obtains c' where "libusb_unref_device be (Some p) c = Some c'" and "refs_ok be {} ext c'"
    and "dom (co_devs c') = dom (co_devs c) - {p}" and "unref_frame be {} c c'"
    and "\<And>q. q \<noteq> p \<Longrightarrow> map_option uncounted (get_dev q c') = map_option uncounted (get_dev q c)"
proof -
  obtain dv where dv: "get_dev p c = Some dv" using ext_live [OF ok, of p] by auto
  note d = refs_okD [OF ok dv]
  have one: "dv_refcnt dv = 1" using d(2) zero by simp
  let ?c1 = "put_dev p (dv\<lparr>dv_refcnt := 0\<rparr>) c"
  have ok1: "refs_ok be {p} (opt_mset (dv_parent_dev dv) + ext) ?c1"
    using refs_ok_last [OF ok dv _ one] by (simp add: add.commute)
  have dec: "with_dev p (\<lambda>dv. dv\<lparr>dv_refcnt := dv_refcnt dv - 1\<rparr>) c = Some ?c1"
    using with_dev_eq [OF dv d(1), of "\<lambda>dv. dv\<lparr>dv_refcnt := dv_refcnt dv - 1\<rparr>"] one by simp
  obtain c2 where c2: "libusb_unref_device be (dv_parent_dev dv) ?c1 = Some c2" "refs_ok be {p} ext c2" "same_devs ?c1 c2"
    "co_heap c2 = co_heap c"
  proof (cases "dv_parent_dev dv")
    case None
    with ok1 show ?thesis using that [of ?c1] by (simp add: libusb_unref_device.simps [of be None])
  next
    case (Some q)
    with par dv have "q \<in> set (co_usb_devs ?c1)" by (simp add: parent_of_def)
    with hot have "0 < ref_count be {p} ext ?c1 q" by (simp add: ref_count_def listed_def)
    moreover from ok1 Some have "refs_ok be {p} (add_mset q ext) ?c1" by simp
    ultimately obtain c2 where "libusb_unref_device be (Some q) ?c1 = Some c2" "refs_ok be {p} ext c2" "same_devs ?c1 c2" "co_heap c2 = co_heap ?c1"
      using unref_keeps by blast
    with Some show ?thesis using that by simp
  qed
  from c2(2) have ins: "refs_ok be (insert p {}) ext c2" by simp
  have wf: "heap_wf (co_heap c2)" using refs_ok_store [OF c2(2)] by (simp add: store_ok_def)
  have "p \<in> hp_live (co_heap c2)" using d(4) c2(4) by simp
  from ledger.release_live [OF wf this] obtain h where
    h: "c_release p (co_heap c2) = Some h" "hp_live h = hp_live (co_heap c2) - {p}" "heap_wf h" by blast
  let ?c3 = "drop_dev p h (co_usb_devs c2) c2"
  have fin: "libusb_unref_device be (Some p) c = Some ?c3"
    unfolding unref_Some dec using dv hot c2(1) h(1) by (simp add: drop_dev_def)
  have ok3: "refs_ok be {} ext ?c3" by (rule refs_ok_drop [OF ins _ h(3,2)]) (use hot in simp_all)
  have dom: "dom (co_devs ?c3) = dom (co_devs c) - {p}"
    using same_devs_dom [OF c2(3)] dv by auto
  have "refs_ok be {} (opt_mset (Some p) + ext) c" using ok by simp
  from unref_ok [OF this] fin have frame: "unref_frame be {} c ?c3" by auto
  have same: "map_option uncounted (get_dev q ?c3) = map_option uncounted (get_dev q c)" if "q \<noteq> p" for q
    using c2(3) that unfolding same_devs_def by simp
  show ?thesis by (rule that [OF fin ok3 dom frame same])
qed

end
