(* ===== verification/Linux_Device_Enum.thy ===== *)
theory Linux_Device_Enum
  imports Linux_Device_Steps
begin

text \<open>
  Enumeration in the Linux backend. \<open>lx_base\<close> is the invariant of a context: exact counts, private data for
  every device, and the topology of sysfs: a device's parent is the one its name says. \<open>extends D s s'\<close> is what
  enumeration may do: put new devices in front of the list; \<open>D\<close> holds at most the device under construction.
\<close>

subsection \<open>The invariant\<close>

definition name_of :: "linux_ctx \<Rightarrow> ptr \<Rightarrow> string option" where
  "name_of s p = (case lx_priv s p of Some priv \<Rightarrow> dp_sysfs_dir priv | None \<Rightarrow> None)"

definition parent_path :: "string \<Rightarrow> (u8 \<times> string) option" where
  "parent_path nm = map_option (\<lambda>(port, pn). (port, if CHR ''-'' \<in> set pn then pn else ''usb'' @ pn)) (split_port nm)"

definition topology :: "linux_ctx \<Rightarrow> bool" where
  "topology s \<longleftrightarrow> (\<forall>q p dv. get_dev q (lx_core s) = Some dv \<longrightarrow> dv_parent_dev dv = Some p \<longrightarrow>
     (\<exists>nm np. name_of s q = Some nm \<and> name_of s p = Some np \<and> parent_path nm = Some (dv_port_number dv, np)))"

definition lx_base :: "core_backend \<Rightarrow> ptr multiset \<Rightarrow> linux_ctx \<Rightarrow> bool" where
  "lx_base be ext s \<longleftrightarrow> has_hotplug be \<and> refs_ok be {} ext (lx_core s) \<and> \<not> co_usb_devs_lock (lx_core s) \<and>
     \<not> ed_lock (co_ev (lx_core s)) \<and> dom (lx_priv s) = dom (co_devs (lx_core s)) \<and> topology s"

definition named :: "linux_ctx \<Rightarrow> bool" where
  "named s \<longleftrightarrow> (\<forall>p \<in> set (co_usb_devs (lx_core s)). name_of s p \<noteq> None)"

text \<open>\<open>q\<close> is the same device in both, but for its count.\<close>

definition same_at :: "linux_ctx \<Rightarrow> linux_ctx \<Rightarrow> ptr \<Rightarrow> bool" where
  "same_at s s' q \<longleftrightarrow> map_option uncounted (get_dev q (lx_core s')) = map_option uncounted (get_dev q (lx_core s)) \<and>
     lx_priv s' q = lx_priv s q"

definition extends :: "ptr set \<Rightarrow> linux_ctx \<Rightarrow> linux_ctx \<Rightarrow> bool" where
  "extends D s s' \<longleftrightarrow> (\<exists>new. co_usb_devs (lx_core s') = new @ co_usb_devs (lx_core s) \<and>
     (D \<union> set new) \<inter> hp_live (lx_heap s) = {} \<and> D \<inter> set new = {} \<and>
     dom (co_devs (lx_core s')) = D \<union> dom (co_devs (lx_core s)) \<union> set new \<and>
     hp_live (lx_heap s) \<subseteq> hp_live (lx_heap s') \<and>
     (\<forall>q \<in> dom (co_devs (lx_core s)). same_at s s' q) \<and>
     (\<forall>q \<in> D \<union> set new. \<forall>p. parent_of (lx_core s') q = Some p \<longrightarrow> p \<in> set (co_usb_devs (lx_core s'))))"

lemma lx_baseD:
  assumes "lx_base be ext s"
  shows "has_hotplug be" and "refs_ok be {} ext (lx_core s)" and "\<not> co_usb_devs_lock (lx_core s)"
    and "\<not> ed_lock (co_ev (lx_core s))" and "dom (lx_priv s) = dom (co_devs (lx_core s))" and "topology s"
    and "heap_wf (lx_heap s)" and "dom (co_devs (lx_core s)) \<subseteq> hp_live (lx_heap s)"
    and "set (co_usb_devs (lx_core s)) \<subseteq> dom (co_devs (lx_core s))"
proof -
  show b: "has_hotplug be" "refs_ok be {} ext (lx_core s)" "\<not> co_usb_devs_lock (lx_core s)"
    "\<not> ed_lock (co_ev (lx_core s))" "dom (lx_priv s) = dom (co_devs (lx_core s))" "topology s"
    using assms by (simp_all add: lx_base_def)
  from refs_ok_store [OF b(2)] b(1) show "heap_wf (lx_heap s)" "dom (co_devs (lx_core s)) \<subseteq> hp_live (lx_heap s)"
    "set (co_usb_devs (lx_core s)) \<subseteq> dom (co_devs (lx_core s))" by (simp_all add: store_ok_def)
qed

lemma same_at_refl [simp]: "same_at s s q"
  by (simp add: same_at_def)

lemma same_at_trans: "same_at s s1 q \<Longrightarrow> same_at s1 s2 q \<Longrightarrow> same_at s s2 q"
  by (simp add: same_at_def)

lemma same_at_parent:
  assumes "same_at s s' q"
  shows "parent_of (lx_core s') q = parent_of (lx_core s) q" and "name_of s' q = name_of s q"
proof -
  have par: "parent_of c q = (case map_option uncounted (get_dev q c) of Some dv \<Rightarrow> dv_parent_dev dv | None \<Rightarrow> None)" for c
    by (simp add: parent_of_def uncounted_def split: option.split)
  show "parent_of (lx_core s') q = parent_of (lx_core s) q" "name_of s' q = name_of s q"
    using assms unfolding par by (simp_all add: same_at_def name_of_def)
qed

lemma extends_refl [simp]: "extends {} s s"
  by (simp add: extends_def)

lemma extends_trans:
  assumes b: "lx_base be X s1" and e1: "extends D s s1" and e2: "extends {} s1 s2"
  shows "extends D s s2"
proof -
  from e1 obtain n1 where n1: "co_usb_devs (lx_core s1) = n1 @ co_usb_devs (lx_core s)"
    "(D \<union> set n1) \<inter> hp_live (lx_heap s) = {}" "D \<inter> set n1 = {}"
    "dom (co_devs (lx_core s1)) = D \<union> dom (co_devs (lx_core s)) \<union> set n1" "hp_live (lx_heap s) \<subseteq> hp_live (lx_heap s1)"
    "\<forall>q \<in> dom (co_devs (lx_core s)). same_at s s1 q"
    "\<forall>q \<in> D \<union> set n1. \<forall>p. parent_of (lx_core s1) q = Some p \<longrightarrow> p \<in> set (co_usb_devs (lx_core s1))"
    unfolding extends_def by blast
  from e2 obtain n2 where n2: "co_usb_devs (lx_core s2) = n2 @ co_usb_devs (lx_core s1)"
    "set n2 \<inter> hp_live (lx_heap s1) = {}"
    "dom (co_devs (lx_core s2)) = dom (co_devs (lx_core s1)) \<union> set n2" "hp_live (lx_heap s1) \<subseteq> hp_live (lx_heap s2)"
    "\<forall>q \<in> dom (co_devs (lx_core s1)). same_at s1 s2 q"
    "\<forall>q \<in> set n2. \<forall>p. parent_of (lx_core s2) q = Some p \<longrightarrow> p \<in> set (co_usb_devs (lx_core s2))"
    unfolding extends_def by auto
  have "D \<subseteq> hp_live (lx_heap s1)" using lx_baseD(8) [OF b] n1(4) by blast
  then have disj: "(D \<union> set (n2 @ n1)) \<inter> hp_live (lx_heap s) = {}" "D \<inter> set (n2 @ n1) = {}"
    using n1(2,3,5) n2(2) by auto
  have same: "\<forall>q \<in> dom (co_devs (lx_core s)). same_at s s2 q"
    using n1(4,6) n2(5) same_at_trans by blast
  have par: "p \<in> set (co_usb_devs (lx_core s2))" if q: "q \<in> D \<union> set (n2 @ n1)" "parent_of (lx_core s2) q = Some p" for q p
  proof (cases "q \<in> set n2")
    case True
    with n2(6) q(2) show ?thesis by blast
  next
    case False
    then have "q \<in> D \<union> set n1" using q(1) by auto
    moreover from this have "same_at s1 s2 q" using n1(4) n2(5) by blast
    ultimately show ?thesis using n1(7) n2(1) q(2) by (auto simp: same_at_parent)
  qed
  show ?thesis unfolding extends_def
    by (rule exI [of _ "n2 @ n1"]) (use n1 n2 disj same par in auto)
qed

text \<open>A change of the device under construction, and of blocks that were not there at the start.\<close>

lemma extends_tweak:
  assumes e: "extends {dev} s s1"
    and u: "co_usb_devs (lx_core s2) = co_usb_devs (lx_core s1)" and dom: "dom (co_devs (lx_core s2)) = dom (co_devs (lx_core s1))"
    and live: "hp_live (lx_heap s) \<subseteq> hp_live (lx_heap s2)"
    and others: "\<And>q. q \<noteq> dev \<Longrightarrow> same_at s1 s2 q"
    and par: "\<And>p. parent_of (lx_core s2) dev = Some p \<Longrightarrow> p \<in> set (co_usb_devs (lx_core s1))"
    and b: "dom (co_devs (lx_core s)) \<subseteq> hp_live (lx_heap s)"
  shows "extends {dev} s s2"
proof -
  from e obtain n1 where n1: "co_usb_devs (lx_core s1) = n1 @ co_usb_devs (lx_core s)"
    "({dev} \<union> set n1) \<inter> hp_live (lx_heap s) = {}" "{dev} \<inter> set n1 = {}"
    "dom (co_devs (lx_core s1)) = {dev} \<union> dom (co_devs (lx_core s)) \<union> set n1" "hp_live (lx_heap s) \<subseteq> hp_live (lx_heap s1)"
    "\<forall>q \<in> dom (co_devs (lx_core s)). same_at s s1 q"
    "\<forall>q \<in> {dev} \<union> set n1. \<forall>p. parent_of (lx_core s1) q = Some p \<longrightarrow> p \<in> set (co_usb_devs (lx_core s1))"
    unfolding extends_def by blast
  have dd: "dev \<notin> dom (co_devs (lx_core s))" using n1(2) b by blast
  have same: "\<forall>q \<in> dom (co_devs (lx_core s)). same_at s s2 q"
    using n1(6) others dd same_at_trans by metis
  have "p \<in> set (co_usb_devs (lx_core s2))" if "q \<in> {dev} \<union> set n1" "parent_of (lx_core s2) q = Some p" for q p
  proof (cases "q = dev")
    case True
    with par that(2) u show ?thesis by simp
  next
    case False
    with that n1(7) same_at_parent(1) [OF others [OF False]] u show ?thesis by auto
  qed
  then show ?thesis unfolding extends_def u dom using n1(1-4) live same by blast
qed

text \<open>Nothing refers to the device under construction but its creator.\<close>

lemma extends_fresh:
  assumes b: "lx_base be ext s" and e: "extends {dev} s s1" and b1: "lx_base be X s1"
  shows "ref_count be {} ext (lx_core s1) dev = 0" and "dev \<notin> set (co_usb_devs (lx_core s1))"
    and "\<And>q. parent_of (lx_core s1) dev = Some q \<Longrightarrow> q \<in> set (co_usb_devs (lx_core s1))"
proof -
  from e obtain n1 where n1: "co_usb_devs (lx_core s1) = n1 @ co_usb_devs (lx_core s)"
    "({dev} \<union> set n1) \<inter> hp_live (lx_heap s) = {}" "{dev} \<inter> set n1 = {}"
    "dom (co_devs (lx_core s1)) = {dev} \<union> dom (co_devs (lx_core s)) \<union> set n1"
    "\<forall>q \<in> dom (co_devs (lx_core s)). same_at s s1 q"
    "\<forall>q \<in> {dev} \<union> set n1. \<forall>p. parent_of (lx_core s1) q = Some p \<longrightarrow> p \<in> set (co_usb_devs (lx_core s1))"
    unfolding extends_def by blast
  have dd: "dev \<notin> dom (co_devs (lx_core s))" using n1(2) lx_baseD(8) [OF b] by blast
  show nl: "dev \<notin> set (co_usb_devs (lx_core s1))" using n1(1,3) dd lx_baseD(9) [OF b] by auto
  show "q \<in> set (co_usb_devs (lx_core s1))" if "parent_of (lx_core s1) dev = Some q" for q using n1(6) that by blast
  have "dev \<notin># ext" using refs_ok_ext [OF lx_baseD(2) [OF b]] dd by blast
  moreover have "parent_of (lx_core s1) q \<noteq> Some dev" if "q \<in> dom (co_devs (lx_core s1))" for q
  proof (cases "q \<in> dom (co_devs (lx_core s))")
    case True
    with n1(5) have "parent_of (lx_core s1) q = parent_of (lx_core s) q" using same_at_parent(1) by blast
    with True dd lx_baseD(2) [OF b] show ?thesis unfolding refs_ok_def by auto
  next
    case False
    with that n1(4) have "q \<in> {dev} \<union> set n1" by blast
    with n1(6) nl show ?thesis by blast
  qed
  then have "children {} (lx_core s1) dev = {}" by (auto simp: children_def)
  moreover have "finite (dom (co_devs (lx_core s1)))"
    using refs_ok_store [OF lx_baseD(2) [OF b1]] by (simp add: store_ok_def)
  ultimately show "ref_count be {} ext (lx_core s1) dev = 0" using nl by (simp add: ref_count_zero)
qed

text \<open>The end of the construction: the device goes on the list, or it is destroyed.\<close>

lemma extends_close:
  assumes e: "extends {dev} s s1"
    and u: "co_usb_devs (lx_core s2) = dev # co_usb_devs (lx_core s1)" and dom: "dom (co_devs (lx_core s2)) = dom (co_devs (lx_core s1))"
    and live: "hp_live (lx_heap s1) \<subseteq> hp_live (lx_heap s2)"
    and others: "\<And>q. q \<noteq> dev \<Longrightarrow> same_at s1 s2 q" and par: "parent_of (lx_core s2) dev = parent_of (lx_core s1) dev"
    and b: "dom (co_devs (lx_core s)) \<subseteq> hp_live (lx_heap s)"
  shows "extends {} s s2"
proof -
  from e obtain n1 where n1: "co_usb_devs (lx_core s1) = n1 @ co_usb_devs (lx_core s)"
    "({dev} \<union> set n1) \<inter> hp_live (lx_heap s) = {}"
    "dom (co_devs (lx_core s1)) = {dev} \<union> dom (co_devs (lx_core s)) \<union> set n1" "hp_live (lx_heap s) \<subseteq> hp_live (lx_heap s1)"
    "\<forall>q \<in> dom (co_devs (lx_core s)). same_at s s1 q"
    "\<forall>q \<in> {dev} \<union> set n1. \<forall>p. parent_of (lx_core s1) q = Some p \<longrightarrow> p \<in> set (co_usb_devs (lx_core s1))"
    unfolding extends_def by blast
  have dd: "dev \<notin> dom (co_devs (lx_core s))" using n1(2) b by blast
  have same: "\<forall>q \<in> dom (co_devs (lx_core s)). same_at s s2 q"
    using n1(5) others dd same_at_trans by metis
  have "parent_of (lx_core s2) q = parent_of (lx_core s1) q" for q
    using par same_at_parent(1) [OF others, of q] by (cases "q = dev") simp_all
  then have pr: "\<forall>q \<in> {dev} \<union> set n1. \<forall>p. parent_of (lx_core s2) q = Some p \<longrightarrow> p \<in> set (co_usb_devs (lx_core s2))"
    using n1(6) u by auto
  show ?thesis unfolding extends_def
    by (rule exI [of _ "dev # n1"]) (use n1(1-4) u dom live same pr in auto)
qed

lemma extends_drop:
  assumes e: "extends {dev} s s1"
    and u: "co_usb_devs (lx_core s2) = co_usb_devs (lx_core s1)" and dom: "dom (co_devs (lx_core s2)) = dom (co_devs (lx_core s1)) - {dev}"
    and live: "hp_live (lx_heap s2) = hp_live (lx_heap s1) - {dev}"
    and others: "\<And>q. q \<noteq> dev \<Longrightarrow> same_at s1 s2 q"
    and b: "dom (co_devs (lx_core s)) \<subseteq> hp_live (lx_heap s)"
  shows "extends {} s s2"
proof -
  from e obtain n1 where n1: "co_usb_devs (lx_core s1) = n1 @ co_usb_devs (lx_core s)"
    "({dev} \<union> set n1) \<inter> hp_live (lx_heap s) = {}" "{dev} \<inter> set n1 = {}"
    "dom (co_devs (lx_core s1)) = {dev} \<union> dom (co_devs (lx_core s)) \<union> set n1" "hp_live (lx_heap s) \<subseteq> hp_live (lx_heap s1)"
    "\<forall>q \<in> dom (co_devs (lx_core s)). same_at s s1 q"
    "\<forall>q \<in> {dev} \<union> set n1. \<forall>p. parent_of (lx_core s1) q = Some p \<longrightarrow> p \<in> set (co_usb_devs (lx_core s1))"
    unfolding extends_def by blast
  have dd: "dev \<notin> dom (co_devs (lx_core s))" using n1(2) b by blast
  have same: "\<forall>q \<in> dom (co_devs (lx_core s)). same_at s s2 q"
    using n1(6) others dd same_at_trans by metis
  have pr: "\<forall>q \<in> set n1. \<forall>p. parent_of (lx_core s2) q = Some p \<longrightarrow> p \<in> set (co_usb_devs (lx_core s2))"
  proof (intro ballI allI impI)
    fix q p assume q: "q \<in> set n1" "parent_of (lx_core s2) q = Some p"
    with n1(3) have "q \<noteq> dev" by blast
    from q same_at_parent(1) [OF others [OF this]] n1(7) u show "p \<in> set (co_usb_devs (lx_core s2))" by auto
  qed
  show ?thesis unfolding extends_def
    by (rule exI [of _ n1]) (use n1(1-5) dd u dom live same pr in auto)
qed

text \<open>The topology survives a change of one device that is nobody's parent.\<close>

lemma topology_transfer:
  assumes t: "topology s1" and others: "\<And>q. q \<noteq> dev \<Longrightarrow> same_at s1 s2 q"
    and np: "\<And>q. q \<noteq> dev \<Longrightarrow> parent_of (lx_core s1) q \<noteq> Some dev"
    and d: "\<And>p dv. get_dev dev (lx_core s2) = Some dv \<Longrightarrow> dv_parent_dev dv = Some p \<Longrightarrow>
      \<exists>nm np. name_of s2 dev = Some nm \<and> name_of s2 p = Some np \<and> parent_path nm = Some (dv_port_number dv, np)"
  shows "topology s2"
  unfolding topology_def
proof (intro allI impI)
  fix q p dv assume q: "get_dev q (lx_core s2) = Some dv" "dv_parent_dev dv = Some p"
  show "\<exists>nm np. name_of s2 q = Some nm \<and> name_of s2 p = Some np \<and> parent_path nm = Some (dv_port_number dv, np)"
  proof (cases "q = dev")
    case True
    with d q show ?thesis by blast
  next
    case False
    note o = others [OF False]
    from o q(1) obtain dv1 where dv1: "get_dev q (lx_core s1) = Some dv1" "uncounted dv = uncounted dv1"
      by (cases "get_dev q (lx_core s1)") (auto simp: same_at_def)
    then have f: "dv_parent_dev dv = dv_parent_dev dv1" "dv_port_number dv = dv_port_number dv1"
      by (auto simp: uncounted_def dest: arg_cong [of _ _ dv_parent_dev] arg_cong [of _ _ dv_port_number])
    have "p \<noteq> dev" using np [OF False] dv1(1) f q(2) by (auto simp: parent_of_def)
    with t dv1(1) q(2) f same_at_parent(2) [OF o] same_at_parent(2) [OF others, of p] show ?thesis
      unfolding topology_def by metis
  qed
qed

lemma fresh_no_children:
  assumes "lx_base be X s1" and "ref_count be {} ext (lx_core s1) dev = 0" and "parent_of (lx_core s1) q = Some dev"
  shows False
proof -
  have "finite (dom (co_devs (lx_core s1)))"
    using refs_ok_store [OF lx_baseD(2) [OF assms(1)]] by (simp add: store_ok_def)
  with assms(2) have "children {} (lx_core s1) dev = {}" by (simp add: ref_count_zero)
  moreover have "q \<in> dom (co_devs (lx_core s1))" using assms(3) by (auto simp: parent_of_def get_dev_def split: option.splits)
  ultimately show False using assms(3) by (auto simp: children_def)
qed

lemma finish_connect_unnamed:
  assumes b: "lx_base be ext s" and e: "extends {dev} s s1" and b1: "lx_base be (add_mset dev ext) s1"
    and dv: "get_dev dev (lx_core s1) = Some dv"
  shows "\<exists>s2. on_lcore (usbi_connect_device be dev) s1 = Some s2 \<and> lx_base be ext s2 \<and> extends {} s s2 \<and>
    co_usb_devs (lx_core s2) = dev # co_usb_devs (lx_core s1) \<and> name_of s2 = name_of s1 \<and>
    dev \<in> set (co_usb_devs (lx_core s2)) \<and> get_dev dev (lx_core s2) = Some (dv\<lparr>dv_attached := True\<rparr>)"
proof -
  note f = extends_fresh [OF b e b1] and d = lx_baseD [OF b1]
  obtain c' where c': "usbi_connect_device be dev (lx_core s1) = Some c'" "refs_ok be {} ext c'"
    "co_usb_devs c' = dev # co_usb_devs (lx_core s1)" "\<not> co_usb_devs_lock c'" "\<not> ed_lock (co_ev c')"
    "co_devs c' = (co_devs (lx_core s1))(dev \<mapsto> dv\<lparr>dv_attached := True\<rparr>)" "hp_live (lx_heap s1) \<subseteq> hp_live (co_heap c')"
    using connect_ok [OF d(1,2,3,4) f(2) dv] by blast
  let ?s2 = "s1\<lparr>lx_core := c'\<rparr>"
  have g: "get_dev q c' = (if q = dev then Some (dv\<lparr>dv_attached := True\<rparr>) else get_dev q (lx_core s1))" for q
    using c'(6) by (simp add: get_dev_def)
  have dom: "dom (co_devs c') = dom (co_devs (lx_core s1))" using c'(6) dv by (auto simp: get_dev_def)
  have others: "same_at s1 ?s2 q" if "q \<noteq> dev" for q using that by (simp add: same_at_def g)
  have par: "parent_of c' dev = parent_of (lx_core s1) dev" by (simp add: parent_of_def g dv)
  have ext: "extends {} s ?s2"
    by (rule extends_close [OF e]) (use c'(3,7) dom others par lx_baseD(8) [OF b] in simp_all)
  have n: "name_of ?s2 q = name_of s1 q" for q by (simp add: name_of_def)
  have "topology ?s2"
  proof (rule topology_transfer [OF d(6) others])
    fix q assume "q \<noteq> dev"
    then show "parent_of (lx_core s1) q \<noteq> Some dev" using fresh_no_children [OF b1 f(1)] by blast
  next
    fix p dv' assume "get_dev dev (lx_core ?s2) = Some dv'" "dv_parent_dev dv' = Some p"
    then have "dv_parent_dev dv = Some p" "dv_port_number dv' = dv_port_number dv" by (auto simp: g)
    with d(6) dv show "\<exists>nm np. name_of ?s2 dev = Some nm \<and> name_of ?s2 p = Some np \<and> parent_path nm = Some (dv_port_number dv', np)"
      unfolding topology_def n by metis
  qed
  then have "lx_base be ext ?s2" using c' d dom by (simp add: lx_base_def)
  moreover have "name_of ?s2 = name_of s1" by (simp add: n fun_eq_iff)
  ultimately show ?thesis using c'(1,3) ext by (intro exI [of _ ?s2]) (simp add: on_lcore_def g)
qed

lemma finish_connect:
  assumes b: "lx_base be ext s" and e: "extends {dev} s s1" and b1: "lx_base be (add_mset dev ext) s1"
    and nm: "named s1 \<longrightarrow> name_of s1 dev \<noteq> None" and dv: "get_dev dev (lx_core s1) = Some dv"
  shows "\<exists>s2. on_lcore (usbi_connect_device be dev) s1 = Some s2 \<and> lx_base be ext s2 \<and> extends {} s s2 \<and>
    (named s1 \<longrightarrow> named s2) \<and> dev \<in> set (co_usb_devs (lx_core s2)) \<and> get_dev dev (lx_core s2) = Some (dv\<lparr>dv_attached := True\<rparr>)"
proof -
  from finish_connect_unnamed [OF b e b1 dv] obtain s2 where
    s2: "on_lcore (usbi_connect_device be dev) s1 = Some s2" "lx_base be ext s2" "extends {} s s2"
      "co_usb_devs (lx_core s2) = dev # co_usb_devs (lx_core s1)" "name_of s2 = name_of s1"
      "get_dev dev (lx_core s2) = Some (dv\<lparr>dv_attached := True\<rparr>)" by blast
  have "named s1 \<longrightarrow> named s2" using nm unfolding named_def s2(4,5) by simp
  with s2 show ?thesis by auto
qed

lemma finish_unref:
  assumes b: "lx_base be ext s" and e: "extends {dev} s s1" and b1: "lx_base be (add_mset dev ext) s1"
  shows "\<exists>s2. linux_unref be dev s1 = Some s2 \<and> lx_base be ext s2 \<and> extends {} s s2 \<and> (named s1 \<longrightarrow> named s2)"
proof -
  note f = extends_fresh [OF b e b1] and d = lx_baseD [OF b1]
  obtain c' where c': "libusb_unref_device be (Some dev) (lx_core s1) = Some c'" "refs_ok be {} ext c'"
    "dom (co_devs c') = dom (co_devs (lx_core s1)) - {dev}" "unref_frame be {} (lx_core s1) c'"
    "\<And>q. q \<noteq> dev \<Longrightarrow> map_option uncounted (get_dev q c') = map_option uncounted (get_dev q (lx_core s1))"
    using unref_fresh [OF d(1,2) f(1) f(3)] by blast
  let ?s2 = "\<lparr>lx_core = c', lx_priv = op_destroy_device c' (lx_priv s1)\<rparr>"
  have fr: "\<exists>h. co_ev c' = (co_ev (lx_core s1))\<lparr>ed_heap := h\<rparr>" "co_usb_devs_lock c' = co_usb_devs_lock (lx_core s1)"
    "co_usb_devs c' = co_usb_devs (lx_core s1)"
    "hp_live (co_heap c') = hp_live (lx_heap s1) - (dom (co_devs (lx_core s1)) - dom (co_devs c'))"
    using c'(4) d(1) by (simp_all add: unref_frame_def)
  have dd: "dev \<in> dom (co_devs (lx_core s1))" using refs_ok_ext [OF d(2)] by auto
  have live: "hp_live (co_heap c') = hp_live (lx_heap s1) - {dev}" using fr(4) c'(3) dd by auto
  have others: "same_at s1 ?s2 q" if "q \<noteq> dev" for q
  proof -
    have "op_destroy_device c' (lx_priv s1) q = lx_priv s1 q"
      using that c'(3) d(5) by (cases "q \<in> dom (co_devs (lx_core s1))") (auto simp: op_destroy_device_def restrict_map_def)
    with c'(5) [OF that] show ?thesis by (simp add: same_at_def)
  qed
  have ext: "extends {} s ?s2"
    by (rule extends_drop [OF e]) (use fr(3) c'(3) live others lx_baseD(8) [OF b] in simp_all)
  have "topology ?s2"
  proof (rule topology_transfer [OF d(6) others])
    fix q assume "q \<noteq> dev"
    then show "parent_of (lx_core s1) q \<noteq> Some dev" using fresh_no_children [OF b1 f(1)] by blast
  next
    fix p dv' assume "get_dev dev (lx_core ?s2) = Some dv'"
    then have False using c'(3) by (auto simp: get_dev_def)
    then show "\<exists>nm np. name_of ?s2 dev = Some nm \<and> name_of ?s2 p = Some np \<and> parent_path nm = Some (dv_port_number dv', np)" ..
  qed
  moreover have "\<not> ed_lock (co_ev c')" using fr(1) d(4) by auto
  moreover have "dom (op_destroy_device c' (lx_priv s1)) = dom (co_devs c')" using d(5) c'(3) by (auto simp: op_destroy_device_def)
  ultimately have "lx_base be ext ?s2" using c'(2) d fr(2) by (simp add: lx_base_def)
  moreover have "name_of ?s2 q = name_of s1 q" if "q \<in> set (co_usb_devs (lx_core s1))" for q
    using that f(2) same_at_parent(2) [OF others, of q] by blast
  then have "named s1 \<longrightarrow> named ?s2" by (simp add: named_def fr(3))
  ultimately show ?thesis using c'(1) ext by (intro exI [of _ ?s2]) (simp add: linux_unref_def)
qed

subsection \<open>The parent of a new device\<close>

lemma parent_loop_ok:
  "\<forall>p \<in> set ps. name_of s p \<noteq> None \<Longrightarrow>
    \<exists>it. parent_loop (lx_priv s) np ps = Some it \<and> (\<forall>p. it = Some p \<longrightarrow> p \<in> set ps \<and> name_of s p = Some np)"
proof (induction ps)
  case (Cons p ps)
  then obtain priv dir where p: "lx_priv s p = Some priv" "dp_sysfs_dir priv = Some dir" "name_of s p = Some dir"
    by (auto simp: name_of_def split: option.splits)
  with Cons show ?case by (cases "dir = np") auto
qed simp

lemma set_lxheap_fields [simp]:
  "lx_core (set_lxheap h s) = set_heap h (lx_core s)" "lx_priv (set_lxheap h s) = lx_priv s" "name_of (set_lxheap h s) = name_of s"
  by (simp_all add: set_lxheap_def name_of_def fun_eq_iff)

lemma set_lxheap_ok:
  assumes b: "lx_base be X s1" and h: "heap_wf h" "dom (co_devs (lx_core s1)) \<subseteq> hp_live h"
  shows "lx_base be X (set_lxheap h s1)"
proof -
  have "topology (set_lxheap h s1)" using lx_baseD(6) [OF b] by (simp add: topology_def)
  with refs_ok_set_heap [OF lx_baseD(2) [OF b] h] lx_baseD [OF b] show ?thesis by (simp add: lx_base_def)
qed

lemma parent_of_set_heap [simp]: "parent_of (set_heap h c) = parent_of c"
  by (simp add: parent_of_def fun_eq_iff)

lemma extends_set_lxheap:
  assumes e: "extends {dev} s s1" and b: "lx_base be ext s" and b1: "lx_base be X s1" and live: "hp_live (lx_heap s) \<subseteq> hp_live h"
  shows "extends {dev} s (set_lxheap h s1)"
  by (rule extends_tweak [OF e]) (use live lx_baseD(8) [OF b] extends_fresh(3) [OF b e b1] in \<open>simp_all add: same_at_def\<close>)

lemma named_set_lxheap [simp]: "named (set_lxheap h s) = named s"
  by (simp add: named_def)

text \<open>Changing fields of the device under construction that nothing else depends on.\<close>

definition put_ldev :: "ptr \<Rightarrow> libusb_device \<Rightarrow> linux_ctx \<Rightarrow> linux_ctx" where
  "put_ldev dev dv s = s\<lparr>lx_core := put_dev dev dv (lx_core s)\<rparr>"

definition put_both :: "ptr \<Rightarrow> libusb_device \<Rightarrow> linux_device_priv \<Rightarrow> linux_ctx \<Rightarrow> linux_ctx" where
  "put_both dev dv priv s = \<lparr>lx_core = put_dev dev dv (lx_core s), lx_priv = (lx_priv s)(dev \<mapsto> priv)\<rparr>"

lemma put_both_ok:
  assumes b: "lx_base be ext s" and e: "extends {dev} s s1" and b1: "lx_base be (add_mset dev ext) s1"
    and dv: "get_dev dev (lx_core s1) = Some dv" and sc: "same_core dv dv'" and np: "dv_parent_dev dv = None"
  shows "lx_base be (add_mset dev ext) (put_both dev dv' priv s1)" and "extends {dev} s (put_both dev dv' priv s1)"
    and "named s1 \<longrightarrow> named (put_both dev dv' priv s1)"
proof -
  note d = lx_baseD [OF b1] and f = extends_fresh [OF b e b1]
  let ?s2 = "put_both dev dv' priv s1"
  have dd: "dev \<in> dom (co_devs (lx_core s1))" using dv by (auto simp: get_dev_def)
  have dom: "dom (co_devs (lx_core ?s2)) = dom (co_devs (lx_core s1))" using dd by (auto simp: put_both_def)
  have others: "same_at s1 ?s2 q" if "q \<noteq> dev" for q using that by (simp add: same_at_def put_both_def)
  have par: "parent_of (lx_core ?s2) dev = None" using sc np by (simp add: parent_of_def put_both_def same_core_def)
  have "refs_ok be {} (add_mset dev ext) (lx_core ?s2)"
    unfolding put_both_def
    using refs_ok_put [OF d(2) dv, of dv' "add_mset dev ext"] refs_okD [OF d(2) dv] sc by (simp add: same_core_def)
  moreover have "topology ?s2"
  proof (rule topology_transfer [OF d(6) others])
    fix q assume "q \<noteq> dev"
    then show "parent_of (lx_core s1) q \<noteq> Some dev" using fresh_no_children [OF b1 f(1)] by blast
  next
    fix p dv2 assume "get_dev dev (lx_core ?s2) = Some dv2" "dv_parent_dev dv2 = Some p"
    then have False using par by (simp add: parent_of_def)
    then show "\<exists>nm np. name_of ?s2 dev = Some nm \<and> name_of ?s2 p = Some np \<and> parent_path nm = Some (dv_port_number dv2, np)" ..
  qed
  moreover have "dom (lx_priv ?s2) = dom (lx_priv s1)" using dd d(5) by (auto simp: put_both_def)
  ultimately show "lx_base be (add_mset dev ext) ?s2" using d dom by (simp add: lx_base_def put_both_def)
  show "extends {dev} s ?s2"
  proof (rule extends_tweak [OF e _ dom _ others])
    show "hp_live (lx_heap s) \<subseteq> hp_live (lx_heap ?s2)"
      using e by (auto simp: extends_def put_both_def)
  qed (use par lx_baseD(8) [OF b] in \<open>simp_all add: put_both_def\<close>)
  have "name_of ?s2 q = name_of s1 q" if "q \<in> set (co_usb_devs (lx_core s1))" for q
    using that f(2) same_at_parent(2) [OF others, of q] by blast
  then show "named s1 \<longrightarrow> named ?s2" by (simp add: named_def) (simp add: put_both_def)
qed

lemma put_ldev_ok:
  assumes b: "lx_base be ext s" and e: "extends {dev} s s1" and b1: "lx_base be (add_mset dev ext) s1"
    and dv: "get_dev dev (lx_core s1) = Some dv" and sc: "same_core dv dv'" and np: "dv_parent_dev dv = None"
  shows "lx_base be (add_mset dev ext) (put_ldev dev dv' s1)" and "extends {dev} s (put_ldev dev dv' s1)"
    and "named (put_ldev dev dv' s1) = named s1" and "name_of (put_ldev dev dv' s1) = name_of s1"
proof -
  have "dev \<in> dom (lx_priv s1)" using dv lx_baseD(5) [OF b1] by (auto simp: get_dev_def)
  then obtain priv where "lx_priv s1 dev = Some priv" by auto
  then have eq: "put_both dev dv' priv s1 = put_ldev dev dv' s1"
    by (cases s1) (simp add: put_both_def put_ldev_def fun_upd_idem)
  from put_both_ok [OF b e b1 dv sc np, of priv] show "lx_base be (add_mset dev ext) (put_ldev dev dv' s1)"
    "extends {dev} s (put_ldev dev dv' s1)" unfolding eq by blast+
  show "name_of (put_ldev dev dv' s1) = name_of s1" by (simp add: put_ldev_def name_of_def fun_eq_iff)
  then show "named (put_ldev dev dv' s1) = named s1" by (simp add: named_def) (simp add: put_ldev_def)
qed

lemma find_parent_ok:
  assumes b: "lx_base be ext s" and e: "extends {dev} s s1" and b1: "lx_base be (add_mset dev ext) s1" and nm: "named s1"
    and dv: "get_dev dev (lx_core s1) = Some dv" "dv_parent_dev dv = None"
    and name: "name_of s1 dev = Some nm" "parent_path nm = Some (dv_port_number dv, np)"
  shows "\<exists>s2 dv2 x. find_parent dev np s1 = Some s2 \<and> lx_base be (add_mset dev ext) s2 \<and> extends {dev} s s2 \<and> named s2 \<and>
    get_dev dev (lx_core s2) = Some dv2 \<and> uncounted dv2 = uncounted (dv\<lparr>dv_parent_dev := x\<rparr>) \<and> name_of s2 = name_of s1 \<and>
    lx_heap s2 = lx_heap s1 \<and> dom (co_devs (lx_core s2)) = dom (co_devs (lx_core s1))"
proof -
  note d = lx_baseD [OF b1] and f = extends_fresh [OF b e b1]
  obtain it where it: "parent_loop (lx_priv s1) np (co_usb_devs (lx_core s1)) = Some it"
    "\<And>p. it = Some p \<Longrightarrow> p \<in> set (co_usb_devs (lx_core s1)) \<and> name_of s1 p = Some np"
    using parent_loop_ok [of "co_usb_devs (lx_core s1)" s1 np] nm by (auto simp: named_def)
  let ?c1 = "set_lock True (lx_core s1)"
  have lk: "set_lock False ?c1 = lx_core s1" using d(3) by simp
  have g1: "get_dev q ?c1 = get_dev q (lx_core s1)" for q by (simp add: get_dev_def)
  show ?thesis
  proof (cases it)
    case None
    have "find_parent dev np s1 = Some s1"
      using d(3) it(1) None lk by (simp add: find_parent_def on_lcore_def lock_usb_devs_def unlock_usb_devs_def)
    moreover have "uncounted dv = uncounted (dv\<lparr>dv_parent_dev := None\<rparr>)" using dv(2) by (cases dv) (simp add: uncounted_def)
    ultimately show ?thesis using e b1 nm dv by blast
  next
    case (Some p)
    with it have p: "p \<in> set (co_usb_devs (lx_core s1))" "name_of s1 p = Some np" by auto
    with f(2) d(9) have pd: "p \<noteq> dev" "p \<in> dom (co_devs (lx_core s1))" by auto
    then obtain pv where pv: "get_dev p (lx_core s1) = Some pv" by (auto simp: get_dev_def)
    let ?c2 = "put_dev p (pv\<lparr>dv_refcnt := dv_refcnt pv + 1\<rparr>) ?c1"
    have ref: "libusb_ref_device p ?c1 = Some ?c2"
      unfolding libusb_ref_device_def by (rule with_dev_eq) (use pv refs_okD(1) [OF d(2) pv] in \<open>simp_all add: g1\<close>)
    have ok1: "refs_ok be {} (add_mset dev ext) ?c1" using d(1,2) by (simp add: refs_ok_lock)
    have pd1: "p \<in> dom (co_devs ?c1)" using pd(2) by simp
    have ok2: "refs_ok be {} (add_mset p (add_mset dev ext)) ?c2"
      by (rule ref_keeps [OF ok1 pd1]) (use ref in simp_all)
    have g2: "get_dev dev ?c2 = Some dv" using pd(1) dv(1) g1 by simp
    let ?dv = "dv\<lparr>dv_parent_dev := Some p\<rparr>"
    let ?c3 = "put_dev dev ?dv ?c2"
    have ok3: "refs_ok be {} (add_mset dev ext) ?c3" by (rule refs_ok_adopt [OF ok2 g2 dv(2)])
    let ?s2 = "s1\<lparr>lx_core := set_lock False ?c3\<rparr>"
    have fp: "find_parent dev np s1 = Some ?s2"
      using d(3) it(1) Some ref g2 by (simp add: find_parent_def on_lcore_def lock_usb_devs_def unlock_usb_devs_def)
    have g: "get_dev q (lx_core ?s2) = (if q = dev then Some ?dv else if q = p then Some (pv\<lparr>dv_refcnt := dv_refcnt pv + 1\<rparr>)
        else get_dev q (lx_core s1))" for q
      by (simp add: get_dev_def put_dev_def)
    have n: "name_of ?s2 = name_of s1" by (simp add: name_of_def fun_eq_iff)
    have u: "co_usb_devs (lx_core ?s2) = co_usb_devs (lx_core s1)" "co_ev (lx_core ?s2) = co_ev (lx_core s1)" by simp_all
    have dom: "dom (co_devs (lx_core ?s2)) = dom (co_devs (lx_core s1))" using pd(2) dv(1) by (auto simp: get_dev_def)
    have others: "same_at s1 ?s2 q" if "q \<noteq> dev" for q
      using that pv unfolding same_at_def g by (simp add: uncounted_def)
    have par: "parent_of (lx_core ?s2) dev = Some p" using g [of dev] by (simp add: parent_of_def)
    have "refs_ok be {} (add_mset dev ext) (lx_core ?s2)" using ok3 d(1) by (simp add: refs_ok_lock)
    moreover have "topology ?s2"
    proof (rule topology_transfer [OF d(6) others])
      fix q assume "q \<noteq> dev"
      then show "parent_of (lx_core s1) q \<noteq> Some dev" using fresh_no_children [OF b1 f(1)] by blast
    next
      fix p' dv2 assume "get_dev dev (lx_core ?s2) = Some dv2" "dv_parent_dev dv2 = Some p'"
      then have "dv2 = ?dv" "p' = p" unfolding g by auto
      with name p(2) show "\<exists>nm np. name_of ?s2 dev = Some nm \<and> name_of ?s2 p' = Some np \<and> parent_path nm = Some (dv_port_number dv2, np)"
        unfolding n by auto
    qed
    ultimately have "lx_base be (add_mset dev ext) ?s2" using d dom by (simp add: lx_base_def)
    moreover have "extends {dev} s ?s2"
    proof (rule extends_tweak [OF e u(1) dom _ others])
      show "hp_live (lx_heap s) \<subseteq> hp_live (lx_heap ?s2)" using e by (auto simp: extends_def)
    qed (use par p lx_baseD(8) [OF b] in simp_all)
    moreover have "named ?s2" using nm unfolding named_def n u .
    ultimately show ?thesis using fp g [of dev] n u(2) dom by (intro exI [of _ ?s2] exI [of _ ?dv] exI [of _ "Some p"]) simp
  qed
qed

text \<open>What the enumeration of the parent promises to the enumeration of its child.\<close>

definition scan_ok :: "core_backend \<Rightarrow> (string \<Rightarrow> linux_ctx \<Rightarrow> (int \<times> linux_ctx) option) \<Rightarrow> string \<Rightarrow> bool" where
  "scan_ok be scan np \<longleftrightarrow> (\<forall>X s. lx_base be X s \<longrightarrow> named s \<longrightarrow>
     (\<exists>r s'. scan np s = Some (r, s') \<and> lx_base be X s' \<and> extends {} s s' \<and> named s'))"

lemma uncounted_fields:
  assumes "uncounted a = uncounted b"
  shows "dv_parent_dev a = dv_parent_dev b" "dv_port_number a = dv_port_number b" "dv_session_data a = dv_session_data b"
    "dv_lock a = dv_lock b"
  using assms by (auto simp: uncounted_def dest: arg_cong [of _ _ dv_parent_dev] arg_cong [of _ _ dv_port_number]
      arg_cong [of _ _ dv_session_data] arg_cong [of _ _ dv_lock])

lemma same_at_dev:
  assumes "same_at s s' q" and "get_dev q (lx_core s) = Some dv"
  obtains dv' where "get_dev q (lx_core s') = Some dv'" and "uncounted dv' = uncounted dv"
  using assms by (cases "get_dev q (lx_core s')") (auto simp: same_at_def)

lemma extends_same: "extends D s s' \<Longrightarrow> q \<in> dom (co_devs (lx_core s)) \<Longrightarrow> same_at s s' q"
  unfolding extends_def by blast

lemma extends_live: "extends D s s' \<Longrightarrow> hp_live (lx_heap s) \<subseteq> hp_live (lx_heap s')"
  unfolding extends_def by blast

lemma extends_dom: "extends {} s s' \<Longrightarrow> dom (co_devs (lx_core s')) \<inter> hp_live (lx_heap s) \<subseteq> dom (co_devs (lx_core s))"
  unfolding extends_def by blast

text \<open>The search for the parent, with one attempt to enumerate it.\<close>

definition seek_parent :: "(string \<Rightarrow> linux_ctx \<Rightarrow> (int \<times> linux_ctx) option) \<Rightarrow> ptr \<Rightarrow> string \<Rightarrow> linux_ctx \<Rightarrow> linux_ctx option" where
  "seek_parent scan dev np s = do {
     s2 \<leftarrow> find_parent dev np s;
     dv2 \<leftarrow> get_dev dev (lx_core s2);
     if dv_parent_dev dv2 = None then do { (_, s3) \<leftarrow> scan np s2; find_parent dev np s3 } else Some s2
   }"

lemma seek_parent_ok:
  assumes b: "lx_base be ext s" and e: "extends {dev} s s1" and b1: "lx_base be (add_mset dev ext) s1" and nm: "named s1"
    and dv: "get_dev dev (lx_core s1) = Some dv" "dv_parent_dev dv = None"
    and name: "name_of s1 dev = Some nm" "parent_path nm = Some (dv_port_number dv, np)"
    and scan: "scan_ok be scan np"
    and blk: "blk \<in> hp_live (lx_heap s1)" "blk \<notin> dom (co_devs (lx_core s1))"
  shows "\<exists>s2 dv2. seek_parent scan dev np s1 = Some s2 \<and> lx_base be (add_mset dev ext) s2 \<and> extends {dev} s s2 \<and> named s2 \<and>
    get_dev dev (lx_core s2) = Some dv2 \<and> dv_session_data dv2 = dv_session_data dv \<and> name_of s2 dev = Some nm \<and>
    blk \<in> hp_live (lx_heap s2) \<and> blk \<notin> dom (co_devs (lx_core s2))"
proof -
  from find_parent_ok [OF b e b1 nm dv name] obtain s2 dv2 x where
    s2: "find_parent dev np s1 = Some s2" "lx_base be (add_mset dev ext) s2" "extends {dev} s s2" "named s2"
      "get_dev dev (lx_core s2) = Some dv2" "uncounted dv2 = uncounted (dv\<lparr>dv_parent_dev := x\<rparr>)" "name_of s2 = name_of s1"
      "lx_heap s2 = lx_heap s1" "dom (co_devs (lx_core s2)) = dom (co_devs (lx_core s1))" by blast
  note f2 = uncounted_fields [OF s2(6), simplified]
  show ?thesis
  proof (cases "dv_parent_dev dv2")
    case (Some a)
    then have "dv_parent_dev dv2 \<noteq> None" by simp
    with s2(1,5) have "seek_parent scan dev np s1 = Some s2" by (simp only: seek_parent_def bind.bind_lunit if_False)
    with s2 f2(3) name blk show ?thesis by auto
  next
    case None
    from scan s2(2,4) obtain r s3 where
      s3: "scan np s2 = Some (r, s3)" "lx_base be (add_mset dev ext) s3" "extends {} s2 s3" "named s3"
      unfolding scan_ok_def by blast
    have e3: "extends {dev} s s3" by (rule extends_trans [OF s2(2,3) s3(3)])
    have "dev \<in> dom (co_devs (lx_core s2))" using s2(5) by (auto simp: get_dev_def)
    from extends_same [OF s3(3) this] have sa: "same_at s2 s3 dev" .
    from same_at_dev [OF sa s2(5)] obtain dv3 where dv3: "get_dev dev (lx_core s3) = Some dv3" "uncounted dv3 = uncounted dv2" .
    note f3 = uncounted_fields [OF dv3(2)]
    have "name_of s3 dev = Some nm" using same_at_parent(2) [OF sa] s2(7) name(1) by simp
    moreover have "dv_parent_dev dv3 = None" "parent_path nm = Some (dv_port_number dv3, np)" using f3 f2 None name(2) by simp_all
    ultimately obtain s4 dv4 y where
      s4: "find_parent dev np s3 = Some s4" "lx_base be (add_mset dev ext) s4" "extends {dev} s s4" "named s4"
        "get_dev dev (lx_core s4) = Some dv4" "uncounted dv4 = uncounted (dv3\<lparr>dv_parent_dev := y\<rparr>)" "name_of s4 = name_of s3"
        "lx_heap s4 = lx_heap s3" "dom (co_devs (lx_core s4)) = dom (co_devs (lx_core s3))"
      using find_parent_ok [OF b e3 s3(2,4) dv3(1)] by blast
    have "blk \<in> hp_live (lx_heap s4)" using blk(1) s2(8) extends_live [OF s3(3)] s4(8) by auto
    moreover have "blk \<notin> dom (co_devs (lx_core s4))" using blk s2(8,9) extends_dom [OF s3(3)] s4(9) by auto
    moreover have "seek_parent scan dev np s1 = Some s4" using s2(1,5) None s3(1) s4(1) by (simp add: seek_parent_def)
    moreover have "dv_session_data dv4 = dv_session_data dv" using uncounted_fields(3) [OF s4(6)] f3 f2 by simp
    ultimately show ?thesis using s4 \<open>name_of s3 dev = Some nm\<close> by auto
  qed
qed

lemma parent_info_ok:
  assumes b: "lx_base be ext s" and e: "extends {dev} s s1" and b1: "lx_base be (add_mset dev ext) s1"
    and nm: "dir \<noteq> None \<longrightarrow> named s1" and dv: "get_dev dev (lx_core s1) = Some dv" "dv_parent_dev dv = None"
    and name: "name_of s1 dev = dir"
    and scan: "\<And>nm port np. dir = Some nm \<Longrightarrow> take 3 nm \<noteq> ''usb'' \<Longrightarrow> parent_path nm = Some (port, np) \<Longrightarrow> scan_ok be scan np"
  shows "\<exists>r s2 dv2. linux_get_parent_info scan dev dir s1 = Some (r, s2) \<and> r \<le> 0 \<and> lx_base be (add_mset dev ext) s2 \<and>
    extends {dev} s s2 \<and> (dir \<noteq> None \<longrightarrow> named s2) \<and> get_dev dev (lx_core s2) = Some dv2 \<and>
    dv_session_data dv2 = dv_session_data dv \<and> name_of s2 dev = dir"
proof (cases "\<exists>nm. dir = Some nm \<and> take 3 nm \<noteq> ''usb''")
  case False
  then show ?thesis using e b1 nm dv name by (cases dir) (auto simp: linux_get_parent_info_def)
next
  case True
  then obtain nm0 where dir: "dir = Some nm0" "take 3 nm0 \<noteq> ''usb''" by blast
  note d = lx_baseD [OF b1]
  obtain q h where m: "c_malloc (lx_heap s1) = (q, h)" by fastforce
  show ?thesis
  proof (cases q)
    case None
    with ledger.alloc_None [OF d(7)] m have h: "hp_live h = hp_live (lx_heap s1)" "heap_wf h" by auto
    have "lx_base be (add_mset dev ext) (set_lxheap h s1)" "extends {dev} s (set_lxheap h s1)"
      using set_lxheap_ok [OF b1 h(2)] extends_set_lxheap [OF e b b1] h(1) d(8) extends_live [OF e] by simp_all
    with m None dir nm dv name show ?thesis by (simp add: linux_get_parent_info_def)
  next
    case (Some tmp)
    with ledger.alloc_Some [OF d(7)] m have
      h: "tmp \<notin> hp_live (lx_heap s1)" "hp_live h = insert tmp (hp_live (lx_heap s1))" "heap_wf h" by auto
    have tl: "tmp \<in> hp_live h" using h(2) by simp
    obtain h1 where h1: "c_release tmp h = Some h1" "hp_live h1 = hp_live (lx_heap s1)" "heap_wf h1"
      using ledger.release_live [OF h(3) tl] h(1,2) by auto
    show ?thesis
    proof (cases "split_port nm0")
      case None
      have "lx_base be (add_mset dev ext) (set_lxheap h1 s1)" "extends {dev} s (set_lxheap h1 s1)"
        using set_lxheap_ok [OF b1 h1(3)] extends_set_lxheap [OF e b b1] h1(2) d(8) extends_live [OF e] by simp_all
      with m Some None h1(1) dir nm dv name show ?thesis by (simp add: linux_get_parent_info_def)
    next
      case (Some pp)
      then obtain port pn where pp: "split_port nm0 = Some (port, pn)" by (cases pp) auto
      let ?np = "if CHR ''-'' \<in> set pn then pn else ''usb'' @ pn"
      have path: "parent_path nm0 = Some (port, ?np)" by (simp add: parent_path_def pp)
      let ?dv = "dv\<lparr>dv_port_number := port\<rparr>"
      let ?s1 = "put_ldev dev ?dv s1"
      have sc: "same_core dv ?dv" by simp
      note p = put_ldev_ok [OF b e b1 dv(1) sc dv(2)]
      have heap1: "lx_heap ?s1 = lx_heap s1" by (simp add: put_ldev_def)
      obtain x h2 where x: "parent_dir tmp pn h = Some (x, h2)" and
        xh: "case x of None \<Rightarrow> hp_live h2 = hp_live (lx_heap s1) \<and> heap_wf h2
          | Some (blk, np) \<Rightarrow> np = ?np \<and> blk \<notin> hp_live (lx_heap s1) \<and> hp_live h2 = insert blk (hp_live (lx_heap s1)) \<and> heap_wf h2"
      proof (cases "CHR ''-'' \<in> set pn")
        case True
        then show ?thesis using that [of "Some (tmp, pn)" h] h by (simp add: parent_dir_def)
      next
        case False
        obtain q2 h3 where m2: "c_malloc h = (q2, h3)" by fastforce
        show ?thesis
        proof (cases q2)
          case None
          with ledger.alloc_None [OF h(3)] m2 have l3: "hp_live h3 = hp_live h" "heap_wf h3" by auto
          have "tmp \<in> hp_live h3" using tl l3 by simp
          from ledger.release_live [OF l3(2) this] obtain h4 where
            "c_release tmp h3 = Some h4" "hp_live h4 = hp_live h3 - {tmp}" "heap_wf h4" by blast
          with False m2 None l3 h(1,2) show ?thesis using that [of None h4] by (simp add: parent_dir_def)
        next
          case (Some blk)
          with ledger.alloc_Some [OF h(3)] m2 have l3: "blk \<notin> hp_live h" "hp_live h3 = insert blk (hp_live h)" "heap_wf h3" by auto
          have "tmp \<in> hp_live h3" using tl l3 by simp
          from ledger.release_live [OF l3(3) this] obtain h4 where
            h4: "c_release tmp h3 = Some h4" "hp_live h4 = hp_live h3 - {tmp}" "heap_wf h4" by blast
          have "hp_live h4 = insert blk (hp_live (lx_heap s1))" using h4(2) l3(1,2) h(1,2) by auto
          with False m2 Some h4 l3(1) h(2) show ?thesis using that [of "Some (blk, ''usb'' @ pn)" h4] by (simp add: parent_dir_def)
        qed
      qed
      have st: "s1\<lparr>lx_core := put_dev dev ?dv (lx_core s1)\<rparr> = ?s1" by (simp add: put_ldev_def)
      have dom1: "dom (co_devs (lx_core ?s1)) = dom (co_devs (lx_core s1))" using dv by (auto simp: put_ldev_def get_dev_def)
      show ?thesis
      proof (cases x)
        case None
        with xh have l: "hp_live h2 = hp_live (lx_heap s1)" "heap_wf h2" by simp_all
        have "lx_base be (add_mset dev ext) (set_lxheap h2 ?s1)" "extends {dev} s (set_lxheap h2 ?s1)"
          using set_lxheap_ok [OF p(1) l(2)] extends_set_lxheap [OF p(2) b p(1)] l(1) d(8) dom1 extends_live [OF e] by simp_all
        moreover have "linux_get_parent_info scan dev dir s1 = Some (LIBUSB_ERROR_NO_MEM, set_lxheap h2 ?s1)"
          using m \<open>q = Some tmp\<close> dir pp dv(1) x None st by (simp add: linux_get_parent_info_def Let_def)
        moreover have "get_dev dev (lx_core (set_lxheap h2 ?s1)) = Some ?dv" by (simp add: put_ldev_def)
        ultimately show ?thesis using nm dir p(3,4) name by auto
      next
        case (Some bn)
        with xh obtain blk where bn: "x = Some (blk, ?np)" "blk \<notin> hp_live (lx_heap s1)"
          "hp_live h2 = insert blk (hp_live (lx_heap s1))" "heap_wf h2" by (cases bn) auto
        let ?s2 = "set_lxheap h2 ?s1"
        have "dom (co_devs (lx_core ?s1)) \<subseteq> hp_live h2" "hp_live (lx_heap s) \<subseteq> hp_live h2"
          using bn(3) d(8) dom1 extends_live [OF e] by auto
        then have b2: "lx_base be (add_mset dev ext) ?s2" "extends {dev} s ?s2"
          using set_lxheap_ok [OF p(1) bn(4)] extends_set_lxheap [OF p(2) b p(1)] by blast+
        have g2: "get_dev dev (lx_core ?s2) = Some ?dv" by (simp add: put_ldev_def)
        have nm2: "named ?s2" using nm dir p(3) by simp
        have n2: "name_of ?s2 dev = Some nm0" using name dir p(4) by simp
        have pth: "parent_path nm0 = Some (dv_port_number ?dv, ?np)" using path by simp
        have np0: "dv_parent_dev ?dv = None" using dv(2) by simp
        have sk: "scan_ok be scan ?np" by (rule scan [OF dir path])
        have bl: "blk \<in> hp_live (lx_heap ?s2)" "blk \<notin> dom (co_devs (lx_core ?s2))"
          using bn(2,3) d(8) dom1 by (simp, unfold set_lxheap_fields set_heap_fields dom1, blast)
        from seek_parent_ok [OF b b2(2,1) nm2 g2 np0 n2 pth sk bl] obtain s3 dv3 where
          s3: "seek_parent scan dev ?np ?s2 = Some s3" "lx_base be (add_mset dev ext) s3" "extends {dev} s s3" "named s3"
            "get_dev dev (lx_core s3) = Some dv3" "dv_session_data dv3 = dv_session_data ?dv" "name_of s3 dev = Some nm0"
            "blk \<in> hp_live (lx_heap s3)" "blk \<notin> dom (co_devs (lx_core s3))" by blast
        note d3 = lx_baseD [OF s3(2)]
        obtain h4 where h4: "c_release blk (lx_heap s3) = Some h4" "hp_live h4 = hp_live (lx_heap s3) - {blk}" "heap_wf h4"
          using ledger.release_live [OF d3(7) s3(8)] by blast
        have "dom (co_devs (lx_core s3)) \<subseteq> hp_live h4" using d3(8) s3(9) h4(2) by auto
        from set_lxheap_ok [OF s3(2) h4(3) this] have b4: "lx_base be (add_mset dev ext) (set_lxheap h4 s3)" .
        have "blk \<notin> hp_live (lx_heap s)" using bn(2) extends_live [OF e] by auto
        then have "hp_live (lx_heap s) \<subseteq> hp_live h4" using extends_live [OF s3(3)] h4(2) by auto
        from extends_set_lxheap [OF s3(3) b s3(2) this] have e4: "extends {dev} s (set_lxheap h4 s3)" .
        have "linux_get_parent_info scan dev dir s1 = Some (LIBUSB_SUCCESS, set_lxheap h4 s3)"
        proof -
          from s3(1) obtain s2' dv2' where
            "find_parent dev ?np ?s2 = Some s2'" "get_dev dev (lx_core s2') = Some dv2'"
            "(if dv_parent_dev dv2' = None then do { (_, s3) \<leftarrow> scan ?np s2'; find_parent dev ?np s3 } else Some s2') = Some s3"
            unfolding seek_parent_def by (elim bind_SomeE) blast
          with m \<open>q = Some tmp\<close> dir pp dv(1) x bn(1) st h4(1) show ?thesis
            by (simp only: linux_get_parent_info_def option.case if_False prod.case bind.bind_lunit Let_def)
        qed
        with b4 e4 s3 dir show ?thesis by auto
      qed
    qed
  qed
qed

subsection \<open>Enumerating a device\<close>

lemma sanitize_ok:
  assumes "get_dev dev c = Some dv" and "18 \<le> length bs"
  shows "\<exists>r dv'. usbi_sanitize_device cpu (0, bs, he) dev c = Some (r, put_dev dev dv' c) \<and> same_core dv dv' \<and> r \<le> 0"
proof -
  obtain dd where "usbi_device_cache_descriptor cpu (0, bs, he) = Some (LIBUSB_SUCCESS, Some dd)"
    using assms(2) by (cases he) (simp_all add: usbi_device_cache_descriptor_def Let_def)
  then have "usbi_sanitize_device cpu (0, bs, he) dev c =
      (if int_of (dd_bNumConfigurations dd) > USB_MAXCONFIG
       then Some (LIBUSB_ERROR_IO, put_dev dev (dv\<lparr>dv_device_descriptor := dd\<rparr>) c)
       else Some (0, put_dev dev (dv\<lparr>dv_device_descriptor := dd, dv_num_configurations := dd_bNumConfigurations dd\<rparr>) c))"
    using assms(1) by (simp add: usbi_sanitize_device_def Let_def)
  moreover have "LIBUSB_ERROR_IO \<le> 0" by simp
  ultimately show ?thesis using same_core_simps(5,6) [of dv]
    by (cases "int_of (dd_bNumConfigurations dd) > USB_MAXCONFIG") (metis, metis order_refl)
qed

lemma init_new_device_ok:
  assumes b: "lx_base be ext s" and e: "extends {dev} s s1" and b1: "lx_base be (add_mset dev ext) s1"
    and dv: "get_dev dev (lx_core s1) = Some dv" "dv_parent_dev dv = None" and priv: "lx_priv s1 dev = Some new_priv"
    and nm: "dir \<noteq> None \<longrightarrow> named s1" and files: "device_file env file lg" "lg_has_descriptors lg \<noteq> 0 \<longrightarrow> dir \<noteq> None"
    and scan: "\<And>nm port np. dir = Some nm \<Longrightarrow> take 3 nm \<noteq> ''usb'' \<Longrightarrow> parent_path nm = Some (port, np) \<Longrightarrow> scan_ok be scan np"
  shows "\<exists>r s2 dv2. init_new_device lg env scan bus addr dir dev s1 = Some (r, s2) \<and> r \<le> 0 \<and> lx_base be (add_mset dev ext) s2 \<and>
    extends {dev} s s2 \<and> (dir \<noteq> None \<longrightarrow> named s2) \<and> get_dev dev (lx_core s2) = Some dv2 \<and>
    dv_session_data dv2 = dv_session_data dv \<and> (r = 0 \<longrightarrow> name_of s2 dev = dir)"
proof -
  have "dp_sysfs_dir new_priv = None" by (simp add: new_priv_def)
  from initialize_device_total [OF files this, of bus addr dv] obtain r dv1 priv1 where
    i: "initialize_device lg env bus addr dir dv new_priv = Some (r, dv1, priv1)" "same_core dv dv1" "r \<le> 0"
      "r = 0 \<longrightarrow> dp_sysfs_dir priv1 = dir \<and> 18 \<le> length (dp_descriptors priv1)" by blast
  let ?s1 = "put_both dev dv1 priv1 s1"
  note p = put_both_ok [OF b e b1 dv(1) i(2) dv(2), of priv1]
  have g1: "get_dev dev (lx_core ?s1) = Some dv1" by (simp add: put_both_def)
  have pn1: "dv_parent_dev dv1 = None" "dv_session_data dv1 = dv_session_data dv" using i(2) dv(2) by (simp_all add: same_core_def)
  have n1: "name_of ?s1 dev = dp_sysfs_dir priv1" by (simp add: name_of_def put_both_def)
  show ?thesis
  proof (cases "r < 0")
    case True
    then have "init_new_device lg env scan bus addr dir dev s1 = Some (r, ?s1)"
      using dv(1) priv i(1) by (simp add: init_new_device_def put_both_def)
    with True p g1 pn1 nm show ?thesis by auto
  next
    case False
    with i(3,4) have r0: "r = 0" "dp_sysfs_dir priv1 = dir" "18 \<le> length (dp_descriptors priv1)" by auto
    have an: "op_get_device_descriptor lg priv1 = Some (0, take 18 (dp_descriptors priv1), lg_has_descriptors lg = 0)"
      using r0(3) by (simp add: op_get_device_descriptor_def c_memcpy_def)
    have "18 \<le> length (take 18 (dp_descriptors priv1))" using r0(3) by simp
    from sanitize_ok [OF g1 this, of "le_cpu env" "lg_has_descriptors lg = 0"] obtain r1 dv2 where
      sa: "usbi_sanitize_device (le_cpu env) (0, take 18 (dp_descriptors priv1), lg_has_descriptors lg = 0) dev (lx_core ?s1) =
        Some (r1, put_dev dev dv2 (lx_core ?s1))" "same_core dv1 dv2" "r1 \<le> 0" by blast
    note q = put_ldev_ok [OF b p(2,1) g1 sa(2) pn1(1)]
    let ?s2 = "put_ldev dev dv2 ?s1"
    have st: "?s1\<lparr>lx_core := put_dev dev dv2 (lx_core ?s1)\<rparr> = ?s2" by (simp add: put_ldev_def)
    have g2: "get_dev dev (lx_core ?s2) = Some dv2" by (simp add: put_ldev_def)
    have pn2: "dv_parent_dev dv2 = None" "dv_session_data dv2 = dv_session_data dv" using sa(2) pn1 by (simp_all add: same_core_def)
    have nm2: "dir \<noteq> None \<longrightarrow> named ?s2" using nm p(3) q(3) by simp
    have n2: "name_of ?s2 dev = dir" using n1 r0(2) q(4) by simp
    have eq: "init_new_device lg env scan bus addr dir dev s1 =
        (if r1 < 0 then Some (r1, ?s2) else linux_get_parent_info scan dev dir ?s2)"
      using dv(1) priv i(1) False an sa(1) st by (simp add: init_new_device_def flip: put_both_def)
    show ?thesis
    proof (cases "r1 < 0")
      case True
      with eq q g2 pn2 nm2 n2 show ?thesis by auto
    next
      case False
      have "\<exists>r s3 dv3. linux_get_parent_info scan dev dir ?s2 = Some (r, s3) \<and> r \<le> 0 \<and> lx_base be (add_mset dev ext) s3 \<and>
        extends {dev} s s3 \<and> (dir \<noteq> None \<longrightarrow> named s3) \<and> get_dev dev (lx_core s3) = Some dv3 \<and>
        dv_session_data dv3 = dv_session_data dv2 \<and> name_of s3 dev = dir"
        by (rule parent_info_ok [OF b q(2,1) nm2 g2 pn2(1) n2]) (rule scan)
      with False pn2(2) eq show ?thesis by auto
    qed
  qed
qed

lemma session_loop_ok:
  assumes "refs_ok be {} ext c" and "set ps \<subseteq> dom (co_devs c)"
  shows "session_loop sid ps c = Some (None, c) \<or> (\<exists>p c' dv. session_loop sid ps c = Some (Some p, c') \<and> p \<in> set ps \<and>
    get_dev p c = Some dv \<and> dv_session_data dv = sid \<and> refs_ok be {} (add_mset p ext) c' \<and> same_devs c c' \<and> co_heap c' = co_heap c)"
  using assms(2)
proof (induction ps)
  case (Cons p ps)
  then obtain dv where dv: "get_dev p c = Some dv" by (auto simp: get_dev_def)
  show ?case
  proof (cases "dv_session_data dv = sid")
    case True
    obtain c' where "libusb_ref_device p c = Some c'" "refs_ok be {} (add_mset p ext) c'" "same_devs c c'" "co_heap c' = co_heap c"
      by (rule ref_keeps [OF assms(1)]) (use Cons.prems in auto)
    with dv True show ?thesis by auto
  next
    case False
    with dv Cons show ?thesis by auto
  qed
qed simp

lemma alloc_hotplug:
  assumes hot: "has_hotplug be" and wf: "heap_wf (co_heap c)"
  shows "(\<exists>h. usbi_alloc_device be sid c = Some (None, set_heap h c) \<and> heap_wf h \<and> hp_live h = hp_live (co_heap c)) \<or>
    (\<exists>p h. usbi_alloc_device be sid c = Some (Some p, put_dev p (new_device sid) (set_heap h c)) \<and> p \<notin> hp_live (co_heap c) \<and>
       hp_live h = insert p (hp_live (co_heap c)) \<and> heap_wf h)"
proof (cases "c_malloc (co_heap c)")
  case (Pair q h)
  show ?thesis
  proof (cases q)
    case None
    with Pair ledger.alloc_None [OF wf, of h] show ?thesis by (auto simp: usbi_alloc_device_def)
  next
    case (Some p)
    with Pair ledger.alloc_Some [OF wf, of p h] have h: "p \<notin> hp_live (co_heap c)" "hp_live h = insert p (hp_live (co_heap c))" "heap_wf h" by auto
    show ?thesis
    proof (cases "be_mutex_init be = 0")
      case True
      with Pair Some hot have "usbi_alloc_device be sid c = Some (Some p, put_dev p (new_device sid) (set_heap h c))"
        by (simp add: usbi_alloc_device_def Let_def)
      with h show ?thesis by blast
    next
      case False
      have "p \<in> hp_live h" using h(2) by simp
      from ledger.release_live [OF h(3) this] obtain h1 where
        "c_release p h = Some h1" "hp_live h1 = hp_live h - {p}" "heap_wf h1" by blast
      moreover from this Pair Some False have "usbi_alloc_device be sid c = Some (None, set_heap h1 c)"
        by (simp add: usbi_alloc_device_def)
      moreover have "hp_live h - {p} = hp_live (co_heap c)" using h(1,2) by auto
      ultimately show ?thesis by metis
    qed
  qed
qed

lemma new_device_ok:
  fixes sid :: nat
  assumes b: "lx_base be ext s" and p: "p \<notin> hp_live (lx_heap s)" and h: "hp_live h = insert p (hp_live (lx_heap s))" "heap_wf h"
  defines "s1 \<equiv> \<lparr>lx_core = put_dev p (new_device sid) (set_heap h (lx_core s)), lx_priv = (lx_priv s)(p \<mapsto> new_priv)\<rparr>"
  shows "lx_base be (add_mset p ext) s1" and "extends {p} s s1" and "named s \<longrightarrow> named s1"
proof -
  note d = lx_baseD [OF b]
  have pd: "p \<notin> dom (co_devs (lx_core s))" using p d(8) by blast
  then have pl: "p \<notin> set (co_usb_devs (lx_core s))" using d(9) by blast
  have same: "same_at s s1 q" if "q \<noteq> p" for q using that by (simp add: same_at_def s1_def)
  have par: "parent_of (lx_core s1) p = None" by (simp add: parent_of_def s1_def new_device_def)
  have "topology s1"
  proof (rule topology_transfer [OF d(6) same])
    fix q assume "q \<noteq> p"
    show "parent_of (lx_core s) q \<noteq> Some p"
    proof
      assume q: "parent_of (lx_core s) q = Some p"
      then have "q \<in> dom (co_devs (lx_core s))" by (auto simp: parent_of_def get_dev_def split: option.splits)
      with q d(2) pd show False unfolding refs_ok_def by auto
    qed
  next
    fix p' dv assume "get_dev p (lx_core s1) = Some dv" "dv_parent_dev dv = Some p'"
    then have False using par by (simp add: parent_of_def)
    then show "\<exists>nm np. name_of s1 p = Some nm \<and> name_of s1 p' = Some np \<and> parent_path nm = Some (dv_port_number dv, np)" ..
  qed
  moreover have "dom (lx_priv s1) = dom (co_devs (lx_core s1))" using d(5) by (auto simp: s1_def)
  ultimately show "lx_base be (add_mset p ext) s1"
    using refs_ok_new [OF d(2) p d(1) h(2,1), of sid] d by (simp add: lx_base_def s1_def)
  have "co_usb_devs (lx_core s1) = [] @ co_usb_devs (lx_core s)" "dom (co_devs (lx_core s1)) = insert p (dom (co_devs (lx_core s)))"
    "lx_heap s1 = h" by (simp_all add: s1_def)
  moreover have "\<forall>q \<in> dom (co_devs (lx_core s)). same_at s s1 q" using same pd by metis
  ultimately show "extends {p} s s1"
    using p h(1) par unfolding extends_def by (intro exI [of _ "[]"]) (simp add: subset_insertI)
  have "name_of s1 q = name_of s q" if "q \<in> set (co_usb_devs (lx_core s))" for q
    using that pl same_at_parent(2) [OF same, of q] by blast
  then show "named s \<longrightarrow> named s1" by (simp add: named_def) (simp add: s1_def)
qed

text \<open>How deep the enumeration of parents goes.\<close>

definition enum_depth :: "string option \<Rightarrow> nat" where
  "enum_depth dir = (case dir of None \<Rightarrow> 1 | Some nm \<Rightarrow> if take 3 nm = ''usb'' then 1 else Suc (length nm))"

lemma strrchr_less: "strrchr ch s = Some i \<Longrightarrow> i < length s"
  by (cases "s = []") (auto simp: strrchr_def split: if_splits)

lemma parent_path_depth:
  assumes "take 3 nm \<noteq> ''usb''" and "parent_path nm = Some (port, np)"
  shows "enum_depth (Some np) < enum_depth (Some nm)"
proof -
  from assms(2) obtain pn where sp: "split_port nm = Some (port, pn)"
    and np: "np = (if CHR ''-'' \<in> set pn then pn else ''usb'' @ pn)"
    by (auto simp: parent_path_def)
  from sp obtain i where "i < length nm" "pn = take i nm"
    by (auto simp: split_port_def split: option.splits dest: strrchr_less)
  with np assms(1) show ?thesis by (auto simp: enum_depth_def)
qed

lemma enum_depth_pos [simp]: "0 < enum_depth dir"
  by (simp add: enum_depth_def split: option.split)

lemma enumerate_device_ok:
  assumes files: "device_file env file lg" and be: "le_backend env = be"
  shows "lx_base be ext s \<Longrightarrow> (dir \<noteq> None \<longrightarrow> named s) \<Longrightarrow> (lg_has_descriptors lg \<noteq> 0 \<longrightarrow> dir \<noteq> None) \<Longrightarrow> enum_depth dir \<le> n \<Longrightarrow>
    \<exists>r s'. linux_enumerate_device n lg env bus addr dir s = Some (r, s') \<and> r \<le> 0 \<and> lx_base be ext s' \<and> extends {} s s' \<and>
      (dir \<noteq> None \<longrightarrow> named s') \<and>
      (r = 0 \<longrightarrow> (\<exists>p dv. p \<in> set (co_usb_devs (lx_core s')) \<and> get_dev p (lx_core s') = Some dv \<and> dv_session_data dv = session_id bus addr))"
proof (induction n arbitrary: bus addr dir s ext)
  case 0
  then show ?case using enum_depth_pos [of dir] by simp
next
  case (Suc n)
  note b = Suc.prems(1) and nm = Suc.prems(2) and d = lx_baseD [OF Suc.prems(1)]
  let ?sid = "session_id bus addr"
  let ?c1 = "set_lock True (lx_core s)"
  have lk: "set_lock False ?c1 = lx_core s" using d(3) by simp
  have g1: "get_dev q ?c1 = get_dev q (lx_core s)" for q by (simp add: get_dev_def)
  have ok1: "refs_ok be {} ext ?c1" using d(1,2) by (simp add: refs_ok_lock)
  have "set (co_usb_devs ?c1) \<subseteq> dom (co_devs ?c1)" using d(9) by simp
  from session_loop_ok [OF ok1 this, of ?sid] show ?case
  proof (elim disjE exE conjE)
    fix p c' dv assume sl: "session_loop ?sid (co_usb_devs ?c1) ?c1 = Some (Some p, c')" "p \<in> set (co_usb_devs ?c1)"
      "get_dev p ?c1 = Some dv" "dv_session_data dv = ?sid" "refs_ok be {} (add_mset p ext) c'" "same_devs ?c1 c'" "co_heap c' = co_heap ?c1"
    let ?c2 = "set_lock False c'"
    have l': "co_usb_devs_lock c'" "co_usb_devs c' = co_usb_devs (lx_core s)" using sl(6) by (simp_all add: same_devs_def)
    have get: "usbi_get_device_by_session_id ?sid (lx_core s) = Some (Some p, ?c2)"
      using d(3) sl(1) l' by (simp add: usbi_get_device_by_session_id_def lock_usb_devs_def unlock_usb_devs_def)
    have ok2: "refs_ok be {} (add_mset p ext) ?c2" using sl(5) d(1) by (simp add: refs_ok_lock)
    have "0 < ref_count be {} ext ?c2 p" using sl(2) l'(2) d(1) by (simp add: ref_count_def listed_def)
    from unref_keeps [OF ok2 this] obtain c3 where
      c3: "libusb_unref_device be (Some p) ?c2 = Some c3" "refs_ok be {} ext c3" "same_devs ?c2 c3" "co_heap c3 = co_heap ?c2" by blast
    have sd: "same_devs (lx_core s) c3"
      using same_devs_trans [OF same_devs_lock [OF sl(6), of False, unfolded lk] c3(3)] .
    have dom: "dom (co_devs c3) = dom (co_devs (lx_core s))" by (rule same_devs_dom [OF sd])
    let ?s' = "\<lparr>lx_core = c3, lx_priv = op_destroy_device c3 (lx_priv s)\<rparr>"
    have pr: "op_destroy_device c3 (lx_priv s) = lx_priv s"
      unfolding op_destroy_device_def dom d(5) [symmetric] by (rule ext) (simp add: restrict_map_def domIff)
    have same: "same_at s ?s' q" for q using sd by (simp add: same_at_def same_devs_def pr)
    have u: "co_usb_devs c3 = co_usb_devs (lx_core s)" "\<exists>h. co_ev c3 = (co_ev (lx_core s))\<lparr>ed_heap := h\<rparr>"
      "co_usb_devs_lock c3 = co_usb_devs_lock (lx_core s)" using sd by (simp_all add: same_devs_def)
    have n: "name_of ?s' = name_of s" by (simp add: name_of_def pr fun_eq_iff)
    have "topology ?s'" unfolding topology_def n
    proof (intro allI impI)
      fix q p' dv' assume q: "get_dev q (lx_core ?s') = Some dv'" "dv_parent_dev dv' = Some p'"
      from same [of q] q(1) obtain dv0 where dv0: "get_dev q (lx_core s) = Some dv0" "uncounted dv' = uncounted dv0"
        by (cases "get_dev q (lx_core s)") (auto simp: same_at_def)
      with d(6) q(2) uncounted_fields [OF dv0(2)]
      show "\<exists>nm np. name_of s q = Some nm \<and> name_of s p' = Some np \<and> parent_path nm = Some (dv_port_number dv', np)"
        unfolding topology_def by metis
    qed
    then have "lx_base be ext ?s'" using c3(2) d u dom by (auto simp: lx_base_def pr)
    moreover have "extends {} s ?s'"
      using same u(1) dom c3(4) sl(7) by (auto simp: extends_def)
    moreover have "dir \<noteq> None \<longrightarrow> named ?s'" using nm unfolding named_def n by (simp add: u(1))
    moreover have "linux_enumerate_device (Suc n) lg env bus addr dir s = Some (LIBUSB_SUCCESS, ?s')"
      using get c3(1) be by (simp add: linux_unref_def)
    moreover have "\<exists>p dv. p \<in> set (co_usb_devs (lx_core ?s')) \<and> get_dev p (lx_core ?s') = Some dv \<and> dv_session_data dv = ?sid"
    proof -
      have "get_dev p (lx_core s) = Some dv" using sl(3) g1 by simp
      from same_at_dev [OF same this] obtain dv' where "get_dev p (lx_core ?s') = Some dv'" "uncounted dv' = uncounted dv" .
      with uncounted_fields(3) [of dv' dv] sl(2,4) u(1) show ?thesis by auto
    qed
    ultimately show ?thesis by auto
  next
    assume sl: "session_loop ?sid (co_usb_devs ?c1) ?c1 = Some (None, ?c1)"
    have get: "usbi_get_device_by_session_id ?sid (lx_core s) = Some (None, lx_core s)"
      using d(3) sl lk by (simp add: usbi_get_device_by_session_id_def lock_usb_devs_def unlock_usb_devs_def)
    show ?thesis
    proof (cases "\<exists>h. usbi_alloc_device be ?sid (lx_core s) = Some (None, set_heap h (lx_core s)) \<and> heap_wf h \<and> hp_live h = hp_live (lx_heap s)")
      case True
      then obtain h where h: "usbi_alloc_device be ?sid (lx_core s) = Some (None, set_heap h (lx_core s))" "heap_wf h"
        "hp_live h = hp_live (lx_heap s)" by blast
      have "extends {} s (set_lxheap h s)" using h(3) by (simp add: extends_def same_at_def)
      moreover have "lx_base be ext (set_lxheap h s)" using set_lxheap_ok [OF b h(2)] d(8) h(3) by simp
      moreover have "linux_enumerate_device (Suc n) lg env bus addr dir s = Some (LIBUSB_ERROR_NO_MEM, set_lxheap h s)"
        using get h(1) be by (simp add: set_lxheap_def)
      ultimately show ?thesis using nm by simp
    next
      case False
      then obtain p h where h: "usbi_alloc_device be ?sid (lx_core s) = Some (Some p, put_dev p (new_device ?sid) (set_heap h (lx_core s)))"
        "p \<notin> hp_live (lx_heap s)" "hp_live h = insert p (hp_live (lx_heap s))" "heap_wf h"
        using alloc_hotplug [OF d(1,7), of ?sid] by blast
      let ?s1 = "\<lparr>lx_core = put_dev p (new_device ?sid) (set_heap h (lx_core s)), lx_priv = (lx_priv s)(p \<mapsto> new_priv)\<rparr>"
      have b1: "lx_base be (add_mset p ext) ?s1" and e1: "extends {p} s ?s1" and n1: "named s \<longrightarrow> named ?s1"
        using new_device_ok [OF b h(2,3,4), of ?sid] by blast+
      let ?scan = "sysfs_scan_device lg env (linux_enumerate_device n lg env)"
      have g: "get_dev p (lx_core ?s1) = Some (new_device ?sid)" by simp
      have np: "dv_parent_dev (new_device ?sid) = None" by (simp add: new_device_def)
      have pv: "lx_priv ?s1 p = Some new_priv" by simp
      have nm1: "dir \<noteq> None \<longrightarrow> named ?s1" using nm n1 by simp
      have sc: "scan_ok be ?scan np'" if "dir = Some nm'" "take 3 nm' \<noteq> ''usb''" "parent_path nm' = Some (port, np')" for nm' port np'
        unfolding scan_ok_def
      proof (intro allI impI)
        fix X t assume t: "lx_base be X t" "named t"
        have dep: "enum_depth (Some np') \<le> n" using parent_path_depth [OF that(2,3)] Suc.prems(4) that(1) by simp
        obtain ret b0 d0 where ad: "linux_get_device_address lg env False None (Some np') = (ret, b0, d0)" by (rule prod_cases3)
        show "\<exists>r s'. ?scan np' t = Some (r, s') \<and> lx_base be X s' \<and> extends {} t s' \<and> named s'"
        proof (cases "ret = LIBUSB_SUCCESS")
          case False
          with ad t show ?thesis by (simp add: sysfs_scan_device_def)
        next
          case True
          with ad obtain b1 d1 where bd: "b0 = Some b1" "d0 = Some d1"
            by (auto simp: linux_get_device_address_def Let_def split: if_splits)
          have "\<exists>r s'. linux_enumerate_device n lg env b1 d1 (Some np') t = Some (r, s') \<and> lx_base be X s' \<and> extends {} t s' \<and> named s'"
            using Suc.IH [OF t(1), of "Some np'" b1 d1] t(2) dep by auto
          with ad True bd show ?thesis by (simp add: sysfs_scan_device_def)
        qed
      qed
      have "\<exists>r s2 dv2. init_new_device lg env ?scan bus addr dir p ?s1 = Some (r, s2) \<and> r \<le> 0 \<and> lx_base be (add_mset p ext) s2 \<and>
        extends {p} s s2 \<and> (dir \<noteq> None \<longrightarrow> named s2) \<and> get_dev p (lx_core s2) = Some dv2 \<and>
        dv_session_data dv2 = dv_session_data (new_device ?sid) \<and> (r = 0 \<longrightarrow> name_of s2 p = dir)"
        by (rule init_new_device_ok [OF b e1 b1 g np pv nm1 files Suc.prems(3)]) (rule sc)
      then obtain r s2 dv2 where s2: "init_new_device lg env ?scan bus addr dir p ?s1 = Some (r, s2)" "r \<le> 0"
        "lx_base be (add_mset p ext) s2" "extends {p} s s2" "dir \<noteq> None \<longrightarrow> named s2" "get_dev p (lx_core s2) = Some dv2"
        "dv_session_data dv2 = ?sid" "r = 0 \<longrightarrow> name_of s2 p = dir" by (auto simp: new_device_def)
      have eq: "linux_enumerate_device (Suc n) lg env bus addr dir s =
          do { s3 \<leftarrow> (if r < 0 then linux_unref be p s2 else on_lcore (usbi_connect_device be p) s2); Some (r, s3) }"
        using get h(1) be s2(1) by simp
      show ?thesis
      proof (cases "r < 0")
        case True
        from finish_unref [OF b s2(4,3)] obtain s3 where
          s3: "linux_unref be p s2 = Some s3" "lx_base be ext s3" "extends {} s s3" "named s2 \<longrightarrow> named s3" by blast
        have "linux_enumerate_device (Suc n) lg env bus addr dir s = Some (r, s3)"
          using True s3(1) by (simp only: eq if_True bind.bind_lunit)
        with s3 s2(2,5) True show ?thesis by auto
      next
        case False
        then have r0: "r = 0" using s2(2) by simp
        show ?thesis
        proof (cases "dir = None")
          case True
          have "\<exists>s3. on_lcore (usbi_connect_device be p) s2 = Some s3 \<and> lx_base be ext s3 \<and> extends {} s s3 \<and>
              p \<in> set (co_usb_devs (lx_core s3)) \<and> get_dev p (lx_core s3) = Some (dv2\<lparr>dv_attached := True\<rparr>)"
            using finish_connect_unnamed [OF b s2(4,3,6)] by blast
          then obtain s3 where s3: "on_lcore (usbi_connect_device be p) s2 = Some s3" "lx_base be ext s3" "extends {} s s3"
              "p \<in> set (co_usb_devs (lx_core s3))" "get_dev p (lx_core s3) = Some (dv2\<lparr>dv_attached := True\<rparr>)" by blast
          have "linux_enumerate_device (Suc n) lg env bus addr dir s = Some (0, s3)"
            using False s3(1) r0 by (simp only: eq if_False bind.bind_lunit)
          moreover have "dv_session_data (dv2\<lparr>dv_attached := True\<rparr>) = ?sid" using s2(7) by simp
          ultimately show ?thesis using s3 True by (metis order_refl)
        next
          case some: False
          with s2(5,8) r0 have "named s2 \<longrightarrow> name_of s2 p \<noteq> None" by simp
          from finish_connect [OF b s2(4,3) this s2(6)] obtain s3 where
            s3: "on_lcore (usbi_connect_device be p) s2 = Some s3" "lx_base be ext s3" "extends {} s s3" "named s2 \<longrightarrow> named s3"
              "p \<in> set (co_usb_devs (lx_core s3))" "get_dev p (lx_core s3) = Some (dv2\<lparr>dv_attached := True\<rparr>)" by blast
          have "linux_enumerate_device (Suc n) lg env bus addr dir s = Some (0, s3)"
            using False s3(1) r0 by (simp only: eq if_False bind.bind_lunit)
          moreover have "dv_session_data (dv2\<lparr>dv_attached := True\<rparr>) = ?sid" using s2(7) by simp
          ultimately show ?thesis using s3 s2(5) by (metis order_refl)
        qed
      qed
    qed
  qed
qed

end
