(* ===== verification/Linux_Device_Props.thy ===== *)
theory Linux_Device_Props
  imports Linux_Device_Enum
begin

text \<open>The properties of enumeration in the Linux backend, and an example: a hub with a device, and a new device behind it.\<close>

subsection \<open>An example\<close>

definition example_file :: "u8 option list" where
  "example_file = map Some ([18, 1] @ replicate 15 0 @ [1] @ [9, 2, 9, 0, 0, 1, 0, 0, 0])"

definition example_files :: device_files where
  "example_files = \<lparr>df_strdup = True, df_sysfs_fd = 5, df_usbfs_ro = (Inr 6, Inr 6),
     df_read = (\<lambda>off n. Some (take n (drop off example_file))), df_realloc = (\<lambda>_. True), df_usbfs_rw = (Inr 7, Inr 7), df_config = (0, 1)\<rparr>"

definition example_env :: linux_env where
  "example_env = \<lparr>le_backend = linux_backend, le_cpu = LittleEndian, le_files = (\<lambda>_ _ _. example_files), le_attr = (\<lambda>_ _. NoFile)\<rparr>"

definition example_lx :: linux_ctx where
  "example_lx = \<lparr>lx_core = hub_and_device,
     lx_priv = [0 \<mapsto> new_priv\<lparr>dp_sysfs_dir := Some ''usb1''\<rparr>, 1 \<mapsto> new_priv\<lparr>dp_sysfs_dir := Some ''1-3''\<rparr>]\<rparr>"

lemma example_name: "name_of example_lx q = (if q = 1 then Some ''1-3'' else if q = 0 then Some ''usb1'' else None)"
  by (simp add: name_of_def example_lx_def new_priv_def)

lemma example_path: "parent_path ''1-3'' = Some (3, ''usb1'')"
  by code_simp

lemma example_base: "lx_base linux_backend {#1#} example_lx"
proof -
  have "topology example_lx"
    using example_path by (auto simp: topology_def example_name) (auto simp: example_lx_def hub_get new_device_def split: if_splits)
  moreover have "dom (lx_priv example_lx) = dom (co_devs hub_and_device)" unfolding hub_dom by (auto simp: example_lx_def)
  moreover have "\<not> co_usb_devs_lock hub_and_device" "\<not> ed_lock (co_ev hub_and_device)" "lx_core example_lx = hub_and_device"
    by (simp_all add: hub_and_device_def event_data0_def example_lx_def)
  ultimately show ?thesis using hub_refs_ok linux_hotplug unfolding lx_base_def by simp
qed

lemma example_named: "named example_lx"
  by (simp add: named_def example_name) (simp add: example_lx_def hub_and_device_def)

lemma example_device_file: "device_file example_env (\<lambda>_ _ _. example_file) example_globals"
  by (auto simp: device_file_def files_ok_def example_env_def example_files_def example_file_def)

subsection \<open>Descriptors\<close>

text \<open>C33. Caching the descriptors of a device, from a file that \<open>read\<close> gives in pieces: the loop over growing buffers ends, and
  the initialisation either fails with an error code or has cached the whole file, of at least a device descriptor, with the
  holes of usbfs cleared, and set the device's numbers; nothing that the rest of the library set is touched.\<close>

theorem initialize_device_correct:
  assumes "device_file env file lg" and "lg_has_descriptors lg \<noteq> 0 \<longrightarrow> dir \<noteq> None" and "dp_sysfs_dir priv0 = None"
  shows "\<exists>r dv' priv'. initialize_device lg env b d dir dv priv0 = Some (r, dv', priv') \<and> same_core dv dv' \<and> r \<le> 0 \<and>
    (r = 0 \<longrightarrow> dp_sysfs_dir priv' = dir \<and> dp_descriptors priv' = file_bytes (file b d dir) \<and> 18 \<le> length (dp_descriptors priv') \<and>
       dv_bus_number dv' = b \<and> dv_device_address dv' = d)"
  by (rule initialize_device_total [OF assms])

theorem initialize_device_correct_witness:
  "\<exists>dv' priv'. initialize_device example_globals example_env 1 7 (Some ''1-3.2'') (new_device 263) new_priv = Some (0, dv', priv') \<and>
    dp_descriptors priv' = file_bytes example_file \<and> dv_device_address dv' = 7"
proof -
  have "\<exists>dv' priv'. initialize_device example_globals example_env 1 7 (Some ''1-3.2'') (new_device 263) new_priv = Some (0, dv', priv')"
    by (simp add: initialize_device_def example_globals_def example_env_def example_files_def new_priv_def open_sysfs_attr_def
        read_descriptors.simps [of _ _ 512] read_bytes_def those_all_Some example_file_def file_bytes_def read_sysfs_attr_def)
  moreover have "dp_sysfs_dir new_priv = None" by (simp add: new_priv_def)
  ultimately show ?thesis
    using initialize_device_correct [OF example_device_file, of "Some ''1-3.2''" new_priv 1 7 "new_device 263"] by auto
qed

subsection \<open>Enumeration\<close>

text \<open>C32. Enumerating a device of sysfs, with as much memory as there is: it ends, without a fault, after at most as many
  steps up the tree of hubs as its name has characters. Devices that were there are the same but for their
  reference counts, which stay exact; new devices are in front of the list, each with the parent and the port its
  name says, and after success the device is on the list.\<close>

theorem linux_enumerate_correct:
  assumes "device_file env file lg" and "lx_base (le_backend env) ext s" and "named s"
  shows "\<exists>r s'. linux_enumerate_device (Suc (length nm)) lg env bus addr (Some nm) s = Some (r, s') \<and> r \<le> 0 \<and>
    lx_base (le_backend env) ext s' \<and> named s' \<and> extends {} s s' \<and>
    (r = 0 \<longrightarrow> (\<exists>p dv. p \<in> set (co_usb_devs (lx_core s')) \<and> get_dev p (lx_core s') = Some dv \<and> dv_session_data dv = session_id bus addr))"
proof -
  have "enum_depth (Some nm) \<le> Suc (length nm)" by (simp add: enum_depth_def)
  with enumerate_device_ok [OF assms(1) refl assms(2), of "Some nm" "Suc (length nm)" bus addr] assms(3) show ?thesis by auto
qed

lemma example_env_simps [simp]: "le_backend example_env = linux_backend"
  by (simp add: example_env_def)

theorem linux_enumerate_correct_witness:
  "\<exists>r s'. linux_enumerate_device (Suc (length ''1-3.2'')) example_globals example_env 1 7 (Some ''1-3.2'') example_lx = Some (r, s') \<and> r \<le> 0 \<and>
    lx_base linux_backend {#1#} s' \<and> extends {} example_lx s'"
  using linux_enumerate_correct [OF example_device_file _ example_named, of "{#1#}" "''1-3.2''" 1 7, unfolded example_env_simps, OF example_base] by blast

end
