(* ===== verification/Linux_Scan_Props.thy ===== *)
theory Linux_Scan_Props
  imports Linux_Scan Linux_Device_Props
begin

text \<open>
  The start of the Linux backend and its scans: the version test is the lexicographic comparison, a scan ends and
  keeps the invariant of the devices, the monitor runs exactly while there are contexts; and the disconnection of a device.
\<close>

subsection \<open>Versions\<close>

text \<open>The numbers of a version, with 0 for those it does not have.\<close>

definition version_of :: "int list \<Rightarrow> int \<times> int \<times> int" where
  "version_of as = (as ! 0, if 1 < length as then as ! 1 else 0, if 2 < length as then as ! 2 else 0)"

definition version_le :: "int \<times> int \<times> int \<Rightarrow> int \<times> int \<times> int \<Rightarrow> bool" where
  "version_le v w \<longleftrightarrow> (case (v, w) of ((a, b, c), (x, y, z)) \<Rightarrow> a < x \<or> a = x \<and> (b < y \<or> b = y \<and> c \<le> z))"

lemma version_le_trans: "version_le u v \<Longrightarrow> version_le v w \<Longrightarrow> version_le u w"
  by (auto simp: version_le_def)

lemma length_scan_dotted: "length (scan_dotted n s) \<le> n"
  by (induction n arbitrary: s) (auto split: option.split list.split)

text \<open>\<open>kernel_version_ge\<close> is the lexicographic comparison of the release with the version it is given, with 0 for the
  numbers that the release does not have; -1 says that there is no release or that it does not begin with a number.\<close>

theorem kernel_version_ge_lex:
  assumes "0 \<le> minor" and "0 \<le> sublevel"
  shows "kernel_version_ge release major minor sublevel =
    (case release of None \<Rightarrow> -1 | Some rel \<Rightarrow>
       (let atoms = scan_dotted 3 (map of_char rel) in
        if atoms = [] then -1 else of_bool (version_le (major, minor, sublevel) (version_of atoms))))"
proof (cases release)
  case None
  then show ?thesis by (simp add: kernel_version_ge_def)
next
  case (Some rel)
  let ?as = "scan_dotted 3 (map of_char rel)"
  have len: "length ?as \<le> 3" by (rule length_scan_dotted)
  consider "?as = []" | a where "?as = [a]" | a b where "?as = [a, b]" | a b c where "?as = [a, b, c]"
  proof (cases ?as rule: remdups_adj.cases)
    case (3 a b as)
    with len that(3,4) show ?thesis by (cases as) auto
  qed (use that in auto)
  then show ?thesis
    using assms by cases (auto simp: kernel_version_ge_def Some version_of_def version_le_def Let_def)
qed

theorem kernel_version_ge_lex_witness:
  "kernel_version_ge (Some ''3.10'') 2 6 32 = 1 \<and> version_le (2, 6, 32) (version_of [3, 10])"
proof -
  have "scan_dotted 3 (map of_char ''3.10'') = [3, 10]" by code_simp
  with kernel_version_ge_lex [of 6 32 "Some ''3.10''" 2] show ?thesis by (simp add: version_le_def version_of_def)
qed

text \<open>A kernel with the descriptors in sysfs can also relate devices.\<close>

lemma known_flag_range: "old \<in> {-1, 0, 1} \<Longrightarrow> known_flag sys n old \<in> {-1, 0, 1}"
  by (auto simp: known_flag_def kernel_version_ge_def split: option.split list.split)

lemma version_26_22: "kernel_version_ge rel 2 6 26 = 1 \<Longrightarrow> kernel_version_ge rel 2 6 22 = 1"
  by (auto simp: kernel_version_ge_lex Let_def version_le_def split: option.splits if_splits prod.splits)

subsection \<open>Scanning\<close>

text \<open>What a scan with these flags needs of the names.\<close>

definition scan_names :: "linux_globals \<Rightarrow> linux_ctx \<Rightarrow> bool" where
  "scan_names lg s \<longleftrightarrow> (lg_can_relate_devices lg \<noteq> 0 \<longrightarrow> named s) \<and> (lg_has_descriptors lg \<noteq> 0 \<longrightarrow> lg_can_relate_devices lg \<noteq> 0)"

definition scanned :: "linux_globals \<Rightarrow> core_backend \<Rightarrow> ptr multiset \<Rightarrow> linux_ctx \<Rightarrow> linux_ctx \<Rightarrow> bool" where
  "scanned lg be ext s s' \<longleftrightarrow> lx_base be ext s' \<and> scan_names lg s' \<and> extends {} s s'"

lemma scanned_refl: "lx_base be ext s \<Longrightarrow> scan_names lg s \<Longrightarrow> scanned lg be ext s s"
  by (simp add: scanned_def)

lemma scanned_trans: "scanned lg be ext s s1 \<Longrightarrow> scanned lg be ext s1 s2 \<Longrightarrow> scanned lg be ext s s2"
  unfolding scanned_def using extends_trans by blast

lemma enum_dev_ok:
  assumes files: "device_file env file lg" and b: "lx_base (le_backend env) ext s" and nm: "scan_names lg s"
    and dir: "lg_can_relate_devices lg \<noteq> 0 \<longleftrightarrow> dir \<noteq> None"
  shows "\<exists>r s'. enum_dev lg env bus addr dir s = Some (r, s') \<and> r \<le> 0 \<and> scanned lg (le_backend env) ext s s'"
proof -
  have "enum_depth dir \<le> (case dir of None \<Rightarrow> 1 | Some nm \<Rightarrow> Suc (length nm))" by (simp add: enum_depth_def split: option.split)
  with enumerate_device_ok [OF files refl b, of dir _ bus addr] nm dir show ?thesis
    by (fastforce simp: enum_dev_def scanned_def scan_names_def)
qed

lemma sysfs_scan_ok:
  assumes files: "device_file env file lg" and b: "lx_base (le_backend env) ext s" and nm: "scan_names lg s"
    and can: "lg_can_relate_devices lg \<noteq> 0"
  shows "\<exists>r s'. sysfs_scan_device lg env (enum_dev lg env) e s = Some (r, s') \<and> r \<le> 0 \<and> scanned lg (le_backend env) ext s s'"
proof -
  obtain ret b0 d0 where ad: "linux_get_device_address lg env False None (Some e) = (ret, b0, d0)" by (rule prod_cases3)
  show ?thesis
  proof (cases "ret = LIBUSB_SUCCESS")
    case False
    then have "ret \<le> 0" using ad can by (auto simp: linux_get_device_address_def Let_def split: if_splits)
    with False ad scanned_refl [OF b nm] show ?thesis by (auto simp: sysfs_scan_device_def)
  next
    case True
    then obtain bus addr where "b0 = Some bus" "d0 = Some addr"
      using ad can by (auto simp: linux_get_device_address_def Let_def split: if_splits)
    with ad True enum_dev_ok [OF files b nm, of "Some e" bus addr] can show ?thesis by (simp add: sysfs_scan_device_def)
  qed
qed

lemma sysfs_loop_ok:
  assumes files: "device_file env file lg" and can: "lg_can_relate_devices lg \<noteq> 0"
  shows "lx_base (le_backend env) ext s \<Longrightarrow> scan_names lg s \<Longrightarrow> r \<le> 0 \<Longrightarrow>
    \<exists>r' s'. sysfs_loop lg env es r s = Some (r', s') \<and> r' \<le> 0 \<and> scanned lg (le_backend env) ext s s'"
proof (induction es arbitrary: r s)
  case Nil
  then show ?case by (simp add: scanned_refl)
next
  case (Cons e es)
  show ?case
  proof (cases "skip_entry e")
    case True
    with Cons show ?thesis by simp
  next
    case False
    from sysfs_scan_ok [OF files Cons.prems(1,2) can, of e] obtain x s1 where
      x: "sysfs_scan_device lg env (enum_dev lg env) e s = Some (x, s1)" "scanned lg (le_backend env) ext s s1" by blast
    from x(2) have "lx_base (le_backend env) ext s1" "scan_names lg s1" by (simp_all add: scanned_def)
    from Cons.IH [OF this, of "if x \<noteq> 0 then r else 0"] Cons.prems(3) x scanned_trans [OF x(2)] False show ?thesis by auto
  qed
qed

lemma busdir_loop_ok:
  assumes files: "device_file env file lg" and can: "lg_can_relate_devices lg = 0"
  shows "lx_base (le_backend env) ext s \<Longrightarrow> scan_names lg s \<Longrightarrow> r \<le> 0 \<Longrightarrow>
    \<exists>r' s'. busdir_loop lg env bus es r s = Some (r', s') \<and> r' \<le> 0 \<and> scanned lg (le_backend env) ext s s'"
proof (induction es arbitrary: r s)
  case Nil
  then show ?case by (simp add: scanned_refl)
next
  case (Cons e es)
  show ?case
  proof (cases "take 1 e = ''.'' \<or> atoi e = 0")
    case True
    with Cons show ?thesis by (auto simp: Let_def)
  next
    case False
    from enum_dev_ok [OF files Cons.prems(1,2), of None bus "word_of_int (atoi e)"] can obtain x s1 where
      x: "enum_dev lg env bus (word_of_int (atoi e)) None s = Some (x, s1)" "scanned lg (le_backend env) ext s s1" by blast
    from x(2) have "lx_base (le_backend env) ext s1" "scan_names lg s1" by (simp_all add: scanned_def)
    from Cons.IH [OF this, of "if x \<noteq> 0 then r else 0"] Cons.prems(3) x scanned_trans [OF x(2)] False show ?thesis by (auto simp: Let_def)
  qed
qed

lemma usbfs_loop_ok:
  assumes files: "device_file env file lg" and can: "lg_can_relate_devices lg = 0"
  shows "lx_base (le_backend env) ext s \<Longrightarrow> scan_names lg s \<Longrightarrow> r \<le> 0 \<Longrightarrow>
    \<exists>r' s'. usbfs_loop sys lg env path es r s = Some (r', s') \<and> r' \<le> 0 \<and> scanned lg (le_backend env) ext s s'"
proof (induction es arbitrary: r s)
  case Nil
  then show ?case by (simp add: scanned_refl)
next
  case (Cons e es)
  note b = Cons.prems(1,2)
  have step: "\<exists>r' s'. f = Some (r', s') \<and> r' \<le> 0 \<and> scanned lg (le_backend env) ext s s'"
    if "\<exists>x s1. g = Some (x, s1) \<and> x \<le> 0 \<and> scanned lg (le_backend env) ext s s1"
      and "\<And>x s1. g = Some (x, s1) \<Longrightarrow> f = Some (x, s1) \<or> f = usbfs_loop sys lg env path es x s1" for f g
  proof -
    from that(1) obtain x s1 where x: "g = Some (x, s1)" "x \<le> 0" "scanned lg (le_backend env) ext s s1" by blast
    from x(3) have "lx_base (le_backend env) ext s1" "scan_names lg s1" by (simp_all add: scanned_def)
    from Cons.IH [OF this x(2)] that(2) [OF x(1)] x scanned_trans [OF x(3)] show ?thesis by metis
  qed
  consider (skip) "take 1 e = ''.''" | (name) "take 1 e \<noteq> ''.''" "lg_usbdev_names lg \<noteq> 0" | (bus) "take 1 e \<noteq> ''.''" "lg_usbdev_names lg = 0"
    by blast
  then show ?case
  proof cases
    case skip
    with Cons show ?thesis by simp
  next
    case name
    show ?thesis
    proof (cases "is_usbdev_entry e")
      case None
      with Cons name show ?thesis by simp
    next
      case (Some p)
      then obtain bus addr where p: "is_usbdev_entry e = Some (bus, addr)" by (cases p) auto
      show ?thesis
        by (rule step, rule enum_dev_ok [OF files b, of None "word_of_int bus" "word_of_int addr"]) (use can name p in auto)
    qed
  next
    case bus
    show ?thesis
    proof (cases "atoi e = 0")
      case True
      with Cons bus show ?thesis by simp
    next
      case False
      have "\<exists>x s1. usbfs_scan_busdir sys lg env path (word_of_int (atoi e)) s = Some (x, s1) \<and> x \<le> 0 \<and> scanned lg (le_backend env) ext s s1"
        using busdir_loop_ok [OF files can b, of LIBUSB_ERROR_IO] scanned_refl [OF b] by (auto simp: usbfs_scan_busdir_def split: option.split)
      then show ?thesis by (rule step) (use bus False in \<open>auto simp: Let_def\<close>)
    qed
  qed
qed

lemma default_scan_ok:
  assumes "device_file env file lg" and "lx_base (le_backend env) ext s" and "scan_names lg s"
  shows "\<exists>r s'. linux_default_scan_devices sys lg env path s = Some (r, s') \<and> r \<le> 0 \<and> scanned lg (le_backend env) ext s s'"
proof (cases "lg_can_relate_devices lg = 0")
  case True
  with usbfs_loop_ok [OF assms(1) True assms(2,3), of 0] scanned_refl [OF assms(2,3)] show ?thesis
    by (auto simp: linux_default_scan_devices_def usbfs_get_device_list_def split: option.split)
next
  case False
  with sysfs_loop_ok [OF assms(1) False assms(2,3), of LIBUSB_ERROR_IO] scanned_refl [OF assms(2,3)] show ?thesis
    by (auto simp: linux_default_scan_devices_def sysfs_get_device_list_def split: option.split)
qed

subsection \<open>Start and end\<close>

definition globals_ok :: "string option \<Rightarrow> linux_globals \<Rightarrow> bool" where
  "globals_ok rel lg \<longleftrightarrow> lg_has_descriptors lg \<in> {-1, 0, 1} \<and> lg_can_relate_devices lg \<in> {-1, 0, 1} \<and>
     (lg_has_descriptors lg = 1 \<longrightarrow> lg_can_relate_devices lg \<noteq> 0 \<and> kernel_version_ge rel 2 6 26 = 1) \<and>
     (lg_can_relate_devices lg \<noteq> -1 \<longrightarrow> lg_has_descriptors lg \<noteq> -1)"

text \<open>The monitor runs exactly while there are contexts.\<close>

definition monitor_ok :: "linux_globals \<Rightarrow> bool" where
  "monitor_ok lg \<longleftrightarrow> 0 \<le> lg_init_count lg \<and> (lg_monitor lg \<longleftrightarrow> 0 < lg_init_count lg)"

lemma version_ge_cases: "kernel_version_ge rel a b c \<in> {-1, 0, 1}"
  by (auto simp: kernel_version_ge_def split: option.split list.split)

lemma init_flags_cases:
  assumes "init_flags sys lg = (known, lg')"
  shows "lg_init_count lg' = lg_init_count lg \<and> lg_monitor lg' = lg_monitor lg \<and>
    (let h = known_flag sys 26 (lg_has_descriptors lg); c = known_flag sys 22 (lg_can_relate_devices lg);
         h' = lg_has_descriptors lg'; c' = lg_can_relate_devices lg' in
     \<not> known \<and> h' = lg_has_descriptors lg \<and> c' = lg_can_relate_devices lg \<or>
     h \<noteq> -1 \<and> c = -1 \<and> h' = h \<and> c' = lg_can_relate_devices lg \<and> \<not> known \<or>
     h \<noteq> -1 \<and> c \<noteq> -1 \<and> (h' = h \<and> c' = c \<or> h' = 0 \<and> c' = 0))"
  using assms unfolding init_flags_def Let_def by (simp split: if_splits) auto

lemma init_flags_ok:
  assumes "globals_ok (ls_release sys) lg" and "init_flags sys lg = (known, lg')"
  shows "globals_ok (ls_release sys) lg'" and "lg_init_count lg' = lg_init_count lg" and "lg_monitor lg' = lg_monitor lg"
    and "known \<Longrightarrow> lg_has_descriptors lg' \<noteq> 0 \<Longrightarrow> lg_can_relate_devices lg' \<noteq> 0"
proof -
  let ?h = "known_flag sys 26 (lg_has_descriptors lg)" and ?c = "known_flag sys 22 (lg_can_relate_devices lg)"
  note g = assms(1) [unfolded globals_ok_def]
  have r: "?h \<in> {-1, 0, 1}" "?c \<in> {-1, 0, 1}" using g known_flag_range by blast+
  have hc: "?h = 1 \<Longrightarrow> ?c \<noteq> 0 \<and> kernel_version_ge (ls_release sys) 2 6 26 = 1"
    using g version_26_22 [of "ls_release sys"] by (auto simp: known_flag_def split: if_splits)
  note c = init_flags_cases [OF assms(2), unfolded Let_def]
  from c show "lg_init_count lg' = lg_init_count lg" and "lg_monitor lg' = lg_monitor lg" by blast+
  from c show "globals_ok (ls_release sys) lg'"
  proof (elim conjE disjE)
    assume "lg_has_descriptors lg' = lg_has_descriptors lg" "lg_can_relate_devices lg' = lg_can_relate_devices lg"
    with g show ?thesis by (simp add: globals_ok_def)
  next
    assume h: "?h \<noteq> -1" "?c = -1" "lg_has_descriptors lg' = ?h" "lg_can_relate_devices lg' = lg_can_relate_devices lg"
    then have "lg_can_relate_devices lg = -1" by (simp add: known_flag_def split: if_splits)
    with h r hc show ?thesis by (simp add: globals_ok_def)
  next
    assume "?h \<noteq> -1" "lg_has_descriptors lg' = ?h" "lg_can_relate_devices lg' = ?c"
    with r hc show ?thesis by (simp add: globals_ok_def)
  next
    assume "lg_has_descriptors lg' = 0" "lg_can_relate_devices lg' = 0"
    then show ?thesis by (simp add: globals_ok_def)
  qed
  from c r hc show "known \<Longrightarrow> lg_has_descriptors lg' \<noteq> 0 \<Longrightarrow> lg_can_relate_devices lg' \<noteq> 0" by (elim conjE disjE) auto
qed

definition free_static :: "linux_static \<Rightarrow> bool" where
  "free_static st \<longleftrightarrow> \<not> st_startstop_lock st \<and> \<not> st_hotplug_lock st"

lemma start_backend_ok:
  assumes files: "device_file env file (st_lg st)" and b: "lx_base (le_backend env) ext s" and nm: "scan_names (st_lg st) s"
    and mon: "monitor_ok (st_lg st)" "free_static st" and start: "ls_start_monitor sys \<le> 0"
  shows "\<exists>r st' s'. start_backend sys env path st s = Some (r, st', s') \<and> r \<le> 0 \<and> monitor_ok (st_lg st') \<and> free_static st' \<and>
    lg_init_count (st_lg st') = lg_init_count (st_lg st) + (if r = 0 then 1 else 0) \<and>
    (globals_ok rel (st_lg st') \<longleftrightarrow> globals_ok rel (st_lg st)) \<and> lx_base (le_backend env) ext s' \<and> extends {} s s'"
proof -
  let ?st1 = "st\<lparr>st_startstop_lock := True\<rparr>"
  obtain r st2 where start1: "(if lg_init_count (st_lg ?st1) = 0 then linux_start_event_monitor sys ?st1 else (LIBUSB_SUCCESS, ?st1)) = (r, st2)"
    by (rule prod.exhaust)
  have s2: "r \<le> 0" "st_startstop_lock st2" "\<not> st_hotplug_lock st2" "lg_init_count (st_lg st2) = lg_init_count (st_lg st)"
    "lg_has_descriptors (st_lg st2) = lg_has_descriptors (st_lg st)" "lg_can_relate_devices (st_lg st2) = lg_can_relate_devices (st_lg st)"
    "lg_monitor (st_lg st2) \<longleftrightarrow> r = 0 \<or> 0 < lg_init_count (st_lg st)" "r \<noteq> 0 \<Longrightarrow> lg_init_count (st_lg st) = 0"
    using start1 start mon by (auto simp: linux_start_event_monitor_def set_lg_def monitor_ok_def free_static_def split: if_splits)
  have f2: "device_file env file (st_lg st2)" using files s2(5) by (simp add: device_file_def files_ok_def)
  have n2: "scan_names (st_lg st2) s" using nm s2(5,6) by (simp add: scan_names_def)
  from default_scan_ok [OF f2 b n2, of sys path] obtain r2 s1 where
    sc: "linux_default_scan_devices sys (st_lg st2) env path s = Some (r2, s1)" "r2 \<le> 0" "scanned (st_lg st2) (le_backend env) ext s s1" by blast
  have lk: "lock_startstop st = Some ?st1" using mon(2) by (simp add: lock_startstop_def free_static_def)
  show ?thesis
  proof (cases "r = 0")
    case False
    then have "start_backend sys env path st s = Some (r, st2\<lparr>st_startstop_lock := False\<rparr>, s)"
      using lk start1 s2(2) by (simp add: start_backend_def unlock_startstop_def)
    with False s2 b mon show ?thesis by (auto simp: monitor_ok_def free_static_def globals_ok_def)
  next
    case True
    let ?st3 = "if r2 = LIBUSB_SUCCESS then set_lg (lg_init_count_update (\<lambda>n. n + 1)) st2
            else if lg_init_count (st_lg st2) = 0 then linux_stop_event_monitor st2 else st2"
    have st3: "st_startstop_lock ?st3" "\<not> st_hotplug_lock ?st3" "lg_init_count (st_lg ?st3) = lg_init_count (st_lg st) + (if r2 = 0 then 1 else 0)"
      "lg_has_descriptors (st_lg ?st3) = lg_has_descriptors (st_lg st)" "lg_can_relate_devices (st_lg ?st3) = lg_can_relate_devices (st_lg st)"
      "lg_monitor (st_lg ?st3) \<longleftrightarrow> r2 = 0 \<or> 0 < lg_init_count (st_lg st)"
      using s2 True mon(1) by (auto simp: set_lg_def linux_stop_event_monitor_def monitor_ok_def)
    have "start_backend sys env path st s = Some (r2, ?st3\<lparr>st_startstop_lock := False\<rparr>, s1)"
      using lk start1 True s2(3) sc(1) st3(1) by (simp add: start_backend_def unlock_startstop_def linux_scan_devices_def)
    moreover have "monitor_ok (st_lg ?st3)" using st3(3,6) mon(1) by (auto simp: monitor_ok_def)
    moreover have "globals_ok rel (st_lg ?st3) \<longleftrightarrow> globals_ok rel (st_lg st)" by (simp add: globals_ok_def st3(4,5))
    moreover have "free_static (?st3\<lparr>st_startstop_lock := False\<rparr>)" using st3(2) by (simp add: free_static_def)
    ultimately show ?thesis using sc(2,3) st3(3) by (intro exI [of _ r2] exI [of _ "?st3\<lparr>st_startstop_lock := False\<rparr>"] exI [of _ s1])
      (simp add: scanned_def)
  qed
qed

lemma op_init_ok:
  assumes files: "\<forall>lg. device_file env file lg" and b: "lx_base (le_backend env) ext s" and nm: "named s"
    and glob: "globals_ok (ls_release sys) (st_lg st)" and mon: "monitor_ok (st_lg st)" "free_static st" and start: "ls_start_monitor sys \<le> 0"
  shows "\<exists>r st' s'. op_init udev sys env st s = Some (r, st', s') \<and> r \<le> 0 \<and>
    lx_base (le_backend env) ext s' \<and> extends {} s s' \<and>
    globals_ok (ls_release sys) (st_lg st') \<and> monitor_ok (st_lg st') \<and> free_static st' \<and>
    lg_init_count (st_lg st') = lg_init_count (st_lg st) + (if r = 0 then 1 else 0) \<and>
    (r = 0 \<longrightarrow> (\<exists>st''. op_exit st' = Some st'' \<and> monitor_ok (st_lg st'') \<and> free_static st'' \<and>
       lg_init_count (st_lg st'') = lg_init_count (st_lg st)))"
proof -
  obtain path names where path: "find_usbfs_path udev sys = (path, names)" by fastforce
  let ?st1 = "st\<lparr>st_usbfs_path := path, st_lg := (if names then (st_lg st)\<lparr>lg_usbdev_names := 1\<rparr> else st_lg st)\<rparr>"
  let ?st2 = "if st_monotonic_clkid ?st1 = -1 then ?st1\<lparr>st_monotonic_clkid := find_monotonic_clock sys\<rparr> else ?st1"
  have g2: "globals_ok (ls_release sys) (st_lg ?st2)" "lg_init_count (st_lg ?st2) = lg_init_count (st_lg st)"
    "lg_monitor (st_lg ?st2) = lg_monitor (st_lg st)" "free_static ?st1" "free_static ?st2"
    using glob mon(2) by (simp_all add: globals_ok_def free_static_def)
  obtain known lg where fl: "init_flags sys (st_lg ?st2) = (known, lg)" by fastforce
  note ig = init_flags_ok [OF g2(1) fl]
  let ?st3 = "?st2\<lparr>st_lg := lg\<rparr>"
  have m3: "monitor_ok lg" "free_static ?st3" "lg_init_count lg = lg_init_count (st_lg st)"
    using mon(1) g2 ig(2,3) by (simp_all add: monitor_ok_def free_static_def)
  have base: "extends {} s s" by simp
  show ?thesis
  proof (cases path)
    case None
    then have "op_init udev sys env st s = Some (LIBUSB_ERROR_OTHER, ?st1, s)" by (simp add: op_init_def path Let_def)
    moreover have "monitor_ok (st_lg ?st1)" "globals_ok (ls_release sys) (st_lg ?st1)" "lg_init_count (st_lg ?st1) = lg_init_count (st_lg st)"
      using mon glob by (simp_all add: monitor_ok_def globals_ok_def)
    ultimately show ?thesis using b base g2(4) by (intro exI [of _ LIBUSB_ERROR_OTHER] exI [of _ ?st1] exI [of _ s]) simp
  next
    case (Some p)
    have run: "op_init udev sys env st s = (if \<not> known then Some (LIBUSB_ERROR_OTHER, ?st3, s) else start_backend sys env p ?st3 s)"
      unfolding op_init_def path Let_def prod.case fl by (simp add: Some)
    show ?thesis
    proof (cases known)
      case False
      then show ?thesis using run b base m3 ig(1)
        by (intro exI [of _ LIBUSB_ERROR_OTHER] exI [of _ ?st3] exI [of _ s]) simp
    next
      case True
      have sn: "scan_names (st_lg ?st3) s" using nm ig(4) [OF True] by (simp add: scan_names_def)
      have f3: "device_file env file (st_lg ?st3)" using files by blast
      have m4: "monitor_ok (st_lg ?st3)" using m3(1) by simp
      from start_backend_ok [OF f3 b sn m4 m3(2) start, where path = p and rel = "ls_release sys"] m3(3) ig(1) obtain r st' s' where
        sb: "start_backend sys env p ?st3 s = Some (r, st', s')" "r \<le> 0" "monitor_ok (st_lg st')" "free_static st'"
          "lg_init_count (st_lg st') = lg_init_count (st_lg st) + (if r = 0 then 1 else 0)"
          "globals_ok (ls_release sys) (st_lg st')" "lx_base (le_backend env) ext s'" "extends {} s s'" by auto
      have "\<exists>st''. op_exit st' = Some st'' \<and> monitor_ok (st_lg st'') \<and> free_static st'' \<and>
          lg_init_count (st_lg st'') = lg_init_count (st_lg st)" if "r = 0"
      proof -
        have "0 < lg_init_count (st_lg st')" using sb(5) that mon(1) by (simp add: monitor_ok_def)
        with sb(3,4,5) that show ?thesis
          by (auto simp: op_exit_def lock_startstop_def unlock_startstop_def free_static_def set_lg_def linux_stop_event_monitor_def
              monitor_ok_def Let_def)
      qed
      with run True sb show ?thesis by (intro exI [of _ r] exI [of _ st'] exI [of _ s']) simp
    qed
  qed
qed


subsection \<open>Disconnection\<close>

text \<open>A device leaves the list, and with it the reference of the list; the message about it has that reference from now on.\<close>

lemma refs_ok_list_del:
  assumes ok: "refs_ok be {} ext c" and hot: "has_hotplug be" and p: "p \<in> set (co_usb_devs c)"
  shows "refs_ok be {} (add_mset p ext) (c\<lparr>co_usb_devs := remove1 p (co_usb_devs c)\<rparr>)" (is "refs_ok be {} ?ext ?c")
proof -
  have st: "store_ok be c" using ok by (rule refs_ok_store)
  have dist: "distinct (co_usb_devs c)" "set (co_usb_devs c) \<subseteq> dom (co_devs c)" using st hot by (simp_all add: store_ok_def)
  have g: "get_dev q ?c = get_dev q c" for q by (simp add: get_dev_def)
  have par: "parent_of ?c = parent_of c" by (simp add: parent_of_def g fun_eq_iff)
  have count: "ref_count be {} ?ext ?c q = ref_count be {} ext c q" for q
    using hot p dist(1) by (auto simp: ref_count_def listed_def children_def par)
  have "store_ok be ?c" using st hot dist by (auto simp: store_ok_def g)
  moreover have "set_mset ?ext \<subseteq> dom (co_devs ?c)" using refs_ok_ext [OF ok] p dist(2) by auto
  ultimately show ?thesis using ok unfolding refs_ok_def count par g by auto
qed

definition left_message :: "ptr \<Rightarrow> event_data \<Rightarrow> event_data \<Rightarrow> bool" where
  "left_message p d d' \<longleftrightarrow> (ed_hotplug_ready d \<and> fst (c_malloc (ed_heap d)) \<noteq> None \<longrightarrow>
     (\<exists>blk. ed_hotplug_msgs d' = ed_hotplug_msgs d @ [\<lparr>hm_block = blk, hm_event = LIBUSB_HOTPLUG_EVENT_DEVICE_LEFT, hm_device = Some p\<rparr>]))"

lemma signal_unless_msgs [simp]: "ed_hotplug_msgs (signal_unless b d) = ed_hotplug_msgs d"
  by (simp add: signal_unless_def usbi_signal_event_def)

lemma notification_message:
  assumes "usbi_hotplug_notification dev event d = Some d'" and "fst (c_malloc (ed_heap d)) \<noteq> None"
  shows "\<exists>blk. ed_hotplug_msgs d' = ed_hotplug_msgs d @ [\<lparr>hm_block = blk, hm_event = event, hm_device = dev\<rparr>]"
  using assms by (auto simp: usbi_hotplug_notification_def lock_event_data_def unlock_event_data_def Let_def
      split: prod.splits option.splits if_splits)

lemma disconnect_ok:
  assumes hot: "has_hotplug be" and ok: "refs_ok be {} ext c" and lk: "\<not> co_usb_devs_lock c" "\<not> ed_lock (co_ev c)"
    and p: "p \<in> set (co_usb_devs c)" and dv: "get_dev p c = Some dv"
  obtains c' where "usbi_disconnect_device be p c = Some c'" and "refs_ok be {} (add_mset p ext) c'"
    and "co_usb_devs c' = remove1 p (co_usb_devs c)" and "\<not> co_usb_devs_lock c'" and "\<not> ed_lock (co_ev c')"
    and "co_devs c' = (co_devs c)(p \<mapsto> dv\<lparr>dv_attached := False\<rparr>)" and "hp_live (co_heap c) \<subseteq> hp_live (co_heap c')"
    and "left_message p (co_ev c) (co_ev c')"
proof -
  let ?c1 = "put_dev p (dv\<lparr>dv_attached := False\<rparr>) c"
  let ?c2 = "?c1\<lparr>co_usb_devs := remove1 p (co_usb_devs c)\<rparr>"
  note rd = refs_okD [OF ok dv]
  have ok1: "refs_ok be {} ext ?c1" by (rule refs_ok_put [OF ok dv]) (use rd in simp_all)
  have ok2: "refs_ok be {} (add_mset p ext) ?c2" using refs_ok_list_del [OF ok1 hot] p by simp
  have st: "set_lock False ?c2 = ?c2" using lk(1) by (simp add: put_dev_def)
  have co: "usbi_disconnect_device be p c = (if ed_hotplug_ready (co_ev ?c2)
      then core_notification (Some p) LIBUSB_HOTPLUG_EVENT_DEVICE_LEFT ?c2 else Some ?c2)"
    using lk(1) hot with_dev_eq [OF dv rd(1), of "\<lambda>dv. dv\<lparr>dv_attached := False\<rparr>"] p
    by (simp add: usbi_disconnect_device_def lock_usb_devs_def unlock_usb_devs_def usb_devs_del_def st)
  show ?thesis
  proof (cases "ed_hotplug_ready (co_ev ?c2)")
    case False
    show ?thesis by (rule that [of ?c2]) (use False co ok2 lk in \<open>simp_all add: put_dev_def left_message_def\<close>)
  next
    case True
    have st2: "heap_wf (co_heap ?c2)" "dom (co_devs ?c2) \<subseteq> hp_live (co_heap ?c2)"
      using refs_ok_store [OF ok2] by (simp_all add: store_ok_def)
    obtain d' where d': "usbi_hotplug_notification (Some p) LIBUSB_HOTPLUG_EVENT_DEVICE_LEFT (co_ev ?c2) = Some d'"
      "\<not> ed_lock d'" "heap_wf (ed_heap d')" "hp_live (co_heap ?c2) \<subseteq> hp_live (ed_heap d')"
      using hotplug_notification_ok [of "co_ev ?c2" "Some p" LIBUSB_HOTPLUG_EVENT_DEVICE_LEFT] lk(2) st2(1) by auto
    have "refs_ok be {} (add_mset p ext) (?c2\<lparr>co_ev := d'\<rparr>)"
      by (rule refs_ok_event_data [OF ok2 d'(3)]) (use st2(2) d'(4) in blast)
    moreover have "usbi_disconnect_device be p c = Some (?c2\<lparr>co_ev := d'\<rparr>)"
      unfolding co using True d'(1) by (simp add: core_notification_def)
    moreover have "left_message p (co_ev c) d'" using notification_message [OF d'(1)] by (simp add: left_message_def)
    ultimately show ?thesis
      using that [of "?c2\<lparr>co_ev := d'\<rparr>"] d' lk by (simp add: put_dev_def)
  qed
qed

lemma disconnect_session_ok:
  assumes b: "lx_base be ext s"
  shows "if \<exists>p dv. p \<in> set (co_usb_devs (lx_core s)) \<and> get_dev p (lx_core s) = Some dv \<and> dv_session_data dv = sid
    then \<exists>p dv s'. disconnect_session be sid s = Some s' \<and> p \<in> set (co_usb_devs (lx_core s)) \<and>
      get_dev p (lx_core s) = Some dv \<and> dv_session_data dv = sid \<and>
      lx_base be (add_mset p ext) s' \<and> co_usb_devs (lx_core s') = remove1 p (co_usb_devs (lx_core s)) \<and>
      dom (co_devs (lx_core s')) = dom (co_devs (lx_core s)) \<and> (\<forall>q. q \<noteq> p \<longrightarrow> same_at s s' q) \<and>
      map_option uncounted (get_dev p (lx_core s')) = Some (uncounted (dv\<lparr>dv_attached := False\<rparr>)) \<and>
      left_message p (co_ev (lx_core s)) (co_ev (lx_core s'))
    else disconnect_session be sid s = Some s"
proof -
  note d = lx_baseD [OF b]
  let ?c1 = "set_lock True (lx_core s)"
  have lk: "set_lock False ?c1 = lx_core s" using d(3) by simp
  have g1: "get_dev q ?c1 = get_dev q (lx_core s)" for q by (simp add: get_dev_def)
  have ok1: "refs_ok be {} ext ?c1" using d(1,2) by (simp add: refs_ok_lock)
  have sub: "set (co_usb_devs ?c1) \<subseteq> dom (co_devs ?c1)" using d(9) by simp
  from session_loop_ok [OF ok1 sub, of sid] show ?thesis
  proof (elim disjE exE conjE)
    assume sl: "session_loop sid (co_usb_devs ?c1) ?c1 = Some (None, ?c1)"
    then have run: "disconnect_session be sid s = Some s"
      using d(3) lk by (simp add: disconnect_session_def usbi_get_device_by_session_id_def lock_usb_devs_def unlock_usb_devs_def)
    have "session_loop sid ps ?c1 \<noteq> Some (None, ?c1)"
      if "p \<in> set ps" "get_dev p ?c1 = Some dv" "dv_session_data dv = sid" for p dv ps
      using that by (induction ps) (auto split: bind_splits if_splits)
    with sl g1 run show ?thesis by auto
  next
    fix p c' dv assume sl: "session_loop sid (co_usb_devs ?c1) ?c1 = Some (Some p, c')" "p \<in> set (co_usb_devs ?c1)"
      "get_dev p ?c1 = Some dv" "dv_session_data dv = sid" "refs_ok be {} (add_mset p ext) c'" "same_devs ?c1 c'" "co_heap c' = co_heap ?c1"
    let ?c2 = "set_lock False c'"
    have sd: "same_devs (lx_core s) ?c2" using same_devs_lock [OF sl(6), of False, unfolded lk] .
    have c2: "co_usb_devs ?c2 = co_usb_devs (lx_core s)" "\<not> ed_lock (co_ev ?c2)" "co_heap ?c2 = lx_heap s"
      "co_ev ?c2 = co_ev (lx_core s)"
      using sd d(4) sl(7) by (auto simp: same_devs_def)
    have get: "usbi_get_device_by_session_id sid (lx_core s) = Some (Some p, ?c2)"
      using d(3) sl(1,6) by (simp add: usbi_get_device_by_session_id_def lock_usb_devs_def unlock_usb_devs_def same_devs_def)
    have ok2: "refs_ok be {} (add_mset p ext) ?c2" using sl(5) d(1) by (simp add: refs_ok_lock)
    have dv0: "get_dev p (lx_core s) = Some dv" using sl(3) g1 by simp
    then have "map_option uncounted (get_dev p ?c2) = Some (uncounted dv)" using sd by (simp add: same_devs_def)
    then obtain dv2 where dv2: "get_dev p ?c2 = Some dv2" "uncounted dv2 = uncounted dv" by auto
    have pl: "p \<in> set (co_usb_devs ?c2)" using sl(2) c2(1) by simp
    obtain c3 where c3: "usbi_disconnect_device be p ?c2 = Some c3" "refs_ok be {} (add_mset p (add_mset p ext)) c3"
      "co_usb_devs c3 = remove1 p (co_usb_devs ?c2)" "\<not> co_usb_devs_lock c3" "\<not> ed_lock (co_ev c3)"
      "co_devs c3 = (co_devs ?c2)(p \<mapsto> dv2\<lparr>dv_attached := False\<rparr>)" "hp_live (co_heap ?c2) \<subseteq> hp_live (co_heap c3)"
      "left_message p (co_ev ?c2) (co_ev c3)"
      by (rule disconnect_ok [OF d(1) ok2 _ c2(2) pl dv2(1)]) simp
    have "0 < ref_count be {} (add_mset p ext) c3 p" by (simp add: ref_count_def)
    from unref_keeps [OF c3(2) this] obtain c4 where
      c4: "libusb_unref_device be (Some p) c3 = Some c4" "refs_ok be {} (add_mset p ext) c4" "same_devs c3 c4" "co_heap c4 = co_heap c3" by blast
    have ev4: "co_ev c4 = co_ev c3" using c4(3,4) by (auto simp: same_devs_def)
    have dom3: "dom (co_devs c3) = dom (co_devs (lx_core s))" using c3(6) same_devs_dom [OF sd] dv0 by (auto simp: get_dev_def)
    then have dom4: "dom (co_devs c4) = dom (co_devs (lx_core s))" using same_devs_dom [OF c4(3)] by simp
    let ?s' = "\<lparr>lx_core = c4, lx_priv = op_destroy_device c4 (lx_priv s)\<rparr>"
    have pr: "op_destroy_device c4 (lx_priv s) = lx_priv s"
      unfolding op_destroy_device_def dom4 d(5) [symmetric] by (rule ext) (simp add: restrict_map_def domIff)
    have g4: "map_option uncounted (get_dev q c4) = (if q = p then Some (uncounted (dv\<lparr>dv_attached := False\<rparr>))
        else map_option uncounted (get_dev q (lx_core s)))" for q
    proof -
      have "map_option uncounted (get_dev q c4) = map_option uncounted (get_dev q c3)" using c4(3) by (simp add: same_devs_def)
      also have "\<dots> = (if q = p then Some (uncounted (dv2\<lparr>dv_attached := False\<rparr>)) else map_option uncounted (get_dev q ?c2))"
        using c3(6) by (simp add: get_dev_def)
      also have "uncounted (dv2\<lparr>dv_attached := False\<rparr>) = (uncounted dv2)\<lparr>dv_attached := False\<rparr>" by (simp add: uncounted_def)
      also have "(uncounted dv2)\<lparr>dv_attached := False\<rparr> = uncounted (dv\<lparr>dv_attached := False\<rparr>)" unfolding dv2(2) by (simp add: uncounted_def)
      finally show ?thesis using sd by (simp add: same_devs_def)
    qed
    have others: "same_at s ?s' q" if "q \<noteq> p" for q using that g4 [of q] by (simp add: same_at_def pr)
    have n: "name_of ?s' = name_of s" by (simp add: name_of_def pr fun_eq_iff)
    have "topology ?s'" unfolding topology_def n
    proof (intro allI impI)
      fix q p' dv' assume q: "get_dev q (lx_core ?s') = Some dv'" "dv_parent_dev dv' = Some p'"
      have "\<exists>dv0. get_dev q (lx_core s) = Some dv0 \<and> dv_parent_dev dv0 = dv_parent_dev dv' \<and> dv_port_number dv0 = dv_port_number dv'"
      proof (cases "q = p")
        case True
        then have "uncounted dv' = uncounted (dv\<lparr>dv_attached := False\<rparr>)" using g4 [of q] q(1) by simp
        from uncounted_fields(1,2) [OF this] True dv0 show ?thesis by simp
      next
        case False
        then obtain dv0 where "get_dev q (lx_core s) = Some dv0" "uncounted dv' = uncounted dv0"
          using g4 [of q] q(1) by (cases "get_dev q (lx_core s)") auto
        with uncounted_fields(1,2) [of dv' dv0] show ?thesis by auto
      qed
      then obtain dv0 where dv0: "get_dev q (lx_core s) = Some dv0" "dv_parent_dev dv0 = dv_parent_dev dv'"
        "dv_port_number dv0 = dv_port_number dv'" by blast
      with d(6) q(2) show "\<exists>nm np. name_of s q = Some nm \<and> name_of s p' = Some np \<and> parent_path nm = Some (dv_port_number dv', np)"
        unfolding topology_def by metis
    qed
    then have "lx_base be (add_mset p ext) ?s'"
      using c4(2,3) c3(4,5) d(1,5) dom4 ev4 by (auto simp: lx_base_def pr same_devs_def)
    moreover have "disconnect_session be sid s = Some ?s'"
      using get c3(1) c4(1) by (simp add: disconnect_session_def linux_unref_def)
    moreover have "co_usb_devs (lx_core ?s') = remove1 p (co_usb_devs (lx_core s))"
      using c4(3) c3(3) c2(1) by (simp add: same_devs_def)
    moreover have "left_message p (co_ev (lx_core s)) (co_ev (lx_core ?s'))" using c3(8) c2(4) ev4 by simp
    moreover have "map_option uncounted (get_dev p (lx_core ?s')) = Some (uncounted (dv\<lparr>dv_attached := False\<rparr>))" using g4 [of p] by simp
    ultimately have "\<exists>p dv s'. disconnect_session be sid s = Some s' \<and> p \<in> set (co_usb_devs (lx_core s)) \<and>
      get_dev p (lx_core s) = Some dv \<and> dv_session_data dv = sid \<and>
      lx_base be (add_mset p ext) s' \<and> co_usb_devs (lx_core s') = remove1 p (co_usb_devs (lx_core s)) \<and>
      dom (co_devs (lx_core s')) = dom (co_devs (lx_core s)) \<and> (\<forall>q. q \<noteq> p \<longrightarrow> same_at s s' q) \<and>
      map_option uncounted (get_dev p (lx_core s')) = Some (uncounted (dv\<lparr>dv_attached := False\<rparr>)) \<and>
      left_message p (co_ev (lx_core s)) (co_ev (lx_core s'))"
      using dv0 sl(2,4) dom4 others by (intro exI [of _ p] exI [of _ dv] exI [of _ ?s']) simp
    then show ?thesis using dv0 sl(2,4) by auto
  qed
qed

text \<open>C35. Disconnection of a device in a context: when no device of the list has the session, nothing happens. Otherwise one
  of those that have it is marked as gone and leaves the list, no device is freed, every other one is the same but for its
  count, the counts stay exact, and the reference that the list had now belongs to the message that is queued for it.\<close>

theorem device_disconnected_exact:
  assumes b: "lx_base be ext s"
  shows "if \<exists>p dv. p \<in> set (co_usb_devs (lx_core s)) \<and> get_dev p (lx_core s) = Some dv \<and> dv_session_data dv = sid
    then \<exists>p dv s'. disconnect_session be sid s = Some s' \<and> p \<in> set (co_usb_devs (lx_core s)) \<and>
      get_dev p (lx_core s) = Some dv \<and> dv_session_data dv = sid \<and>
      lx_base be (add_mset p ext) s' \<and> co_usb_devs (lx_core s') = remove1 p (co_usb_devs (lx_core s)) \<and>
      dom (co_devs (lx_core s')) = dom (co_devs (lx_core s)) \<and> (\<forall>q. q \<noteq> p \<longrightarrow> same_at s s' q) \<and>
      map_option uncounted (get_dev p (lx_core s')) = Some (uncounted (dv\<lparr>dv_attached := False\<rparr>)) \<and>
      left_message p (co_ev (lx_core s)) (co_ev (lx_core s'))
    else disconnect_session be sid s = Some s"
  by (rule disconnect_session_ok [OF b])

theorem device_disconnected_exact_witness:
  "\<exists>p s'. disconnect_session linux_backend 257 example_lx = Some s' \<and> lx_base linux_backend (add_mset p {#1#}) s' \<and>
    co_usb_devs (lx_core s') = remove1 p [1, 0]"
proof -
  have ex: "\<exists>p dv. p \<in> set (co_usb_devs (lx_core example_lx)) \<and> get_dev p (lx_core example_lx) = Some dv \<and> dv_session_data dv = 257"
    by (intro exI [of _ 1]) (simp add: example_lx_def hub_get, simp add: hub_and_device_def new_device_def)
  have "co_usb_devs (lx_core example_lx) = [1, 0]" by (simp add: example_lx_def hub_and_device_def)
  with device_disconnected_exact [OF example_base, of 257] ex show ?thesis by (simp only: if_True) auto
qed

definition example_system :: linux_system where
  "example_system = \<lparr>ls_dir = (\<lambda>d. if d = ''/dev/bus/usb'' then Some [''.'', ''001''] else if d = SYSFS_DEVICE_PATH then Some [''usb1'', ''1-3'', ''1-0:1.0''] else None),
     ls_release = Some ''3.10.14'', ls_sysfs_mounted = True, ls_clock_monotonic = True, ls_start_monitor = 0\<rparr>"

definition example_static :: linux_static where
  "example_static = \<lparr>st_lg = \<lparr>lg_usbdev_names = 0, lg_bulk_continuation = -1, lg_zero_packet = -1, lg_can_relate_devices = -1,
       lg_has_descriptors = -1, lg_init_count = 0, lg_monitor = False\<rparr>,
     st_usbfs_path = None, st_monotonic_clkid = -1, st_startstop_lock = False, st_hotplug_lock = False\<rparr>"


end
