(* ===== verification/Linux_Handles.thy ===== *)
theory Linux_Handles
  imports Linux_Devices Core_Handles
begin

text \<open>
  Device handles in the Linux backend (os/linux_usbfs.c): configurations, interfaces, kernel drivers, streams, and the
  reset of a device, which gives the claimed interfaces up and claims them again.

  The kernel is a parameter: \<open>'k\<close> is its state and \<open>'k ioctl\<close> its answer to a request on a file descriptor, with what the
  request does to that state. \<open>linux_handle\<close> is a handle of the library with the private data of the backend.
\<close>

unbundle bit_operations_syntax

subsection \<open>Requests\<close>

abbreviation EBUSY :: int where "EBUSY \<equiv> 16"
abbreviation EINVAL :: int where "EINVAL \<equiv> 22"
abbreviation ENOTTY :: int where "ENOTTY \<equiv> 25"
abbreviation ENODATA :: int where "ENODATA \<equiv> 61"

datatype usbfs_request =
    GET_CAPABILITIES | SETCONFIG int | CLAIMINTF int | RELEASEINTF int | SETINTF int int | CLEAR_HALT u32 | RESET
  | ALLOC_STREAMS u32 "u8 list" | FREE_STREAMS u32 "u8 list" | GETDRIVER int | USBFS_DISCONNECT int | USBFS_CONNECT int
  | DISCONNECT_CLAIM int string u32

text \<open>The result, \<open>errno\<close> when it is not 0, and what a request stores: the capabilities, or the name of a driver.\<close>

record ioctl_answer =
  ia_r :: int
  ia_errno :: int
  ia_caps :: u32
  ia_driver :: string

type_synonym 'k ioctl = "int \<Rightarrow> usbfs_request \<Rightarrow> 'k \<Rightarrow> ioctl_answer \<times> 'k"

record linux_device_handle_priv =
  hp_fd :: int
  hp_fd_removed :: bool
  hp_caps :: u32

record linux_handle =
  lh_handle :: device_handle
  lh_priv :: linux_device_handle_priv

text \<open>The error for an \<open>errno\<close>, by the table of a function; LIBUSB_ERROR_OTHER for an \<open>errno\<close> that is not in it.\<close>

definition errno_error :: "(int \<times> int) list \<Rightarrow> int \<Rightarrow> int" where
  "errno_error table e = (case map_of table e of Some r \<Rightarrow> r | None \<Rightarrow> LIBUSB_ERROR_OTHER)"

definition ask :: "'k ioctl \<Rightarrow> int \<Rightarrow> usbfs_request \<Rightarrow> (int \<times> int) list \<Rightarrow> 'k \<Rightarrow> int \<times> 'k" where
  "ask ioctl fd req table k =
     (case ioctl fd req k of (a, k1) \<Rightarrow> (if ia_r a \<noteq> 0 then errno_error table (ia_errno a) else 0, k1))"

subsection \<open>Configurations, interfaces, endpoints\<close>

text \<open>\<open>fd\<close> and \<open>text\<close> are the file of the configuration in sysfs and what is read from it; \<open>control\<close> is the answer to
  GET_CONFIGURATION. The result, what is stored, and the private data of the device.\<close>

definition op_get_configuration ::
  "linux_globals \<Rightarrow> int \<Rightarrow> int \<times> u8 list \<Rightarrow> int \<times> u8 \<Rightarrow> linux_device_priv \<Rightarrow> int \<times> int option \<times> linux_device_priv" where
  "op_get_configuration lg fd text control priv =
     (let (r, config, priv1) =
        (if lg_can_relate_devices lg \<noteq> 0 then (case sysfs_get_active_config fd text of (r, config) \<Rightarrow> (r, config, priv))
         else (case usbfs_get_active_config control priv of (r, priv1) \<Rightarrow>
           (r, if r = LIBUSB_SUCCESS then Some (dp_active_config priv1) else None, priv1)))
      in if r < 0 then (r, config, priv1) else (0, if config = Some (-1) then Some 0 else config, priv1))"

definition op_set_configuration :: "'k ioctl \<Rightarrow> linux_handle \<Rightarrow> int \<Rightarrow> linux_device_priv \<times> 'k \<Rightarrow> int \<times> linux_device_priv \<times> 'k" where
  "op_set_configuration ioctl handle config s =
     (case s of (priv, k) \<Rightarrow>
       (case ask ioctl (hp_fd (lh_priv handle)) (SETCONFIG config)
             [(EINVAL, LIBUSB_ERROR_NOT_FOUND), (EBUSY, LIBUSB_ERROR_BUSY), (ENODEV, LIBUSB_ERROR_NO_DEVICE)] k of
          (r, k1) \<Rightarrow> (r, if r = 0 then priv\<lparr>dp_active_config := config\<rparr> else priv, k1)))"

definition claim_interface :: "'k ioctl \<Rightarrow> linux_handle \<Rightarrow> int \<Rightarrow> 'k \<Rightarrow> int \<times> 'k" where
  "claim_interface ioctl handle iface k =
     ask ioctl (hp_fd (lh_priv handle)) (CLAIMINTF iface)
       [(ENOENT, LIBUSB_ERROR_NOT_FOUND), (EBUSY, LIBUSB_ERROR_BUSY), (ENODEV, LIBUSB_ERROR_NO_DEVICE)] k"

definition release_interface :: "'k ioctl \<Rightarrow> linux_handle \<Rightarrow> int \<Rightarrow> 'k \<Rightarrow> int \<times> 'k" where
  "release_interface ioctl handle iface k =
     ask ioctl (hp_fd (lh_priv handle)) (RELEASEINTF iface) [(ENODEV, LIBUSB_ERROR_NO_DEVICE)] k"

definition op_set_interface :: "'k ioctl \<Rightarrow> linux_handle \<Rightarrow> int \<Rightarrow> int \<Rightarrow> 'k \<Rightarrow> int \<times> 'k" where
  "op_set_interface ioctl handle iface alt k =
     ask ioctl (hp_fd (lh_priv handle)) (SETINTF iface alt) [(EINVAL, LIBUSB_ERROR_NOT_FOUND), (ENODEV, LIBUSB_ERROR_NO_DEVICE)] k"

definition op_clear_halt :: "'k ioctl \<Rightarrow> linux_handle \<Rightarrow> u8 \<Rightarrow> 'k \<Rightarrow> int \<times> 'k" where
  "op_clear_halt ioctl handle endpoint k =
     ask ioctl (hp_fd (lh_priv handle)) (CLEAR_HALT (ucast endpoint)) [(ENOENT, LIBUSB_ERROR_NOT_FOUND), (ENODEV, LIBUSB_ERROR_NO_DEVICE)] k"

text \<open>A \<open>malloc\<close> around the request: \<open>mem\<close> says whether there is memory.\<close>

definition do_streams_ioctl ::
  "'k ioctl \<Rightarrow> bool \<Rightarrow> linux_handle \<Rightarrow> (u32 \<Rightarrow> u8 list \<Rightarrow> usbfs_request) \<Rightarrow> u32 \<Rightarrow> u8 list \<Rightarrow> 'k \<Rightarrow> int \<times> 'k" where
  "do_streams_ioctl ioctl mem handle req num_streams endpoints k =
     (if length endpoints > 30 then (LIBUSB_ERROR_INVALID_PARAM, k)
      else if \<not> mem then (LIBUSB_ERROR_NO_MEM, k)
      else (case ioctl (hp_fd (lh_priv handle)) (req num_streams endpoints) k of (a, k1) \<Rightarrow>
        (if ia_r a < 0
         then errno_error [(ENOTTY, LIBUSB_ERROR_NOT_SUPPORTED), (EINVAL, LIBUSB_ERROR_INVALID_PARAM), (ENODEV, LIBUSB_ERROR_NO_DEVICE)]
                (ia_errno a)
         else ia_r a, k1)))"

definition op_alloc_streams :: "'k ioctl \<Rightarrow> bool \<Rightarrow> linux_handle \<Rightarrow> u32 \<Rightarrow> u8 list \<Rightarrow> 'k \<Rightarrow> int \<times> 'k" where
  "op_alloc_streams ioctl mem handle num_streams endpoints = do_streams_ioctl ioctl mem handle ALLOC_STREAMS num_streams endpoints"

definition op_free_streams :: "'k ioctl \<Rightarrow> bool \<Rightarrow> linux_handle \<Rightarrow> u8 list \<Rightarrow> 'k \<Rightarrow> int \<times> 'k" where
  "op_free_streams ioctl mem handle endpoints = do_streams_ioctl ioctl mem handle FREE_STREAMS 0 endpoints"

subsection \<open>Kernel drivers\<close>

definition op_kernel_driver_active :: "'k ioctl \<Rightarrow> linux_handle \<Rightarrow> int \<Rightarrow> 'k \<Rightarrow> int \<times> 'k" where
  "op_kernel_driver_active ioctl handle iface k =
     (case ioctl (hp_fd (lh_priv handle)) (GETDRIVER iface) k of (a, k1) \<Rightarrow>
       (if ia_r a \<noteq> 0 then errno_error [(ENODATA, 0), (ENODEV, LIBUSB_ERROR_NO_DEVICE)] (ia_errno a)
        else if ia_driver a = ''usbfs'' then 0 else 1, k1))"

definition op_detach_kernel_driver :: "'k ioctl \<Rightarrow> linux_handle \<Rightarrow> int \<Rightarrow> 'k \<Rightarrow> int \<times> 'k" where
  "op_detach_kernel_driver ioctl handle iface k =
     (case ioctl (hp_fd (lh_priv handle)) (GETDRIVER iface) k of (a, k1) \<Rightarrow>
       if ia_r a = 0 \<and> ia_driver a = ''usbfs'' then (LIBUSB_ERROR_NOT_FOUND, k1)
       else ask ioctl (hp_fd (lh_priv handle)) (USBFS_DISCONNECT iface)
              [(ENODATA, LIBUSB_ERROR_NOT_FOUND), (EINVAL, LIBUSB_ERROR_INVALID_PARAM), (ENODEV, LIBUSB_ERROR_NO_DEVICE)] k1)"

definition op_attach_kernel_driver :: "'k ioctl \<Rightarrow> linux_handle \<Rightarrow> int \<Rightarrow> 'k \<Rightarrow> int \<times> 'k" where
  "op_attach_kernel_driver ioctl handle iface k =
     (case ioctl (hp_fd (lh_priv handle)) (USBFS_CONNECT iface) k of (a, k1) \<Rightarrow>
       (if ia_r a < 0
        then errno_error [(ENODATA, LIBUSB_ERROR_NOT_FOUND), (EINVAL, LIBUSB_ERROR_INVALID_PARAM), (ENODEV, LIBUSB_ERROR_NO_DEVICE),
               (EBUSY, LIBUSB_ERROR_BUSY)] (ia_errno a)
        else if ia_r a = 0 then LIBUSB_ERROR_NOT_FOUND else 0, k1))"

definition detach_kernel_driver_and_claim :: "'k ioctl \<Rightarrow> linux_handle \<Rightarrow> int \<Rightarrow> 'k \<Rightarrow> int \<times> 'k" where
  "detach_kernel_driver_and_claim ioctl handle iface k =
     (case ioctl (hp_fd (lh_priv handle)) (DISCONNECT_CLAIM iface ''usbfs'' 2) k of (a, k1) \<Rightarrow>
       if ia_r a = 0 then (0, k1)
       else if ia_errno a \<noteq> ENOTTY
       then (errno_error [(EBUSY, LIBUSB_ERROR_BUSY), (EINVAL, LIBUSB_ERROR_INVALID_PARAM), (ENODEV, LIBUSB_ERROR_NO_DEVICE)] (ia_errno a), k1)
       else (case op_detach_kernel_driver ioctl handle iface k1 of (r, k2) \<Rightarrow>
         if r \<noteq> 0 \<and> r \<noteq> LIBUSB_ERROR_NOT_FOUND then (r, k2) else claim_interface ioctl handle iface k2))"

definition op_claim_interface :: "'k ioctl \<Rightarrow> linux_handle \<Rightarrow> int \<Rightarrow> 'k \<Rightarrow> int \<times> 'k" where
  "op_claim_interface ioctl handle iface k =
     (if dh_auto_detach_kernel_driver (lh_handle handle) \<noteq> 0 then detach_kernel_driver_and_claim ioctl handle iface k
      else claim_interface ioctl handle iface k)"

definition op_release_interface :: "'k ioctl \<Rightarrow> linux_handle \<Rightarrow> int \<Rightarrow> 'k \<Rightarrow> int \<times> 'k" where
  "op_release_interface ioctl handle iface k =
     (case release_interface ioctl handle iface k of (r, k1) \<Rightarrow>
       if r \<noteq> 0 then (r, k1)
       else (0, if dh_auto_detach_kernel_driver (lh_handle handle) \<noteq> 0 then snd (op_attach_kernel_driver ioctl handle iface k1) else k1))"

subsection \<open>Reset\<close>

definition long_bit :: "nat \<Rightarrow> 64 word" where
  "long_bit i = push_bit i 1"

definition has_claim :: "linux_handle \<Rightarrow> nat \<Rightarrow> bool" where
  "has_claim handle i \<longleftrightarrow> dh_claimed_interfaces (lh_handle handle) AND long_bit i \<noteq> 0"

definition drop_claim :: "nat \<Rightarrow> linux_handle \<Rightarrow> linux_handle" where
  "drop_claim i handle =
     handle\<lparr>lh_handle := (lh_handle handle)\<lparr>dh_claimed_interfaces := dh_claimed_interfaces (lh_handle handle) AND NOT (long_bit i)\<rparr>\<rparr>"

primrec release_loop :: "'k ioctl \<Rightarrow> linux_handle \<Rightarrow> nat list \<Rightarrow> 'k \<Rightarrow> 'k" where
  "release_loop ioctl handle [] k = k"
| "release_loop ioctl handle (i # is) k =
     release_loop ioctl handle is (if has_claim handle i then snd (release_interface ioctl handle (int i) k) else k)"

primrec reclaim_loop :: "'k ioctl \<Rightarrow> nat list \<Rightarrow> int \<times> linux_handle \<times> 'k \<Rightarrow> int \<times> linux_handle \<times> 'k" where
  "reclaim_loop ioctl [] s = s"
| "reclaim_loop ioctl (i # is) s =
     (case s of (ret, handle, k) \<Rightarrow>
       reclaim_loop ioctl is
         (if has_claim handle i then
            (case detach_kernel_driver_and_claim ioctl handle (int i) k of (r, k1) \<Rightarrow>
              if r \<noteq> 0 then (LIBUSB_ERROR_NOT_FOUND, drop_claim i handle, k1) else (ret, handle, k1))
          else (ret, handle, k)))"

definition lock_lh :: "linux_handle \<Rightarrow> linux_handle option" where
  "lock_lh handle = (if dh_lock (lh_handle handle) then None else Some (handle\<lparr>lh_handle := (lh_handle handle)\<lparr>dh_lock := True\<rparr>\<rparr>))"

definition unlock_lh :: "linux_handle \<Rightarrow> linux_handle option" where
  "unlock_lh handle = (if dh_lock (lh_handle handle) then Some (handle\<lparr>lh_handle := (lh_handle handle)\<lparr>dh_lock := False\<rparr>\<rparr>) else None)"

definition op_reset_device :: "'k ioctl \<Rightarrow> linux_handle \<times> 'k \<Rightarrow> (int \<times> linux_handle \<times> 'k) option" where
  "op_reset_device ioctl s =
     (case s of (handle, k) \<Rightarrow>
       (let k1 = release_loop ioctl handle [0..<nat USB_MAXINTERFACES] k in
        Option.bind (lock_lh handle) (\<lambda>handle1.
          (case (case ioctl (hp_fd (lh_priv handle1)) RESET k1 of (a, k2) \<Rightarrow>
                   if ia_r a \<noteq> 0 then (errno_error [(ENODEV, LIBUSB_ERROR_NOT_FOUND)] (ia_errno a), handle1, k2)
                   else reclaim_loop ioctl [0..<nat USB_MAXINTERFACES] (0, handle1, k2))
           of (ret, handle2, k3) \<Rightarrow>
             Option.bind (unlock_lh handle2) (\<lambda>handle3. Some (ret, handle3, k3))))))"

subsection \<open>The calls of the library\<close>

text \<open>What a call of the library's backend does here, for the calls that need no more than the handle and the kernel.\<close>

definition linux_call :: "'k ioctl \<Rightarrow> bool \<Rightarrow> linux_handle \<Rightarrow> backend_call \<Rightarrow> 'k \<Rightarrow> (int \<times> 'k) option" where
  "linux_call ioctl mem handle call k = (case call of
       BE_claim _ i \<Rightarrow> Some (op_claim_interface ioctl handle i k)
     | BE_release _ i \<Rightarrow> Some (op_release_interface ioctl handle i k)
     | BE_set_altsetting _ i alt \<Rightarrow> Some (op_set_interface ioctl handle i alt k)
     | BE_clear_halt _ e \<Rightarrow> Some (op_clear_halt ioctl handle e k)
     | BE_detach _ i \<Rightarrow> Some (op_detach_kernel_driver ioctl handle i k)
     | BE_attach _ i \<Rightarrow> Some (op_attach_kernel_driver ioctl handle i k)
     | BE_alloc_streams _ n es \<Rightarrow> Some (op_alloc_streams ioctl mem handle n es k)
     | BE_free_streams _ es \<Rightarrow> Some (op_free_streams ioctl mem handle es k)
     | _ \<Rightarrow> None)"

definition call_answer :: "'k ioctl \<Rightarrow> bool \<Rightarrow> linux_handle \<Rightarrow> 'k \<Rightarrow> backend_call \<Rightarrow> int" where
  "call_answer ioctl mem handle k call = (case linux_call ioctl mem handle call k of Some (r, _) \<Rightarrow> r | None \<Rightarrow> 0)"

definition call_kernel :: "'k ioctl \<Rightarrow> bool \<Rightarrow> linux_handle \<Rightarrow> backend_call \<Rightarrow> 'k \<Rightarrow> 'k option" where
  "call_kernel ioctl mem handle call k = map_option snd (linux_call ioctl mem handle call k)"

text \<open>A function of the library that calls its backend at most once, with this backend behind it.\<close>

definition on_linux ::
  "'k ioctl \<Rightarrow> bool \<Rightarrow> linux_device_handle_priv \<Rightarrow> handle_backend \<Rightarrow> ptr \<Rightarrow> (handle_backend \<Rightarrow> lib_ctx \<Rightarrow> (int \<times> lib_ctx) option)
    \<Rightarrow> lib_ctx \<times> 'k \<Rightarrow> (int \<times> lib_ctx \<times> 'k) option" where
  "on_linux ioctl mem hpriv be p f s = do {
     let (l, k) = s;
     dh \<leftarrow> get_h p l;
     let handle = \<lparr>lh_handle = dh, lh_priv = hpriv\<rparr>;
     (r, l') \<leftarrow> f (be\<lparr>hb_answer := call_answer ioctl mem handle k\<rparr>) l;
     (case drop (length (lc_calls l)) (lc_calls l') of
        [] \<Rightarrow> Some (r, l', k)
      | [call] \<Rightarrow> do { k' \<leftarrow> call_kernel ioctl mem handle call k; Some (r, l', k') }
      | _ \<Rightarrow> None)
   }"

end
