(* ===== verification/Linux_Handle_Props.thy ===== *)
theory Linux_Handle_Props
  imports Linux_Handles Handle_Props
begin

text \<open>
  The claimed interfaces of a handle in the library and in the kernel: claiming and releasing keep them the same, a reset
  keeps what it could claim again.
\<close>

unbundle bit_operations_syntax

subsection \<open>What is relied on of the kernel\<close>

text \<open>\<open>claims k fd\<close> are the interfaces that usbfs has claimed for a file descriptor.\<close>

definition keeps_claims :: "('k \<Rightarrow> int \<Rightarrow> int set) \<Rightarrow> 'k ioctl \<Rightarrow> usbfs_request \<Rightarrow> bool" where
  "keeps_claims claims ioctl req \<longleftrightarrow> (\<forall>fd k. claims (snd (ioctl fd req k)) fd = claims k fd)"

definition claims_one :: "('k \<Rightarrow> int \<Rightarrow> int set) \<Rightarrow> 'k ioctl \<Rightarrow> usbfs_request \<Rightarrow> int \<Rightarrow> bool" where
  "claims_one claims ioctl req i \<longleftrightarrow> (\<forall>fd k. claims (snd (ioctl fd req k)) fd =
     (if ia_r (fst (ioctl fd req k)) = 0 then insert i (claims k fd) else claims k fd))"

definition usbfs_claims :: "'k ioctl \<Rightarrow> ('k \<Rightarrow> int \<Rightarrow> int set) \<Rightarrow> bool" where
  "usbfs_claims ioctl claims \<longleftrightarrow>
     (\<forall>i. claims_one claims ioctl (CLAIMINTF i) i) \<and>
     (\<forall>i driver flags. claims_one claims ioctl (DISCONNECT_CLAIM i driver flags) i) \<and>
     (\<forall>i fd k. claims (snd (ioctl fd (RELEASEINTF i) k)) fd =
        (if ia_r (fst (ioctl fd (RELEASEINTF i) k)) = 0 then claims k fd - {i} else claims k fd)) \<and>
     (\<forall>i fd k. claims k fd - {i} \<subseteq> claims (snd (ioctl fd (USBFS_DISCONNECT i) k)) fd \<and>
        claims (snd (ioctl fd (USBFS_DISCONNECT i) k)) fd \<subseteq> claims k fd) \<and>
     (\<forall>fd k. claims (snd (ioctl fd RESET k)) fd \<subseteq> claims k fd) \<and>
     (\<forall>i. keeps_claims claims ioctl (GETDRIVER i)) \<and> (\<forall>i. keeps_claims claims ioctl (USBFS_CONNECT i))"

abbreviation lh_fd :: "linux_handle \<Rightarrow> int" where "lh_fd h \<equiv> hp_fd (lh_priv h)"

definition claim_set :: "linux_handle \<Rightarrow> nat set" where
  "claim_set h = {i. i < 32 \<and> bit (dh_claimed_interfaces (lh_handle h)) i}"

text \<open>The claims of the kernel as numbers the mask can hold.\<close>

definition kernel_set :: "('k \<Rightarrow> int \<Rightarrow> int set) \<Rightarrow> linux_handle \<Rightarrow> 'k \<Rightarrow> nat set" where
  "kernel_set claims h k = {i. i < 32 \<and> int i \<in> claims k (lh_fd h)}"

lemma has_claim_bit: "has_claim h i \<longleftrightarrow> bit (dh_claimed_interfaces (lh_handle h)) i"
  by (simp add: has_claim_def long_bit_def bit_iff_and_push_bit_not_eq_0)

lemma claim_set_iff: "i < 32 \<Longrightarrow> has_claim h i \<longleftrightarrow> i \<in> claim_set h"
  by (simp add: claim_set_def has_claim_bit)

lemma claim_set_drop: "i < 32 \<Longrightarrow> claim_set (drop_claim i h) = claim_set h - {i}"
  by (auto simp: claim_set_def drop_claim_def long_bit_def bit_simps)

lemma claim_set_lock [simp]: "claim_set (h\<lparr>lh_handle := (lh_handle h)\<lparr>dh_lock := b\<rparr>\<rparr>) = claim_set h"
  by (simp add: claim_set_def)

lemma drop_claim_simps [simp]: "lh_priv (drop_claim i h) = lh_priv h" "dh_lock (lh_handle (drop_claim i h)) = dh_lock (lh_handle h)"
  "dh_dev (lh_handle (drop_claim i h)) = dh_dev (lh_handle h)"
  by (simp_all add: drop_claim_def)

subsection \<open>One request\<close>

lemma errno_error_nonzero: "\<forall>r \<in> snd ` set table. r \<noteq> 0 \<Longrightarrow> errno_error table e \<noteq> 0"
  by (force simp: errno_error_def dest: map_of_SomeD split: option.splits)

lemma ask_snd [simp]: "snd (ask ioctl fd req table k) = snd (ioctl fd req k)"
  by (simp add: ask_def split: prod.split)

lemma ask_zero: "\<forall>r \<in> snd ` set table. r \<noteq> 0 \<Longrightarrow> fst (ask ioctl fd req table k) = 0 \<longleftrightarrow> ia_r (fst (ioctl fd req k)) = 0"
  using errno_error_nonzero [of table] by (simp add: ask_def split: prod.split)

lemma claim_interface_claims:
  assumes "usbfs_claims ioctl claims"
  shows "claims (snd (claim_interface ioctl h i k)) (lh_fd h) =
    (if fst (claim_interface ioctl h i k) = 0 then insert i (claims k (lh_fd h)) else claims k (lh_fd h))"
  using assms by (simp add: claim_interface_def ask_zero usbfs_claims_def claims_one_def)

lemma release_interface_claims:
  assumes "usbfs_claims ioctl claims"
  shows "claims (snd (release_interface ioctl h i k)) (lh_fd h) =
    (if fst (release_interface ioctl h i k) = 0 then claims k (lh_fd h) - {i} else claims k (lh_fd h))"
  using assms by (simp add: release_interface_def ask_zero usbfs_claims_def)

text \<open>Taking an interface from its driver: at most this interface changes, and it is ours after success.\<close>

lemma detach_claims:
  assumes "usbfs_claims ioctl claims"
  shows "claims k (lh_fd h) - {i} \<subseteq> claims (snd (op_detach_kernel_driver ioctl h i k)) (lh_fd h)"
    and "claims (snd (op_detach_kernel_driver ioctl h i k)) (lh_fd h) \<subseteq> claims k (lh_fd h)"
proof -
  have g: "claims (snd (ioctl fd (GETDRIVER i) k)) fd = claims k fd"
    and d: "claims k fd - {i} \<subseteq> claims (snd (ioctl fd (USBFS_DISCONNECT i) k)) fd" "claims (snd (ioctl fd (USBFS_DISCONNECT i) k)) fd \<subseteq> claims k fd"
    for fd k using assms by (simp_all add: usbfs_claims_def keeps_claims_def)
  obtain a k1 where a: "ioctl (lh_fd h) (GETDRIVER i) k = (a, k1)" by fastforce
  with g [where fd = "lh_fd h" and k = k] have k1: "claims k1 (lh_fd h) = claims k (lh_fd h)" by simp
  obtain b k2 where b: "ioctl (lh_fd h) (USBFS_DISCONNECT i) k1 = (b, k2)" by fastforce
  with d [where fd = "lh_fd h" and k = k1] have "claims k1 (lh_fd h) - {i} \<subseteq> claims k2 (lh_fd h)" "claims k2 (lh_fd h) \<subseteq> claims k1 (lh_fd h)" by simp_all
  with a b k1 show "claims k (lh_fd h) - {i} \<subseteq> claims (snd (op_detach_kernel_driver ioctl h i k)) (lh_fd h)"
    "claims (snd (op_detach_kernel_driver ioctl h i k)) (lh_fd h) \<subseteq> claims k (lh_fd h)"
    by (auto simp: op_detach_kernel_driver_def ask_def)
qed

lemma detach_and_claim_claims:
  assumes laws: "usbfs_claims ioctl claims" and run: "detach_kernel_driver_and_claim ioctl h i k = (r, k')"
  shows "claims k (lh_fd h) - {i} \<subseteq> claims k' (lh_fd h)" and "claims k' (lh_fd h) \<subseteq> insert i (claims k (lh_fd h))"
    and "r = 0 \<Longrightarrow> i \<in> claims k' (lh_fd h)" and "r \<noteq> 0 \<Longrightarrow> claims k' (lh_fd h) \<subseteq> claims k (lh_fd h)"
proof -
  let ?fd = "lh_fd h"
  have law: "claims_one claims ioctl (DISCONNECT_CLAIM i ''usbfs'' 2) i" using laws by (simp add: usbfs_claims_def)
  have e: "errno_error [(EBUSY, LIBUSB_ERROR_BUSY), (EINVAL, LIBUSB_ERROR_INVALID_PARAM), (ENODEV, LIBUSB_ERROR_NO_DEVICE)] e \<noteq> 0" for e
    by (rule errno_error_nonzero) auto
  obtain a k1 where a: "ioctl ?fd (DISCONNECT_CLAIM i ''usbfs'' 2) k = (a, k1)" by fastforce
  with law have k1: "claims k1 ?fd = (if ia_r a = 0 then insert i (claims k ?fd) else claims k ?fd)"
    unfolding claims_one_def by (metis fst_conv snd_conv)
  obtain r2 k2 where k2: "op_detach_kernel_driver ioctl h i k1 = (r2, k2)" by fastforce
  with detach_claims [OF laws, where k = k1 and h = h and i = i] have c2: "claims k1 ?fd - {i} \<subseteq> claims k2 ?fd" "claims k2 ?fd \<subseteq> claims k1 ?fd" by simp_all
  obtain r3 k3 where k3: "claim_interface ioctl h i k2 = (r3, k3)" by fastforce
  with claim_interface_claims [OF laws, where h = h and i = i and k = k2] have c3: "claims k3 ?fd = (if r3 = 0 then insert i (claims k2 ?fd) else claims k2 ?fd)" by simp
  have cases: "ia_r a = 0 \<and> r = 0 \<and> k' = k1 \<or> ia_r a \<noteq> 0 \<and> r \<noteq> 0 \<and> k' = k1 \<or>
      ia_r a \<noteq> 0 \<and> r \<noteq> 0 \<and> k' = k2 \<or> ia_r a \<noteq> 0 \<and> r = r3 \<and> k' = k3"
    using run a k2 k3 e by (auto simp: detach_kernel_driver_and_claim_def split: if_splits)
  from cases k1 c2 c3 show "claims k ?fd - {i} \<subseteq> claims k' ?fd" by (auto split: if_splits)
  from cases k1 c2 c3 show "claims k' ?fd \<subseteq> insert i (claims k ?fd)" by (auto split: if_splits)
  from cases k1 c2 c3 show "r = 0 \<Longrightarrow> i \<in> claims k' ?fd" by (auto split: if_splits)
  from cases k1 c2 c3 show "r \<noteq> 0 \<Longrightarrow> claims k' ?fd \<subseteq> claims k ?fd" by (auto split: if_splits)
qed

lemma op_claim_interface_claims:
  assumes laws: "usbfs_claims ioctl claims" and run: "op_claim_interface ioctl h i k = (r, k1)" and new: "i \<notin> claims k (lh_fd h)"
  shows "claims k1 (lh_fd h) = (if r = 0 then insert i (claims k (lh_fd h)) else claims k (lh_fd h))"
proof (cases "dh_auto_detach_kernel_driver (lh_handle h) = 0")
  case True
  with run have "claim_interface ioctl h i k = (r, k1)" by (simp add: op_claim_interface_def)
  with claim_interface_claims [OF laws, where h = h and i = i and k = k] show ?thesis by simp
next
  case False
  with run have "detach_kernel_driver_and_claim ioctl h i k = (r, k1)" by (simp add: op_claim_interface_def)
  note d = detach_and_claim_claims [OF laws this]
  show ?thesis
  proof (cases "r = 0")
    case True
    with d(1,2,3) show ?thesis by auto
  next
    case False
    with d(1,4) new show ?thesis by auto
  qed
qed

lemma op_attach_claims:
  assumes "usbfs_claims ioctl claims"
  shows "claims (snd (op_attach_kernel_driver ioctl h i k)) (lh_fd h) = claims k (lh_fd h)"
proof -
  have "claims (snd (ioctl (lh_fd h) (USBFS_CONNECT i) k)) (lh_fd h) = claims k (lh_fd h)"
    using assms by (simp add: usbfs_claims_def keeps_claims_def)
  then show ?thesis by (cases "ioctl (lh_fd h) (USBFS_CONNECT i) k") (simp add: op_attach_kernel_driver_def)
qed

lemma op_release_interface_claims:
  assumes laws: "usbfs_claims ioctl claims" and run: "op_release_interface ioctl h i k = (r, k1)"
  shows "claims k1 (lh_fd h) = (if r = 0 then claims k (lh_fd h) - {i} else claims k (lh_fd h))"
proof -
  obtain r1 k2 where k2: "release_interface ioctl h i k = (r1, k2)" by fastforce
  with release_interface_claims [OF laws, where h = h and i = i and k = k]
  have c: "claims k2 (lh_fd h) = (if r1 = 0 then claims k (lh_fd h) - {i} else claims k (lh_fd h))" by simp
  have "r = r1 \<and> claims k1 (lh_fd h) = claims k2 (lh_fd h)"
    using run k2 op_attach_claims [OF laws, where h = h and i = i and k = k2] by (auto simp: op_release_interface_def split: if_splits)
  with c show ?thesis by simp
qed

subsection \<open>The loops of a reset\<close>

lemma release_loop_claims:
  assumes "usbfs_claims ioctl claims"
  shows "claims (release_loop ioctl h is k) (lh_fd h) \<subseteq> claims k (lh_fd h)"
    and "\<forall>i k. fst (release_interface ioctl h i k) = 0 \<Longrightarrow>
      claims (release_loop ioctl h is k) (lh_fd h) = claims k (lh_fd h) - int ` {i \<in> set is. has_claim h i}"
proof (induction "is" arbitrary: k)
  case (Cons i "is")
  note rel = release_interface_claims [OF assms, where h = h and i = "int i"]
  {
    case (1 k)
    let ?k = "if has_claim h i then snd (release_interface ioctl h (int i) k) else k"
    have "claims ?k (lh_fd h) \<subseteq> claims k (lh_fd h)" using rel [of k] by (cases "has_claim h i") auto
    from subset_trans [OF Cons.IH(1) this] show ?case by simp
  next
    case (2 k)
    let ?k = "if has_claim h i then snd (release_interface ioctl h (int i) k) else k"
    have "claims ?k (lh_fd h) = claims k (lh_fd h) - int ` {j \<in> {i}. has_claim h j}" using 2 rel [of k] by (cases "has_claim h i") auto
    with Cons.IH(2) [OF 2, of ?k] show ?case by auto
  }
qed simp_all

text \<open>What the second loop does, from \<open>h\<close> and \<open>k\<close> to \<open>h'\<close> and \<open>k'\<close>, for the interfaces in \<open>is\<close>.\<close>

definition reclaimed :: "('k \<Rightarrow> int \<Rightarrow> int set) \<Rightarrow> nat list \<Rightarrow> linux_handle \<Rightarrow> 'k \<Rightarrow> linux_handle \<Rightarrow> 'k \<Rightarrow> bool" where
  "reclaimed claims is h k h' k' \<longleftrightarrow> lh_priv h' = lh_priv h \<and> dh_lock (lh_handle h') = dh_lock (lh_handle h) \<and>
     dh_dev (lh_handle h') = dh_dev (lh_handle h) \<and>
     claim_set h' \<subseteq> claim_set h \<and> claim_set h - claim_set h' \<subseteq> set is \<and>
     (\<forall>j \<in> set is \<inter> claim_set h'. int j \<in> claims k' (lh_fd h)) \<and>
     claims k (lh_fd h) - int ` set is \<subseteq> claims k' (lh_fd h) \<and>
     claims k' (lh_fd h) \<subseteq> claims k (lh_fd h) \<union> int ` claim_set h'"

lemma reclaim_loop_claims:
  assumes laws: "usbfs_claims ioctl claims"
  shows "distinct is \<Longrightarrow> set is \<subseteq> {..<32} \<Longrightarrow> \<exists>h' k'. reclaim_loop ioctl is (ret, h, k) =
      (if claim_set h' = claim_set h then ret else LIBUSB_ERROR_NOT_FOUND, h', k') \<and> reclaimed claims is h k h' k'"
proof (induction "is" arbitrary: ret h k)
  case Nil
  then show ?case by (intro exI [of _ h] exI [of _ k]) (auto simp: reclaimed_def)
next
  case (Cons i "is")
  then have i: "i < 32" "i \<notin> set is" "distinct is" "set is \<subseteq> {..<32}" by auto
  show ?case
  proof (cases "has_claim h i")
    case False
    then have nc: "i \<notin> claim_set h" using claim_set_iff [OF i(1)] by simp
    from Cons.IH [OF i(3,4), of ret h k] obtain h' k' where
      l: "reclaim_loop ioctl is (ret, h, k) = (if claim_set h' = claim_set h then ret else LIBUSB_ERROR_NOT_FOUND, h', k')"
        "reclaimed claims is h k h' k'" by blast
    moreover have "reclaimed claims (i # is) h k h' k'" using l(2) nc by (auto simp: reclaimed_def)
    ultimately show ?thesis using False by auto
  next
    case True
    then have c: "i \<in> claim_set h" using claim_set_iff [OF i(1)] by simp
    obtain r k1 where d: "detach_kernel_driver_and_claim ioctl h (int i) k = (r, k1)" by fastforce
    note dc = detach_and_claim_claims [OF laws d]
    let ?h = "if r \<noteq> 0 then drop_claim i h else h"
    let ?ret = "if r \<noteq> 0 then LIBUSB_ERROR_NOT_FOUND else ret"
    have hs: "claim_set ?h = (if r \<noteq> 0 then claim_set h - {i} else claim_set h)" "lh_priv ?h = lh_priv h"
      "dh_lock (lh_handle ?h) = dh_lock (lh_handle h)" "dh_dev (lh_handle ?h) = dh_dev (lh_handle h)"
      by (simp_all add: claim_set_drop [OF i(1)])
    from Cons.IH [OF i(3,4), of ?ret ?h k1] obtain h' k' where
      l: "reclaim_loop ioctl is (?ret, ?h, k1) = (if claim_set h' = claim_set ?h then ?ret else LIBUSB_ERROR_NOT_FOUND, h', k')"
        "reclaimed claims is ?h k1 h' k'" by blast
    have step: "reclaim_loop ioctl (i # is) (ret, h, k) = reclaim_loop ioctl is (?ret, ?h, k1)" using True d by simp
    have res: "(if claim_set h' = claim_set ?h then ?ret else LIBUSB_ERROR_NOT_FOUND) =
        (if claim_set h' = claim_set h then ret else LIBUSB_ERROR_NOT_FOUND)"
      using l(2) c unfolding reclaimed_def hs by (cases "r = 0") auto
    have "reclaimed claims (i # is) h k h' k'"
    proof -
      note l2 = l(2) [unfolded reclaimed_def hs]
      have keep: "int i \<in> claims k' (lh_fd h)" if "r = 0" using l2 dc(3) that i(2) by auto
      from l2 have sub: "claims k' (lh_fd h) \<subseteq> claims k1 (lh_fd h) \<union> int ` claim_set h'" by blast
      have up: "claims k' (lh_fd h) \<subseteq> claims k (lh_fd h) \<union> int ` claim_set h'"
      proof (cases "r = 0")
        case True
        then have "i \<in> claim_set h'" using l2 c i(2) by auto
        with sub dc(2) show ?thesis by auto
      next
        case False
        with sub dc(4) show ?thesis by auto
      qed
      have "i \<notin> claim_set h'" if "r \<noteq> 0" using l2 that by auto
      with keep have "\<forall>j \<in> set (i # is) \<inter> claim_set h'. int j \<in> claims k' (lh_fd h)" using l2 by auto
      moreover have "claims k (lh_fd h) - int ` set (i # is) \<subseteq> claims k' (lh_fd h)" using l2 dc(1) by auto
      moreover have "claim_set h' \<subseteq> claim_set h \<and> claim_set h - claim_set h' \<subseteq> set (i # is)" using l2 by (auto split: if_splits)
      ultimately show ?thesis using l2 up by (auto simp: reclaimed_def)
    qed
    with l(1) res step show ?thesis by (intro exI [of _ h'] exI [of _ k']) simp
  qed
qed

subsection \<open>The properties\<close>

text \<open>The answer to the request in the middle of a reset.\<close>

definition reset_answer :: "'k ioctl \<Rightarrow> linux_handle \<Rightarrow> 'k \<Rightarrow> int" where
  "reset_answer ioctl h k = ia_r (fst (ioctl (lh_fd h) RESET (release_loop ioctl h [0..<32] k)))"

definition releases :: "'k ioctl \<Rightarrow> linux_handle \<Rightarrow> bool" where
  "releases ioctl h \<longleftrightarrow> (\<forall>i k. fst (release_interface ioctl h i k) = 0)"


lemma on_linux_agree:
  assumes laws: "usbfs_claims ioctl claims" and ok: "handle_ok p l" and att: "attached p l = Some True"
    and agree: "{i. i < 32 \<and> int i \<in> claims k (hp_fd hpriv)} = claimed p l" and n: "n < 32"
    and f: "f = (\<lambda>be. libusb_claim_interface be p (int n)) \<or> f = (\<lambda>be. libusb_release_interface be p (int n))"
  shows "\<exists>r l' k'. on_linux ioctl mem hpriv be p f (l, k) = Some (r, l', k') \<and> handle_ok p l' \<and>
    {i. i < 32 \<and> int i \<in> claims k' (hp_fd hpriv)} = claimed p l'"
proof -
  from ok obtain dh where dh: "get_h p l = Some dh" by (auto simp: handle_ok_def split: option.splits)
  let ?h = "\<lparr>lh_handle = dh, lh_priv = hpriv\<rparr>"
  let ?be = "be\<lparr>hb_answer := call_answer ioctl mem ?h k\<rparr>"
  from f show ?thesis
  proof
    assume f: "f = (\<lambda>be. libusb_claim_interface be p (int n))"
    from claim_spec [OF ok att n] obtain r l' where c: "libusb_claim_interface ?be p (int n) l = Some (r, l')" "handle_ok p l'"
      "claim_effect ?be p n l r l'" by blast
    show ?thesis
    proof (cases "n \<in> claimed p l")
      case True
      with c agree show ?thesis by (simp add: on_linux_def f dh claim_effect_def)
    next
      case False
      obtain r1 k1 where k1: "op_claim_interface ioctl ?h (int n) k = (r1, k1)" by fastforce
      from False c(3) k1 have e: "r = r1" "lc_calls l' = lc_calls l @ [BE_claim p (int n)]"
        "claimed p l' = (if r = 0 then insert n (claimed p l) else claimed p l)"
        by (simp_all add: claim_effect_def call_answer_def linux_call_def)
      have "int n \<notin> claims k (hp_fd hpriv)" using False agree n by auto
      then have "claims k1 (hp_fd hpriv) = (if r1 = 0 then insert (int n) (claims k (hp_fd hpriv)) else claims k (hp_fd hpriv))"
        using op_claim_interface_claims [OF laws k1] by simp
      then have "{i. i < 32 \<and> int i \<in> claims k1 (hp_fd hpriv)} = claimed p l'" using agree n unfolding e(1,3) by (cases "r1 = 0") auto
      with c(1,2) e k1 show ?thesis by (simp add: on_linux_def f dh call_kernel_def linux_call_def)
    qed
  next
    assume f: "f = (\<lambda>be. libusb_release_interface be p (int n))"
    from release_spec [OF ok n] obtain r l' where c: "libusb_release_interface ?be p (int n) l = Some (r, l')" "handle_ok p l'"
      "release_effect ?be p n l r l'" by blast
    show ?thesis
    proof (cases "n \<in> claimed p l")
      case False
      with c agree show ?thesis by (simp add: on_linux_def f dh release_effect_def)
    next
      case True
      obtain r1 k1 where k1: "op_release_interface ioctl ?h (int n) k = (r1, k1)" by fastforce
      from True c(3) k1 have e: "r = r1" "lc_calls l' = lc_calls l @ [BE_release p (int n)]"
        "claimed p l' = (if r = 0 then claimed p l - {n} else claimed p l)"
        by (simp_all add: release_effect_def call_answer_def linux_call_def)
      have "claims k1 (hp_fd hpriv) = (if r1 = 0 then claims k (hp_fd hpriv) - {int n} else claims k (hp_fd hpriv))"
        using op_release_interface_claims [OF laws k1] by simp
      then have "{i. i < 32 \<and> int i \<in> claims k1 (hp_fd hpriv)} = claimed p l'" using agree unfolding e(1,3) by (cases "r1 = 0") auto
      with c(1,2) e k1 show ?thesis by (simp add: on_linux_def f dh call_kernel_def linux_call_def)
    qed
  qed
qed

text \<open>C25. Claiming and releasing an interface through the library, with this backend behind it and a kernel that keeps the
  laws: when the mask of the handle and the claims of the kernel agree before, they agree after, whatever the
  kernel answers and whether or not drivers are detached automatically.\<close>

theorem linux_claims_agree:
  assumes "usbfs_claims ioctl claims" and "handle_ok p l" and "attached p l = Some True"
    and "{i. i < 32 \<and> int i \<in> claims k (hp_fd hpriv)} = claimed p l" and "n < 32"
  shows "(\<exists>r l' k'. on_linux ioctl mem hpriv be p (\<lambda>be. libusb_claim_interface be p (int n)) (l, k) = Some (r, l', k') \<and>
      handle_ok p l' \<and> {i. i < 32 \<and> int i \<in> claims k' (hp_fd hpriv)} = claimed p l') \<and>
    (\<exists>r l' k'. on_linux ioctl mem hpriv be p (\<lambda>be. libusb_release_interface be p (int n)) (l, k) = Some (r, l', k') \<and>
      handle_ok p l' \<and> {i. i < 32 \<and> int i \<in> claims k' (hp_fd hpriv)} = claimed p l')"
  using on_linux_agree [OF assms disjI1 [OF refl]] on_linux_agree [OF assms disjI2 [OF refl]] by blast

subsection \<open>An example\<close>

text \<open>A kernel that agrees to everything, but for the interfaces in \<open>busy\<close>, and for a reset when 99 is in it. Its state is
  the set of claims.\<close>

definition set_kernel :: "int set \<Rightarrow> int set ioctl" where
  "set_kernel busy fd req k =
     (let ok = \<lparr>ia_r = 0, ia_errno = 0, ia_caps = 0, ia_driver = []\<rparr>; no = ok\<lparr>ia_r := -1, ia_errno := EBUSY\<rparr> in
      case req of
        CLAIMINTF i \<Rightarrow> if i \<in> busy then (no, k) else (ok, insert i k)
      | DISCONNECT_CLAIM i _ _ \<Rightarrow> if i \<in> busy then (no, k) else (ok, insert i k)
      | RELEASEINTF i \<Rightarrow> (ok, k - {i})
      | RESET \<Rightarrow> (if 99 \<in> busy then no else ok, k)
      | _ \<Rightarrow> (ok, k))"

lemma set_kernel_laws: "usbfs_claims (set_kernel busy) (\<lambda>k fd. k)"
  by (auto simp: usbfs_claims_def claims_one_def keeps_claims_def set_kernel_def Let_def)

definition example_handle :: linux_handle where
  "example_handle = \<lparr>lh_handle = (new_handle 1)\<lparr>dh_claimed_interfaces := 6\<rparr>, lh_priv = \<lparr>hp_fd = 9, hp_fd_removed = False, hp_caps = 0\<rparr>\<rparr>"

lemma example_claims: "claim_set example_handle = {1, 2}"
proof -
  have "\<forall>i \<in> set [0..<32]. bit (6 :: 64 word) i \<longleftrightarrow> i = 1 \<or> i = 2" by code_simp
  then have "bit (6 :: 64 word) i \<longleftrightarrow> i = 1 \<or> i = 2" if "i < 32" for i using that by auto
  then show ?thesis by (auto simp: claim_set_def example_handle_def)
qed


theorem linux_claims_agree_witness:
  "\<exists>r l' k'. on_linux (set_kernel {}) True \<lparr>hp_fd = 9, hp_fd_removed = False, hp_caps = 0\<rparr> yes_backend 7
      (\<lambda>be. libusb_claim_interface be 7 (int 3)) (lib_open, {}) = Some (r, l', k') \<and> handle_ok 7 l' \<and>
    {i. i < 32 \<and> int i \<in> k'} = claimed 7 l'"
proof -
  have "{i :: nat. i < 32 \<and> int i \<in> {}} = claimed 7 lib_open" by (simp add: claimed_def lib_open_def new_handle_def)
  from linux_claims_agree [OF set_kernel_laws lib_open_handle, where n = 3, OF this] show ?thesis by simp
qed

end
