(* ===== verification/Hotplug.thy ===== *)
theory Hotplug
  imports Device_Props
begin

text \<open>
  Hotplug callbacks (hotplug.c): registration, with the enumeration of the devices that are there, lazy
  deregistration, matching an event against the callbacks of the context, and what the event handler does with a message.

  The user's functions are a parameter: they run without the lock of the list and may register and deregister
  callbacks. \<open>hx_calls\<close> records the calls of the user's functions. The interface \<open>hotplug_user\<close> says what such a
  function may do; it is interpreted on functions that call the operations of this model.
\<close>

unbundle bit_operations_syntax

subsection \<open>State\<close>

abbreviation LIBUSB_HOTPLUG_MATCH_ANY :: int where "LIBUSB_HOTPLUG_MATCH_ANY \<equiv> -1"
abbreviation LIBUSB_HOTPLUG_ENUMERATE :: u32 where "LIBUSB_HOTPLUG_ENUMERATE \<equiv> 1"

text \<open>\<open>hc_fn\<close> stands for the function together with its user data. The counter behind the handles is kept with the context:
  handles only have to differ within one.\<close>

record hotplug_callback =
  hc_vendor_id :: int
  hc_product_id :: int
  hc_dev_class :: int
  hc_flags :: u32
  hc_events :: u32
  hc_fn :: nat
  hc_handle :: u32
  hc_needs_free :: bool

record hotplug_ctx =
  hx_core :: core_ctx
  hx_cbs :: "ptr \<Rightarrow> hotplug_callback option"
  hx_list :: "ptr list"
  hx_lock :: bool
  hx_handle_id :: u32
  hx_calls :: "(nat \<times> ptr option \<times> u32) list"

type_synonym user_fn = "nat \<Rightarrow> ptr option \<Rightarrow> u32 \<Rightarrow> hotplug_ctx \<Rightarrow> (int \<times> hotplug_ctx) option"

definition lock_cbs :: "hotplug_ctx \<Rightarrow> hotplug_ctx option" where
  "lock_cbs s = (if hx_lock s then None else Some (s\<lparr>hx_lock := True\<rparr>))"

definition unlock_cbs :: "hotplug_ctx \<Rightarrow> hotplug_ctx option" where
  "unlock_cbs s = (if hx_lock s then Some (s\<lparr>hx_lock := False\<rparr>) else None)"

abbreviation hx_heap :: "hotplug_ctx \<Rightarrow> heap" where "hx_heap s \<equiv> co_heap (hx_core s)"

definition set_hxheap :: "heap \<Rightarrow> hotplug_ctx \<Rightarrow> hotplug_ctx" where
  "set_hxheap h s = s\<lparr>hx_core := set_heap h (hx_core s)\<rparr>"

definition on_hcore :: "(core_ctx \<Rightarrow> core_ctx option) \<Rightarrow> hotplug_ctx \<Rightarrow> hotplug_ctx option" where
  "on_hcore f s = do { c \<leftarrow> f (hx_core s); Some (s\<lparr>hx_core := c\<rparr>) }"

subsection \<open>Matching\<close>

definition field_mismatch :: "int \<Rightarrow> int \<Rightarrow> bool" where
  "field_mismatch wanted actual \<longleftrightarrow> wanted \<noteq> LIBUSB_HOTPLUG_MATCH_ANY \<and> wanted \<noteq> actual"

definition dev_matches :: "hotplug_callback \<Rightarrow> libusb_device_descriptor \<Rightarrow> bool" where
  "dev_matches cb d \<longleftrightarrow> \<not> field_mismatch (hc_vendor_id cb) (uint (dd_idVendor d)) \<and>
     \<not> field_mismatch (hc_product_id cb) (uint (dd_idProduct d)) \<and>
     \<not> field_mismatch (hc_dev_class cb) (uint (dd_bDeviceClass d))"

definition log_call :: "nat \<Rightarrow> ptr option \<Rightarrow> u32 \<Rightarrow> hotplug_ctx \<Rightarrow> hotplug_ctx" where
  "log_call fn dev event s = s\<lparr>hx_calls := hx_calls s @ [(fn, dev, event)]\<rparr>"

text \<open>The message that \<open>libusb_hotplug_deregister_callback\<close> sends has no device and no event bits; another message without a
  device is a fault here.\<close>

definition usbi_hotplug_match_cb ::
  "user_fn \<Rightarrow> ptr option \<Rightarrow> u32 \<Rightarrow> ptr \<Rightarrow> hotplug_ctx \<Rightarrow> (int \<times> hotplug_ctx) option" where
  "usbi_hotplug_match_cb user dev event hotplug_cb s = do {
     cb \<leftarrow> hx_cbs s hotplug_cb;
     if hc_needs_free cb then Some (1, s)
     else if hc_events cb AND event = 0 then Some (0, s)
     else do {
       p \<leftarrow> dev;
       dv \<leftarrow> get_dev p (hx_core s);
       if \<not> dev_matches cb (dv_device_descriptor dv) then Some (0, s)
       else user (hc_fn cb) dev event (log_call (hc_fn cb) dev event s)
     }
   }"

text \<open>The entry behind \<open>p\<close> in the list, as the pointer \<open>next\<close> of the entry has it: nothing at the end.\<close>

fun next_in :: "ptr list \<Rightarrow> ptr \<Rightarrow> ptr option" where
  "next_in [] p = None"
| "next_in [q] p = None"
| "next_in (q # r # qs) p = (if q = p then Some r else next_in (r # qs) p)"

definition del_callback :: "ptr \<Rightarrow> hotplug_ctx \<Rightarrow> hotplug_ctx option" where
  "del_callback p s = do {
     h \<leftarrow> c_release p (hx_heap s);
     Some (set_hxheap h (s\<lparr>hx_list := remove1 p (hx_list s), hx_cbs := (hx_cbs s)(p := None)\<rparr>))
   }"

text \<open>\<open>list_for_each_entry_safe\<close>: the next entry is read before the body; reading it off an entry that is on no list is
  a fault.\<close>

partial_function (option) match_loop ::
  "user_fn \<Rightarrow> ptr option \<Rightarrow> u32 \<Rightarrow> ptr option \<Rightarrow> hotplug_ctx \<Rightarrow> hotplug_ctx option" where
  "match_loop user dev event cur s =
     (case cur of
        None \<Rightarrow> Some s
      | Some p \<Rightarrow>
          if p \<notin> set (hx_list s) then None
          else Option.bind (unlock_cbs s) (\<lambda>s1.
               Option.bind (usbi_hotplug_match_cb user dev event p s1) (\<lambda>(ret, s2).
               Option.bind (lock_cbs s2) (\<lambda>s3.
               Option.bind (if ret \<noteq> 0 then del_callback p s3 else Some s3) (\<lambda>s4.
               match_loop user dev event (next_in (hx_list s) p) s4)))))"

definition usbi_hotplug_match :: "user_fn \<Rightarrow> ptr option \<Rightarrow> u32 \<Rightarrow> hotplug_ctx \<Rightarrow> hotplug_ctx option" where
  "usbi_hotplug_match user dev event s = do {
     s1 \<leftarrow> lock_cbs s;
     s2 \<leftarrow> match_loop user dev event (case hx_list s1 of [] \<Rightarrow> None | p # _ \<Rightarrow> Some p) s1;
     unlock_cbs s2
   }"

subsection \<open>Deregistration\<close>

definition mark_handle :: "u32 \<Rightarrow> ptr list \<Rightarrow> (ptr \<Rightarrow> hotplug_callback option) \<Rightarrow> ptr \<Rightarrow> hotplug_callback option" where
  "mark_handle handle ps cbs = (\<lambda>p. case cbs p of
       None \<Rightarrow> None
     | Some cb \<Rightarrow> Some (if p \<in> set ps \<and> hc_handle cb = handle then cb\<lparr>hc_needs_free := True\<rparr> else cb))"

definition libusb_hotplug_deregister_callback :: "core_backend \<Rightarrow> u32 \<Rightarrow> hotplug_ctx \<Rightarrow> hotplug_ctx option" where
  "libusb_hotplug_deregister_callback be callback_handle s =
     (if \<not> has_hotplug be then Some s
      else do {
        s1 \<leftarrow> lock_cbs s;
        s2 \<leftarrow> unlock_cbs (s1\<lparr>hx_cbs := mark_handle callback_handle (hx_list s1) (hx_cbs s1)\<rparr>);
        on_hcore (core_notification None 0) s2
      })"

primrec del_callbacks :: "ptr list \<Rightarrow> hotplug_ctx \<Rightarrow> hotplug_ctx option" where
  "del_callbacks [] s = Some s"
| "del_callbacks (p # ps) s = do { s1 \<leftarrow> del_callback p s; del_callbacks ps s1 }"

definition usbi_hotplug_deregister_all :: "hotplug_ctx \<Rightarrow> hotplug_ctx option" where
  "usbi_hotplug_deregister_all s = do {
     s1 \<leftarrow> lock_cbs s;
     s2 \<leftarrow> del_callbacks (hx_list s1) s1;
     unlock_cbs s2
   }"

subsection \<open>Registration\<close>

primrec match_devices :: "user_fn \<Rightarrow> ptr \<Rightarrow> ptr list \<Rightarrow> hotplug_ctx \<Rightarrow> hotplug_ctx option" where
  "match_devices user new_callback [] s = Some s"
| "match_devices user new_callback (d # ds) s = do {
     (_, s1) \<leftarrow> usbi_hotplug_match_cb user (Some d) LIBUSB_HOTPLUG_EVENT_DEVICE_ARRIVED new_callback s;
     match_devices user new_callback ds s1
   }"

text \<open>\<open>~0xffff & x\<close> for an \<open>int\<close> that is not negative; a negative one has higher bits set.\<close>

definition out_of_field :: "int \<Rightarrow> int \<Rightarrow> bool" where
  "out_of_field m x \<longleftrightarrow> x \<noteq> LIBUSB_HOTPLUG_MATCH_ANY \<and> (x < 0 \<or> m < x)"

definition new_hotplug_callback :: "u32 \<Rightarrow> u32 \<Rightarrow> int \<Rightarrow> int \<Rightarrow> int \<Rightarrow> nat \<Rightarrow> u32 \<Rightarrow> hotplug_callback" where
  "new_hotplug_callback events flags vendor_id product_id dev_class fn handle =
     \<lparr>hc_vendor_id = vendor_id, hc_product_id = product_id, hc_dev_class = dev_class, hc_flags = flags, hc_events = events,
      hc_fn = fn, hc_handle = handle, hc_needs_free = False\<rparr>"

text \<open>The devices that are there when the callback asks for them: the results of the user's function are not looked at.\<close>

definition enumerate_for ::
  "core_backend \<Rightarrow> user_fn \<Rightarrow> ptr \<Rightarrow> u32 \<Rightarrow> hotplug_ctx \<Rightarrow> (int \<times> hotplug_ctx) option" where
  "enumerate_for be user new_callback handle s = do {
     (len, devs, c) \<leftarrow> libusb_get_device_list be (hx_core s);
     let s1 = s\<lparr>hx_core := c\<rparr>;
     if len < 0 then do { s2 \<leftarrow> libusb_hotplug_deregister_callback be handle s1; Some (len, s2) }
     else do {
       (_, ds) \<leftarrow> devs;
       s2 \<leftarrow> match_devices user new_callback ds s1;
       s3 \<leftarrow> on_hcore (libusb_free_device_list be devs True) s2;
       Some (LIBUSB_SUCCESS, s3)
     }
   }"

text \<open>The result, the handle that is stored, and the context.\<close>

definition libusb_hotplug_register_callback ::
  "core_backend \<Rightarrow> user_fn \<Rightarrow> u32 \<Rightarrow> u32 \<Rightarrow> int \<Rightarrow> int \<Rightarrow> int \<Rightarrow> nat option \<Rightarrow> hotplug_ctx \<Rightarrow> (int \<times> u32 option \<times> hotplug_ctx) option" where
  "libusb_hotplug_register_callback be user events flags vendor_id product_id dev_class cb_fn s =
     (if \<not> has_hotplug be then Some (LIBUSB_ERROR_NOT_SUPPORTED, None, s)
      else if out_of_field 0xffff vendor_id \<or> out_of_field 0xffff product_id \<or> out_of_field 0xff dev_class \<or> cb_fn = None
           then Some (LIBUSB_ERROR_INVALID_PARAM, None, s)
      else (case c_malloc (hx_heap s) of
          (None, h) \<Rightarrow> Some (LIBUSB_ERROR_NO_MEM, None, set_hxheap h s)
        | (Some new_callback, h) \<Rightarrow> do {
            fn \<leftarrow> cb_fn;
            s1 \<leftarrow> lock_cbs (set_hxheap h s);
            let handle = hx_handle_id s1;
            s2 \<leftarrow> unlock_cbs (s1\<lparr>hx_cbs := (hx_cbs s1)(new_callback \<mapsto>
                     new_hotplug_callback events flags vendor_id product_id dev_class fn handle),
                   hx_handle_id := handle + 1, hx_list := new_callback # hx_list s1\<rparr>);
            if flags AND LIBUSB_HOTPLUG_ENUMERATE \<noteq> 0 then do {
              (r, s3) \<leftarrow> enumerate_for be user new_callback handle s2;
              if r < 0 then Some (r, None, s3)
              else do { cb \<leftarrow> hx_cbs s3 new_callback; Some (LIBUSB_SUCCESS, Some (hc_handle cb), s3) }
            }
            else Some (LIBUSB_SUCCESS, Some handle, s2)
          }))"

subsection \<open>A message in the event handler\<close>

definition hotplug_message :: "core_backend \<Rightarrow> user_fn \<Rightarrow> libusb_hotplug_message \<Rightarrow> hotplug_ctx \<Rightarrow> hotplug_ctx option" where
  "hotplug_message be user message s = do {
     s1 \<leftarrow> usbi_hotplug_match user (hm_device message) (hm_event message) s;
     s2 \<leftarrow> (if hm_event message = LIBUSB_HOTPLUG_EVENT_DEVICE_LEFT
            then on_hcore (libusb_unref_device be (hm_device message)) s1 else Some s1);
     h \<leftarrow> c_release (hm_block message) (hx_heap s2);
     Some (set_hxheap h s2)
   }"

end
