(* ===== verification/Hotplug_Props.thy ===== *)
theory Hotplug_Props
  imports Hotplug Linux_Device_Steps "HOL-Library.Sublist"
begin

text \<open>
  The properties of hotplug callbacks: matching an event visits every callback, frees the ones that are finished and
  no other, and is safe while the user's functions register and deregister callbacks.
\<close>

subsection \<open>The invariant, and what a user's function may do\<close>

definition hx_ok :: "hotplug_ctx \<Rightarrow> bool" where
  "hx_ok s \<longleftrightarrow> \<not> hx_lock s \<and> distinct (hx_list s) \<and> dom (hx_cbs s) = set (hx_list s) \<and>
     set (hx_list s) \<subseteq> hp_live (hx_heap s) \<and> heap_wf (hx_heap s) \<and> \<not> ed_lock (co_ev (hx_core s))"

definition marked :: "hotplug_ctx \<Rightarrow> ptr \<Rightarrow> bool" where
  "marked s p \<longleftrightarrow> (case hx_cbs s p of Some cb \<Rightarrow> hc_needs_free cb | None \<Rightarrow> False)"

definition dev_descriptor :: "hotplug_ctx \<Rightarrow> ptr \<Rightarrow> libusb_device_descriptor option" where
  "dev_descriptor s p = map_option dv_device_descriptor (get_dev p (hx_core s))"

text \<open>New callbacks in front of the list, marks on old ones; the old ones stay, and so do the devices.\<close>

definition user_frame :: "hotplug_ctx \<Rightarrow> hotplug_ctx \<Rightarrow> bool" where
  "user_frame s s' \<longleftrightarrow> hx_ok s' \<and> (\<exists>new. hx_list s' = new @ hx_list s) \<and> (\<forall>p. marked s p \<longrightarrow> marked s' p) \<and>
     (\<forall>p. dev_descriptor s p \<noteq> None \<longrightarrow> dev_descriptor s' p = dev_descriptor s p)"

lemma user_frame_refl [simp]: "user_frame s s \<longleftrightarrow> hx_ok s"
  by (auto simp: user_frame_def)

lemma user_frame_trans: "user_frame s s1 \<Longrightarrow> user_frame s1 s2 \<Longrightarrow> user_frame s s2"
  unfolding user_frame_def by (metis append_assoc)

lemma log_call_simps [simp]:
  "hx_core (log_call fn dev ev s) = hx_core s" "hx_cbs (log_call fn dev ev s) = hx_cbs s" "hx_list (log_call fn dev ev s) = hx_list s"
  "hx_lock (log_call fn dev ev s) = hx_lock s" "hx_ok (log_call fn dev ev s) = hx_ok s" "marked (log_call fn dev ev s) = marked s"
  "dev_descriptor (log_call fn dev ev s) = dev_descriptor s"
  by (simp_all add: log_call_def hx_ok_def marked_def dev_descriptor_def fun_eq_iff)

lemma user_frame_log: "user_frame (log_call fn dev ev s) s' \<Longrightarrow> user_frame s s'"
  by (simp add: user_frame_def)

lemma next_in_split:
  assumes "distinct (pre @ p # post)"
  shows "next_in (pre @ p # post) p = (case post of [] \<Rightarrow> None | q # _ \<Rightarrow> Some q)"
  using assms
proof (induction pre)
  case Nil
  then show ?case by (cases post) auto
next
  case (Cons a pre)
  then show ?case by (cases pre) auto
qed

lemma subseq_set: "subseq xs ys \<Longrightarrow> set xs \<subseteq> set ys"
  by (auto simp: subseq_conv_nths dest: in_set_nthsD)

text \<open>An event without a device has no bits.\<close>

definition event_ok :: "ptr option \<Rightarrow> u32 \<Rightarrow> hotplug_ctx \<Rightarrow> bool" where
  "event_ok dev event s \<longleftrightarrow> event = 0 \<or> (\<exists>p. dev = Some p \<and> dev_descriptor s p \<noteq> None)"

lemma event_ok_frame: "event_ok dev event s \<Longrightarrow> user_frame s s' \<Longrightarrow> event_ok dev event s'"
  unfolding event_ok_def user_frame_def by fastforce

lemma del_callback_ok:
  assumes ok: "hx_ok (s\<lparr>hx_lock := False\<rparr>)" and p: "p \<in> set (hx_list s)"
  obtains s' where "del_callback p s = Some s'" and "hx_ok (s'\<lparr>hx_lock := False\<rparr>)" and "hx_list s' = remove1 p (hx_list s)"
    and "hx_lock s' = hx_lock s" and "hx_cbs s' = (hx_cbs s)(p := None)" and "dev_descriptor s' = dev_descriptor s"
    and "hx_calls s' = hx_calls s"
proof -
  have wf: "heap_wf (hx_heap s)" "p \<in> hp_live (hx_heap s)" using ok p by (auto simp: hx_ok_def)
  obtain h where h: "c_release p (hx_heap s) = Some h" "hp_live h = hp_live (hx_heap s) - {p}" "heap_wf h"
    using ledger.release_live [OF wf] by blast
  let ?s = "set_hxheap h (s\<lparr>hx_list := remove1 p (hx_list s), hx_cbs := (hx_cbs s)(p := None)\<rparr>)"
  have "hx_ok (?s\<lparr>hx_lock := False\<rparr>)"
    using ok h p by (auto simp: hx_ok_def set_hxheap_def set_remove1_eq)
  then show ?thesis
    using that [of ?s] h(1) by (simp add: del_callback_def set_hxheap_def dev_descriptor_def fun_eq_iff)
qed

locale hotplug_user =
  fixes user :: user_fn
  assumes frame: "hx_ok s \<Longrightarrow> \<exists>r s'. user fn dev event s = Some (r, s') \<and> user_frame s s'"
begin

lemma match_cb_ok:
  assumes ok: "hx_ok s" and p: "p \<in> set (hx_list s)" and ev: "event_ok dev event s"
  obtains r s' where "usbi_hotplug_match_cb user dev event p s = Some (r, s')" and "user_frame s s'" and "marked s p \<Longrightarrow> r \<noteq> 0"
proof -
  from ok p obtain cb where cb: "hx_cbs s p = Some cb" unfolding hx_ok_def by blast
  show ?thesis
  proof (cases "hc_needs_free cb \<or> hc_events cb AND event = 0")
    case True
    with cb have "usbi_hotplug_match_cb user dev event p s = Some (if hc_needs_free cb then 1 else 0, s)"
      by (auto simp: usbi_hotplug_match_cb_def)
    with cb ok that show ?thesis by (auto simp: marked_def)
  next
    case False
    with ev obtain d dv where d: "dev = Some d" "get_dev d (hx_core s) = Some dv"
      by (auto simp: event_ok_def dev_descriptor_def)
    obtain r s' where u: "user (hc_fn cb) dev event (log_call (hc_fn cb) dev event s) = Some (r, s')"
      "user_frame (log_call (hc_fn cb) dev event s) s'" using frame ok by (metis log_call_simps(5))
    show ?thesis
    proof (cases "dev_matches cb (dv_device_descriptor dv)")
      case True
      with cb False d u user_frame_log [OF u(2)] that show ?thesis by (auto simp: usbi_hotplug_match_cb_def marked_def)
    next
      case no: False
      with cb False d ok that show ?thesis by (auto simp: usbi_hotplug_match_cb_def marked_def)
    qed
  qed
qed

lemma match_loop_ok:
  assumes "hx_list s = pre @ rest" and "hx_lock s" and "hx_ok (s\<lparr>hx_lock := False\<rparr>)" and "event_ok dev event s"
  shows "\<exists>s' new kept. match_loop user dev event (case rest of [] \<Rightarrow> None | p # _ \<Rightarrow> Some p) s = Some s' \<and> hx_lock s' \<and>
    hx_ok (s'\<lparr>hx_lock := False\<rparr>) \<and> hx_list s' = new @ pre @ kept \<and> subseq kept rest \<and>
    (\<forall>p \<in> set kept. \<not> marked s p) \<and> (\<forall>p. marked s p \<longrightarrow> p \<in> set pre \<longrightarrow> marked s' p) \<and>
    (\<forall>p. dev_descriptor s p \<noteq> None \<longrightarrow> dev_descriptor s' p = dev_descriptor s p)"
  using assms
proof (induction rest arbitrary: pre s)
  case Nil
  then have "match_loop user dev event None s = Some s" by (subst match_loop.simps) simp
  with Nil show ?case by (intro exI [of _ s] exI [of _ "[]"]) simp
next
  case (Cons p rest)
  let ?u = "s\<lparr>hx_lock := False\<rparr>"
  have m: "marked ?u = marked s" "dev_descriptor ?u = dev_descriptor s" by (simp_all add: marked_def dev_descriptor_def fun_eq_iff)
  have dist: "distinct (pre @ p # rest)" using Cons.prems(1,3) by (simp add: hx_ok_def)
  note nx = next_in_split [OF dist]
  have pl: "p \<in> set (hx_list ?u)" using Cons.prems(1) by simp
  have ev: "event_ok dev event ?u" using Cons.prems(4) by (simp add: event_ok_def m)
  obtain r s2 where mc: "usbi_hotplug_match_cb user dev event p ?u = Some (r, s2)" "user_frame ?u s2" "marked ?u p \<Longrightarrow> r \<noteq> 0"
    using match_cb_ok [OF Cons.prems(3) pl ev] by blast
  from mc(2) obtain new1 where f: "hx_ok s2" "hx_list s2 = new1 @ pre @ p # rest" "\<forall>q. marked s q \<longrightarrow> marked s2 q"
    "\<forall>q. dev_descriptor s q \<noteq> None \<longrightarrow> dev_descriptor s2 q = dev_descriptor s q"
    using Cons.prems(1) by (auto simp: user_frame_def m)
  let ?s3 = "s2\<lparr>hx_lock := True\<rparr>"
  have l3: "lock_cbs s2 = Some ?s3" using f(1) by (simp add: lock_cbs_def hx_ok_def)
  have un: "?s3\<lparr>hx_lock := False\<rparr> = s2" using f(1) by (simp add: hx_ok_def)
  have m3: "marked ?s3 = marked s2" "dev_descriptor ?s3 = dev_descriptor s2" by (simp_all add: marked_def dev_descriptor_def fun_eq_iff)
  have d2: "distinct (new1 @ pre @ p # rest)" using f(1,2) by (simp add: hx_ok_def)
  have eq: "match_loop user dev event (Some p) s = Option.bind (if r \<noteq> 0 then del_callback p ?s3 else Some ?s3)
      (match_loop user dev event (case rest of [] \<Rightarrow> None | q # _ \<Rightarrow> Some q))"
    using Cons.prems(1,2) mc(1) l3 by (subst match_loop.simps) (simp add: unlock_cbs_def nx)
  show ?case
  proof (cases "r = 0")
    case True
    then have nm: "\<not> marked s p" using mc(3) m by auto
    have "hx_list ?s3 = (new1 @ pre @ [p]) @ rest" using f(2) by simp
    moreover have "hx_ok (?s3\<lparr>hx_lock := False\<rparr>)" using f(1) un by simp
    moreover have "event_ok dev event ?s3" using event_ok_frame [OF ev mc(2)] by (simp add: event_ok_def m3)
    ultimately obtain s' new kept where
      s': "match_loop user dev event (case rest of [] \<Rightarrow> None | q # _ \<Rightarrow> Some q) ?s3 = Some s'" "hx_lock s'" "hx_ok (s'\<lparr>hx_lock := False\<rparr>)"
        "hx_list s' = new @ (new1 @ pre @ [p]) @ kept" "subseq kept rest" "\<forall>q \<in> set kept. \<not> marked ?s3 q"
        "\<forall>q. marked ?s3 q \<longrightarrow> q \<in> set (new1 @ pre @ [p]) \<longrightarrow> marked s' q"
        "\<forall>q. dev_descriptor ?s3 q \<noteq> None \<longrightarrow> dev_descriptor s' q = dev_descriptor ?s3 q"
      using Cons.IH [of ?s3 "new1 @ pre @ [p]"] by auto
    have "match_loop user dev event (Some p) s = Some s'" using eq True s'(1) by simp
    moreover have "\<forall>q \<in> set (p # kept). \<not> marked s q" using s'(6) f(3) nm by (auto simp: m3)
    moreover have "\<forall>q. marked s q \<longrightarrow> q \<in> set pre \<longrightarrow> marked s' q" using s'(7) f(3) by (auto simp: m3)
    moreover have "\<forall>q. dev_descriptor s q \<noteq> None \<longrightarrow> dev_descriptor s' q = dev_descriptor s q" using s'(8) f(4) unfolding m3 by metis
    moreover have "hx_list s' = (new @ new1) @ pre @ (p # kept)" using s'(4) by simp
    moreover have "subseq (p # kept) (p # rest)" using s'(5) by simp
    ultimately show ?thesis using s'(2,3) by (metis list.simps(5))
  next
    case False
    have ok3: "hx_ok (?s3\<lparr>hx_lock := False\<rparr>)" using f(1) un by simp
    have p3: "p \<in> set (hx_list ?s3)" using f(2) by simp
    obtain s4 where s4: "del_callback p ?s3 = Some s4" "hx_ok (s4\<lparr>hx_lock := False\<rparr>)" "hx_list s4 = remove1 p (hx_list ?s3)"
      "hx_lock s4 = hx_lock ?s3" "hx_cbs s4 = (hx_cbs ?s3)(p := None)" "dev_descriptor s4 = dev_descriptor ?s3"
      by (rule del_callback_ok [OF ok3 p3])
    have m4: "marked s4 q \<longleftrightarrow> q \<noteq> p \<and> marked s2 q" for q by (simp add: marked_def s4(5))
    have "hx_list s4 = (new1 @ pre) @ rest" using s4(3) f(2) d2 by (simp add: remove1_append)
    moreover have "event_ok dev event s4" using event_ok_frame [OF ev mc(2)] by (simp add: event_ok_def m3 s4(6))
    moreover have "hx_lock s4" using s4(4) by simp
    ultimately obtain s' new kept where
      s': "match_loop user dev event (case rest of [] \<Rightarrow> None | q # _ \<Rightarrow> Some q) s4 = Some s'" "hx_lock s'" "hx_ok (s'\<lparr>hx_lock := False\<rparr>)"
        "hx_list s' = new @ (new1 @ pre) @ kept" "subseq kept rest" "\<forall>q \<in> set kept. \<not> marked s4 q"
        "\<forall>q. marked s4 q \<longrightarrow> q \<in> set (new1 @ pre) \<longrightarrow> marked s' q"
        "\<forall>q. dev_descriptor s4 q \<noteq> None \<longrightarrow> dev_descriptor s' q = dev_descriptor s4 q"
      using Cons.IH [OF _ _ s4(2)] by blast
    have sub: "set kept \<subseteq> set rest" using s'(5) by (rule subseq_set)
    have "match_loop user dev event (Some p) s = Some s'" using eq False s4(1) s'(1) by simp
    moreover have "\<forall>q \<in> set kept. \<not> marked s q" using s'(6) f(3) sub d2 by (auto simp: m4)
    moreover have "\<forall>q. marked s q \<longrightarrow> q \<in> set pre \<longrightarrow> marked s' q" using s'(7) f(3) d2 by (auto simp: m4)
    moreover have "\<forall>q. dev_descriptor s q \<noteq> None \<longrightarrow> dev_descriptor s' q = dev_descriptor s q"
      using s'(8) f(4) unfolding m3 s4(6) by metis
    moreover have "hx_list s' = (new @ new1) @ pre @ kept" using s'(4) by simp
    moreover have "subseq kept (p # rest)" using s'(5) by (rule list_emb_Cons)
    ultimately show ?thesis using s'(2,3) by (metis list.simps(5))
  qed
qed

lemma match_ok:
  assumes "hx_ok s" and "event_ok dev event s"
  shows "\<exists>s' new kept. usbi_hotplug_match user dev event s = Some s' \<and> hx_ok s' \<and> hx_list s' = new @ kept \<and>
    subseq kept (hx_list s) \<and> (\<forall>p \<in> set kept. \<not> marked s p)"
proof -
  let ?s = "s\<lparr>hx_lock := True\<rparr>"
  have m: "marked ?s = marked s" "event_ok dev event ?s" using assms(2) by (simp_all add: marked_def event_ok_def dev_descriptor_def fun_eq_iff)
  have "?s\<lparr>hx_lock := False\<rparr> = s" using assms(1) by (simp add: hx_ok_def)
  with assms(1) have "hx_ok (?s\<lparr>hx_lock := False\<rparr>)" by simp
  then obtain s' new kept where
    s': "match_loop user dev event (case hx_list s of [] \<Rightarrow> None | p # _ \<Rightarrow> Some p) ?s = Some s'" "hx_lock s'"
      "hx_ok (s'\<lparr>hx_lock := False\<rparr>)" "hx_list s' = new @ kept" "subseq kept (hx_list s)" "\<forall>p \<in> set kept. \<not> marked s p"
    using match_loop_ok [of ?s "[]" "hx_list s" dev event] m by auto
  have "usbi_hotplug_match user dev event s = Some (s'\<lparr>hx_lock := False\<rparr>)"
    using assms(1) s'(1,2) by (simp add: usbi_hotplug_match_def lock_cbs_def unlock_cbs_def hx_ok_def)
  with s' show ?thesis by auto
qed

end

subsection \<open>Functions that call the library\<close>

datatype hotplug_op = Register u32 int int int nat | Deregister u32

definition run_op :: "core_backend \<Rightarrow> hotplug_op \<Rightarrow> hotplug_ctx \<Rightarrow> hotplug_ctx option" where
  "run_op be k s = (case k of
       Register events vendor_id product_id dev_class fn \<Rightarrow>
         map_option (\<lambda>(r, h, s'). s')
           (libusb_hotplug_register_callback be (\<lambda>_ _ _ _. None) events 0 vendor_id product_id dev_class (Some fn) s)
     | Deregister handle \<Rightarrow> libusb_hotplug_deregister_callback be handle s)"

primrec run_ops :: "core_backend \<Rightarrow> hotplug_op list \<Rightarrow> hotplug_ctx \<Rightarrow> hotplug_ctx option" where
  "run_ops be [] s = Some s"
| "run_ops be (k # ks) s = do { s1 \<leftarrow> run_op be k s; run_ops be ks s1 }"

text \<open>A function that makes these calls and returns a number.\<close>

definition script_user :: "core_backend \<Rightarrow> (nat \<Rightarrow> ptr option \<Rightarrow> u32 \<Rightarrow> int \<times> hotplug_op list) \<Rightarrow> user_fn" where
  "script_user be script fn dev event s = (case script fn dev event of (r, ks) \<Rightarrow> map_option (Pair r) (run_ops be ks s))"

lemma hx_ok_heap:
  assumes "hx_ok s" and "heap_wf h" and "hp_live (hx_heap s) \<subseteq> hp_live h"
  shows "user_frame s (set_hxheap h s)"
  using assms by (auto simp: user_frame_def hx_ok_def set_hxheap_def marked_def dev_descriptor_def)

lemma register_frame:
  assumes ok: "hx_ok s"
  shows "\<exists>r h s'. libusb_hotplug_register_callback be user events 0 vendor_id product_id dev_class (Some fn) s = Some (r, h, s') \<and> user_frame s s'"
proof (cases "has_hotplug be \<and> \<not> (out_of_field 0xffff vendor_id \<or> out_of_field 0xffff product_id \<or> out_of_field 0xff dev_class)")
  case False
  with ok show ?thesis by (auto simp: libusb_hotplug_register_callback_def)
next
  case True
  have wf: "heap_wf (hx_heap s)" using ok by (simp add: hx_ok_def)
  obtain q h where m: "c_malloc (hx_heap s) = (q, h)" by fastforce
  show ?thesis
  proof (cases q)
    case None
    with ledger.alloc_None [OF wf] m have "heap_wf h" "hp_live (hx_heap s) \<subseteq> hp_live h" by auto
    from hx_ok_heap [OF ok this] True m None show ?thesis by (simp add: libusb_hotplug_register_callback_def)
  next
    case (Some p)
    with ledger.alloc_Some [OF wf] m have h: "p \<notin> hp_live (hx_heap s)" "hp_live h = insert p (hp_live (hx_heap s))" "heap_wf h" by auto
    have pn: "p \<notin> set (hx_list s)" "hx_cbs s p = None" using ok h(1) by (auto simp: hx_ok_def)
    let ?cb = "new_hotplug_callback events 0 vendor_id product_id dev_class fn (hx_handle_id s)"
    let ?s = "(set_hxheap h s)\<lparr>hx_cbs := (hx_cbs s)(p \<mapsto> ?cb), hx_handle_id := hx_handle_id s + 1, hx_list := p # hx_list s\<rparr>"
    have "libusb_hotplug_register_callback be user events 0 vendor_id product_id dev_class (Some fn) s =
        Some (LIBUSB_SUCCESS, Some (hx_handle_id s), ?s)"
      using True m Some ok by (simp add: libusb_hotplug_register_callback_def lock_cbs_def unlock_cbs_def set_hxheap_def hx_ok_def Let_def)
    moreover have "hx_ok ?s" using ok h pn by (auto simp: hx_ok_def set_hxheap_def)
    moreover have "\<forall>q. marked s q \<longrightarrow> marked ?s q" using pn by (auto simp: marked_def set_hxheap_def)
    moreover have "dev_descriptor ?s = dev_descriptor s" by (simp add: dev_descriptor_def set_hxheap_def fun_eq_iff)
    ultimately show ?thesis by (auto simp: user_frame_def)
  qed
qed

lemma core_notification_ok:
  assumes "\<not> ed_lock (co_ev c)" and "heap_wf (co_heap c)"
  shows "\<exists>c'. core_notification dev event c = Some c' \<and> co_devs c' = co_devs c \<and> \<not> ed_lock (co_ev c') \<and> heap_wf (co_heap c') \<and>
    hp_live (co_heap c) \<subseteq> hp_live (co_heap c')"
  using hotplug_notification_ok [OF assms, of dev event] by (auto simp: core_notification_def)

lemma deregister_frame:
  assumes ok: "hx_ok s"
  shows "\<exists>s'. libusb_hotplug_deregister_callback be handle s = Some s' \<and> user_frame s s' \<and>
    (has_hotplug be \<longrightarrow> (\<forall>p cb. hx_cbs s p = Some cb \<longrightarrow> hc_handle cb = handle \<longrightarrow> marked s' p))"
proof (cases "has_hotplug be")
  case False
  with ok show ?thesis by (simp add: libusb_hotplug_deregister_callback_def)
next
  case True
  let ?s = "s\<lparr>hx_cbs := mark_handle handle (hx_list s) (hx_cbs s)\<rparr>"
  have un: "s\<lparr>hx_lock := True, hx_cbs := mark_handle handle (hx_list s) (hx_cbs s), hx_lock := False\<rparr> = ?s"
    using ok by (simp add: hx_ok_def)
  from ok have "\<not> ed_lock (co_ev (hx_core s))" "heap_wf (hx_heap s)" by (simp_all add: hx_ok_def)
  from core_notification_ok [OF this, of None 0] obtain c' where
    c': "core_notification None 0 (hx_core s) = Some c'" "co_devs c' = co_devs (hx_core s)" "\<not> ed_lock (co_ev c')" "heap_wf (co_heap c')"
      "hp_live (hx_heap s) \<subseteq> hp_live (co_heap c')" by blast
  let ?s' = "?s\<lparr>hx_core := c'\<rparr>"
  have "libusb_hotplug_deregister_callback be handle s = Some ?s'"
    using True ok un c'(1) by (simp add: libusb_hotplug_deregister_callback_def lock_cbs_def unlock_cbs_def on_hcore_def hx_ok_def)
  moreover have "dom (mark_handle handle (hx_list s) (hx_cbs s)) = dom (hx_cbs s)"
    by (auto simp: mark_handle_def split: option.splits)
  then have "hx_ok ?s'" using ok c' by (auto simp: hx_ok_def)
  moreover have "marked s p \<longrightarrow> marked ?s' p" for p by (auto simp: marked_def mark_handle_def split: option.splits)
  moreover have "dev_descriptor ?s' = dev_descriptor s" using c'(2) by (simp add: dev_descriptor_def get_dev_def fun_eq_iff)
  moreover have "marked ?s' p" if "hx_cbs s p = Some cb" "hc_handle cb = handle" for p cb
  proof -
    have "p \<in> set (hx_list s)" using that(1) ok by (auto simp: hx_ok_def)
    with that show ?thesis by (simp add: marked_def mark_handle_def)
  qed
  ultimately show ?thesis by (auto simp: user_frame_def)
qed

lemma run_ops_frame: "hx_ok s \<Longrightarrow> \<exists>s'. run_ops be ks s = Some s' \<and> user_frame s s'"
proof (induction ks arbitrary: s)
  case Nil
  then show ?case by simp
next
  case (Cons k ks)
  have "\<exists>s1. run_op be k s = Some s1 \<and> user_frame s s1"
  proof (cases k)
    case (Register events vendor_id product_id dev_class fn)
    with register_frame [OF Cons.prems, of be "\<lambda>_ _ _ _. None" events vendor_id product_id dev_class fn] show ?thesis
      by (auto simp: run_op_def)
  next
    case (Deregister handle)
    with deregister_frame [OF Cons.prems, of be handle] show ?thesis by (auto simp: run_op_def)
  qed
  then obtain s1 where s1: "run_op be k s = Some s1" "user_frame s s1" by blast
  then have "hx_ok s1" by (simp add: user_frame_def)
  from Cons.IH [OF this] s1 user_frame_trans show ?case by auto
qed

interpretation scripts: hotplug_user "script_user be script" for be script
proof
  fix s fn dev event
  assume "hx_ok s"
  from run_ops_frame [OF this, of be "snd (script fn dev event)"]
  show "\<exists>r s'. script_user be script fn dev event s = Some (r, s') \<and> user_frame s s'"
    by (auto simp: script_user_def split: prod.split)
qed

subsection \<open>An example\<close>

text \<open>Two callbacks for any device: the first was deregistered, the second calls function 7 for arrivals.\<close>

definition two_callbacks :: hotplug_ctx where
  "two_callbacks = \<lparr>hx_core = set_heap \<lparr>hp_next = 4, hp_live = {0, 1, 2, 3}, hp_fail = (\<lambda>_. False), hp_refail = (\<lambda>_. False)\<rparr> hub_and_device,
     hx_cbs = [2 \<mapsto> new_hotplug_callback 1 0 (-1) (-1) (-1) 7 1, 3 \<mapsto> (new_hotplug_callback 3 0 (-1) (-1) (-1) 8 2)\<lparr>hc_needs_free := True\<rparr>],
     hx_list = [3, 2], hx_lock = False, hx_handle_id = 3, hx_calls = []\<rparr>"

lemma two_callbacks_ok: "hx_ok two_callbacks"
  by (auto simp: hx_ok_def two_callbacks_def heap_wf_def set_heap_def hub_and_device_def event_data0_def)

lemma two_callbacks_device: "dev_descriptor two_callbacks 0 = Some (dv_device_descriptor (new_device 256))"
  by (simp add: dev_descriptor_def two_callbacks_def get_dev_def set_heap_def hub_and_device_def new_device_def)

subsection \<open>The properties\<close>

text \<open>C23. Matching an event is safe while the user's functions register and deregister callbacks themselves, in any number and
  order: it ends, no callback is read or freed after it was freed, the invariant holds afterwards (the list has exactly
  the callbacks that live), callbacks registered meanwhile are at the front, and of the others those that were marked
  for deregistration are gone.\<close>

theorem hotplug_match_safe:
  assumes "hx_ok s" and "event_ok dev event s"
  shows "\<exists>s' new kept. usbi_hotplug_match (script_user be script) dev event s = Some s' \<and> hx_ok s' \<and> hx_list s' = new @ kept \<and>
    subseq kept (hx_list s) \<and> (\<forall>p \<in> set kept. \<not> marked s p)"
  by (rule scripts.match_ok [OF assms])

theorem hotplug_match_safe_witness:
  "\<exists>s' new kept. usbi_hotplug_match (script_user linux_backend (\<lambda>fn dev event. (0, [Register 3 (-1) (-1) (-1) 9, Deregister 1])))
      (Some 0) 1 two_callbacks = Some s' \<and> hx_ok s' \<and> hx_list s' = new @ kept \<and> subseq kept [3, 2] \<and> 3 \<notin> set kept"
proof -
  have "event_ok (Some 0) 1 two_callbacks" by (simp add: event_ok_def two_callbacks_device)
  moreover have "marked two_callbacks 3" "hx_list two_callbacks = [3, 2]" by (simp_all add: marked_def two_callbacks_def)
  ultimately show ?thesis
    using hotplug_match_safe [OF two_callbacks_ok, of "Some 0" 1 linux_backend
        "\<lambda>fn dev event. (0, [Register 3 (-1) (-1) (-1) 9, Deregister 1])"] by fastforce
qed

text \<open>A callback that the event matches, and one that the round leaves finished.\<close>

definition is_called :: "ptr \<Rightarrow> u32 \<Rightarrow> hotplug_ctx \<Rightarrow> ptr \<Rightarrow> bool" where
  "is_called d event s p \<longleftrightarrow> (case (hx_cbs s p, dev_descriptor s d) of
       (Some cb, Some desc) \<Rightarrow> \<not> hc_needs_free cb \<and> hc_events cb AND event \<noteq> 0 \<and> dev_matches cb desc
     | _ \<Rightarrow> False)"

definition fn_of :: "hotplug_ctx \<Rightarrow> ptr \<Rightarrow> nat" where
  "fn_of s p = (case hx_cbs s p of Some cb \<Rightarrow> hc_fn cb | None \<Rightarrow> 0)"

definition is_finished :: "(nat \<Rightarrow> ptr option \<Rightarrow> u32 \<Rightarrow> int) \<Rightarrow> ptr \<Rightarrow> u32 \<Rightarrow> hotplug_ctx \<Rightarrow> ptr \<Rightarrow> bool" where
  "is_finished ret d event s p \<longleftrightarrow> marked s p \<or> is_called d event s p \<and> ret (fn_of s p) (Some d) event \<noteq> 0"

lemma match_cb_plain:
  assumes "hx_cbs s p = Some cb" and "dev_descriptor s d \<noteq> None"
  shows "\<exists>r. usbi_hotplug_match_cb (\<lambda>fn dev ev s. Some (ret fn dev ev, s)) (Some d) event p s =
      Some (r, if is_called d event s p then log_call (fn_of s p) (Some d) event s else s) \<and>
    (r \<noteq> 0 \<longleftrightarrow> is_finished ret d event s p)"
  using assms
  by (auto simp: usbi_hotplug_match_cb_def is_called_def is_finished_def marked_def fn_of_def dev_descriptor_def)

lemma is_called_cong:
  assumes "hx_cbs s' p = hx_cbs s p" and "dev_descriptor s' = dev_descriptor s"
  shows "is_called d event s' p = is_called d event s p" and "fn_of s' p = fn_of s p"
    and "is_finished ret d event s' p = is_finished ret d event s p"
  using assms by (simp_all add: is_called_def fn_of_def is_finished_def marked_def)

lemma is_called_same:
  assumes "hx_cbs s' = hx_cbs s" and "dev_descriptor s' = dev_descriptor s"
  shows "is_called d event s' = is_called d event s" and "fn_of s' = fn_of s" and "is_finished ret d event s' = is_finished ret d event s"
  by (rule ext, rule is_called_cong, simp_all add: assms)+

abbreviation plain :: "(nat \<Rightarrow> ptr option \<Rightarrow> u32 \<Rightarrow> int) \<Rightarrow> user_fn" where
  "plain ret \<equiv> (\<lambda>fn dev ev s. Some (ret fn dev ev, s))"

lemma match_loop_plain:
  assumes "hx_list s = pre @ rest" and "hx_lock s" and "hx_ok (s\<lparr>hx_lock := False\<rparr>)" and "dev_descriptor s d \<noteq> None"
  shows "\<exists>s'. match_loop (plain ret) (Some d) event (case rest of [] \<Rightarrow> None | p # _ \<Rightarrow> Some p) s = Some s' \<and> hx_lock s' \<and>
    hx_ok (s'\<lparr>hx_lock := False\<rparr>) \<and> hx_list s' = pre @ filter (\<lambda>p. \<not> is_finished ret d event s p) rest \<and>
    hx_calls s' = hx_calls s @ map (\<lambda>p. (fn_of s p, Some d, event)) (filter (is_called d event s) rest)"
  using assms
proof (induction rest arbitrary: pre s)
  case Nil
  then show ?case by (subst match_loop.simps) simp
next
  case (Cons p rest)
  let ?u = "s\<lparr>hx_lock := False\<rparr>"
  let ?fin = "is_finished ret d event s" and ?called = "is_called d event s"
  have dist: "distinct (pre @ p # rest)" using Cons.prems(1,3) by (simp add: hx_ok_def)
  note nx = next_in_split [OF dist]
  have pl: "p \<in> set (hx_list s)" using Cons.prems(1) by simp
  with Cons.prems(3) obtain cb where cb: "hx_cbs s p = Some cb" by (auto simp: hx_ok_def)
  have dd: "dev_descriptor ?u = dev_descriptor s" by (simp add: dev_descriptor_def fun_eq_iff)
  note cu = is_called_cong [of ?u p s, OF _ dd, simplified]
  obtain r where mc: "usbi_hotplug_match_cb (plain ret) (Some d) event p ?u =
      Some (r, if ?called p then log_call (fn_of s p) (Some d) event ?u else ?u)" "r \<noteq> 0 \<longleftrightarrow> ?fin p"
    using match_cb_plain [of ?u p cb d ret event] cb Cons.prems(4) by (auto simp: cu dd)
  let ?s2 = "if ?called p then log_call (fn_of s p) (Some d) event s else s"
  have lk: "lock_cbs (if ?called p then log_call (fn_of s p) (Some d) event ?u else ?u) = Some ?s2"
    using Cons.prems(2) by (cases s) (simp add: lock_cbs_def log_call_def)
  have f2: "hx_list ?s2 = hx_list s" "hx_cbs ?s2 = hx_cbs s" "dev_descriptor ?s2 = dev_descriptor s" "hx_lock ?s2"
    "hx_calls ?s2 = hx_calls s @ (if ?called p then [(fn_of s p, Some d, event)] else [])"
    using Cons.prems(2) by (simp_all add: log_call_def dev_descriptor_def fun_eq_iff)
  have ok2: "hx_ok (?s2\<lparr>hx_lock := False\<rparr>)" using Cons.prems(3) by (simp add: hx_ok_def log_call_def)
  have eq: "match_loop (plain ret) (Some d) event (Some p) s = Option.bind (if r \<noteq> 0 then del_callback p ?s2 else Some ?s2)
      (match_loop (plain ret) (Some d) event (case rest of [] \<Rightarrow> None | q # _ \<Rightarrow> Some q))"
    using Cons.prems(1,2) mc(1) lk nx by (subst match_loop.simps) (simp only: unlock_cbs_def option.case set_append list.set
        Un_iff insert_iff simp_thms if_False if_True bind.bind_lunit prod.case)
  show ?case
  proof (cases "r = 0")
    case True
    have "hx_list ?s2 = (pre @ [p]) @ rest" using f2(1) Cons.prems(1) by simp
    from Cons.IH [OF this f2(4) ok2] Cons.prems(4) f2(3) obtain s' where
      s': "match_loop (plain ret) (Some d) event (case rest of [] \<Rightarrow> None | q # _ \<Rightarrow> Some q) ?s2 = Some s'" "hx_lock s'"
        "hx_ok (s'\<lparr>hx_lock := False\<rparr>)" "hx_list s' = (pre @ [p]) @ filter (\<lambda>p. \<not> is_finished ret d event ?s2 p) rest"
        "hx_calls s' = hx_calls ?s2 @ map (\<lambda>p. (fn_of ?s2 p, Some d, event)) (filter (is_called d event ?s2) rest)" by auto
    note c2 = is_called_same [OF f2(2,3)]
    have "match_loop (plain ret) (Some d) event (Some p) s = Some s'" using eq True s'(1) by simp
    moreover have "\<not> ?fin p" using True mc(2) by simp
    ultimately show ?thesis using s'(2-5) f2(5) by (simp add: c2)
  next
    case False
    have p2: "p \<in> set (hx_list ?s2)" using pl f2(1) by simp
    obtain s4 where s4: "del_callback p ?s2 = Some s4" "hx_ok (s4\<lparr>hx_lock := False\<rparr>)" "hx_list s4 = remove1 p (hx_list ?s2)"
      "hx_lock s4 = hx_lock ?s2" "hx_cbs s4 = (hx_cbs ?s2)(p := None)" "dev_descriptor s4 = dev_descriptor ?s2" "hx_calls s4 = hx_calls ?s2"
      by (rule del_callback_ok [OF ok2 p2])
    have "hx_list s4 = pre @ rest" using s4(3) f2(1) Cons.prems(1) dist by (simp add: remove1_append)
    moreover have "hx_lock s4" using s4(4) f2(4) by simp
    ultimately obtain s' where
      s': "match_loop (plain ret) (Some d) event (case rest of [] \<Rightarrow> None | q # _ \<Rightarrow> Some q) s4 = Some s'" "hx_lock s'"
        "hx_ok (s'\<lparr>hx_lock := False\<rparr>)" "hx_list s' = pre @ filter (\<lambda>p. \<not> is_finished ret d event s4 p) rest"
        "hx_calls s' = hx_calls s4 @ map (\<lambda>p. (fn_of s4 p, Some d, event)) (filter (is_called d event s4) rest)"
      using Cons.IH [of s4 pre] s4(2,6) f2(3) Cons.prems(4) by auto
    have same: "is_finished ret d event s4 q = ?fin q" "is_called d event s4 q = ?called q" "fn_of s4 q = fn_of s q" if "q \<in> set rest" for q
    proof -
      have "hx_cbs s4 q = hx_cbs s q" using that dist s4(5) f2(2) by auto
      note same = is_called_cong [OF this s4(6) [unfolded f2(3)]]
      show "is_finished ret d event s4 q = ?fin q" "is_called d event s4 q = ?called q" "fn_of s4 q = fn_of s q" by (rule same)+
    qed
    have "match_loop (plain ret) (Some d) event (Some p) s = Some s'" using eq False s4(1) s'(1) by simp
    moreover have "?fin p" using False mc(2) by simp
    moreover have "filter (\<lambda>p. \<not> is_finished ret d event s4 p) rest = filter (\<lambda>p. \<not> ?fin p) rest"
      "map (\<lambda>p. (fn_of s4 p, Some d, event)) (filter (is_called d event s4) rest) = map (\<lambda>p. (fn_of s p, Some d, event)) (filter ?called rest)"
      using same by (auto cong: filter_cong map_cong)
    ultimately show ?thesis using s'(2-5) f2(5) s4(7) by simp
  qed
qed

text \<open>C24. For functions that only return a number, matching is the reference: exactly the callbacks whose events, vendor, product and
  class fit and that are not marked are called, each once and in the order of the list, and exactly the marked ones
  and those that returned a non-zero number leave the list.\<close>

theorem hotplug_match_filter:
  assumes "hx_ok s" and "dev_descriptor s d \<noteq> None"
  shows "\<exists>s'. usbi_hotplug_match (\<lambda>fn dev ev s. Some (ret fn dev ev, s)) (Some d) event s = Some s' \<and> hx_ok s' \<and>
    hx_list s' = filter (\<lambda>p. \<not> is_finished ret d event s p) (hx_list s) \<and>
    hx_calls s' = hx_calls s @ map (\<lambda>p. (fn_of s p, Some d, event)) (filter (is_called d event s) (hx_list s))"
proof -
  let ?s = "s\<lparr>hx_lock := True\<rparr>"
  have dd: "dev_descriptor ?s = dev_descriptor s" by (simp add: dev_descriptor_def fun_eq_iff)
  have "hx_cbs ?s = hx_cbs s" by simp
  note cu = is_called_same [OF this dd]
  have "?s\<lparr>hx_lock := False\<rparr> = s" using assms(1) by (simp add: hx_ok_def)
  with assms(1) have "hx_ok (?s\<lparr>hx_lock := False\<rparr>)" by simp
  from match_loop_plain [of ?s "[]" "hx_list s" d ret event] this assms(2) obtain s' where
    s': "match_loop (plain ret) (Some d) event (case hx_list s of [] \<Rightarrow> None | p # _ \<Rightarrow> Some p) ?s = Some s'" "hx_lock s'"
      "hx_ok (s'\<lparr>hx_lock := False\<rparr>)" "hx_list s' = filter (\<lambda>p. \<not> is_finished ret d event s p) (hx_list s)"
      "hx_calls s' = hx_calls s @ map (\<lambda>p. (fn_of s p, Some d, event)) (filter (is_called d event s) (hx_list s))"
    by (auto simp: cu dd)
  have "usbi_hotplug_match (plain ret) (Some d) event s = Some (s'\<lparr>hx_lock := False\<rparr>)"
    using assms(1) s'(1,2) by (simp add: usbi_hotplug_match_def lock_cbs_def unlock_cbs_def hx_ok_def)
  with s' show ?thesis by auto
qed

theorem hotplug_match_filter_witness:
  "\<exists>s'. usbi_hotplug_match (\<lambda>fn dev ev s. Some (if fn = 7 then 1 else 0, s)) (Some 0) 1 two_callbacks = Some s' \<and> hx_ok s' \<and>
    hx_list s' = [] \<and> hx_calls s' = [(7, Some 0, 1)]"
proof -
  have "dev_descriptor two_callbacks 0 \<noteq> None" by (simp add: two_callbacks_device)
  moreover have "is_called 0 1 two_callbacks 2" "\<not> is_called 0 1 two_callbacks 3" "fn_of two_callbacks 2 = 7" "marked two_callbacks 3"
    by (simp_all add: is_called_def two_callbacks_device fn_of_def marked_def)
      (simp_all add: two_callbacks_def new_hotplug_callback_def dev_matches_def field_mismatch_def)
  moreover have "hx_list two_callbacks = [3, 2]" "hx_calls two_callbacks = []" by (simp_all add: two_callbacks_def)
  ultimately show ?thesis
    using hotplug_match_filter [OF two_callbacks_ok, of 0 "\<lambda>fn dev ev. if fn = 7 then 1 else 0" 1] by (auto simp: is_finished_def)
qed

end
