(* ===== verification/Transfer_Setup.thy ===== *)
theory Transfer_Setup
  imports Desc_Api Linux_Urbs
begin

text \<open>
  The inline functions of libusb.h with which a program prepares a transfer: the setup packet of a control
  transfer, the fields of a transfer of each type, and the lengths and buffers of isochronous packets.

  A device handle is its number with the number of its device (\<open>dev_handle->dev\<close>, which the transfer engine
  references). A buffer is a block with its bytes.
\<close>

type_synonym dev_handle = "nat \<times> nat"

subsection \<open>The setup packet\<close>

text \<open>A word in memory, in the byte order of the CPU.\<close>

definition store16 :: "endian \<Rightarrow> u16 \<Rightarrow> u8 list" where
  "store16 cpu w = (case cpu of LittleEndian \<Rightarrow> [lo8 w, hi8 w] | BigEndian \<Rightarrow> [hi8 w, lo8 w])"

record libusb_control_setup =
  cs_bmRequestType :: u8
  cs_bRequest :: u8
  cs_wValue :: u16
  cs_wIndex :: u16
  cs_wLength :: u16

text \<open>The struct that \<open>buffer\<close> holds, and a store of one: faults when the buffer is shorter than it.\<close>

definition libusb_control_transfer_get_setup :: "endian \<Rightarrow> u8 list \<Rightarrow> libusb_control_setup option" where
  "libusb_control_transfer_get_setup cpu buffer =
     (if length buffer < 8 then None
      else Some \<lparr>cs_bmRequestType = buffer ! 0, cs_bRequest = buffer ! 1,
        cs_wValue = load16 cpu True (buffer ! 2) (buffer ! 3),
        cs_wIndex = load16 cpu True (buffer ! 4) (buffer ! 5),
        cs_wLength = load16 cpu True (buffer ! 6) (buffer ! 7)\<rparr>)"

definition put_setup :: "endian \<Rightarrow> libusb_control_setup \<Rightarrow> u8 list \<Rightarrow> u8 list option" where
  "put_setup cpu setup buffer =
     (if length buffer < 8 then None
      else Some ([cs_bmRequestType setup, cs_bRequest setup] @ store16 cpu (cs_wValue setup) @
        store16 cpu (cs_wIndex setup) @ store16 cpu (cs_wLength setup) @ drop 8 buffer))"

definition libusb_fill_control_setup ::
  "endian \<Rightarrow> u8 \<Rightarrow> u8 \<Rightarrow> u16 \<Rightarrow> u16 \<Rightarrow> u16 \<Rightarrow> u8 list \<Rightarrow> u8 list option" where
  "libusb_fill_control_setup cpu bmRequestType bRequest wValue wIndex wLength buffer =
     put_setup cpu \<lparr>cs_bmRequestType = bmRequestType, cs_bRequest = bRequest,
       cs_wValue = libusb_cpu_to_le16 cpu wValue, cs_wIndex = libusb_cpu_to_le16 cpu wIndex,
       cs_wLength = libusb_cpu_to_le16 cpu wLength\<rparr> buffer"

definition libusb_control_transfer_get_data :: "u8 list \<Rightarrow> u8 list" where
  "libusb_control_transfer_get_data buffer = drop (nat LIBUSB_CONTROL_SETUP_SIZE) buffer"

subsection \<open>The fields of a transfer\<close>

definition libusb_fill_control_transfer ::
  "endian \<Rightarrow> dev_handle \<Rightarrow> u8 list blk \<Rightarrow> nat option \<Rightarrow> nat \<Rightarrow> u32 \<Rightarrow> usbi_transfer \<Rightarrow> usbi_transfer option" where
  "libusb_fill_control_transfer cpu dev_handle buffer callback user_data timeout transfer = do {
     len \<leftarrow> (case buffer of
        None \<Rightarrow> Some (tr_length transfer)
      | Some (p, bs) \<Rightarrow> do {
          setup \<leftarrow> libusb_control_transfer_get_setup cpu bs;
          Some (LIBUSB_CONTROL_SETUP_SIZE + uint (libusb_cpu_to_le16 cpu (cs_wLength setup)))
        });
     Some (transfer\<lparr>tr_dev_handle := fst dev_handle, tr_dev := snd dev_handle, tr_endpoint := 0,
       tr_type := LIBUSB_TRANSFER_TYPE_CONTROL, tr_timeout := timeout, tr_buffer := blk_ptr buffer,
       tr_length := len, tr_user_data := user_data, tr_callback := callback\<rparr>)
   }"

definition libusb_fill_bulk_transfer ::
  "dev_handle \<Rightarrow> u8 \<Rightarrow> ptr option \<Rightarrow> int \<Rightarrow> nat option \<Rightarrow> nat \<Rightarrow> u32 \<Rightarrow> usbi_transfer \<Rightarrow> usbi_transfer" where
  "libusb_fill_bulk_transfer dev_handle endpoint buffer len callback user_data timeout transfer =
     transfer\<lparr>tr_dev_handle := fst dev_handle, tr_dev := snd dev_handle, tr_endpoint := endpoint,
       tr_type := LIBUSB_TRANSFER_TYPE_BULK, tr_timeout := timeout, tr_buffer := buffer,
       tr_length := len, tr_user_data := user_data, tr_callback := callback\<rparr>"

definition libusb_fill_bulk_stream_transfer ::
  "dev_handle \<Rightarrow> u8 \<Rightarrow> u32 \<Rightarrow> ptr option \<Rightarrow> int \<Rightarrow> nat option \<Rightarrow> nat \<Rightarrow> u32 \<Rightarrow> ptr \<Rightarrow> io_ctx \<Rightarrow> io_ctx option" where
  "libusb_fill_bulk_stream_transfer dev_handle endpoint stream_id buffer len callback user_data timeout t c = do {
     x \<leftarrow> get_x t c;
     libusb_transfer_set_stream_id t stream_id (put_x t
       ((libusb_fill_bulk_transfer dev_handle endpoint buffer len callback user_data timeout x)
          \<lparr>tr_type := LIBUSB_TRANSFER_TYPE_BULK_STREAM\<rparr>) c)
   }"

definition libusb_fill_interrupt_transfer ::
  "dev_handle \<Rightarrow> u8 \<Rightarrow> ptr option \<Rightarrow> int \<Rightarrow> nat option \<Rightarrow> nat \<Rightarrow> u32 \<Rightarrow> usbi_transfer \<Rightarrow> usbi_transfer" where
  "libusb_fill_interrupt_transfer dev_handle endpoint buffer len callback user_data timeout transfer =
     transfer\<lparr>tr_dev_handle := fst dev_handle, tr_dev := snd dev_handle, tr_endpoint := endpoint,
       tr_type := LIBUSB_TRANSFER_TYPE_INTERRUPT, tr_timeout := timeout, tr_buffer := buffer,
       tr_length := len, tr_user_data := user_data, tr_callback := callback\<rparr>"

text \<open>The number of packets is part of the backend's view of the transfer (Linux_Urbs).\<close>

definition libusb_fill_iso_transfer ::
  "dev_handle \<Rightarrow> u8 \<Rightarrow> ptr option \<Rightarrow> int \<Rightarrow> int \<Rightarrow> nat option \<Rightarrow> nat \<Rightarrow> u32 \<Rightarrow> ptr \<Rightarrow> urb_ctx \<Rightarrow> urb_ctx option" where
  "libusb_fill_iso_transfer dev_handle endpoint buffer len num_iso_packets callback user_data timeout t u = do {
     x \<leftarrow> get_x t (uc_io u);
     Some (u\<lparr>uc_io := put_x t (x\<lparr>tr_dev_handle := fst dev_handle, tr_dev := snd dev_handle,
         tr_endpoint := endpoint, tr_type := LIBUSB_TRANSFER_TYPE_ISOCHRONOUS, tr_timeout := timeout,
         tr_buffer := buffer, tr_length := len, tr_user_data := user_data, tr_callback := callback\<rparr>) (uc_io u),
       uc_num_iso_packets := (uc_num_iso_packets u)(t := num_iso_packets)\<rparr>)
   }"

subsection \<open>Isochronous packets\<close>

abbreviation INT_MAX :: int where "INT_MAX \<equiv> 2147483647"

text \<open>A store behind the last descriptor is a fault.\<close>

definition libusb_set_iso_packet_lengths :: "ptr \<Rightarrow> u32 \<Rightarrow> urb_ctx \<Rightarrow> urb_ctx option" where
  "libusb_set_iso_packet_lengths t len u =
     (let n = nat (uc_num_iso_packets u t); ds = uc_iso_desc u t in
      if length ds < n then None
      else Some (u\<lparr>uc_iso_desc := (uc_iso_desc u)
        (t := map (\<lambda>d. d\<lparr>ip_length := len\<rparr>) (take n ds) @ drop n ds)\<rparr>))"

text \<open>The sum of the first lengths, in \<open>size_t\<close> of 64 bits.\<close>

primrec packet_offset :: "nat \<Rightarrow> libusb_iso_packet_descriptor list \<Rightarrow> 64 word option" where
  "packet_offset 0 ds = Some 0"
| "packet_offset (Suc n) ds = do {
     offset \<leftarrow> packet_offset n ds;
     d \<leftarrow> rd ds n;
     Some (offset + ucast (ip_length d))
   }"

text \<open>The result is NULL, or the offset in the transfer's buffer.\<close>

definition libusb_get_iso_packet_buffer :: "ptr \<Rightarrow> u32 \<Rightarrow> urb_ctx \<Rightarrow> int option option" where
  "libusb_get_iso_packet_buffer t packet u =
     (if INT_MAX < uint packet then Some None
      else if uc_num_iso_packets u t \<le> uint packet then Some None
      else do { offset \<leftarrow> packet_offset (unat packet) (uc_iso_desc u t); Some (Some (uint offset)) })"

text \<open>The product of two \<open>int\<close>s: an overflow is undefined.\<close>

definition libusb_get_iso_packet_buffer_simple :: "ptr \<Rightarrow> u32 \<Rightarrow> urb_ctx \<Rightarrow> int option option" where
  "libusb_get_iso_packet_buffer_simple t packet u =
     (if INT_MAX < uint packet then Some None
      else if uc_num_iso_packets u t \<le> uint packet then Some None
      else do {
        d \<leftarrow> rd (uc_iso_desc u t) 0;
        let offset = sint (ip_length d) * uint packet;
        if - INT_MAX - 1 \<le> offset \<and> offset \<le> INT_MAX then Some (Some offset) else None
      })"

end
