(* ===== verification/Sync.thy ===== *)
theory Sync
  imports Transfer_Setup Transfer_Invariants
begin

text \<open>
  Synchronous transfers (sync.c): a transfer is allocated, filled and submitted, events are handled until the
  transfer's callback ran, and its status becomes the result.

  What the handling of events does is the environment's: one call of \<open>libusb_handle_events_completed\<close> is the
  list of the completions it reports, for the caller's transfer and for others, and its result. A completion of
  a transfer that is not in flight does not occur. The variable \<open>completed\<close>, to which \<open>user_data\<close> points, and
  the bytes of the transfer's buffer are part of the state.
\<close>

datatype completion =
    Own libusb_transfer_status int "u8 list"
  | Other ptr libusb_transfer_status int

record event_round =
  er_env :: env
  er_completions :: "completion list"
  er_result :: int

record sync_state =
  sy_io :: io_ctx
  sy_completed :: bool
  sy_buffer :: "u8 list"

definition sync_transfer_cb :: "sync_state \<Rightarrow> sync_state" where
  "sync_transfer_cb s = s\<lparr>sy_completed := True\<rparr>"

text \<open>The name of \<open>sync_transfer_cb\<close> among the callbacks, and of the variable \<open>completed\<close>.\<close>

abbreviation sync_cb :: nat where "sync_cb \<equiv> 0"
abbreviation completed_var :: nat where "completed_var \<equiv> 0"

subsection \<open>Handling events\<close>

text \<open>The backend stores the bytes it received at \<open>off\<close>; a store outside the buffer is a fault.\<close>

definition write_at :: "nat \<Rightarrow> u8 list \<Rightarrow> u8 list \<Rightarrow> u8 list option" where
  "write_at off bs buf = (if off + length bs \<le> length buf
     then Some (take off buf @ bs @ drop (off + length bs) buf) else None)"

definition complete_x :: "callback \<Rightarrow> env \<Rightarrow> ptr \<Rightarrow> libusb_transfer_status \<Rightarrow> int \<Rightarrow> io_ctx \<Rightarrow> io_ctx option" where
  "complete_x cb e u status n c = do {
     x \<leftarrow> get_x u c;
     (_, c1) \<leftarrow> usbi_handle_transfer_completion cb e u status (put_x u (x\<lparr>it_transferred := n\<rparr>) c);
     Some c1
   }"

text \<open>The callback \<open>cb\<close> of other transfers leaves \<open>completed\<close> alone; the one of \<open>t\<close> sets it and nothing else.\<close>

definition complete_one :: "callback \<Rightarrow> ptr \<Rightarrow> nat \<Rightarrow> env \<Rightarrow> completion \<Rightarrow> sync_state \<Rightarrow> sync_state option" where
  "complete_one cb t off e k s =
     (case k of
        Own status n bs \<Rightarrow>
          if in_flight (sy_io s) t then do {
            buf \<leftarrow> write_at off bs (sy_buffer s);
            c \<leftarrow> complete_x (\<lambda>f u c. Some c) e t status n (sy_io s);
            Some (sync_transfer_cb (s\<lparr>sy_io := c, sy_buffer := buf\<rparr>))
          }
          else Some s
      | Other u status n \<Rightarrow>
          if u \<noteq> t \<and> in_flight (sy_io s) u then do {
            c \<leftarrow> complete_x cb e u status n (sy_io s);
            Some (s\<lparr>sy_io := c\<rparr>)
          }
          else Some s)"

primrec complete_all :: "callback \<Rightarrow> ptr \<Rightarrow> nat \<Rightarrow> env \<Rightarrow> completion list \<Rightarrow> sync_state \<Rightarrow> sync_state option" where
  "complete_all cb t off e [] s = Some s"
| "complete_all cb t off e (k # ks) s = do { s1 \<leftarrow> complete_one cb t off e k s; complete_all cb t off e ks s1 }"

definition libusb_handle_events_completed ::
  "callback \<Rightarrow> ptr \<Rightarrow> nat \<Rightarrow> event_round \<Rightarrow> sync_state \<Rightarrow> (int \<times> sync_state) option" where
  "libusb_handle_events_completed cb t off rn s = do {
     s1 \<leftarrow> complete_all cb t off (er_env rn) (er_completions rn) s;
     Some (er_result rn, s1)
   }"

subsection \<open>Waiting\<close>

text \<open>\<open>None\<close> also when the loop does not end; \<open>n\<close> counts the rounds.\<close>

partial_function (option) sync_transfer_wait_for_completion ::
  "callback \<Rightarrow> ptr \<Rightarrow> nat \<Rightarrow> (nat \<Rightarrow> event_round) \<Rightarrow> nat \<Rightarrow> sync_state \<Rightarrow> sync_state option" where
  "sync_transfer_wait_for_completion cb t off evs n s =
     (if sy_completed s then Some s
      else do {
        (r, s1) \<leftarrow> libusb_handle_events_completed cb t off (evs n) s;
        if r < 0 then
          if r = LIBUSB_ERROR_INTERRUPTED then sync_transfer_wait_for_completion cb t off evs (Suc n) s1
          else do {
            (_, c) \<leftarrow> libusb_cancel_transfer (er_env (evs n)) t (sy_io s1);
            sync_transfer_wait_for_completion cb t off evs (Suc n) (s1\<lparr>sy_io := c\<rparr>)
          }
        else sync_transfer_wait_for_completion cb t off evs (Suc n) s1
      })"

text \<open>The result of a status other than \<open>LIBUSB_TRANSFER_COMPLETED\<close> (the default case cannot be reached: the
  status is one of the enumeration).\<close>

definition sync_error :: "libusb_transfer_status \<Rightarrow> int" where
  "sync_error status = (case status of
       LIBUSB_TRANSFER_COMPLETED \<Rightarrow> 0
     | LIBUSB_TRANSFER_TIMED_OUT \<Rightarrow> LIBUSB_ERROR_TIMEOUT
     | LIBUSB_TRANSFER_STALL \<Rightarrow> LIBUSB_ERROR_PIPE
     | LIBUSB_TRANSFER_NO_DEVICE \<Rightarrow> LIBUSB_ERROR_NO_DEVICE
     | LIBUSB_TRANSFER_OVERFLOW \<Rightarrow> LIBUSB_ERROR_OVERFLOW
     | LIBUSB_TRANSFER_ERROR \<Rightarrow> LIBUSB_ERROR_IO
     | LIBUSB_TRANSFER_CANCELLED \<Rightarrow> LIBUSB_ERROR_IO)"

subsection \<open>Control transfers\<close>

definition is_in :: "u8 \<Rightarrow> bool" where
  "is_in bmRequestType \<longleftrightarrow> bmRequestType AND 0x80 \<noteq> 0"

text \<open>From the submission on: the result, the caller's buffer and the context.\<close>

definition control_submit ::
  "callback \<Rightarrow> env \<Rightarrow> (nat \<Rightarrow> event_round) \<Rightarrow> u8 \<Rightarrow> u8 list \<Rightarrow> ptr \<Rightarrow> u8 list \<Rightarrow> io_ctx \<Rightarrow>
    (int \<times> u8 list \<times> io_ctx) option" where
  "control_submit cb e evs bmRequestType data t buffer c = do {
     (r, c1) \<leftarrow> libusb_submit_transfer e t c;
     if r < 0 then do {
       c2 \<leftarrow> libusb_free_transfer (Some t) c1;
       Some (r, data, c2)
     }
     else do {
       s \<leftarrow> sync_transfer_wait_for_completion cb t (nat LIBUSB_CONTROL_SETUP_SIZE) evs 0
         \<lparr>sy_io = c1, sy_completed = False, sy_buffer = buffer\<rparr>;
       x \<leftarrow> get_x t (sy_io s);
       data' \<leftarrow> (if is_in bmRequestType
         then do {
           bs \<leftarrow> c_memcpy (libusb_control_transfer_get_data (sy_buffer s)) (tr_actual_length x);
           write_at 0 bs data
         }
         else Some data);
       c2 \<leftarrow> libusb_free_transfer (Some t) (sy_io s);
       Some (if tr_status x = LIBUSB_TRANSFER_COMPLETED then tr_actual_length x else sync_error (tr_status x), data', c2)
     }
   }"

text \<open>\<open>malloc\<close> leaves the bytes of the buffer open: \<open>junk\<close> gives them.\<close>

definition libusb_control_transfer ::
  "endian \<Rightarrow> (nat \<Rightarrow> u8) \<Rightarrow> callback \<Rightarrow> env \<Rightarrow> (nat \<Rightarrow> event_round) \<Rightarrow> bool \<Rightarrow> dev_handle \<Rightarrow> u8 \<Rightarrow> u8 \<Rightarrow> u16 \<Rightarrow> u16 \<Rightarrow>
    u8 list \<Rightarrow> u16 \<Rightarrow> u32 \<Rightarrow> io_ctx \<Rightarrow> (int \<times> u8 list \<times> io_ctx) option" where
  "libusb_control_transfer cpu junk cb e evs handling_events dev_handle bmRequestType bRequest wValue wIndex data wLength timeout c =
     (if handling_events then Some (LIBUSB_ERROR_BUSY, data, c)
      else (case libusb_alloc_transfer 0 c of
          (None, c1) \<Rightarrow> Some (LIBUSB_ERROR_NO_MEM, data, c1)
        | (Some t, c1) \<Rightarrow>
            (case c_malloc (ic_heap c1) of
               (None, h) \<Rightarrow> do {
                 c2 \<leftarrow> libusb_free_transfer (Some t) (c1\<lparr>ic_heap := h\<rparr>);
                 Some (LIBUSB_ERROR_NO_MEM, data, c2)
               }
             | (Some p, h) \<Rightarrow> do {
                 let c2 = c1\<lparr>ic_heap := h\<rparr>;
                 buffer \<leftarrow> libusb_fill_control_setup cpu bmRequestType bRequest wValue wIndex wLength
                   (map junk [0..<nat LIBUSB_CONTROL_SETUP_SIZE + unat wLength]);
                 buffer' \<leftarrow> (if \<not> is_in bmRequestType
                   then do {
                     bs \<leftarrow> c_memcpy data (uint wLength);
                     write_at (nat LIBUSB_CONTROL_SETUP_SIZE) bs buffer
                   }
                   else Some buffer);
                 x0 \<leftarrow> get_x t c2;
                 x \<leftarrow> libusb_fill_control_transfer cpu dev_handle (Some (p, buffer')) (Some sync_cb) completed_var timeout x0;
                 control_submit cb e evs bmRequestType data t buffer'
                   (put_x t (x\<lparr>tr_flags := {LIBUSB_TRANSFER_FREE_BUFFER}\<rparr>) c2)
               })))"

subsection \<open>Bulk and interrupt transfers\<close>

text \<open>The caller's buffer is \<open>buffer\<close>; what is stored in \<open>*transferred\<close> if anything is (\<open>wants\<close>: the pointer is
  not NULL).\<close>

definition bulk_submit ::
  "callback \<Rightarrow> env \<Rightarrow> (nat \<Rightarrow> event_round) \<Rightarrow> bool \<Rightarrow> ptr \<Rightarrow> u8 list \<Rightarrow> io_ctx \<Rightarrow>
    (int \<times> int option \<times> u8 list \<times> io_ctx) option" where
  "bulk_submit cb e evs wants t buffer c = do {
     (r, c1) \<leftarrow> libusb_submit_transfer e t c;
     if r < 0 then do {
       c2 \<leftarrow> libusb_free_transfer (Some t) c1;
       Some (r, None, buffer, c2)
     }
     else do {
       s \<leftarrow> sync_transfer_wait_for_completion cb t 0 evs 0
         \<lparr>sy_io = c1, sy_completed = False, sy_buffer = buffer\<rparr>;
       x \<leftarrow> get_x t (sy_io s);
       c2 \<leftarrow> libusb_free_transfer (Some t) (sy_io s);
       Some (sync_error (tr_status x), if wants then Some (tr_actual_length x) else None, sy_buffer s, c2)
     }
   }"

definition do_sync_bulk_transfer ::
  "callback \<Rightarrow> env \<Rightarrow> (nat \<Rightarrow> event_round) \<Rightarrow> bool \<Rightarrow> dev_handle \<Rightarrow> u8 \<Rightarrow> ptr option \<times> u8 list \<Rightarrow> int \<Rightarrow> bool \<Rightarrow> u32 \<Rightarrow>
    transfer_type \<Rightarrow> io_ctx \<Rightarrow> (int \<times> int option \<times> u8 list \<times> io_ctx) option" where
  "do_sync_bulk_transfer cb e evs handling_events dev_handle endpoint buffer len wants timeout type c =
     (if handling_events then Some (LIBUSB_ERROR_BUSY, None, snd buffer, c)
      else (case libusb_alloc_transfer 0 c of
          (None, c1) \<Rightarrow> Some (LIBUSB_ERROR_NO_MEM, None, snd buffer, c1)
        | (Some t, c1) \<Rightarrow> do {
            x0 \<leftarrow> get_x t c1;
            let x = libusb_fill_bulk_transfer dev_handle endpoint (fst buffer) len (Some sync_cb) completed_var timeout x0;
            bulk_submit cb e evs wants t (snd buffer) (put_x t (x\<lparr>tr_type := type\<rparr>) c1)
          }))"

definition libusb_bulk_transfer ::
  "callback \<Rightarrow> env \<Rightarrow> (nat \<Rightarrow> event_round) \<Rightarrow> bool \<Rightarrow> dev_handle \<Rightarrow> u8 \<Rightarrow> ptr option \<times> u8 list \<Rightarrow> int \<Rightarrow> bool \<Rightarrow> u32 \<Rightarrow>
    io_ctx \<Rightarrow> (int \<times> int option \<times> u8 list \<times> io_ctx) option" where
  "libusb_bulk_transfer cb e evs handling_events dev_handle endpoint data len wants timeout c =
     do_sync_bulk_transfer cb e evs handling_events dev_handle endpoint data len wants timeout LIBUSB_TRANSFER_TYPE_BULK c"

definition libusb_interrupt_transfer ::
  "callback \<Rightarrow> env \<Rightarrow> (nat \<Rightarrow> event_round) \<Rightarrow> bool \<Rightarrow> dev_handle \<Rightarrow> u8 \<Rightarrow> ptr option \<times> u8 list \<Rightarrow> int \<Rightarrow> bool \<Rightarrow> u32 \<Rightarrow>
    io_ctx \<Rightarrow> (int \<times> int option \<times> u8 list \<times> io_ctx) option" where
  "libusb_interrupt_transfer cb e evs handling_events dev_handle endpoint data len wants timeout c =
     do_sync_bulk_transfer cb e evs handling_events dev_handle endpoint data len wants timeout LIBUSB_TRANSFER_TYPE_INTERRUPT c"

end
