(* ===== verification/Sync_Props.thy ===== *)
theory Sync_Props
  imports Sync Transfer_Props
begin

text \<open>
  Synchronous transfers: they return exactly when the transfer is completed, with the result its status says,
  and give back on every path what they took. The setup packet has the byte order of the bus on every CPU, and
  the two ways to find an isochronous packet agree.
\<close>

subsection \<open>The references that transfers in flight hold\<close>

definition dev_of :: "io_ctx \<Rightarrow> ptr \<Rightarrow> nat" where
  "dev_of c u = (case get_x u c of Some x \<Rightarrow> tr_dev x | None \<Rightarrow> 0)"

text \<open>The references to a device that are not held by a transfer in flight.\<close>

definition own_refs :: "io_ctx \<Rightarrow> nat \<Rightarrow> int" where
  "own_refs c d = ic_refs c d - int (length (filter (\<lambda>u. dev_of c u = d) (ic_flying c)))"

lemma length_filter_remove1:
  "t \<in> set ts \<Longrightarrow> length (filter P ts) = length (filter P (remove1 t ts)) + (if P t then 1 else 0)"
  by (induction ts) auto

text \<open>A transfer is put on the list, or taken off it, together with a reference to its device.\<close>

lemma own_refs_swap:
  assumes "t \<in> set (ic_flying c)" and "ic_flying c' = remove1 t (ic_flying c)"
    and "\<And>u. u \<in> set (ic_flying c') \<Longrightarrow> dev_of c' u = dev_of c u" and "dev_of c t = d"
    and "ic_refs c' = (ic_refs c)(d := ic_refs c d - 1)"
  shows "own_refs c' = own_refs c"
proof
  fix d'
  have "filter (\<lambda>u. dev_of c' u = d') (ic_flying c') = filter (\<lambda>u. dev_of c u = d') (ic_flying c')"
    by (rule filter_cong) (simp_all add: assms(3))
  with length_filter_remove1 [OF assms(1), of "\<lambda>u. dev_of c u = d'"] assms(2,4,5)
  show "own_refs c' d' = own_refs c d'" by (auto simp: own_refs_def)
qed

text \<open>What a synchronous call relies on: callers' transfers that are allocated blocks, none of which frees itself.\<close>

definition sync_ready :: "io_ctx \<Rightarrow> bool" where
  "sync_ready c \<longleftrightarrow> io_wf c \<and> heap_wf (ic_heap c) \<and> (\<forall>u x. get_x u c = Some x \<longrightarrow> u \<in> hp_live (ic_heap c)) \<and>
     (\<forall>u x. u \<in> set (ic_flying c) \<longrightarrow> get_x u c = Some x \<longrightarrow> LIBUSB_TRANSFER_FREE_TRANSFER \<notin> tr_flags x)"

text \<open>What it gives back: nothing but the results of other transfers, which may have ended meanwhile, differs.\<close>

definition balanced :: "io_ctx \<Rightarrow> io_ctx \<Rightarrow> bool" where
  "balanced c c' \<longleftrightarrow> io_wf c' \<and> hp_live (ic_heap c') = hp_live (ic_heap c) \<and> own_refs c' = own_refs c \<and>
     set (ic_flying c') \<subseteq> set (ic_flying c) \<and> (\<forall>u. get_x u c' = None \<longleftrightarrow> get_x u c = None)"

subsection \<open>Completions\<close>

lemma complete_x_eq:
  assumes wf: "io_wf c" and x: "get_x u c = Some x" and fl: "in_flight c u" and cb: "cb_quiet cb"
    and nf: "LIBUSB_TRANSFER_FREE_TRANSFER \<notin> tr_flags x"
  shows "\<exists>tm. complete_x cb e u st n c = Some (io_upd u (completed (x\<lparr>it_transferred := n\<rparr>) st)
    (remove1 u (ic_flying c)) tm ((ic_refs c)(tr_dev x := ic_refs c (tr_dev x) - 1)) c)"
proof -
  let ?x = "x\<lparr>it_transferred := n\<rparr>" and ?c = "put_x u (x\<lparr>it_transferred := n\<rparr>) c"
  have wf': "io_wf ?c" using io_wfD(2) [OF wf x] by (intro io_wf_put [OF wf x]) auto
  have fl': "in_flight ?c u" using fl x by (simp add: in_flight_def)
  from completion_quiet [OF wf' _ fl' cb, of ?x e st] nf obtain r tm where
    "usbi_handle_transfer_completion cb e u st ?c = Some (r, io_upd u (completed ?x st) (remove1 u (ic_flying ?c)) tm
      ((ic_refs ?c)(tr_dev ?x := ic_refs ?c (tr_dev ?x) - 1)) ?c)" by auto
  with x show ?thesis by (auto simp: complete_x_def io_upd_def)
qed

text \<open>A completion step keeps what \<open>sync_inv\<close> says.\<close>

definition flags_ok :: "io_ctx \<Rightarrow> bool" where
  "flags_ok c \<longleftrightarrow> (\<forall>u x. u \<in> set (ic_flying c) \<longrightarrow> get_x u c = Some x \<longrightarrow> LIBUSB_TRANSFER_FREE_TRANSFER \<notin> tr_flags x)"

definition same_outside :: "io_ctx \<Rightarrow> io_ctx \<Rightarrow> bool" where
  "same_outside c c' \<longleftrightarrow> ic_heap c' = ic_heap c \<and> own_refs c' = own_refs c \<and>
     set (ic_flying c') \<subseteq> set (ic_flying c) \<and> (\<forall>u. get_x u c' = None \<longleftrightarrow> get_x u c = None)"

lemma same_outside_refl [simp]: "same_outside c c"
  by (simp add: same_outside_def)

lemma same_outside_trans: "same_outside a b \<Longrightarrow> same_outside b c \<Longrightarrow> same_outside a c"
  unfolding same_outside_def by (metis subset_trans)

lemma complete_x_step:
  assumes wf: "io_wf c" and x: "get_x u c = Some x" and fl: "in_flight c u" and cb: "cb_quiet cb" and ok: "flags_ok c"
  obtains c' where "complete_x cb e u st n c = Some c'" "io_wf c'" "flags_ok c'" "same_outside c c'" "\<not> in_flight c' u"
    "get_x u c' = Some (completed (x\<lparr>it_transferred := n\<rparr>) st)" "\<And>v. v \<noteq> u \<Longrightarrow> get_x v c' = get_x v c"
proof -
  have u: "u \<in> set (ic_flying c)" and d: "distinct (ic_flying c)" using io_wfD(3,4) [OF wf] fl by (auto simp: flying_wf_def)
  have nf: "LIBUSB_TRANSFER_FREE_TRANSFER \<notin> tr_flags x" using ok u x by (auto simp: flags_ok_def)
  obtain tm where eq: "complete_x cb e u st n c = Some (io_upd u (completed (x\<lparr>it_transferred := n\<rparr>) st)
    (remove1 u (ic_flying c)) tm ((ic_refs c)(tr_dev x := ic_refs c (tr_dev x) - 1)) c)"
    using complete_x_eq [OF wf x fl cb nf] by blast
  let ?y = "completed (x\<lparr>it_transferred := n\<rparr>) st"
  let ?c = "io_upd u ?y (remove1 u (ic_flying c)) tm ((ic_refs c)(tr_dev x := ic_refs c (tr_dev x) - 1)) c"
  have dv: "dev_of ?c v = dev_of c v" for v using x by (simp add: dev_of_def completed_def)
  have dx: "dev_of c u = tr_dev x" using x by (simp add: dev_of_def)
  have "own_refs ?c = own_refs c" by (rule own_refs_swap [OF u _ dv dx]) simp_all
  then have "same_outside c ?c" using d x by (auto simp: same_outside_def)
  moreover have "io_wf ?c" using io_wfD(2) [OF wf x] by (intro io_wf_upd_same [OF wf]) (simp_all add: completed_def)
  moreover have "flags_ok ?c" using ok d by (auto simp: flags_ok_def)
  moreover have "\<not> in_flight ?c u" by (simp add: completed_def)
  ultimately show thesis by (intro that [OF eq]) simp_all
qed


text \<open>The state of the wait: the transfer is in flight until its callback ran, and keeps its user's fields.\<close>

definition sync_inv :: "ptr \<Rightarrow> usbi_transfer \<Rightarrow> u8 list \<Rightarrow> sync_state \<Rightarrow> bool" where
  "sync_inv t y b s \<longleftrightarrow> io_wf (sy_io s) \<and> flags_ok (sy_io s) \<and> (in_flight (sy_io s) t \<longleftrightarrow> \<not> sy_completed s) \<and>
     (\<exists>x. get_x t (sy_io s) = Some x \<and> tr_flags x = tr_flags y \<and> tr_buffer x = tr_buffer y) \<and>
     (\<not> sy_completed s \<longrightarrow> sy_buffer s = b)"

definition is_own :: "completion \<Rightarrow> bool" where
  "is_own k \<longleftrightarrow> (case k of Own st n bs \<Rightarrow> True | Other u st n \<Rightarrow> False)"

lemma is_own_simps [simp]: "is_own (Own st n bs)" "\<not> is_own (Other u st n)"
  by (simp_all add: is_own_def)

definition fits :: "nat \<Rightarrow> u8 list \<Rightarrow> completion \<Rightarrow> bool" where
  "fits off b k \<longleftrightarrow> (case k of Own st n bs \<Rightarrow> off + length bs \<le> length b | Other u st n \<Rightarrow> True)"

lemma fits_simps [simp]: "fits off b (Own st n bs) \<longleftrightarrow> off + length bs \<le> length b" "fits off b (Other u st n)"
  by (simp_all add: fits_def)

lemma final_status_id: "LIBUSB_TRANSFER_SHORT_NOT_OK \<notin> tr_flags x \<Longrightarrow> final_status x st = st"
  by (simp add: final_status_def)

lemma complete_one_other:
  assumes inv: "sync_inv t y b s" and cb: "cb_quiet cb" and k: "\<not> is_own k \<or> sy_completed s"
  obtains s' where "complete_one cb t off e k s = Some s'" "sync_inv t y b s'" "same_outside (sy_io s) (sy_io s')"
    "sy_completed s' = sy_completed s" "sy_buffer s' = sy_buffer s" "get_x t (sy_io s') = get_x t (sy_io s)"
proof -
  consider "complete_one cb t off e k s = Some s"
    | (other) u st n where "k = Other u st n" "u \<noteq> t" "in_flight (sy_io s) u"
  proof (cases k)
    case (Own st n bs)
    with inv k show ?thesis by (intro that(1)) (auto simp: complete_one_def sync_inv_def)
  next
    case (Other u st n)
    then show ?thesis using that by (cases "u \<noteq> t \<and> in_flight (sy_io s) u") (auto simp: complete_one_def)
  qed
  then show thesis
  proof cases
    case 1
    then show thesis using that inv by simp
  next
    case other
    then obtain x where x: "get_x u (sy_io s) = Some x" by (auto simp: in_flight_def split: option.splits)
    from inv have io: "io_wf (sy_io s)" "flags_ok (sy_io s)" by (simp_all add: sync_inv_def)
    from complete_x_step [OF io(1) x other(3) cb io(2), of e st n] obtain c' where
      c': "complete_x cb e u st n (sy_io s) = Some c'" "io_wf c'" "flags_ok c'" "same_outside (sy_io s) c'"
        "\<And>v. v \<noteq> u \<Longrightarrow> get_x v c' = get_x v (sy_io s)" by blast
    have "in_flight c' t = in_flight (sy_io s) t" using c'(5) other(2) by (simp add: in_flight_def)
    with inv c' other show thesis
      by (intro that [of "s\<lparr>sy_io := c'\<rparr>"]) (simp_all add: complete_one_def sync_inv_def)
  qed
qed

lemma complete_one_own:
  assumes inv: "sync_inv t y b s" and nc: "\<not> sy_completed s" and k: "off + length bs \<le> length b"
    and sh: "LIBUSB_TRANSFER_SHORT_NOT_OK \<notin> tr_flags y"
  obtains s' x where "complete_one cb t off e (Own st n bs) s = Some s'" "sync_inv t y b s'"
    "same_outside (sy_io s) (sy_io s')" "sy_completed s'" "write_at off bs b = Some (sy_buffer s')"
    "get_x t (sy_io s') = Some x" "tr_status x = st" "tr_actual_length x = n"
proof -
  from inv nc obtain x where io: "io_wf (sy_io s)" "flags_ok (sy_io s)" "in_flight (sy_io s) t" "sy_buffer s = b"
    and x: "get_x t (sy_io s) = Some x" "tr_flags x = tr_flags y" "tr_buffer x = tr_buffer y"
    by (auto simp: sync_inv_def)
  have q: "cb_quiet (\<lambda>f u c. Some c)" by (simp add: cb_quiet_def)
  from complete_x_step [OF io(1) x(1) io(3) q io(2), of e st n] obtain c' where
    c': "complete_x (\<lambda>f u c. Some c) e t st n (sy_io s) = Some c'" "io_wf c'" "flags_ok c'" "same_outside (sy_io s) c'"
      "\<not> in_flight c' t" "get_x t c' = Some (completed (x\<lparr>it_transferred := n\<rparr>) st)" by blast
  let ?buf = "take off b @ bs @ drop (off + length bs) b"
  show thesis
    by (rule that [of "\<lparr>sy_io = c', sy_completed = True, sy_buffer = ?buf\<rparr>" "completed (x\<lparr>it_transferred := n\<rparr>) st"])
      (use io x c' k sh in \<open>simp_all add: complete_one_def sync_inv_def write_at_def sync_transfer_cb_def
        completed_def final_status_id\<close>)
qed

subsection \<open>Rounds\<close>

lemma complete_all_other:
  assumes "sync_inv t y b s" and "cb_quiet cb" and "(\<forall>k \<in> set ks. \<not> is_own k) \<or> sy_completed s"
  shows "\<exists>s'. complete_all cb t off e ks s = Some s' \<and> sync_inv t y b s' \<and> same_outside (sy_io s) (sy_io s') \<and>
    sy_completed s' = sy_completed s \<and> sy_buffer s' = sy_buffer s \<and> get_x t (sy_io s') = get_x t (sy_io s)"
  using assms
proof (induction ks arbitrary: s)
  case Nil
  then show ?case by simp
next
  case (Cons k ks)
  then have "\<not> is_own k \<or> sy_completed s" by auto
  from complete_one_other [OF Cons.prems(1,2) this, of off e] obtain s1 where
    s1: "complete_one cb t off e k s = Some s1" "sync_inv t y b s1" "same_outside (sy_io s) (sy_io s1)"
      "sy_completed s1 = sy_completed s" "sy_buffer s1 = sy_buffer s" "get_x t (sy_io s1) = get_x t (sy_io s)" by blast
  from Cons.prems(3) s1(4) have "(\<forall>k \<in> set ks. \<not> is_own k) \<or> sy_completed s1" by auto
  from Cons.IH [OF s1(2) Cons.prems(2) this] s1 show ?case by (auto intro: same_outside_trans)
qed

lemma complete_all_append:
  "complete_all cb t off e (ks @ ls) s = do { s1 \<leftarrow> complete_all cb t off e ks s; complete_all cb t off e ls s1 }"
  by (induction ks arbitrary: s) (auto split: Option.bind_splits)

lemma complete_all_own:
  assumes inv: "sync_inv t y b s" and cb: "cb_quiet cb" and nc: "\<not> sy_completed s"
    and pre: "\<forall>k \<in> set pre. \<not> is_own k" and k: "off + length bs \<le> length b"
    and sh: "LIBUSB_TRANSFER_SHORT_NOT_OK \<notin> tr_flags y"
  shows "\<exists>s' x. complete_all cb t off e (pre @ Own st n bs # post) s = Some s' \<and> sync_inv t y b s' \<and>
    same_outside (sy_io s) (sy_io s') \<and> sy_completed s' \<and> write_at off bs b = Some (sy_buffer s') \<and>
    get_x t (sy_io s') = Some x \<and> tr_status x = st \<and> tr_actual_length x = n"
proof -
  from complete_all_other [OF inv cb, of pre off e] pre nc obtain s1 where
    s1: "complete_all cb t off e pre s = Some s1" "sync_inv t y b s1" "same_outside (sy_io s) (sy_io s1)" "\<not> sy_completed s1" by auto
  from complete_one_own [OF s1(2,4) k sh, of cb e st n] obtain s2 x where
    s2: "complete_one cb t off e (Own st n bs) s1 = Some s2" "sync_inv t y b s2" "same_outside (sy_io s1) (sy_io s2)"
      "sy_completed s2" "write_at off bs b = Some (sy_buffer s2)" "get_x t (sy_io s2) = Some x" "tr_status x = st"
      "tr_actual_length x = n" by blast
  from complete_all_other [OF s2(2) cb, of post off e] s2(4) obtain s3 where
    s3: "complete_all cb t off e post s2 = Some s3" "sync_inv t y b s3" "same_outside (sy_io s2) (sy_io s3)" "sy_completed s3"
      "sy_buffer s3 = sy_buffer s2" "get_x t (sy_io s3) = get_x t (sy_io s2)" by auto
  have "same_outside (sy_io s) (sy_io s3)" using s1(3) s2(3) s3(3) same_outside_trans by blast
  with s1 s2 s3 show ?thesis by (auto simp: complete_all_append)
qed

lemma cancel_inv:
  assumes inv: "sync_inv t y b s"
  obtains r c where "libusb_cancel_transfer e t (sy_io s) = Some (r, c)" "sync_inv t y b (s\<lparr>sy_io := c\<rparr>)"
    "same_outside (sy_io s) c" "sy_completed s \<Longrightarrow> c = sy_io s"
proof -
  from inv obtain x where wf: "io_wf (sy_io s)" and x: "get_x t (sy_io s) = Some x" "tr_flags x = tr_flags y" "tr_buffer x = tr_buffer y"
    by (auto simp: sync_inv_def)
  show thesis
  proof (cases "cancellable x")
    case False
    with cancel_eq [OF x(1) io_wfD(2) [OF wf x(1)], of e] inv show thesis by (intro that) auto
  next
    case True
    let ?x = "cancel_flags (env_cancel e t) x"
    let ?c = "put_x t ?x (sy_io s)"
    have f: "tr_flags ?x = tr_flags x" "tr_buffer ?x = tr_buffer x" "tr_dev ?x = tr_dev x" "it_lock ?x = it_lock x" "it_timeout ?x = it_timeout x"
      "USBI_TRANSFER_IN_FLIGHT \<in> it_state_flags ?x" "USBI_TRANSFER_IN_FLIGHT \<in> it_state_flags x"
      using True by (simp_all add: cancel_flags_def cancellable_def)
    have nc: "\<not> sy_completed s" using inv x(1) f(7) by (auto simp: sync_inv_def in_flight_def)
    have wf': "io_wf ?c" using io_wfD(2) [OF wf x(1)] f by (intro io_wf_put [OF wf x(1)]) auto
    have "dev_of ?c = dev_of (sy_io s)" using x(1) f(3) by (auto simp: dev_of_def fun_eq_iff)
    then have "same_outside (sy_io s) ?c" using x(1) by (auto simp: same_outside_def own_refs_def fun_eq_iff)
    moreover have "sync_inv t y b (s\<lparr>sy_io := ?c\<rparr>)"
      using inv wf' x f nc by (auto simp: sync_inv_def flags_ok_def)
    ultimately show thesis using cancel_eq [OF x(1) io_wfD(2) [OF wf x(1)], of e] True nc by (intro that) auto
  qed
qed


subsection \<open>The wait\<close>

text \<open>The rounds before the one that completes the transfer, and that one.\<close>

definition completes_in :: "(nat \<Rightarrow> event_round) \<Rightarrow> nat \<Rightarrow> libusb_transfer_status \<Rightarrow> int \<Rightarrow> u8 list \<Rightarrow> bool" where
  "completes_in evs m st n bs \<longleftrightarrow> (\<forall>i < m. \<forall>k \<in> set (er_completions (evs i)). \<not> is_own k) \<and>
     (\<exists>pre post. er_completions (evs m) = pre @ Own st n bs # post \<and> (\<forall>k \<in> set pre. \<not> is_own k))"

lemma completes_in_first:
  assumes "k \<in> set (er_completions (evs i))" and "is_own k"
  obtains m st n bs where "completes_in evs m st n bs"
proof -
  let ?P = "\<lambda>i. \<exists>k \<in> set (er_completions (evs i)). is_own k"
  define m where "m = (LEAST i. ?P i)"
  have "?P m" unfolding m_def by (rule LeastI [of ?P i]) (use assms in blast)
  moreover have "\<forall>i < m. \<not> ?P i" unfolding m_def using not_less_Least by blast
  moreover obtain pre k post where "er_completions (evs m) = pre @ k # post" "is_own k" "\<forall>j \<in> set pre. \<not> is_own j"
    using split_list_first_prop [OF \<open>?P m\<close>] by blast
  moreover from this obtain st n bs where "k = Own st n bs" by (cases k) auto
  ultimately show thesis by (intro that [of m st n bs]) (auto simp: completes_in_def)
qed

text \<open>A round that leaves the transfer in flight: the loop goes on.\<close>

lemma wait_step:
  assumes inv: "sync_inv t y b s" and cb: "cb_quiet cb" and nc: "\<not> sy_completed s"
    and none: "\<forall>k \<in> set (er_completions (evs i)). \<not> is_own k"
  obtains s' where "sync_transfer_wait_for_completion cb t off evs i s =
      sync_transfer_wait_for_completion cb t off evs (Suc i) s'"
    "sync_inv t y b s'" "same_outside (sy_io s) (sy_io s')" "\<not> sy_completed s'"
proof -
  from complete_all_other [OF inv cb, of "er_completions (evs i)" off "er_env (evs i)"] none nc obtain s1 where
    s1: "complete_all cb t off (er_env (evs i)) (er_completions (evs i)) s = Some s1" "sync_inv t y b s1"
      "same_outside (sy_io s) (sy_io s1)" "\<not> sy_completed s1" by auto
  from cancel_inv [OF s1(2), of "er_env (evs i)"] obtain r c where
    c: "libusb_cancel_transfer (er_env (evs i)) t (sy_io s1) = Some (r, c)" "sync_inv t y b (s1\<lparr>sy_io := c\<rparr>)"
      "same_outside (sy_io s1) c" by blast
  show thesis
  proof (cases "er_result (evs i) < 0 \<and> er_result (evs i) \<noteq> LIBUSB_ERROR_INTERRUPTED")
    case True
    have "same_outside (sy_io s) c" using s1(3) c(3) same_outside_trans by blast
    with True s1 c nc show thesis
      by (intro that [of "s1\<lparr>sy_io := c\<rparr>"])
        (simp_all add: sync_transfer_wait_for_completion.simps [of cb t off evs i s] libusb_handle_events_completed_def)
  next
    case False
    with s1 nc show thesis
      by (intro that [of s1])
        (auto simp add: sync_transfer_wait_for_completion.simps [of cb t off evs i s] libusb_handle_events_completed_def)
  qed
qed

lemma wait_done: "sy_completed s \<Longrightarrow> sync_transfer_wait_for_completion cb t off evs i s = Some s"
  by (simp add: sync_transfer_wait_for_completion.simps)

lemma wait_last:
  assumes inv: "sync_inv t y b s" and cb: "cb_quiet cb" and nc: "\<not> sy_completed s"
    and ks: "er_completions (evs i) = pre @ Own st n bs # post" "\<forall>k \<in> set pre. \<not> is_own k"
    and k: "off + length bs \<le> length b" and sh: "LIBUSB_TRANSFER_SHORT_NOT_OK \<notin> tr_flags y"
  shows "\<exists>s' x. sync_transfer_wait_for_completion cb t off evs i s = Some s' \<and> sync_inv t y b s' \<and>
    same_outside (sy_io s) (sy_io s') \<and> sy_completed s' \<and> write_at off bs b = Some (sy_buffer s') \<and>
    get_x t (sy_io s') = Some x \<and> tr_status x = st \<and> tr_actual_length x = n"
proof -
  from complete_all_own [OF inv cb nc ks(2) k sh, of "er_env (evs i)" st n post] ks(1) obtain s1 x where
    s1: "complete_all cb t off (er_env (evs i)) (er_completions (evs i)) s = Some s1" "sync_inv t y b s1"
      "same_outside (sy_io s) (sy_io s1)" "sy_completed s1" "write_at off bs b = Some (sy_buffer s1)"
      "get_x t (sy_io s1) = Some x" "tr_status x = st" "tr_actual_length x = n" by auto
  from cancel_inv [OF s1(2), of "er_env (evs i)"] s1(4) obtain r where
    "libusb_cancel_transfer (er_env (evs i)) t (sy_io s1) = Some (r, sy_io s1)" by blast
  with s1 nc have "sync_transfer_wait_for_completion cb t off evs i s = Some s1"
    by (auto simp add: sync_transfer_wait_for_completion.simps [of cb t off evs i s] libusb_handle_events_completed_def
        intro: wait_done)
  with s1 show ?thesis by blast
qed

lemma wait_completes:
  assumes "sync_inv t y b s" and cb: "cb_quiet cb" and "\<not> sy_completed s" and "i \<le> m"
    and ev: "completes_in evs m st n bs" and k: "off + length bs \<le> length b"
    and sh: "LIBUSB_TRANSFER_SHORT_NOT_OK \<notin> tr_flags y"
  shows "\<exists>s' x. sync_transfer_wait_for_completion cb t off evs i s = Some s' \<and> sync_inv t y b s' \<and>
    same_outside (sy_io s) (sy_io s') \<and> sy_completed s' \<and> write_at off bs b = Some (sy_buffer s') \<and>
    get_x t (sy_io s') = Some x \<and> tr_status x = st \<and> tr_actual_length x = n"
  using assms(1,3,4)
proof (induction "m - i" arbitrary: i s)
  case 0
  then have "i = m" by simp
  with ev obtain pre post where ks: "er_completions (evs i) = pre @ Own st n bs # post" "\<forall>k \<in> set pre. \<not> is_own k"
    by (auto simp: completes_in_def)
  show ?case by (rule wait_last [where evs = evs and i = i, OF 0(2) cb 0(3) ks k sh])
next
  case (Suc d)
  then have "i < m" by linarith
  with ev have "\<forall>k \<in> set (er_completions (evs i)). \<not> is_own k" by (simp add: completes_in_def)
  from wait_step [where evs = evs and i = i, OF Suc.prems(1) cb Suc.prems(2) this, of off] obtain s1 where
    s1: "sync_transfer_wait_for_completion cb t off evs i s = sync_transfer_wait_for_completion cb t off evs (Suc i) s1"
      "sync_inv t y b s1" "same_outside (sy_io s) (sy_io s1)" "\<not> sy_completed s1" by blast
  have "d = m - Suc i" "Suc i \<le> m" using Suc.hyps(2) \<open>i < m\<close> by linarith+
  from Suc.hyps(1) [OF this(1) s1(2,4) this(2)] obtain s' x where
    "sync_transfer_wait_for_completion cb t off evs (Suc i) s1 = Some s'" "sync_inv t y b s'"
    "same_outside (sy_io s1) (sy_io s')" "sy_completed s'" "write_at off bs b = Some (sy_buffer s')"
    "get_x t (sy_io s') = Some x" "tr_status x = st" "tr_actual_length x = n" by blast
  with s1(1,3) show ?case by (intro exI [of _ s'] exI [of _ x]) (auto intro: same_outside_trans)
qed

text \<open>Without a completion of the transfer the loop does not end: by fixpoint induction, a result has \<open>completed\<close> set.\<close>

lemma wait_result_completed:
  assumes "sync_transfer_wait_for_completion cb t off evs i s = Some s'"
  shows "sy_completed s \<or> (\<exists>j \<ge> i. \<exists>k \<in> set (er_completions (evs j)). is_own k)"
proof (rule sync_transfer_wait_for_completion.raw_induct
    [where P = "\<lambda>cb t off evs i s s'. sy_completed s \<or> (\<exists>j \<ge> i. \<exists>k \<in> set (er_completions (evs j)). is_own k)", OF _ assms])
  fix wait cb t off evs i s s'
  assume IH: "\<And>cb t off evs i s s'. wait cb t off evs i s = Some s' \<Longrightarrow>
      sy_completed s \<or> (\<exists>j \<ge> i. \<exists>k \<in> set (er_completions (evs j)). is_own k)"
    and eq: "(if sy_completed s then Some s
      else do {
        (r, s1) \<leftarrow> libusb_handle_events_completed cb t off (evs i) s;
        if r < 0 then
          if r = LIBUSB_ERROR_INTERRUPTED then wait cb t off evs (Suc i) s1
          else do {
            (_, c) \<leftarrow> libusb_cancel_transfer (er_env (evs i)) t (sy_io s1);
            wait cb t off evs (Suc i) (s1\<lparr>sy_io := c\<rparr>)
          }
        else wait cb t off evs (Suc i) s1
      }) = Some s'"
  have other: "complete_all cb t off e ks u = Some u' \<Longrightarrow> \<forall>k \<in> set ks. \<not> is_own k \<Longrightarrow> sy_completed u' = sy_completed u"
    for e ks u u'
  proof (induction ks arbitrary: u)
    case (Cons k ks)
    then obtain u1 where u1: "complete_one cb t off e k u = Some u1" "complete_all cb t off e ks u1 = Some u'"
      by (auto simp: bind_eq_Some_conv)
    from u1(1) Cons.prems(2) have "sy_completed u1 = sy_completed u"
      by (cases k) (auto simp: complete_one_def bind_eq_Some_conv split: if_splits)
    with Cons.IH [OF u1(2)] Cons.prems(2) show ?case by simp
  qed simp
  show "sy_completed s \<or> (\<exists>j \<ge> i. \<exists>k \<in> set (er_completions (evs j)). is_own k)"
  proof (cases "sy_completed s \<or> (\<exists>k \<in> set (er_completions (evs i)). is_own k)")
    case True
    then show ?thesis by blast
  next
    case False
    with eq obtain s1 where s1: "complete_all cb t off (er_env (evs i)) (er_completions (evs i)) s = Some s1"
      and w: "wait cb t off evs (Suc i) s1 = Some s' \<or> (\<exists>c. wait cb t off evs (Suc i) (s1\<lparr>sy_io := c\<rparr>) = Some s')"
      by (auto simp: libusb_handle_events_completed_def bind_eq_Some_conv split: if_splits prod.splits)
    from w show ?thesis
    proof (elim disjE exE)
      assume "wait cb t off evs (Suc i) s1 = Some s'"
      from IH [OF this] other [OF s1] False show ?thesis by (auto dest: Suc_leD)
    next
      fix c assume "wait cb t off evs (Suc i) (s1\<lparr>sy_io := c\<rparr>) = Some s'"
      from IH [OF this] other [OF s1] False show ?thesis by (auto dest: Suc_leD)
    qed
  qed
qed


subsection \<open>A transfer for one call\<close>

text \<open>The system's and the backend's results are 0 or negative.\<close>

definition env_ok :: "env \<Rightarrow> bool" where
  "env_ok e \<longleftrightarrow> env_settime e \<le> 0 \<and> (\<forall>t. env_submit e t \<le> 0)"

lemma calculate_timeout_nonpos: "calculate_timeout e x = (r, y) \<Longrightarrow> r \<le> 0"
  by (auto simp: calculate_timeout_def Let_def split: if_splits prod.splits)

lemma add_to_flying_list_nonpos:
  assumes "env_settime e \<le> 0" and "add_to_flying_list e t c = Some (r, c')"
  shows "r \<le> 0"
proof -
  from assms(2) obtain x0 where x0: "get_x t c = Some x0" by (auto simp: add_to_flying_list_def bind_eq_Some_conv)
  obtain r0 x where ct: "calculate_timeout e x0 = (r0, x)" by fastforce
  show ?thesis
  proof (cases "r0 = 0")
    case False
    with assms(2) x0 ct calculate_timeout_nonpos [OF ct] show ?thesis by (auto simp: add_to_flying_list_def)
  next
    case True
    with assms x0 ct show ?thesis
      by (auto simp: add_to_flying_list_def timerfd_settime_def Let_def bind_eq_Some_conv split: if_splits)
  qed
qed

lemma submit_nonpos:
  assumes e: "env_ok e" and s: "libusb_submit_transfer e t c = Some (r, c')"
  shows "r \<le> 0"
proof -
  have bk: "submit_backend e t c4 = Some (r, c') \<Longrightarrow> r \<le> 0" for c4
    using e by (auto simp: submit_backend_def env_ok_def Let_def bind_eq_Some_conv split: if_splits)
  have tm: "env_settime e \<le> 0" using e by (simp add: env_ok_def)
  from s obtain c2 x where x: "get_x t c2 = Some x"
    and c: "(if USBI_TRANSFER_IN_FLIGHT \<in> it_state_flags x then do {
        c3 \<leftarrow> unlock_flying c2; c4 \<leftarrow> unlock_x t c3; Some (LIBUSB_ERROR_BUSY, c4) }
      else do {
        (r, c4) \<leftarrow> add_to_flying_list e t (put_x t (x\<lparr>it_transferred := 0, it_state_flags := {}, it_timeout_flags := {}\<rparr>) c2);
        if r \<noteq> 0 then do { c5 \<leftarrow> unlock_flying c4; c6 \<leftarrow> unlock_x t c5; Some (r, c6) }
        else submit_backend e t c4 }) = Some (r, c')"
    unfolding libusb_submit_transfer_def Let_def bind_eq_Some_conv by blast
  show ?thesis
  proof (cases "USBI_TRANSFER_IN_FLIGHT \<in> it_state_flags x")
    case True
    with c show ?thesis by (auto simp: bind_eq_Some_conv)
  next
    case False
    with c obtain r1 c4 where a: "add_to_flying_list e t
        (put_x t (x\<lparr>it_transferred := 0, it_state_flags := {}, it_timeout_flags := {}\<rparr>) c2) = Some (r1, c4)"
      and d: "(if r1 \<noteq> 0 then do { c5 \<leftarrow> unlock_flying c4; c6 \<leftarrow> unlock_x t c5; Some (r1, c6) }
        else submit_backend e t c4) = Some (r, c')"
      by (auto simp: bind_eq_Some_conv)
    from d add_to_flying_list_nonpos [OF tm a] bk show ?thesis
      by (cases "r1 = 0") (auto simp: bind_eq_Some_conv)
  qed
qed

text \<open>The clock can be read, the timer can be set, and the backend accepts what is submitted.\<close>

definition env_accepts :: "env \<Rightarrow> bool" where
  "env_accepts e \<longleftrightarrow> 0 \<le> fst (env_clock e) \<and> env_settime e = 0 \<and> (\<forall>t. env_submit e t = 0)"

lemma add_to_flying_list_accepts:
  assumes e: "env_accepts e" and a: "add_to_flying_list e t c = Some (r, c')"
  shows "r = 0"
proof -
  from a obtain x0 where x0: "get_x t c = Some x0" by (auto simp: add_to_flying_list_def bind_eq_Some_conv)
  obtain r0 x where ct: "calculate_timeout e x0 = (r0, x)" by fastforce
  then have "r0 = 0" using e by (auto simp: calculate_timeout_def env_accepts_def Let_def split: if_splits prod.splits)
  with e a x0 ct show ?thesis
    by (auto simp: add_to_flying_list_def timerfd_settime_def env_accepts_def Let_def bind_eq_Some_conv split: if_splits)
qed

lemma submit_accepts:
  assumes e: "env_accepts e" and wf: "io_wf c" and x: "get_x t c = Some x" and nf: "\<not> in_flight c t"
    and s: "libusb_submit_transfer e t c = Some (r, c')"
  shows "r = 0"
proof -
  have nl: "\<not> it_lock x" "\<not> ic_flying_lock c" "USBI_TRANSFER_IN_FLIGHT \<notin> it_state_flags x"
    using io_wfD(1,2) [OF wf] x nf by (auto simp: in_flight_def)
  with x s obtain r1 c4 where a: "add_to_flying_list e t (put_x t (x\<lparr>it_lock := True, it_transferred := 0,
      it_state_flags := {}, it_timeout_flags := {}\<rparr>) (c\<lparr>ic_flying_lock := True\<rparr>)) = Some (r1, c4)"
    and d: "(if r1 \<noteq> 0 then do { c5 \<leftarrow> unlock_flying c4; c6 \<leftarrow> unlock_x t c5; Some (r1, c6) }
      else submit_backend e t c4) = Some (r, c')"
    by (auto simp: libusb_submit_transfer_def lock_flying_def lock_x_def Let_def bind_eq_Some_conv)
  from add_to_flying_list_accepts [OF e a] d e show ?thesis
    by (auto simp: submit_backend_def env_accepts_def Let_def bind_eq_Some_conv)
qed

lemma io_wf_fresh:
  assumes wf: "io_wf c" and t: "get_x t c = None" and x: "\<not> it_lock x" "it_state_flags x = {}"
  shows "io_wf (put_x t x (c\<lparr>ic_heap := h\<rparr>))"
proof -
  let ?c = "put_x t x (c\<lparr>ic_heap := h\<rparr>)"
  have g: "get_x u ?c = (if u = t then Some x else get_x u c)" for u by (simp add: get_x_def put_x_def)
  have nin: "t \<notin> set (ic_flying c)" using wf t by (auto simp: io_wf_def flying_wf_def)
  have "tv_sorted ?c (ic_flying c) \<longleftrightarrow> tv_sorted c (ic_flying c)"
    by (rule tv_sorted_cong) (use g nin in \<open>auto simp: timeout_of_def\<close>)
  moreover have "in_flight ?c u = in_flight c u" for u using g x t by (simp add: in_flight_def)
  ultimately show ?thesis using wf x g nin by (auto simp: io_wf_def quiescent_def flying_wf_def split: if_splits)
qed

text \<open>The context in which a fresh transfer \<open>x\<close> is submitted.\<close>

definition fresh_call :: "io_ctx \<Rightarrow> ptr \<Rightarrow> usbi_transfer \<Rightarrow> io_ctx \<Rightarrow> bool" where
  "fresh_call c t x c2 \<longleftrightarrow> sync_ready c \<and> t \<notin> hp_live (ic_heap c) \<and> (\<exists>h. c2 = put_x t x (c\<lparr>ic_heap := h\<rparr>)) \<and>
     \<not> it_lock x \<and> it_state_flags x = {} \<and> tr_flags x \<subseteq> {LIBUSB_TRANSFER_FREE_BUFFER}"

lemma fresh_callD:
  assumes "fresh_call c t x c2"
  shows "io_wf c2" "get_x t c2 = Some x" "\<not> in_flight c2 t" "ic_flying c2 = ic_flying c" "ic_refs c2 = ic_refs c"
    "u \<noteq> t \<Longrightarrow> get_x u c2 = get_x u c" "get_x t c = None" "t \<notin> set (ic_flying c)" "own_refs c2 = own_refs c" "flags_ok c2"
proof -
  from assms obtain h where f: "sync_ready c" "t \<notin> hp_live (ic_heap c)" "c2 = put_x t x (c\<lparr>ic_heap := h\<rparr>)"
    "\<not> it_lock x" "it_state_flags x = {}" by (auto simp: fresh_call_def)
  show n: "get_x t c = None" using f(1,2) unfolding sync_ready_def by (metis option.exhaust)
  have wf: "io_wf c" using f(1) by (simp add: sync_ready_def)
  show nin: "t \<notin> set (ic_flying c)" using wf n by (auto simp: io_wf_def flying_wf_def)
  show "io_wf c2" unfolding f(3) by (rule io_wf_fresh [OF wf n f(4,5)])
  show "get_x t c2 = Some x" "\<not> in_flight c2 t" "ic_flying c2 = ic_flying c" "ic_refs c2 = ic_refs c"
    using f(3,5) by (simp_all add: in_flight_def)
  show g: "get_x u c2 = get_x u c" if "u \<noteq> t" for u using f(3) that by (simp add: get_x_def put_x_def)
  have "dev_of c2 u = dev_of c u" if "u \<in> set (ic_flying c)" for u
  proof -
    have "u \<noteq> t" using that nin by blast
    then show ?thesis using g by (simp add: dev_of_def)
  qed
  then have "filter (\<lambda>u. dev_of c2 u = d) (ic_flying c) = filter (\<lambda>u. dev_of c u = d) (ic_flying c)" for d
    by (intro filter_cong) auto
  then show "own_refs c2 = own_refs c" using f(3) by (auto simp: own_refs_def fun_eq_iff)
  show "flags_ok c2" using f(1,3) g nin unfolding flags_ok_def sync_ready_def by auto
qed

lemma free_spec:
  assumes wf: "io_wf c" and x: "get_x t c = Some x" and nf: "\<not> in_flight c t" and t: "t \<in> hp_live (ic_heap c)"
    and b: "if LIBUSB_TRANSFER_FREE_BUFFER \<in> tr_flags x then \<exists>p. tr_buffer x = Some p \<and> p \<in> hp_live (ic_heap c) \<and> p \<noteq> t
      else tr_buffer x \<noteq> None \<or> True"
  shows "\<exists>c'. libusb_free_transfer (Some t) c = Some c' \<and> io_wf c' \<and> ic_flying c' = ic_flying c \<and> own_refs c' = own_refs c \<and>
    get_x t c' = None \<and> (\<forall>u. u \<noteq> t \<longrightarrow> get_x u c' = get_x u c) \<and>
    hp_live (ic_heap c') = hp_live (ic_heap c) - {t} -
      (if LIBUSB_TRANSFER_FREE_BUFFER \<in> tr_flags x then {the (tr_buffer x)} else {})"
proof -
  note wfd = io_wfD [OF wf]
  define h1 where "h1 = (if LIBUSB_TRANSFER_FREE_BUFFER \<in> tr_flags x
    then (ic_heap c)\<lparr>hp_live := hp_live (ic_heap c) - {the (tr_buffer x)}\<rparr> else ic_heap c)"
  define c' where "c' = c\<lparr>ic_heap := h1\<lparr>hp_live := hp_live h1 - {t}\<rparr>, ic_xfers := (ic_xfers c)(t := None)\<rparr>"
  have h1: "(if LIBUSB_TRANSFER_FREE_BUFFER \<in> tr_flags x \<and> tr_buffer x \<noteq> None
      then c_free (tr_buffer x) (ic_heap c) else Some (ic_heap c)) = Some h1" "t \<in> hp_live h1"
    using b t by (auto simp: h1_def c_release_def split: if_splits)
  have free: "libusb_free_transfer (Some t) c = Some c'"
    using x wfd(2) [OF x] h1 by (simp add: libusb_free_transfer_def c_release_def c'_def)
  have g: "get_x u c' = (if u = t then None else get_x u c)" for u by (simp add: c'_def get_x_def)
  have nin: "t \<notin> set (ic_flying c)" using wfd(4) nf by blast
  have fl: "ic_flying c' = ic_flying c" "ic_refs c' = ic_refs c" "ic_flying_lock c' = ic_flying_lock c" by (simp_all add: c'_def)
  have "tv_sorted c' (ic_flying c) \<longleftrightarrow> tv_sorted c (ic_flying c)"
    by (rule tv_sorted_cong) (use g nin in \<open>auto simp: timeout_of_def\<close>)
  moreover have "in_flight c' u = in_flight c u" for u using g nf by (simp add: in_flight_def)
  ultimately have "io_wf c'" using wf g nin fl by (auto simp: io_wf_def quiescent_def flying_wf_def split: if_splits)
  moreover have "filter (\<lambda>u. dev_of c' u = d) (ic_flying c) = filter (\<lambda>u. dev_of c u = d) (ic_flying c)" for d
    by (rule filter_cong) (use g nin in \<open>auto simp: dev_of_def\<close>)
  then have "own_refs c' = own_refs c" using fl by (auto simp: own_refs_def fun_eq_iff)
  moreover have "hp_live (ic_heap c') = hp_live (ic_heap c) - {t} -
      (if LIBUSB_TRANSFER_FREE_BUFFER \<in> tr_flags x then {the (tr_buffer x)} else {})"
    by (auto simp: c'_def h1_def)
  ultimately show ?thesis using free g fl(1) by auto
qed


text \<open>The blocks of a call are the transfer and, when the transfer frees it, its buffer.\<close>

definition call_blocks :: "io_ctx \<Rightarrow> ptr \<Rightarrow> usbi_transfer \<Rightarrow> io_ctx \<Rightarrow> bool" where
  "call_blocks c t x c2 \<longleftrightarrow>
     (if LIBUSB_TRANSFER_FREE_BUFFER \<in> tr_flags x
      then \<exists>p. tr_buffer x = Some p \<and> p \<noteq> t \<and> p \<notin> hp_live (ic_heap c) \<and>
        hp_live (ic_heap c2) = insert p (insert t (hp_live (ic_heap c)))
      else hp_live (ic_heap c2) = insert t (hp_live (ic_heap c)))"

lemma give_back:
  assumes f: "fresh_call c t x c2" and b: "call_blocks c t x c2"
    and s: "io_wf s" "get_x t s = Some y" "tr_flags y = tr_flags x" "tr_buffer y = tr_buffer x" "\<not> in_flight s t"
    and o: "ic_heap s = ic_heap c2" "own_refs s = own_refs c" "set (ic_flying s) \<subseteq> insert t (set (ic_flying c))"
      "\<And>u. u \<noteq> t \<Longrightarrow> get_x u s = None \<longleftrightarrow> get_x u c = None"
  shows "\<exists>c'. libusb_free_transfer (Some t) s = Some c' \<and> balanced c c'"
proof -
  have t: "t \<notin> hp_live (ic_heap c)" using f by (simp add: fresh_call_def)
  have "t \<in> hp_live (ic_heap s)" using b o(1) by (auto simp: call_blocks_def split: if_splits)
  moreover have "if LIBUSB_TRANSFER_FREE_BUFFER \<in> tr_flags y then \<exists>p. tr_buffer y = Some p \<and> p \<in> hp_live (ic_heap s) \<and> p \<noteq> t
      else tr_buffer y \<noteq> None \<or> True"
    using b o(1) s(3,4) by (auto simp: call_blocks_def split: if_splits)
  ultimately obtain c' where c': "libusb_free_transfer (Some t) s = Some c'" "io_wf c'" "ic_flying c' = ic_flying s"
    "own_refs c' = own_refs s" "get_x t c' = None" "\<And>u. u \<noteq> t \<Longrightarrow> get_x u c' = get_x u s"
    "hp_live (ic_heap c') = hp_live (ic_heap s) - {t} - (if LIBUSB_TRANSFER_FREE_BUFFER \<in> tr_flags y then {the (tr_buffer y)} else {})"
    using free_spec [OF s(1,2,5)] by blast
  have "hp_live (ic_heap c') = hp_live (ic_heap c)"
    using c'(7) b o(1) s(3,4) t by (auto simp: call_blocks_def split: if_splits)
  moreover have "t \<notin> set (ic_flying s)" using io_wfD(4) [OF s(1)] s(5) by blast
  then have "set (ic_flying c') \<subseteq> set (ic_flying c)" using o(3) c'(3) by auto
  moreover have "get_x u c' = None \<longleftrightarrow> get_x u c = None" for u
    using c'(5,6) o(4) fresh_callD(7) [OF f] by (cases "u = t") auto
  ultimately show ?thesis using c' o(2) by (auto simp: balanced_def)
qed

lemma submit_sync:
  assumes f: "fresh_call c t x c2" and e: "env_ok e"
  obtains (fail) r c1 y where "libusb_submit_transfer e t c2 = Some (r, c1)" "r < 0" "io_wf c1" "get_x t c1 = Some y"
      "tr_flags y = tr_flags x" "tr_buffer y = tr_buffer x" "\<not> in_flight c1 t" "ic_heap c1 = ic_heap c2"
      "own_refs c1 = own_refs c" "ic_flying c1 = ic_flying c" "\<And>u. u \<noteq> t \<Longrightarrow> get_x u c1 = get_x u c"
  | (ok) c1 where "libusb_submit_transfer e t c2 = Some (0, c1)"
      "\<And>b. sync_inv t x b \<lparr>sy_io = c1, sy_completed = False, sy_buffer = b\<rparr>" "ic_heap c1 = ic_heap c2"
      "own_refs c1 = own_refs c" "set (ic_flying c1) = insert t (set (ic_flying c))" "\<And>u. u \<noteq> t \<Longrightarrow> get_x u c1 = get_x u c"
proof -
  note fd = fresh_callD [OF f]
  from submit_spec [OF fd(1,2,3), of e] obtain r c1 where s: "libusb_submit_transfer e t c2 = Some (r, c1)"
    and eff: "submit_effect c2 t r c1" by blast
  have r: "r \<le> 0" by (rule submit_nonpos [OF e s])
  from eff fd(2) obtain y where y: "get_x t c1 = Some y" "tr_flags y = tr_flags x" "tr_buffer y = tr_buffer x" "tr_dev y = tr_dev x"
    by (auto simp: submit_effect_def)
  have oth: "get_x u c1 = get_x u c2" if "u \<noteq> t" for u using eff that by (simp add: submit_effect_def)
  have dv: "dev_of c1 u = dev_of c2 u" for u using y fd(2) oth by (cases "u = t") (simp_all add: dev_of_def)
  show thesis
  proof (cases "r = 0")
    case False
    then have fl: "ic_flying c1 = ic_flying c2" "ic_refs c1 = ic_refs c2" "\<not> in_flight c1 t" "io_wf c1" "ic_heap c1 = ic_heap c2"
      using eff fd(2) by (simp_all add: submit_effect_def)
    have "own_refs c1 = own_refs c2" using dv fl by (auto simp: own_refs_def fun_eq_iff)
    then have own: "own_refs c1 = own_refs c" and neg: "r < 0" using fd(9) False r by simp_all
    show thesis by (rule fail [OF s neg fl(4) y(1,2,3) fl(3,5) own]) (use fl(1) fd(4,6) oth in auto)
  next
    case True
    then have fl: "set (ic_flying c1) = insert t (set (ic_flying c2))" "remove1 t (ic_flying c1) = ic_flying c2"
      "in_flight c1 t" "io_wf c1" "ic_heap c1 = ic_heap c2"
      "ic_refs c1 = (ic_refs c2)(tr_dev x := ic_refs c2 (tr_dev x) + 1)"
      using eff fd(2) by (simp_all add: submit_effect_def)
    have "own_refs c2 = own_refs c1"
      by (rule own_refs_swap [where t = t and d = "tr_dev x"]) (use fl dv y in \<open>auto simp: dev_of_def\<close>)
    moreover have "tr_flags x \<subseteq> {LIBUSB_TRANSFER_FREE_BUFFER}" using f by (simp add: fresh_call_def)
    then have "flags_ok c1" using fd(10) fl(1) y(1,2) oth unfolding flags_ok_def by (metis insert_iff option.inject singletonD subsetD transfer_flag.distinct(7))
    ultimately show thesis using True s fl y fd(4,6,9) oth by (intro ok [of c1]) (auto simp: sync_inv_def)
  qed
qed

text \<open>The call from the submission to the release of the transfer.\<close>

lemma sync_body:
  assumes f: "fresh_call c t x c2" and bl: "call_blocks c t x c2" and inv: "\<And>b. sync_inv t x b \<lparr>sy_io = c1, sy_completed = False, sy_buffer = b\<rparr>"
    and c1: "ic_heap c1 = ic_heap c2" "own_refs c1 = own_refs c" "set (ic_flying c1) = insert t (set (ic_flying c))"
      "\<And>u. u \<noteq> t \<Longrightarrow> get_x u c1 = get_x u c"
    and cb: "cb_quiet cb" and ev: "completes_in evs m st n bs" and k: "off + length bs \<le> length b"
  obtains s y c' where "sync_transfer_wait_for_completion cb t off evs 0 \<lparr>sy_io = c1, sy_completed = False, sy_buffer = b\<rparr> = Some s"
    "write_at off bs b = Some (sy_buffer s)" "get_x t (sy_io s) = Some y" "tr_status y = st" "tr_actual_length y = n"
    "libusb_free_transfer (Some t) (sy_io s) = Some c'" "balanced c c'"
proof -
  have sh: "LIBUSB_TRANSFER_SHORT_NOT_OK \<notin> tr_flags x" using f by (auto simp: fresh_call_def)
  have nc: "\<not> sy_completed \<lparr>sy_io = c1, sy_completed = False, sy_buffer = b\<rparr>" by simp
  from wait_completes [OF inv cb nc _ ev k sh, of 0] obtain s y where
    s: "sync_transfer_wait_for_completion cb t off evs 0 \<lparr>sy_io = c1, sy_completed = False, sy_buffer = b\<rparr> = Some s"
      "sync_inv t x b s" "same_outside c1 (sy_io s)" "sy_completed s" "write_at off bs b = Some (sy_buffer s)"
      "get_x t (sy_io s) = Some y" "tr_status y = st" "tr_actual_length y = n" by auto
  have "get_x u (sy_io s) = None \<longleftrightarrow> get_x u c = None" if "u \<noteq> t" for u
    using s(3) c1(4) [OF that] by (auto simp: same_outside_def)
  moreover have "set (ic_flying (sy_io s)) \<subseteq> insert t (set (ic_flying c))" using s(3) c1(3) by (auto simp: same_outside_def)
  moreover have "ic_heap (sy_io s) = ic_heap c2" "own_refs (sy_io s) = own_refs c" using s(3) c1(1,2) by (auto simp: same_outside_def)
  moreover have "io_wf (sy_io s)" "\<not> in_flight (sy_io s) t" "tr_flags y = tr_flags x" "tr_buffer y = tr_buffer x"
    using s(2,4,6) by (auto simp: sync_inv_def)
  ultimately obtain c' where "libusb_free_transfer (Some t) (sy_io s) = Some c'" "balanced c c'"
    using give_back [OF f bl _ s(6), of] by blast
  with s show thesis by (intro that)
qed


subsection \<open>The setup packet\<close>

lemma store_le16: "store16 cpu (libusb_cpu_to_le16 cpu w) = [lo8 w, hi8 w]"
  by (cases cpu) (simp_all add: store16_def libusb_cpu_to_le16_def load16_def Let_def)

lemma le16_load: "libusb_cpu_to_le16 cpu (load16 cpu True (lo8 w) (hi8 w)) = w"
  by (cases cpu) (simp_all add: libusb_cpu_to_le16_def load16_def Let_def)

definition setup_bytes :: "u8 \<Rightarrow> u8 \<Rightarrow> u16 \<Rightarrow> u16 \<Rightarrow> u16 \<Rightarrow> u8 list" where
  "setup_bytes rt rq v i l = [rt, rq, lo8 v, hi8 v, lo8 i, hi8 i, lo8 l, hi8 l]"

lemma length_setup_bytes [simp]: "length (setup_bytes rt rq v i l) = 8"
  by (simp add: setup_bytes_def)

lemma fill_setup_eq:
  "8 \<le> length b \<Longrightarrow> libusb_fill_control_setup cpu rt rq v i l b = Some (setup_bytes rt rq v i l @ drop 8 b)"
  by (simp add: libusb_fill_control_setup_def put_setup_def store_le16 setup_bytes_def)

lemma get_setup_bytes:
  "libusb_control_transfer_get_setup cpu (setup_bytes rt rq v i l @ d) = Some \<lparr>cs_bmRequestType = rt, cs_bRequest = rq,
     cs_wValue = load16 cpu True (lo8 v) (hi8 v), cs_wIndex = load16 cpu True (lo8 i) (hi8 i),
     cs_wLength = load16 cpu True (lo8 l) (hi8 l)\<rparr>"
  by (simp add: libusb_control_transfer_get_setup_def setup_bytes_def)

text \<open>A transfer as \<open>libusb_control_transfer\<close> submits it.\<close>

definition control_x :: "dev_handle \<Rightarrow> ptr \<Rightarrow> u16 \<Rightarrow> u32 \<Rightarrow> usbi_transfer" where
  "control_x dh p l timeout = (new_transfer 0)\<lparr>tr_dev_handle := fst dh, tr_dev := snd dh, tr_flags := {LIBUSB_TRANSFER_FREE_BUFFER},
     tr_timeout := timeout, tr_length := 8 + uint l, tr_callback := Some sync_cb, tr_user_data := completed_var, tr_buffer := Some p\<rparr>"

lemma fill_control_eq:
  assumes "libusb_fill_control_transfer cpu dh (Some (p, setup_bytes rt rq v i l @ d)) (Some sync_cb) completed_var timeout
    (new_transfer 0) = Some x"
  shows "x\<lparr>tr_flags := {LIBUSB_TRANSFER_FREE_BUFFER}\<rparr> = control_x dh p l timeout"
  using assms by (auto simp: libusb_fill_control_transfer_def get_setup_bytes le16_load control_x_def new_transfer_def)

lemma control_x_fields [simp]:
  "tr_flags (control_x dh p l timeout) = {LIBUSB_TRANSFER_FREE_BUFFER}" "tr_buffer (control_x dh p l timeout) = Some p"
  "it_lock (control_x dh p l timeout) = False" "it_state_flags (control_x dh p l timeout) = {}"
  by (simp_all add: control_x_def new_transfer_def)

subsection \<open>Control transfers\<close>

lemma control_submit_spec:
  assumes f: "fresh_call c t x c2" and bl: "call_blocks c t x c2" and e: "env_ok e" and cb: "cb_quiet cb"
    and ev: "completes_in evs m st n bs" and b: "length b = 8 + w" and bs: "length bs \<le> w" "w \<le> length data"
    and n: "is_in rt \<longrightarrow> n = int (length bs)"
  shows "\<exists>r data' c'. control_submit cb e evs rt data t b c2 = Some (r, data', c') \<and> balanced c c' \<and>
    (\<not> env_accepts e \<and> r < 0 \<and> data' = data \<or>
     r = (if st = LIBUSB_TRANSFER_COMPLETED then n else sync_error st) \<and>
     data' = (if is_in rt then bs @ drop (length bs) data else data))"
  using f e
proof (cases rule: submit_sync)
  case (fail r c1 y)
  from give_back [OF f bl fail(3,4,5,6,7,8,9)] fail(10,11) obtain c' where
    "libusb_free_transfer (Some t) c1 = Some c'" "balanced c c'" by auto
  moreover have "\<not> env_accepts e" using submit_accepts [OF _ fresh_callD(1,2,3) [OF f] fail(1)] fail(2) by auto
  ultimately show ?thesis using fail(1,2) by (simp add: control_submit_def)
next
  case (ok c1)
  have "8 + length bs \<le> length b" using b bs by simp
  from sync_body [OF f bl ok(2-6) cb ev this] obtain s y c' where
    s: "sync_transfer_wait_for_completion cb t 8 evs 0 \<lparr>sy_io = c1, sy_completed = False, sy_buffer = b\<rparr> = Some s"
      "write_at 8 bs b = Some (sy_buffer s)" "get_x t (sy_io s) = Some y" "tr_status y = st" "tr_actual_length y = n"
      "libusb_free_transfer (Some t) (sy_io s) = Some c'" "balanced c c'" by blast
  have "sy_buffer s = take 8 b @ bs @ drop (8 + length bs) b" using s(2) by (simp add: write_at_def split: if_splits)
  then have "take (length bs) (drop 8 (sy_buffer s)) = bs" "length (sy_buffer s) = length b" using b bs by simp_all
  then have "(if is_in rt then do {
      bs \<leftarrow> c_memcpy (libusb_control_transfer_get_data (sy_buffer s)) (tr_actual_length y); write_at 0 bs data }
      else Some data) = Some (if is_in rt then bs @ drop (length bs) data else data)"
    using n s(5) b bs by (auto simp: c_memcpy_def libusb_control_transfer_get_data_def write_at_def)
  with ok(1) s show ?thesis by (simp add: control_submit_def)
qed

lemma balanced_heap:
  assumes "sync_ready c" and "hp_live h = hp_live (ic_heap c)"
  shows "balanced c (c\<lparr>ic_heap := h\<rparr>)"
proof -
  have g: "get_x u (c\<lparr>ic_heap := h\<rparr>) = get_x u c" for u by (simp add: get_x_def)
  have "tv_sorted (c\<lparr>ic_heap := h\<rparr>) (ic_flying c) \<longleftrightarrow> tv_sorted c (ic_flying c)"
    by (rule tv_sorted_cong) (simp add: timeout_of_def g)
  then have "io_wf (c\<lparr>ic_heap := h\<rparr>)"
    using assms(1) by (simp add: sync_ready_def io_wf_def quiescent_def flying_wf_def in_flight_def g)
  moreover have "own_refs (c\<lparr>ic_heap := h\<rparr>) = own_refs c" by (auto simp: own_refs_def dev_of_def g)
  ultimately show ?thesis using assms(2) g by (simp add: balanced_def)
qed

text \<open>The requests of the call: the transfer, and the buffer of a control transfer.\<close>

lemma alloc_cases:
  assumes "sync_ready c"
  obtains (none) c1 where "libusb_alloc_transfer 0 c = (None, c1)" "balanced c c1"
  | (some) t h where "libusb_alloc_transfer 0 c = (Some t, put_x t (new_transfer 0) (c\<lparr>ic_heap := h\<rparr>))"
      "c_malloc (ic_heap c) = (Some t, h)" "t \<notin> hp_live (ic_heap c)" "hp_live h = insert t (hp_live (ic_heap c))" "heap_wf h"
proof (cases "c_malloc (ic_heap c)")
  case (Pair res h)
  have wf: "heap_wf (ic_heap c)" using assms by (simp add: sync_ready_def)
  show thesis
  proof (cases res)
    case None
    with Pair ledger.alloc_None [OF wf] balanced_heap [OF assms, of h] show thesis
      by (intro none) (simp_all add: libusb_alloc_transfer_def)
  next
    case (Some t)
    with Pair ledger.alloc_Some [OF wf, of t h] show thesis by (intro some [of t h]) (auto simp: libusb_alloc_transfer_def)
  qed
qed


text \<open>The buffer as it is submitted: the setup packet, and the data of an OUT transfer.\<close>

lemma control_eq:
  assumes al: "libusb_alloc_transfer 0 c = (Some t, put_x t (new_transfer 0) (c\<lparr>ic_heap := h\<rparr>))"
    and m: "c_malloc h = (Some p, h2)" and d: "unat l \<le> length data"
  obtains b where "libusb_control_transfer cpu junk cb e evs False dh rt rq v i data l timeout c =
      control_submit cb e evs rt data t b (put_x t (control_x dh p l timeout) (c\<lparr>ic_heap := h2\<rparr>))"
    "length b = 8 + unat l" "take 8 b = setup_bytes rt rq v i l" "\<not> is_in rt \<longrightarrow> drop 8 b = take (unat l) data"
proof -
  let ?j = "map junk [0..<8 + unat l]" and ?s = "setup_bytes rt rq v i l"
  define b where "b = ?s @ (if is_in rt then drop 8 ?j else take (unat l) data)"
  have fill: "libusb_fill_control_setup cpu rt rq v i l ?j = Some (?s @ drop 8 ?j)" by (rule fill_setup_eq) simp
  have mem: "c_memcpy data (uint l) = Some (take (unat l) data)" using d by (simp add: c_memcpy_def)
  have buf: "is_in rt \<Longrightarrow> ?s @ drop 8 ?j = b" "\<not> is_in rt \<Longrightarrow> write_at 8 (take (unat l) data) (?s @ drop 8 ?j) = Some b"
    using d by (auto simp: b_def write_at_def min_def)
  obtain x where x: "libusb_fill_control_transfer cpu dh (Some (p, b)) (Some sync_cb) completed_var timeout (new_transfer 0) = Some x"
    by (simp add: libusb_fill_control_transfer_def b_def get_setup_bytes)
  have cx: "x\<lparr>tr_flags := {LIBUSB_TRANSFER_FREE_BUFFER}\<rparr> = control_x dh p l timeout"
    using x unfolding b_def by (rule fill_control_eq)
  have put: "put_x t y ((put_x t (new_transfer 0) (c\<lparr>ic_heap := h\<rparr>))\<lparr>ic_heap := h2\<rparr>) = put_x t y (c\<lparr>ic_heap := h2\<rparr>)" for y
    by (simp add: put_x_def)
  have g: "get_x t ((put_x t (new_transfer 0) (c\<lparr>ic_heap := h\<rparr>))\<lparr>ic_heap := h2\<rparr>) = Some (new_transfer 0)"
    by (simp add: get_x_def put_x_def)
  have "libusb_control_transfer cpu junk cb e evs False dh rt rq v i data l timeout c =
      control_submit cb e evs rt data t b (put_x t (control_x dh p l timeout) (c\<lparr>ic_heap := h2\<rparr>))"
    using al m fill buf mem x g cx put by (cases "is_in rt") (simp_all add: libusb_control_transfer_def Let_def)
  moreover have "length b = 8 + unat l" "take 8 b = ?s" "\<not> is_in rt \<longrightarrow> drop 8 b = take (unat l) data"
    using d by (auto simp: b_def)
  ultimately show thesis by (rule that)
qed

text \<open>C12. A control transfer returns, without a fault, once its completion is among the events, whatever else the
  event handling does meanwhile (other transfers end, it fails and the transfer is cancelled). It answers BUSY
  inside the event handler, NO_MEM when an allocation fails, the error of a failed submission, and
  otherwise the number of bytes or the error that the status stands for; an IN transfer then has stored the bytes
  received at the start of the caller's data. On every path both blocks are freed, no lock is held and the
  references to devices are given back.\<close>

theorem control_transfer_correct:
  assumes "sync_ready c" and "env_ok e" and "cb_quiet cb" and "unat wLength \<le> length data"
    and "completes_in evs m st n bs" and "length bs \<le> unat wLength" and "is_in bmRequestType \<longrightarrow> n = int (length bs)"
  shows "\<exists>r data' c'. libusb_control_transfer cpu junk cb e evs handling_events dh bmRequestType bRequest wValue wIndex data
      wLength timeout c = Some (r, data', c') \<and> balanced c c' \<and>
    (if handling_events then r = LIBUSB_ERROR_BUSY \<and> data' = data \<and> c' = c
     else if hp_fail (ic_heap c) (hp_next (ic_heap c)) \<or> hp_fail (ic_heap c) (Suc (hp_next (ic_heap c)))
     then r = LIBUSB_ERROR_NO_MEM \<and> data' = data
     else \<not> env_accepts e \<and> r < 0 \<and> data' = data \<or>
       r = (if st = LIBUSB_TRANSFER_COMPLETED then n else sync_error st) \<and>
       data' = (if is_in bmRequestType then bs @ drop (length bs) data else data))"
proof (cases handling_events)
  case True
  have "balanced c c" using assms(1) by (simp add: balanced_def sync_ready_def)
  with True show ?thesis by (simp add: libusb_control_transfer_def)
next
  case False
  from assms(1) show ?thesis
  proof (cases rule: alloc_cases)
    case (none c1)
    then have "hp_fail (ic_heap c) (hp_next (ic_heap c))"
      by (auto simp: libusb_alloc_transfer_def c_malloc_def Let_def split: if_splits)
    with none False show ?thesis by (simp add: libusb_control_transfer_def)
  next
    case (some t h)
    have t: "hp_next h = Suc (hp_next (ic_heap c))" "hp_fail h = hp_fail (ic_heap c)"
      using some(2) by (auto simp: c_malloc_def Let_def split: if_splits)
    obtain res h2 where m: "c_malloc h = (res, h2)" by fastforce
    have new: "\<not> it_lock (new_transfer 0)" "it_state_flags (new_transfer 0) = {}" "tr_flags (new_transfer 0) = {}"
      by (simp_all add: new_transfer_def)
    show ?thesis
    proof (cases res)
      case None
      let ?c2 = "put_x t (new_transfer 0) (c\<lparr>ic_heap := h2\<rparr>)"
      have hf: "hp_fail (ic_heap c) (Suc (hp_next (ic_heap c)))" "hp_live h2 = hp_live h"
        using m None t by (auto simp: c_malloc_def Let_def split: if_splits)
      have f: "fresh_call c t (new_transfer 0) ?c2" using assms(1) some(3) new by (auto simp: fresh_call_def)
      have bl: "call_blocks c t (new_transfer 0) ?c2" using some(4) hf(2) new(3) by (simp add: call_blocks_def)
      note fd = fresh_callD [OF f]
      have "\<exists>c'. libusb_free_transfer (Some t) ?c2 = Some c' \<and> balanced c c'"
        by (rule give_back [OF f bl fd(1,2) refl refl fd(3) refl fd(9)]) (use fd(4,6) in auto)
      moreover have "(put_x t (new_transfer 0) (c\<lparr>ic_heap := h\<rparr>))\<lparr>ic_heap := h2\<rparr> = ?c2" by (simp add: put_x_def)
      ultimately show ?thesis using some(1) m None False hf(1) by (auto simp: libusb_control_transfer_def)
    next
      case (Some p)
      let ?x = "control_x dh p wLength timeout" and ?c2 = "put_x t (control_x dh p wLength timeout) (c\<lparr>ic_heap := h2\<rparr>)"
      from ledger.alloc_Some [OF some(5), of p h2] m Some have p: "p \<notin> hp_live h" "hp_live h2 = insert p (hp_live h)" by auto
      have f: "fresh_call c t ?x ?c2" using assms(1) some(3) by (auto simp: fresh_call_def)
      have bl: "call_blocks c t ?x ?c2" using some(3,4) p by (auto simp: call_blocks_def)
      from control_eq [OF some(1) m [unfolded Some] assms(4)] obtain b where
        eq: "libusb_control_transfer cpu junk cb e evs False dh bmRequestType bRequest wValue wIndex data wLength timeout c =
          control_submit cb e evs bmRequestType data t b ?c2" and b: "length b = 8 + unat wLength" by metis
      have "\<not> hp_fail (ic_heap c) (hp_next (ic_heap c))" "\<not> hp_fail (ic_heap c) (Suc (hp_next (ic_heap c)))"
        using some(2) m Some t by (auto simp: c_malloc_def Let_def split: if_splits)
      with control_submit_spec [OF f bl assms(2,3,5) b assms(6,4,7)] show ?thesis using False by (auto simp: eq)
    qed
  qed
qed


subsection \<open>Bulk and interrupt transfers\<close>

lemma write_at_0: "length bs \<le> length b \<Longrightarrow> write_at 0 bs b = Some (bs @ drop (length bs) b)"
  by (simp add: write_at_def)

lemma bulk_submit_spec:
  assumes f: "fresh_call c t x c2" and bl: "call_blocks c t x c2" and e: "env_ok e" and cb: "cb_quiet cb"
    and ev: "completes_in evs m st n bs" and bs: "length bs \<le> length b"
  shows "\<exists>r out b' c'. bulk_submit cb e evs wants t b c2 = Some (r, out, b', c') \<and> balanced c c' \<and>
    (\<not> env_accepts e \<and> r < 0 \<and> out = None \<and> b' = b \<or>
     r = sync_error st \<and> out = (if wants then Some n else None) \<and> b' = bs @ drop (length bs) b)"
  using f e
proof (cases rule: submit_sync)
  case (fail r c1 y)
  from give_back [OF f bl fail(3,4,5,6,7,8,9)] fail(10,11) obtain c' where
    "libusb_free_transfer (Some t) c1 = Some c'" "balanced c c'" by auto
  moreover have "\<not> env_accepts e" using submit_accepts [OF _ fresh_callD(1,2,3) [OF f] fail(1)] fail(2) by auto
  ultimately show ?thesis using fail(1,2) by (simp add: bulk_submit_def)
next
  case (ok c1)
  have "0 + length bs \<le> length b" using bs by simp
  from sync_body [OF f bl ok(2-6) cb ev this] obtain s y c' where
    s: "sync_transfer_wait_for_completion cb t 0 evs 0 \<lparr>sy_io = c1, sy_completed = False, sy_buffer = b\<rparr> = Some s"
      "write_at 0 bs b = Some (sy_buffer s)" "get_x t (sy_io s) = Some y" "tr_status y = st" "tr_actual_length y = n"
      "libusb_free_transfer (Some t) (sy_io s) = Some c'" "balanced c c'" by blast
  from s(2) write_at_0 [OF bs] have "sy_buffer s = bs @ drop (length bs) b" by simp
  with ok(1) s show ?thesis by (simp add: bulk_submit_def)
qed

text \<open>C14. A bulk or interrupt transfer returns without a fault once its completion is among the events: BUSY inside
  the event handler, NO_MEM when the transfer cannot be allocated, the error of a failed submission, and otherwise 0
  or the error that the status stands for, with the number of bytes moved stored on every status (a transfer that
  timed out may have moved some). What it took is given back on every path, and the caller's buffer is not freed.\<close>

theorem sync_bulk_correct:
  assumes "sync_ready c" and "env_ok e" and "cb_quiet cb" and "completes_in evs m st n bs"
    and "length bs \<le> length (snd buffer)"
  shows "\<exists>r out b' c'. do_sync_bulk_transfer cb e evs handling_events dh endpoint buffer len wants timeout type c =
      Some (r, out, b', c') \<and> balanced c c' \<and>
    (if handling_events then r = LIBUSB_ERROR_BUSY \<and> out = None \<and> b' = snd buffer \<and> c' = c
     else if hp_fail (ic_heap c) (hp_next (ic_heap c)) then r = LIBUSB_ERROR_NO_MEM \<and> out = None \<and> b' = snd buffer
     else \<not> env_accepts e \<and> r < 0 \<and> out = None \<and> b' = snd buffer \<or>
       r = sync_error st \<and> out = (if wants then Some n else None) \<and> b' = bs @ drop (length bs) (snd buffer))"
proof (cases handling_events)
  case True
  have "balanced c c" using assms(1) by (simp add: balanced_def sync_ready_def)
  with True show ?thesis by (simp add: do_sync_bulk_transfer_def)
next
  case False
  from assms(1) show ?thesis
  proof (cases rule: alloc_cases)
    case (none c1)
    then have "hp_fail (ic_heap c) (hp_next (ic_heap c))"
      by (auto simp: libusb_alloc_transfer_def c_malloc_def Let_def split: if_splits)
    with none False show ?thesis by (simp add: do_sync_bulk_transfer_def)
  next
    case (some t h)
    let ?x = "(libusb_fill_bulk_transfer dh endpoint (fst buffer) len (Some sync_cb) completed_var timeout (new_transfer 0))\<lparr>tr_type := type\<rparr>"
    let ?c2 = "put_x t ?x (c\<lparr>ic_heap := h\<rparr>)"
    have x: "tr_flags ?x = {}" "\<not> it_lock ?x" "it_state_flags ?x = {}" by (simp_all add: libusb_fill_bulk_transfer_def new_transfer_def)
    have f: "fresh_call c t ?x ?c2" using assms(1) some(3) x by (auto simp: fresh_call_def)
    have bl: "call_blocks c t ?x ?c2" using some(4) x(1) by (simp add: call_blocks_def)
    have nf: "\<not> hp_fail (ic_heap c) (hp_next (ic_heap c))" using some(2) by (auto simp: c_malloc_def Let_def split: if_splits)
    have "do_sync_bulk_transfer cb e evs False dh endpoint buffer len wants timeout type c = bulk_submit cb e evs wants t (snd buffer) ?c2"
      using some(1) by (simp add: do_sync_bulk_transfer_def Let_def)
    with bulk_submit_spec [OF f bl assms(2-5), of wants] False nf show ?thesis by auto
  qed
qed

subsection \<open>The loop\<close>

text \<open>C13. The wait of a synchronous transfer ends exactly when some call of the event handler completes the transfer.
  Event handling that fails for good is retried for ever: the transfer is cancelled, once, and the loop goes on.\<close>

theorem sync_wait_exact:
  assumes "sync_inv t x b s" and "\<not> sy_completed s" and "cb_quiet cb" and "LIBUSB_TRANSFER_SHORT_NOT_OK \<notin> tr_flags x"
    and "\<And>i k. k \<in> set (er_completions (evs i)) \<Longrightarrow> fits off b k"
  shows "sync_transfer_wait_for_completion cb t off evs 0 s \<noteq> None \<longleftrightarrow> (\<exists>i. \<exists>k \<in> set (er_completions (evs i)). is_own k)"
proof
  assume "\<exists>i. \<exists>k \<in> set (er_completions (evs i)). is_own k"
  then obtain m st n bs where ev: "completes_in evs m st n bs" using completes_in_first by blast
  then have "Own st n bs \<in> set (er_completions (evs m))" by (auto simp: completes_in_def)
  then have "off + length bs \<le> length b" using assms(5) by fastforce
  from wait_completes [OF assms(1,3,2) _ ev this assms(4)]
  show "sync_transfer_wait_for_completion cb t off evs 0 s \<noteq> None" by auto
next
  assume "sync_transfer_wait_for_completion cb t off evs 0 s \<noteq> None"
  then obtain s' where "sync_transfer_wait_for_completion cb t off evs 0 s = Some s'" by blast
  from wait_result_completed [OF this] assms(2) show "\<exists>i. \<exists>k \<in> set (er_completions (evs i)). is_own k" by blast
qed

subsection \<open>Preparing transfers\<close>

text \<open>C29. The setup packet is in the byte order of the bus on CPUs of either byte order, leaves the rest of the
  buffer alone, and reading it back gives what was stored; a control transfer on it has the length of the packet
  and its data.\<close>

theorem control_setup_roundtrip:
  assumes "8 \<le> length b"
  shows "\<exists>b' setup. libusb_fill_control_setup cpu rt rq v i l b = Some b' \<and>
    b' = [rt, rq, lo8 v, hi8 v, lo8 i, hi8 i, lo8 l, hi8 l] @ drop 8 b \<and>
    libusb_control_transfer_get_setup cpu b' = Some setup \<and> cs_bmRequestType setup = rt \<and> cs_bRequest setup = rq \<and>
    libusb_cpu_to_le16 cpu (cs_wValue setup) = v \<and> libusb_cpu_to_le16 cpu (cs_wIndex setup) = i \<and>
    libusb_cpu_to_le16 cpu (cs_wLength setup) = l \<and>
    map_option tr_length (libusb_fill_control_transfer cpu dh (Some (p, b')) callback user_data timeout x) = Some (8 + uint l)"
  using fill_setup_eq [OF assms, of cpu rt rq v i l] get_setup_bytes [of cpu rt rq v i l "drop 8 b"]
  by (simp add: libusb_fill_control_transfer_def le16_load setup_bytes_def)

lemma packet_offset_same:
  "n \<le> length ds \<Longrightarrow> \<forall>d \<in> set (take n ds). ip_length d = len \<Longrightarrow> packet_offset n ds = Some (of_nat n * ucast len)"
proof (induction n)
  case 0
  then show ?case by simp
next
  case (Suc n)
  have "take (Suc n) ds = take n ds @ [ds ! n]" using Suc.prems(1) by (simp add: take_Suc_conv_app_nth)
  with Suc show ?case by (simp add: algebra_simps)
qed

lemma uint_offset:
  fixes len packet :: "u32"
  assumes "uint len * uint packet \<le> 2147483647"
  shows "uint (of_nat (unat packet) * ucast len :: 64 word) = uint len * uint packet"
proof -
  have "of_nat (unat packet) * ucast len = (word_of_int (uint packet * uint len) :: 64 word)"
    by simp
  moreover have "0 \<le> uint packet * uint len" by simp
  then have "take_bit 64 (uint packet * uint len) = uint packet * uint len"
    using assms by (simp add: take_bit_int_eq_self mult.commute)
  ultimately show ?thesis by (simp only: uint_word_of_int_eq) (simp add: take_bit_eq_mod mult.commute)
qed

lemma sint_offset:
  fixes len packet :: "u32"
  assumes "uint len * uint packet \<le> 2147483647"
  shows "sint len * uint packet = uint len * uint packet"
proof (cases "uint packet = 0")
  case False
  then have "1 \<le> uint packet" using uint_ge_0 [of packet] by linarith
  then have "uint len * 1 \<le> uint len * uint packet" by (intro mult_left_mono) simp_all
  with assms have "uint len < 2 ^ 31" by simp
  moreover have "- (2 ^ 31) \<le> uint len" by (rule order_trans [OF _ uint_ge_0]) simp
  ultimately have "sint len = uint len" by (simp add: sint_uint signed_take_bit_int_eq_self)
  then show ?thesis by simp
qed simp

text \<open>After \<open>libusb_set_iso_packet_lengths\<close> the two functions that find a packet's buffer agree, as long as the
  offset is an \<open>int\<close>: NULL for a packet the transfer does not have, and otherwise its number times the length.\<close>

theorem iso_packet_buffers_agree:
  assumes "libusb_set_iso_packet_lengths t len u = Some u'" and "uint len * uint packet \<le> INT_MAX"
  shows "libusb_get_iso_packet_buffer t packet u' = libusb_get_iso_packet_buffer_simple t packet u' \<and>
    libusb_get_iso_packet_buffer t packet u' =
      Some (if uint packet < uc_num_iso_packets u t \<and> uint packet \<le> INT_MAX then Some (uint len * uint packet) else None)"
proof (cases "uint packet < uc_num_iso_packets u t \<and> uint packet \<le> INT_MAX")
  case False
  have "uc_num_iso_packets u' t = uc_num_iso_packets u t"
    using assms(1) by (auto simp: libusb_set_iso_packet_lengths_def Let_def split: if_splits)
  with False show ?thesis by (auto simp: libusb_get_iso_packet_buffer_def libusb_get_iso_packet_buffer_simple_def)
next
  case True
  let ?n = "nat (uc_num_iso_packets u t)" and ?ds = "uc_iso_desc u' t" and ?p = "unat packet"
  from assms(1) have u': "uc_num_iso_packets u' t = uc_num_iso_packets u t" "?n \<le> length (uc_iso_desc u t)"
    "?ds = map (\<lambda>d. d\<lparr>ip_length := len\<rparr>) (take ?n (uc_iso_desc u t)) @ drop ?n (uc_iso_desc u t)"
    by (auto simp: libusb_set_iso_packet_lengths_def Let_def split: if_splits)
  have "int ?p = uint packet" by simp
  then have p: "?p < ?n" "int ?p = uint packet" using True by linarith+
  have ds: "length ?ds = length (uc_iso_desc u t)" "\<forall>d \<in> set (take ?p ?ds). ip_length d = len" "0 < ?n" "ip_length (?ds ! 0) = len"
    using u' p by (auto simp: nth_append take_map)
  have off: "packet_offset ?p ?ds = Some (of_nat ?p * ucast len)"
    by (rule packet_offset_same) (use ds p u' in auto)
  have r: "rd ?ds 0 = Some (?ds ! 0)" using ds u'(2) by (intro rd_in) linarith
  have "- INT_MAX - 1 \<le> uint len * uint packet" by (rule order_trans [of _ 0]) simp_all
  then show ?thesis using True assms(2) off
    by (simp add: libusb_get_iso_packet_buffer_def libusb_get_iso_packet_buffer_simple_def u'(1) r ds(4) Let_def
        uint_offset [OF assms(2)] sint_offset [OF assms(2)] del: of_nat_unat)
qed


subsection \<open>Witnesses\<close>

definition ctx_empty :: io_ctx where
  "ctx_empty = \<lparr>ic_heap = empty_heap, ic_xfers = Map.empty, ic_flying = [], ic_flying_lock = False, ic_timerfd = -1,
     ic_timer = None, ic_refs = (\<lambda>_. 1)\<rparr>"

lemma ctx_empty_ready: "sync_ready ctx_empty"
  by (simp add: sync_ready_def io_wf_def quiescent_def flying_wf_def ctx_empty_def in_flight_def get_x_def)

text \<open>The first call of the event handler fails, the second one completes the transfer with two bytes.\<close>

definition evs1 :: "nat \<Rightarrow> event_round" where
  "evs1 i = \<lparr>er_env = env_at 10,
     er_completions = (if i = 1 then [Own LIBUSB_TRANSFER_COMPLETED 2 [7, 9]] else []), er_result = (if i = 0 then -1 else 0)\<rparr>"

lemma evs1_completes: "completes_in evs1 1 LIBUSB_TRANSFER_COMPLETED 2 [7, 9]"
  by (auto simp: completes_in_def evs1_def intro!: exI [of _ "[]"])

lemma env_at_ok: "env_ok (env_at k)" "env_accepts (env_at k)"
  by (simp_all add: env_ok_def env_accepts_def env_at_def)

lemma quiet_id: "cb_quiet (\<lambda>f t c. Some c)"
  by (simp add: cb_quiet_def)

theorem control_transfer_correct_witness:
  "\<exists>c'. libusb_control_transfer LittleEndian (\<lambda>_. 0) (\<lambda>f t c. Some c) (env_at 10) evs1 False (7, 3) 0x80 6 0x100 0
      [1, 2, 3, 4] 4 1000 ctx_empty = Some (2, [7, 9, 3, 4], c') \<and> balanced ctx_empty c'"
proof -
  have i: "is_in 0x80" by (simp add: is_in_def)
  have "\<not> hp_fail (ic_heap ctx_empty) k" for k by (simp add: ctx_empty_def empty_heap_def)
  with control_transfer_correct [where e = "env_at 10" and wLength = 4 and data = "[1, 2, 3, 4]" and bmRequestType = "0x80"
      and cpu = LittleEndian and junk = "\<lambda>_. 0" and handling_events = False and dh = "(7, 3)" and bRequest = 6
      and wValue = "0x100" and wIndex = 0 and timeout = 1000, OF ctx_empty_ready env_at_ok(1) quiet_id _ evs1_completes] i env_at_ok(2) [of 10]
  show ?thesis by simp
qed

theorem sync_bulk_correct_witness:
  "\<exists>c'. do_sync_bulk_transfer (\<lambda>f t c. Some c) (env_at 10) evs1 False (7, 3) 0x81 (Some 5, [1, 2, 3]) 3 True 1000
      LIBUSB_TRANSFER_TYPE_INTERRUPT ctx_empty = Some (0, Some 2, [7, 9, 3], c') \<and> balanced ctx_empty c'"
proof -
  have "\<not> hp_fail (ic_heap ctx_empty) k" for k by (simp add: ctx_empty_def empty_heap_def)
  with sync_bulk_correct [where e = "env_at 10" and buffer = "(Some 5, [1, 2, 3])" and handling_events = False and dh = "(7, 3)"
      and endpoint = "0x81" and len = 3 and wants = True and timeout = 1000 and type = LIBUSB_TRANSFER_TYPE_INTERRUPT,
      OF ctx_empty_ready env_at_ok(1) quiet_id evs1_completes] env_at_ok(2) [of 10]
  show ?thesis by (simp add: sync_error_def)
qed

lemma flying_sync_inv:
  "sync_inv 0 xfer1_flying b \<lparr>sy_io = ctx_flying, sy_completed = False, sy_buffer = b\<rparr>"
  using ctx_flying_wf ctx_in_flight(2) ctx_get(2)
  by (auto simp: sync_inv_def flags_ok_def get_x_def ctx_flying_def xfer1_flying_def xfer1_def new_transfer_def split: if_splits)

theorem sync_wait_exact_witness:
  "sync_transfer_wait_for_completion (\<lambda>f t c. Some c) 0 8 (\<lambda>i. (evs1 i)\<lparr>er_completions := []\<rparr>) 0
     \<lparr>sy_io = ctx_flying, sy_completed = False, sy_buffer = replicate 10 0\<rparr> = None"
  using sync_wait_exact [where b = "replicate 10 0" and evs = "\<lambda>i. (evs1 i)\<lparr>er_completions := []\<rparr>" and off = 8,
    OF flying_sync_inv _ quiet_id]
  by (auto simp: xfer1_flying_def xfer1_def new_transfer_def)

theorem control_setup_roundtrip_witness:
  "\<exists>b' setup. libusb_fill_control_setup BigEndian 0x80 6 0x0102 0x0304 0x0506 (replicate 9 0) = Some b' \<and>
    b' = [0x80, 6, 2, 1, 4, 3, 6, 5, 0] \<and>
    libusb_control_transfer_get_setup BigEndian b' = Some setup \<and> libusb_cpu_to_le16 BigEndian (cs_wLength setup) = 0x0506"
proof -
  have w: "lo8 0x0102 = 2" "hi8 0x0102 = 1" "lo8 0x0304 = 4" "hi8 0x0304 = 3" "lo8 0x0506 = 6" "hi8 0x0506 = 5" "drop 8 (replicate 9 0) = [0 :: u8]"
    by code_simp+
  have "8 \<le> length (replicate 9 0 :: u8 list)" by simp
  from control_setup_roundtrip [where cpu = BigEndian and rt = "0x80" and rq = 6 and v = "0x0102" and i = "0x0304" and l = "0x0506"
      and dh = "(0, 0)" and callback = None and user_data = 0 and timeout = 0 and p = 0 and x = "new_transfer 0", OF this] w
  show ?thesis by auto
qed

definition iso_urb_ctx :: urb_ctx where
  "iso_urb_ctx = \<lparr>uc_io = ctx_empty, uc_priv = (\<lambda>_. undefined), uc_urbs = Map.empty, uc_arrays = Map.empty, uc_buffer = (\<lambda>_. []),
     uc_iso_desc = (\<lambda>_. replicate 3 \<lparr>ip_length = 0, ip_actual_length = 0, ip_status = LIBUSB_TRANSFER_COMPLETED\<rparr>),
     uc_num_iso_packets = (\<lambda>_. 3), uc_caps = (\<lambda>_. 0), uc_calls = []\<rparr>"

theorem iso_packet_buffers_agree_witness:
  "\<exists>u'. libusb_set_iso_packet_lengths 0 192 iso_urb_ctx = Some u' \<and> libusb_get_iso_packet_buffer 0 2 u' = Some (Some 384) \<and>
    libusb_get_iso_packet_buffer_simple 0 2 u' = Some (Some 384)"
proof -
  have "\<exists>u'. libusb_set_iso_packet_lengths 0 192 iso_urb_ctx = Some u'"
    by (simp add: libusb_set_iso_packet_lengths_def iso_urb_ctx_def)
  then obtain u' where u': "libusb_set_iso_packet_lengths 0 192 iso_urb_ctx = Some u'" by blast
  have "uint (192 :: u32) * uint (2 :: u32) \<le> INT_MAX" by simp
  from iso_packet_buffers_agree [OF u' this]
  have "libusb_get_iso_packet_buffer 0 2 u' = libusb_get_iso_packet_buffer_simple 0 2 u'"
    "libusb_get_iso_packet_buffer 0 2 u' = Some (Some 384)" by (auto simp: iso_urb_ctx_def)
  with u' show ?thesis by (intro exI [of _ u']) simp
qed

end
