(* ===== verification/Event_Loop.thy ===== *)
theory Event_Loop
  imports Event_Props Transfer_Props
begin

text \<open>
  The event handler of io.c: \<open>handle_events\<close> with its loop around \<open>poll\<close>, and the functions that user programs call
  to handle events. The critical sections are those of \<open>Event_Data\<close>, the timeouts those of \<open>Transfers\<close>; here they are
  put together in the order of the code.

  The state is the event data, the transfers of the context, and a rest of any type. What the handler calls (the
  backend, the matching of a hotplug message), and what \<open>poll\<close> and the waits answer, are the environment's; each may
  change the whole state, which stands for the other threads and for the user's callbacks. The calls of \<open>poll\<close> and of
  the waits are numbered.
\<close>

record 'w loop_state =
  lp_data :: event_data
  lp_io :: io_ctx
  lp_rest :: 'w

record 'w loop_env =
  le_tfd :: int
  le_env :: "nat \<Rightarrow> env"
  le_poll :: "nat \<Rightarrow> (int \<times> int) list \<Rightarrow> int \<Rightarrow> 'w loop_state \<Rightarrow> (int \<times> bool \<times> int list) \<times> 'w loop_state"
  le_complete :: "ptr \<Rightarrow> 'w loop_state \<Rightarrow> (int \<times> 'w loop_state) option"
  le_hotplug :: "libusb_hotplug_message \<Rightarrow> 'w loop_state \<Rightarrow> 'w loop_state option"
  le_events :: "((int \<times> int) \<times> int) list \<Rightarrow> int \<Rightarrow> 'w loop_state \<Rightarrow> (int \<times> 'w loop_state) option"
  le_completed :: "'w loop_state \<Rightarrow> bool option"
  le_wait :: "nat \<Rightarrow> timeval \<Rightarrow> 'w loop_state \<Rightarrow> int \<times> 'w loop_state"
  le_step :: "nat \<Rightarrow> 'w loop_state \<Rightarrow> 'w loop_state"

abbreviation set_data :: "event_data \<Rightarrow> 'w loop_state \<Rightarrow> 'w loop_state" where
  "set_data d s \<equiv> s\<lparr>lp_data := d\<rparr>"

abbreviation using_timerfd :: "'w loop_env \<Rightarrow> bool" where
  "using_timerfd be \<equiv> 0 \<le> le_tfd be"

subsection \<open>The event pipe\<close>

text \<open>\<open>while (ret == 0 \<and> !list_empty(completed_transfers))\<close>, with the lock held before and after a round.\<close>

partial_function (option) complete_loop :: "'w loop_env \<Rightarrow> int \<Rightarrow> 'w loop_state \<Rightarrow> (int \<times> 'w loop_state) option" where
  "complete_loop be ret s =
     (if ret \<noteq> 0 then Some (ret, s)
      else do {
        (t, d) \<leftarrow> complete_begin (lp_data s);
        (case t of
           None \<Rightarrow> Some (0, set_data d s)
         | Some t \<Rightarrow> do {
             (ret', s1) \<leftarrow> le_complete be t (set_data d s);
             d1 \<leftarrow> lock_event_data (lp_data s1);
             complete_loop be ret' (set_data d1 s1)
           })
      })"

definition process_message ::
  "'w loop_env \<Rightarrow> libusb_hotplug_message option \<Rightarrow> 'w loop_state \<Rightarrow> 'w loop_state option" where
  "process_message be message s =
     (case message of
        None \<Rightarrow> Some s
      | Some msg \<Rightarrow> do {
          s1 \<leftarrow> le_hotplug be msg s;
          h \<leftarrow> c_release (hm_block msg) (ed_heap (lp_data s1));
          Some (set_data ((lp_data s1)\<lparr>ed_heap := h\<rparr>) s1)
        })"

text \<open>The work on the event pipe: \<open>special_event\<close>, the result of the backend, and the state.\<close>

definition handle_pipe :: "'w loop_env \<Rightarrow> 'w loop_state \<Rightarrow> (bool \<times> int \<times> 'w loop_state) option" where
  "handle_pipe be s = do {
     (message, d) \<leftarrow> pipe_begin (lp_data s);
     (ret, s1) \<leftarrow> complete_loop be 0 (set_data d s);
     d1 \<leftarrow> pipe_end (lp_data s1);
     s2 \<leftarrow> process_message be message (set_data d1 s1);
     Some (message \<noteq> None, ret, s2)
   }"

subsection \<open>One poll\<close>

text \<open>Where the code goes on: to \<open>done\<close>, to \<open>handled\<close>, or to the next of the descriptors.\<close>

datatype goto = Goto_done | Goto_handled | Go_on

definition ready_pipe ::
  "'w loop_env \<Rightarrow> int list \<Rightarrow> int \<Rightarrow> 'w loop_state \<Rightarrow> (goto \<times> bool \<times> int \<times> 'w loop_state) option" where
  "ready_pipe be revents r s = do {
     rv \<leftarrow> rd revents 0;
     if rv = 0 then Some (Go_on, False, r, s)
     else do {
       (special_event, ret, s1) \<leftarrow> handle_pipe be s;
       Some (if ret \<noteq> 0 then (Goto_done, special_event, ret, s1)
             else (if r - 1 = 0 then Goto_handled else Go_on, special_event, r - 1, s1))
     }
   }"

definition ready_timerfd ::
  "'w loop_env \<Rightarrow> nat \<Rightarrow> int list \<Rightarrow> bool \<Rightarrow> int \<Rightarrow> 'w loop_state \<Rightarrow> (goto \<times> bool \<times> int \<times> 'w loop_state) option" where
  "ready_timerfd be n revents special_event r s =
     (if \<not> using_timerfd be then Some (Go_on, special_event, r, s)
      else do {
        rv \<leftarrow> rd revents 1;
        if rv = 0 then Some (Go_on, special_event, r, s)
        else do {
          (ret, io) \<leftarrow> handle_timerfd_trigger (le_env be n) (lp_io s);
          Some (if ret < 0 then (Goto_done, True, ret, s\<lparr>lp_io := io\<rparr>)
                else (if r - 1 = 0 then Goto_handled else Go_on, True, r - 1, s\<lparr>lp_io := io\<rparr>))
        }
      })"

definition handle_ready ::
  "'w loop_env \<Rightarrow> nat \<Rightarrow> (int \<times> int) list \<Rightarrow> int list \<Rightarrow> int \<Rightarrow> 'w loop_state \<Rightarrow> (goto \<times> bool \<times> int \<times> 'w loop_state) option" where
  "handle_ready be n fds revents r s = do {
     (g1, special1, r1, s1) \<leftarrow> ready_pipe be revents r s;
     if g1 \<noteq> Go_on then Some (g1, special1, r1, s1)
     else do {
       (g2, special2, r2, s2) \<leftarrow> ready_timerfd be n revents special1 r1 s1;
       if g2 \<noteq> Go_on then Some (g2, special2, r2, s2)
       else do {
         (r3, s3) \<leftarrow> le_events be (drop (if using_timerfd be then 2 else 1) (zip fds revents)) r2 s2;
         Some (Goto_handled, special2, r3, s3)
       }
     }
   }"

text \<open>\<open>redo_poll\<close>.\<close>

partial_function (option) poll_loop ::
  "'w loop_env \<Rightarrow> nat \<Rightarrow> (int \<times> int) list \<Rightarrow> int \<Rightarrow> 'w loop_state \<Rightarrow> (int \<times> 'w loop_state) option" where
  "poll_loop be n fds timeout_ms s =
     (case le_poll be n fds timeout_ms s of ((r, eintr, revents), s1) \<Rightarrow>
        if r = 0 then do {
          (r1, io) \<leftarrow> handle_timeouts (le_env be n) (lp_io s1);
          Some (r1, s1\<lparr>lp_io := io\<rparr>)
        }
        else if r = -1 \<and> eintr then Some (LIBUSB_ERROR_INTERRUPTED, s1)
        else if r < 0 then Some (LIBUSB_ERROR_IO, s1)
        else do {
          (g, special_event, r1, s2) \<leftarrow> handle_ready be n fds revents r s1;
          if g \<noteq> Goto_done \<and> r1 = 0 \<and> special_event then poll_loop be (Suc n) fds 0 s2 else Some (r1, s2)
        })"

subsection \<open>The event handler\<close>

text \<open>The milliseconds of a timeout, rounded up: the seconds are cut to an \<open>int\<close> after the multiplication.\<close>

definition poll_timeout_ms :: "timeval \<Rightarrow> int" where
  "poll_timeout_ms tv =
     (let ms = sint (word_of_int (sint (word_of_int (tv_sec tv * 1000) :: u32) + tv_usec tv div 1000) :: u32) in
      if tv_usec tv mod 1000 \<noteq> 0 then ms + 1 else ms)"

definition usbi_start_event_handling :: "event_data \<Rightarrow> event_data" where
  "usbi_start_event_handling d = d\<lparr>ed_handling := True\<rparr>"

definition usbi_end_event_handling :: "event_data \<Rightarrow> event_data" where
  "usbi_end_event_handling d = d\<lparr>ed_handling := False\<rparr>"

text \<open>Polling a NULL array is a fault.\<close>

definition handle_events :: "'w loop_env \<Rightarrow> nat \<Rightarrow> timeval \<Rightarrow> 'w loop_state \<Rightarrow> (int \<times> 'w loop_state) option" where
  "handle_events be n tv s =
     (if ed_handling (lp_data s) then Some (LIBUSB_ERROR_BUSY, s)
      else do {
        (r, d) \<leftarrow> poll_setup (using_timerfd be) (usbi_start_event_handling (lp_data s));
        (r1, s1) \<leftarrow> (if r \<noteq> 0 then Some (r, set_data d s)
          else do {
            (p, fds) \<leftarrow> ed_pollfds d;
            poll_loop be n fds (poll_timeout_ms tv) (set_data d s)
          });
        Some (r1, set_data (usbi_end_event_handling (lp_data s1)) s1)
      })"

subsection \<open>Handling events\<close>

text \<open>The end of \<open>libusb_handle_events_timeout_completed\<close>, from \<open>already_done\<close> on.\<close>

definition already_done :: "'w loop_env \<Rightarrow> nat \<Rightarrow> int \<Rightarrow> 'w loop_state \<Rightarrow> (int \<times> 'w loop_state) option" where
  "already_done be n r s = do {
     d \<leftarrow> libusb_unlock_event_waiters (lp_data s);
     if r < 0 then Some (r, set_data d s)
     else if r = 1 then do {
       (r1, io) \<leftarrow> handle_timeouts (le_env be n) (lp_io s);
       Some (r1, (set_data d s)\<lparr>lp_io := io\<rparr>)
     }
     else Some (0, set_data d s)
   }"

text \<open>\<open>retry\<close>. The variable \<open>completed\<close> points to is another thread's: it is read in the state. The
  wait on the condition gives the lock of the waiters up while it lasts.\<close>

partial_function (option) handle_retry :: "'w loop_env \<Rightarrow> nat \<Rightarrow> timeval \<Rightarrow> 'w loop_state \<Rightarrow> (int \<times> 'w loop_state) option" where
  "handle_retry be n poll_timeout s = do {
     (busy, d) \<leftarrow> libusb_try_lock_events (lp_data s);
     if busy = 0 then do {
       (r, s1) \<leftarrow> (if le_completed be (set_data d s) = Some True then Some (0, set_data d s)
         else handle_events be n poll_timeout (set_data d s));
       d1 \<leftarrow> libusb_unlock_events (lp_data s1);
       Some (r, set_data d1 s1)
     }
     else do {
       d1 \<leftarrow> libusb_lock_event_waiters d;
       if le_completed be (set_data d1 s) = Some True then already_done be n 0 (set_data d1 s)
       else do {
         (active, d2) \<leftarrow> libusb_event_handler_active d1;
         if active = 0 then do {
           d3 \<leftarrow> libusb_unlock_event_waiters d2;
           handle_retry be (Suc n) poll_timeout (le_step be n (set_data d3 s))
         }
         else (case le_wait be n poll_timeout (set_data (d2\<lparr>ed_waiters_lock := False\<rparr>) s) of (answer, s1) \<Rightarrow> do {
           (r, d3) \<leftarrow> libusb_wait_for_event (Some answer) ((lp_data s1)\<lparr>ed_waiters_lock := True\<rparr>);
           already_done be n r (set_data d3 s1)
         })
       }
     }
   }"

definition libusb_handle_events_timeout_completed ::
  "'w loop_env \<Rightarrow> nat \<Rightarrow> timeval \<Rightarrow> 'w loop_state \<Rightarrow> (int \<times> 'w loop_state) option" where
  "libusb_handle_events_timeout_completed be n tv s = do {
     (r, poll_timeout, io) \<leftarrow> get_next_timeout (le_env be n) tv (lp_io s);
     if r \<noteq> 0 then do {
       (r1, io1) \<leftarrow> handle_timeouts (le_env be n) io;
       Some (r1, s\<lparr>lp_io := io1\<rparr>)
     }
     else handle_retry be n poll_timeout (s\<lparr>lp_io := io\<rparr>)
   }"

text \<open>Without a variable \<open>completed\<close>.\<close>

definition no_completed :: "'w loop_env \<Rightarrow> 'w loop_env" where
  "no_completed be = be\<lparr>le_completed := (\<lambda>_. None)\<rparr>"

definition libusb_handle_events_timeout ::
  "'w loop_env \<Rightarrow> nat \<Rightarrow> timeval \<Rightarrow> 'w loop_state \<Rightarrow> (int \<times> 'w loop_state) option" where
  "libusb_handle_events_timeout be n tv s = libusb_handle_events_timeout_completed (no_completed be) n tv s"

definition libusb_handle_events :: "'w loop_env \<Rightarrow> nat \<Rightarrow> 'w loop_state \<Rightarrow> (int \<times> 'w loop_state) option" where
  "libusb_handle_events be n s =
     libusb_handle_events_timeout_completed (no_completed be) n \<lparr>tv_sec = 60, tv_usec = 0\<rparr> s"

definition handle_events_completed :: "'w loop_env \<Rightarrow> nat \<Rightarrow> 'w loop_state \<Rightarrow> (int \<times> 'w loop_state) option" where
  "handle_events_completed be n s = libusb_handle_events_timeout_completed be n \<lparr>tv_sec = 60, tv_usec = 0\<rparr> s"

definition libusb_handle_events_locked ::
  "'w loop_env \<Rightarrow> nat \<Rightarrow> timeval \<Rightarrow> 'w loop_state \<Rightarrow> (int \<times> 'w loop_state) option" where
  "libusb_handle_events_locked be n tv s = do {
     (r, poll_timeout, io) \<leftarrow> get_next_timeout (le_env be n) tv (lp_io s);
     if r \<noteq> 0 then do {
       (r1, io1) \<leftarrow> handle_timeouts (le_env be n) io;
       Some (r1, s\<lparr>lp_io := io1\<rparr>)
     }
     else handle_events be n poll_timeout (s\<lparr>lp_io := io\<rparr>)
   }"

definition libusb_pollfds_handle_timeouts :: "'w loop_env \<Rightarrow> int" where
  "libusb_pollfds_handle_timeouts be = (if using_timerfd be then 1 else 0)"

end
