(* ===== verification/Event_Loop_Props.thy ===== *)
theory Event_Loop_Props
  imports Event_Loop
begin

text \<open>
  The event handler: the array it polls is the list of descriptors, with its own descriptors where the code looks for
  them; whatever the other threads, the backend and the callbacks do in between, it returns without a fault, with
  every lock given back; and the timeout it polls with is the one asked for, rounded up to milliseconds.
\<close>

subsection \<open>The array for poll\<close>

text \<open>The handler's own descriptors are the first of the list, in the order in which \<open>usbi_io_init\<close> adds them, and the
  array is the list unless the list was changed since.\<close>

definition arrays_ok :: "int \<Rightarrow> event_data \<Rightarrow> bool" where
  "arrays_ok tfd d \<longleftrightarrow>
     (\<exists>rest. map pf_fd (ed_ipollfds d) = fst (ed_event_pipe d) # (if 0 \<le> tfd then [tfd] else []) @ rest) \<and>
     (USBI_EVENT_POLLFDS_MODIFIED \<notin> ed_event_flags d \<longrightarrow> (\<exists>p. ed_pollfds d = Some (p, poll_array (ed_ipollfds d))))"

definition same_fds :: "event_data \<Rightarrow> event_data \<Rightarrow> bool" where
  "same_fds d d' \<longleftrightarrow> ed_ipollfds d' = ed_ipollfds d \<and> ed_event_pipe d' = ed_event_pipe d \<and> ed_pollfds d' = ed_pollfds d \<and>
     (USBI_EVENT_POLLFDS_MODIFIED \<in> ed_event_flags d' \<longleftrightarrow> USBI_EVENT_POLLFDS_MODIFIED \<in> ed_event_flags d)"

lemma same_fds_arrays: "same_fds d d' \<Longrightarrow> arrays_ok tfd d' \<longleftrightarrow> arrays_ok tfd d"
  by (simp add: same_fds_def arrays_ok_def)

lemma same_fds_refl [simp]: "same_fds d d"
  by (simp add: same_fds_def)

lemma arrays_adds_event:
  assumes "adds_event f d d'" and "same_fds d (f d)"
  shows "same_fds d d'"
  using assms by (simp add: adds_event_def same_fds_def)

lemma arrays_add_pollfd:
  assumes "arrays_ok tfd d" and "usbi_add_pollfd fd events d = Some (r, d')"
  shows "arrays_ok tfd d'"
  using assms(2)
proof (cases rule: add_pollfd_adds)
  case (1 h)
  with assms(1) show ?thesis by (simp add: arrays_ok_def)
next
  case (2 p h d1 calls)
  with assms(1) show ?thesis by (auto simp: arrays_ok_def adds_event_def)
qed

lemma map_remove1_notin: "x \<in> set xs \<Longrightarrow> \<exists>ys zs. xs = ys @ x # zs \<and> remove1 x xs = ys @ zs"
  by (metis remove1_append remove1.simps(2) split_list_first)

lemma prefix_before: "ys @ x # zs = own @ rest \<Longrightarrow> x \<notin> set own \<Longrightarrow> \<exists>us. ys = own @ us"
proof (induction own arbitrary: ys)
  case (Cons a own)
  then show ?case by (cases ys) auto
qed simp

lemma arrays_remove_pollfd:
  assumes ok: "arrays_ok tfd d" and ext: "\<not> internal_fd tfd d fd" and "usbi_remove_pollfd fd d = Some d'"
  shows "arrays_ok tfd d'"
  using assms(3)
proof (cases rule: remove_pollfd_adds)
  case 1
  with ok show ?thesis by simp
next
  case (2 f h d1 calls)
  let ?own = "fst (ed_event_pipe d) # (if 0 \<le> tfd then [tfd] else [])"
  from ok obtain rest where rest: "map pf_fd (ed_ipollfds d) = ?own @ rest" by (auto simp: arrays_ok_def)
  obtain ys zs where s: "ed_ipollfds d = ys @ f # zs" "remove1 f (ed_ipollfds d) = ys @ zs"
    using map_remove1_notin [OF 2(1)] by blast
  have "map pf_fd ys @ fd # map pf_fd zs = ?own @ rest" using rest s(1) 2(2) by simp
  moreover have "fd \<notin> set ?own" using ext by (auto simp: internal_fd_def)
  ultimately obtain us where us: "map pf_fd ys = ?own @ us" using prefix_before by metis
  have "map pf_fd (remove1 f (ed_ipollfds d)) = ?own @ us @ map pf_fd zs" using us s(2) by simp
  then show ?thesis using 2 by (auto simp: arrays_ok_def adds_event_def)
qed

text \<open>The array is built again by \<open>poll_setup\<close>.\<close>

lemma arrays_polls:
  assumes inv: "proto_inv tfd (pstate d Handling m)" and ok: "arrays_ok tfd d" and s: "poll_setup (0 \<le> tfd) d = Some (r, d')"
  shows "arrays_ok tfd d' \<and> (r = 0 \<longrightarrow> (\<exists>p. ed_pollfds d' = Some (p, poll_array (ed_ipollfds d'))))"
  using inv
proof (cases rule: poll_setup_cases)
  case reuse
  with ok s show ?thesis by (auto simp: arrays_ok_def)
next
  case (no_mem h1 h2)
  moreover have "USBI_EVENT_POLLFDS_MODIFIED \<in> ed_event_flags d"
  proof (rule ccontr)
    assume "USBI_EVENT_POLLFDS_MODIFIED \<notin> ed_event_flags d"
    then have "fst (the (poll_setup (0 \<le> tfd) d)) = 0" using inv
      by (simp add: poll_setup_def lock_event_data_def unlock_event_data_def proto_inv_pstate locks_ok_def)
    with no_mem(3) show False by simp
  qed
  ultimately show ?thesis using ok s by (auto simp: arrays_ok_def)
next
  case (built h1 h2 p n)
  with ok s show ?thesis by (auto simp: arrays_ok_def)
qed

lemma same_fds_lock:
  "lock_event_data d = Some d' \<Longrightarrow> same_fds d d'" "unlock_event_data d = Some d' \<Longrightarrow> same_fds d d'"
  "complete_begin d = Some (t, d') \<Longrightarrow> same_fds d d'" "pipe_begin d = Some (m, d') \<Longrightarrow> same_fds d d'"
  "libusb_lock_events d = Some d' \<Longrightarrow> same_fds d d'" "libusb_unlock_events d = Some d' \<Longrightarrow> same_fds d d'"
  "libusb_try_lock_events d = Some (r, d') \<Longrightarrow> same_fds d d'"
  by (auto simp: same_fds_def lock_event_data_def unlock_event_data_def complete_begin_def pipe_begin_def
      libusb_lock_events_def libusb_unlock_events_def libusb_try_lock_events_def libusb_lock_event_waiters_def
      libusb_unlock_event_waiters_def Let_def bind_eq_Some_conv split: if_splits list.splits)

lemma same_fds_clear:
  "clear_unless_pending d = Some d' \<Longrightarrow> same_fds d d'" "pipe_end d = Some d' \<Longrightarrow> same_fds d d'"
  "close_end d = Some d' \<Longrightarrow> same_fds d d'"
  by (auto simp: same_fds_def clear_unless_pending_def usbi_clear_event_def pipe_end_def close_end_def
      lock_event_data_def unlock_event_data_def bind_eq_Some_conv split: if_splits nat.splits)

lemma same_fds_trans: "same_fds a b \<Longrightarrow> same_fds b c \<Longrightarrow> same_fds a c"
  by (simp add: same_fds_def)

lemma same_fds_adds:
  "usbi_signal_transfer_completion t d = Some d' \<Longrightarrow> same_fds d d'" "close_begin d = Some d' \<Longrightarrow> same_fds d d'"
  using arrays_adds_event [OF transfer_completion_adds] arrays_adds_event [OF close_begin_adds]
  by (simp_all add: same_fds_def)

lemma same_fds_interrupt: "libusb_interrupt_event_handler d = Some d' \<Longrightarrow> same_fds d d'"
  by (erule interrupt_adds) (auto simp: same_fds_def adds_event_def)

lemma same_fds_hotplug: "usbi_hotplug_notification dev event d = Some d' \<Longrightarrow> same_fds d d'"
  by (erule hotplug_adds) (auto simp: same_fds_def adds_event_def)

lemma arrays_same: "arrays_ok tfd d \<Longrightarrow> same_fds d d' \<Longrightarrow> arrays_ok tfd d'"
  by (simp add: same_fds_arrays)

lemma pstep_arrays:
  "pstep tfd s s' \<Longrightarrow> proto_inv tfd s \<Longrightarrow> arrays_ok tfd (ps_data s) \<Longrightarrow> arrays_ok tfd (ps_data s')"
proof (induction rule: pstep.induct)
  case (close_ends d d1 d' m)
  from same_fds_trans [OF same_fds_clear(3) [OF close_ends(1)] same_fds_lock(6) [OF close_ends(2)]] close_ends(4)
  show ?case by (simp add: arrays_same)
next
  case (polls d r d' m)
  then show ?case using arrays_polls by simp
next
  case (message_freed msg d h)
  then show ?case by (simp add: arrays_ok_def)
qed (simp_all, (blast intro: arrays_same arrays_add_pollfd arrays_remove_pollfd same_fds_adds same_fds_interrupt
    same_fds_hotplug same_fds_lock same_fds_clear)+)

lemma add_pollfd_result:
  assumes "usbi_add_pollfd fd events d = Some (r, d')"
  shows "r = 0 \<or> r = LIBUSB_ERROR_NO_MEM" "ed_event_pipe d' = ed_event_pipe d"
    "r = 0 \<Longrightarrow> map pf_fd (ed_ipollfds d') = map pf_fd (ed_ipollfds d) @ [fd]"
    "r = 0 \<Longrightarrow> USBI_EVENT_POLLFDS_MODIFIED \<in> ed_event_flags d'"
  using assms by (cases rule: add_pollfd_adds; simp add: adds_event_def)+

lemma io_init_arrays:
  assumes "usbi_io_init (0, fd0, fd1) tf d0 = Some (0, tfd, d)"
  shows "arrays_ok tfd d"
proof -
  let ?d = "d0\<lparr>ed_ipollfds := [], ed_hotplug_msgs := [], ed_completed := [], ed_hotplug_ready := True,
     ed_events_lock := False, ed_waiters_lock := False, ed_lock := False, ed_handling := False,
     ed_event_pipe := (fd0, fd1), ed_pipe := 0\<rparr>"
  from assms obtain r1 d1 where d1: "usbi_add_pollfd fd0 POLLIN ?d = Some (r1, d1)"
    by (auto simp: usbi_io_init_def elim!: bind_SomeE)
  note a1 = add_pollfd_result [OF d1]
  from assms d1 a1(1) have r1: "r1 = 0" by (auto simp: usbi_io_init_def split: if_splits)
  show ?thesis
  proof (cases "0 \<le> tf")
    case False
    with assms d1 r1 have "tfd = -1" "d = d1" by (auto simp: usbi_io_init_def)
    with a1 r1 show ?thesis by (simp add: arrays_ok_def)
  next
    case True
    with assms d1 r1 obtain r2 d2 where d2: "usbi_add_pollfd tf POLLIN d1 = Some (r2, d2)"
      by (auto simp: usbi_io_init_def elim!: bind_SomeE)
    note a2 = add_pollfd_result [OF d2]
    from assms d1 r1 d2 True a2(1) have "r2 = 0" "tfd = tf" "d = d2"
      by (auto simp: usbi_io_init_def split: if_splits elim!: bind_SomeE)
    with a1 a2 r1 True show ?thesis by (simp add: arrays_ok_def)
  qed
qed

text \<open>C17. Whatever the threads do, in any order: the first descriptor is the event pipe and the second one the timerfd if
  there is one, which is where \<open>handle_events\<close> looks for them, and the array it polls is the list of descriptors
  unless the flag says that it has to be built again.\<close>

theorem poll_array_current:
  assumes "heap_wf h" and "0 < cap" and "fd0 \<noteq> tf"
    and "usbi_io_init (0, fd0, fd1) tf (fresh_data h cap) = Some (0, tfd, d)"
    and "preach tfd (pstate d Idle None) s"
  shows "arrays_ok tfd (ps_data s)"
proof -
  have init: "arrays_ok tfd d" using io_init_arrays [OF assms(4)] .
  have inv: "proto_inv tfd (pstate d Idle None)" using io_init_inv [OF assms(1-4)] .
  from assms(5) show ?thesis
  proof (induction rule: preach.induct)
    case start
    show ?case using init by simp
  next
    case (step s s')
    then show ?case using pstep_arrays preach_inv inv by blast
  qed
qed


theorem poll_array_current_witness: "arrays_ok 5 close_data"
  using poll_array_current [OF empty_heap_wf _ _ ready_data_init close_data_step] by simp

subsection \<open>What other threads and callbacks do\<close>

text \<open>A step on the event data that any thread, or the handler's own thread inside a callback, may make at any time.\<close>

inductive ostep :: "int \<Rightarrow> event_data \<Rightarrow> event_data \<Rightarrow> bool" for tfd :: int where
  "usbi_add_pollfd fd events d = Some (r, d') \<Longrightarrow> ostep tfd d d'"
| "\<not> internal_fd tfd d fd \<Longrightarrow> usbi_remove_pollfd fd d = Some d' \<Longrightarrow> ostep tfd d d'"
| "usbi_signal_transfer_completion t d = Some d' \<Longrightarrow> ostep tfd d d'"
| "usbi_hotplug_notification dev event d = Some d' \<Longrightarrow> ostep tfd d d'"
| "libusb_interrupt_event_handler d = Some d' \<Longrightarrow> ostep tfd d d'"
| "ed_device_close d + 1 \<noteq> 0 \<Longrightarrow> close_begin d = Some d' \<Longrightarrow> ostep tfd d d'"

lemma ostep_pstep: "ostep tfd d d' \<Longrightarrow> pstep tfd (pstate d ph m) (pstate d' ph m)"
  by (induction rule: ostep.induct) (blast intro: pstep.intros)+

lemma ostep_fields: "ostep tfd d d' \<Longrightarrow> ed_handling d' = ed_handling d \<and> ed_pollfds d' = ed_pollfds d \<and> ed_lock d' = ed_lock d"
proof (induction rule: ostep.induct)
  case (1 fd events d r d')
  then show ?case by (cases rule: add_pollfd_adds) (auto simp: adds_event_def)
next
  case (2 d fd d')
  from 2(2) show ?case by (cases rule: remove_pollfd_adds) (auto simp: adds_event_def)
next
  case (3 t d d')
  then show ?case by (auto dest: transfer_completion_adds simp: adds_event_def)
next
  case (4 dev event d d')
  then show ?case by (cases rule: hotplug_adds) (auto simp: adds_event_def)
next
  case (5 d d')
  then show ?case by (cases rule: interrupt_adds) (auto simp: adds_event_def)
next
  case (6 d d')
  then show ?case by (auto dest: close_begin_adds simp: adds_event_def)
qed

definition lp_ok :: "int \<Rightarrow> phase \<Rightarrow> libusb_hotplug_message option \<Rightarrow> 'w loop_state \<Rightarrow> bool" where
  "lp_ok tfd ph m s \<longleftrightarrow> proto_inv tfd (pstate (lp_data s) ph m) \<and> arrays_ok tfd (lp_data s) \<and> io_wf (lp_io s)"

definition env_step :: "int \<Rightarrow> 'w loop_state \<Rightarrow> 'w loop_state \<Rightarrow> bool" where
  "env_step tfd s s' \<longleftrightarrow> (ostep tfd)\<^sup>*\<^sup>* (lp_data s) (lp_data s') \<and> io_wf (lp_io s')"

text \<open>What stays the same for the handler: \<open>ph\<close> and \<open>m\<close> are where it is and the message it holds.\<close>

definition kept :: "'w loop_state \<Rightarrow> 'w loop_state \<Rightarrow> bool" where
  "kept s s' \<longleftrightarrow> ed_handling (lp_data s') = ed_handling (lp_data s)"

lemma kept_trans: "kept a b \<Longrightarrow> kept b c \<Longrightarrow> kept a c"
  by (simp add: kept_def)

lemma osteps_keep:
  assumes "(ostep tfd)\<^sup>*\<^sup>* d d'" and "proto_inv tfd (pstate d ph m)" and "arrays_ok tfd d"
  shows "proto_inv tfd (pstate d' ph m) \<and> arrays_ok tfd d' \<and> ed_handling d' = ed_handling d"
  using assms
proof (induction rule: rtranclp_induct)
  case (step d1 d2)
  then have s: "pstep tfd (pstate d1 ph m) (pstate d2 ph m)" by (intro ostep_pstep)
  from step pstep_inv [OF s] pstep_arrays [OF s] ostep_fields [OF step(2)] show ?case by simp
qed simp

lemma env_step_ok: "env_step tfd s s' \<Longrightarrow> lp_ok tfd ph m s \<Longrightarrow> lp_ok tfd ph m s' \<and> kept s s'"
  using osteps_keep by (auto simp: env_step_def lp_ok_def kept_def)

text \<open>The environment: what it calls ends without a fault, and changes the event data only by such steps. \<open>poll\<close> says that
  the event pipe is readable only when it holds a byte, and the backend's completion of a transfer leaves no more
  completed transfers than it found. From the \<open>k\<close>-th call on, \<open>poll\<close> finds nothing or fails.\<close>

definition loop_env_ok :: "'w loop_env \<Rightarrow> nat \<Rightarrow> bool" where
  "loop_env_ok be k \<longleftrightarrow>
     (\<forall>n fds ms s r eintr revents s'. fds \<noteq> [] \<longrightarrow> lp_ok (le_tfd be) Handling None s \<longrightarrow> le_poll be n fds ms s = ((r, eintr, revents), s') \<longrightarrow>
        env_step (le_tfd be) s s' \<and> length revents = length fds \<and> (revents ! 0 \<noteq> 0 \<longrightarrow> 0 < ed_pipe (lp_data s')) \<and> (k \<le> n \<longrightarrow> r \<le> 0)) \<and>
     (\<forall>t m s. lp_ok (le_tfd be) InBackend m s \<longrightarrow> (\<exists>ret s'. le_complete be t s = Some (ret, s') \<and> env_step (le_tfd be) s s' \<and>
        length (ed_completed (lp_data s')) \<le> length (ed_completed (lp_data s)))) \<and>
     (\<forall>msg s. lp_ok (le_tfd be) Handling (Some msg) s \<longrightarrow> (\<exists>s'. le_hotplug be msg s = Some s' \<and> env_step (le_tfd be) s s')) \<and>
     (\<forall>fs r s. lp_ok (le_tfd be) Handling None s \<longrightarrow> (\<exists>r' s'. le_events be fs r s = Some (r', s') \<and> env_step (le_tfd be) s s')) \<and>
     (\<forall>n tv s. lp_ok (le_tfd be) Idle None s \<longrightarrow> env_step (le_tfd be) s (snd (le_wait be n tv s)))"

lemma env_poll:
  assumes "loop_env_ok be k" and "fds \<noteq> []" and "lp_ok (le_tfd be) Handling None s" and "le_poll be n fds ms s = ((r, eintr, revents), s')"
  shows "env_step (le_tfd be) s s'" "length revents = length fds" "revents ! 0 \<noteq> 0 \<longrightarrow> 0 < ed_pipe (lp_data s')" "k \<le> n \<longrightarrow> r \<le> 0"
  using assms unfolding loop_env_ok_def by blast+

lemma env_complete:
  assumes "loop_env_ok be k" and "lp_ok (le_tfd be) InBackend m s"
  obtains ret s' where "le_complete be t s = Some (ret, s')" "env_step (le_tfd be) s s'"
    "length (ed_completed (lp_data s')) \<le> length (ed_completed (lp_data s))"
proof -
  from assms(1) have "\<forall>t m s. lp_ok (le_tfd be) InBackend m s \<longrightarrow> (\<exists>ret s'. le_complete be t s = Some (ret, s') \<and>
      env_step (le_tfd be) s s' \<and> length (ed_completed (lp_data s')) \<le> length (ed_completed (lp_data s)))"
    unfolding loop_env_ok_def by (elim conjE)
  with assms(2) that show thesis by blast
qed

lemma env_hotplug:
  assumes "loop_env_ok be k" and "lp_ok (le_tfd be) Handling (Some msg) s"
  obtains s' where "le_hotplug be msg s = Some s'" "env_step (le_tfd be) s s'"
proof -
  from assms(1) have "\<forall>msg s. lp_ok (le_tfd be) Handling (Some msg) s \<longrightarrow> (\<exists>s'. le_hotplug be msg s = Some s' \<and> env_step (le_tfd be) s s')"
    unfolding loop_env_ok_def by (elim conjE)
  with assms(2) that show thesis by blast
qed

lemma env_events:
  assumes "loop_env_ok be k" and "lp_ok (le_tfd be) Handling None s"
  obtains r' s' where "le_events be fs r s = Some (r', s')" "env_step (le_tfd be) s s'"
proof -
  from assms(1) have "\<forall>fs r s. lp_ok (le_tfd be) Handling None s \<longrightarrow> (\<exists>r' s'. le_events be fs r s = Some (r', s') \<and> env_step (le_tfd be) s s')"
    unfolding loop_env_ok_def by (elim conjE)
  with assms(2) that show thesis by blast
qed

subsection \<open>Timeouts\<close>

lemma io_wf_timer: "io_wf (c\<lparr>ic_timer := tm\<rparr>) = io_wf c"
  by (simp add: io_wf_def quiescent_def flying_wf_def)

lemma handle_timeouts_locked_eq:
  assumes wf: "io_wf c"
  shows "\<exists>r c'. handle_timeouts_locked e (c\<lparr>ic_flying_lock := True\<rparr>) = Some (r, c'\<lparr>ic_flying_lock := True\<rparr>) \<and> io_wf c'"
proof -
  note wfd = io_wfD [OF wf]
  let ?c = "c\<lparr>ic_flying_lock := True\<rparr>"
  obtain r ts where clk: "env_clock e = (r, ts)" by fastforce
  have xs: "\<forall>t \<in> set (ic_flying c). \<exists>x. get_x t ?c = Some x \<and> \<not> it_lock x"
    using wfd(2,3) by (auto simp: flying_wf_def)
  have "timeouts_loop e now (ic_flying c) ?c = Some ((apply_timeouts e now (ic_flying c) c)\<lparr>ic_flying_lock := True\<rparr>)" for now
    using timeouts_loop_eq [of "ic_flying c" ?c e now] xs wfd(3) by (auto simp: flying_wf_def apply_timeouts_def)
  with wf clk apply_timeouts_wf [OF wf] show ?thesis
    by (cases "ic_flying c = [] \<or> r < 0") (auto simp: handle_timeouts_locked_def)
qed

lemma handle_timeouts_total:
  assumes wf: "io_wf c"
  shows "\<exists>r c'. handle_timeouts e c = Some (r, c') \<and> io_wf c'"
proof -
  from handle_timeouts_locked_eq [OF wf, of e] obtain r c' where
    "handle_timeouts_locked e (c\<lparr>ic_flying_lock := True\<rparr>) = Some (r, c'\<lparr>ic_flying_lock := True\<rparr>)" "io_wf c'" by blast
  with io_wfD(1) [OF wf] io_wfD(1) [OF \<open>io_wf c'\<close>] show ?thesis
    by (simp add: handle_timeouts_def lock_flying_def unlock_flying_def)
qed

lemma handle_timerfd_trigger_total:
  assumes wf: "io_wf c"
  shows "\<exists>r c'. handle_timerfd_trigger e c = Some (r, c') \<and> io_wf c'"
proof -
  from handle_timeouts_locked_eq [OF wf, of e] obtain r c' where
    l: "handle_timeouts_locked e (c\<lparr>ic_flying_lock := True\<rparr>) = Some (r, c'\<lparr>ic_flying_lock := True\<rparr>)" "io_wf c'" by blast
  let ?c = "c'\<lparr>ic_flying_lock := True\<rparr>"
  have "\<forall>t \<in> set (ic_flying ?c). get_x t ?c \<noteq> None" using io_wfD(3) [OF l(2)] by (simp add: flying_wf_def)
  from arm_loop_total [OF this, of e] obtain r' tm where
    arm: "arm_timerfd_for_next_timeout e ?c = Some (r', ?c\<lparr>ic_timer := tm\<rparr>)"
    by (auto simp: arm_timerfd_for_next_timeout_def timer_step_def)
  have "?c\<lparr>ic_timer := tm, ic_flying_lock := False\<rparr> = c'\<lparr>ic_timer := tm\<rparr>" using io_wfD(1) [OF l(2)] by simp
  with l arm io_wfD(1) [OF wf] io_wfD(1) [OF l(2)] show ?thesis
    by (cases "r < 0") (auto simp: handle_timerfd_trigger_def lock_flying_def unlock_flying_def io_wf_timer)
qed


subsection \<open>The handler returns\<close>

text \<open>\<open>runs m s s'\<close>: the handler got from \<open>s\<close> to \<open>s'\<close>, where it holds no lock and the message \<open>m\<close>.\<close>

definition runs :: "int \<Rightarrow> libusb_hotplug_message option \<Rightarrow> 'w loop_state \<Rightarrow> 'w loop_state \<Rightarrow> bool" where
  "runs tfd m s s' \<longleftrightarrow> lp_ok tfd Handling m s' \<and> kept s s'"

lemma lp_ok_data:
  "lp_ok tfd ph m (set_data d s) \<longleftrightarrow> proto_inv tfd (pstate d ph m) \<and> arrays_ok tfd d \<and> io_wf (lp_io s)"
  by (simp add: lp_ok_def)

lemma complete_loop_ok:
  assumes ok: "loop_env_ok be k" and s: "lp_ok (le_tfd be) InPipe m s"
  shows "\<exists>ret' s'. complete_loop be ret s = Some (ret', s') \<and> lp_ok (le_tfd be) InPipe m s' \<and> kept s s'"
  using s
proof (induction "length (ed_completed (lp_data s))" arbitrary: ret s rule: less_induct)
  case less
  show ?case
  proof (cases "ret = 0 \<and> ed_completed (lp_data s) \<noteq> []")
    case False
    then show ?thesis using less.prems by (auto simp: complete_loop.simps [of be ret s] complete_begin_def kept_def split: list.splits)
  next
    case True
    then obtain t ts where t: "ed_completed (lp_data s) = t # ts" by (cases "ed_completed (lp_data s)") auto
    have l: "ed_lock (lp_data s)" using less.prems by (simp add: lp_ok_def proto_inv_pstate locks_ok_def)
    define d where "d = (lp_data s)\<lparr>ed_completed := ts, ed_lock := False\<rparr>"
    have cb: "complete_begin (lp_data s) = Some (Some t, d)"
      using t l by (simp add: complete_begin_def unlock_event_data_def d_def)
    have b: "lp_ok (le_tfd be) InBackend m (set_data d s)"
      using less.prems inv_completes [OF _ cb] arrays_same [OF _ same_fds_lock(3) [OF cb]] by (auto simp: lp_ok_def)
    obtain ret1 s1 where s1: "le_complete be t (set_data d s) = Some (ret1, s1)" "env_step (le_tfd be) (set_data d s) s1"
      "length (ed_completed (lp_data s1)) \<le> length ts" by (rule env_complete [OF ok b, of t]) (simp add: d_def)
    from env_step_ok [OF s1(2) b] have s1': "lp_ok (le_tfd be) InBackend m s1" "kept (set_data d s) s1" by simp_all
    define d1 where "d1 = (lp_data s1)\<lparr>ed_lock := True\<rparr>"
    have lk: "lock_event_data (lp_data s1) = Some d1"
      using s1'(1) by (simp add: lock_event_data_def d1_def lp_ok_def proto_inv_pstate locks_ok_def)
    have p: "lp_ok (le_tfd be) InPipe m (set_data d1 s1)"
      using s1'(1) inv_backend_returns [OF _ lk] arrays_same [OF _ same_fds_lock(1) [OF lk]] by (auto simp: lp_ok_def)
    have "length (ed_completed (lp_data (set_data d1 s1))) < length (ed_completed (lp_data s))"
      using s1(3) t by (simp add: d1_def)
    from less.hyps [OF this p, of ret1] obtain ret' s' where
      "complete_loop be ret1 (set_data d1 s1) = Some (ret', s')" "lp_ok (le_tfd be) InPipe m s'" "kept (set_data d1 s1) s'" by blast
    moreover have "kept s (set_data d1 s1)" using s1'(2) by (simp add: kept_def d_def d1_def)
    moreover have "complete_loop be ret s = complete_loop be ret1 (set_data d1 s1)"
      using True cb s1(1) lk by (simp add: complete_loop.simps [of be 0 s])
    ultimately show ?thesis by (auto intro: kept_trans)
  qed
qed

lemma process_message_ok:
  assumes ok: "loop_env_ok be k" and s: "lp_ok (le_tfd be) Handling m s"
  shows "\<exists>s'. process_message be m s = Some s' \<and> runs (le_tfd be) None s s'"
proof (cases m)
  case None
  with s show ?thesis by (simp add: process_message_def runs_def kept_def)
next
  case (Some msg)
  with s obtain s1 where s1: "le_hotplug be msg s = Some s1" "env_step (le_tfd be) s s1"
    using env_hotplug [OF ok] by metis
  from env_step_ok [OF s1(2) s] Some have s1': "lp_ok (le_tfd be) Handling (Some msg) s1" "kept s s1" by simp_all
  then have "hm_block msg \<in> hp_live (ed_heap (lp_data s1))" by (simp add: lp_ok_def proto_inv_pstate blocks_ok_def)
  then obtain h where h: "c_release (hm_block msg) (ed_heap (lp_data s1)) = Some h" by (simp add: c_release_def)
  have "runs (le_tfd be) None s (set_data ((lp_data s1)\<lparr>ed_heap := h\<rparr>) s1)"
    using s1' inv_message_freed [OF _ h] by (auto simp: runs_def lp_ok_def kept_def arrays_ok_def)
  with Some s1(1) h show ?thesis by (simp add: process_message_def)
qed

lemma handle_pipe_ok:
  assumes ok: "loop_env_ok be k" and s: "lp_ok (le_tfd be) Handling None s" and p: "0 < ed_pipe (lp_data s)"
  shows "\<exists>sp ret s'. handle_pipe be s = Some (sp, ret, s') \<and> runs (le_tfd be) None s s'"
proof -
  have "\<not> ed_lock (lp_data s)" using s by (simp add: lp_ok_def proto_inv_pstate locks_ok_def)
  from pipe_begin_eq [OF this] obtain m d where pb: "pipe_begin (lp_data s) = Some (m, d)"
    and h: "ed_handling d = ed_handling (lp_data s)" by auto
  have "lp_ok (le_tfd be) InPipe m (set_data d s)"
    using s inv_pipe_begins [OF _ p pb] arrays_same [OF _ same_fds_lock(4) [OF pb]] by (auto simp: lp_ok_def)
  from complete_loop_ok [OF ok this, of 0] obtain ret s1 where
    s1: "complete_loop be 0 (set_data d s) = Some (ret, s1)" "lp_ok (le_tfd be) InPipe m s1" "kept (set_data d s) s1" by blast
  have pi: "proto_inv (le_tfd be) (pstate (lp_data s1) InPipe m)" using s1(2) by (simp add: lp_ok_def)
  obtain n where pe: "pipe_end (lp_data s1) = Some ((lp_data s1)\<lparr>ed_lock := False, ed_pipe := n\<rparr>)"
    using pipe_end_eq [OF pi] by blast
  let ?s2 = "set_data ((lp_data s1)\<lparr>ed_lock := False, ed_pipe := n\<rparr>) s1"
  have s2: "lp_ok (le_tfd be) Handling m ?s2"
    using s1(2) inv_pipe_ends [OF pi pe] arrays_same [OF _ same_fds_clear(2) [OF pe]] by (auto simp: lp_ok_def)
  from process_message_ok [OF ok s2] obtain s3 where s3: "process_message be m ?s2 = Some s3" "runs (le_tfd be) None ?s2 s3" by blast
  have "runs (le_tfd be) None s s3" using s3(2) s1(3) h by (simp add: runs_def kept_def)
  with pb s1(1) pe s3(1) show ?thesis by (simp add: handle_pipe_def)
qed

lemma runs_io: "lp_ok tfd Handling None s \<Longrightarrow> io_wf io \<Longrightarrow> runs tfd None s (s\<lparr>lp_io := io\<rparr>)"
  by (simp add: runs_def lp_ok_def kept_def)

lemma runs_trans: "runs tfd None a b \<Longrightarrow> runs tfd m b c \<Longrightarrow> runs tfd m a c"
  by (auto simp: runs_def intro: kept_trans)

lemma runs_refl: "lp_ok tfd Handling None s \<Longrightarrow> runs tfd None s s"
  by (simp add: runs_def kept_def)

lemma runs_ok: "runs tfd m s s' \<Longrightarrow> lp_ok tfd Handling m s'"
  by (simp add: runs_def)

lemma ready_pipe_ok:
  assumes "loop_env_ok be k" and "lp_ok (le_tfd be) Handling None s" and "revents \<noteq> []"
    and "revents ! 0 \<noteq> 0 \<longrightarrow> 0 < ed_pipe (lp_data s)"
  shows "\<exists>g sp r' s'. ready_pipe be revents r s = Some (g, sp, r', s') \<and> runs (le_tfd be) None s s'"
  using handle_pipe_ok [OF assms(1,2)] assms(2-4) runs_refl by (auto simp: ready_pipe_def)

lemma ready_timerfd_ok:
  assumes "lp_ok (le_tfd be) Handling None s" and "using_timerfd be \<longrightarrow> 1 < length revents"
  shows "\<exists>g sp' r' s'. ready_timerfd be n revents sp r s = Some (g, sp', r', s') \<and> runs (le_tfd be) None s s'"
proof -
  have "io_wf (lp_io s)" using assms(1) by (simp add: lp_ok_def)
  from handle_timerfd_trigger_total [OF this, of "le_env be n"] obtain ret io where
    t: "handle_timerfd_trigger (le_env be n) (lp_io s) = Some (ret, io)" "io_wf io" by blast
  show ?thesis
  proof (cases "using_timerfd be \<and> revents ! 1 \<noteq> 0")
    case False
    then have "ready_timerfd be n revents sp r s = Some (Go_on, sp, r, s)" using assms(2) by (auto simp: ready_timerfd_def)
    with runs_refl [OF assms(1)] show ?thesis by blast
  next
    case True
    then have "rd revents 1 = Some (revents ! 1)" using assms(2) by simp
    with True t runs_io [OF assms(1) t(2)] show ?thesis by (cases "ret < 0") (simp_all add: ready_timerfd_def, auto)
  qed
qed

lemma handle_ready_ok:
  assumes ok: "loop_env_ok be k" and s: "lp_ok (le_tfd be) Handling None s"
    and len: "(if using_timerfd be then 2 else 1) \<le> length revents" and p: "revents ! 0 \<noteq> 0 \<longrightarrow> 0 < ed_pipe (lp_data s)"
  shows "\<exists>g sp r' s'. handle_ready be n fds revents r s = Some (g, sp, r', s') \<and> runs (le_tfd be) None s s'"
proof -
  have ne: "revents \<noteq> []" using len by (cases revents) (auto split: if_splits)
  from ready_pipe_ok [OF ok s ne p, of r] obtain g1 sp1 r1 s1 where
    1: "ready_pipe be revents r s = Some (g1, sp1, r1, s1)" "runs (le_tfd be) None s s1" by blast
  have "using_timerfd be \<longrightarrow> 1 < length revents" using len by auto
  from ready_timerfd_ok [OF runs_ok [OF 1(2)] this, of n sp1 r1] obtain g2 sp2 r2 s2 where
    2: "ready_timerfd be n revents sp1 r1 s1 = Some (g2, sp2, r2, s2)" "runs (le_tfd be) None s1 s2" by blast
  obtain r3 s3 where
    3: "le_events be (drop (if using_timerfd be then 2 else 1) (zip fds revents)) r2 s2 = Some (r3, s3)" "env_step (le_tfd be) s2 s3"
    by (rule env_events [OF ok runs_ok [OF 2(2)]])
  have "runs (le_tfd be) None s2 s3" using env_step_ok [OF 3(2) runs_ok [OF 2(2)]] by (simp add: runs_def)
  with 1 2 3(1) show ?thesis by (cases "g1 = Go_on"; cases "g2 = Go_on") (auto simp: handle_ready_def intro: runs_trans)
qed

lemma poll_loop_ok:
  assumes ok: "loop_env_ok be k" and s: "lp_ok (le_tfd be) Handling None s"
    and len: "(if using_timerfd be then 2 else 1) \<le> length fds"
  shows "\<exists>r s'. poll_loop be n fds ms s = Some (r, s') \<and> runs (le_tfd be) None s s'"
  using s
proof (induction "k - n" arbitrary: n ms s rule: less_induct)
  case less
  obtain r ei rv s1 where p: "le_poll be n fds ms s = ((r, ei, rv), s1)" by (metis prod.exhaust)
  have "fds \<noteq> []" using len by (cases fds) (auto split: if_splits)
  note p' = env_poll [OF ok this less.prems p]
  have s1: "runs (le_tfd be) None s s1" using env_step_ok [OF p'(1) less.prems] by (simp add: runs_def)
  note s1ok = runs_ok [OF s1]
  show ?case
  proof (cases "0 < r")
    case False
    have "io_wf (lp_io s1)" using s1ok by (simp add: lp_ok_def)
    from handle_timeouts_total [OF this, of "le_env be n"] obtain r1 io where
      "handle_timeouts (le_env be n) (lp_io s1) = Some (r1, io)" "io_wf io" by blast
    with False p s1 runs_trans [OF s1 runs_io [OF s1ok \<open>io_wf io\<close>]] show ?thesis
      by (cases "r = 0") (auto simp: poll_loop.simps [of be n fds ms s])
  next
    case True
    have "(if using_timerfd be then 2 else 1) \<le> length rv" using len p'(2) by simp
    from handle_ready_ok [OF ok s1ok this p'(3), of n fds r] obtain g sp r1 s2 where
      h: "handle_ready be n fds rv r s1 = Some (g, sp, r1, s2)" "runs (le_tfd be) None s1 s2" by blast
    have s2: "runs (le_tfd be) None s s2" using s1 h(2) by (rule runs_trans)
    have "k - Suc n < k - n" using True p'(4) by linarith
    from less.hyps [OF this runs_ok [OF s2], of 0] obtain r3 s3 where
      "poll_loop be (Suc n) fds 0 s2 = Some (r3, s3)" "runs (le_tfd be) None s2 s3" by blast
    with runs_trans [OF s2] True p h(1) s2 show ?thesis by (auto simp: poll_loop.simps [of be n fds ms s])
  qed
qed


lemma handling_fields [simp]:
  "proto_inv tfd (pstate (d\<lparr>ed_handling := b\<rparr>) ph m) = proto_inv tfd (pstate d ph m)"
  "arrays_ok tfd (d\<lparr>ed_handling := b\<rparr>) = arrays_ok tfd d"
  by (simp_all add: proto_inv_pstate awake_def usbi_pending_events_def locks_ok_def blocks_ok_def ed_blocks_def fds_ok_def
      arrays_ok_def)

lemma arrays_length:
  "arrays_ok tfd d \<Longrightarrow> (if 0 \<le> tfd then 2 else 1) \<le> length (ed_ipollfds d)"
proof -
  assume "arrays_ok tfd d"
  then obtain rest where "map pf_fd (ed_ipollfds d) = fst (ed_event_pipe d) # (if 0 \<le> tfd then [tfd] else []) @ rest"
    by (auto simp: arrays_ok_def)
  from arg_cong [OF this, of length] show ?thesis by simp
qed

lemma poll_setup_handling:
  assumes "proto_inv tfd (pstate d Handling m)" and "poll_setup (0 \<le> tfd) d = Some (r, d')"
  shows "ed_handling d' = ed_handling d"
  using assms(1) by (cases rule: poll_setup_cases) (use assms(2) in auto)

lemma handle_events_ok:
  assumes ok: "loop_env_ok be k" and s: "lp_ok (le_tfd be) Handling None s"
  shows "\<exists>r s'. handle_events be n tv s = Some (r, s') \<and> lp_ok (le_tfd be) Handling None s' \<and>
    (if ed_handling (lp_data s) then r = LIBUSB_ERROR_BUSY \<and> s' = s else \<not> ed_handling (lp_data s'))"
proof (cases "ed_handling (lp_data s)")
  case True
  with s show ?thesis by (simp add: handle_events_def)
next
  case False
  let ?d = "usbi_start_event_handling (lp_data s)"
  have inv: "proto_inv (le_tfd be) (pstate ?d Handling None)" "arrays_ok (le_tfd be) ?d" "io_wf (lp_io s)"
    using s by (simp_all add: lp_ok_def usbi_start_event_handling_def)
  obtain r d where ps: "poll_setup (using_timerfd be) ?d = Some (r, d)"
    using inv(1) by (cases rule: poll_setup_cases) auto
  have d: "lp_ok (le_tfd be) Handling None (set_data d s)" "ed_handling d"
    "r = 0 \<Longrightarrow> \<exists>p. ed_pollfds d = Some (p, poll_array (ed_ipollfds d))"
    using inv inv_polls [OF inv(1) ps] arrays_polls [OF inv(1,2) ps] poll_setup_handling [OF inv(1) ps]
    by (simp_all add: lp_ok_def usbi_start_event_handling_def)
  obtain r1 s1 where s1: "(if r \<noteq> 0 then Some (r, set_data d s)
      else do { (p, fds) \<leftarrow> ed_pollfds d; poll_loop be n fds (poll_timeout_ms tv) (set_data d s) }) = Some (r1, s1)"
    "runs (le_tfd be) None (set_data d s) s1"
  proof (cases "r = 0")
    case False
    with that runs_refl [OF d(1)] show thesis by simp
  next
    case True
    then obtain p where p: "ed_pollfds d = Some (p, poll_array (ed_ipollfds d))" using d(3) by blast
    have "(if using_timerfd be then 2 else 1) \<le> length (poll_array (ed_ipollfds d))"
      using arrays_length [of "le_tfd be" d] d(1) by (simp add: lp_ok_def poll_array_def)
    from poll_loop_ok [OF ok d(1) this, of n "poll_timeout_ms tv"] obtain r' s' where
      "poll_loop be n (poll_array (ed_ipollfds d)) (poll_timeout_ms tv) (set_data d s) = Some (r', s')"
      "runs (le_tfd be) None (set_data d s) s'" by blast
    with True p that show thesis by simp
  qed
  have "lp_ok (le_tfd be) Handling None (set_data (usbi_end_event_handling (lp_data s1)) s1)"
    using runs_ok [OF s1(2)] by (simp add: lp_ok_def usbi_end_event_handling_def)
  with False ps s1(1) show ?thesis by (simp add: handle_events_def usbi_end_event_handling_def)
qed

text \<open>C15. The event handler always returns and never faults: when it is called inside itself it answers BUSY and changes
  nothing; otherwise it works on the event pipe, the timerfd and the backend's descriptors, as often as hotplug events
  or timeouts call for another look, and ends with the locks given back, the invariants of the event data and of
  the transfers intact, and the mark of a running handler removed, on every path: no memory for the
  array, a failing or interrupted poll, an error of the backend, a timeout.\<close>

theorem handle_events_correct:
  assumes ok: "loop_env_ok be k" and s: "lp_ok (le_tfd be) Handling None s"
  shows "\<exists>r s'. handle_events be n tv s = Some (r, s') \<and> lp_ok (le_tfd be) Handling None s' \<and>
    (if ed_handling (lp_data s) then r = LIBUSB_ERROR_BUSY \<and> s' = s else \<not> ed_handling (lp_data s'))"
  by (rule handle_events_ok [OF ok s])

subsection \<open>Handling events from a program\<close>

lemma get_next_timeout_total:
  assumes wf: "io_wf c"
  shows "\<exists>r out. get_next_timeout e tv c = Some (r, out, c)"
proof -
  note wfd = io_wfD [OF wf]
  have loop: "next_timeout_loop us (c\<lparr>ic_flying_lock := True\<rparr>) = next_timeout_loop us c" for us
    by (induction us) (simp_all cong: if_cong)
  have unl: "c\<lparr>ic_flying_lock := True, ic_flying_lock := False\<rparr> = c" using wfd(1) by simp
  have "\<forall>t \<in> set (ic_flying c). get_x t c \<noteq> None" using wfd(3) by (simp add: flying_wf_def)
  from next_timeout_loop_find [OF this] obtain nt where nt: "next_timeout_loop (ic_flying c) c = Some nt" by blast
  obtain rc ts where clk: "env_clock e = (rc, ts)" by fastforce
  have "\<exists>r out. libusb_get_next_timeout e c = Some (r, out, c)"
  proof (cases "usbi_using_timerfd c \<or> ic_flying c = []")
    case True
    with wfd(1) unl show ?thesis by (auto simp: libusb_get_next_timeout_def lock_flying_def unlock_flying_def)
  next
    case False
    with wfd(1) unl loop nt clk show ?thesis
      by (simp add: libusb_get_next_timeout_def lock_flying_def unlock_flying_def Let_def)
  qed
  then obtain r out where "libusb_get_next_timeout e c = Some (r, out, c)" by blast
  then show ?thesis by (cases out) (auto simp: get_next_timeout_def)
qed

lemma env_wait:
  "loop_env_ok be k \<Longrightarrow> lp_ok (le_tfd be) Idle None s \<Longrightarrow> env_step (le_tfd be) s (snd (le_wait be n tv s))"
  unfolding loop_env_ok_def by (elim conjE) blast

lemma already_done_ok:
  assumes s: "lp_ok tfd Idle None s" and d: "lp_data u = (lp_data s)\<lparr>ed_waiters_lock := True\<rparr>" and io: "lp_io u = lp_io s"
  shows "\<exists>r' s'. already_done be n r u = Some (r', s') \<and> lp_ok tfd Idle None s'"
proof -
  have wl: "\<not> ed_waiters_lock (lp_data s)" and wf: "io_wf (lp_io s)"
    using s by (simp_all add: lp_ok_def proto_inv_pstate locks_ok_def)
  then have u: "libusb_unlock_event_waiters (lp_data u) = Some (lp_data s)"
    by (simp add: libusb_unlock_event_waiters_def d)
  from handle_timeouts_total [OF wf, of "le_env be n"] obtain r1 io1 where
    "handle_timeouts (le_env be n) (lp_io s) = Some (r1, io1)" "io_wf io1" by blast
  with u s io show ?thesis by (auto simp: already_done_def lp_ok_def)
qed

lemma handle_retry_ok:
  assumes ok: "loop_env_ok be k" and s: "lp_ok (le_tfd be) Idle None s"
  shows "\<exists>r s'. handle_retry be n tv s = Some (r, s') \<and> lp_ok (le_tfd be) Idle None s'"
proof -
  let ?d = "lp_data s"
  have l: "\<not> ed_lock ?d" "\<not> ed_events_lock ?d" "\<not> ed_waiters_lock ?d"
    using s by (simp_all add: lp_ok_def proto_inv_pstate locks_ok_def)
  have keep: "?d\<lparr>ed_lock := True, ed_lock := False\<rparr> = ?d" using l(1) by simp
  show ?thesis
  proof (cases "ed_device_close ?d = 0")
    case True
    define d where "d = ?d\<lparr>ed_events_lock := True, ed_handler_active := True\<rparr>"
    have tl: "libusb_try_lock_events ?d = Some (0, d)"
      using True l keep by (simp add: libusb_try_lock_events_def lock_event_data_def unlock_event_data_def d_def)
    have h: "lp_ok (le_tfd be) Handling None (set_data d s)"
      using s inv_handler_starts [OF _ tl] arrays_same [OF _ same_fds_lock(7) [OF tl]] by (auto simp: lp_ok_def)
    obtain r s1 where s1: "(if le_completed be (set_data d s) = Some True then Some (0, set_data d s)
        else handle_events be n tv (set_data d s)) = Some (r, s1)" "lp_ok (le_tfd be) Handling None s1"
      using handle_events_ok [OF ok h, of n tv] h that by (cases "le_completed be (set_data d s) = Some True") auto
    have e: "ed_events_lock (lp_data s1)" "\<not> ed_waiters_lock (lp_data s1)"
      using s1(2) by (simp_all add: lp_ok_def proto_inv_pstate locks_ok_def)
    note ul = unlock_events_eq [OF e]
    have "lp_ok (le_tfd be) Idle None (set_data ((lp_data s1)\<lparr>ed_handler_active := False, ed_events_lock := False\<rparr>) s1)"
      using s1(2) inv_handler_stops [OF _ ul] arrays_same [OF _ same_fds_lock(6) [OF ul]] by (auto simp: lp_ok_def)
    with tl s1(1) ul show ?thesis by (simp add: handle_retry.simps [of be n tv s])
  next
    case False
    let ?w = "?d\<lparr>ed_waiters_lock := True\<rparr>"
    have tl: "libusb_try_lock_events ?d = Some (1, ?d)"
      using False l keep by (simp add: libusb_try_lock_events_def lock_event_data_def unlock_event_data_def)
    have lw: "libusb_lock_event_waiters ?d = Some ?w" using l(3) by (simp add: libusb_lock_event_waiters_def)
    have ac: "libusb_event_handler_active ?w = Some (1, ?w)"
      using False l(1) by (cases "lp_data s") (simp add: libusb_event_handler_active_def lock_event_data_def unlock_event_data_def)
    show ?thesis
    proof (cases "le_completed be (set_data ?w s) = Some True")
      case True
      have "lp_data (set_data ?w s) = ?w" "lp_io (set_data ?w s) = lp_io s" by simp_all
      from already_done_ok [OF s this, of be n 0] tl lw True show ?thesis by (simp add: handle_retry.simps [of be n tv s])
    next
      case nc: False
      have un: "set_data (?w\<lparr>ed_waiters_lock := False\<rparr>) s = s" using l(3) by simp
      obtain a s1 where w: "le_wait be n tv s = (a, s1)" by fastforce
      from env_step_ok [OF env_wait [OF ok s, of n tv] s] w have s1: "lp_ok (le_tfd be) Idle None s1" by simp
      let ?w1 = "(lp_data s1)\<lparr>ed_waiters_lock := True\<rparr>"
      obtain r where r: "libusb_wait_for_event (Some a) ?w1 = Some (r, ?w1)"
        by (cases "a < 0") (auto simp: libusb_wait_for_event_def)
      have "lp_data (set_data ?w1 s1) = ?w1" "lp_io (set_data ?w1 s1) = lp_io s1" by simp_all
      from already_done_ok [OF s1 this, of be n r] tl lw nc ac w r un show ?thesis
        by (simp add: handle_retry.simps [of be n tv s])
    qed
  qed
qed

lemma handle_completed_ok:
  assumes "loop_env_ok be k" and "lp_ok (le_tfd be) Idle None s"
  shows "\<exists>r s'. libusb_handle_events_timeout_completed be n tv s = Some (r, s') \<and> lp_ok (le_tfd be) Idle None s'"
proof -
  have wf: "io_wf (lp_io s)" using assms(2) by (simp add: lp_ok_def)
  from get_next_timeout_total [OF wf, of "le_env be n" tv] obtain r out where
    g: "get_next_timeout (le_env be n) tv (lp_io s) = Some (r, out, lp_io s)" by blast
  from handle_timeouts_total [OF wf, of "le_env be n"] obtain r1 io1 where
    t: "handle_timeouts (le_env be n) (lp_io s) = Some (r1, io1)" "io_wf io1" by blast
  have same: "s\<lparr>lp_io := lp_io s\<rparr> = s" by simp
  show ?thesis
  proof (cases "r = 0")
    case True
    with handle_retry_ok [OF assms, of n out] g same show ?thesis
      by (simp add: libusb_handle_events_timeout_completed_def)
  next
    case False
    with g t assms(2) show ?thesis by (simp add: libusb_handle_events_timeout_completed_def lp_ok_def)
  qed
qed



subsection \<open>The timeout of poll\<close>

lemma sint_of_small: "- 2147483648 \<le> i \<Longrightarrow> i \<le> 2147483647 \<Longrightarrow> sint (word_of_int i :: u32) = i"
  by (simp add: sint_uint uint_word_of_int_eq signed_take_bit_take_bit signed_take_bit_int_eq_self)

text \<open>The milliseconds that \<open>poll\<close> waits are the timeout rounded up, so that it does not return early and loops over a
  timeout that is about to come; this is for timeouts of less than 24 days, after which the
  product with 1000 does not fit into an \<open>int\<close>.\<close>

theorem poll_timeout_rounds_up:
  assumes "0 \<le> tv_sec tv" and "tv_sec tv < 2147483" and "0 \<le> tv_usec tv" and "tv_usec tv < 1000000"
  shows "tv_sec tv * 1000000 + tv_usec tv \<le> poll_timeout_ms tv * 1000 \<and>
    poll_timeout_ms tv * 1000 < tv_sec tv * 1000000 + tv_usec tv + 1000"
proof -
  have a: "sint (word_of_int (tv_sec tv * 1000) :: u32) = tv_sec tv * 1000" using assms by (intro sint_of_small) linarith+
  have b: "0 \<le> tv_usec tv div 1000" "tv_usec tv div 1000 \<le> 999" using assms by linarith+
  have c: "sint (word_of_int (tv_sec tv * 1000 + tv_usec tv div 1000) :: u32) = tv_sec tv * 1000 + tv_usec tv div 1000"
    using assms b by (intro sint_of_small) linarith+
  define q m where "q = tv_usec tv div 1000" and "m = tv_usec tv mod 1000"
  have "tv_usec tv = 1000 * q + m" "0 \<le> m" "m < 1000" by (simp_all add: q_def m_def)
  moreover have "poll_timeout_ms tv = (if m \<noteq> 0 then tv_sec tv * 1000 + q + 1 else tv_sec tv * 1000 + q)"
    unfolding poll_timeout_ms_def Let_def a c q_def m_def ..
  ultimately show ?thesis by (cases "m = 0") (simp_all add: algebra_simps)
qed

theorem poll_timeout_rounds_up_witness:
  "60000400 \<le> poll_timeout_ms \<lparr>tv_sec = 60, tv_usec = 400\<rparr> * 1000 \<and> poll_timeout_ms \<lparr>tv_sec = 60, tv_usec = 400\<rparr> * 1000 < 60001400"
  using poll_timeout_rounds_up [of "\<lparr>tv_sec = 60, tv_usec = 400\<rparr>"] by simp

text \<open>A timeout of 2147484 seconds becomes a negative one, with which \<open>poll\<close> waits for ever.\<close>

lemma poll_timeout_overflows: "poll_timeout_ms \<lparr>tv_sec = 2147484, tv_usec = 0\<rparr> = -2147483296"
  by code_simp

subsection \<open>Witnesses\<close>

text \<open>An environment in which the first poll finds the event pipe readable when it is, and the next one finds nothing.\<close>

definition env0 :: "unit loop_env" where
  "env0 = \<lparr>le_tfd = 5, le_env = (\<lambda>_. env_at 10),
     le_poll = (\<lambda>n fds ms s. if n = 0 \<and> fds \<noteq> [] \<and> 0 < ed_pipe (lp_data s) then ((1, False, 1 # replicate (length fds - 1) 0), s)
       else ((0, False, replicate (length fds) 0), s)),
     le_complete = (\<lambda>t s. Some (0, s)), le_hotplug = (\<lambda>msg s. Some s), le_events = (\<lambda>fs r s. Some (0, s)),
     le_completed = (\<lambda>s. None), le_wait = (\<lambda>n tv s. (0, s)), le_step = (\<lambda>n s. s)\<rparr>"

lemma env0_ok: "loop_env_ok env0 1"
proof -
  have r: "lp_ok tfd ph m s \<Longrightarrow> env_step tfd s s" for tfd ph m and s :: "unit loop_state"
    by (simp add: env_step_def lp_ok_def)
  then show ?thesis by (auto simp: loop_env_ok_def env0_def split: if_splits)
qed

definition state0 :: "unit loop_state" where
  "state0 = \<lparr>lp_data = ready_data, lp_io = ctx_flying, lp_rest = ()\<rparr>"

lemma state0_ok: "lp_ok 5 Idle None state0"
  using io_init_inv [OF empty_heap_wf _ _ ready_data_init] io_init_arrays [OF ready_data_init] ctx_flying_wf
  by (simp add: lp_ok_def state0_def)


definition locked_data :: event_data where
  "locked_data = (case libusb_try_lock_events ready_data of Some (_, d) \<Rightarrow> d | None \<Rightarrow> ready_data)"

lemma locked_data_step: "libusb_try_lock_events ready_data = Some (0, locked_data)" "\<not> ed_handling locked_data"
proof -
  have "(case libusb_try_lock_events ready_data of Some (r, _) \<Rightarrow> r = 0 | None \<Rightarrow> False)" by code_simp
  then show "libusb_try_lock_events ready_data = Some (0, locked_data)"
    by (auto simp: locked_data_def split: option.splits)
  show "\<not> ed_handling locked_data" by code_simp
qed

theorem handle_events_correct_witness:
  "\<exists>r s'. handle_events env0 0 \<lparr>tv_sec = 60, tv_usec = 0\<rparr> (set_data locked_data state0) = Some (r, s') \<and>
    lp_ok 5 Handling None s' \<and> \<not> ed_handling (lp_data s')"
proof -
  have t: "le_tfd env0 = 5" by (simp add: env0_def)
  have "lp_ok 5 Handling None (set_data locked_data state0)"
    using state0_ok inv_handler_starts [OF _ locked_data_step(1)] arrays_same [OF _ same_fds_lock(7) [OF locked_data_step(1)]]
    by (simp add: lp_ok_def state0_def)
  from handle_events_correct [OF env0_ok, unfolded t, OF this, of 0 "\<lparr>tv_sec = 60, tv_usec = 0\<rparr>"] locked_data_step(2)
  show ?thesis by simp
qed

end
