(* ===== verification/Posix_Os.thy ===== *)
theory Posix_Os
  imports Transfers
begin

text \<open>
  The wrappers of the operating system that the Linux build uses: \<open>usbi_pipe\<close> (os/poll_posix.c) and the deadline of
  \<open>usbi_cond_timedwait\<close> (os/threads_posix.c), with the open file descriptors of the process as a multiset: a
  descriptor that is closed has to be in it.
\<close>

subsection \<open>Descriptors\<close>

definition fd_open :: "int \<Rightarrow> int multiset \<Rightarrow> int multiset" where
  "fd_open fd fds = (if fd = -1 then fds else add_mset fd fds)"

definition fd_close :: "int \<Rightarrow> int multiset \<Rightarrow> int multiset option" where
  "fd_close fd fds = (if fd \<in># fds then Some (fds - {#fd#}) else None)"

lemma fd_close_open [simp]: "fd_close fd (add_mset fd fds) = Some fds"
  by (simp add: fd_close_def)

lemma fd_close_in: "fd \<in># fds \<Longrightarrow> fd_close fd fds = Some (fds - {#fd#})"
  by (simp add: fd_close_def)

subsection \<open>Pipes\<close>

text \<open>What \<open>pipe\<close> gives, with the two descriptors, and the results of the two calls of \<open>fcntl\<close>.\<close>

record pipe_answers =
  pa_pipe :: int
  pa_fds :: "int \<times> int"
  pa_getfl :: int
  pa_setfl :: int

text \<open>The result, the array \<open>pipefd\<close> and the open descriptors. An error after \<open>pipe\<close> leaves the closed ones in the array.\<close>

definition usbi_pipe :: "pipe_answers \<Rightarrow> int \<times> int \<Rightarrow> int multiset \<Rightarrow> (int \<times> (int \<times> int) \<times> int multiset) option" where
  "usbi_pipe a pipefd fds =
     (if pa_pipe a \<noteq> 0 then Some (pa_pipe a, pipefd, fds)
      else (let fds1 = fd_open (snd (pa_fds a)) (fd_open (fst (pa_fds a)) fds);
                ret = (if pa_getfl a = -1 then -1 else pa_setfl a) in
        if ret = 0 then Some (0, pa_fds a, fds1)
        else do {
          fds2 \<leftarrow> fd_close (fst (pa_fds a)) fds1;
          fds3 \<leftarrow> fd_close (snd (pa_fds a)) fds2;
          Some (ret, pa_fds a, fds3)
        }))"

text \<open>What the documentation of \<open>pipe\<close> says: two descriptors that are not negative, after success.\<close>

definition pipe_ok :: "pipe_answers \<Rightarrow> bool" where
  "pipe_ok a \<longleftrightarrow> (pa_pipe a = 0 \<or> pa_pipe a = -1) \<and> (pa_pipe a = 0 \<longrightarrow> 0 \<le> fst (pa_fds a) \<and> 0 \<le> snd (pa_fds a))"

lemma usbi_pipe_balanced:
  assumes "pipe_ok a"
  obtains (made) "usbi_pipe a pipefd fds = Some (0, pa_fds a, add_mset (snd (pa_fds a)) (add_mset (fst (pa_fds a)) fds))"
      and "0 \<le> fst (pa_fds a)" and "0 \<le> snd (pa_fds a)"
    | (failed) r pipefd' where "usbi_pipe a pipefd fds = Some (r, pipefd', fds)" and "r \<noteq> 0"
proof (cases "pa_pipe a = 0")
  case False
  then show ?thesis using failed [of "pa_pipe a" pipefd] by (simp add: usbi_pipe_def)
next
  case True
  obtain p q where pq: "pa_fds a = (p, q)" by fastforce
  have nn: "p \<noteq> -1" "q \<noteq> -1" "0 \<le> p" "0 \<le> q" using assms True pq by (auto simp: pipe_ok_def)
  show ?thesis
  proof (cases "(if pa_getfl a = -1 then -1 else pa_setfl a) = 0")
    case ok: True
    show ?thesis by (rule made) (use True ok pq nn in \<open>auto simp: usbi_pipe_def fd_open_def Let_def split: if_splits\<close>)
  next
    case bad: False
    show ?thesis by (rule failed [of "if pa_getfl a = -1 then -1 else pa_setfl a" "(p, q)"])
      (use True bad pq nn in \<open>auto simp: usbi_pipe_def fd_open_def fd_close_def Let_def\<close>)
  qed
qed

subsection \<open>Waiting with a timeout\<close>

text \<open>\<open>now\<close> is what \<open>clock_gettime\<close> gives. The result is the error, or the time until which the wait may last.\<close>

definition timedwait_deadline :: "int \<times> timespec \<Rightarrow> timeval \<Rightarrow> int + timespec" where
  "timedwait_deadline now tv =
     (case now of (r, ts) \<Rightarrow>
       if r < 0 then Inl r
       else Inr (normalize_ts \<lparr>ts_sec = ts_sec ts + tv_sec tv, ts_nsec = ts_nsec ts + tv_usec tv * 1000\<rparr>))"

definition usbi_cond_timedwait :: "int \<times> timespec \<Rightarrow> (timespec \<Rightarrow> int) \<Rightarrow> timeval \<Rightarrow> int" where
  "usbi_cond_timedwait now wait tv = (case timedwait_deadline now tv of Inl r \<Rightarrow> r | Inr deadline \<Rightarrow> wait deadline)"

definition ts_nanos :: "timespec \<Rightarrow> int" where
  "ts_nanos ts = ts_sec ts * 1000000000 + ts_nsec ts"

lemma normalize_ts_nanos:
  "0 \<le> ts_nsec ts \<Longrightarrow> ts_nanos (normalize_ts ts) = ts_nanos ts \<and> 0 \<le> ts_nsec (normalize_ts ts) \<and> ts_nsec (normalize_ts ts) < 1000000000"
proof (induction ts rule: normalize_ts.induct)
  case (1 ts)
  then show ?case by (cases "1000000000 \<le> ts_nsec ts") (simp_all add: normalize_ts.simps [of ts] ts_nanos_def)
qed

lemma timedwait_deadline_exact:
  assumes "0 \<le> r" and "0 \<le> ts_nsec ts" and "0 \<le> tv_usec tv"
  obtains d where "timedwait_deadline (r, ts) tv = Inr d" and "0 \<le> ts_nsec d" and "ts_nsec d < 1000000000"
    and "ts_nanos d = ts_nanos ts + tv_sec tv * 1000000000 + tv_usec tv * 1000"
proof -
  let ?s = "\<lparr>ts_sec = ts_sec ts + tv_sec tv, ts_nsec = ts_nsec ts + tv_usec tv * 1000\<rparr>"
  have "0 \<le> ts_nsec ?s" using assms by simp
  from that [of "normalize_ts ?s"] normalize_ts_nanos [OF this] assms(1) show thesis
    by (simp add: timedwait_deadline_def) (simp add: ts_nanos_def algebra_simps)
qed

end
