(* ===== verification/Linux_Netlink.thy ===== *)
theory Linux_Netlink
  imports Linux_Scan Posix_Os
begin

text \<open>
  The hotplug monitor of the Linux backend (os/linux_netlink.c): the socket and the pipe it opens, the search for a key in a
  message of the kernel, what is read from it, the messages that are ignored, and the thread and the poll that read them.

  A message is the array of bytes it was received in, and a pointer into it is an index: a read at an index outside the
  array is \<open>None\<close>. The system's answers are the record \<open>netlink_answers\<close> and the messages that \<open>recvmsg\<close> gives.
\<close>

subsection \<open>C strings in an array\<close>

definition c_strlen :: "u8 list \<Rightarrow> nat \<Rightarrow> nat option" where
  "c_strlen buf p =
     (let s = drop p buf; n = length (takeWhile (\<lambda>b. b \<noteq> 0) s) in if n < length s then Some n else None)"

definition c_string :: "u8 list \<Rightarrow> nat \<Rightarrow> u8 list option" where
  "c_string buf p = do { n \<leftarrow> c_strlen buf p; Some (take n (drop p buf)) }"

text \<open>\<open>strncmp\<close> with all the bytes of a key, which has no NUL, is 0; \<open>strcmp\<close> with a literal is 0.\<close>

primrec strncmp0 :: "u8 list \<Rightarrow> u8 list \<Rightarrow> bool option" where
  "strncmp0 [] s = Some True"
| "strncmp0 (k # ks) s = (case s of [] \<Rightarrow> None | b # s' \<Rightarrow> if b = k then strncmp0 ks s' else Some False)"

primrec strcmp0 :: "u8 list \<Rightarrow> u8 list \<Rightarrow> bool option" where
  "strcmp0 [] s = (case s of [] \<Rightarrow> None | b # _ \<Rightarrow> Some (b = 0))"
| "strcmp0 (k # ks) s = (case s of [] \<Rightarrow> None | b # s' \<Rightarrow> if b = k then strcmp0 ks s' else Some False)"

definition bytes_of :: "string \<Rightarrow> u8 list" where
  "bytes_of s = map of_char s"

text \<open>\<open>strtoul\<close> in base 10: the value, and whether it sets \<open>errno\<close>. An \<open>unsigned long\<close> has \<open>lw\<close> bits.\<close>

definition split_sign :: "u8 list \<Rightarrow> bool \<times> u8 list" where
  "split_sign s =
     (case dropWhile is_space s of
        [] \<Rightarrow> (False, [])
      | b # s' \<Rightarrow> if b = 45 \<or> b = 43 then (b = 45, s') else (False, b # s'))"

definition ulong_value :: "nat \<Rightarrow> bool \<Rightarrow> u8 list \<Rightarrow> int \<times> bool" where
  "ulong_value lw neg ds =
     (let v = digits_value ds 0 in
      if ds = [] then (0, False)
      else if v \<ge> 2 ^ lw then (2 ^ lw - 1, True)
      else (if neg then (- v) mod 2 ^ lw else v, False))"

definition strtoul :: "nat \<Rightarrow> u8 list \<Rightarrow> nat \<Rightarrow> (int \<times> bool) option" where
  "strtoul lw buf p =
     (case split_sign (drop p buf) of (neg, s) \<Rightarrow>
       if dropWhile is_digit s = [] then None else Some (ulong_value lw neg (takeWhile is_digit s)))"

definition strrchr_slash :: "u8 list \<Rightarrow> nat \<Rightarrow> nat option option" where
  "strrchr_slash buf p = do {
     s \<leftarrow> c_string buf p;
     Some (map_option (\<lambda>i. p + i) (strrchr 47 s))
   }"

subsection \<open>Messages\<close>

text \<open>The index of the value of a key, or \<open>NULL\<close>.\<close>

function message_loop :: "u8 list \<Rightarrow> nat \<Rightarrow> u8 list \<Rightarrow> nat \<Rightarrow> nat option option" where
  "message_loop buf len key p =
     (if p < len then do {
        b \<leftarrow> rd buf p;
        if b = 0 then Some None
        else do {
          same \<leftarrow> strncmp0 key (drop p buf);
          hit \<leftarrow> (if same then do { x \<leftarrow> rd buf (p + length key); Some (x = 61) } else Some False);
          if hit then Some (Some (p + length key + 1))
          else do { n \<leftarrow> c_strlen buf p; message_loop buf len key (p + (n + 1)) }
        }
      }
      else Some None)"
  by pat_completeness auto
termination by (relation "measure (\<lambda>(buf, len, key, p). len - p)") auto

declare message_loop.simps [simp del]

definition netlink_message_parse :: "u8 list \<Rightarrow> nat \<Rightarrow> string \<Rightarrow> nat option option" where
  "netlink_message_parse buf len key = message_loop buf len (bytes_of key) 0"

text \<open>What the message says of a device.\<close>

record netlink_device =
  nd_detached :: bool
  nd_sys_name :: "nat option"
  nd_busnum :: u8
  nd_devaddr :: u8

definition no_netlink_device :: netlink_device where
  "no_netlink_device = \<lparr>nd_detached = False, nd_sys_name = None, nd_busnum = 0, nd_devaddr = 0\<rparr>"

definition u8_of_ulong :: "int \<Rightarrow> u8" where
  "u8_of_ulong v = word_of_int (v AND 255)"

text \<open>The number of the bus at one place and the address at another; -1 when one of them does not fit an \<open>unsigned long\<close>.\<close>

definition read_address :: "nat \<Rightarrow> u8 list \<Rightarrow> nat \<Rightarrow> (nat option) option \<Rightarrow> netlink_device \<Rightarrow> (int \<times> netlink_device) option" where
  "read_address lw buf bus_at addr_at d = do {
     (bus, e1) \<leftarrow> strtoul lw buf bus_at;
     let d1 = d\<lparr>nd_busnum := u8_of_ulong bus\<rparr>;
     if e1 then Some (-1, d1)
     else do {
       at \<leftarrow> addr_at;
       (case at of
          None \<Rightarrow> Some (-1, d1)
        | Some q \<Rightarrow> do {
            (addr, e2) \<leftarrow> strtoul lw buf q;
            Some (if e2 then -1 else 0, d1\<lparr>nd_devaddr := u8_of_ulong addr\<rparr>)
          })
     }
   }"

definition read_sys_name :: "u8 list \<Rightarrow> nat \<Rightarrow> netlink_device \<Rightarrow> (int \<times> netlink_device) option" where
  "read_sys_name buf len d = do {
     tmp \<leftarrow> netlink_message_parse buf len ''DEVPATH'';
     (case tmp of
        None \<Rightarrow> Some (-1, d)
      | Some p \<Rightarrow> do {
          slash \<leftarrow> strrchr_slash buf p;
          Some (0, case slash of None \<Rightarrow> d | Some i \<Rightarrow> d\<lparr>nd_sys_name := Some (i + 1)\<rparr>)
        })
   }"

text \<open>\<open>slash - 3\<close> is a pointer into the array only from the index 3 on.\<close>

definition read_device_path :: "nat \<Rightarrow> u8 list \<Rightarrow> nat \<Rightarrow> netlink_device \<Rightarrow> (int \<times> netlink_device) option" where
  "read_device_path lw buf len d = do {
     tmp \<leftarrow> netlink_message_parse buf len ''DEVICE'';
     (case tmp of
        None \<Rightarrow> Some (-1, d)
      | Some p \<Rightarrow> do {
          slash \<leftarrow> strrchr_slash buf p;
          (case slash of
             None \<Rightarrow> Some (-1, d)
           | Some i \<Rightarrow> if i < 3 then None else read_address lw buf (i - 3) (Some (Some (i + 1))) d)
        })
   }"

text \<open>The value of a key is this literal; no value is none.\<close>

definition value_is :: "u8 list \<Rightarrow> nat \<Rightarrow> string \<Rightarrow> string \<Rightarrow> bool option" where
  "value_is buf len key lit = do {
     tmp \<leftarrow> netlink_message_parse buf len key;
     (case tmp of None \<Rightarrow> Some False | Some p \<Rightarrow> strcmp0 (bytes_of lit) (drop p buf))
   }"

definition linux_netlink_parse :: "nat \<Rightarrow> u8 list \<Rightarrow> nat \<Rightarrow> (int \<times> netlink_device) option" where
  "linux_netlink_parse lw buf len = do {
     remove \<leftarrow> value_is buf len ''ACTION'' ''remove'';
     add \<leftarrow> (if remove then Some False else value_is buf len ''ACTION'' ''add'');
     let d = no_netlink_device\<lparr>nd_detached := remove\<rparr>;
     if \<not> remove \<and> \<not> add then Some (-1, d)
     else do {
       usb \<leftarrow> value_is buf len ''SUBSYSTEM'' ''usb'';
       if \<not> usb then Some (-1, d)
       else do {
         dev \<leftarrow> value_is buf len ''DEVTYPE'' ''usb_device'';
         if \<not> dev then Some (-1, d)
         else do {
           tmp \<leftarrow> netlink_message_parse buf len ''BUSNUM'';
           (case tmp of
              Some p \<Rightarrow> do {
                (r, d1) \<leftarrow> read_address lw buf p (netlink_message_parse buf len ''DEVNUM'') d;
                if r \<noteq> 0 then Some (r, d1) else read_sys_name buf len d1
              }
            | None \<Rightarrow> read_device_path lw buf len d)
         }
       }
     }
   }"

subsection \<open>Receiving\<close>

text \<open>What \<open>recvmsg\<close> gives: its result, the array after it, whether the message was cut, its sender, and the type and the
  user of the first control message.\<close>

record netlink_message =
  nm_len :: int
  nm_buf :: "u8 list"
  nm_trunc :: bool
  nm_groups :: u32
  nm_pid :: u32
  nm_cred :: "(int \<times> u32) option"

abbreviation NL_GROUP_KERNEL :: u32 where "NL_GROUP_KERNEL \<equiv> 1"
abbreviation SCM_CREDENTIALS :: int where "SCM_CREDENTIALS \<equiv> 2"

definition from_kernel :: "netlink_message \<Rightarrow> bool" where
  "from_kernel m \<longleftrightarrow> nm_groups m = NL_GROUP_KERNEL \<and> nm_pid m = 0 \<and>
     (case nm_cred m of None \<Rightarrow> False | Some (ty, uid) \<Rightarrow> ty = SCM_CREDENTIALS \<and> uid = 0)"

definition chars :: "u8 list \<Rightarrow> string" where
  "chars bs = map (\<lambda>b. char_of (unat b)) bs"

definition name_at :: "u8 list \<Rightarrow> nat option \<Rightarrow> string option option" where
  "name_at buf at = (case at of None \<Rightarrow> Some None
     | Some p \<Rightarrow> do { s \<leftarrow> c_string buf p; Some (Some (chars s)) })"

definition linux_netlink_read_message ::
  "nat \<Rightarrow> linux_globals \<Rightarrow> linux_env \<Rightarrow> netlink_message \<Rightarrow> linux_ctx list \<Rightarrow> (int \<times> linux_ctx list) option" where
  "linux_netlink_read_message lw lg env m ctxs =
     (if nm_len m = -1 then Some (-1, ctxs)
      else if nm_len m < 32 \<or> nm_trunc m then Some (-1, ctxs)
      else if \<not> from_kernel m then Some (-1, ctxs)
      else do {
        (r, d) \<leftarrow> linux_netlink_parse lw (nm_buf m) (nat (nm_len m));
        if r \<noteq> 0 then Some (r, ctxs)
        else do {
          sys_name \<leftarrow> name_at (nm_buf m) (nd_sys_name d);
          ctxs1 \<leftarrow> (if nd_detached d then linux_device_disconnected (le_backend env) (nd_busnum d) (nd_devaddr d) ctxs
            else linux_hotplug_enumerate lg env (nd_busnum d) (nd_devaddr d) sys_name ctxs);
          Some (0, ctxs1)
        }
      })"

definition lock_hotplug :: "linux_static \<Rightarrow> linux_static option" where
  "lock_hotplug st = (if st_hotplug_lock st then None else Some (st\<lparr>st_hotplug_lock := True\<rparr>))"

definition unlock_hotplug :: "linux_static \<Rightarrow> linux_static option" where
  "unlock_hotplug st = (if st_hotplug_lock st then Some (st\<lparr>st_hotplug_lock := False\<rparr>) else None)"

text \<open>The messages that are queued; after them \<open>recvmsg\<close> gives -1. The result has those that stay in the queue.\<close>

primrec hotplug_poll_loop ::
  "nat \<Rightarrow> linux_globals \<Rightarrow> linux_env \<Rightarrow> netlink_message list \<Rightarrow> linux_ctx list \<Rightarrow> (netlink_message list \<times> linux_ctx list) option" where
  "hotplug_poll_loop lw lg env [] ctxs = Some ([], ctxs)"
| "hotplug_poll_loop lw lg env (m # ms) ctxs = do {
     (r, ctxs1) \<leftarrow> linux_netlink_read_message lw lg env m ctxs;
     if r = 0 then hotplug_poll_loop lw lg env ms ctxs1 else Some (ms, ctxs1)
   }"

definition linux_netlink_hotplug_poll ::
  "nat \<Rightarrow> linux_env \<Rightarrow> netlink_message list \<Rightarrow> linux_static \<Rightarrow> linux_ctx list \<Rightarrow>
   (netlink_message list \<times> linux_static \<times> linux_ctx list) option" where
  "linux_netlink_hotplug_poll lw env ms st ctxs = do {
     st1 \<leftarrow> lock_hotplug st;
     (ms', ctxs1) \<leftarrow> hotplug_poll_loop lw (st_lg st1) env ms ctxs;
     st2 \<leftarrow> unlock_hotplug st1;
     Some (ms', st2, ctxs1)
   }"

subsection \<open>The thread\<close>

text \<open>What one \<open>poll\<close> of the thread gives: it fails, or the pipe is readable, or the socket is, with the message that
  \<open>recvmsg\<close> will give, or neither.\<close>

record netlink_poll =
  np_failed :: bool
  np_control :: bool
  np_message :: "netlink_message option"

text \<open>The flag says whether the thread has ended after these polls, or waits for another.\<close>

primrec linux_netlink_event_thread_main ::
  "nat \<Rightarrow> linux_env \<Rightarrow> netlink_poll list \<Rightarrow> linux_static \<Rightarrow> linux_ctx list \<Rightarrow> (bool \<times> linux_static \<times> linux_ctx list) option" where
  "linux_netlink_event_thread_main lw env [] st ctxs = Some (False, st, ctxs)"
| "linux_netlink_event_thread_main lw env (p # ps) st ctxs =
     (if np_failed p then Some (True, st, ctxs)
      else if np_control p then Some (True, st, ctxs)
      else (case np_message p of
          None \<Rightarrow> linux_netlink_event_thread_main lw env ps st ctxs
        | Some m \<Rightarrow> do {
            st1 \<leftarrow> lock_hotplug st;
            (r, ctxs1) \<leftarrow> linux_netlink_read_message lw (st_lg st1) env m ctxs;
            st2 \<leftarrow> unlock_hotplug st1;
            linux_netlink_event_thread_main lw env ps st2 ctxs1
          }))"

subsection \<open>Start and stop\<close>

datatype thread_state = NoThread | Running | Ended

text \<open>The variables of the file, and the descriptors that the process has open.\<close>

record netlink_static =
  nl_socket :: int
  nl_pipe :: "int \<times> int"
  nl_thread :: thread_state
  nl_fds :: "int multiset"

record netlink_answers =
  na_socket :: int
  na_einval :: bool
  na_socket_raw :: int
  na_getfd :: int
  na_setfd :: int
  na_getfl :: int
  na_setfl :: int
  na_bind :: int
  na_setsockopt :: int
  na_pipe :: pipe_answers
  na_create :: int

abbreviation FD_CLOEXEC :: int where "FD_CLOEXEC \<equiv> 1"
abbreviation O_NONBLOCK :: int where "O_NONBLOCK \<equiv> 2048"

definition set_fd_cloexec_nb :: "netlink_answers \<Rightarrow> int" where
  "set_fd_cloexec_nb a =
     (if na_getfd a = -1 then -1
      else if na_getfd a AND FD_CLOEXEC = 0 \<and> na_setfd a = -1 then -1
      else if na_getfl a = -1 then -1
      else if na_getfl a AND O_NONBLOCK = 0 \<and> na_setfl a = -1 then -1
      else 0)"

definition err_close_socket :: "netlink_static \<Rightarrow> (int \<times> netlink_static) option" where
  "err_close_socket s = do {
     fds \<leftarrow> fd_close (nl_socket s) (nl_fds s);
     Some (LIBUSB_ERROR_OTHER, s\<lparr>nl_socket := -1, nl_fds := fds\<rparr>)
   }"

definition close_pipe :: "netlink_static \<Rightarrow> netlink_static option" where
  "close_pipe s = do {
     fds \<leftarrow> fd_close (fst (nl_pipe s)) (nl_fds s);
     fds' \<leftarrow> fd_close (snd (nl_pipe s)) fds;
     Some (s\<lparr>nl_pipe := (-1, -1), nl_fds := fds'\<rparr>)
   }"

definition linux_netlink_start_event_monitor :: "netlink_answers \<Rightarrow> netlink_static \<Rightarrow> (int \<times> netlink_static) option" where
  "linux_netlink_start_event_monitor a s =
     (let fd = (if na_socket a = -1 \<and> na_einval a then na_socket_raw a else na_socket a);
          s1 = s\<lparr>nl_socket := fd, nl_fds := fd_open fd (nl_fds s)\<rparr> in
      if fd = -1 then Some (LIBUSB_ERROR_OTHER, s1)
      else if set_fd_cloexec_nb a = -1 then err_close_socket s1
      else if na_bind a = -1 then err_close_socket s1
      else if na_setsockopt a = -1 then err_close_socket s1
      else do {
        (ret, pipefd, fds) \<leftarrow> usbi_pipe (na_pipe a) (nl_pipe s1) (nl_fds s1);
        let s2 = s1\<lparr>nl_pipe := pipefd, nl_fds := fds\<rparr>;
        if ret \<noteq> 0 then err_close_socket s2
        else if na_create a \<noteq> 0 then do { s3 \<leftarrow> close_pipe s2; err_close_socket s3 }
        else Some (LIBUSB_SUCCESS, s2\<lparr>nl_thread := Running\<rparr>)
      })"

text \<open>\<open>written\<close> is the result of the write to the pipe. A thread that runs ends when it gets that byte; without it the
  join does not return, which is \<open>None\<close> here.\<close>

definition join_thread :: "int \<Rightarrow> netlink_static \<Rightarrow> netlink_static option" where
  "join_thread written s =
     (case nl_thread s of
        NoThread \<Rightarrow> None
      | Running \<Rightarrow> if written \<le> 0 then None else Some (s\<lparr>nl_thread := NoThread\<rparr>)
      | Ended \<Rightarrow> Some (s\<lparr>nl_thread := NoThread\<rparr>))"

definition linux_netlink_stop_event_monitor :: "int \<Rightarrow> netlink_static \<Rightarrow> (int \<times> netlink_static) option" where
  "linux_netlink_stop_event_monitor written s =
     (if nl_socket s = -1 then None
      else do {
        s1 \<leftarrow> join_thread written s;
        fds \<leftarrow> fd_close (nl_socket s1) (nl_fds s1);
        s2 \<leftarrow> close_pipe (s1\<lparr>nl_socket := -1, nl_fds := fds\<rparr>);
        Some (LIBUSB_SUCCESS, s2)
      })"

end
