(* ===== verification/Linux_Netlink_Props.thy ===== *)
theory Linux_Netlink_Props
  imports Linux_Netlink Linux_Scan_Props
begin

text \<open>
  The messages of the hotplug monitor: the search for a key is the lookup in the fields of the message, what is read
  from a message is what its fields say, a message that the kernel makes for a device gives that device back, and the
  devices of all contexts keep their invariant. The start of the monitor keeps no descriptor open when it fails.
\<close>

subsection \<open>Strings\<close>

text \<open>At this index there is the string \<open>v\<close>.\<close>

definition string_at :: "u8 list \<Rightarrow> nat \<Rightarrow> u8 list \<Rightarrow> bool" where
  "string_at buf p v \<longleftrightarrow> 0 \<notin> set v \<and> (\<exists>rest. drop p buf = v @ 0 # rest)"

lemma takeWhile_nul [simp]: "0 \<notin> set v \<Longrightarrow> takeWhile (\<lambda>b. b \<noteq> 0) (v @ 0 # rest) = (v :: u8 list)"
  by (induction v) auto

lemma string_at_strlen: "string_at buf p v \<Longrightarrow> c_strlen buf p = Some (length v)"
proof -
  assume "string_at buf p v"
  then obtain rest where "0 \<notin> set v" "drop p buf = v @ 0 # rest" by (auto simp: string_at_def)
  then show ?thesis unfolding c_strlen_def Let_def by (simp del: length_drop)
qed

lemma string_at_string: "string_at buf p v \<Longrightarrow> c_string buf p = Some v"
  using string_at_strlen [of buf p v] by (auto simp: string_at_def c_string_def)

lemma string_at_drop:
  assumes "string_at buf p v" and "i \<le> length v"
  shows "string_at buf (p + i) (drop i v)"
proof -
  obtain rest where "0 \<notin> set v" "drop p buf = v @ 0 # rest" using assms(1) by (auto simp: string_at_def)
  moreover from this assms(2) have "drop (p + i) buf = drop i v @ 0 # rest"
    by (simp add: drop_drop [of i p buf, symmetric] add.commute del: drop_drop)
  ultimately show ?thesis by (auto simp: string_at_def dest: in_set_dropD)
qed

lemma strncmp0_eq: "0 \<notin> set key \<Longrightarrow> strncmp0 key (f @ 0 # rest) = Some (take (length key) f = key)"
proof (induction key arbitrary: f)
  case (Cons k ks)
  then show ?case by (cases f) auto
qed simp

lemma strcmp0_eq: "0 \<notin> set lit \<Longrightarrow> 0 \<notin> set v \<Longrightarrow> strcmp0 lit (v @ 0 # rest) = Some (v = lit)"
proof (induction lit arbitrary: v)
  case Nil
  then show ?case by (cases v) auto
next
  case (Cons k ks)
  then show ?case by (cases v) auto
qed

lemma string_at_strcmp: "string_at buf p v \<Longrightarrow> 0 \<notin> set lit \<Longrightarrow> strcmp0 lit (drop p buf) = Some (v = lit)"
  by (auto simp: string_at_def strcmp0_eq)

lemma no_nul_literals [simp]:
  "0 \<notin> set (bytes_of ''ACTION'')" "0 \<notin> set (bytes_of ''SUBSYSTEM'')" "0 \<notin> set (bytes_of ''DEVTYPE'')"
  "0 \<notin> set (bytes_of ''BUSNUM'')" "0 \<notin> set (bytes_of ''DEVNUM'')" "0 \<notin> set (bytes_of ''DEVPATH'')"
  "0 \<notin> set (bytes_of ''DEVICE'')" "0 \<notin> set (bytes_of ''add'')" "0 \<notin> set (bytes_of ''remove'')"
  "0 \<notin> set (bytes_of ''usb'')" "0 \<notin> set (bytes_of ''usb_device'')"
  by (simp_all add: bytes_of_def of_char_def)

subsection \<open>The search for a key\<close>

text \<open>A message is fields that end with NUL. The value of a key in them; an empty field ends the search.\<close>

definition message_bytes :: "u8 list list \<Rightarrow> u8 list" where
  "message_bytes fs = concat (map (\<lambda>f. f @ [0]) fs)"

primrec field_value :: "u8 list \<Rightarrow> u8 list list \<Rightarrow> u8 list option" where
  "field_value key [] = None"
| "field_value key (f # fs) =
     (if f = [] then None
      else if take (length key + 1) f = key @ [61] then Some (drop (length key + 1) f)
      else field_value key fs)"

text \<open>The search gives the place of the value, after the key and the sign, and no place when there is no value.\<close>

definition found :: "u8 list \<Rightarrow> u8 list \<Rightarrow> u8 list option \<Rightarrow> nat option \<Rightarrow> bool" where
  "found buf key v r \<longleftrightarrow> (case v of None \<Rightarrow> r = None
     | Some v \<Rightarrow> \<exists>q. r = Some (q + (length key + 1)) \<and> string_at buf q (key @ [61] @ v))"

lemma message_loop_found:
  assumes key: "0 \<notin> set key" and fs: "\<forall>f \<in> set fs. 0 \<notin> set f"
    and buf: "drop p buf = message_bytes fs @ junk" and len: "len = p + length (message_bytes fs)" "len \<le> length buf"
  shows "\<exists>r. message_loop buf len key p = Some r \<and> found buf key (field_value key fs) r"
  using fs buf len
proof (induction fs arbitrary: p)
  case Nil
  have "\<not> p < len" using Nil.prems(3) by (simp add: message_bytes_def)
  then have "message_loop buf len key p = Some None" by (subst message_loop.simps) (simp only: if_False)
  then show ?case by (simp add: found_def)
next
  case (Cons f fs)
  let ?rest = "message_bytes fs @ junk"
  have d: "drop p buf = f @ 0 # ?rest" using Cons.prems(2) by (simp add: message_bytes_def)
  have pl: "p < len" and nf: "0 \<notin> set f" using Cons.prems by (simp_all add: message_bytes_def)
  have at: "string_at buf p f" using d nf by (auto simp: string_at_def)
  have nth: "rd buf (p + i) = Some ((f @ 0 # ?rest) ! i)" if "i \<le> length f" for i
  proof -
    have "p + i < length buf" using that Cons.prems(3,4) by (simp add: message_bytes_def)
    moreover from this have "buf ! (p + i) = drop p buf ! i" by (intro nth_drop [symmetric]) linarith
    ultimately show ?thesis unfolding d by simp
  qed
  show ?case
  proof (cases "f = []")
    case True
    then show ?thesis using nth [of 0] pl by (simp add: message_loop.simps [of buf len key p] found_def)
  next
    case False
    then have "f ! 0 \<noteq> 0" using nf nth_mem [of 0 f] by (metis length_greater_0_conv)
    with False have b: "rd buf p = Some (f ! 0)" "f ! 0 \<noteq> 0" using nth [of 0] by (simp_all add: nth_append)
    have same: "strncmp0 key (drop p buf) = Some (take (length key) f = key)" unfolding d by (rule strncmp0_eq [OF key])
    have hit: "(if take (length key) f = key then do { x \<leftarrow> rd buf (p + length key); Some (x = 61) } else Some False)
      = Some (take (length key + 1) f = key @ [61])"
    proof (cases "take (length key) f = key")
      case True
      then obtain g where f: "f = key @ g" by (metis append_take_drop_id)
      with nth [of "length key"] show ?thesis by (cases g) (auto simp: nth_append)
    next
      case neq: False
      then have "take (length key + 1) f \<noteq> key @ [61]" by (auto dest: arg_cong [of _ _ "take (length key)"] simp: min_def)
      with neq show ?thesis by simp
    qed
    note step = message_loop.simps [of buf len key p]
    show ?thesis
    proof (cases "take (length key + 1) f = key @ [61]")
      case True
      then obtain v where f: "f = key @ [61] @ v" by (metis append_take_drop_id append_assoc)
      then show ?thesis using step pl b same hit at True False by (auto simp: found_def)
    next
      case miss: False
      have n: "p + (length f + 1) + length (message_bytes fs) = len" using Cons.prems(3) by (simp add: message_bytes_def)
      have "drop (length f + 1) (drop p buf) = ?rest" unfolding d by simp
      then have "drop (p + (length f + 1)) buf = ?rest" unfolding drop_drop add.commute [of _ p] .
      from Cons.IH [OF _ this n [symmetric] Cons.prems(4)] Cons.prems(1) obtain r where
        "message_loop buf len key (p + (length f + 1)) = Some r" "found buf key (field_value key fs) r" by auto
      with step pl b same hit miss False string_at_strlen [OF at] show ?thesis by auto
    qed
  qed
qed

text \<open>The first \<open>len\<close> bytes of the array are a message.\<close>

definition holds_message :: "u8 list \<Rightarrow> nat \<Rightarrow> u8 list list \<Rightarrow> bool" where
  "holds_message buf len fs \<longleftrightarrow> (\<forall>f \<in> set fs. 0 \<notin> set f) \<and> (\<exists>junk. buf = message_bytes fs @ junk) \<and> len = length (message_bytes fs)"

abbreviation field :: "string \<Rightarrow> u8 list list \<Rightarrow> u8 list option" where
  "field key fs \<equiv> field_value (bytes_of key) fs"

lemma key_found:
  assumes m: "holds_message buf len fs" and key: "0 \<notin> set (bytes_of key)"
  obtains (none) "netlink_message_parse buf len key = Some None" and "field key fs = None"
    | (some) p v where "netlink_message_parse buf len key = Some (Some p)" and "field key fs = Some v" and "string_at buf p v"
        and "length key < p" and "string_at buf (p - (length key + 1)) (bytes_of key @ [61] @ v)"
proof -
  obtain junk where j: "\<forall>f \<in> set fs. 0 \<notin> set f" "drop 0 buf = message_bytes fs @ junk" "len = 0 + length (message_bytes fs)" "len \<le> length buf"
    using m by (auto simp: holds_message_def)
  from message_loop_found [OF key j] obtain r where r: "netlink_message_parse buf len key = Some r" "found buf (bytes_of key) (field key fs) r"
    by (auto simp: netlink_message_parse_def)
  have l: "length (bytes_of key) = length key" by (simp add: bytes_of_def)
  show thesis
  proof (cases "field key fs")
    case None
    with r none show thesis by (simp add: found_def)
  next
    case (Some v)
    with r(2) obtain q where q: "r = Some (q + (length key + 1))" "string_at buf q (bytes_of key @ [61] @ v)"
      by (auto simp: found_def l)
    from string_at_drop [OF q(2), of "length key + 1"] l have "string_at buf (q + (length key + 1)) v" by simp
    with some [of "q + (length key + 1)" v] r(1) q Some show thesis by simp
  qed
qed

lemma value_is_field:
  assumes "holds_message buf len fs" and "0 \<notin> set (bytes_of key)" and "0 \<notin> set (bytes_of lit)"
  shows "value_is buf len key lit = Some (field key fs = Some (bytes_of lit))"
  using assms by (cases rule: key_found [OF assms(1,2)]) (simp_all add: value_is_def string_at_strcmp)

subsection \<open>Numbers\<close>

text \<open>What \<open>strtoul\<close> reads from a string.\<close>

definition ulong_of :: "nat \<Rightarrow> u8 list \<Rightarrow> int \<times> bool" where
  "ulong_of lw v = (case split_sign v of (neg, s) \<Rightarrow> ulong_value lw neg (takeWhile is_digit s))"

lemma dropWhile_stop: "\<not> P c \<Longrightarrow> dropWhile P (v @ c # rest) = dropWhile P v @ c # rest"
  by (induction v) auto

lemma takeWhile_stop: "\<not> P c \<Longrightarrow> takeWhile P (v @ c # rest) = takeWhile P v"
  by (induction v) auto

lemma split_sign_stop:
  "\<not> is_space c \<Longrightarrow> c \<noteq> 45 \<Longrightarrow> c \<noteq> 43 \<Longrightarrow> split_sign (v @ c # rest) = (case split_sign v of (neg, s) \<Rightarrow> (neg, s @ c # rest))"
proof -
  assume c: "\<not> is_space c" "c \<noteq> 45" "c \<noteq> 43"
  have "dropWhile is_space (v @ c # rest) = dropWhile is_space v @ c # rest" by (rule dropWhile_stop [where P = is_space, OF c(1)])
  then show ?thesis using c(2,3) unfolding split_sign_def
    by (cases "dropWhile is_space v") (simp_all del: dropWhile_append dropWhile_eq_Nil_conv)
qed

lemma strtoul_stops:
  assumes "drop p buf = v @ c # rest" and "\<not> is_space c" and "\<not> is_digit c" and "c \<noteq> 45" and "c \<noteq> 43"
  shows "strtoul lw buf p = Some (ulong_of lw v)"
proof -
  obtain neg s where sg: "split_sign v = (neg, s)" by fastforce
  have "dropWhile is_digit (s @ c # rest) \<noteq> []" using dropWhile_stop [where P = is_digit, OF assms(3), of s rest] by simp
  then show ?thesis
    using assms sg by (simp add: strtoul_def ulong_of_def split_sign_stop takeWhile_stop del: dropWhile_eq_Nil_conv)
qed

lemma string_at_strtoul: "string_at buf p v \<Longrightarrow> strtoul lw buf p = Some (ulong_of lw v)"
  by (auto simp: string_at_def is_space_def is_digit_def intro: strtoul_stops)

text \<open>The byte that is kept of a number, if it fits an \<open>unsigned long\<close>.\<close>

definition byte_of :: "nat \<Rightarrow> u8 list \<Rightarrow> u8 option" where
  "byte_of lw v = (case ulong_of lw v of (n, over) \<Rightarrow> if over then None else Some (word_of_int n))"

lemma u8_of_ulong_eq: "u8_of_ulong n = word_of_int n"
proof -
  have m: "(255 :: int) = mask 8" by (simp add: mask_eq_exp_minus_1)
  have "(word_of_int (take_bit 8 n) :: u8) = word_of_int n" by (rule bit_word_eqI) (simp add: bit_simps)
  then show ?thesis unfolding u8_of_ulong_def m take_bit_eq_mask .
qed

subsection \<open>What a message says\<close>

text \<open>The part before the last slash and the part after it.\<close>

definition slash_parts :: "u8 list \<Rightarrow> (u8 list \<times> u8 list) option" where
  "slash_parts v = (if 47 \<in> set v
     then Some (rev (tl (dropWhile (\<lambda>b. b \<noteq> 47) (rev v))), rev (takeWhile (\<lambda>b. b \<noteq> 47) (rev v))) else None)"

lemma slash_parts_strrchr:
  "case slash_parts v of None \<Rightarrow> strrchr 47 v = None
   | Some (dir, nm) \<Rightarrow> v = dir @ 47 # nm \<and> strrchr 47 v = Some (length dir)"
proof (cases "47 \<in> set v")
  case False
  then show ?thesis by (simp add: slash_parts_def strrchr_def)
next
  case True
  let ?P = "\<lambda>b. b \<noteq> (47 :: u8)"
  obtain b bs where d: "dropWhile ?P (rev v) = b # bs" using True by (cases "dropWhile ?P (rev v)") (auto dest: dropWhile_eq_Nil_conv [THEN iffD1])
  then have "b = 47" using hd_dropWhile [of ?P "rev v"] by auto
  with d have r: "rev v = takeWhile ?P (rev v) @ 47 # bs" by (metis takeWhile_dropWhile_id)
  then have v: "v = rev bs @ 47 # rev (takeWhile ?P (rev v))"
    by (metis append.assoc append_Cons append_Nil rev.simps(2) rev_append rev_rev_ident)
  have "length v = length (takeWhile ?P (rev v)) + 1 + length bs" using arg_cong [OF r, of length] by simp
  then show ?thesis using True d v by (simp add: slash_parts_def strrchr_def)
qed

text \<open>Whether a device left, its name in sysfs, the number of its bus and its address.\<close>

definition uevent :: "nat \<Rightarrow> u8 list list \<Rightarrow> (bool \<times> string option \<times> u8 \<times> u8) option" where
  "uevent lw fs = do {
     action \<leftarrow> field ''ACTION'' fs;
     if action \<notin> {bytes_of ''remove'', bytes_of ''add''} \<or> field ''SUBSYSTEM'' fs \<noteq> Some (bytes_of ''usb'') \<or>
       field ''DEVTYPE'' fs \<noteq> Some (bytes_of ''usb_device'') then None
     else (case field ''BUSNUM'' fs of
         Some b \<Rightarrow> do {
           bus \<leftarrow> byte_of lw b;
           a \<leftarrow> field ''DEVNUM'' fs;
           addr \<leftarrow> byte_of lw a;
           path \<leftarrow> field ''DEVPATH'' fs;
           Some (action = bytes_of ''remove'', map_option (\<lambda>(_, nm). chars nm) (slash_parts path), bus, addr)
         }
       | None \<Rightarrow> do {
           path \<leftarrow> field ''DEVICE'' fs;
           (dir, nm) \<leftarrow> slash_parts path;
           let before = bytes_of ''DEVICE='' @ dir;
           bus \<leftarrow> byte_of lw (drop (length before - 3) before);
           addr \<leftarrow> byte_of lw nm;
           Some (action = bytes_of ''remove'', None, bus, addr)
         })
   }"

lemma read_address_numbers:
  assumes "strtoul lw buf p = Some (ulong_of lw b)" and "addr_at = Some at" and "\<And>q. at = Some q \<Longrightarrow> \<exists>v. a = Some v \<and> strtoul lw buf q = Some (ulong_of lw v)"
    and "at = None \<Longrightarrow> a = None"
  shows "\<exists>r d1. read_address lw buf p addr_at d = Some (r, d1) \<and> nd_detached d1 = nd_detached d \<and> nd_sys_name d1 = nd_sys_name d \<and>
    (case do { bus \<leftarrow> byte_of lw b; v \<leftarrow> a; addr \<leftarrow> byte_of lw v; Some (bus, addr) } of
       None \<Rightarrow> r = -1
     | Some (bus, addr) \<Rightarrow> r = 0 \<and> nd_busnum d1 = bus \<and> nd_devaddr d1 = addr)"
proof (cases at)
  case None
  with assms(1,2,4) show ?thesis
    by (cases "ulong_of lw b") (auto simp: read_address_def byte_of_def u8_of_ulong_eq Let_def split: option.split)
next
  case (Some q)
  with assms(3) obtain v where "a = Some v" "strtoul lw buf q = Some (ulong_of lw v)" by blast
  with assms(1,2) Some show ?thesis
    by (cases "ulong_of lw b"; cases "ulong_of lw v") (auto simp: read_address_def byte_of_def u8_of_ulong_eq Let_def split: option.split)
qed

lemma slash_found:
  assumes "string_at buf p v"
  shows "strrchr_slash buf p = Some (map_option (\<lambda>(dir, nm). p + length dir) (slash_parts v))"
  using slash_parts_strrchr [of v] string_at_string [OF assms] by (auto simp: strrchr_slash_def split: option.splits prod.splits)

lemma read_sys_name_path:
  assumes m: "holds_message buf len fs"
  shows "\<exists>r d1. read_sys_name buf len d = Some (r, d1) \<and> nd_detached d1 = nd_detached d \<and> nd_busnum d1 = nd_busnum d \<and>
    nd_devaddr d1 = nd_devaddr d \<and> (case field ''DEVPATH'' fs of None \<Rightarrow> r = -1
      | Some path \<Rightarrow> r = 0 \<and> (case slash_parts path of None \<Rightarrow> nd_sys_name d1 = nd_sys_name d
          | Some (_, nm) \<Rightarrow> name_at buf (nd_sys_name d1) = Some (Some (chars nm))))"
proof (cases rule: key_found [OF m no_nul_literals(6)])
  case 1
  then show ?thesis by (simp add: read_sys_name_def)
next
  case (2 p v)
  have "string_at buf (p + (length dir + 1)) nm" if "slash_parts v = Some (dir, nm)" for dir nm
    using string_at_drop [OF 2(3), of "length dir + 1"] slash_parts_strrchr [of v] that by simp
  then have "name_at buf (Some (Suc (p + length dir))) = Some (Some (chars nm))" if "slash_parts v = Some (dir, nm)" for dir nm
    using that by (simp add: name_at_def string_at_string)
  then show ?thesis using 2(1,2) slash_found [OF 2(3)] by (auto simp: read_sys_name_def split: option.splits)
qed

lemma device_path_numbers:
  assumes m: "holds_message buf len fs"
  shows "\<exists>r d1. read_device_path lw buf len d = Some (r, d1) \<and> nd_detached d1 = nd_detached d \<and> nd_sys_name d1 = nd_sys_name d \<and>
    (case do {
         path \<leftarrow> field ''DEVICE'' fs;
         (dir, nm) \<leftarrow> slash_parts path;
         let before = bytes_of ''DEVICE='' @ dir;
         bus \<leftarrow> byte_of lw (drop (length before - 3) before);
         addr \<leftarrow> byte_of lw nm;
         Some (bus, addr)
       } of None \<Rightarrow> r = -1 | Some (bus, addr) \<Rightarrow> r = 0 \<and> nd_busnum d1 = bus \<and> nd_devaddr d1 = addr)"
proof (cases rule: key_found [OF m no_nul_literals(7)])
  case 1
  then show ?thesis by (simp add: read_device_path_def)
next
  case (2 p v)
  show ?thesis
  proof (cases "slash_parts v")
    case None
    with 2(1,2) slash_found [OF 2(3)] show ?thesis by (simp add: read_device_path_def)
  next
    case (Some dn)
    then obtain dir nm where dn: "slash_parts v = Some (dir, nm)" "v = dir @ 47 # nm"
      using slash_parts_strrchr [of v] by (cases dn) auto
    let ?before = "bytes_of ''DEVICE='' @ dir" and ?i = "p + length dir"
    have key: "bytes_of ''DEVICE'' @ [61] @ v = ?before @ 47 # nm" by (simp add: bytes_of_def of_char_def dn(2))
    have l: "length ?before = 7 + length dir" by (simp add: bytes_of_def)
    have at: "p - 7 + (length ?before - 3) = ?i - 3" "\<not> ?i < 3" using 2(4) l by simp_all
    have p7: "p - (length ''DEVICE'' + 1) = p - 7" by simp
    have whole: "string_at buf (p - 7) (?before @ 47 # nm)" using 2(5) unfolding key p7 .
    from string_at_drop [OF whole, of "length ?before - 3"] at(1)
    have "string_at buf (?i - 3) (drop (length ?before - 3) ?before @ 47 # nm)" by simp
    then obtain rest where "drop (?i - 3) buf = drop (length ?before - 3) ?before @ 47 # (nm @ 0 # rest)" by (auto simp: string_at_def)
    then have bus: "strtoul lw buf (?i - 3) = Some (ulong_of lw (drop (length ?before - 3) ?before))"
      by (rule strtoul_stops) (simp_all add: is_space_def is_digit_def)
    have "string_at buf (?i + 1) nm" using string_at_drop [OF 2(3), of "length dir + 1"] dn(2) by simp
    from read_address_numbers [OF bus refl, of "Some (?i + 1)" "Some nm" d] string_at_strtoul [OF this] show ?thesis
      using 2(1,2) slash_found [OF 2(3)] dn(1) at(2) by (simp add: read_device_path_def Let_def)
  qed
qed

lemma netlink_parse_ok:
  assumes m: "holds_message buf len fs"
  shows "\<exists>r d. linux_netlink_parse lw buf len = Some (r, d) \<and> (case uevent lw fs of None \<Rightarrow> r = -1
    | Some (gone, nm, bus, addr) \<Rightarrow> r = 0 \<and> nd_detached d = gone \<and> name_at buf (nd_sys_name d) = Some nm \<and>
        nd_busnum d = bus \<and> nd_devaddr d = addr)"
proof -
  note v = value_is_field [OF m]
  let ?remove = "field ''ACTION'' fs = Some (bytes_of ''remove'')" and ?add = "field ''ACTION'' fs = Some (bytes_of ''add'')"
  let ?d = "no_netlink_device\<lparr>nd_detached := ?remove\<rparr>"
  have acts: "bytes_of ''remove'' \<noteq> bytes_of ''add''" by (simp add: bytes_of_def)
  show ?thesis
  proof (cases "(?remove \<or> ?add) \<and> field ''SUBSYSTEM'' fs = Some (bytes_of ''usb'') \<and> field ''DEVTYPE'' fs = Some (bytes_of ''usb_device'')")
    case False
    then have "uevent lw fs = None" by (cases "field ''ACTION'' fs") (auto simp: uevent_def)
    moreover have "\<exists>d. linux_netlink_parse lw buf len = Some (-1, d)" using False v by (auto simp: linux_netlink_parse_def Let_def)
    ultimately show ?thesis by auto
  next
    case True
    then obtain action where act: "field ''ACTION'' fs = Some action" "action \<in> {bytes_of ''remove'', bytes_of ''add''}" by auto
    have gone: "?remove \<longleftrightarrow> action = bytes_of ''remove''" using act(1) by simp
    show ?thesis
    proof (cases rule: key_found [OF m no_nul_literals(4)])
      case 1
      have run: "linux_netlink_parse lw buf len = read_device_path lw buf len ?d"
        using True v 1(1) acts by (auto simp: linux_netlink_parse_def Let_def)
      have spec: "uevent lw fs = do { path \<leftarrow> field ''DEVICE'' fs; (dir, nm) \<leftarrow> slash_parts path;
          let before = bytes_of ''DEVICE='' @ dir; bus \<leftarrow> byte_of lw (drop (length before - 3) before); addr \<leftarrow> byte_of lw nm;
          Some (?remove, None, bus, addr) }"
        using True act(1) 1(2) by (auto simp: uevent_def)
      from device_path_numbers [OF m, of lw ?d] obtain r d1 where
        rp: "read_device_path lw buf len ?d = Some (r, d1)" "nd_detached d1 = ?remove" "nd_sys_name d1 = None"
          "case do { path \<leftarrow> field ''DEVICE'' fs; (dir, nm) \<leftarrow> slash_parts path; let before = bytes_of ''DEVICE='' @ dir;
             bus \<leftarrow> byte_of lw (drop (length before - 3) before); addr \<leftarrow> byte_of lw nm; Some (bus, addr) } of
             None \<Rightarrow> r = -1 | Some (bus, addr) \<Rightarrow> r = 0 \<and> nd_busnum d1 = bus \<and> nd_devaddr d1 = addr"
        by (auto simp: no_netlink_device_def)
      then show ?thesis unfolding run spec by (auto simp: name_at_def Let_def split: option.splits prod.splits bind_splits)
    next
      case (2 p b)
      obtain at where at: "netlink_message_parse buf len ''DEVNUM'' = Some at"
        "\<And>q. at = Some q \<Longrightarrow> \<exists>a. field ''DEVNUM'' fs = Some a \<and> strtoul lw buf q = Some (ulong_of lw a)"
        "at = None \<Longrightarrow> field ''DEVNUM'' fs = None"
        by (cases rule: key_found [OF m no_nul_literals(5)]) (auto intro: string_at_strtoul)
      from read_address_numbers [OF string_at_strtoul [OF 2(3)] at, where d = "?d"] obtain r d1 where
        ra: "read_address lw buf p (netlink_message_parse buf len ''DEVNUM'') ?d = Some (r, d1)" "nd_detached d1 = ?remove"
          "nd_sys_name d1 = None"
          "case do { bus \<leftarrow> byte_of lw b; v \<leftarrow> field ''DEVNUM'' fs; addr \<leftarrow> byte_of lw v; Some (bus, addr) } of
             None \<Rightarrow> r = -1 | Some (bus, addr) \<Rightarrow> r = 0 \<and> nd_busnum d1 = bus \<and> nd_devaddr d1 = addr"
        by (auto simp: no_netlink_device_def)
      have run: "linux_netlink_parse lw buf len = (if r \<noteq> 0 then Some (r, d1) else read_sys_name buf len d1)"
        using True v 2(1) ra(1) acts by (auto simp: linux_netlink_parse_def Let_def)
      have spec: "uevent lw fs = do { bus \<leftarrow> byte_of lw b; a \<leftarrow> field ''DEVNUM'' fs; addr \<leftarrow> byte_of lw a; path \<leftarrow> field ''DEVPATH'' fs;
          Some (?remove, map_option (\<lambda>(_, nm). chars nm) (slash_parts path), bus, addr) }"
        using True act(1) 2(2) by (auto simp: uevent_def)
      show ?thesis
      proof (cases "do { bus \<leftarrow> byte_of lw b; v \<leftarrow> field ''DEVNUM'' fs; addr \<leftarrow> byte_of lw v; Some (bus, addr) }")
        case None
        then have "uevent lw fs = None" unfolding spec by (auto split: bind_splits)
        moreover have "r = -1" using ra(4) None by simp
        ultimately show ?thesis using run by simp
      next
        case (Some ba)
        obtain bus addr where ba: "ba = (bus, addr)" by fastforce
        have "uevent lw fs = do { path \<leftarrow> field ''DEVPATH'' fs; Some (?remove, map_option (\<lambda>(_, nm). chars nm) (slash_parts path), bus, addr) }"
          using Some ba unfolding spec by (auto elim!: bind_SomeE)
        moreover have "r = 0" "nd_busnum d1 = bus" "nd_devaddr d1 = addr" using ra(4) Some ba by simp_all
        ultimately show ?thesis using run ra(2,3) read_sys_name_path [OF m, of d1]
          by (cases "field ''DEVPATH'' fs"; cases "slash_parts (the (field ''DEVPATH'' fs))") (auto simp: name_at_def)
      qed
    qed
  qed
qed

subsection \<open>The message of a device\<close>

text \<open>The fields of the kernel's message for a device, with three digits for the bus and for the address.\<close>

definition kernel_uevent :: "bool \<Rightarrow> u8 list \<Rightarrow> u8 \<Rightarrow> u8 \<Rightarrow> u8 list list" where
  "kernel_uevent gone path bus addr =
     (let action = (if gone then bytes_of ''remove'' else bytes_of ''add'') in
      [action @ bytes_of ''@'' @ path, bytes_of ''ACTION='' @ action, bytes_of ''DEVPATH='' @ path, bytes_of ''SUBSYSTEM=usb'',
       bytes_of ''MAJOR=189'', bytes_of ''DEVTYPE=usb_device'', bytes_of ''BUSNUM='' @ bytes_of (fmt_03 bus),
       bytes_of ''DEVNUM='' @ bytes_of (fmt_03 addr)])"

definition digit_byte :: "nat \<Rightarrow> u8" where
  "digit_byte d = word_of_nat (48 + d mod 10)"

lemma bytes_of_fmt_03: "bytes_of (fmt_03 n) = map digit_byte [unat n div 100, unat n div 10, unat n]"
proof -
  have "(of_char (char_of (48 + d mod 10 :: nat)) :: u8) = digit_byte d" for d
  proof -
    have m: "48 + d mod 10 < 256" using mod_less_divisor [of 10 d] by linarith
    have "(of_char (char_of (48 + d mod 10 :: nat)) :: u8) = of_nat (of_char (char_of (48 + d mod 10 :: nat)))"
      by (simp only: of_nat_of_char)
    then show ?thesis using m by (simp add: digit_byte_def)
  qed
  then show ?thesis by (simp add: bytes_of_def fmt_03_def)
qed

lemma digit_byte:
  "is_digit (digit_byte d)" "\<not> is_space (digit_byte d)" "digit_byte d \<noteq> 45" "digit_byte d \<noteq> 43" "digit_byte d \<noteq> 0"
  "int_of (digit_byte d) - 48 = int (d mod 10)"
proof -
  have "m \<in> {0, 1, 2, 3, 4, 5, 6, 7, 8, 9}" if "m < 10" for m :: nat using that by (simp, presburger)
  from this [of "d mod 10"] have "d mod 10 \<in> {0, 1, 2, 3, 4, 5, 6, 7, 8, 9}" by simp
  then show "is_digit (digit_byte d)" "\<not> is_space (digit_byte d)" "digit_byte d \<noteq> 45" "digit_byte d \<noteq> 43" "digit_byte d \<noteq> 0"
    "int_of (digit_byte d) - 48 = int (d mod 10)"
    by (auto simp: is_digit_def is_space_def digit_byte_def)
qed

lemma byte_of_fmt_03:
  assumes "8 \<le> lw"
  shows "byte_of lw (bytes_of (fmt_03 n)) = Some n"
proof -
  let ?ds = "map digit_byte [unat n div 100, unat n div 10, unat n]"
  have n: "unat n < 256" by simp
  have "unat n div 100 mod 10 * 100 + unat n div 10 mod 10 * 10 + unat n mod 10 = unat n"
  proof -
    have "unat n div 10 div 10 = unat n div 100" by (simp add: div_mult2_eq [symmetric])
    moreover have "unat n div 10 = 10 * (unat n div 10 div 10) + unat n div 10 mod 10" "unat n = 10 * (unat n div 10) + unat n mod 10"
      by simp_all
    moreover have "unat n div 100 mod 10 = unat n div 100" using n by (intro mod_less) linarith
    ultimately show ?thesis by linarith
  qed
  moreover have "((0 * 10 + int a) * 10 + int b) * 10 + int c = int (a * 100 + b * 10 + c)" for a b c by simp
  ultimately have "digits_value ?ds 0 = int (unat n)" by (simp only: list.map digits_value.simps digit_byte(6))
  moreover have "int (unat n) < 2 ^ lw"
  proof -
    have "(256 :: nat) \<le> 2 ^ lw" using power_increasing [OF assms, of "2 :: nat"] by simp
    with n have "unat n < 2 ^ lw" by linarith
    then show ?thesis by (simp del: of_nat_unat)
  qed
  ultimately have "ulong_value lw False ?ds = (int (unat n), False)" by (simp add: ulong_value_def)
  then show ?thesis
    by (simp add: byte_of_def ulong_of_def split_sign_def bytes_of_fmt_03 digit_byte)
qed

lemma fmt_03_no_nul: "0 \<notin> set (bytes_of (fmt_03 n))"
  using digit_byte(5) by (auto simp: bytes_of_fmt_03)

lemma uevent_kernel:
  assumes "8 \<le> lw"
  shows "uevent lw (kernel_uevent gone path bus addr) = Some (gone, map_option (\<lambda>(_, nm). chars nm) (slash_parts path), bus, addr)"
proof -
  let ?fs = "kernel_uevent gone path bus addr"
  have "field ''ACTION'' ?fs = Some (if gone then bytes_of ''remove'' else bytes_of ''add'')" 
    "field ''SUBSYSTEM'' ?fs = Some (bytes_of ''usb'')" "field ''DEVTYPE'' ?fs = Some (bytes_of ''usb_device'')"
    "field ''BUSNUM'' ?fs = Some (bytes_of (fmt_03 bus))" "field ''DEVNUM'' ?fs = Some (bytes_of (fmt_03 addr))"
    "field ''DEVPATH'' ?fs = Some path"
    by (simp_all add: kernel_uevent_def bytes_of_def of_char_def)
  moreover have "bytes_of ''remove'' \<noteq> bytes_of ''add''" by (simp add: bytes_of_def)
  ultimately show ?thesis using byte_of_fmt_03 [OF assms] by (simp add: uevent_def)
qed

lemma kernel_message:
  assumes "0 \<notin> set path" and "bs = message_bytes (kernel_uevent gone path bus addr)"
  shows "holds_message (bs @ junk) (length bs) (kernel_uevent gone path bus addr)"
proof -
  have "0 \<notin> set (bytes_of ''@'')" "0 \<notin> set (bytes_of ''ACTION='')" "0 \<notin> set (bytes_of ''DEVPATH='')"
    "0 \<notin> set (bytes_of ''SUBSYSTEM=usb'')" "0 \<notin> set (bytes_of ''MAJOR=189'')" "0 \<notin> set (bytes_of ''DEVTYPE=usb_device'')"
    "0 \<notin> set (bytes_of ''BUSNUM='')" "0 \<notin> set (bytes_of ''DEVNUM='')"
    by (simp_all add: bytes_of_def of_char_def)
  then show ?thesis using assms fmt_03_no_nul by (auto simp: holds_message_def kernel_uevent_def Let_def)
qed

text \<open>C37. What is read from a message is what its fields say: the action, the subsystem and the type of the device, then the
  numbers of the bus and the device with the name from its path, or both numbers from the path of its node. Every read
  is inside the array, whatever follows the message in it.\<close>

theorem netlink_parse_correct:
  assumes m: "holds_message buf len fs"
  shows "\<exists>r d. linux_netlink_parse lw buf len = Some (r, d) \<and> (case uevent lw fs of None \<Rightarrow> r = -1
    | Some (gone, nm, bus, addr) \<Rightarrow> r = 0 \<and> nd_detached d = gone \<and> name_at buf (nd_sys_name d) = Some nm \<and>
        nd_busnum d = bus \<and> nd_devaddr d = addr)"
  by (rule netlink_parse_ok [OF m])

text \<open>C38. The message that the kernel makes for a device gives that device back: whether it left, the part of its path after
  the last slash as its name, its bus and its address, for every bus and address of eight bits.\<close>

theorem netlink_message_roundtrip:
  assumes lw: "8 \<le> lw" and path: "0 \<notin> set path" and bs: "bs = message_bytes (kernel_uevent gone path bus addr)"
  shows "\<exists>d. linux_netlink_parse lw (bs @ junk) (length bs) = Some (0, d) \<and> nd_detached d = gone \<and> nd_busnum d = bus \<and>
    nd_devaddr d = addr \<and> name_at (bs @ junk) (nd_sys_name d) = Some (map_option (\<lambda>(_, nm). chars nm) (slash_parts path))"
  using netlink_parse_ok [OF kernel_message [OF path bs, of junk], of lw] by (auto simp: uevent_kernel [OF lw])

text \<open>A message that fills the array without a NUL is read past its end.\<close>

lemma unended_message_overread:
  assumes "0 \<notin> set buf" and "buf \<noteq> []" and "take (length key) buf \<noteq> bytes_of key" and "length key \<le> length buf"
  shows "netlink_message_parse buf (length buf) key = None"
proof -
  have "buf ! 0 \<noteq> 0" using assms(1,2) nth_mem [of 0 buf] by (metis length_greater_0_conv)
  moreover have "strncmp0 ks s = Some False" if "take (length ks) s \<noteq> ks" "length ks \<le> length s" for ks s
    using that by (induction ks arbitrary: s) (auto simp: Suc_le_length_iff)
  then have "strncmp0 (bytes_of key) buf = Some False" using assms(3,4) by (simp add: bytes_of_def)
  moreover have tw: "takeWhile (\<lambda>b. b \<noteq> 0) buf = buf" using assms(1) by (auto simp: takeWhile_eq_all_conv)
  have "c_strlen buf 0 = None" unfolding c_strlen_def Let_def drop_0 tw by simp
  ultimately show ?thesis
    using assms(2) unfolding netlink_message_parse_def by (subst message_loop.simps) simp
qed

subsection \<open>All contexts\<close>

text \<open>Each context with the references to its devices that are held outside.\<close>

definition contexts_ok :: "linux_globals \<Rightarrow> core_backend \<Rightarrow> ptr multiset list \<Rightarrow> linux_ctx list \<Rightarrow> bool" where
  "contexts_ok lg be exts ctxs \<longleftrightarrow> list_all2 (\<lambda>ext s. lx_base be ext s \<and> scan_names lg s) exts ctxs"

lemma disconnect_session_names:
  assumes b: "lx_base be ext s" and nm: "scan_names lg s"
  obtains s' ext' where "disconnect_session be sid s = Some s'" and "lx_base be ext' s'" and "scan_names lg s'"
proof (cases "\<exists>p dv. p \<in> set (co_usb_devs (lx_core s)) \<and> get_dev p (lx_core s) = Some dv \<and> dv_session_data dv = sid")
  case False
  then have "disconnect_session be sid s = Some s" using disconnect_session_ok [OF b, of sid] by (simp only: if_False)
  with b nm that show thesis by blast
next
  case True
  then obtain p s' where s': "disconnect_session be sid s = Some s'" "lx_base be (add_mset p ext) s'"
    "co_usb_devs (lx_core s') = remove1 p (co_usb_devs (lx_core s))" "\<forall>q. q \<noteq> p \<longrightarrow> same_at s s' q"
    using disconnect_session_ok [OF b, of sid] by (simp only: if_True) blast
  have "distinct (co_usb_devs (lx_core s))" using refs_ok_store [OF lx_baseD(2) [OF b]] lx_baseD(1) [OF b] by (simp add: store_ok_def)
  then have "name_of s' q = name_of s q" "q \<in> set (co_usb_devs (lx_core s))" if "q \<in> set (co_usb_devs (lx_core s'))" for q
    using that s'(3,4) same_at_parent(2) [of s s' q] by auto
  then have "scan_names lg s'" using nm by (auto simp: scan_names_def named_def)
  with s'(1,2) that show thesis by blast
qed

lemma device_disconnected_ok:
  "contexts_ok lg be exts ctxs \<Longrightarrow>
    \<exists>exts' ctxs'. linux_device_disconnected be bus addr ctxs = Some ctxs' \<and> contexts_ok lg be exts' ctxs'"
proof (induction ctxs arbitrary: exts)
  case Nil
  then show ?case by (auto simp: contexts_ok_def)
next
  case (Cons s ss)
  then obtain ext exts0 where e: "exts = ext # exts0" "lx_base be ext s" "scan_names lg s" "contexts_ok lg be exts0 ss"
    by (auto simp: contexts_ok_def list_all2_Cons2)
  from Cons.IH [OF e(4)] obtain exts' ss' where ss': "linux_device_disconnected be bus addr ss = Some ss'" "contexts_ok lg be exts' ss'" by blast
  from disconnect_session_names [OF e(2,3), of "session_id bus addr"] obtain s' ext' where
    "disconnect_session be (session_id bus addr) s = Some s'" "lx_base be ext' s'" "scan_names lg s'" by blast
  with ss' show ?case by (intro exI [of _ "ext' # exts'"] exI [of _ "s' # ss'"]) (simp add: contexts_ok_def)
qed

lemma hotplug_enumerate_ok:
  assumes files: "device_file env file lg" and dir: "lg_can_relate_devices lg \<noteq> 0 \<longleftrightarrow> nm \<noteq> None"
  shows "contexts_ok lg (le_backend env) exts ctxs \<Longrightarrow>
    \<exists>ctxs'. linux_hotplug_enumerate lg env bus addr nm ctxs = Some ctxs' \<and> contexts_ok lg (le_backend env) exts ctxs' \<and>
      list_all2 (extends {}) ctxs ctxs'"
proof (induction ctxs arbitrary: exts)
  case Nil
  then show ?case by (auto simp: contexts_ok_def)
next
  case (Cons s ss)
  then obtain ext exts0 where e: "exts = ext # exts0" "lx_base (le_backend env) ext s" "scan_names lg s"
    "contexts_ok lg (le_backend env) exts0 ss"
    by (auto simp: contexts_ok_def list_all2_Cons2)
  from Cons.IH [OF e(4)] obtain ss' where ss': "linux_hotplug_enumerate lg env bus addr nm ss = Some ss'"
    "contexts_ok lg (le_backend env) exts0 ss'" "list_all2 (extends {}) ss ss'" by blast
  from enum_dev_ok [OF files e(2,3) dir, of bus addr] obtain r s' where
    "enum_dev lg env bus addr nm s = Some (r, s')" "scanned lg (le_backend env) ext s s'" by blast
  with ss' e(1) show ?case by (auto simp: contexts_ok_def scanned_def)
qed

subsection \<open>Messages that are handled\<close>

definition accepted :: "netlink_message \<Rightarrow> bool" where
  "accepted m \<longleftrightarrow> 32 \<le> nm_len m \<and> \<not> nm_trunc m \<and> from_kernel m"

text \<open>A message of the kernel ends with NUL; the messages have the name of a device exactly when sysfs is in use.\<close>

definition message_ok :: "nat \<Rightarrow> linux_globals \<Rightarrow> netlink_message \<Rightarrow> u8 list list \<Rightarrow> bool" where
  "message_ok lw lg m fs \<longleftrightarrow> holds_message (nm_buf m) (nat (nm_len m)) fs \<and>
     (\<forall>nm bus addr. uevent lw fs = Some (False, nm, bus, addr) \<longrightarrow> (lg_can_relate_devices lg \<noteq> 0 \<longleftrightarrow> nm \<noteq> None))"

lemma read_message_ok:
  assumes files: "device_file env file lg" and c: "contexts_ok lg (le_backend env) exts ctxs"
    and m: "accepted m \<Longrightarrow> message_ok lw lg m fs"
  shows "\<exists>r exts' ctxs'. linux_netlink_read_message lw lg env m ctxs = Some (r, ctxs') \<and> contexts_ok lg (le_backend env) exts' ctxs' \<and>
    (case (if accepted m then uevent lw fs else None) of
       None \<Rightarrow> r = -1 \<and> ctxs' = ctxs
     | Some (True, _, bus, addr) \<Rightarrow> r = 0 \<and> linux_device_disconnected (le_backend env) bus addr ctxs = Some ctxs'
     | Some (False, nm, bus, addr) \<Rightarrow> r = 0 \<and> linux_hotplug_enumerate lg env bus addr nm ctxs = Some ctxs' \<and>
         list_all2 (extends {}) ctxs ctxs')"
proof (cases "accepted m")
  case False
  then have "linux_netlink_read_message lw lg env m ctxs = Some (-1, ctxs)" by (auto simp: accepted_def linux_netlink_read_message_def)
  with False c show ?thesis by auto
next
  case True
  then have h: "holds_message (nm_buf m) (nat (nm_len m)) fs"
    and names: "\<And>nm bus addr. uevent lw fs = Some (False, nm, bus, addr) \<Longrightarrow> (lg_can_relate_devices lg \<noteq> 0 \<longleftrightarrow> nm \<noteq> None)"
    using m by (auto simp: message_ok_def)
  from netlink_parse_ok [OF h, of lw] obtain r d where p: "linux_netlink_parse lw (nm_buf m) (nat (nm_len m)) = Some (r, d)"
    "case uevent lw fs of None \<Rightarrow> r = -1 | Some (gone, nm, bus, addr) \<Rightarrow> r = 0 \<and> nd_detached d = gone \<and>
       name_at (nm_buf m) (nd_sys_name d) = Some nm \<and> nd_busnum d = bus \<and> nd_devaddr d = addr" by blast
  have run: "linux_netlink_read_message lw lg env m ctxs = (if r \<noteq> 0 then Some (r, ctxs) else do {
      sys_name \<leftarrow> name_at (nm_buf m) (nd_sys_name d);
      ctxs1 \<leftarrow> (if nd_detached d then linux_device_disconnected (le_backend env) (nd_busnum d) (nd_devaddr d) ctxs
        else linux_hotplug_enumerate lg env (nd_busnum d) (nd_devaddr d) sys_name ctxs);
      Some (0, ctxs1) })"
    using True p(1) by (simp add: linux_netlink_read_message_def accepted_def)
  show ?thesis
  proof (cases "uevent lw fs")
    case None
    with run p(2) c True show ?thesis by auto
  next
    case (Some u)
    obtain gone nm bus addr where u: "u = (gone, nm, bus, addr)" by (cases u)
    note pd = p(2) [unfolded Some u, simplified]
    show ?thesis
    proof (cases gone)
      case True
      from device_disconnected_ok [OF c, of bus addr] run pd True Some u \<open>accepted m\<close> show ?thesis by auto
    next
      case False
      then have "lg_can_relate_devices lg \<noteq> 0 \<longleftrightarrow> nm \<noteq> None" using names [of nm bus addr] Some u by simp
      from hotplug_enumerate_ok [OF files this c, of bus addr] obtain ctxs' where
        "linux_hotplug_enumerate lg env bus addr nm ctxs = Some ctxs'" "contexts_ok lg (le_backend env) exts ctxs'"
        "list_all2 (extends {}) ctxs ctxs'" by blast
      with run pd False Some u \<open>accepted m\<close> show ?thesis by auto
    qed
  qed
qed


definition queue_ok :: "nat \<Rightarrow> linux_globals \<Rightarrow> netlink_message \<Rightarrow> bool" where
  "queue_ok lw lg m \<longleftrightarrow> \<not> accepted m \<or> (\<exists>fs. message_ok lw lg m fs)"

lemma read_message_keeps:
  assumes files: "device_file env file lg" and c: "contexts_ok lg (le_backend env) exts ctxs" and q: "queue_ok lw lg m"
  obtains r exts' ctxs' where "linux_netlink_read_message lw lg env m ctxs = Some (r, ctxs')"
    and "contexts_ok lg (le_backend env) exts' ctxs'"
proof (cases "accepted m")
  case False
  then have "accepted m \<Longrightarrow> message_ok lw lg m []" by blast
  from read_message_ok [OF files c this] that show thesis by blast
next
  case True
  then obtain fs where "message_ok lw lg m fs" using q by (auto simp: queue_ok_def)
  with read_message_ok [OF files c, of m lw fs] that show thesis by blast
qed

lemma hotplug_poll_loop_ok:
  assumes files: "device_file env file lg"
  shows "contexts_ok lg (le_backend env) exts ctxs \<Longrightarrow> \<forall>m \<in> set ms. queue_ok lw lg m \<Longrightarrow>
    \<exists>n exts' ctxs'. hotplug_poll_loop lw lg env ms ctxs = Some (drop n ms, ctxs') \<and> contexts_ok lg (le_backend env) exts' ctxs'"
proof (induction ms arbitrary: ctxs exts)
  case Nil
  then show ?case by auto
next
  case (Cons m ms)
  have "queue_ok lw lg m" using Cons.prems(2) by simp
  from read_message_keeps [OF files Cons.prems(1) this] obtain r exts1 ctxs1 where
    r: "linux_netlink_read_message lw lg env m ctxs = Some (r, ctxs1)" "contexts_ok lg (le_backend env) exts1 ctxs1" .
  show ?case
  proof (cases "r = 0")
    case False
    with r show ?thesis by (intro exI [of _ 1] exI [of _ exts1] exI [of _ ctxs1]) simp
  next
    case True
    from Cons.IH [OF r(2)] Cons.prems(2) obtain n exts' ctxs' where
      "hotplug_poll_loop lw lg env ms ctxs1 = Some (drop n ms, ctxs')" "contexts_ok lg (le_backend env) exts' ctxs'" by auto
    with True r(1) show ?thesis by (intro exI [of _ "Suc n"] exI [of _ exts'] exI [of _ ctxs']) simp
  qed
qed

lemma hotplug_poll_ok:
  assumes "device_file env file (st_lg st)" and "contexts_ok (st_lg st) (le_backend env) exts ctxs"
    and "\<forall>m \<in> set ms. queue_ok lw (st_lg st) m" and "\<not> st_hotplug_lock st"
  shows "\<exists>n exts' ctxs'. linux_netlink_hotplug_poll lw env ms st ctxs = Some (drop n ms, st, ctxs') \<and>
    contexts_ok (st_lg st) (le_backend env) exts' ctxs'"
proof -
  have "st\<lparr>st_hotplug_lock := True, st_hotplug_lock := False\<rparr> = st" using assms(4) by simp
  with hotplug_poll_loop_ok [OF assms(1-3)] assms(4) show ?thesis
    by (fastforce simp: linux_netlink_hotplug_poll_def lock_hotplug_def unlock_hotplug_def)
qed

text \<open>The thread of the monitor, for every sequence of polls: it faults on none, takes and gives back the lock around every
  message, leaves the variables of the backend as they were, and keeps the invariant of the devices in every context. It
  has ended exactly when a poll failed or the pipe became readable.\<close>

theorem event_thread_correct:
  assumes files: "device_file env file (st_lg st)" and c: "contexts_ok (st_lg st) (le_backend env) exts ctxs"
    and q: "\<forall>p \<in> set ps. \<forall>m. np_message p = Some m \<longrightarrow> queue_ok lw (st_lg st) m" and lk: "\<not> st_hotplug_lock st"
  shows "\<exists>exts' ctxs'. linux_netlink_event_thread_main lw env ps st ctxs = Some (\<exists>p \<in> set ps. np_failed p \<or> np_control p, st, ctxs') \<and>
    contexts_ok (st_lg st) (le_backend env) exts' ctxs'"
  using c q
proof (induction ps arbitrary: ctxs exts)
  case Nil
  then show ?case by auto
next
  case (Cons p ps)
  show ?case
  proof (cases "np_failed p \<or> np_control p")
    case True
    with Cons.prems(1) show ?thesis by auto
  next
    case False
    show ?thesis
    proof (cases "np_message p")
      case None
      with False Cons.IH [OF Cons.prems(1)] Cons.prems(2) show ?thesis by auto
    next
      case (Some m)
      then have "queue_ok lw (st_lg st) m" using Cons.prems(2) by simp
      from read_message_keeps [OF files Cons.prems(1) this] obtain r exts1 ctxs1 where
        r: "linux_netlink_read_message lw (st_lg st) env m ctxs = Some (r, ctxs1)" "contexts_ok (st_lg st) (le_backend env) exts1 ctxs1" .
      have "unlock_hotplug (st\<lparr>st_hotplug_lock := True\<rparr>) = Some st" using lk by (simp add: unlock_hotplug_def)
      with r(1) lk False Some have "linux_netlink_event_thread_main lw env (p # ps) st ctxs = linux_netlink_event_thread_main lw env ps st ctxs1"
        by (simp add: lock_hotplug_def)
      with Cons.IH [OF r(2)] Cons.prems(2) False show ?thesis by auto
    qed
  qed
qed

subsection \<open>Start and stop\<close>

text \<open>Nothing runs and no descriptor is kept; or the thread is there with the socket and the pipe.\<close>

definition monitor_stopped :: "netlink_static \<Rightarrow> bool" where
  "monitor_stopped s \<longleftrightarrow> nl_socket s = -1 \<and> nl_thread s = NoThread"

definition monitor_runs :: "int multiset \<Rightarrow> netlink_static \<Rightarrow> bool" where
  "monitor_runs fds s \<longleftrightarrow> nl_socket s \<noteq> -1 \<and> nl_thread s = Running \<and>
     nl_fds s = add_mset (snd (nl_pipe s)) (add_mset (fst (nl_pipe s)) (add_mset (nl_socket s) fds))"

lemma start_monitor_ok:
  assumes p: "pipe_ok (na_pipe a)" and s: "monitor_stopped s"
  obtains (started) s' where "linux_netlink_start_event_monitor a s = Some (0, s')" and "monitor_runs (nl_fds s) s'"
    | (failed) s' where "linux_netlink_start_event_monitor a s = Some (LIBUSB_ERROR_OTHER, s')" and "monitor_stopped s'"
        and "nl_fds s' = nl_fds s"
proof -
  define fd where "fd = (if na_socket a = -1 \<and> na_einval a then na_socket_raw a else na_socket a)"
  let ?s1 = "s\<lparr>nl_socket := fd, nl_fds := fd_open fd (nl_fds s)\<rparr>"
  note start = linux_netlink_start_event_monitor_def [of a s, folded fd_def, unfolded Let_def]
  have closed: "err_close_socket t = Some (LIBUSB_ERROR_OTHER, t\<lparr>nl_socket := -1, nl_fds := nl_fds s\<rparr>)"
    if "nl_socket t = fd" "nl_fds t = fd_open fd (nl_fds s)" "fd \<noteq> -1" for t
    using that by (simp add: err_close_socket_def fd_open_def)
  consider "fd = -1" | "fd \<noteq> -1" "set_fd_cloexec_nb a = -1 \<or> na_bind a = -1 \<or> na_setsockopt a = -1"
    | "fd \<noteq> -1" "set_fd_cloexec_nb a \<noteq> -1" "na_bind a \<noteq> -1" "na_setsockopt a \<noteq> -1" by blast
  then show thesis
  proof cases
    case 1
    with s failed [of ?s1] show thesis by (simp add: start monitor_stopped_def fd_open_def)
  next
    case 2
    then have "linux_netlink_start_event_monitor a s = err_close_socket ?s1" by (auto simp: start)
    with closed [of ?s1] 2(1) s failed show thesis by (simp add: monitor_stopped_def)
  next
    case 3
    show thesis
    proof (cases rule: usbi_pipe_balanced [OF p, of "nl_pipe ?s1" "nl_fds ?s1"])
      case (2 r q)
      have "linux_netlink_start_event_monitor a s = err_close_socket (?s1\<lparr>nl_pipe := q, nl_fds := nl_fds ?s1\<rparr>)"
        using 2 3 by (simp add: start)
      with closed [of "?s1\<lparr>nl_pipe := q, nl_fds := nl_fds ?s1\<rparr>"] 3(1) s failed show thesis by (simp add: monitor_stopped_def)
    next
      case 1
      let ?s2 = "?s1\<lparr>nl_pipe := pa_fds (na_pipe a),
        nl_fds := add_mset (snd (pa_fds (na_pipe a))) (add_mset (fst (pa_fds (na_pipe a))) (nl_fds ?s1))\<rparr>"
      have go: "linux_netlink_start_event_monitor a s = (if na_create a \<noteq> 0 then do { s3 \<leftarrow> close_pipe ?s2; err_close_socket s3 }
        else Some (LIBUSB_SUCCESS, ?s2\<lparr>nl_thread := Running\<rparr>))"
        using 1(1) 3 by (simp add: start)
      let ?s3 = "?s2\<lparr>nl_pipe := (-1, -1), nl_fds := nl_fds ?s1\<rparr>"
      have "close_pipe ?s2 = Some ?s3" by (simp add: close_pipe_def fd_close_def)
      with go closed [of ?s3] s 3(1) started failed show thesis
        by (cases "na_create a = 0") (simp_all add: monitor_stopped_def monitor_runs_def fd_open_def)
    qed
  qed
qed

lemma stop_monitor_ok:
  assumes "monitor_runs fds s" and "0 < written"
  shows "\<exists>s'. linux_netlink_stop_event_monitor written s = Some (0, s') \<and> monitor_stopped s' \<and> nl_fds s' = fds"
  using assms by (auto simp: monitor_runs_def linux_netlink_stop_event_monitor_def join_thread_def close_pipe_def fd_close_def
      monitor_stopped_def)

text \<open>C39. The start of the monitor keeps the descriptors balanced: it either succeeds, with the thread, the socket and the
  two ends of the pipe, or fails with every descriptor that it opened closed again, wherever it failed. A stop after a
  start gives them all back; the result is never positive, as the start of the backend needs.\<close>

theorem netlink_monitor_balanced:
  assumes p: "pipe_ok (na_pipe a)" and s: "monitor_stopped s" and w: "0 < written"
  shows "\<exists>r s'. linux_netlink_start_event_monitor a s = Some (r, s') \<and> r \<le> 0 \<and>
    (if r = 0 then monitor_runs (nl_fds s) s' \<and>
       (\<exists>s''. linux_netlink_stop_event_monitor written s' = Some (0, s'') \<and> monitor_stopped s'' \<and> nl_fds s'' = nl_fds s)
     else monitor_stopped s' \<and> nl_fds s' = nl_fds s)"
  by (cases rule: start_monitor_ok [OF p s]) (use stop_monitor_ok [OF _ w] in auto)

subsection \<open>Examples\<close>

definition example_path :: "u8 list" where
  "example_path = bytes_of ''/devices/usb1/1-3''"

definition example_message :: netlink_message where
  "example_message = (let bs = message_bytes (kernel_uevent True example_path 1 1) in
     \<lparr>nm_len = int (length bs), nm_buf = bs @ replicate 10 88, nm_trunc = False, nm_groups = 1, nm_pid = 0, nm_cred = Some (2, 0)\<rparr>)"

definition example_flags :: linux_globals where
  "example_flags = (st_lg example_static)\<lparr>lg_can_relate_devices := 1, lg_has_descriptors := 1\<rparr>"

lemma example_path_no_nul: "0 \<notin> set example_path"
  by (simp add: example_path_def bytes_of_def of_char_def)

lemma example_holds:
  "holds_message (nm_buf example_message) (nat (nm_len example_message)) (kernel_uevent True example_path 1 1)"
  using kernel_message [OF example_path_no_nul refl, of True 1 1 "replicate 10 88"] by (simp add: example_message_def Let_def)

lemma example_accepted: "accepted example_message"
  by (simp add: accepted_def from_kernel_def example_message_def Let_def message_bytes_def kernel_uevent_def bytes_of_def)

theorem netlink_parse_correct_witness:
  "\<exists>d. linux_netlink_parse 64 (nm_buf example_message) (nat (nm_len example_message)) = Some (0, d) \<and> nd_detached d \<and>
    nd_busnum d = 1 \<and> nd_devaddr d = 1"
  using netlink_parse_correct [OF example_holds, of 64] uevent_kernel [of 64 True example_path 1 1] by auto

theorem netlink_message_roundtrip_witness:
  "\<exists>d. linux_netlink_parse 64 (message_bytes (kernel_uevent False example_path 2 17) @ []) (length (message_bytes (kernel_uevent False example_path 2 17))) =
      Some (0, d) \<and> nd_busnum d = 2 \<and> nd_devaddr d = 17 \<and>
    name_at (message_bytes (kernel_uevent False example_path 2 17) @ []) (nd_sys_name d) = Some (Some ''1-3'')"
proof -
  have "map_option (\<lambda>(_, nm). chars nm) (slash_parts example_path) = Some ''1-3''" by code_simp
  with netlink_message_roundtrip [OF _ example_path_no_nul refl, of 64 False 2 17 "[]"] show ?thesis by auto
qed


definition example_answers :: netlink_answers where
  "example_answers = \<lparr>na_socket = -1, na_einval = True, na_socket_raw = 5, na_getfd = 0, na_setfd = 0, na_getfl = 0, na_setfl = 0,
     na_bind = 0, na_setsockopt = 0, na_pipe = \<lparr>pa_pipe = 0, pa_fds = (6, 7), pa_getfl = 0, pa_setfl = 0\<rparr>, na_create = 11\<rparr>"

theorem netlink_monitor_balanced_witness:
  "\<exists>s'. linux_netlink_start_event_monitor example_answers \<lparr>nl_socket = -1, nl_pipe = (-1, -1), nl_thread = NoThread, nl_fds = {#3#}\<rparr> =
      Some (LIBUSB_ERROR_OTHER, s') \<and> monitor_stopped s' \<and> nl_fds s' = {#3#}"
proof -
  let ?s = "\<lparr>nl_socket = -1, nl_pipe = (-1, -1), nl_thread = NoThread, nl_fds = {#3#}\<rparr>"
  have "pipe_ok (na_pipe example_answers)" "monitor_stopped ?s" by (simp_all add: pipe_ok_def monitor_stopped_def example_answers_def)
  from netlink_monitor_balanced [OF this, of 1] obtain r s' where
    r: "linux_netlink_start_event_monitor example_answers ?s = Some (r, s')"
    "if r = 0 then monitor_runs {#3#} s' else monitor_stopped s' \<and> nl_fds s' = {#3#}" by (auto split: if_splits)
  have "r = LIBUSB_ERROR_OTHER" using r(1)
    by (simp add: linux_netlink_start_event_monitor_def example_answers_def set_fd_cloexec_nb_def usbi_pipe_def fd_open_def
        close_pipe_def fd_close_def err_close_socket_def Let_def)
  with r show ?thesis by simp
qed

end
