(* ===== verification/Spec2Isabelle.thy ===== *)
theory Spec2Isabelle
  imports Desc_Api_Safety List_Head Transfer_Props Event_Props Endpoints Handle_Props Linux_Iso_Props Linux_Scan_Props Linux_Handle_Props Hotplug_Props Sync_Props Event_Loop_Props Linux_Netlink_Props
begin

text \<open>
  \<^bold>\<open>Verification of the USB library\<close>

  The development models libusb 1.0.21 as it lies under \<open>src/usb/libusb-1.0.21/libusb\<close>, the part of the
  repository with a program logic of its own. A C function is a function on an explicit state that returns an
  \<open>option\<close>: \<open>None\<close> is undefined behaviour (a read or a store outside a block, the use or the release of a block
  that is not live, a lock taken twice, a shift by a negative number) or a wait that never ends; every error code
  of the library is an ordinary result. Integers that are compared or stored at their width are words
  (\<open>u8\<close>, \<open>u16\<close>, \<open>u32\<close>, 64-bit masks), C \<open>int\<close>s are \<open>int\<close>.

  \<^bold>\<open>The parts\<close>

  \<^item> \<open>Usb_Prelude\<close>, \<open>C_Heap\<close>: lemmas on lists, options and words; the ledger of live blocks behind \<open>malloc\<close>,
    \<open>realloc\<close> and \<open>free\<close>, with any pattern of failing allocations, and the interface \<open>allocator\<close> with its
    interpretation on the ledger.
  \<^item> \<open>List_Head\<close> (\<open>libusbi.h\<close>, \<open>struct list_head\<close>): the pointer operations on a store of links; the interface
    \<open>linked_seq\<close> and the proof that the links implement it.
  \<^item> \<open>Usb_Types\<close>, \<open>Desc_Parser\<close>, \<open>Desc_Api\<close> (\<open>libusb.h\<close>, \<open>descriptor.c\<close>): descriptors as records, the parser of
    configurations and capabilities, the functions that fetch, search and free descriptors. \<open>Desc_Safety\<close> and
    \<open>Desc_Api_Safety\<close>: totality, memory safety, ownership of blocks, round trips.
  \<^item> \<open>Transfers\<close> (\<open>io.c\<close>): \<open>usbi_transfer\<close>, the list of flying transfers ordered by timeout, submission,
    cancellation, completion, timeouts with and without a timerfd, disconnection. \<open>Transfer_Invariants\<close> has the
    invariant \<open>io_wf\<close> and the effect of each operation, \<open>Transfer_Props\<close> the properties.
  \<^item> \<open>Event_Data\<close> (\<open>io.c\<close>, \<open>hotplug.c\<close>, \<open>core.c\<close>): the fields behind \<open>event_data_lock\<close>, the event pipe and the
    critical sections of the event handler and of the threads that wake it. \<open>Event_Protocol\<close>: their interleavings
    as an inductive step relation, and its invariant. \<open>Event_Props\<close>: no lost wake-up, no thread stuck.
  \<^item> \<open>Event_Loop\<close>, \<open>Event_Loop_Props\<close> (\<open>io.c\<close>): \<open>handle_events\<close> with its loop around \<open>poll\<close>, made of these critical sections
    and of the timeouts, and the functions with which programs handle events; other threads, callbacks and the backend
    take steps of the relation at every call.
  \<^item> \<open>Core_Device\<close> (\<open>core.c\<close>): reference counted devices, device lists, port numbers; \<open>Device_Refs\<close> (counts
    are exact), \<open>Device_Lists\<close>, \<open>Device_Props\<close>. \<open>Endpoints\<close>: packet sizes on parsed configurations.
  \<^item> \<open>Core_Handles\<close> (\<open>core.c\<close>): the library's context made of the parts above; opening, closing and claiming.
    \<open>Handle_Props\<close>: their properties.

  \<^item> \<open>Linux_Urbs\<close>, \<open>Linux_Reap\<close> (\<open>os/linux_usbfs.c\<close>): cutting transfers into URBs, handing them to the kernel,
    discarding and reaping them. \<open>Linux_Bulk\<close> (the invariant \<open>urbs_wf\<close>) and \<open>Linux_Bulk_Props\<close>: the URBs of a
    bulk transfer in every order of events of the kernel; \<open>Linux_Iso_Props\<close>: the partition of isochronous packets.
  \<^item> \<open>Linux_Config\<close>, \<open>Linux_Config_Props\<close> (\<open>os/linux_usbfs.c\<close>): configurations in the cached descriptors. The
    interface \<open>config_source\<close> is what \<open>descriptor.c\<close> asks of a backend, with this one as its interpretation.
  \<^item> \<open>Linux_Devices\<close> (\<open>os/linux_usbfs.c\<close>): the files of a device, reading its descriptors, its parent by the name in
    sysfs, enumeration. \<open>Linux_Device_Inv\<close>, \<open>Linux_Device_Steps\<close>, \<open>Linux_Device_Enum\<close>: the invariant (exact reference
    counts, names and topology agree) and what each step does to it; \<open>Linux_Device_Props\<close>: the properties.
  \<^item> \<open>Linux_Scan\<close>, \<open>Linux_Scan_Props\<close> (\<open>os/linux_usbfs.c\<close>): versions of the kernel, scans of sysfs and usbfs, arrival and
    disconnection in all contexts, the start and the end of the backend and its monitor.
  \<^item> \<open>Linux_Handles\<close>, \<open>Linux_Handle_Props\<close> (\<open>os/linux_usbfs.c\<close>): the requests to the kernel on an open device; the claims of
    the library and those of the kernel, through claiming, releasing and reset.
  \<^item> \<open>Linux_Netlink\<close>, \<open>Linux_Netlink_Props\<close> (\<open>os/linux_netlink.c\<close>): the messages of the kernel about devices as bytes in an
    array, what is read from them (\<open>uevent\<close> says it on the fields of the message), their effect on all contexts, the thread and
    the descriptors of the monitor. \<open>Posix_Os\<close> (\<open>os/poll_posix.c\<close>, \<open>os/threads_posix.c\<close>): pipes and the deadline of a wait.
  \<^item> \<open>Hotplug\<close>, \<open>Hotplug_Props\<close> (\<open>hotplug.c\<close>): callbacks, their registration and lazy deregistration, matching of events.
    The interface \<open>hotplug_user\<close> is what a user's function may do to the list; functions that call the library satisfy it.

  \<^item> \<open>Transfer_Setup\<close> (the inline functions of \<open>libusb.h\<close>), \<open>Sync\<close>, \<open>Sync_Props\<close> (\<open>sync.c\<close>): preparing transfers, and
    synchronous transfers over a stream of calls of the event handler; \<open>balanced\<close> says what they give back.

  \<^bold>\<open>Bounds\<close>

  Loops are recursive functions on their data. \<open>disconnect_loop\<close> has fuel, one round more than there are transfers
  in flight; \<open>handle_disconnect_correct\<close> shows that this is enough. Enumerating a device of sysfs recurses over the names of its hubs, with one step of fuel more than its name has
  characters, which \<open>linux_enumerate_correct\<close> shows to be enough. \<open>libusb_unref_device\<close> follows the chain of parents
  and is a \<open>partial_function\<close>; \<open>unref_device_exact\<close> shows that it returns. So are the loops of the
  event handler (\<open>handle_events_correct\<close> shows that they end when \<open>poll\<close> runs out of events) and the wait of a synchronous
  transfer, which may wait for ever; \<open>sync_wait_exact\<close> says exactly when it returns. The capacity of the event pipe is a
  parameter of its model: \<open>proto_inv\<close> keeps at most one byte in it.

  \<^bold>\<open>Not modelled\<close>

  The operating system (system calls, \<open>poll\<close>, threads, clocks) and the backends' answers are parameters:
  \<open>env\<close>, \<open>reader\<close>, \<open>core_backend\<close>, \<open>handle_backend\<close>. The order of memory accesses inside a critical section is
  not observable in the model. Other backends than Linux, the examples and tests of libusb, the kernel's gadget drivers, and the
  camera and Android services are outside the development.
\<close>

end
